(* ===== verification/Prelude.thy ===== *)
theory Prelude
  imports Main "HOL-Library.Word"
begin

text \<open>
  Shared vocabulary of the development: bytes, little-endian integers as the code's
  \<^verbatim>\<open>WRITEDATA\<close>/\<^verbatim>\<open>READDATA\<close> copy them on the little-endian machines the
  program is built for, the wrap-around of C's signed integers, and the lemmas on lists
  and options that several components use.  The named collections \<open>wire\<close> (facts about
  encodings) and \<open>bounds\<close> (facts about ranges) are filled by the component theories.
\<close>

named_theorems wire "facts about encodings and decodings"
named_theorems bounds "facts about the ranges of values"

type_synonym byte = "8 word"
type_synonym bytes = "8 word list"
type_synonym uint256 = "256 word"
type_synonym uint160 = "160 word"
type_synonym u32 = "32 word"

section \<open>Little-endian integers\<close>

primrec le_bytes :: "nat \<Rightarrow> nat \<Rightarrow> bytes" where
  "le_bytes 0 n = []"
| "le_bytes (Suc k) n = word_of_nat (n mod 256) # le_bytes k (n div 256)"

primrec le_nat :: "bytes \<Rightarrow> nat" where
  "le_nat [] = 0"
| "le_nat (b # bs) = unat b + 256 * le_nat bs"

text \<open>Big-endian: the same bytes the other way round.\<close>

definition be_nat :: "bytes \<Rightarrow> nat" where
  "be_nat bs = le_nat (rev bs)"

definition be_bytes :: "nat \<Rightarrow> nat \<Rightarrow> bytes" where
  "be_bytes k n = rev (le_bytes k n)"

lemma unat_byte_lt [bounds]: "unat (b::byte) < 256"
  using unsigned_less [where 'a = nat and w = b] by simp

lemma unat_of_mod_256 [simp]: "unat (word_of_nat (n mod 256) :: byte) = n mod 256"
  by (simp add: unat_of_nat)

lemma length_le_bytes [simp, wire]: "length (le_bytes k n) = k"
  by (induction k arbitrary: n) simp_all

lemma le_nat_le_bytes [simp, wire]: "le_nat (le_bytes k n) = n mod 256 ^ k"
proof (induction k arbitrary: n)
  case 0
  then show ?case by simp
next
  case (Suc k)
  have "n mod (256 * 256 ^ k) = 256 * (n div 256 mod 256 ^ k) + n mod 256"
    by (rule mod_mult2_eq)
  then show ?case by (simp add: Suc)
qed

lemma le_nat_bound [bounds]: "le_nat bs < 256 ^ length bs"
proof (induction bs)
  case Nil
  then show ?case by simp
next
  case (Cons b bs)
  have "unat b < 256" by (rule unat_byte_lt)
  with Cons show ?case by simp
qed

lemma le_bytes_le_nat [simp, wire]: "le_bytes (length bs) (le_nat bs) = bs"
proof (induction bs)
  case Nil
  then show ?case by simp
next
  case (Cons b bs)
  have b: "unat b < 256" by (rule unat_byte_lt)
  then have "(unat b + 256 * le_nat bs) mod 256 = unat b"
    and "(unat b + 256 * le_nat bs) div 256 = le_nat bs" by simp_all
  with Cons show ?case by simp
qed

lemma le_bytes_inject:
  "m < 256 ^ k \<Longrightarrow> n < 256 ^ k \<Longrightarrow> le_bytes k m = le_bytes k n \<Longrightarrow> m = n"
  by (metis le_nat_le_bytes mod_less)

lemma le_nat_append: "le_nat (xs @ ys) = le_nat xs + 256 ^ length xs * le_nat ys"
  by (induction xs) (simp_all add: algebra_simps)

lemma length_be_bytes [simp, wire]: "length (be_bytes k n) = k"
  by (simp add: be_bytes_def)

lemma be_nat_be_bytes [simp, wire]: "be_nat (be_bytes k n) = n mod 256 ^ k"
  by (simp add: be_nat_def be_bytes_def)

lemma be_nat_bound [bounds]: "be_nat bs < 256 ^ length bs"
  using le_nat_bound [of "rev bs"] by (simp add: be_nat_def)

lemma be_nat_snoc: "be_nat (xs @ [b]) = 256 * be_nat xs + unat b"
  by (simp add: be_nat_def)

lemma be_nat_Cons: "be_nat (b # bs) = unat b * 256 ^ length bs + be_nat bs"
  by (simp add: be_nat_def le_nat_append)

lemma be_nat_Nil [simp]: "be_nat [] = 0"
  by (simp add: be_nat_def)

section \<open>Signed integers of the machine\<close>

text \<open>
  C's \<^verbatim>\<open>int\<close> and \<^verbatim>\<open>int64\<close> are \<open>int\<close> here, reduced to the two's complement
  value of their width wherever the code computes with them.
\<close>

definition i32 :: "int \<Rightarrow> int" where
  "i32 x = signed_take_bit 31 x"

definition i64 :: "int \<Rightarrow> int" where
  "i64 x = signed_take_bit 63 x"

definition in_i32 :: "int \<Rightarrow> bool" where
  "in_i32 x \<longleftrightarrow> - (2 ^ 31) \<le> x \<and> x < 2 ^ 31"

definition in_i64 :: "int \<Rightarrow> bool" where
  "in_i64 x \<longleftrightarrow> - (2 ^ 63) \<le> x \<and> x < 2 ^ 63"

lemma i32_id: "in_i32 x \<Longrightarrow> i32 x = x"
  by (simp add: i32_def in_i32_def signed_take_bit_int_eq_self)

lemma i64_id: "in_i64 x \<Longrightarrow> i64 x = x"
  by (simp add: i64_def in_i64_def signed_take_bit_int_eq_self)

lemma in_i32_i32 [simp, bounds]: "in_i32 (i32 x)"
  using signed_take_bit_int_greater_eq_minus_exp [of 31 x] signed_take_bit_int_less_exp [of 31 x]
  by (simp add: i32_def in_i32_def)

lemma in_i64_i64 [simp, bounds]: "in_i64 (i64 x)"
  using signed_take_bit_int_greater_eq_minus_exp [of 63 x] signed_take_bit_int_less_exp [of 63 x]
  by (simp add: i64_def in_i64_def)

text \<open>The unsigned reading of a signed value, as C converts it.\<close>

definition u32_of :: "int \<Rightarrow> nat" where
  "u32_of x = nat (x mod 2 ^ 32)"

definition u64_of :: "int \<Rightarrow> nat" where
  "u64_of x = nat (x mod 2 ^ 64)"

lemma u32_of_bound [bounds]: "u32_of x < 2 ^ 32"
  by (simp add: u32_of_def nat_less_iff)

lemma u64_of_bound [bounds]: "u64_of x < 2 ^ 64"
  by (simp add: u64_of_def nat_less_iff)

lemma i32_u32_of: "in_i32 x \<Longrightarrow> i32 (int (u32_of x)) = x"
  by (simp only: u32_of_def i32_def in_i32_def flip: take_bit_eq_mod)
    (simp add: signed_take_bit_take_bit signed_take_bit_int_eq_self)

lemma i64_u64_of: "in_i64 x \<Longrightarrow> i64 (int (u64_of x)) = x"
  by (simp only: u64_of_def i64_def in_i64_def flip: take_bit_eq_mod)
    (simp add: signed_take_bit_take_bit signed_take_bit_int_eq_self)

section \<open>Options and lists\<close>

lemma bind_eq_Some_conv' [simp]:
  "(case x of None \<Rightarrow> None | Some y \<Rightarrow> f y) = Some z \<longleftrightarrow> (\<exists>y. x = Some y \<and> f y = Some z)"
  by (cases x) simp_all

lemma take_append_length [simp]: "take (length xs) (xs @ ys) = xs"
  by simp

lemma nth_append_front: "i < length xs \<Longrightarrow> (xs @ ys) ! i = xs ! i"
  by (simp add: nth_append)

end
