(* ===== verification/Crypto.thy ===== *)
theory Crypto
  imports Prelude
begin

text \<open>
  The libraries the program links and the small wrappers it puts around them.  OpenSSL,
  libsecp256k1 and RandomX are not part of the repository, so their functions are the
  fields of a record \<open>ext\<close> that every definition using them takes as an argument.  What the
  code relies on of OpenSSL's BIGNUM conversions, as their manual page documents it, is the
  locale \<open>openssl_bn\<close>; a BIGNUM itself is the integer it denotes.  The wrappers of
  \<^verbatim>\<open>util.h\<close> (\<open>Hash\<close>, \<open>Hash160\<close>) and \<^verbatim>\<open>sigcheck.cpp\<close> are modelled over the record.
\<close>

section \<open>The linked libraries\<close>

text \<open>
  A parsed secp256k1 key or signature is an opaque buffer of the C API, hence \<open>bytes\<close>;
  a parser that refuses its input returns \<open>None\<close>.
\<close>

record ext =
  SHA256 :: "bytes \<Rightarrow> bytes"
  SHA1 :: "bytes \<Rightarrow> bytes"
  RIPEMD160 :: "bytes \<Rightarrow> bytes"
  BN_mpi2bn :: "bytes \<Rightarrow> int"
  BN_bn2mpi :: "int \<Rightarrow> bytes"
  BN_get_word :: "int \<Rightarrow> nat"
  secp_pubkey_parse :: "bytes \<Rightarrow> bytes option"
  secp_parse_der :: "bytes \<Rightarrow> bytes option"
  secp_normalize :: "bytes \<Rightarrow> bytes"
  secp_ecdsa_verify :: "bytes \<Rightarrow> bytes \<Rightarrow> bytes \<Rightarrow> bool"
  secp_xonly_parse :: "bytes \<Rightarrow> bytes option"
  secp_schnorr_verify :: "bytes \<Rightarrow> bytes \<Rightarrow> bytes \<Rightarrow> bool"

section \<open>The MPI format of a BIGNUM\<close>

text \<open>
  OpenSSL's MPI format: a four byte big-endian length, then the magnitude big-endian, the
  top bit of its first byte being the sign; zero has length 0.  \<open>mpi_value\<close> reads a body,
  \<open>mpi_body\<close> is the shortest body of an integer.
\<close>

fun mpi_value :: "bytes \<Rightarrow> int" where
  "mpi_value [] = 0"
| "mpi_value (b # bs) =
     (if 128 \<le> unat b then - int ((unat b - 128) * 256 ^ length bs + be_nat bs)
      else int (unat b * 256 ^ length bs + be_nat bs))"

function le_min :: "nat \<Rightarrow> bytes" where
  "le_min n = (if n = 0 then [] else word_of_nat (n mod 256) # le_min (n div 256))"
  by pat_completeness auto
termination
  by (relation "measure id") auto

declare le_min.simps [simp del]

definition mpi_body :: "int \<Rightarrow> bytes" where
  "mpi_body n =
     (case rev (le_min (nat \<bar>n\<bar>)) of
        [] \<Rightarrow> []
      | b # bs \<Rightarrow>
          if 128 \<le> unat b then (if n < 0 then 128 else 0) # b # bs
          else (if n < 0 then b + 128 else b) # bs)"

lemma le_min_0 [simp]: "le_min 0 = []"
  by (simp add: le_min.simps)

lemma le_min_pos: "0 < n \<Longrightarrow> le_min n = word_of_nat (n mod 256) # le_min (n div 256)"
  by (subst le_min.simps) simp

lemma le_nat_le_min [simp]: "le_nat (le_min n) = n"
proof (induction n rule: less_induct)
  case (less n)
  show ?case
  proof (cases "n = 0")
    case False
    then have "le_nat (le_min (n div 256)) = n div 256" by (intro less) simp
    with False show ?thesis by (simp add: le_min_pos)
  qed simp
qed

lemma le_min_eq_Nil [simp]: "le_min n = [] \<longleftrightarrow> n = 0"
  by (subst le_min.simps) simp

text \<open>The last byte, the most significant one, is not zero: the encoding is the shortest.\<close>

lemma last_le_min: "0 < n \<Longrightarrow> last (le_min n) \<noteq> 0"
proof (induction n rule: less_induct)
  case (less n)
  show ?case
  proof (cases "n < 256")
    case True
    with less.prems have "le_min n = [word_of_nat n]" by (simp add: le_min_pos)
    moreover have "(word_of_nat n :: byte) \<noteq> 0"
      using True less.prems by (simp add: word_of_nat_eq_0_iff nat_dvd_not_less)
    ultimately show ?thesis by simp
  next
    case False
    then have "0 < n div 256" and "n div 256 < n" by simp_all
    with less.IH have "last (le_min (n div 256)) \<noteq> 0" by blast
    with \<open>0 < n div 256\<close> less.prems show ?thesis by (simp add: le_min_pos [of n])
  qed
qed

lemma length_le_min_le: "n < 256 ^ k \<Longrightarrow> length (le_min n) \<le> k"
proof (induction k arbitrary: n)
  case 0
  then show ?case by simp
next
  case (Suc k)
  show ?case
  proof (cases "n = 0")
    case False
    from Suc.prems have "n div 256 < 256 ^ k" by (simp add: less_mult_imp_div_less)
    with Suc.IH have "length (le_min (n div 256)) \<le> k" .
    with False show ?thesis by (simp add: le_min_pos)
  qed simp
qed

lemma le_min_le_nat: "(bs = [] \<or> last bs \<noteq> 0) \<Longrightarrow> le_min (le_nat bs) = bs"
proof (induction bs)
  case Nil
  then show ?case by simp
next
  case (Cons b bs)
  show ?case
  proof (cases "bs = []")
    case True
    with Cons.prems have "0 < unat b" by (simp add: unat_gt_0)
    with True show ?thesis using unat_byte_lt [of b] by (simp add: le_min_pos)
  next
    case False
    with Cons have IH: "le_min (le_nat bs) = bs" by simp
    with False have pos: "0 < le_nat bs" by (metis bot_nat_0.not_eq_extremum le_min_eq_Nil)
    have b: "unat b < 256" by (rule unat_byte_lt)
    then have "(unat b + 256 * le_nat bs) mod 256 = unat b"
      and "(unat b + 256 * le_nat bs) div 256 = le_nat bs" by simp_all
    with pos IH show ?thesis by (simp add: le_min_pos)
  qed
qed

lemma unat_add_128: "unat (b::byte) < 128 \<Longrightarrow> unat (b + 128) = unat b + 128"
  by (simp add: unat_word_ariths)

lemma mpi_value_body [simp]: "mpi_value (mpi_body n) = n"
proof (cases "rev (le_min (nat \<bar>n\<bar>))")
  case Nil
  then have "n = 0" by simp
  with Nil show ?thesis by (simp add: mpi_body_def)
next
  case (Cons b bs)
  have "be_nat (rev (le_min (nat \<bar>n\<bar>))) = nat \<bar>n\<bar>" by (simp add: be_nat_def)
  with Cons have v: "unat b * 256 ^ length bs + be_nat bs = nat \<bar>n\<bar>" by (simp add: be_nat_Cons)
  then have vi: "int (unat b * 256 ^ length bs + be_nat bs) = \<bar>n\<bar>" by simp
  show ?thesis
  proof (cases "128 \<le> unat b")
    case True
    with Cons v show ?thesis by (auto simp: mpi_body_def be_nat_Cons)
  next
    case False
    then have "unat (b + 128) = unat b + 128" by (simp add: unat_add_128)
    with False Cons vi show ?thesis by (simp add: mpi_body_def del: of_nat_add of_nat_mult)
  qed
qed

section \<open>What the code relies on of OpenSSL\<close>

locale openssl_bn =
  fixes E :: ext
  assumes mpi2bn: "length bs < 2 ^ 32 \<Longrightarrow> BN_mpi2bn E (be_bytes 4 (length bs) @ bs) = mpi_value bs"
    and bn2mpi: "BN_bn2mpi E n = be_bytes 4 (length (mpi_body n)) @ mpi_body n"
    and get_word_small: "nat \<bar>n\<bar> < 2 ^ 32 \<Longrightarrow> BN_get_word E n = nat \<bar>n\<bar>"
    and get_word_large: "2 ^ 32 \<le> nat \<bar>n\<bar> \<Longrightarrow> 2 ^ 32 - 1 \<le> BN_get_word E n"

text \<open>
  A reference instance, executable: the conversions computed from the format.  The hash
  and signature functions of the instance are placeholders no law speaks about.
\<close>

definition mpi2bn_ref :: "bytes \<Rightarrow> int" where
  "mpi2bn_ref s = mpi_value (drop 4 s)"

definition bn2mpi_ref :: "int \<Rightarrow> bytes" where
  "bn2mpi_ref n = be_bytes 4 (length (mpi_body n)) @ mpi_body n"

definition get_word_ref :: "int \<Rightarrow> nat" where
  "get_word_ref n = min (nat \<bar>n\<bar>) (2 ^ 64 - 1)"

definition ext_with :: "(bytes \<Rightarrow> bytes) \<Rightarrow> (bytes \<Rightarrow> bytes) \<Rightarrow>
    (bytes \<Rightarrow> bytes \<Rightarrow> bytes \<Rightarrow> bool) \<Rightarrow> ext" where
  "ext_with sha rip ecdsa =
     \<lparr>SHA256 = sha, SHA1 = rip, RIPEMD160 = rip,
      BN_mpi2bn = mpi2bn_ref, BN_bn2mpi = bn2mpi_ref, BN_get_word = get_word_ref,
      secp_pubkey_parse = Some, secp_parse_der = Some, secp_normalize = id,
      secp_ecdsa_verify = ecdsa, secp_xonly_parse = Some, secp_schnorr_verify = ecdsa\<rparr>"

text \<open>
  A concrete instance for witnesses: the hash is the zero-padded input, a signature is
  valid for a key when it is equal to it.
\<close>

definition toy_hash :: "nat \<Rightarrow> bytes \<Rightarrow> bytes" where
  "toy_hash k bs = take k (bs @ replicate k 0)"

definition ref_ext :: ext where
  "ref_ext = ext_with (toy_hash 32) (toy_hash 20) (\<lambda>sig h pk. sig = pk)"

interpretation ext_with: openssl_bn "ext_with sha rip ecdsa" for sha rip ecdsa
  by unfold_locales
    (auto simp: ext_with_def mpi2bn_ref_def bn2mpi_ref_def get_word_ref_def)

lemma openssl_bn_ref: "openssl_bn ref_ext"
  unfolding ref_ext_def by (rule ext_with.openssl_bn_axioms)

section \<open>Hash wrappers (util.h)\<close>

text \<open>
  A \<^verbatim>\<open>uint256\<close> is a 256 bit word; its memory, which the hash functions write and the
  serializer copies, is the 32 bytes of the word little-endian.
\<close>

definition uint256_of_bytes :: "bytes \<Rightarrow> uint256" where
  "uint256_of_bytes bs = word_of_nat (le_nat bs)"

definition bytes_of_uint256 :: "uint256 \<Rightarrow> bytes" where
  "bytes_of_uint256 h = le_bytes 32 (unat h)"

definition uint160_of_bytes :: "bytes \<Rightarrow> uint160" where
  "uint160_of_bytes bs = word_of_nat (le_nat bs)"

definition bytes_of_uint160 :: "uint160 \<Rightarrow> bytes" where
  "bytes_of_uint160 h = le_bytes 20 (unat h)"

lemma length_bytes_of_uint256 [simp, wire]: "length (bytes_of_uint256 h) = 32"
  by (simp add: bytes_of_uint256_def)

lemma length_bytes_of_uint160 [simp, wire]: "length (bytes_of_uint160 h) = 20"
  by (simp add: bytes_of_uint160_def)

lemma le_nat_bytes_of_uint256 [simp]: "le_nat (bytes_of_uint256 h) = unat h"
proof -
  have "unat h < 256 ^ 32" using unsigned_less [where 'a = nat and w = h] by simp
  then show ?thesis by (simp only: bytes_of_uint256_def le_nat_le_bytes mod_less)
qed

lemma uint256_bytes_inverse [simp, wire]: "uint256_of_bytes (bytes_of_uint256 h) = h"
  using unsigned_less [where 'a = nat and w = h]
  by (simp add: uint256_of_bytes_def bytes_of_uint256_def)

lemma bytes_uint256_inverse [wire]: "length bs = 32 \<Longrightarrow> bytes_of_uint256 (uint256_of_bytes bs) = bs"
  using le_nat_bound [of bs] le_bytes_le_nat [of bs]
  by (simp add: uint256_of_bytes_def bytes_of_uint256_def unat_of_nat)

lemma uint160_bytes_inverse [simp, wire]: "uint160_of_bytes (bytes_of_uint160 h) = h"
  using unsigned_less [where 'a = nat and w = h]
  by (simp add: uint160_of_bytes_def bytes_of_uint160_def)

lemma bytes_uint160_inverse [wire]: "length bs = 20 \<Longrightarrow> bytes_of_uint160 (uint160_of_bytes bs) = bs"
  using le_nat_bound [of bs] le_bytes_le_nat [of bs]
  by (simp add: uint160_of_bytes_def bytes_of_uint160_def unat_of_nat)

lemma bytes_of_uint256_inject [simp]: "bytes_of_uint256 a = bytes_of_uint256 b \<longleftrightarrow> a = b"
  by (metis uint256_bytes_inverse)

definition Hash :: "ext \<Rightarrow> bytes \<Rightarrow> uint256" where
  "Hash E bs = uint256_of_bytes (SHA256 E (SHA256 E bs))"

text \<open>
  The two-range form streams both ranges through one SHA-256 context, which is the hash
  of their concatenation.
\<close>

definition Hash2 :: "ext \<Rightarrow> bytes \<Rightarrow> bytes \<Rightarrow> uint256" where
  "Hash2 E p1 p2 = uint256_of_bytes (SHA256 E (SHA256 E (p1 @ p2)))"

definition Hash160 :: "ext \<Rightarrow> bytes \<Rightarrow> uint160" where
  "Hash160 E vch = uint160_of_bytes (RIPEMD160 E (SHA256 E vch))"

section \<open>Signature checks (sigcheck.cpp)\<close>

definition SigCheckEcdsa :: "ext \<Rightarrow> bytes \<Rightarrow> bytes \<Rightarrow> bytes \<Rightarrow> bool" where
  "SigCheckEcdsa E hash32 vchSig vchPubKey =
     (if vchSig = [] \<or> vchPubKey = [] then False
      else case secp_pubkey_parse E vchPubKey of
             None \<Rightarrow> False
           | Some pubkey \<Rightarrow>
               (case secp_parse_der E vchSig of
                  None \<Rightarrow> False
                | Some sig \<Rightarrow> secp_ecdsa_verify E (secp_normalize E sig) hash32 pubkey))"

definition SigCheckSchnorr :: "ext \<Rightarrow> bytes \<Rightarrow> bytes \<Rightarrow> bytes \<Rightarrow> bool" where
  "SigCheckSchnorr E vchSig vchMsg vchPubKey =
     (if length vchSig \<noteq> 64 \<or> length vchPubKey \<noteq> 32 then False
      else case secp_xonly_parse E vchPubKey of
             None \<Rightarrow> False
           | Some pubkey \<Rightarrow> secp_schnorr_verify E vchSig vchMsg pubkey)"

lemma SigCheckEcdsa_nonempty: "SigCheckEcdsa E h sig pk \<Longrightarrow> sig \<noteq> [] \<and> pk \<noteq> []"
  by (auto simp: SigCheckEcdsa_def split: if_splits)

end
