(* ===== verification/Serialize.thy ===== *)
theory Serialize
  imports Prelude
begin

text \<open>
  The wire and disk format (src/serialize.h).  A stream being read is the list of its
  unread bytes; a reader returns the value and the rest, or \<open>None\<close> where the code throws
  \<^verbatim>\<open>ios_base::failure\<close>.  The buffer class itself, with its read position, is modelled as the
  record \<open>CDataStream\<close> and proved to refine that list.  The locale \<open>codec\<close> is the contract
  of a serializable type; its client lemmas are the round trips of vectors.
\<close>

section \<open>Constants\<close>

definition MAX_SIZE :: nat where "MAX_SIZE = 0x02000000"

section \<open>CDataStream: the buffer and its unread part\<close>

record CDataStream =
  ds_vch :: bytes
  nReadPos :: nat

definition ds_abs :: "CDataStream \<Rightarrow> bytes" where
  "ds_abs s = drop (nReadPos s) (ds_vch s)"

definition ds_ok :: "CDataStream \<Rightarrow> bool" where
  "ds_ok s \<longleftrightarrow> nReadPos s \<le> length (ds_vch s)"

text \<open>
  \<^verbatim>\<open>read\<close>: the next position is an \<^verbatim>\<open>unsigned int\<close>; reading up to the end clears the
  buffer; reading past it throws.
\<close>

definition ds_read :: "CDataStream \<Rightarrow> nat \<Rightarrow> (bytes \<times> CDataStream) option" where
  "ds_read s nSize =
     (let nReadPosNext = (nReadPos s + nSize) mod 2 ^ 32
      in if length (ds_vch s) \<le> nReadPosNext then
           (if length (ds_vch s) < nReadPosNext then None
            else Some (take nSize (drop (nReadPos s) (ds_vch s)), s\<lparr>ds_vch := [], nReadPos := 0\<rparr>))
         else Some (take nSize (drop (nReadPos s) (ds_vch s)), s\<lparr>nReadPos := nReadPosNext\<rparr>))"

definition ds_ignore :: "CDataStream \<Rightarrow> nat \<Rightarrow> CDataStream option" where
  "ds_ignore s nSize =
     (let nReadPosNext = (nReadPos s + nSize) mod 2 ^ 32
      in if length (ds_vch s) \<le> nReadPosNext then
           (if length (ds_vch s) < nReadPosNext then None else Some (s\<lparr>ds_vch := [], nReadPos := 0\<rparr>))
         else Some (s\<lparr>nReadPos := nReadPosNext\<rparr>))"

definition ds_write :: "CDataStream \<Rightarrow> bytes \<Rightarrow> CDataStream" where
  "ds_write s bs = s\<lparr>ds_vch := ds_vch s @ bs\<rparr>"

definition ds_compact :: "CDataStream \<Rightarrow> CDataStream" where
  "ds_compact s = s\<lparr>ds_vch := drop (nReadPos s) (ds_vch s), nReadPos := 0\<rparr>"

definition ds_rewind :: "CDataStream \<Rightarrow> nat \<Rightarrow> CDataStream option" where
  "ds_rewind s n = (if nReadPos s < n then None else Some (s\<lparr>nReadPos := nReadPos s - n\<rparr>))"

text \<open>The abstract stream: the unread bytes.\<close>

definition stream_read :: "nat \<Rightarrow> bytes \<Rightarrow> (bytes \<times> bytes) option" where
  "stream_read n s = (if n \<le> length s then Some (take n s, drop n s) else None)"

lemma stream_read_append [simp, wire]:
  "length xs = n \<Longrightarrow> stream_read n (xs @ rest) = Some (xs, rest)"
  by (simp add: stream_read_def)

lemma stream_readD: "stream_read n s = Some (b, r) \<Longrightarrow> s = b @ r \<and> length b = n"
  by (auto simp: stream_read_def split: if_splits)

text \<open>
  The buffer refines the stream: a read returns the same bytes and leaves the same unread
  part, or throws exactly when the stream is too short.
\<close>

lemma ds_read_refines:
  assumes "ds_ok s" and "nReadPos s + n < 2 ^ 32"
  shows "map_option (\<lambda>(b, s'). (b, ds_abs s')) (ds_read s n) = stream_read n (ds_abs s)"
  using assms
  by (auto simp: ds_read_def ds_abs_def ds_ok_def stream_read_def Let_def add.commute)

lemma ds_read_ok:
  "ds_ok s \<Longrightarrow> ds_read s n = Some (b, s') \<Longrightarrow> ds_ok s'"
  by (auto simp: ds_read_def ds_ok_def Let_def split: if_splits)

lemma ds_ignore_read: "ds_ignore s n = map_option snd (ds_read s n)"
  by (simp add: ds_ignore_def ds_read_def Let_def)

lemma ds_write_abs: "ds_ok s \<Longrightarrow> ds_abs (ds_write s bs) = ds_abs s @ bs"
  by (simp add: ds_abs_def ds_write_def ds_ok_def)

lemma ds_compact_abs [simp]: "ds_abs (ds_compact s) = ds_abs s"
  by (simp add: ds_abs_def ds_compact_def)

lemma ds_rewind_undoes_read:
  assumes "ds_ok s" "nReadPos s + n < length (ds_vch s)" "length (ds_vch s) < 2 ^ 32"
    and "ds_read s n = Some (b, s')"
  shows "ds_rewind s' n = Some s"
  using assms by (auto simp: ds_read_def ds_rewind_def Let_def)

section \<open>Integers\<close>

definition ser_uint :: "nat \<Rightarrow> nat \<Rightarrow> bytes" where
  "ser_uint k n = le_bytes k n"

definition unser_uint :: "nat \<Rightarrow> bytes \<Rightarrow> (nat \<times> bytes) option" where
  "unser_uint k s = (case stream_read k s of None \<Rightarrow> None | Some (b, r) \<Rightarrow> Some (le_nat b, r))"

definition ser_int32 :: "int \<Rightarrow> bytes" where
  "ser_int32 n = le_bytes 4 (u32_of n)"

definition unser_int32 :: "bytes \<Rightarrow> (int \<times> bytes) option" where
  "unser_int32 s =
     (case stream_read 4 s of None \<Rightarrow> None | Some (b, r) \<Rightarrow> Some (i32 (int (le_nat b)), r))"

definition ser_int64 :: "int \<Rightarrow> bytes" where
  "ser_int64 n = le_bytes 8 (u64_of n)"

definition unser_int64 :: "bytes \<Rightarrow> (int \<times> bytes) option" where
  "unser_int64 s =
     (case stream_read 8 s of None \<Rightarrow> None | Some (b, r) \<Rightarrow> Some (i64 (int (le_nat b)), r))"

lemma length_ser_int32 [simp, wire]: "length (ser_int32 n) = 4"
  by (simp add: ser_int32_def)

lemma length_ser_int64 [simp, wire]: "length (ser_int64 n) = 8"
  by (simp add: ser_int64_def)

lemma length_ser_uint [simp, wire]: "length (ser_uint k n) = k"
  by (simp add: ser_uint_def)

lemma unser_uint_ser [simp, wire]:
  "n < 256 ^ k \<Longrightarrow> unser_uint k (ser_uint k n @ rest) = Some (n, rest)"
  by (simp add: unser_uint_def ser_uint_def)

lemma u32_of_mod: "u32_of n mod 256 ^ 4 = u32_of n"
  using u32_of_bound [of n] by simp

lemma u64_of_mod: "u64_of n mod 256 ^ 8 = u64_of n"
  using u64_of_bound [of n] by simp

lemma unser_int32_ser [simp, wire]:
  "in_i32 n \<Longrightarrow> unser_int32 (ser_int32 n @ rest) = Some (n, rest)"
  by (simp add: unser_int32_def ser_int32_def u32_of_mod [simplified] i32_u32_of)

lemma unser_int64_ser [simp, wire]:
  "in_i64 n \<Longrightarrow> unser_int64 (ser_int64 n @ rest) = Some (n, rest)"
  by (simp add: unser_int64_def ser_int64_def u64_of_mod [simplified] i64_u64_of)

section \<open>Compact sizes\<close>

definition GetSizeOfCompactSize :: "nat \<Rightarrow> nat" where
  "GetSizeOfCompactSize nSize =
     (if nSize < 253 then 1 else if nSize \<le> 0xffff then 1 + 2
      else if nSize \<le> 0xffffffff then 1 + 4 else 1 + 8)"

definition WriteCompactSize :: "nat \<Rightarrow> bytes" where
  "WriteCompactSize nSize =
     (if nSize < 253 then le_bytes 1 nSize
      else if nSize \<le> 0xffff then le_bytes 1 253 @ le_bytes 2 nSize
      else if nSize \<le> 0xffffffff then le_bytes 1 254 @ le_bytes 4 nSize
      else le_bytes 1 255 @ le_bytes 8 nSize)"

definition ReadCompactSize :: "bytes \<Rightarrow> (nat \<times> bytes) option" where
  "ReadCompactSize s =
     (case unser_uint 1 s of None \<Rightarrow> None
      | Some (chSize, r) \<Rightarrow>
          if chSize < 253 then Some (chSize, r)
          else if chSize = 253 then unser_uint 2 r
          else if chSize = 254 then unser_uint 4 r
          else unser_uint 8 r)"

lemma length_WriteCompactSize [wire]: "length (WriteCompactSize n) = GetSizeOfCompactSize n"
  by (simp add: WriteCompactSize_def GetSizeOfCompactSize_def)

lemma unser_uint_le [simp]: "n < 256 ^ k \<Longrightarrow> unser_uint k (le_bytes k n @ rest) = Some (n, rest)"
  by (simp add: unser_uint_def)

lemma ReadCompactSize_Write [simp, wire]:
  "n < 2 ^ 64 \<Longrightarrow> ReadCompactSize (WriteCompactSize n @ rest) = Some (n, rest)"
  by (auto simp: ReadCompactSize_def WriteCompactSize_def simp del: le_bytes.simps)

section \<open>Byte vectors, read in blocks\<close>

text \<open>
  The unserializer of a vector of a fundamental type grows the vector by at most 5,000,000
  elements at a time, so that a bogus size cannot ask for more memory than the stream
  holds.  The size is read into an \<^verbatim>\<open>unsigned int\<close>.
\<close>

function read_blocks :: "nat \<Rightarrow> bytes \<Rightarrow> (bytes \<times> bytes) option" where
  "read_blocks n s =
     (if n = 0 then Some ([], s)
      else let blk = min n (1 + 4999999)
           in (case stream_read blk s of None \<Rightarrow> None
               | Some (b, r) \<Rightarrow>
                   (case read_blocks (n - blk) r of None \<Rightarrow> None
                    | Some (bs, r') \<Rightarrow> Some (b @ bs, r'))))"
  by pat_completeness auto
termination
  by (relation "measure fst") auto

declare read_blocks.simps [simp del]

lemma read_blocks_eq: "read_blocks n s = stream_read n s"
proof (induction n s rule: read_blocks.induct)
  case (1 n s)
  show ?case
  proof (cases "n = 0")
    case True
    then show ?thesis by (simp add: read_blocks.simps stream_read_def)
  next
    case False
    define blk where "blk = min n (1 + 4999999)"
    have blk: "blk \<le> n" by (simp add: blk_def)
    have unfold: "read_blocks n s = (case stream_read blk s of None \<Rightarrow> None
        | Some (b, r) \<Rightarrow> (case read_blocks (n - blk) r of None \<Rightarrow> None
            | Some (bs, r') \<Rightarrow> Some (b @ bs, r')))"
      unfolding blk_def by (subst read_blocks.simps) (simp only: Let_def False if_False)
    show ?thesis
    proof (cases "blk \<le> length s")
      case True
      then have read: "stream_read blk s = Some (take blk s, drop blk s)"
        by (simp add: stream_read_def)
      have "read_blocks (n - blk) (drop blk s) = stream_read (n - blk) (drop blk s)"
        by (rule "1.IH" [OF False blk_def read refl])
      moreover have "take blk s @ take (n - blk) (drop blk s) = take n s"
        using blk by (simp flip: take_add)
      ultimately show ?thesis
        using True blk by (auto simp: unfold stream_read_def)
    next
      case False
      with blk show ?thesis by (simp add: unfold stream_read_def)
    qed
  qed
qed

definition Serialize_vch :: "bytes \<Rightarrow> bytes" where
  "Serialize_vch v = WriteCompactSize (length v) @ v"

definition GetSerializeSize_vch :: "bytes \<Rightarrow> nat" where
  "GetSerializeSize_vch v = GetSizeOfCompactSize (length v) + length v"

definition Unserialize_vch :: "bytes \<Rightarrow> (bytes \<times> bytes) option" where
  "Unserialize_vch s =
     (case ReadCompactSize s of None \<Rightarrow> None
      | Some (n, r) \<Rightarrow>
          let nSize = n mod 2 ^ 32
          in if MAX_SIZE < nSize then None else read_blocks nSize r)"

lemma Unserialize_vch_Serialize [simp, wire]:
  "length v \<le> MAX_SIZE \<Longrightarrow> Unserialize_vch (Serialize_vch v @ rest) = Some (v, rest)"
  by (simp add: Unserialize_vch_def Serialize_vch_def read_blocks_eq MAX_SIZE_def)

lemma length_Serialize_vch [wire]: "length (Serialize_vch v) = GetSerializeSize_vch v"
  by (simp add: Serialize_vch_def GetSerializeSize_vch_def length_WriteCompactSize)

section \<open>Vectors of other types\<close>

definition Serialize_vector :: "('a \<Rightarrow> bytes) \<Rightarrow> 'a list \<Rightarrow> bytes" where
  "Serialize_vector ser v = WriteCompactSize (length v) @ concat (map ser v)"

definition GetSerializeSize_vector :: "('a \<Rightarrow> nat) \<Rightarrow> 'a list \<Rightarrow> nat" where
  "GetSerializeSize_vector sz v = GetSizeOfCompactSize (length v) + sum_list (map sz v)"

primrec unser_n :: "(bytes \<Rightarrow> ('a \<times> bytes) option) \<Rightarrow> nat \<Rightarrow> bytes \<Rightarrow> ('a list \<times> bytes) option" where
  "unser_n unser 0 s = Some ([], s)"
| "unser_n unser (Suc n) s =
     (case unser s of None \<Rightarrow> None
      | Some (x, r) \<Rightarrow> (case unser_n unser n r of None \<Rightarrow> None
          | Some (xs, r') \<Rightarrow> Some (x # xs, r')))"

definition Unserialize_vector ::
    "(bytes \<Rightarrow> ('a \<times> bytes) option) \<Rightarrow> bytes \<Rightarrow> ('a list \<times> bytes) option" where
  "Unserialize_vector unser s =
     (case ReadCompactSize s of None \<Rightarrow> None
      | Some (n, r) \<Rightarrow>
          let nSize = n mod 2 ^ 32 in if MAX_SIZE < nSize then None else unser_n unser nSize r)"

section \<open>The contract of a serializable type\<close>

text \<open>
  \<open>wf\<close> is the set of values whose fields fit their C types; on those the reader undoes the
  writer and consumes exactly what was written.
\<close>

locale codec =
  fixes ser :: "'a \<Rightarrow> bytes" and unser :: "bytes \<Rightarrow> ('a \<times> bytes) option" and wf :: "'a \<Rightarrow> bool"
  assumes unser_ser: "wf x \<Longrightarrow> unser (ser x @ rest) = Some (x, rest)"
begin

lemma prefix_free: "wf x \<Longrightarrow> wf y \<Longrightarrow> ser x @ r = ser y @ r' \<Longrightarrow> x = y \<and> r = r'"
  by (metis unser_ser option.inject prod.inject)

lemma ser_inject: "wf x \<Longrightarrow> wf y \<Longrightarrow> ser x = ser y \<Longrightarrow> x = y"
  by (metis prefix_free)

lemma unser_n_concat:
  "list_all wf xs \<Longrightarrow> unser_n unser (length xs) (concat (map ser xs) @ rest) = Some (xs, rest)"
  by (induction xs) (simp_all add: unser_ser)

lemma unser_vector:
  "list_all wf xs \<Longrightarrow> length xs \<le> MAX_SIZE \<Longrightarrow>
   Unserialize_vector unser (Serialize_vector ser xs @ rest) = Some (xs, rest)"
  by (simp add: Unserialize_vector_def Serialize_vector_def MAX_SIZE_def unser_n_concat)

end

text \<open>A codec that also says how long its encodings are.\<close>

locale sized_codec = codec +
  fixes sz :: "'a \<Rightarrow> nat"
  assumes length_ser: "length (ser x) = sz x"
begin

lemma length_vector: "length (Serialize_vector ser xs) = GetSerializeSize_vector sz xs"
  by (induction xs)
    (simp_all add: Serialize_vector_def GetSerializeSize_vector_def length_WriteCompactSize
      length_concat length_ser comp_def)

end

interpretation vch: sized_codec Serialize_vch Unserialize_vch "\<lambda>v. length v \<le> MAX_SIZE"
  GetSerializeSize_vch
  by unfold_locales (simp_all add: length_Serialize_vch)

interpretation int32: sized_codec ser_int32 unser_int32 in_i32 "\<lambda>_. 4"
  by unfold_locales simp_all

interpretation int64: sized_codec ser_int64 unser_int64 in_i64 "\<lambda>_. 8"
  by unfold_locales simp_all

interpretation uint32: sized_codec "ser_uint 4" "unser_uint 4" "\<lambda>n. n < 2 ^ 32" "\<lambda>_. 4"
  by unfold_locales simp_all

end
