(* ===== verification/Bignum.thy ===== *)
theory Bignum
  imports Crypto
begin

unbundle bit_operations_syntax

text \<open>
  \<^verbatim>\<open>CBigNum\<close> (src/bignum.h): the conversions between the integer a BIGNUM denotes and
  machine integers, byte vectors (the number format of scripts) and the compact form of a
  difficulty target.  Every conversion goes through OpenSSL's MPI functions, the fields
  \<open>BN_mpi2bn\<close> and \<open>BN_bn2mpi\<close> of \<open>ext\<close>; what is proved of them is proved in the locale
  \<open>openssl_bn\<close> and so holds for every OpenSSL that keeps its documented format.  The
  arithmetic operators of the class are the integer operations.
\<close>

section \<open>From machine integers\<close>

text \<open>
  The loop of \<open>setint64\<close> runs over the eight bytes from the most significant one, drops
  leading zeroes and puts the sign into the top bit, adding a byte when that bit is taken.
\<close>

primrec mpi_digits :: "bool \<Rightarrow> bytes \<Rightarrow> bytes" where
  "mpi_digits fNegative [] = []"
| "mpi_digits fNegative (c # cs) =
     (if c = 0 then mpi_digits fNegative cs
      else if c AND 0x80 \<noteq> 0 then (if fNegative then 0x80 else 0) # c # cs
      else (if fNegative then c OR 0x80 else c) # cs)"

definition mpi_frame :: "bytes \<Rightarrow> bytes" where
  "mpi_frame p = be_bytes 4 (length p) @ p"

definition setint64 :: "ext \<Rightarrow> int \<Rightarrow> int" where
  "setint64 E n =
     (let fNegative = n < 0; m = u64_of (if fNegative then - n else n)
      in BN_mpi2bn E (mpi_frame (mpi_digits fNegative (be_bytes 8 m))))"

definition setuint64 :: "ext \<Rightarrow> nat \<Rightarrow> int" where
  "setuint64 E n = BN_mpi2bn E (mpi_frame (mpi_digits False (be_bytes 8 n)))"

definition setuint256 :: "ext \<Rightarrow> uint256 \<Rightarrow> int" where
  "setuint256 E n = BN_mpi2bn E (mpi_frame (mpi_digits False (rev (bytes_of_uint256 n))))"

section \<open>To machine integers\<close>

definition INT_MAX :: int where "INT_MAX = 2 ^ 31 - 1"
definition INT_MIN :: int where "INT_MIN = - (2 ^ 31)"

definition getint :: "ext \<Rightarrow> int \<Rightarrow> int" where
  "getint E bn =
     (let n = int (BN_get_word E bn)
      in if \<not> bn < 0 then (if n > INT_MAX then INT_MAX else n)
         else (if n > INT_MAX then INT_MIN else - n))"

definition getuint256 :: "ext \<Rightarrow> int \<Rightarrow> uint256" where
  "getuint256 E bn =
     (let vch = BN_bn2mpi E bn
      in if length vch < 4 then 0
         else let vch' = (if length vch > 4 then vch[4 := (vch ! 4) AND 0x7f] else vch)
              in uint256_of_bytes (take 32 (rev (drop 4 vch'))))"

section \<open>Byte vectors: the numbers of a script\<close>

definition setvch :: "ext \<Rightarrow> bytes \<Rightarrow> int" where
  "setvch E vch = BN_mpi2bn E (be_bytes 4 (length vch) @ rev vch)"

definition getvch :: "ext \<Rightarrow> int \<Rightarrow> bytes" where
  "getvch E bn =
     (let vch = BN_bn2mpi E bn in if length vch < 4 then [] else rev (drop 4 vch))"

section \<open>The compact form of a target\<close>

definition SetCompact :: "ext \<Rightarrow> nat \<Rightarrow> int" where
  "SetCompact E nCompact =
     (let nSize = drop_bit 24 nCompact;
          b4 = word_of_nat (drop_bit 16 nCompact AND 0xff);
          b5 = word_of_nat (drop_bit 8 nCompact AND 0xff);
          b6 = word_of_nat (nCompact AND 0xff)
      in BN_mpi2bn E ([0, 0, 0, word_of_nat nSize] @
           take nSize ([b4, b5, b6] @ replicate (nSize - 3) 0)))"

definition GetCompact :: "ext \<Rightarrow> int \<Rightarrow> nat" where
  "GetCompact E bn =
     (let vch = BN_bn2mpi E bn; nSize = length vch - 4;
          c0 = take_bit 32 (push_bit 24 nSize);
          c1 = (if nSize \<ge> 1 then c0 OR push_bit 16 (unat (vch ! 4)) else c0);
          c2 = (if nSize \<ge> 2 then c1 OR push_bit 8 (unat (vch ! 5)) else c1)
      in if nSize \<ge> 3 then c2 OR unat (vch ! 6) else c2)"

text \<open>OpenSSL's \<^verbatim>\<open>BN_div\<close> and \<^verbatim>\<open>BN_rshift\<close> truncate towards zero.\<close>

definition bn_quot :: "int \<Rightarrow> int \<Rightarrow> int" where
  "bn_quot a b = sgn a * sgn b * (\<bar>a\<bar> div \<bar>b\<bar>)"

lemma bn_quot_nonneg: "0 \<le> a \<Longrightarrow> 0 < b \<Longrightarrow> bn_quot a b = a div b"
  by (cases "a = 0") (simp_all add: bn_quot_def)

section \<open>Facts about the MPI body\<close>

lemma byte_bit_7: "bit (c::byte) 7 \<longleftrightarrow> 128 \<le> unat c"
proof -
  have "bit c 7 \<longleftrightarrow> bit (unat c) 7" by (simp add: bit_unsigned_iff)
  then have "bit c 7 \<longleftrightarrow> odd (unat c div 128)" by (simp add: bit_iff_odd)
  moreover have "unat c div 128 = (if 128 \<le> unat c then 1 else 0)"
    using unat_byte_lt [of c] by (auto intro: div_nat_eqI)
  ultimately show ?thesis by (simp split: if_splits)
qed

lemma byte_top_bit: "(c::byte) AND 0x80 \<noteq> 0 \<longleftrightarrow> 128 \<le> unat c"
  using and_exp_eq_0_iff_not_bit [of c 7] by (simp add: byte_bit_7)

lemma byte_set_top: "unat (c::byte) < 128 \<Longrightarrow> c OR 0x80 = c + 0x80"
proof -
  assume "unat c < 128"
  then have "\<not> bit c 7" by (simp add: byte_bit_7)
  moreover have "bit (0x80::byte) n \<longleftrightarrow> n = 7" for n
    using bit_exp_iff [where 'a = "8 word", of 7 n] by auto
  ultimately have "c + 0x80 = c OR 0x80" by (intro disjunctive_add) auto
  then show ?thesis by simp
qed

lemma mpi_value_digits [simp]:
  "mpi_value (mpi_digits neg bs) = (if neg then - int (be_nat bs) else int (be_nat bs))"
proof (induction bs)
  case Nil
  then show ?case by simp
next
  case (Cons c cs)
  show ?case
  proof (cases "c = 0")
    case True
    with Cons show ?thesis by (simp add: be_nat_Cons)
  next
    case nz: False
    show ?thesis
    proof (cases "128 \<le> unat c")
      case True
      then have "c AND 0x80 \<noteq> 0" by (simp only: byte_top_bit)
      with nz True show ?thesis by (simp add: be_nat_Cons)
    next
      case False
      then have "c AND 0x80 = 0" and "c OR 0x80 = c + 0x80" and "unat (c + 0x80) = unat c + 128"
        using byte_top_bit [of c] by (simp_all add: byte_set_top unat_add_128)
      with nz False show ?thesis by (simp add: be_nat_Cons del: of_nat_add of_nat_mult)
    qed
  qed
qed

lemma length_mpi_digits: "length (mpi_digits neg bs) \<le> Suc (length bs)"
  by (induction bs) auto

lemma be_nat_zeros [simp]: "be_nat (replicate k 0) = 0"
  by (induction k) (simp_all add: be_nat_Cons)

lemma be_nat_append: "be_nat (xs @ ys) = be_nat xs * 256 ^ length ys + be_nat ys"
  by (simp add: be_nat_def le_nat_append)

lemma length_mpi_body_le: "nat \<bar>n\<bar> < 256 ^ k \<Longrightarrow> length (mpi_body n) \<le> Suc k"
  using length_le_min_le [of "nat \<bar>n\<bar>" k] 
  by (auto simp: mpi_body_def split: list.split dest: arg_cong [where f = length])

text \<open>The body of a non-negative integer is its big-endian magnitude.\<close>

lemma be_nat_mpi_body: "0 \<le> n \<Longrightarrow> be_nat (mpi_body n) = nat n"
proof -
  assume "0 \<le> n"
  moreover have "be_nat (rev (le_min (nat n))) = nat n" by (simp add: be_nat_def)
  ultimately show ?thesis by (auto simp: mpi_body_def be_nat_Cons split: list.split)
qed

lemma mpi_body_top_clear: "0 \<le> n \<Longrightarrow> mpi_body n = b # bs \<Longrightarrow> unat b < 128"
  by (auto simp: mpi_body_def split: list.splits if_splits)

section \<open>The conversions denote the integers they convert\<close>

context openssl_bn
begin

lemma mpi_frame_value: "length p < 2 ^ 32 \<Longrightarrow> BN_mpi2bn E (mpi_frame p) = mpi_value p"
  by (simp add: mpi_frame_def mpi2bn)

lemma digits_value:
  "length bs < 100 \<Longrightarrow> BN_mpi2bn E (mpi_frame (mpi_digits neg bs)) =
     (if neg then - int (be_nat bs) else int (be_nat bs))"
  using length_mpi_digits [of neg bs] by (subst mpi_frame_value) simp_all

lemma setint64:
  assumes "in_i64 n"
  shows "setint64 E n = n"
proof -
  have range: "nat \<bar>n\<bar> < 256 ^ 8"
    using assms by (simp add: in_i64_def nat_less_iff abs_less_iff)
  have m: "u64_of (if n < 0 then - n else n) = nat \<bar>n\<bar>"
    using range by (simp add: u64_of_def abs_if mod_pos_pos_trivial)
  have "be_nat (be_bytes 8 (nat \<bar>n\<bar>)) = nat \<bar>n\<bar>"
    by (simp only: be_nat_be_bytes mod_less [OF range])
  then show ?thesis
    unfolding setint64_def Let_def m by (subst digits_value) auto
qed

lemma setuint64: "n < 2 ^ 64 \<Longrightarrow> setuint64 E n = int n"
  by (simp add: setuint64_def digits_value mod_less)

lemma setuint256: "setuint256 E h = uint h"
  by (simp add: setuint256_def digits_value be_nat_def)

lemma setvch: "length vch < 2 ^ 32 \<Longrightarrow> setvch E vch = mpi_value (rev vch)"
  using mpi2bn [of "rev vch"] by (simp add: setvch_def)

lemma getvch: "getvch E n = rev (mpi_body n)"
  by (simp add: getvch_def Let_def bn2mpi)

lemma setvch_getvch: "length (mpi_body n) < 2 ^ 32 \<Longrightarrow> setvch E (getvch E n) = n"
  by (simp add: getvch setvch)

lemma getint: "getint E n = max INT_MIN (min INT_MAX n)"
proof (cases "nat \<bar>n\<bar> < 2 ^ 32")
  case True
  then show ?thesis
    using get_word_small [of n] by (auto simp: getint_def Let_def INT_MAX_def INT_MIN_def)
next
  case False
  then have "2 ^ 32 - 1 \<le> BN_get_word E n" by (intro get_word_large) simp
  with False show ?thesis by (auto simp: getint_def Let_def INT_MAX_def INT_MIN_def)
qed

end

section \<open>Compact targets\<close>

text \<open>
  What a compact value means: the top byte is a size in bytes, the next bit a sign and the
  low 23 bits the leading digits of the magnitude.
\<close>

definition compact_mag :: "nat \<Rightarrow> nat" where
  "compact_mag n =
     (let s = n div 2 ^ 24; m = n mod 2 ^ 23
      in if 3 \<le> s then m * 256 ^ (s - 3) else m div 256 ^ (3 - s))"

definition compact_value :: "nat \<Rightarrow> int" where
  "compact_value n =
     (if n div 2 ^ 23 mod 2 = 1 then - int (compact_mag n) else int (compact_mag n))"

lemma or_shift_add: "a < 2 ^ k \<Longrightarrow> push_bit k b OR a = b * 2 ^ k + (a::nat)"
proof -
  assume "a < 2 ^ k"
  then have "take_bit k a = a" by (simp add: take_bit_nat_eq_self)
  then have "\<not> bit a n" if "k \<le> n" for n using that by (metis bit_take_bit_iff not_le)
  then have "push_bit k b + a = push_bit k b OR a"
    by (intro disjunctive_add) (auto simp: bit_push_bit_iff not_le)
  then show ?thesis by (simp add: push_bit_eq_mult)
qed

lemma unat_byte_of: "unat (word_of_nat n :: byte) = n mod 256"
  by (simp add: unat_of_nat)

lemma and_255: "(n::nat) AND 255 = n mod 256"
proof -
  have "n AND mask 8 = n mod 256" by (simp add: take_bit_eq_mod flip: take_bit_eq_mask)
  then show ?thesis by (simp add: mask_eq_exp_minus_1)
qed

text \<open>The four bytes of a compact value, and the parts the decoder reads off them.\<close>

definition pack4 :: "nat \<Rightarrow> nat \<Rightarrow> nat \<Rightarrow> nat \<Rightarrow> nat" where
  "pack4 s a c d = ((s * 256 + a) * 256 + c) * 256 + d"

lemma pack4_bytes:
  assumes "a < 256" "c < 256" "d < 256"
  shows "pack4 s a c d div 2 ^ 24 = s" "pack4 s a c d div 2 ^ 16 mod 256 = a"
    "pack4 s a c d div 2 ^ 8 mod 256 = c" "pack4 s a c d mod 256 = d"
proof -
  have 8: "pack4 s a c d div 256 = (s * 256 + a) * 256 + c" using assms by (simp add: pack4_def)
  have 16: "pack4 s a c d div 256 div 256 = s * 256 + a" using assms by (simp add: 8)
  have 24: "pack4 s a c d div 256 div 256 div 256 = s" using assms by (simp add: 16)
  show "pack4 s a c d div 2 ^ 24 = s" using 24 by (simp add: div_mult2_eq [symmetric])
  show "pack4 s a c d div 2 ^ 16 mod 256 = a" using 16 assms by (simp add: div_mult2_eq [symmetric])
  have "(2::nat) ^ 8 = 256" by simp
  then show "pack4 s a c d div 2 ^ 8 mod 256 = c"
    by (simp only: 8 mod_mult_self3 mod_less [OF assms(2)])
  show "pack4 s a c d mod 256 = d"
    unfolding pack4_def by (simp only: mod_mult_self3 mod_less [OF assms(3)])
qed

lemma pack4_23:
  assumes "a < 256" "c < 256" "d < 256"
  shows "pack4 s a c d div 2 ^ 23 = 2 * s + a div 128"
    "pack4 s a c d mod 2 ^ 23 = (a mod 128) * 65536 + c * 256 + d"
proof -
  have "pack4 s a c d = (2 * s + a div 128) * 2 ^ 23 + ((a mod 128) * 65536 + c * 256 + d)"
  proof -
    define q r where "q = a div 128" and "r = a mod 128"
    have "a = 128 * q + r" by (simp add: q_def r_def)
    then have "pack4 s a c d = (2 * s + q) * 2 ^ 23 + (r * 65536 + c * 256 + d)"
      by (simp add: pack4_def)
    then show ?thesis by (simp only: q_def r_def)
  qed
  moreover have "(a mod 128) * 65536 + c * 256 + d < 2 ^ 23"
  proof -
    have "a mod 128 \<le> 127" by (simp add: less_Suc_eq_le [symmetric])
    with assms show ?thesis by simp
  qed
  ultimately show "pack4 s a c d div 2 ^ 23 = 2 * s + a div 128"
    and "pack4 s a c d mod 2 ^ 23 = (a mod 128) * 65536 + c * 256 + d"
    by (simp_all only: div_mult_self3 mod_mult_self3 div_less mod_less)
qed

lemma pack4_of: "pack4 (n div 2 ^ 24) (n div 2 ^ 16 mod 256) (n div 2 ^ 8 mod 256) (n mod 256) = n"
proof -
  have "n div 2 ^ 24 = n div 256 div 256 div 256" and "n div 2 ^ 16 = n div 256 div 256"
    by (simp_all add: div_mult2_eq [symmetric])
  then show ?thesis by (simp add: pack4_def)
qed

lemma compact_value_pack4:
  assumes "a < 256" "c < 256" "d < 256"
  shows "compact_value (pack4 s a c d) =
    mpi_value (take s ([word_of_nat a, word_of_nat c, word_of_nat d] @ replicate (s - 3) 0))"
proof -
  have un: "unat (word_of_nat a :: byte) = a" "unat (word_of_nat c :: byte) = c"
    "unat (word_of_nat d :: byte) = d" using assms by (simp_all add: unat_byte_of)
  have sign: "pack4 s a c d div 2 ^ 23 mod 2 = 1 \<longleftrightarrow> 128 \<le> a"
  proof -
    have "a div 128 = (if 128 \<le> a then 1 else 0)"
      using assms by (auto intro: div_nat_eqI)
    then show ?thesis by (simp only: pack4_23 [OF assms]) (simp split: if_splits)
  qed
  define m where "m = (a mod 128) * 65536 + c * 256 + d"
  have mag: "compact_mag (pack4 s a c d) =
      (if 3 \<le> s then m * 256 ^ (s - 3) else m div 256 ^ (3 - s))"
    unfolding compact_mag_def Let_def m_def pack4_bytes(1) [OF assms] pack4_23(2) [OF assms] ..
  have low: "a mod 128 = (if 128 \<le> a then a - 128 else a)"
    using assms by (auto simp: le_mod_geq)
  have val: "compact_mag (pack4 s a c d) = M \<Longrightarrow>
      mpi_value bs = (if 128 \<le> a then - int M else int M) \<Longrightarrow>
      compact_value (pack4 s a c d) = mpi_value bs" for M bs
    by (simp only: compact_value_def sign)
  consider "s = 0" | "s = 1" | "s = 2" | "3 \<le> s" by linarith
  then show ?thesis
  proof cases
    case 1
    have "m < 256 ^ 3" using assms low by (auto simp: m_def)
    then have "compact_mag (pack4 s a c d) = 0" unfolding mag using 1 by simp
    with 1 show ?thesis by (intro val [where M = 0]) simp_all
  next
    case 2
    have "m div 256 ^ 2 = a mod 128"
      unfolding m_def using assms by (intro div_nat_eqI) simp_all
    then have "compact_mag (pack4 s a c d) = a mod 128" unfolding mag using 2 by simp
    with 2 show ?thesis
      by (intro val [where M = "a mod 128"]) (simp_all add: un low)
  next
    case 3
    have "m div 256 ^ 1 = (a mod 128) * 256 + c"
      unfolding m_def using assms by (intro div_nat_eqI) simp_all
    then have "compact_mag (pack4 s a c d) = (a mod 128) * 256 + c" unfolding mag using 3 by simp
    with 3 show ?thesis
      by (intro val [where M = "(a mod 128) * 256 + c"])
        (simp_all add: un low be_nat_Cons numeral_2_eq_2)
  next
    case 4
    then obtain k where k: "s = k + 3" by (metis add.commute le_Suc_ex)
    show ?thesis
    proof (rule val [where M = "m * 256 ^ k"])
      show "compact_mag (pack4 s a c d) = m * 256 ^ k" unfolding mag using k by simp
      have body: "take s ([word_of_nat a, word_of_nat c, word_of_nat d] @ replicate (s - 3) 0) =
          (word_of_nat a :: byte) # [word_of_nat c, word_of_nat d] @ replicate k 0"
        by (simp add: k)
      have be: "(if 128 \<le> a then a - 128 else a) * 256 ^ length ([word_of_nat c, word_of_nat d] @ replicate k (0::byte))
          + be_nat ([word_of_nat c, word_of_nat d] @ replicate k 0) = m * 256 ^ k"
        by (simp add: m_def low un be_nat_append be_nat_Cons algebra_simps)
      show "mpi_value (take s ([word_of_nat a, word_of_nat c, word_of_nat d] @ replicate (s - 3) 0)) =
          (if 128 \<le> a then - int (m * 256 ^ k) else int (m * 256 ^ k))"
      proof (cases "128 \<le> a")
        case True
        from be [unfolded if_P [OF True]] show ?thesis
          by (simp only: body mpi_value.simps un if_P [OF True])
      next
        case False
        from be [unfolded if_not_P [OF False]] show ?thesis
          by (simp only: body mpi_value.simps un if_not_P [OF False])
      qed
    qed
  qed
qed

context openssl_bn
begin

lemma SetCompact: "n < 2 ^ 32 \<Longrightarrow> SetCompact E n = compact_value n"
proof -
  assume n: "n < 2 ^ 32"
  define s a c d where "s = n div 2 ^ 24" and "a = n div 2 ^ 16 mod 256"
    and "c = n div 2 ^ 8 mod 256" and "d = n mod 256"
  note parts = this
  have small: "a < 256" "c < 256" "d < 256" by (simp_all add: parts)
  have s: "s < 256" using n by (simp add: parts less_mult_imp_div_less)
  define body where
    "body = take s ([word_of_nat a, word_of_nat c, word_of_nat d] @ replicate (s - 3) (0::byte))"
  have len: "length body = s" by (simp add: body_def)
  have be: "be_bytes 4 s = [0, 0, 0, word_of_nat s]"
  proof -
    have "be_bytes 4 s = be_bytes (Suc (Suc (Suc (Suc 0)))) s" by (simp add: eval_nat_numeral)
    also have "\<dots> = [0, 0, 0, word_of_nat s]"
      unfolding be_bytes_def le_bytes.simps using s by simp
    finally show ?thesis .
  qed
  have "BN_mpi2bn E (be_bytes 4 (length body) @ body) = mpi_value body"
    by (rule mpi2bn) (use len s in simp)
  then have "BN_mpi2bn E ([0, 0, 0, word_of_nat s] @ body) = mpi_value body"
    by (simp only: len be)
  moreover have "SetCompact E n = BN_mpi2bn E ([0, 0, 0, word_of_nat s] @ body)"
    by (simp add: SetCompact_def Let_def body_def parts drop_bit_eq_div and_255)
  ultimately have "SetCompact E n = compact_value (pack4 s a c d)"
    by (simp only: body_def compact_value_pack4 [OF small])
  then show ?thesis by (simp only: parts pack4_of)
qed

lemma GetCompact:
  assumes "length (mpi_body x) < 256"
  shows "GetCompact E x =
    pack4 (length (mpi_body x))
      (if 1 \<le> length (mpi_body x) then unat (mpi_body x ! 0) else 0)
      (if 2 \<le> length (mpi_body x) then unat (mpi_body x ! 1) else 0)
      (if 3 \<le> length (mpi_body x) then unat (mpi_body x ! 2) else 0)"
proof -
  define L where "L = length (mpi_body x)"
  define p where "p = mpi_body x"
  have L: "length p = L" by (simp add: L_def p_def)
  have len: "length (BN_bn2mpi E x) = L + 4" by (simp add: bn2mpi L_def)
  have nth: "BN_bn2mpi E x ! (4 + i) = p ! i" for i
    by (simp add: bn2mpi p_def nth_append)
  have b: "unat (p ! i) < 256" for i by (rule unat_byte_lt)
  have c0: "take_bit 32 (push_bit 24 L) = L * 2 ^ 24"
    using assms by (simp add: L_def take_bit_eq_mod push_bit_eq_mult)
  have c1: "L * 2 ^ 24 OR push_bit 16 v = L * 2 ^ 24 + v * 2 ^ 16" if "v < 256" for v
    using or_shift_add [of "v * 2 ^ 16" 24 L] that by (simp add: push_bit_eq_mult)
  have c2: "(L * 2 ^ 24 + v * 2 ^ 16) OR push_bit 8 w = L * 2 ^ 24 + v * 2 ^ 16 + w * 2 ^ 8"
    if "w < 256" for v w
    using or_shift_add [of "w * 2 ^ 8" 16 "L * 256 + v"] that
    by (simp add: push_bit_eq_mult algebra_simps)
  have c3: "(L * 2 ^ 24 + v * 2 ^ 16 + w * 2 ^ 8) OR u = L * 2 ^ 24 + v * 2 ^ 16 + w * 2 ^ 8 + u"
    if "u < 256" for v w u
    using or_shift_add [of u 8 "(L * 256 + v) * 256 + w"] that
    by (simp add: push_bit_eq_mult algebra_simps)
  have "GetCompact E x =
     (let c1 = (if 1 \<le> L then L * 2 ^ 24 OR push_bit 16 (unat (p ! 0)) else L * 2 ^ 24);
          c2 = (if 2 \<le> L then c1 OR push_bit 8 (unat (p ! 1)) else c1)
      in if 3 \<le> L then c2 OR unat (p ! 2) else c2)"
    using nth [of 0] nth [of 1] nth [of 2] by (simp add: GetCompact_def len c0 Let_def)
  then show ?thesis
    using c1 [OF b, of 0] c2 [OF b, of _ 1] c3 [OF b, of _ _ 2]
    by (simp add: Let_def pack4_def L flip: p_def)
qed

end

lemma mpi_value_nonneg: "bs = [] \<or> unat (hd bs) < 128 \<Longrightarrow> mpi_value bs = int (be_nat bs)"
  by (cases bs) (simp_all add: be_nat_Cons)

lemma word_of_nat_unat_byte: "word_of_nat (unat b) = (b::byte)"
  by simp

lemma take_digits:
  "length p = L \<Longrightarrow> take L ([if 1 \<le> L then p ! 0 else 0, if 2 \<le> L then p ! 1 else 0,
     if 3 \<le> L then p ! 2 else 0] @ replicate (L - 3) 0) = take 3 p @ replicate (L - 3) 0"
  by (cases p; cases "tl p"; cases "tl (tl p)") (auto simp: numeral_2_eq_2 numeral_3_eq_3)

text \<open>
  Reading back a compacted target gives the target with everything below its three
  leading bytes cleared: compacting rounds down, never up.
\<close>

context openssl_bn
begin

lemma SetCompact_GetCompact:
  assumes "0 \<le> x" and L: "length (mpi_body x) < 256"
  shows "SetCompact E (GetCompact E x) = x - x mod 256 ^ (length (mpi_body x) - 3)"
proof -
  define p L where "p = mpi_body x" and "L = length p"
  define a c d where "a = unat (if 1 \<le> L then p ! 0 else 0)"
    and "c = unat (if 2 \<le> L then p ! 1 else 0)" and "d = unat (if 3 \<le> L then p ! 2 else 0)"
  have small: "a < 256" "c < 256" "d < 256" by (simp_all only: a_def c_def d_def unat_byte_lt)
  have L256: "L < 256" using L by (simp add: L_def p_def)
  have get: "GetCompact E x = pack4 L a c d"
    using GetCompact [OF L] by (simp add: L_def p_def a_def c_def d_def if_distrib [of unat])
  have "pack4 L a c d < 2 ^ 32" using small L256 by (simp add: pack4_def)
  then have "SetCompact E (pack4 L a c d) =
      mpi_value (take L ([word_of_nat a, word_of_nat c, word_of_nat d] @ replicate (L - 3) 0))"
    by (simp only: SetCompact compact_value_pack4 [OF small])
  also have "take L ([word_of_nat a, word_of_nat c, word_of_nat d] @ replicate (L - 3) 0) =
      take 3 p @ replicate (L - 3) 0"
    unfolding a_def c_def d_def word_of_nat_unat_byte by (rule take_digits) (simp add: L_def)
  also have "mpi_value \<dots> = int (be_nat (take 3 p @ replicate (L - 3) 0))"
    using mpi_body_top_clear [OF assms(1)]
    by (intro mpi_value_nonneg) (cases p; auto simp: p_def L_def numeral_3_eq_3)
  also have "be_nat (take 3 p @ replicate (L - 3) 0) = be_nat (take 3 p) * 256 ^ (L - 3)"
    by (simp add: be_nat_append)
  finally have set: "SetCompact E (GetCompact E x) = int (be_nat (take 3 p) * 256 ^ (L - 3))"
    by (simp only: get)
  have "nat x = be_nat (take 3 p @ drop 3 p)"
    using be_nat_mpi_body [OF assms(1)] by (simp add: p_def)
  then have x: "nat x = be_nat (take 3 p) * 256 ^ (L - 3) + be_nat (drop 3 p)"
    unfolding be_nat_append by (simp add: L_def)
  have "be_nat (drop 3 p) < 256 ^ (L - 3)"
    using be_nat_bound [of "drop 3 p"] by (simp add: L_def)
  then have "nat x mod 256 ^ (L - 3) = be_nat (drop 3 p)" by (simp add: x)
  then have "nat x - nat x mod 256 ^ (L - 3) = be_nat (take 3 p) * 256 ^ (L - 3)" by (simp add: x)
  then have "x - x mod 256 ^ (L - 3) = int (be_nat (take 3 p) * 256 ^ (L - 3))"
    using assms(1) by (metis int_nat_eq mod_less_eq_dividend of_nat_diff zmod_int of_nat_numeral of_nat_power)
  then show ?thesis using set by (simp add: L_def p_def)
qed

lemma compact_rounds_down:
  assumes "0 \<le> x" and "length (mpi_body x) < 256"
  shows "SetCompact E (GetCompact E x) \<le> x"
  using assms by (simp add: SetCompact_GetCompact)

end

end
