(* ===== verification/Opcodes.thy ===== *)
theory Opcodes
  imports Prelude
begin

text \<open>
  The script opcodes (the enum \<^verbatim>\<open>opcodetype\<close> of src/script.h).  The enum is used as an
  integer: any byte, or two-byte code, may be cast into it, so an opcode is a \<open>nat\<close> and
  each name a constant of that type, defined by the value the enum gives it.  The
  collection \<open>opcodes\<close> holds the definitions.  \<open>GetOpName\<close> is the table that prints them.
\<close>

named_theorems opcodes "the values of the opcodes"

definition OP_0 :: nat where [opcodes]: "OP_0 = 0"
definition OP_FALSE :: nat where [opcodes]: "OP_FALSE = 0"
definition OP_PUSHDATA1 :: nat where [opcodes]: "OP_PUSHDATA1 = 76"
definition OP_PUSHDATA2 :: nat where [opcodes]: "OP_PUSHDATA2 = 77"
definition OP_PUSHDATA4 :: nat where [opcodes]: "OP_PUSHDATA4 = 78"
definition OP_1NEGATE :: nat where [opcodes]: "OP_1NEGATE = 79"
definition OP_RESERVED :: nat where [opcodes]: "OP_RESERVED = 80"
definition OP_1 :: nat where [opcodes]: "OP_1 = 81"
definition OP_TRUE :: nat where [opcodes]: "OP_TRUE = 81"
definition OP_2 :: nat where [opcodes]: "OP_2 = 82"
definition OP_3 :: nat where [opcodes]: "OP_3 = 83"
definition OP_4 :: nat where [opcodes]: "OP_4 = 84"
definition OP_5 :: nat where [opcodes]: "OP_5 = 85"
definition OP_6 :: nat where [opcodes]: "OP_6 = 86"
definition OP_7 :: nat where [opcodes]: "OP_7 = 87"
definition OP_8 :: nat where [opcodes]: "OP_8 = 88"
definition OP_9 :: nat where [opcodes]: "OP_9 = 89"
definition OP_10 :: nat where [opcodes]: "OP_10 = 90"
definition OP_11 :: nat where [opcodes]: "OP_11 = 91"
definition OP_12 :: nat where [opcodes]: "OP_12 = 92"
definition OP_13 :: nat where [opcodes]: "OP_13 = 93"
definition OP_14 :: nat where [opcodes]: "OP_14 = 94"
definition OP_15 :: nat where [opcodes]: "OP_15 = 95"
definition OP_16 :: nat where [opcodes]: "OP_16 = 96"
definition OP_NOP :: nat where [opcodes]: "OP_NOP = 97"
definition OP_VER :: nat where [opcodes]: "OP_VER = 98"
definition OP_IF :: nat where [opcodes]: "OP_IF = 99"
definition OP_NOTIF :: nat where [opcodes]: "OP_NOTIF = 100"
definition OP_VERIF :: nat where [opcodes]: "OP_VERIF = 101"
definition OP_VERNOTIF :: nat where [opcodes]: "OP_VERNOTIF = 102"
definition OP_ELSE :: nat where [opcodes]: "OP_ELSE = 103"
definition OP_ENDIF :: nat where [opcodes]: "OP_ENDIF = 104"
definition OP_VERIFY :: nat where [opcodes]: "OP_VERIFY = 105"
definition OP_RETURN :: nat where [opcodes]: "OP_RETURN = 106"
definition OP_TOALTSTACK :: nat where [opcodes]: "OP_TOALTSTACK = 107"
definition OP_FROMALTSTACK :: nat where [opcodes]: "OP_FROMALTSTACK = 108"
definition OP_2DROP :: nat where [opcodes]: "OP_2DROP = 109"
definition OP_2DUP :: nat where [opcodes]: "OP_2DUP = 110"
definition OP_3DUP :: nat where [opcodes]: "OP_3DUP = 111"
definition OP_2OVER :: nat where [opcodes]: "OP_2OVER = 112"
definition OP_2ROT :: nat where [opcodes]: "OP_2ROT = 113"
definition OP_2SWAP :: nat where [opcodes]: "OP_2SWAP = 114"
definition OP_IFDUP :: nat where [opcodes]: "OP_IFDUP = 115"
definition OP_DEPTH :: nat where [opcodes]: "OP_DEPTH = 116"
definition OP_DROP :: nat where [opcodes]: "OP_DROP = 117"
definition OP_DUP :: nat where [opcodes]: "OP_DUP = 118"
definition OP_NIP :: nat where [opcodes]: "OP_NIP = 119"
definition OP_OVER :: nat where [opcodes]: "OP_OVER = 120"
definition OP_PICK :: nat where [opcodes]: "OP_PICK = 121"
definition OP_ROLL :: nat where [opcodes]: "OP_ROLL = 122"
definition OP_ROT :: nat where [opcodes]: "OP_ROT = 123"
definition OP_SWAP :: nat where [opcodes]: "OP_SWAP = 124"
definition OP_TUCK :: nat where [opcodes]: "OP_TUCK = 125"
definition OP_CAT :: nat where [opcodes]: "OP_CAT = 126"
definition OP_SUBSTR :: nat where [opcodes]: "OP_SUBSTR = 127"
definition OP_LEFT :: nat where [opcodes]: "OP_LEFT = 128"
definition OP_RIGHT :: nat where [opcodes]: "OP_RIGHT = 129"
definition OP_SIZE :: nat where [opcodes]: "OP_SIZE = 130"
definition OP_INVERT :: nat where [opcodes]: "OP_INVERT = 131"
definition OP_AND :: nat where [opcodes]: "OP_AND = 132"
definition OP_OR :: nat where [opcodes]: "OP_OR = 133"
definition OP_XOR :: nat where [opcodes]: "OP_XOR = 134"
definition OP_EQUAL :: nat where [opcodes]: "OP_EQUAL = 135"
definition OP_EQUALVERIFY :: nat where [opcodes]: "OP_EQUALVERIFY = 136"
definition OP_RESERVED1 :: nat where [opcodes]: "OP_RESERVED1 = 137"
definition OP_RESERVED2 :: nat where [opcodes]: "OP_RESERVED2 = 138"
definition OP_1ADD :: nat where [opcodes]: "OP_1ADD = 139"
definition OP_1SUB :: nat where [opcodes]: "OP_1SUB = 140"
definition OP_2MUL :: nat where [opcodes]: "OP_2MUL = 141"
definition OP_2DIV :: nat where [opcodes]: "OP_2DIV = 142"
definition OP_NEGATE :: nat where [opcodes]: "OP_NEGATE = 143"
definition OP_ABS :: nat where [opcodes]: "OP_ABS = 144"
definition OP_NOT :: nat where [opcodes]: "OP_NOT = 145"
definition OP_0NOTEQUAL :: nat where [opcodes]: "OP_0NOTEQUAL = 146"
definition OP_ADD :: nat where [opcodes]: "OP_ADD = 147"
definition OP_SUB :: nat where [opcodes]: "OP_SUB = 148"
definition OP_MUL :: nat where [opcodes]: "OP_MUL = 149"
definition OP_DIV :: nat where [opcodes]: "OP_DIV = 150"
definition OP_MOD :: nat where [opcodes]: "OP_MOD = 151"
definition OP_LSHIFT :: nat where [opcodes]: "OP_LSHIFT = 152"
definition OP_RSHIFT :: nat where [opcodes]: "OP_RSHIFT = 153"
definition OP_BOOLAND :: nat where [opcodes]: "OP_BOOLAND = 154"
definition OP_BOOLOR :: nat where [opcodes]: "OP_BOOLOR = 155"
definition OP_NUMEQUAL :: nat where [opcodes]: "OP_NUMEQUAL = 156"
definition OP_NUMEQUALVERIFY :: nat where [opcodes]: "OP_NUMEQUALVERIFY = 157"
definition OP_NUMNOTEQUAL :: nat where [opcodes]: "OP_NUMNOTEQUAL = 158"
definition OP_LESSTHAN :: nat where [opcodes]: "OP_LESSTHAN = 159"
definition OP_GREATERTHAN :: nat where [opcodes]: "OP_GREATERTHAN = 160"
definition OP_LESSTHANOREQUAL :: nat where [opcodes]: "OP_LESSTHANOREQUAL = 161"
definition OP_GREATERTHANOREQUAL :: nat where [opcodes]: "OP_GREATERTHANOREQUAL = 162"
definition OP_MIN :: nat where [opcodes]: "OP_MIN = 163"
definition OP_MAX :: nat where [opcodes]: "OP_MAX = 164"
definition OP_WITHIN :: nat where [opcodes]: "OP_WITHIN = 165"
definition OP_RIPEMD160 :: nat where [opcodes]: "OP_RIPEMD160 = 166"
definition OP_SHA1 :: nat where [opcodes]: "OP_SHA1 = 167"
definition OP_SHA256 :: nat where [opcodes]: "OP_SHA256 = 168"
definition OP_HASH160 :: nat where [opcodes]: "OP_HASH160 = 169"
definition OP_HASH256 :: nat where [opcodes]: "OP_HASH256 = 170"
definition OP_CODESEPARATOR :: nat where [opcodes]: "OP_CODESEPARATOR = 171"
definition OP_CHECKSIG :: nat where [opcodes]: "OP_CHECKSIG = 172"
definition OP_CHECKSIGVERIFY :: nat where [opcodes]: "OP_CHECKSIGVERIFY = 173"
definition OP_CHECKMULTISIG :: nat where [opcodes]: "OP_CHECKMULTISIG = 174"
definition OP_CHECKMULTISIGVERIFY :: nat where [opcodes]: "OP_CHECKMULTISIGVERIFY = 175"
definition OP_CHECKLOCKTIMEVERIFY :: nat where [opcodes]: "OP_CHECKLOCKTIMEVERIFY = 177"
definition OP_CHECKSEQUENCEVERIFY :: nat where [opcodes]: "OP_CHECKSEQUENCEVERIFY = 178"
definition OP_CHECKTEMPLATEVERIFY :: nat where [opcodes]: "OP_CHECKTEMPLATEVERIFY = 179"
definition OP_CHECKSIGFROMSTACK :: nat where [opcodes]: "OP_CHECKSIGFROMSTACK = 204"
definition OP_SINGLEBYTE_END :: nat where [opcodes]: "OP_SINGLEBYTE_END = 240"
definition OP_DOUBLEBYTE_BEGIN :: nat where [opcodes]: "OP_DOUBLEBYTE_BEGIN = 61440"
definition OP_PUBKEY :: nat where [opcodes]: "OP_PUBKEY = 61441"
definition OP_PUBKEYHASH :: nat where [opcodes]: "OP_PUBKEYHASH = 61442"
definition OP_INVALIDOPCODE :: nat where [opcodes]: "OP_INVALIDOPCODE = 65535"

text \<open>The printed names, in the order of the code's \<^verbatim>\<open>switch\<close>.\<close>

definition op_names :: "(nat \<times> string) list" where
  "op_names =
    [(OP_0, ''0''),
     (OP_PUSHDATA1, ''OP_PUSHDATA1''),
     (OP_PUSHDATA2, ''OP_PUSHDATA2''),
     (OP_PUSHDATA4, ''OP_PUSHDATA4''),
     (OP_1NEGATE, ''-1''),
     (OP_RESERVED, ''OP_RESERVED''),
     (OP_1, ''1''),
     (OP_2, ''2''),
     (OP_3, ''3''),
     (OP_4, ''4''),
     (OP_5, ''5''),
     (OP_6, ''6''),
     (OP_7, ''7''),
     (OP_8, ''8''),
     (OP_9, ''9''),
     (OP_10, ''10''),
     (OP_11, ''11''),
     (OP_12, ''12''),
     (OP_13, ''13''),
     (OP_14, ''14''),
     (OP_15, ''15''),
     (OP_16, ''16''),
     (OP_NOP, ''OP_NOP''),
     (OP_VER, ''OP_VER''),
     (OP_IF, ''OP_IF''),
     (OP_NOTIF, ''OP_NOTIF''),
     (OP_VERIF, ''OP_VERIF''),
     (OP_VERNOTIF, ''OP_VERNOTIF''),
     (OP_ELSE, ''OP_ELSE''),
     (OP_ENDIF, ''OP_ENDIF''),
     (OP_VERIFY, ''OP_VERIFY''),
     (OP_RETURN, ''OP_RETURN''),
     (OP_TOALTSTACK, ''OP_TOALTSTACK''),
     (OP_FROMALTSTACK, ''OP_FROMALTSTACK''),
     (OP_2DROP, ''OP_2DROP''),
     (OP_2DUP, ''OP_2DUP''),
     (OP_3DUP, ''OP_3DUP''),
     (OP_2OVER, ''OP_2OVER''),
     (OP_2ROT, ''OP_2ROT''),
     (OP_2SWAP, ''OP_2SWAP''),
     (OP_IFDUP, ''OP_IFDUP''),
     (OP_DEPTH, ''OP_DEPTH''),
     (OP_DROP, ''OP_DROP''),
     (OP_DUP, ''OP_DUP''),
     (OP_NIP, ''OP_NIP''),
     (OP_OVER, ''OP_OVER''),
     (OP_PICK, ''OP_PICK''),
     (OP_ROLL, ''OP_ROLL''),
     (OP_ROT, ''OP_ROT''),
     (OP_SWAP, ''OP_SWAP''),
     (OP_TUCK, ''OP_TUCK''),
     (OP_CAT, ''OP_CAT''),
     (OP_SUBSTR, ''OP_SUBSTR''),
     (OP_LEFT, ''OP_LEFT''),
     (OP_RIGHT, ''OP_RIGHT''),
     (OP_SIZE, ''OP_SIZE''),
     (OP_INVERT, ''OP_INVERT''),
     (OP_AND, ''OP_AND''),
     (OP_OR, ''OP_OR''),
     (OP_XOR, ''OP_XOR''),
     (OP_EQUAL, ''OP_EQUAL''),
     (OP_EQUALVERIFY, ''OP_EQUALVERIFY''),
     (OP_RESERVED1, ''OP_RESERVED1''),
     (OP_RESERVED2, ''OP_RESERVED2''),
     (OP_1ADD, ''OP_1ADD''),
     (OP_1SUB, ''OP_1SUB''),
     (OP_2MUL, ''OP_2MUL''),
     (OP_2DIV, ''OP_2DIV''),
     (OP_NEGATE, ''OP_NEGATE''),
     (OP_ABS, ''OP_ABS''),
     (OP_NOT, ''OP_NOT''),
     (OP_0NOTEQUAL, ''OP_0NOTEQUAL''),
     (OP_ADD, ''OP_ADD''),
     (OP_SUB, ''OP_SUB''),
     (OP_MUL, ''OP_MUL''),
     (OP_DIV, ''OP_DIV''),
     (OP_MOD, ''OP_MOD''),
     (OP_LSHIFT, ''OP_LSHIFT''),
     (OP_RSHIFT, ''OP_RSHIFT''),
     (OP_BOOLAND, ''OP_BOOLAND''),
     (OP_BOOLOR, ''OP_BOOLOR''),
     (OP_NUMEQUAL, ''OP_NUMEQUAL''),
     (OP_NUMEQUALVERIFY, ''OP_NUMEQUALVERIFY''),
     (OP_NUMNOTEQUAL, ''OP_NUMNOTEQUAL''),
     (OP_LESSTHAN, ''OP_LESSTHAN''),
     (OP_GREATERTHAN, ''OP_GREATERTHAN''),
     (OP_LESSTHANOREQUAL, ''OP_LESSTHANOREQUAL''),
     (OP_GREATERTHANOREQUAL, ''OP_GREATERTHANOREQUAL''),
     (OP_MIN, ''OP_MIN''),
     (OP_MAX, ''OP_MAX''),
     (OP_WITHIN, ''OP_WITHIN''),
     (OP_RIPEMD160, ''OP_RIPEMD160''),
     (OP_SHA1, ''OP_SHA1''),
     (OP_SHA256, ''OP_SHA256''),
     (OP_HASH160, ''OP_HASH160''),
     (OP_HASH256, ''OP_HASH256''),
     (OP_CODESEPARATOR, ''OP_CODESEPARATOR''),
     (OP_CHECKSIG, ''OP_CHECKSIG''),
     (OP_CHECKSIGVERIFY, ''OP_CHECKSIGVERIFY''),
     (OP_CHECKMULTISIG, ''OP_CHECKMULTISIG''),
     (OP_CHECKMULTISIGVERIFY, ''OP_CHECKMULTISIGVERIFY''),
     (OP_CHECKLOCKTIMEVERIFY, ''OP_CHECKLOCKTIMEVERIFY''),
     (OP_CHECKSEQUENCEVERIFY, ''OP_CHECKSEQUENCEVERIFY''),
     (OP_CHECKTEMPLATEVERIFY, ''OP_CHECKTEMPLATEVERIFY''),
     (OP_CHECKSIGFROMSTACK, ''OP_CHECKSIGFROMSTACK''),
     (OP_SINGLEBYTE_END, ''OP_SINGLEBYTE_END''),
     (OP_DOUBLEBYTE_BEGIN, ''OP_DOUBLEBYTE_BEGIN''),
     (OP_PUBKEY, ''OP_PUBKEY''),
     (OP_PUBKEYHASH, ''OP_PUBKEYHASH''),
     (OP_INVALIDOPCODE, ''OP_INVALIDOPCODE'')]"

definition GetOpName :: "nat \<Rightarrow> string" where
  "GetOpName opcode =
     (case map_of op_names opcode of Some s \<Rightarrow> s | None \<Rightarrow> ''UNKNOWN_OPCODE'')"

text \<open>The \<^verbatim>\<open>switch\<close> has no duplicate case, so the order of the table does not matter.\<close>

lemma op_names_distinct: "distinct (map fst op_names)"
  by (simp add: op_names_def opcodes)

lemma GetOpName_entry: "(opcode, s) \<in> set op_names \<Longrightarrow> GetOpName opcode = s"
  by (simp add: GetOpName_def map_of_is_SomeI op_names_distinct)

end
