(* ===== verification/Script.thy ===== *)
theory Script
  imports Bignum Opcodes
begin

text \<open>
  The class \<^verbatim>\<open>CScript\<close> (src/script.h): a byte vector with a parser (\<open>GetOp\<close>), the pushing
  operators \<^verbatim>\<open><<\<close> and the predicates on whole scripts.  An iterator into a script is the
  suffix it points to, so \<^verbatim>\<open>end()\<close> is \<open>[]\<close> and \<open>GetOp\<close> returns the opcode, its data
  and the suffix behind it, or \<open>None\<close> where the code returns false.  The lemmas show that
  parsing is local, that pushes parse back, and that every loop over a script is a fold
  over its list of operations.
\<close>

section \<open>Parsing one operation\<close>

text \<open>The size of the immediate operand and where it starts.\<close>

definition push_size :: "nat \<Rightarrow> bytes \<Rightarrow> (nat \<times> bytes) option" where
  "push_size opcode pc =
     (if opcode = OP_PUSHDATA1 then
        (case pc of [] \<Rightarrow> None | c # pc' \<Rightarrow> Some (unat c, pc'))
      else if opcode = OP_PUSHDATA2 then
        (if length pc < 2 then None else Some (le_nat (take 2 pc), drop 2 pc))
      else if opcode = OP_PUSHDATA4 then
        (if length pc < 4 then None else Some (le_nat (take 4 pc), drop 4 pc))
      else Some (opcode, pc))"

definition GetOp :: "bytes \<Rightarrow> (nat \<times> bytes \<times> bytes) option" where
  "GetOp pc =
     (case pc of
        [] \<Rightarrow> None
      | b # pc1 \<Rightarrow>
          (case (if OP_SINGLEBYTE_END \<le> unat b then
                   (case pc1 of [] \<Rightarrow> None
                    | c # pc2 \<Rightarrow> Some (push_bit 8 (unat b) OR unat c, pc2))
                 else Some (unat b, pc1)) of
             None \<Rightarrow> None
           | Some (opcode, pc3) \<Rightarrow>
               if opcode \<le> OP_PUSHDATA4 then
                 (case push_size opcode pc3 of
                    None \<Rightarrow> None
                  | Some (nSize, pc4) \<Rightarrow>
                      if length pc4 < nSize then None
                      else Some (opcode, take nSize pc4, drop nSize pc4))
               else Some (opcode, [], pc3)))"

lemma push_size_local:
  "push_size opcode pc = Some (n, r) \<Longrightarrow>
   \<exists>p. pc = p @ r \<and> (\<forall>r'. push_size opcode (p @ r') = Some (n, r'))"
proof -
  assume a: "push_size opcode pc = Some (n, r)"
  consider "opcode = OP_PUSHDATA1" | "opcode = OP_PUSHDATA2" | "opcode = OP_PUSHDATA4"
    | "opcode \<noteq> OP_PUSHDATA1" "opcode \<noteq> OP_PUSHDATA2" "opcode \<noteq> OP_PUSHDATA4" by blast
  then show ?thesis
  proof cases
    case 1
    with a obtain c where "pc = c # r" "n = unat c"
      by (auto simp: push_size_def opcodes split: list.splits)
    with 1 show ?thesis by (intro exI [of _ "[c]"]) (simp add: push_size_def)
  next
    case 2
    with a have "pc = take 2 pc @ r" "length (take 2 pc) = 2" "n = le_nat (take 2 pc)"
      by (auto simp: push_size_def opcodes split: if_splits)
    with 2 show ?thesis
      by (intro exI [of _ "take 2 pc"]) (auto simp: push_size_def opcodes)
  next
    case 3
    with a have "pc = take 4 pc @ r" "length (take 4 pc) = 4" "n = le_nat (take 4 pc)"
      by (auto simp: push_size_def opcodes split: if_splits)
    with 3 show ?thesis
      by (intro exI [of _ "take 4 pc"]) (auto simp: push_size_def opcodes)
  next
    case 4
    with a show ?thesis by (intro exI [of _ "[]"]) (simp add: push_size_def)
  qed
qed

text \<open>The three shapes of an operation: a push, another one-byte code, a two-byte code.\<close>

lemma GetOp_push:
  "unat b \<le> OP_PUSHDATA4 \<Longrightarrow> GetOp (b # pc) =
    (case push_size (unat b) pc of None \<Rightarrow> None
     | Some (nSize, pc4) \<Rightarrow>
         if length pc4 < nSize then None else Some (unat b, take nSize pc4, drop nSize pc4))"
  by (simp add: GetOp_def opcodes)

lemma GetOp_one:
  "OP_PUSHDATA4 < unat b \<Longrightarrow> unat b < OP_SINGLEBYTE_END \<Longrightarrow>
   GetOp (b # pc) = Some (unat b, [], pc)"
  by (simp add: GetOp_def)

lemma GetOp_two:
  assumes "OP_SINGLEBYTE_END \<le> unat b"
  shows "GetOp (b # pc) =
    (case pc of [] \<Rightarrow> None | c # pc' \<Rightarrow> Some (unat b * 256 + unat c, [], pc'))"
proof -
  have or: "push_bit 8 (unat b) OR unat c = unat b * 256 + unat c" for c :: byte
    using or_shift_add [of "unat c" 8 "unat b"] unat_byte_lt [of c] by simp
  have "\<not> unat b * 256 + unat c \<le> OP_PUSHDATA4" for c :: byte
    using assms by (simp add: opcodes)
  with assms show ?thesis by (simp add: GetOp_def or split: list.split)
qed

text \<open>
  Locality: the bytes an operation occupies decide what it is, whatever follows it.
\<close>

lemma GetOp_local_ex:
  assumes "GetOp pc = Some (opcode, v, r)"
  shows "\<exists>p. pc = p @ r \<and> length v < length p \<and>
    (\<forall>r'. GetOp (p @ r') = Some (opcode, v, r'))"
proof -
  obtain b pc1 where pc: "pc = b # pc1" using assms by (cases pc) (auto simp: GetOp_def)
  consider (two) "OP_SINGLEBYTE_END \<le> unat b" | (push) "unat b \<le> OP_PUSHDATA4"
    | (one) "OP_PUSHDATA4 < unat b" "unat b < OP_SINGLEBYTE_END" by linarith
  then show ?thesis
  proof cases
    case two
    with assms obtain c where "pc1 = c # r" "opcode = unat b * 256 + unat c" "v = []"
      by (auto simp: pc GetOp_two split: list.splits)
    with two show ?thesis by (intro exI [of _ "[b, c]"]) (simp add: pc GetOp_two)
  next
    case push
    have eq: "(case push_size (unat b) pc1 of None \<Rightarrow> None
      | Some (nSize, pc4) \<Rightarrow> if length pc4 < nSize then None
          else Some (unat b, take nSize pc4, drop nSize pc4)) = Some (opcode, v, r)"
      using assms unfolding pc GetOp_push [OF push] .
    then obtain n pc4 where s: "push_size (unat b) pc1 = Some (n, pc4)"
      by (cases "push_size (unat b) pc1") auto
    with eq have n: "n \<le> length pc4" and op: "opcode = unat b"
      and v: "v = take n pc4" and r: "r = drop n pc4"
      by (simp_all split: if_splits)
    from push_size_local [OF s] obtain q where q: "pc1 = q @ pc4"
      and loc: "\<And>r'. push_size (unat b) (q @ r') = Some (n, r')" by blast
    have len: "length v = n" using n v by simp
    have "GetOp ((b # q @ v) @ r') = Some (opcode, v, r')" for r'
      using push loc [of "v @ r'"] len op by (simp add: GetOp_push)
    moreover have "pc = (b # q @ v) @ r" by (simp add: pc q v r)
    ultimately show ?thesis by (intro exI [of _ "b # q @ v"]) simp
  next
    case one
    with assms have "opcode = unat b" "v = []" "r = pc1" by (auto simp: pc GetOp_one)
    with one show ?thesis by (intro exI [of _ "[b]"]) (simp add: pc GetOp_one)
  qed
qed

lemma GetOp_local:
  assumes "GetOp pc = Some (opcode, v, r)"
  obtains p where "pc = p @ r" "p \<noteq> []" "length v < length p"
    "\<And>r'. GetOp (p @ r') = Some (opcode, v, r')"
  using GetOp_local_ex [OF assms] by force

lemma GetOp_shrinks [intro]: "GetOp pc = Some (opcode, v, r) \<Longrightarrow> length r < length pc"
  by (erule GetOp_local) auto

lemma GetOp_append: "GetOp pc = Some (opcode, v, r) \<Longrightarrow> GetOp (pc @ t) = Some (opcode, v, r @ t)"
  by (erule GetOp_local) (metis append.assoc)

lemma GetOp_Nil [simp]: "GetOp [] = None"
  by (simp add: GetOp_def)

lemma GetOp_data_length: "GetOp pc = Some (opcode, v, r) \<Longrightarrow> length v < length pc"
  by (erule GetOp_local) auto

section \<open>Pushing\<close>

text \<open>
  \<^verbatim>\<open>operator<<\<close> appends to the script; each definition is what it appends.  The size of a
  vector over 255 bytes goes through an \<^verbatim>\<open>unsigned short\<close>.
\<close>

definition push_vch :: "bytes \<Rightarrow> bytes" where
  "push_vch b =
     (if length b < OP_PUSHDATA1 then [word_of_nat (length b)]
      else if length b \<le> 0xff then [word_of_nat OP_PUSHDATA1, word_of_nat (length b)]
      else word_of_nat OP_PUSHDATA2 # le_bytes 2 (length b mod 2 ^ 16)) @ b"

definition push_int64 :: "ext \<Rightarrow> int \<Rightarrow> bytes" where
  "push_int64 E n =
     (if n = -1 \<or> (1 \<le> n \<and> n \<le> 16) then [word_of_int (n + (int OP_1 - 1))]
      else push_vch (getvch E (setint64 E n)))"

definition push_uint64 :: "ext \<Rightarrow> nat \<Rightarrow> bytes" where
  "push_uint64 E n =
     (if n = 2 ^ 64 - 1 \<or> (1 \<le> n \<and> n \<le> 16) then [word_of_nat (n + (OP_1 - 1))]
      else push_vch (getvch E (setuint64 E n)))"

definition push_opcode :: "nat \<Rightarrow> bytes" where
  "push_opcode opcode =
     (if opcode \<le> OP_SINGLEBYTE_END then [word_of_nat opcode]
      else [word_of_nat (drop_bit 8 opcode), word_of_nat (opcode AND 0xff)])"

definition push_uint160 :: "uint160 \<Rightarrow> bytes" where
  "push_uint160 b = word_of_nat 20 # bytes_of_uint160 b"

definition push_uint256 :: "uint256 \<Rightarrow> bytes" where
  "push_uint256 b = word_of_nat 32 # bytes_of_uint256 b"

definition EncodeOP_N :: "nat \<Rightarrow> nat" where
  "EncodeOP_N n = (if n = 0 then OP_0 else OP_1 + n - 1)"

definition DecodeOP_N :: "nat \<Rightarrow> nat" where
  "DecodeOP_N opcode = (if opcode = OP_0 then 0 else opcode - (OP_1 - 1))"

lemma DecodeOP_N_Encode [simp]: "n \<le> 16 \<Longrightarrow> DecodeOP_N (EncodeOP_N n) = n"
  by (simp add: DecodeOP_N_def EncodeOP_N_def opcodes)

lemma push_vch_nonempty [simp]: "push_vch b \<noteq> []"
  by (simp add: push_vch_def)

lemma le_nat_two: "n < 2 ^ 16 \<Longrightarrow> le_nat (le_bytes 2 n) = n"
  by (simp del: le_bytes.simps)

text \<open>A pushed vector parses back as itself.\<close>

lemma GetOp_push_vch:
  assumes "length b \<le> 0xffff"
  shows "GetOp (push_vch b @ rest) =
    Some (if length b < OP_PUSHDATA1 then length b
          else if length b \<le> 0xff then OP_PUSHDATA1 else OP_PUSHDATA2, b, rest)"
proof -
  consider "length b < OP_PUSHDATA1" | "OP_PUSHDATA1 \<le> length b" "length b \<le> 0xff"
    | "0xff < length b" "OP_PUSHDATA1 \<le> length b"
    unfolding opcodes by linarith
  then show ?thesis
  proof cases
    case 1
    then have u: "unat (word_of_nat (length b) :: byte) = length b"
      by (simp add: unat_byte_of opcodes)
    have "GetOp (word_of_nat (length b) # b @ rest) = Some (length b, b, rest)"
      using 1 by (subst GetOp_push) (auto simp: u push_size_def opcodes)
    with 1 show ?thesis by (simp add: push_vch_def)
  next
    case 2
    then have u: "unat (word_of_nat (length b) :: byte) = length b"
      by (simp add: unat_byte_of)
    have "GetOp (word_of_nat OP_PUSHDATA1 # word_of_nat (length b) # b @ rest) =
        Some (OP_PUSHDATA1, b, rest)"
      by (subst GetOp_push) (auto simp: u push_size_def opcodes)
    with 2 show ?thesis by (simp add: push_vch_def)
  next
    case 3
    have n: "le_nat (le_bytes 2 (length b mod 2 ^ 16)) = length b"
      using assms by (subst le_nat_two) simp_all
    define h where "h = le_bytes 2 (length b mod 2 ^ 16)"
    have h: "length h = 2" "le_nat h = length b"
      unfolding h_def by (simp only: length_le_bytes) (rule n)
    have "GetOp (word_of_nat OP_PUSHDATA2 # h @ b @ rest) = Some (OP_PUSHDATA2, b, rest)"
      by (subst GetOp_push) (auto simp: h push_size_def opcodes)
    with 3 show ?thesis by (simp add: push_vch_def h_def)
  qed
qed

lemma GetOp_byte:
  "OP_PUSHDATA4 < n \<Longrightarrow> n < OP_SINGLEBYTE_END \<Longrightarrow>
   GetOp (word_of_nat n # rest) = Some (n, [], rest)"
  by (subst GetOp_one) (simp_all add: unat_byte_of opcodes)

lemma GetOp_push_opcode:
  "OP_PUSHDATA4 < n \<Longrightarrow> n < OP_SINGLEBYTE_END \<Longrightarrow>
   GetOp (push_opcode n @ rest) = Some (n, [], rest)"
  by (simp add: push_opcode_def GetOp_byte)

section \<open>A script as a list of operations\<close>

text \<open>
  The specification the loops below are compared with: every operation with its opcode,
  its data and the bytes it occupies, and the remainder \<open>GetOp\<close> does not parse.
\<close>

function parse_ops :: "bytes \<Rightarrow> (nat \<times> bytes \<times> bytes) list \<times> bytes" where
  "parse_ops pc =
     (case GetOp pc of
        None \<Rightarrow> ([], pc)
      | Some (opcode, v, r) \<Rightarrow>
          (let (ops, t) = parse_ops r
           in ((opcode, v, take (length pc - length r) pc) # ops, t)))"
  by pat_completeness auto
termination
  by (relation "measure length") auto

declare parse_ops.simps [simp del]

abbreviation ops_of :: "bytes \<Rightarrow> (nat \<times> bytes \<times> bytes) list" where
  "ops_of s \<equiv> fst (parse_ops s)"

abbreviation tail_of :: "bytes \<Rightarrow> bytes" where
  "tail_of s \<equiv> snd (parse_ops s)"

lemma parse_ops_None: "GetOp pc = None \<Longrightarrow> parse_ops pc = ([], pc)"
  by (subst parse_ops.simps) simp

lemma parse_ops_Some:
  "GetOp pc = Some (opcode, v, r) \<Longrightarrow>
   ops_of pc = (opcode, v, take (length pc - length r) pc) # ops_of r \<and> tail_of pc = tail_of r"
  by (subst (1 2) parse_ops.simps) (simp add: Let_def case_prod_beta)

lemma parse_ops_Nil [simp]: "parse_ops [] = ([], [])"
  by (simp add: parse_ops_None)

lemma script_induct [case_names stop step]:
  assumes "\<And>pc. GetOp pc = None \<Longrightarrow> P pc"
    and "\<And>pc opcode v r p. GetOp pc = Some (opcode, v, r) \<Longrightarrow> pc = p @ r \<Longrightarrow> p \<noteq> [] \<Longrightarrow>
      (\<And>r'. GetOp (p @ r') = Some (opcode, v, r')) \<Longrightarrow> P r \<Longrightarrow> P pc"
  shows "P pc"
proof (induction pc rule: parse_ops.induct)
  case (1 pc)
  show ?case
  proof (cases "GetOp pc")
    case (Some x)
    obtain opcode v r where x: "x = (opcode, v, r)" by (cases x)
    have op: "GetOp pc = Some (opcode, v, r)" using Some x by simp
    then obtain p where "pc = p @ r" "p \<noteq> []"
      and loc: "\<And>r'. GetOp (p @ r') = Some (opcode, v, r')" by (rule GetOp_local) blast
    moreover have "P r" by (rule "1" [OF op refl refl])
    ultimately show ?thesis using op by (metis assms(2))
  qed (rule assms(1))
qed

lemma parse_ops_step:
  "(\<And>r'. GetOp (p @ r') = Some (opcode, v, r')) \<Longrightarrow>
   ops_of (p @ r) = (opcode, v, p) # ops_of r \<and> tail_of (p @ r) = tail_of r"
  by (simp add: parse_ops_Some)

lemma parse_ops_concat: "concat (map (snd \<circ> snd) (ops_of pc)) @ tail_of pc = pc"
  by (induction pc rule: script_induct) (simp_all add: parse_ops_None parse_ops_step)

lemma parse_ops_append:
  "tail_of s = [] \<Longrightarrow> ops_of (s @ t) = ops_of s @ ops_of t \<and> tail_of (s @ t) = tail_of t"
  by (induction s rule: script_induct) (simp_all add: parse_ops_None parse_ops_step)

text \<open>The raw bytes of a listed operation parse to exactly that operation.\<close>

lemma ops_of_raw:
  "(opcode, v, p) \<in> set (ops_of pc) \<Longrightarrow> GetOp (p @ r') = Some (opcode, v, r') \<and> p \<noteq> []"
  by (induction pc rule: script_induct) (auto simp: parse_ops_None parse_ops_step)

section \<open>Whole-script operations\<close>

function IsPushOnly :: "bytes \<Rightarrow> bool" where
  "IsPushOnly pc =
     (if pc = [] then True
      else case GetOp pc of
             None \<Rightarrow> False
           | Some (opcode, _, r) \<Rightarrow> if opcode > OP_16 then False else IsPushOnly r)"
  by pat_completeness auto
termination
  by (relation "measure length") auto

definition sigop_cost :: "bool \<Rightarrow> nat \<Rightarrow> nat" where
  "sigop_cost fRulesV4 opcode =
     (if opcode = OP_CHECKSIG \<or> opcode = OP_CHECKSIGVERIFY then 1
      else if opcode = OP_CHECKSIGFROMSTACK \<and> fRulesV4 then 1
      else if opcode = OP_CHECKMULTISIG \<or> opcode = OP_CHECKMULTISIGVERIFY then 20
      else 0)"

function GetSigOpCount :: "bool \<Rightarrow> bytes \<Rightarrow> nat" where
  "GetSigOpCount fRulesV4 pc =
     (if pc = [] then 0
      else case GetOp pc of
             None \<Rightarrow> 0
           | Some (opcode, _, r) \<Rightarrow> sigop_cost fRulesV4 opcode + GetSigOpCount fRulesV4 r)"
  by pat_completeness auto
termination
  by (relation "measure (length \<circ> snd)") auto

text \<open>
  \<open>FindAndDelete\<close>: at every operation boundary, erase \<open>b\<close> as long as the script continues
  with it, then step over one operation.  Its callers pass a pushed signature or one
  opcode; with an empty \<open>b\<close> the inner loop of the code would not end, and the model leaves
  the script alone.
\<close>

function skip_copies :: "bytes \<Rightarrow> bytes \<Rightarrow> bytes" where
  "skip_copies b pc =
     (if b \<noteq> [] \<and> length b \<le> length pc \<and> take (length b) pc = b
      then skip_copies b (drop (length b) pc) else pc)"
  by pat_completeness auto
termination
  by (relation "measure (length \<circ> snd)") (auto simp: neq_Nil_conv)

declare IsPushOnly.simps [simp del] GetSigOpCount.simps [simp del] skip_copies.simps [simp del]

lemma length_skip_copies: "length (skip_copies b pc) \<le> length pc"
  by (induction b pc rule: skip_copies.induct) (subst skip_copies.simps, auto)

function FindAndDelete :: "bytes \<Rightarrow> bytes \<Rightarrow> bytes" where
  "FindAndDelete b pc =
     (let pc' = skip_copies b pc
      in case GetOp pc' of
           None \<Rightarrow> pc'
         | Some (_, _, r) \<Rightarrow> take (length pc' - length r) pc' @ FindAndDelete b r)"
  by pat_completeness auto
termination
proof (relation "measure (length \<circ> snd)", goal_cases)
  case (2 b pc pc' x y opcode z r)
  then have "length r < length (skip_copies b pc)" by (auto intro: GetOp_shrinks)
  then show ?case using length_skip_copies [of b pc] by simp
qed simp

declare FindAndDelete.simps [simp del]

definition IsPayToScriptHash :: "bytes \<Rightarrow> bool" where
  "IsPayToScriptHash s \<longleftrightarrow>
     length s = 23 \<and> unat (s ! 0) = OP_HASH160 \<and> s ! 1 = 0x14 \<and> unat (s ! 22) = OP_EQUAL"

definition IsNullData :: "bytes \<Rightarrow> bool" where
  "IsNullData s =
     (case s of
        [] \<Rightarrow> False
      | b # pc \<Rightarrow>
          if unat b \<noteq> OP_RETURN then False
          else if length s = 1 then True
          else (case GetOp pc of
                  None \<Rightarrow> False
                | Some (opcode, _, r) \<Rightarrow> if opcode > OP_PUSHDATA4 then False else r = []))"

definition SetMultisig :: "nat \<Rightarrow> bytes list \<Rightarrow> bytes" where
  "SetMultisig nRequired keys =
     push_opcode (EncodeOP_N nRequired) @ concat (map push_vch keys) @
     push_opcode (EncodeOP_N (length keys)) @ push_opcode OP_CHECKMULTISIG"

definition SetPayToScriptHash :: "ext \<Rightarrow> bytes \<Rightarrow> bytes" where
  "SetPayToScriptHash E subscript =
     push_opcode OP_HASH160 @ push_uint160 (Hash160 E subscript) @ push_opcode OP_EQUAL"

section \<open>The loops as folds over the operations\<close>

lemma IsPushOnly_ops:
  "IsPushOnly s \<longleftrightarrow> tail_of s = [] \<and> list_all (\<lambda>x. fst x \<le> OP_16) (ops_of s)"
proof (induction s rule: script_induct)
  case (stop pc)
  then show ?case by (subst IsPushOnly.simps) (simp add: parse_ops_None)
next
  case (step pc opcode v r p)
  then show ?case by (subst IsPushOnly.simps) (simp add: parse_ops_step not_less)
qed

lemma GetSigOpCount_ops:
  "GetSigOpCount v4 s = sum_list (map (sigop_cost v4 \<circ> fst) (ops_of s))"
proof (induction s rule: script_induct)
  case (stop pc)
  then show ?case by (subst GetSigOpCount.simps) (simp add: parse_ops_None)
next
  case (step pc opcode v r p)
  then show ?case by (subst GetSigOpCount.simps) (simp add: parse_ops_step comp_def)
qed

lemma IsPushOnly_append: "IsPushOnly s \<Longrightarrow> IsPushOnly (s @ t) = IsPushOnly t"
  by (simp add: IsPushOnly_ops parse_ops_append)

lemma GetSigOpCount_append:
  "tail_of s = [] \<Longrightarrow> GetSigOpCount v4 (s @ t) = GetSigOpCount v4 s + GetSigOpCount v4 t"
  by (simp add: GetSigOpCount_ops parse_ops_append)

lemma GetSigOpCount_push_only: "IsPushOnly s \<Longrightarrow> GetSigOpCount v4 s = 0"
  by (auto simp: IsPushOnly_ops GetSigOpCount_ops list_all_iff sigop_cost_def opcodes)

text \<open>No script of \<open>n\<close> bytes costs more than \<open>20 * n\<close>, so the counters of the code, 32 bits
  wide, cannot wrap on anything that fits in a block.\<close>

lemma GetSigOpCount_bound [bounds]: "GetSigOpCount v4 s \<le> 20 * length s"
proof (induction s rule: script_induct)
  case (stop pc)
  then show ?case by (subst GetSigOpCount.simps) simp
next
  case (step pc opcode v r p)
  have "sigop_cost v4 opcode \<le> 20" by (simp add: sigop_cost_def)
  moreover have "1 \<le> length p" using step by (simp add: Suc_le_eq)
  ultimately show ?case using step by (subst GetSigOpCount.simps) simp
qed

text \<open>
  \<open>b\<close> is one operation when it parses to itself.  Deleting it leaves exactly the other
  operations, in order, and the unparsed remainder.
\<close>

definition one_op :: "bytes \<Rightarrow> bool" where
  "one_op b \<longleftrightarrow> (\<exists>opcode v. GetOp b = Some (opcode, v, []))"

lemma one_op_parse: "one_op b \<Longrightarrow> \<exists>opcode v. \<forall>r. GetOp (b @ r) = Some (opcode, v, r)"
  unfolding one_op_def by (metis GetOp_append append_Nil)

lemma one_op_nonempty: "one_op b \<Longrightarrow> b \<noteq> []"
  by (auto simp: one_op_def)

lemma one_op_push_vch: "length b \<le> 0xffff \<Longrightarrow> one_op (push_vch b)"
  using GetOp_push_vch [of b "[]"] by (auto simp: one_op_def)

lemma one_op_opcode: "OP_PUSHDATA4 < n \<Longrightarrow> n < OP_SINGLEBYTE_END \<Longrightarrow> one_op (push_opcode n)"
  using GetOp_push_opcode [of n "[]"] by (auto simp: one_op_def)

lemma skip_copies_append:
  "b \<noteq> [] \<Longrightarrow> skip_copies b (b @ r) = skip_copies b r"
  by (subst skip_copies.simps) simp

lemma skip_copies_stop:
  "\<not> (\<exists>r. pc = b @ r) \<Longrightarrow> skip_copies b pc = pc"
  by (subst skip_copies.simps) (metis append_take_drop_id)

lemma FindAndDelete_skip:
  assumes "b \<noteq> []"
  shows "FindAndDelete b (b @ r) = FindAndDelete b r"
  by (subst (1 2) FindAndDelete.simps) (simp only: skip_copies_append [OF assms])

lemma FindAndDelete_keep:
  assumes "\<And>r'. GetOp (p @ r') = Some (opcode, v, r')" "\<not> (\<exists>r'. p @ r = b @ r')"
  shows "FindAndDelete b (p @ r) = p @ FindAndDelete b r"
  by (subst FindAndDelete.simps) (simp add: skip_copies_stop [OF assms(2)] assms(1))

text \<open>Two operations that start at the same place are the same bytes.\<close>

lemma one_op_unique:
  assumes "\<And>r'. GetOp (p @ r') = Some (opcode, v, r')" "one_op b" "p @ r = b @ r'"
  shows "p = b \<and> r = r'"
proof -
  obtain opcode' v' where "\<And>r. GetOp (b @ r) = Some (opcode', v', r)"
    using one_op_parse [OF assms(2)] by blast
  with assms(1) [of r] assms(3) have "r = r'" by (metis option.inject prod.inject)
  with assms(3) show ?thesis by simp
qed

theorem FindAndDelete_ops:
  assumes "one_op b"
  shows "FindAndDelete b s =
    concat (filter (\<lambda>p. p \<noteq> b) (map (snd \<circ> snd) (ops_of s))) @ tail_of s"
proof (induction s rule: script_induct)
  case (stop pc)
  have "\<not> (\<exists>r. pc = b @ r)" using one_op_parse [OF assms] stop by auto
  then have "skip_copies b pc = pc" by (rule skip_copies_stop)
  with stop show ?case by (subst FindAndDelete.simps) (simp add: parse_ops_None)
next
  case (step pc opcode v r p)
  show ?case
  proof (cases "p = b")
    case True
    with step show ?thesis
      by (simp add: parse_ops_step FindAndDelete_skip one_op_nonempty [OF assms])
  next
    case False
    then have no: "\<not> (\<exists>r'. p @ r = b @ r')"
      using one_op_unique [OF step(4) assms] by metis
    show ?thesis
      using step False FindAndDelete_keep [OF step(4) no] by (simp add: parse_ops_step)
  qed
qed

end
