(* ===== verification/Transaction.thy ===== *)
theory Transaction
  imports Crypto Serialize Script
begin

text \<open>
  Transactions (src/main.h, \<^verbatim>\<open>COutPoint\<close> to \<^verbatim>\<open>CTransaction\<close>): the data, the wire format as
  instances of the codec contract, the context-free checks and the money arithmetic.  The
  signed fields \<open>nValue\<close>, \<open>nVersion\<close> and \<open>nLockTime\<close> are integers with their C range as
  well-formedness; \<open>n\<close> and \<open>nSequence\<close> are 32 bit words.  A check that calls \<^verbatim>\<open>error(...)\<close>
  returns the error as \<open>Inl\<close>.
\<close>

section \<open>Constants and data\<close>

definition COIN :: int where "COIN = 100000000"

definition MAX_MONEY :: int where "MAX_MONEY = 21000000 * COIN"

definition CENT :: int where "CENT = 1000000"

definition MoneyRange :: "int \<Rightarrow> bool" where
  "MoneyRange nVal \<longleftrightarrow> 0 \<le> nVal \<and> nVal \<le> MAX_MONEY"

definition SEQUENCE_FINAL :: u32 where "SEQUENCE_FINAL = 0xffffffff"

definition LOCKTIME_THRESHOLD :: nat where "LOCKTIME_THRESHOLD = 500000000"

record COutPoint =
  out_hash :: uint256
  out_n :: u32

record CTxIn =
  prevout :: COutPoint
  scriptSig :: bytes
  nSequence :: u32

record CTxOut =
  nValue :: int
  scriptPubKey :: bytes

record CTransaction =
  nVersion :: int
  vin :: "CTxIn list"
  vout :: "CTxOut list"
  nLockTime :: int

definition COutPoint_SetNull :: COutPoint where
  "COutPoint_SetNull = \<lparr>out_hash = 0, out_n = - 1\<rparr>"

definition COutPoint_IsNull :: "COutPoint \<Rightarrow> bool" where
  "COutPoint_IsNull p \<longleftrightarrow> out_hash p = 0 \<and> out_n p = - 1"

definition COutPoint_less :: "COutPoint \<Rightarrow> COutPoint \<Rightarrow> bool" where
  "COutPoint_less a b \<longleftrightarrow>
     out_hash a < out_hash b \<or> (out_hash a = out_hash b \<and> out_n a < out_n b)"

definition CTxOut_SetNull :: CTxOut where
  "CTxOut_SetNull = \<lparr>nValue = - 1, scriptPubKey = []\<rparr>"

definition CTxOut_IsNull :: "CTxOut \<Rightarrow> bool" where
  "CTxOut_IsNull o1 \<longleftrightarrow> nValue o1 = - 1"

definition CTransaction_SetNull :: CTransaction where
  "CTransaction_SetNull = \<lparr>nVersion = 1, vin = [], vout = [], nLockTime = 0\<rparr>"

definition CTransaction_IsNull :: "CTransaction \<Rightarrow> bool" where
  "CTransaction_IsNull tx \<longleftrightarrow> vin tx = [] \<and> vout tx = []"

definition CTxIn_IsFinal :: "CTxIn \<Rightarrow> bool" where
  "CTxIn_IsFinal txin \<longleftrightarrow> nSequence txin = SEQUENCE_FINAL"

text \<open>The order on outpoints is a strict linear order: it can key a \<^verbatim>\<open>set\<close> or a \<^verbatim>\<open>map\<close>.\<close>

lemma COutPoint_less_irrefl: "\<not> COutPoint_less a a"
  by (simp add: COutPoint_less_def)

lemma COutPoint_less_trans: "COutPoint_less a b \<Longrightarrow> COutPoint_less b c \<Longrightarrow> COutPoint_less a c"
  by (auto simp: COutPoint_less_def)

lemma COutPoint_less_total: "COutPoint_less a b \<or> a = b \<or> COutPoint_less b a"
  by (cases a; cases b) (auto simp: COutPoint_less_def)

section \<open>The wire format\<close>

text \<open>\<^verbatim>\<open>FLATDATA\<close> copies the memory of the object: the hash, then the index.\<close>

definition ser_u32 :: "u32 \<Rightarrow> bytes" where
  "ser_u32 w = ser_uint 4 (unat w)"

definition unser_u32 :: "bytes \<Rightarrow> (u32 \<times> bytes) option" where
  "unser_u32 s =
     (case unser_uint 4 s of None \<Rightarrow> None | Some (n, r) \<Rightarrow> Some (word_of_nat n, r))"

definition ser_uint256 :: "uint256 \<Rightarrow> bytes" where
  "ser_uint256 h = bytes_of_uint256 h"

definition unser_uint256 :: "bytes \<Rightarrow> (uint256 \<times> bytes) option" where
  "unser_uint256 s =
     (case stream_read 32 s of None \<Rightarrow> None | Some (b, r) \<Rightarrow> Some (uint256_of_bytes b, r))"

definition ser_COutPoint :: "COutPoint \<Rightarrow> bytes" where
  "ser_COutPoint p = ser_uint256 (out_hash p) @ ser_u32 (out_n p)"

definition unser_COutPoint :: "bytes \<Rightarrow> (COutPoint \<times> bytes) option" where
  "unser_COutPoint s =
     (case unser_uint256 s of None \<Rightarrow> None
      | Some (h, r) \<Rightarrow> (case unser_u32 r of None \<Rightarrow> None
          | Some (k, r') \<Rightarrow> Some (\<lparr>out_hash = h, out_n = k\<rparr>, r')))"

definition ser_CTxIn :: "CTxIn \<Rightarrow> bytes" where
  "ser_CTxIn x = ser_COutPoint (prevout x) @ Serialize_vch (scriptSig x) @ ser_u32 (nSequence x)"

definition unser_CTxIn :: "bytes \<Rightarrow> (CTxIn \<times> bytes) option" where
  "unser_CTxIn s =
     (case unser_COutPoint s of None \<Rightarrow> None
      | Some (p, r1) \<Rightarrow> (case Unserialize_vch r1 of None \<Rightarrow> None
          | Some (sc, r2) \<Rightarrow> (case unser_u32 r2 of None \<Rightarrow> None
              | Some (q, r3) \<Rightarrow> Some (\<lparr>prevout = p, scriptSig = sc, nSequence = q\<rparr>, r3))))"

definition ser_CTxOut :: "CTxOut \<Rightarrow> bytes" where
  "ser_CTxOut x = ser_int64 (nValue x) @ Serialize_vch (scriptPubKey x)"

definition unser_CTxOut :: "bytes \<Rightarrow> (CTxOut \<times> bytes) option" where
  "unser_CTxOut s =
     (case unser_int64 s of None \<Rightarrow> None
      | Some (v, r1) \<Rightarrow> (case Unserialize_vch r1 of None \<Rightarrow> None
          | Some (sc, r2) \<Rightarrow> Some (\<lparr>nValue = v, scriptPubKey = sc\<rparr>, r2)))"

definition ser_CTransaction :: "CTransaction \<Rightarrow> bytes" where
  "ser_CTransaction tx =
     ser_int32 (nVersion tx) @ Serialize_vector ser_CTxIn (vin tx) @
     Serialize_vector ser_CTxOut (vout tx) @ ser_int32 (nLockTime tx)"

definition unser_CTransaction :: "bytes \<Rightarrow> (CTransaction \<times> bytes) option" where
  "unser_CTransaction s =
     (case unser_int32 s of None \<Rightarrow> None
      | Some (v, r1) \<Rightarrow> (case Unserialize_vector unser_CTxIn r1 of None \<Rightarrow> None
          | Some (xs, r2) \<Rightarrow> (case Unserialize_vector unser_CTxOut r2 of None \<Rightarrow> None
              | Some (ys, r3) \<Rightarrow> (case unser_int32 r3 of None \<Rightarrow> None
                  | Some (l, r4) \<Rightarrow>
                      Some (\<lparr>nVersion = v, vin = xs, vout = ys, nLockTime = l\<rparr>, r4)))))"

text \<open>What the C types already guarantee of a value in memory, and the serializer's limits.\<close>

definition wf_CTxIn :: "CTxIn \<Rightarrow> bool" where
  "wf_CTxIn x \<longleftrightarrow> length (scriptSig x) \<le> MAX_SIZE"

definition wf_CTxOut :: "CTxOut \<Rightarrow> bool" where
  "wf_CTxOut x \<longleftrightarrow> in_i64 (nValue x) \<and> length (scriptPubKey x) \<le> MAX_SIZE"

definition wf_CTransaction :: "CTransaction \<Rightarrow> bool" where
  "wf_CTransaction tx \<longleftrightarrow>
     in_i32 (nVersion tx) \<and> in_i32 (nLockTime tx) \<and>
     length (vin tx) \<le> MAX_SIZE \<and> list_all wf_CTxIn (vin tx) \<and>
     length (vout tx) \<le> MAX_SIZE \<and> list_all wf_CTxOut (vout tx)"

definition GetSerializeSize_CTxIn :: "CTxIn \<Rightarrow> nat" where
  "GetSerializeSize_CTxIn x = 36 + GetSerializeSize_vch (scriptSig x) + 4"

definition GetSerializeSize_CTxOut :: "CTxOut \<Rightarrow> nat" where
  "GetSerializeSize_CTxOut x = 8 + GetSerializeSize_vch (scriptPubKey x)"

definition GetSerializeSize_CTransaction :: "CTransaction \<Rightarrow> nat" where
  "GetSerializeSize_CTransaction tx =
     4 + GetSerializeSize_vector GetSerializeSize_CTxIn (vin tx) +
     GetSerializeSize_vector GetSerializeSize_CTxOut (vout tx) + 4"

lemma length_ser_u32 [simp, wire]: "length (ser_u32 w) = 4"
  by (simp add: ser_u32_def)

lemma unser_u32_ser [simp, wire]: "unser_u32 (ser_u32 w @ rest) = Some (w, rest)"
  using unsigned_less [where 'a = nat and w = w]
  by (simp add: unser_u32_def ser_u32_def)

lemma length_ser_uint256 [simp, wire]: "length (ser_uint256 h) = 32"
  by (simp add: ser_uint256_def)

lemma unser_uint256_ser [simp, wire]: "unser_uint256 (ser_uint256 h @ rest) = Some (h, rest)"
  by (simp add: unser_uint256_def ser_uint256_def)

interpretation u32: sized_codec ser_u32 unser_u32 "\<lambda>_. True" "\<lambda>_. 4"
  by unfold_locales simp_all

interpretation u256: sized_codec ser_uint256 unser_uint256 "\<lambda>_. True" "\<lambda>_. 32"
  by unfold_locales simp_all

interpretation outpoint: sized_codec ser_COutPoint unser_COutPoint "\<lambda>_. True" "\<lambda>_. 36"
  by unfold_locales (simp_all add: unser_COutPoint_def ser_COutPoint_def)

interpretation txin: sized_codec ser_CTxIn unser_CTxIn wf_CTxIn GetSerializeSize_CTxIn
  by unfold_locales
    (simp_all add: unser_CTxIn_def ser_CTxIn_def wf_CTxIn_def GetSerializeSize_CTxIn_def
      outpoint.unser_ser outpoint.length_ser length_Serialize_vch)

interpretation txout: sized_codec ser_CTxOut unser_CTxOut wf_CTxOut GetSerializeSize_CTxOut
  by unfold_locales
    (simp_all add: unser_CTxOut_def ser_CTxOut_def wf_CTxOut_def GetSerializeSize_CTxOut_def
      length_Serialize_vch)

interpretation tx: sized_codec ser_CTransaction unser_CTransaction wf_CTransaction
  GetSerializeSize_CTransaction
  by unfold_locales
    (simp_all add: unser_CTransaction_def ser_CTransaction_def wf_CTransaction_def
      GetSerializeSize_CTransaction_def txin.unser_vector txout.unser_vector
      txin.length_vector txout.length_vector)

definition SerializeHash_tx :: "ext \<Rightarrow> CTransaction \<Rightarrow> uint256" where
  "SerializeHash_tx E tx = Hash E (ser_CTransaction tx)"

section \<open>Lock time and sequence\<close>

text \<open>\<open>nBest\<close> is the global \<^verbatim>\<open>nBestHeight\<close>.\<close>

definition IsFinal :: "int \<Rightarrow> CTransaction \<Rightarrow> bool" where
  "IsFinal nBest tx =
     (if nLockTime tx = 0 \<or> nLockTime tx < nBest then True
      else list_all CTxIn_IsFinal (vin tx))"

text \<open>
  \<^verbatim>\<open>nLockTime < LOCKTIME_THRESHOLD\<close> compares an \<^verbatim>\<open>int\<close> with an \<^verbatim>\<open>unsigned int\<close>: C converts the
  left side to unsigned.  The next comparison is signed.
\<close>

definition IsFinalAt :: "CTransaction \<Rightarrow> int \<Rightarrow> int \<Rightarrow> bool" where
  "IsFinalAt tx nBlockHeight nBlockTime =
     (if nLockTime tx = 0 then True
      else let nCutoff = (if u32_of (nLockTime tx) < LOCKTIME_THRESHOLD then nBlockHeight
                          else nBlockTime)
           in if nLockTime tx < nCutoff then True else list_all CTxIn_IsFinal (vin tx))"

text \<open>\<open>newer_scan\<close> is the loop of \<open>IsNewerThan\<close> over both input lists.\<close>

fun newer_scan :: "CTxIn list \<Rightarrow> CTxIn list \<Rightarrow> bool \<Rightarrow> u32 \<Rightarrow> bool" where
  "newer_scan (a # as) (b # bs) fNewer nLowest =
     (if nSequence a \<noteq> nSequence b then
        (let (f1, l1) = (if nSequence a \<le> nLowest then (False, nSequence a) else (fNewer, nLowest));
             (f2, l2) = (if nSequence b < l1 then (True, nSequence b) else (f1, l1))
         in newer_scan as bs f2 l2)
      else newer_scan as bs fNewer nLowest)"
| "newer_scan _ _ fNewer nLowest = fNewer"

definition IsNewerThan :: "CTransaction \<Rightarrow> CTransaction \<Rightarrow> bool" where
  "IsNewerThan t old =
     (if length (vin t) \<noteq> length (vin old) then False
      else if map prevout (vin t) \<noteq> map prevout (vin old) then False
      else newer_scan (vin t) (vin old) False (- 1))"

definition SignalsReplacement :: "CTransaction \<Rightarrow> bool" where
  "SignalsReplacement tx \<longleftrightarrow> list_ex (\<lambda>i. nSequence i < SEQUENCE_FINAL - 1) (vin tx)"

definition IsCoinBase :: "CTransaction \<Rightarrow> bool" where
  "IsCoinBase tx \<longleftrightarrow> length (vin tx) = 1 \<and> COutPoint_IsNull (prevout (vin tx ! 0))"

definition tx_GetSigOpCount :: "bool \<Rightarrow> CTransaction \<Rightarrow> nat" where
  "tx_GetSigOpCount v4 tx =
     sum_list (map (\<lambda>i. GetSigOpCount v4 (scriptSig i)) (vin tx)) +
     sum_list (map (\<lambda>o1. GetSigOpCount v4 (scriptPubKey o1)) (vout tx))"

section \<open>Values\<close>

datatype tx_error = VinOrVoutEmpty | ValueNegative | ValueTooHigh | TotalOutOfRange
  | CoinbaseScriptSize | PrevoutNull | DuplicateInputs

text \<open>The loop over the outputs that \<open>CheckTransaction\<close> and \<open>GetValueOut\<close> share, with the
  64 bit addition of the code.\<close>

fun sum_outputs :: "int \<Rightarrow> CTxOut list \<Rightarrow> tx_error + int" where
  "sum_outputs nValueOut [] = Inr nValueOut"
| "sum_outputs nValueOut (txout # rest) =
     (if nValue txout < 0 then Inl ValueNegative
      else if MAX_MONEY < nValue txout then Inl ValueTooHigh
      else let v = i64 (nValueOut + nValue txout)
           in if \<not> MoneyRange v then Inl TotalOutOfRange else sum_outputs v rest)"

definition GetValueOut :: "CTransaction \<Rightarrow> tx_error + int" where
  "GetValueOut tx = sum_outputs 0 (vout tx)"

text \<open>The set of outpoints seen so far.\<close>

fun no_duplicates :: "COutPoint set \<Rightarrow> CTxIn list \<Rightarrow> bool" where
  "no_duplicates vInOutPoints [] = True"
| "no_duplicates vInOutPoints (txin # rest) =
     (if prevout txin \<in> vInOutPoints then False
      else no_duplicates (insert (prevout txin) vInOutPoints) rest)"

definition CheckTransaction :: "CTransaction \<Rightarrow> tx_error + unit" where
  "CheckTransaction tx =
     (if vin tx = [] \<or> vout tx = [] then Inl VinOrVoutEmpty
      else case sum_outputs 0 (vout tx) of
             Inl e \<Rightarrow> Inl e
           | Inr _ \<Rightarrow>
               if IsCoinBase tx \<and>
                  (length (scriptSig (vin tx ! 0)) < 2 \<or> 100 < length (scriptSig (vin tx ! 0)))
               then Inl CoinbaseScriptSize
               else if \<not> IsCoinBase tx \<and> list_ex (\<lambda>i. COutPoint_IsNull (prevout i)) (vin tx)
               then Inl PrevoutNull
               else if \<not> no_duplicates {} (vin tx) then Inl DuplicateInputs
               else Inr ())"

definition GetMinFee :: "bool \<Rightarrow> CTransaction \<Rightarrow> int" where
  "GetMinFee fDiscount tx =
     (let nBytes = GetSerializeSize_CTransaction tx mod 2 ^ 32
      in if fDiscount \<and> nBytes < 10000 then 0 else (1 + int (nBytes div 1000)) * CENT)"

definition FeeForSize :: "int \<Rightarrow> nat \<Rightarrow> int" where
  "FeeForSize nRatePerKB nBytes =
     (let x = i64 (i64 (nRatePerKB * int (nBytes mod 2 ^ 32)) + 999) in sgn x * (\<bar>x\<bar> div 1000))"

section \<open>What the checks decide\<close>

lemma MAX_MONEY_value: "MAX_MONEY = 2100000000000000"
  by (simp add: MAX_MONEY_def COIN_def)

lemma i64_money [simp]:
  "MoneyRange a \<Longrightarrow> MoneyRange b \<Longrightarrow> i64 (a + b) = a + b"
  by (rule i64_id) (simp add: MoneyRange_def MAX_MONEY_value in_i64_def)

text \<open>
  No addition of the loop leaves 64 bits, and it accepts exactly when every value is
  non-negative and the exact sum is at most \<open>MAX_MONEY\<close>.
\<close>

lemma sum_outputs_ok:
  "MoneyRange a \<Longrightarrow> sum_outputs a outs = Inr v \<longleftrightarrow>
     (\<forall>x \<in> set outs. 0 \<le> nValue x) \<and> v = a + sum_list (map nValue outs) \<and> v \<le> MAX_MONEY"
proof (induction outs arbitrary: a)
  case Nil
  then show ?case by (auto simp: MoneyRange_def)
next
  case (Cons x outs)
  have sum_pos: "(\<forall>y \<in> set outs. 0 \<le> nValue y) \<Longrightarrow> 0 \<le> sum_list (map nValue outs)"
    by (induction outs) simp_all
  show ?case
  proof (cases "MoneyRange (nValue x) \<and> MoneyRange (a + nValue x)")
    case True
    with Cons show ?thesis by (auto simp: MoneyRange_def)
  next
    case False
    then have "sum_outputs a (x # outs) \<noteq> Inr v"
      using Cons.prems by (cases "MoneyRange (nValue x)") (auto simp: MoneyRange_def)
    moreover have "\<not> (0 \<le> nValue x \<and> (\<forall>y \<in> set outs. 0 \<le> nValue y) \<and>
        a + (nValue x + sum_list (map nValue outs)) \<le> MAX_MONEY)"
      using False Cons.prems sum_pos by (auto simp: MoneyRange_def)
    ultimately show ?thesis by auto
  qed
qed

lemma MoneyRange_0 [simp]: "MoneyRange 0"
  by (simp add: MoneyRange_def MAX_MONEY_value)

lemma GetValueOut_ok:
  "GetValueOut tx = Inr v \<longleftrightarrow>
     (\<forall>x \<in> set (vout tx). 0 \<le> nValue x) \<and> v = sum_list (map nValue (vout tx)) \<and> v \<le> MAX_MONEY"
  by (simp add: GetValueOut_def sum_outputs_ok)

lemma no_duplicates_iff:
  "no_duplicates S is \<longleftrightarrow> distinct (map prevout is) \<and> S \<inter> prevout ` set is = {}"
  by (induction S "is" rule: no_duplicates.induct) auto

definition tx_sane :: "CTransaction \<Rightarrow> bool" where
  "tx_sane tx \<longleftrightarrow>
     vin tx \<noteq> [] \<and> vout tx \<noteq> [] \<and>
     (\<forall>x \<in> set (vout tx). 0 \<le> nValue x) \<and> sum_list (map nValue (vout tx)) \<le> MAX_MONEY \<and>
     distinct (map prevout (vin tx)) \<and>
     (if IsCoinBase tx
      then length (scriptSig (vin tx ! 0)) \<in> {2..100}
      else \<forall>i \<in> set (vin tx). \<not> COutPoint_IsNull (prevout i))"

lemma CheckTransaction_iff: "CheckTransaction tx = Inr () \<longleftrightarrow> tx_sane tx"
proof (cases "sum_outputs 0 (vout tx)")
  case (Inl e)
  then have "\<not> ((\<forall>x \<in> set (vout tx). 0 \<le> nValue x) \<and> sum_list (map nValue (vout tx)) \<le> MAX_MONEY)"
    using sum_outputs_ok [OF MoneyRange_0, of "vout tx" "sum_list (map nValue (vout tx))"] by auto
  with Inl show ?thesis by (auto simp: CheckTransaction_def tx_sane_def)
next
  case (Inr v)
  then have ok: "(\<forall>x \<in> set (vout tx). 0 \<le> nValue x) \<and> sum_list (map nValue (vout tx)) \<le> MAX_MONEY"
    using sum_outputs_ok [OF MoneyRange_0, of "vout tx" v] by auto
  show ?thesis
    using Inr ok by (simp add: CheckTransaction_def tx_sane_def no_duplicates_iff list_ex_iff)
qed

text \<open>The lowest sequence numbers of the differing inputs decide which version of a transaction is newer.\<close>

definition differing :: "CTxIn list \<Rightarrow> CTxIn list \<Rightarrow> (CTxIn \<times> CTxIn) list" where
  "differing as bs = filter (\<lambda>(a, b). nSequence a \<noteq> nSequence b) (zip as bs)"

lemma newer_scan_spec:
  "newer_scan as bs (mo < mn) (min mo mn) \<longleftrightarrow>
     foldl min mo (map (nSequence \<circ> snd) (differing as bs)) <
     foldl min mn (map (nSequence \<circ> fst) (differing as bs))"
proof (induction as arbitrary: bs mo mn)
  case Nil
  then show ?case by (simp add: differing_def)
next
  case (Cons a as)
  show ?case
  proof (cases bs)
    case Nil
    then show ?thesis by (simp add: differing_def)
  next
    case (Cons b bs')
    define mo' where "mo' = min mo (nSequence b)"
    define mn' where "mn' = min mn (nSequence a)"
    have step: "newer_scan as bs' (mo' < mn') (min mo' mn') =
        newer_scan (a # as) (b # bs') (mo < mn) (min mo mn)" if "nSequence a \<noteq> nSequence b"
    proof -
      have "(let (f1, l1) = (if nSequence a \<le> min mo mn then (False, nSequence a)
                else (mo < mn, min mo mn));
              (f2, l2) = (if nSequence b < l1 then (True, nSequence b) else (f1, l1))
            in (f2, l2)) = (mo' < mn', min mo' mn')"
        using that unfolding mo'_def mn'_def min_def Let_def by (auto split: if_splits)
      with that show ?thesis by (auto simp: Let_def split: if_splits)
    qed
    show ?thesis
    proof (cases "nSequence a = nSequence b")
      case True
      with Cons Cons.IH show ?thesis by (simp add: differing_def)
    next
      case False
      with Cons Cons.IH [of bs' mo' mn'] step show ?thesis
        by (simp add: differing_def mo'_def mn'_def)
    qed
  qed
qed

end
