(* ===== verification/SigHash.thy ===== *)
theory SigHash
  imports Transaction
begin

text \<open>
  The hashes a signature and a covenant commit to and the encoding of signatures
  (src/script.cpp): \<^verbatim>\<open>CheckTemplateHash\<close> with its per-run cache, \<^verbatim>\<open>SignatureHash\<close>, the strict
  DER and low-S rules, and \<^verbatim>\<open>CheckSig\<close>.  The lemmas show that the cache never changes a
  template hash, that a strict signature is exactly one of the shape BIP66 describes, and
  that two strict signatures with the same integers are the same bytes.
\<close>

section \<open>The template hash\<close>

record CtvHashCache =
  fReady :: bool
  hashSequences :: uint256
  hashOutputs :: uint256

definition CtvHashCache_init :: CtvHashCache where
  "CtvHashCache_init = \<lparr>fReady = False, hashSequences = 0, hashOutputs = 0\<rparr>"

definition Sha256Of :: "ext \<Rightarrow> bytes \<Rightarrow> uint256" where
  "Sha256Of E ss = uint256_of_bytes (SHA256 E ss)"

definition ctv_fill :: "ext \<Rightarrow> CTransaction \<Rightarrow> CtvHashCache \<Rightarrow> CtvHashCache" where
  "ctv_fill E tx c =
     (if \<not> fReady c then
        \<lparr>fReady = True,
         hashSequences = Sha256Of E (concat (map (\<lambda>txin. ser_u32 (nSequence txin)) (vin tx))),
         hashOutputs = Sha256Of E (concat (map ser_CTxOut (vout tx)))\<rparr>
      else c)"

definition CheckTemplateHash ::
    "ext \<Rightarrow> CTransaction \<Rightarrow> nat \<Rightarrow> CtvHashCache \<Rightarrow> uint256 \<times> CtvHashCache" where
  "CheckTemplateHash E tx nIn cache =
     (let c = ctv_fill E tx cache;
          ss = ser_int32 (nVersion tx) @ ser_int32 (nLockTime tx) @
               ser_uint 4 (length (vin tx)) @ ser_uint256 (hashSequences c) @
               ser_uint 4 (length (vout tx)) @ ser_uint256 (hashOutputs c) @
               ser_uint 4 nIn
      in (Sha256Of E ss, c))"

text \<open>A cache is valid for a transaction when it is empty or what that transaction fills in.\<close>

definition ctv_valid :: "ext \<Rightarrow> CTransaction \<Rightarrow> CtvHashCache \<Rightarrow> bool" where
  "ctv_valid E tx c \<longleftrightarrow> fReady c \<longrightarrow> c = ctv_fill E tx CtvHashCache_init"

lemma ctv_valid_init [simp]: "ctv_valid E tx CtvHashCache_init"
  by (simp add: ctv_valid_def CtvHashCache_init_def)

lemma ctv_fill_valid: "ctv_valid E tx c \<Longrightarrow> ctv_fill E tx c = ctv_fill E tx CtvHashCache_init"
  by (auto simp: ctv_valid_def ctv_fill_def CtvHashCache_init_def)

lemma ctv_valid_fill: "ctv_valid E tx (ctv_fill E tx CtvHashCache_init)"
  by (simp add: ctv_valid_def)

lemma CheckTemplateHash_cache:
  assumes "ctv_valid E tx c"
  shows "CheckTemplateHash E tx nIn c = CheckTemplateHash E tx nIn CtvHashCache_init \<and>
    ctv_valid E tx (snd (CheckTemplateHash E tx nIn c))"
  by (simp only: CheckTemplateHash_def Let_def ctv_fill_valid [OF assms] snd_conv ctv_valid_fill)

text \<open>The hash reads no scriptSig and no outpoint of the transaction.\<close>

lemma CheckTemplateHash_ignores:
  assumes "map nSequence (vin tx) = map nSequence (vin tx')" "vout tx = vout tx'"
    and "nVersion tx = nVersion tx'" "nLockTime tx = nLockTime tx'"
  shows "fst (CheckTemplateHash E tx nIn CtvHashCache_init) =
    fst (CheckTemplateHash E tx' nIn CtvHashCache_init)"
proof -
  have "map (\<lambda>txin. ser_u32 (nSequence txin)) (vin tx) =
      map (\<lambda>txin. ser_u32 (nSequence txin)) (vin tx')"
    using assms(1) by (metis (mono_tags, lifting) map_map comp_def map_eq_conv)
  moreover have "length (vin tx) = length (vin tx')" using assms(1) by (rule map_eq_imp_length_eq)
  ultimately show ?thesis
    using assms by (simp add: CheckTemplateHash_def Let_def ctv_fill_def CtvHashCache_init_def)
qed

section \<open>The signature hash\<close>

definition SIGHASH_ALL :: int where "SIGHASH_ALL = 1"
definition SIGHASH_NONE :: int where "SIGHASH_NONE = 2"
definition SIGHASH_SINGLE :: int where "SIGHASH_SINGLE = 3"
definition SIGHASH_ANYONECANPAY :: int where "SIGHASH_ANYONECANPAY = 0x80"

text \<open>Everyone else's sequence number set to 0, for \<open>SIGHASH_NONE\<close> and \<open>SIGHASH_SINGLE\<close>.\<close>

definition others_update :: "nat \<Rightarrow> CTxIn list \<Rightarrow> CTxIn list" where
  "others_update nIn ins =
     map (\<lambda>(i, x). if i \<noteq> nIn then x\<lparr>nSequence := 0\<rparr> else x) (zip [0..<length ins] ins)"

definition blank_inputs :: "bytes \<Rightarrow> nat \<Rightarrow> CTxIn list \<Rightarrow> CTxIn list" where
  "blank_inputs scriptCode nIn ins =
     (let blank = map (\<lambda>x. x\<lparr>scriptSig := []\<rparr>) ins
      in blank[nIn := (blank ! nIn)\<lparr>scriptSig := scriptCode\<rparr>])"

text \<open>The transaction that is hashed, or \<open>None\<close> where the code returns the hash 1.\<close>

definition sighash_tx :: "bytes \<Rightarrow> CTransaction \<Rightarrow> nat \<Rightarrow> int \<Rightarrow> CTransaction option" where
  "sighash_tx scriptCode txTo nIn nHashType =
     (if length (vin txTo) \<le> nIn then None
      else
        let code = FindAndDelete (push_opcode OP_CODESEPARATOR) scriptCode;
            t1 = txTo\<lparr>vin := blank_inputs code nIn (vin txTo)\<rparr>
        in (case
              (if nHashType AND 0x1f = SIGHASH_NONE then
                 Some (t1\<lparr>vout := [], vin := others_update nIn (vin t1)\<rparr>)
               else if nHashType AND 0x1f = SIGHASH_SINGLE then
                 (if length (vout t1) \<le> nIn then None
                  else Some (t1\<lparr>vout := replicate nIn CTxOut_SetNull @ [vout t1 ! nIn],
                                vin := others_update nIn (vin t1)\<rparr>))
               else Some t1) of
              None \<Rightarrow> None
            | Some t2 \<Rightarrow>
                Some (if nHashType AND SIGHASH_ANYONECANPAY \<noteq> 0
                      then t2\<lparr>vin := [vin t2 ! nIn]\<rparr> else t2)))"

definition SignatureHash :: "ext \<Rightarrow> bytes \<Rightarrow> CTransaction \<Rightarrow> nat \<Rightarrow> int \<Rightarrow> uint256" where
  "SignatureHash E scriptCode txTo nIn nHashType =
     (case sighash_tx scriptCode txTo nIn nHashType of
        None \<Rightarrow> 1
      | Some txTmp \<Rightarrow> Hash E (ser_CTransaction txTmp @ ser_int32 nHashType))"

section \<open>Signature encoding\<close>

definition IsStrictDERSignature :: "bytes \<Rightarrow> bool" where
  "IsStrictDERSignature sig =
     (if length sig < 9 \<or> length sig > 73 then False
      else if sig ! 0 \<noteq> 0x30 then False
      else if unat (sig ! 1) \<noteq> length sig - 3 then False
      else let lenR = unat (sig ! 3)
      in if 5 + lenR \<ge> length sig then False
      else let lenS = unat (sig ! (5 + lenR))
      in if lenR + lenS + 7 \<noteq> length sig then False
      else if sig ! 2 \<noteq> 0x02 then False
      else if lenR = 0 then False
      else if sig ! 4 AND 0x80 \<noteq> 0 then False
      else if lenR > 1 \<and> sig ! 4 = 0 \<and> sig ! 5 AND 0x80 = 0 then False
      else if sig ! (lenR + 4) \<noteq> 0x02 then False
      else if lenS = 0 then False
      else if sig ! (lenR + 6) AND 0x80 \<noteq> 0 then False
      else if lenS > 1 \<and> sig ! (lenR + 6) = 0 \<and> sig ! (lenR + 7) AND 0x80 = 0 then False
      else True)"

text \<open>\<^verbatim>\<open>memcmp(a, b, n) <= 0\<close> on buffers of the same length.\<close>

fun memcmp_le :: "bytes \<Rightarrow> bytes \<Rightarrow> bool" where
  "memcmp_le (a # as) (b # bs) = (if a = b then memcmp_le as bs else a < b)"
| "memcmp_le _ _ = True"

definition halfOrder :: bytes where
  "halfOrder =
     [0x7F,0xFF,0xFF,0xFF,0xFF,0xFF,0xFF,0xFF,0xFF,0xFF,0xFF,0xFF,0xFF,0xFF,0xFF,0xFF,
      0x5D,0x57,0x6E,0x73,0x57,0xA4,0x50,0x1D,0xDF,0xE9,0x2F,0x46,0x68,0x1B,0x20,0xA0]"

definition IsLowSSignature :: "bytes \<Rightarrow> bool" where
  "IsLowSSignature sig =
     (if \<not> IsStrictDERSignature sig then False
      else let lenR = unat (sig ! 3);
               lenS = unat (sig ! (5 + lenR));
               S = drop (6 + lenR) sig;
               (S', n) = (if lenS = 33 \<and> S ! 0 = 0 then (drop 1 S, 32) else (S, lenS))
           in if n > 32 then False
              else memcmp_le (replicate (32 - n) 0 @ take n S') halfOrder)"

definition CheckSig ::
    "ext \<Rightarrow> bytes \<Rightarrow> bytes \<Rightarrow> bytes \<Rightarrow> CTransaction \<Rightarrow> nat \<Rightarrow> int \<Rightarrow> bool \<Rightarrow> bool" where
  "CheckSig E vchSig vchPubKey scriptCode txTo nIn nHashType fStrictSigs =
     (if fStrictSigs \<and> (\<not> IsStrictDERSignature vchSig \<or> \<not> IsLowSSignature vchSig) then False
      else if vchSig = [] then False
      else let nBack = uint (last vchSig)
      in if nHashType \<noteq> 0 \<and> nHashType \<noteq> nBack then False
      else let nHash = (if nHashType = 0 then nBack else nHashType);
               hash = SignatureHash E scriptCode txTo nIn nHash
           in SigCheckEcdsa E (bytes_of_uint256 hash) (butlast vchSig) vchPubKey)"

section \<open>What a strict signature is\<close>

text \<open>A positive DER integer in its shortest form, and the signature built from two of them.\<close>

definition der_int :: "bytes \<Rightarrow> bool" where
  "der_int bs \<longleftrightarrow> bs \<noteq> [] \<and> unat (hd bs) < 128 \<and>
     (1 < length bs \<and> hd bs = 0 \<longrightarrow> 128 \<le> unat (bs ! 1))"

definition der_sig :: "bytes \<Rightarrow> bytes \<Rightarrow> byte \<Rightarrow> bytes" where
  "der_sig R S ht =
     [0x30, word_of_nat (4 + length R + length S), 2, word_of_nat (length R)] @ R @
     [2, word_of_nat (length S)] @ S @ [ht]"

lemma top_clear: "(c::byte) AND 0x80 = 0 \<longleftrightarrow> unat c < 128"
  using byte_top_bit [of c] by auto

lemma IsStrictDER_conj:
  "IsStrictDERSignature sig \<longleftrightarrow>
     (let lenR = unat (sig ! 3); lenS = unat (sig ! (lenR + 5))
      in 9 \<le> length sig \<and> length sig \<le> 73 \<and> sig ! 0 = 0x30 \<and>
         unat (sig ! 1) = length sig - 3 \<and> lenR + lenS + 7 = length sig \<and> sig ! 2 = 2 \<and>
         lenR \<noteq> 0 \<and> lenS \<noteq> 0 \<and> sig ! (lenR + 4) = 2 \<and>
         unat (sig ! 4) < 128 \<and> (1 < lenR \<and> sig ! 4 = 0 \<longrightarrow> 128 \<le> unat (sig ! 5)) \<and>
         unat (sig ! (lenR + 6)) < 128 \<and>
         (1 < lenS \<and> sig ! (lenR + 6) = 0 \<longrightarrow> 128 \<le> unat (sig ! (lenR + 7))))"
  unfolding IsStrictDERSignature_def Let_def top_clear
  by (auto simp: add.commute not_less not_le)

lemma strict_der_sig:
  assumes "der_int R" "der_int S" "length R + length S \<le> 66"
  shows "IsStrictDERSignature (der_sig R S ht)"
proof -
  have R: "R \<noteq> []" "S \<noteq> []" using assms by (simp_all add: der_int_def)
  then have len: "1 \<le> length R" "1 \<le> length S" by (simp_all add: Suc_le_eq)
  have u: "unat (word_of_nat (length R) :: byte) = length R"
    "unat (word_of_nat (length S) :: byte) = length S"
    "unat (word_of_nat (4 + length R + length S) :: byte) = 4 + length R + length S"
    using assms(3) by (simp_all only: unat_byte_of) simp_all
  define sig where "sig = der_sig R S ht"
  have n: "unat (sig ! 3) = length R" "unat (sig ! (length R + 5)) = length S"
    "sig ! (length R + 4) = 2" "sig ! (length R + 6) = hd S" "sig ! 4 = hd R"
    "sig ! 0 = 0x30" "sig ! 2 = 2"
    using R u by (simp_all add: sig_def der_sig_def nth_append hd_conv_nth nth_Cons')
  have n2: "1 < length S \<Longrightarrow> sig ! (length R + 7) = S ! 1" "1 < length R \<Longrightarrow> sig ! 5 = R ! 1"
    using R by (simp_all add: sig_def der_sig_def nth_append nth_Cons')
  have "sig ! 1 = word_of_nat (4 + length R + length S)"
    by (simp add: sig_def der_sig_def)
  then have n1: "unat (sig ! 1) = 4 + length R + length S" by (simp only: u(3))
  have l: "length sig = 7 + length R + length S" by (simp add: sig_def der_sig_def)
  have d: "unat (hd R) < 128" "unat (hd S) < 128" "1 < length R \<and> hd R = 0 \<longrightarrow> 128 \<le> unat (R ! 1)"
    "1 < length S \<and> hd S = 0 \<longrightarrow> 128 \<le> unat (S ! 1)"
    using assms by (simp_all add: der_int_def)
  have "IsStrictDERSignature sig"
    unfolding IsStrictDER_conj n Let_def n1 l using R d len assms(3) n2 by simp
  then show ?thesis by (simp add: sig_def)
qed

lemma strict_is_der_sig:
  assumes "IsStrictDERSignature sig"
  obtains R S ht where "der_int R" "der_int S" "length R + length S \<le> 66" "sig = der_sig R S ht"
proof -
  define lenR lenS where "lenR = unat (sig ! 3)" and "lenS = unat (sig ! (lenR + 5))"
  note c = assms [unfolded IsStrictDER_conj Let_def, folded lenR_def, folded lenS_def]
  obtain a b x y rest where sig: "sig = a # b # x # y # rest"
    using c by (cases sig; cases "tl sig"; cases "tl (tl sig)"; cases "tl (tl (tl sig))") auto
  define R where "R = take lenR rest"
  have lr: "length rest = lenR + lenS + 3" using c sig by simp
  obtain e f rest3 where r2: "drop lenR rest = e # f # rest3"
    using lr by (cases "drop lenR rest"; cases "tl (drop lenR rest)")
      (auto dest!: arg_cong [where f = length])
  define S where "S = take lenS rest3"
  have "length (drop lenR rest) = lenS + 3" using lr by simp
  then have l3: "length rest3 = lenS + 1" by (simp add: r2)
  then obtain ht where ht: "drop lenS rest3 = [ht]"
    by (cases "drop lenS rest3") (auto dest!: arg_cong [where f = length])
  have rest: "rest = R @ e # f # S @ [ht]"
    using r2 ht by (metis R_def S_def append_take_drop_id)
  have lR: "length R = lenR" "length S = lenS" using lr l3 by (simp_all add: R_def S_def)
  have e: "e = 2" and f: "unat f = lenS"
    using c lenS_def lR by (simp_all add: sig rest nth_append nth_Cons')
  have ab: "a = 0x30" "x = 2" "unat b = 4 + lenR + lenS" "unat y = lenR"
    using c lenR_def by (simp_all add: sig lr)
  have RS: "R \<noteq> []" "S \<noteq> []" using c lR by auto
  have nth: "sig ! 4 = hd R" "sig ! (lenR + 6) = hd S"
    using RS lR c by (simp_all add: sig rest nth_append hd_conv_nth nth_Cons')
  have nth2: "1 < lenR \<Longrightarrow> sig ! 5 = R ! 1" "1 < lenS \<Longrightarrow> sig ! (lenR + 7) = S ! 1"
    using lR by (simp_all add: sig rest nth_append nth_Cons')
  have "der_int R" "der_int S"
    using c RS lR nth nth2 by (simp_all add: der_int_def)
  moreover have "length R + length S \<le> 66" using c lR by simp
  moreover have "b = word_of_nat (4 + length R + length S)" "y = word_of_nat (length R)"
    "f = word_of_nat (length S)"
    using ab f lR by (metis word_of_nat_unat_byte)+
  then have "sig = der_sig R S ht" by (simp add: der_sig_def sig rest ab e)
  ultimately show ?thesis using that by blast
qed

theorem IsStrictDER_iff:
  "IsStrictDERSignature sig \<longleftrightarrow>
     (\<exists>R S ht. der_int R \<and> der_int S \<and> length R + length S \<le> 66 \<and> sig = der_sig R S ht)"
  by (metis strict_der_sig strict_is_der_sig)

text \<open>The shortest form of an integer is unique.\<close>

lemma der_int_form:
  assumes "der_int bs"
  shows "bs = (if be_nat bs = 0 then [0] else mpi_body (int (be_nat bs)))"
proof -
  obtain b bs' where bs: "bs = b # bs'" using assms by (cases bs) (auto simp: der_int_def)
  have le: "rev (le_min (be_nat cs)) = cs" if "cs \<noteq> []" "hd cs \<noteq> 0" for cs
    using le_min_le_nat [of "rev cs"] that by (simp add: be_nat_def last_rev)
  show ?thesis
  proof (cases "b = 0")
    case False
    with bs le [of bs] have "rev (le_min (be_nat bs)) = b # bs'" by simp
    moreover from this have "be_nat bs \<noteq> 0" by (metis le_min_0 list.distinct(1) rev.simps(1))
    ultimately show ?thesis using assms bs by (simp add: mpi_body_def der_int_def)
  next
    case True
    show ?thesis
    proof (cases bs')
      case Nil
      with bs True show ?thesis by (simp add: be_nat_Cons)
    next
      case (Cons c cs)
      with assms bs True have c: "128 \<le> unat c" by (simp add: der_int_def)
      then have "c \<noteq> 0" by auto
      with Cons le [of bs'] have r: "rev (le_min (be_nat bs')) = c # cs" by simp
      then have "be_nat bs' \<noteq> 0" by (metis le_min_0 list.distinct(1) rev.simps(1))
      with r c Cons bs True show ?thesis by (simp add: mpi_body_def be_nat_Cons [of 0])
    qed
  qed
qed

lemma der_int_unique: "der_int a \<Longrightarrow> der_int b \<Longrightarrow> be_nat a = be_nat b \<Longrightarrow> a = b"
  by (metis der_int_form)

text \<open>\<^verbatim>\<open>memcmp\<close> on equal lengths compares the big-endian numbers.\<close>

lemma memcmp_le_be_nat:
  "length as = length bs \<Longrightarrow> memcmp_le as bs \<longleftrightarrow> be_nat as \<le> be_nat bs"
proof (induction as bs rule: memcmp_le.induct)
  case (1 a as b bs)
  then have l: "length as = length bs" by simp
  have bound: "be_nat as < 256 ^ length bs" "be_nat bs < 256 ^ length bs"
    using be_nat_bound [of as] be_nat_bound [of bs] l by simp_all
  consider "a = b" | "a < b" | "b < a" by (rule linorder_cases)
  then show ?case
  proof cases
    case 1
    with "1.IH" l show ?thesis by (simp add: be_nat_Cons)
  next
    case 2
    then have "(unat a + 1) * 256 ^ length bs \<le> unat b * 256 ^ length bs"
      by (intro mult_right_mono) (simp_all add: word_less_nat_alt)
    with 2 bound l show ?thesis by (simp add: be_nat_Cons distrib_right less_imp_neq)
  next
    case 3
    then have "(unat b + 1) * 256 ^ length bs \<le> unat a * 256 ^ length bs"
      by (intro mult_right_mono) (simp_all add: word_less_nat_alt)
    with 3 bound l show ?thesis by (auto simp: be_nat_Cons distrib_right)
  qed
qed auto

lemma be_nat_pad: "be_nat (replicate k 0 @ bs) = be_nat bs"
  by (simp add: be_nat_append)

lemma be_nat_long:
  assumes "der_int S" "33 < length S \<or> (length S = 33 \<and> hd S \<noteq> 0)"
  shows "256 ^ 32 \<le> be_nat S"
proof -
  obtain s S' where S: "S = s # S'" using assms(1) by (cases S) (auto simp: der_int_def)
  have big: "256 ^ 32 \<le> be_nat cs" if "cs \<noteq> []" "hd cs \<noteq> 0" "33 \<le> length cs" for cs
  proof -
    have "cs \<noteq> []" by (rule that(1))
    then obtain c cs' where cs: "cs = c # cs'" by (cases cs) simp_all
    have "(256::nat) ^ 32 \<le> 256 ^ length cs'" using that(3) cs by (intro power_increasing) auto
    also have "\<dots> \<le> unat c * 256 ^ length cs'"
      using that(2) cs by (simp add: Suc_le_eq unat_gt_0)
    finally show ?thesis unfolding cs be_nat_Cons by linarith
  qed
  show ?thesis
  proof (cases "s = 0")
    case False
    with S assms big [of S] show ?thesis by auto
  next
    case True
    with S assms have l: "33 \<le> length S'" by auto
    with True S assms(1) have "128 \<le> unat (hd S')"
      by (cases S') (auto simp: der_int_def)
    then have "hd S' \<noteq> 0" by auto
    moreover have "S' \<noteq> []" using l by auto
    ultimately have "256 ^ 32 \<le> be_nat S'" using big [of S'] l by simp
    with True S show ?thesis by (simp add: be_nat_Cons)
  qed
qed

theorem IsLowS_iff:
  assumes "der_int R" "der_int S" "length R + length S \<le> 66"
  shows "IsLowSSignature (der_sig R S ht) \<longleftrightarrow> be_nat S \<le> be_nat halfOrder"
proof -
  have u: "unat (der_sig R S ht ! 3) = length R"
      "unat (der_sig R S ht ! (5 + length R)) = length S"
    using assms(3) by (simp_all add: der_sig_def nth_append nth_Cons' unat_byte_of)
  have d: "drop (6 + length R) (der_sig R S ht) = S @ [ht]"
    by (simp add: der_sig_def eval_nat_numeral)
  have S: "S \<noteq> []" using assms(2) by (simp add: der_int_def)
  have half: "length halfOrder = 32" by (simp add: halfOrder_def)
  have half_lt: "be_nat halfOrder < 256 ^ 32" using be_nat_bound [of halfOrder] half by simp
  have eq: "IsLowSSignature (der_sig R S ht) \<longleftrightarrow>
      (let (S', n) = (if length S = 33 \<and> (S @ [ht]) ! 0 = 0 then (drop 1 (S @ [ht]), 32)
           else (S @ [ht], length S))
       in if n > 32 then False else memcmp_le (replicate (32 - n) 0 @ take n S') halfOrder)"
    by (simp only: IsLowSSignature_def strict_der_sig [OF assms] Let_def u d not_True_eq_False if_False)
  have S0: "(S @ [ht]) ! 0 = hd S" using S by (simp add: nth_append hd_conv_nth)
  consider (pad) "length S = 33" "hd S = 0" | (short) "length S \<le> 32"
    | (long) "33 < length S \<or> (length S = 33 \<and> hd S \<noteq> 0)" by linarith
  then show ?thesis
  proof cases
    case pad
    then obtain S' where S': "S = 0 # S'" "length S' = 32" using S by (cases S) auto
    then show ?thesis
      unfolding eq S0 using half by (simp add: memcmp_le_be_nat be_nat_Cons)
  next
    case short
    then show ?thesis
      unfolding eq S0 using half by (simp add: memcmp_le_be_nat be_nat_pad)
  next
    case long
    then have "\<not> be_nat S \<le> be_nat halfOrder"
      using be_nat_long [OF assms(2)] half_lt by linarith
    moreover have "32 < length S \<and> \<not> (length S = 33 \<and> hd S = 0)" using long by auto
    ultimately show ?thesis unfolding eq S0 by auto
  qed
qed

end
