(* ===== verification/Interp.thy ===== *)
theory Interp
  imports SigHash
begin

text \<open>
  The script interpreter (\<^verbatim>\<open>EvalScript\<close>, src/script.cpp).  The two stacks are lists with the
  top at the head, \<^verbatim>\<open>stacktop(-i)\<close> is element \<open>i - 1\<close>; \<open>vfExec\<close> has its back at the head; the
  program counter and \<open>pbegincodehash\<close> are the suffixes of the script they point to, so
  \<^verbatim>\<open>pc = pend\<close> is \<open>[]\<close>.  One definition per group of the code's switch gives what the
  operation does, with \<open>None\<close> for every \<^verbatim>\<open>return false\<close>; \<open>eval_step\<close> is one turn of the loop
  with its guards in the code's order and \<open>run_script\<close> the loop.
\<close>

section \<open>State and environment\<close>

type_synonym stack = "bytes list"

record script_state =
  st_stack :: stack
  st_alt :: stack
  vfExec :: "bool list"
  nOpCount :: nat
  st_pc :: bytes
  pbegincodehash :: bytes
  ctvCache :: CtvHashCache

record script_ctx =
  txTo :: CTransaction
  nIn :: nat
  nHashType :: int
  fStrictSigs :: bool
  fRulesV3 :: bool
  fRulesV4 :: bool

definition VERSION :: int where "VERSION = 102"

definition MAX_SCRIPT_ELEMENT_SIZE :: nat where "MAX_SCRIPT_ELEMENT_SIZE = 520"
definition MAX_OPS_PER_SCRIPT :: nat where "MAX_OPS_PER_SCRIPT = 201"
definition MAX_STACK_SIZE :: nat where "MAX_STACK_SIZE = 1000"

definition vchFalse :: bytes where "vchFalse = []"
definition vchTrue :: bytes where "vchTrue = [1]"

definition vch_of_bool :: "bool \<Rightarrow> bytes" where
  "vch_of_bool b = (if b then vchTrue else vchFalse)"

text \<open>\<^verbatim>\<open>CBigNum(int)\<close>: \<^verbatim>\<open>setulong\<close> sets the number itself (\<^verbatim>\<open>BN_set_word\<close>), a negative one goes
  through \<open>setint64\<close>.\<close>

definition CBigNum_int :: "ext \<Rightarrow> int \<Rightarrow> int" where
  "CBigNum_int E n = (if 0 \<le> n then n else setint64 E n)"

definition CastToBool :: "ext \<Rightarrow> bytes \<Rightarrow> bool" where
  "CastToBool E vch \<longleftrightarrow> setvch E vch \<noteq> 0"

definition MakeSameSize :: "bytes \<Rightarrow> bytes \<Rightarrow> bytes \<times> bytes" where
  "MakeSameSize vch1 vch2 =
     (vch1 @ replicate (length vch2 - length vch1) 0,
      vch2 @ replicate (length vch1 - length vch2) 0)"

definition bn_of_bool :: "bool \<Rightarrow> int" where
  "bn_of_bool b = (if b then 1 else 0)"

section \<open>Push value\<close>

definition op_number :: "ext \<Rightarrow> nat \<Rightarrow> stack \<Rightarrow> stack option" where
  "op_number E opcode st = Some (getvch E (CBigNum_int E (int opcode - (int OP_1 - 1))) # st)"

section \<open>Lock times and templates\<close>

definition op_cltv :: "ext \<Rightarrow> script_ctx \<Rightarrow> stack \<Rightarrow> bool" where
  "op_cltv E cx st =
     (if \<not> fRulesV3 cx then False
      else case st of
        [] \<Rightarrow> False
      | vch # _ \<Rightarrow>
          if length vch > 5 then False
          else let bnLock = setvch E vch
          in if bnLock < 0 then False
          else let fLockIsTime = (setint64 E (int LOCKTIME_THRESHOLD) \<le> bnLock);
                   fTxIsTime = (LOCKTIME_THRESHOLD \<le> u32_of (nLockTime (txTo cx)))
          in if fLockIsTime \<noteq> fTxIsTime then False
          else if bnLock > setint64 E (nLockTime (txTo cx)) then False
          else if CTxIn_IsFinal (vin (txTo cx) ! nIn cx) then False
          else True)"

definition SEQUENCE_LOCKTIME_DISABLE_FLAG :: u32 where
  "SEQUENCE_LOCKTIME_DISABLE_FLAG = push_bit 31 1"
definition SEQUENCE_LOCKTIME_TYPE_FLAG :: u32 where
  "SEQUENCE_LOCKTIME_TYPE_FLAG = push_bit 22 1"
definition SEQUENCE_LOCKTIME_MASK :: u32 where
  "SEQUENCE_LOCKTIME_MASK = 0x0000ffff"

text \<open>The low four bytes of a number's encoding, little-endian.\<close>

fun low_bytes :: "nat \<Rightarrow> bytes \<Rightarrow> u32" where
  "low_bytes k [] = 0"
| "low_bytes k (b # bs) =
     (if k < 4 then push_bit (8 * k) (word_of_nat (unat b)) OR low_bytes (Suc k) bs else 0)"

definition op_csv :: "ext \<Rightarrow> script_ctx \<Rightarrow> stack \<Rightarrow> bool" where
  "op_csv E cx st =
     (if \<not> fRulesV4 cx then False
      else case st of
        [] \<Rightarrow> False
      | vch # _ \<Rightarrow>
          if length vch > 5 then False
          else let bnSeq = setvch E vch
          in if bnSeq < 0 then False
          else let nScript = low_bytes 0 (getvch E bnSeq)
          in if nScript AND SEQUENCE_LOCKTIME_DISABLE_FLAG \<noteq> 0 then True
          else if u32_of (nVersion (txTo cx)) < 2 then False
          else let nTxSeq = nSequence (vin (txTo cx) ! nIn cx)
          in if nTxSeq AND SEQUENCE_LOCKTIME_DISABLE_FLAG \<noteq> 0 then False
          else let nMask = SEQUENCE_LOCKTIME_TYPE_FLAG OR SEQUENCE_LOCKTIME_MASK;
                   nTxMasked = nTxSeq AND nMask;
                   nScriptMasked = nScript AND nMask
          in if (nTxMasked < SEQUENCE_LOCKTIME_TYPE_FLAG) \<noteq>
                (nScriptMasked < SEQUENCE_LOCKTIME_TYPE_FLAG) then False
          else if nScriptMasked > nTxMasked then False
          else True)"

definition op_ctv :: "ext \<Rightarrow> script_ctx \<Rightarrow> stack \<Rightarrow> CtvHashCache \<Rightarrow> CtvHashCache option" where
  "op_ctv E cx st cache =
     (if \<not> fRulesV4 cx then None
      else case st of
        [] \<Rightarrow> None
      | vch # _ \<Rightarrow>
          if length vch = 32 then
            (let (hash, cache') = CheckTemplateHash E (txTo cx) (nIn cx) cache
             in if vch \<noteq> bytes_of_uint256 hash then None else Some cache')
          else Some cache)"

section \<open>Control\<close>

text \<open>\<open>OP_IF\<close> and its relatives; in a branch not taken they only nest.\<close>

definition op_if :: "ext \<Rightarrow> nat \<Rightarrow> bool \<Rightarrow> stack \<Rightarrow> bool list \<Rightarrow> (stack \<times> bool list) option" where
  "op_if E opcode fExec st vf =
     (if fExec then
        (case st of
           [] \<Rightarrow> None
         | vch # st' \<Rightarrow>
             let fVal = (if opcode = OP_VERIF \<or> opcode = OP_VERNOTIF
                         then setvch E vch \<le> CBigNum_int E VERSION else CastToBool E vch);
                 fVal' = (if opcode = OP_NOTIF \<or> opcode = OP_VERNOTIF then \<not> fVal else fVal)
             in Some (st', fVal' # vf))
      else Some (st, False # vf))"

definition op_else :: "bool list \<Rightarrow> bool list option" where
  "op_else vf = (case vf of [] \<Rightarrow> None | b # vf' \<Rightarrow> Some ((\<not> b) # vf'))"

definition op_endif :: "bool list \<Rightarrow> bool list option" where
  "op_endif vf = (case vf of [] \<Rightarrow> None | b # vf' \<Rightarrow> Some vf')"

text \<open>
  The \<^verbatim>\<open>VERIFY\<close> suffix: a result the code finds true is popped, otherwise the result stays
  and \<^verbatim>\<open>pc = pend\<close>.  The boolean says whether to jump to the end.
\<close>

definition op_verify :: "ext \<Rightarrow> stack \<Rightarrow> (stack \<times> bool) option" where
  "op_verify E st =
     (case st of [] \<Rightarrow> None
      | vch # st' \<Rightarrow> if CastToBool E vch then Some (st', False) else Some (st, True))"

definition verify_result :: "bool \<Rightarrow> bool \<Rightarrow> stack \<Rightarrow> stack \<times> bool" where
  "verify_result fVerify fSuccess st =
     (if fVerify then
        (if fSuccess then (st, False) else (vchFalse # st, True))
      else (vch_of_bool fSuccess # st, False))"

section \<open>Stack ops\<close>

definition op_pick :: "ext \<Rightarrow> nat \<Rightarrow> stack \<Rightarrow> stack option" where
  "op_pick E opcode st =
     (case st of
        nTop # x0 # r \<Rightarrow>
          let n = getint E (setvch E nTop); st' = x0 # r
          in if n < 0 \<or> int (length st') \<le> n then None
          else let vch = st' ! nat n;
                   st'' = (if opcode = OP_ROLL
                           then take (nat n) st' @ drop (Suc (nat n)) st' else st')
               in Some (vch # st'')
      | _ \<Rightarrow> None)"

definition op_stack :: "ext \<Rightarrow> nat \<Rightarrow> stack \<Rightarrow> stack \<Rightarrow> (stack \<times> stack) option" where
  "op_stack E opcode st alt =
     (if opcode = OP_TOALTSTACK then
        (case st of x # r \<Rightarrow> Some (r, x # alt) | _ \<Rightarrow> None)
      else if opcode = OP_FROMALTSTACK then
        (case alt of x # r \<Rightarrow> Some (x # st, r) | _ \<Rightarrow> None)
      else if opcode = OP_2DROP then
        (case st of x2 # x1 # r \<Rightarrow> Some (r, alt) | _ \<Rightarrow> None)
      else if opcode = OP_2DUP then
        (case st of x2 # x1 # r \<Rightarrow> Some (x2 # x1 # x2 # x1 # r, alt) | _ \<Rightarrow> None)
      else if opcode = OP_3DUP then
        (case st of x3 # x2 # x1 # r \<Rightarrow> Some (x3 # x2 # x1 # x3 # x2 # x1 # r, alt) | _ \<Rightarrow> None)
      else if opcode = OP_2OVER then
        (case st of x4 # x3 # x2 # x1 # r \<Rightarrow> Some (x2 # x1 # x4 # x3 # x2 # x1 # r, alt)
         | _ \<Rightarrow> None)
      else if opcode = OP_2ROT then
        (case st of x6 # x5 # x4 # x3 # x2 # x1 # r \<Rightarrow>
           Some (x2 # x1 # x6 # x5 # x4 # x3 # r, alt) | _ \<Rightarrow> None)
      else if opcode = OP_2SWAP then
        (case st of x4 # x3 # x2 # x1 # r \<Rightarrow> Some (x2 # x1 # x4 # x3 # r, alt) | _ \<Rightarrow> None)
      else if opcode = OP_IFDUP then
        (case st of x # r \<Rightarrow> Some (if CastToBool E x then x # st else st, alt) | _ \<Rightarrow> None)
      else if opcode = OP_DEPTH then Some (getvch E (int (length st)) # st, alt)
      else if opcode = OP_DROP then
        (case st of x # r \<Rightarrow> Some (r, alt) | _ \<Rightarrow> None)
      else if opcode = OP_DUP then
        (case st of x # r \<Rightarrow> Some (x # st, alt) | _ \<Rightarrow> None)
      else if opcode = OP_NIP then
        (case st of x2 # x1 # r \<Rightarrow> Some (x2 # r, alt) | _ \<Rightarrow> None)
      else if opcode = OP_OVER then
        (case st of x2 # x1 # r \<Rightarrow> Some (x1 # st, alt) | _ \<Rightarrow> None)
      else if opcode = OP_PICK \<or> opcode = OP_ROLL then
        map_option (\<lambda>st'. (st', alt)) (op_pick E opcode st)
      else if opcode = OP_ROT then
        (case st of x3 # x2 # x1 # r \<Rightarrow> Some (x1 # x3 # x2 # r, alt) | _ \<Rightarrow> None)
      else if opcode = OP_SWAP then
        (case st of x2 # x1 # r \<Rightarrow> Some (x1 # x2 # r, alt) | _ \<Rightarrow> None)
      else if opcode = OP_TUCK then
        (case st of x2 # x1 # r \<Rightarrow> Some (x2 # x1 # x2 # r, alt) | _ \<Rightarrow> None)
      else None)"

section \<open>Splice and bitwise ops\<close>

text \<open>All but \<open>OP_SIZE\<close> and the comparisons are refused before the switch is reached.\<close>

definition op_splice :: "ext \<Rightarrow> nat \<Rightarrow> stack \<Rightarrow> stack option" where
  "op_splice E opcode st =
     (if opcode = OP_CAT then
        (case st of x2 # x1 # r \<Rightarrow> Some ((x1 @ x2) # r) | _ \<Rightarrow> None)
      else if opcode = OP_SUBSTR then
        (case st of x3 # x2 # x1 # r \<Rightarrow>
           let nBegin = getint E (setvch E x2);
               nEnd = i32 (nBegin + getint E (setvch E x3))
           in if nBegin < 0 \<or> nEnd < nBegin then None
           else let b = min (nat nBegin) (length x1); e = min (nat nEnd) (length x1)
                in Some (drop b (take e x1) # r)
         | _ \<Rightarrow> None)
      else if opcode = OP_LEFT \<or> opcode = OP_RIGHT then
        (case st of x2 # x1 # r \<Rightarrow>
           let nSize = getint E (setvch E x2)
           in if nSize < 0 then None
           else let k = min (nat nSize) (length x1)
                in Some ((if opcode = OP_LEFT then take k x1 else drop (length x1 - k) x1) # r)
         | _ \<Rightarrow> None)
      else if opcode = OP_SIZE then
        (case st of x # r \<Rightarrow> Some (getvch E (int (length x)) # st) | _ \<Rightarrow> None)
      else None)"

definition op_bitwise :: "nat \<Rightarrow> stack \<Rightarrow> stack option" where
  "op_bitwise opcode st =
     (if opcode = OP_INVERT then
        (case st of x # r \<Rightarrow> Some (map (\<lambda>b. NOT b) x # r) | _ \<Rightarrow> None)
      else if opcode = OP_AND \<or> opcode = OP_OR \<or> opcode = OP_XOR then
        (case st of x2 # x1 # r \<Rightarrow>
           let (v1, v2) = MakeSameSize x1 x2
           in Some (map (\<lambda>(a, b). if opcode = OP_AND then a AND b
                                  else if opcode = OP_OR then a OR b else a XOR b) (zip v1 v2) # r)
         | _ \<Rightarrow> None)
      else None)"

definition op_equal :: "nat \<Rightarrow> stack \<Rightarrow> (stack \<times> bool) option" where
  "op_equal opcode st =
     (case st of
        x2 # x1 # r \<Rightarrow> Some (verify_result (opcode = OP_EQUALVERIFY) (x1 = x2) r)
      | _ \<Rightarrow> None)"

section \<open>Numeric\<close>

definition unary_value :: "ext \<Rightarrow> nat \<Rightarrow> int \<Rightarrow> int" where
  "unary_value E opcode bn =
     (if opcode = OP_1ADD then bn + 1
      else if opcode = OP_1SUB then bn - 1
      else if opcode = OP_2MUL then bn * 2
      else if opcode = OP_2DIV then bn_quot bn 2
      else if opcode = OP_NEGATE then - bn
      else if opcode = OP_ABS then (if bn < 0 then - bn else bn)
      else if opcode = OP_NOT then bn_of_bool (bn = 0)
      else if opcode = OP_0NOTEQUAL then bn_of_bool (bn \<noteq> 0)
      else bn)"

definition op_unary :: "ext \<Rightarrow> nat \<Rightarrow> stack \<Rightarrow> stack option" where
  "op_unary E opcode st =
     (case st of x # r \<Rightarrow> Some (getvch E (unary_value E opcode (setvch E x)) # r) | _ \<Rightarrow> None)"

text \<open>A shift by \<open>2 ^ 31\<close> or more is an error of \<^verbatim>\<open>BN_lshift\<close>, whose count is an \<^verbatim>\<open>int\<close>.\<close>

definition shift_count :: "ext \<Rightarrow> int \<Rightarrow> nat option" where
  "shift_count E bn2 =
     (let n = BN_get_word E bn2 mod 2 ^ 32
      in if bn2 < 0 \<or> 2 ^ 31 \<le> n then None else Some n)"

definition binary_value :: "ext \<Rightarrow> nat \<Rightarrow> int \<Rightarrow> int \<Rightarrow> int option" where
  "binary_value E opcode bn1 bn2 =
     (if opcode = OP_ADD then Some (bn1 + bn2)
      else if opcode = OP_SUB then Some (bn1 - bn2)
      else if opcode = OP_MUL then Some (bn1 * bn2)
      else if opcode = OP_DIV then (if bn2 = 0 then None else Some (bn_quot bn1 bn2))
      else if opcode = OP_MOD then
        (if bn2 = 0 then None else Some (bn1 - bn_quot bn1 bn2 * bn2))
      else if opcode = OP_LSHIFT then map_option (\<lambda>n. bn1 * 2 ^ n) (shift_count E bn2)
      else if opcode = OP_RSHIFT then map_option (\<lambda>n. bn_quot bn1 (2 ^ n)) (shift_count E bn2)
      else if opcode = OP_BOOLAND then Some (bn_of_bool (bn1 \<noteq> 0 \<and> bn2 \<noteq> 0))
      else if opcode = OP_BOOLOR then Some (bn_of_bool (bn1 \<noteq> 0 \<or> bn2 \<noteq> 0))
      else if opcode = OP_NUMEQUAL then Some (bn_of_bool (bn1 = bn2))
      else if opcode = OP_NUMEQUALVERIFY then Some (bn_of_bool (bn1 = bn2))
      else if opcode = OP_NUMNOTEQUAL then Some (bn_of_bool (bn1 \<noteq> bn2))
      else if opcode = OP_LESSTHAN then Some (bn_of_bool (bn1 < bn2))
      else if opcode = OP_GREATERTHAN then Some (bn_of_bool (bn1 > bn2))
      else if opcode = OP_LESSTHANOREQUAL then Some (bn_of_bool (bn1 \<le> bn2))
      else if opcode = OP_GREATERTHANOREQUAL then Some (bn_of_bool (bn1 \<ge> bn2))
      else if opcode = OP_MIN then Some (if bn1 < bn2 then bn1 else bn2)
      else if opcode = OP_MAX then Some (if bn1 > bn2 then bn1 else bn2)
      else None)"

definition op_binary :: "ext \<Rightarrow> nat \<Rightarrow> stack \<Rightarrow> (stack \<times> bool) option" where
  "op_binary E opcode st =
     (case st of
        x2 # x1 # r \<Rightarrow>
          (case binary_value E opcode (setvch E x1) (setvch E x2) of
             None \<Rightarrow> None
           | Some bn \<Rightarrow>
               let st' = getvch E bn # r
               in if opcode = OP_NUMEQUALVERIFY then op_verify E st' else Some (st', False))
      | _ \<Rightarrow> None)"

definition op_within :: "ext \<Rightarrow> stack \<Rightarrow> stack option" where
  "op_within E st =
     (case st of
        x3 # x2 # x1 # r \<Rightarrow>
          let bn1 = setvch E x1; bn2 = setvch E x2; bn3 = setvch E x3
          in Some (vch_of_bool (bn2 \<le> bn1 \<and> bn1 < bn3) # r)
      | _ \<Rightarrow> None)"

section \<open>Crypto\<close>

definition op_hash :: "ext \<Rightarrow> nat \<Rightarrow> stack \<Rightarrow> stack option" where
  "op_hash E opcode st =
     (case st of
        vch # r \<Rightarrow>
          let vchHash =
                (if opcode = OP_RIPEMD160 then RIPEMD160 E vch
                 else if opcode = OP_SHA1 then SHA1 E vch
                 else if opcode = OP_SHA256 then SHA256 E vch
                 else if opcode = OP_HASH160 then bytes_of_uint160 (Hash160 E vch)
                 else bytes_of_uint256 (Hash E vch))
          in Some (vchHash # r)
      | _ \<Rightarrow> None)"

definition cx_CheckSig :: "ext \<Rightarrow> script_ctx \<Rightarrow> bytes \<Rightarrow> bytes \<Rightarrow> bytes \<Rightarrow> bool" where
  "cx_CheckSig E cx scriptCode vchSig vchPubKey =
     CheckSig E vchSig vchPubKey scriptCode (txTo cx) (nIn cx) (nHashType cx) (fStrictSigs cx)"

definition op_checksig ::
    "ext \<Rightarrow> script_ctx \<Rightarrow> nat \<Rightarrow> bytes \<Rightarrow> stack \<Rightarrow> (stack \<times> bool) option" where
  "op_checksig E cx opcode codehash st =
     (case st of
        vchPubKey # vchSig # r \<Rightarrow>
          let scriptCode = FindAndDelete (push_vch vchSig) codehash;
              fSuccess = cx_CheckSig E cx scriptCode vchSig vchPubKey
          in Some (verify_result (opcode = OP_CHECKSIGVERIFY) fSuccess r)
      | _ \<Rightarrow> None)"

definition op_csfs :: "ext \<Rightarrow> script_ctx \<Rightarrow> stack \<Rightarrow> stack option" where
  "op_csfs E cx st =
     (if \<not> fRulesV4 cx then None
      else case st of
        vchPubKey # vchMsg # vchSig # r \<Rightarrow>
          if vchPubKey = [] then None
          else if vchSig = [] then Some (vchFalse # r)
          else if length vchPubKey = 32 then
            (if \<not> SigCheckSchnorr E vchSig vchMsg vchPubKey then None else Some (vchTrue # r))
          else Some (vchTrue # r)
      | _ \<Rightarrow> None)"

text \<open>The loop of \<open>OP_CHECKMULTISIG\<close> over the signatures and the keys that are left.\<close>

fun multisig_loop :: "(bytes \<Rightarrow> bytes \<Rightarrow> bool) \<Rightarrow> bytes list \<Rightarrow> bytes list \<Rightarrow> bool" where
  "multisig_loop check [] keys = True"
| "multisig_loop check (s # sigs) [] = False"
| "multisig_loop check (s # sigs) (k # keys) =
     (let sigs' = (if check s k then sigs else s # sigs)
      in if length sigs' > length keys then False else multisig_loop check sigs' keys)"

definition op_multisig ::
    "ext \<Rightarrow> script_ctx \<Rightarrow> nat \<Rightarrow> bytes \<Rightarrow> stack \<Rightarrow> (stack \<times> bool) option" where
  "op_multisig E cx opcode codehash st =
     (if length st < 1 then None
      else let nKeysCount = getint E (setvch E (st ! 0))
      in if nKeysCount < 0 then None
      else if nKeysCount > int (length st) then None
      else let nk = nat nKeysCount
      in if length st < 2 + nk then None
      else let nSigsCount = getint E (setvch E (st ! (1 + nk)))
      in if nSigsCount < 0 \<or> nSigsCount > nKeysCount then None
      else let ns = nat nSigsCount; i = 3 + nk + ns
      in if length st < i then None
      else let keys = take nk (drop 1 st);
               sigs = take ns (drop (2 + nk) st);
               scriptCode = fold (\<lambda>vchSig code. FindAndDelete (push_vch vchSig) code) sigs codehash;
               fSuccess = multisig_loop (cx_CheckSig E cx scriptCode) sigs keys
           in Some (verify_result (opcode = OP_CHECKMULTISIGVERIFY) fSuccess (drop i st)))"

section \<open>The switch\<close>

definition stack_ops :: "nat list" where
  "stack_ops = [OP_TOALTSTACK, OP_FROMALTSTACK, OP_2DROP, OP_2DUP, OP_3DUP, OP_2OVER, OP_2ROT,
     OP_2SWAP, OP_IFDUP, OP_DEPTH, OP_DROP, OP_DUP, OP_NIP, OP_OVER, OP_PICK, OP_ROLL, OP_ROT,
     OP_SWAP, OP_TUCK]"

definition splice_ops :: "nat list" where
  "splice_ops = [OP_CAT, OP_SUBSTR, OP_LEFT, OP_RIGHT, OP_SIZE]"

definition bitwise_ops :: "nat list" where
  "bitwise_ops = [OP_INVERT, OP_AND, OP_OR, OP_XOR]"

definition unary_ops :: "nat list" where
  "unary_ops = [OP_1ADD, OP_1SUB, OP_2MUL, OP_2DIV, OP_NEGATE, OP_ABS, OP_NOT, OP_0NOTEQUAL]"

definition binary_ops :: "nat list" where
  "binary_ops = [OP_ADD, OP_SUB, OP_MUL, OP_DIV, OP_MOD, OP_LSHIFT, OP_RSHIFT, OP_BOOLAND,
     OP_BOOLOR, OP_NUMEQUAL, OP_NUMEQUALVERIFY, OP_NUMNOTEQUAL, OP_LESSTHAN, OP_GREATERTHAN,
     OP_LESSTHANOREQUAL, OP_GREATERTHANOREQUAL, OP_MIN, OP_MAX]"

definition hash_ops :: "nat list" where
  "hash_ops = [OP_RIPEMD160, OP_SHA1, OP_SHA256, OP_HASH160, OP_HASH256]"

definition put_stack :: "script_state \<Rightarrow> stack option \<Rightarrow> script_state option" where
  "put_stack s r = map_option (\<lambda>st. s\<lparr>st_stack := st\<rparr>) r"

definition put_verify :: "script_state \<Rightarrow> (stack \<times> bool) option \<Rightarrow> script_state option" where
  "put_verify s r =
     map_option (\<lambda>(st, stop). s\<lparr>st_stack := st, st_pc := (if stop then [] else st_pc s)\<rparr>) r"

text \<open>The switch, entered with the program counter behind the operation.\<close>

definition exec_op ::
    "ext \<Rightarrow> script_ctx \<Rightarrow> nat \<Rightarrow> bool \<Rightarrow> script_state \<Rightarrow> script_state option" where
  "exec_op E cx opcode fExec s =
     (let st = st_stack s
      in if opcode = OP_1NEGATE \<or> (OP_1 \<le> opcode \<and> opcode \<le> OP_16) then
           put_stack s (op_number E opcode st)
         else if opcode = OP_NOP then Some s
         else if opcode = OP_CHECKLOCKTIMEVERIFY then (if op_cltv E cx st then Some s else None)
         else if opcode = OP_CHECKSEQUENCEVERIFY then (if op_csv E cx st then Some s else None)
         else if opcode = OP_CHECKTEMPLATEVERIFY then
           map_option (\<lambda>c. s\<lparr>ctvCache := c\<rparr>) (op_ctv E cx st (ctvCache s))
         else if opcode = OP_VER then
           Some (s\<lparr>st_stack := getvch E (CBigNum_int E VERSION) # st\<rparr>)
         else if opcode = OP_IF \<or> opcode = OP_NOTIF \<or> opcode = OP_VERIF \<or> opcode = OP_VERNOTIF then
           map_option (\<lambda>(st', vf). s\<lparr>st_stack := st', vfExec := vf\<rparr>)
             (op_if E opcode fExec st (vfExec s))
         else if opcode = OP_ELSE then
           map_option (\<lambda>vf. s\<lparr>vfExec := vf\<rparr>) (op_else (vfExec s))
         else if opcode = OP_ENDIF then
           map_option (\<lambda>vf. s\<lparr>vfExec := vf\<rparr>) (op_endif (vfExec s))
         else if opcode = OP_VERIFY then put_verify s (op_verify E st)
         else if opcode = OP_RETURN then None
         else if opcode \<in> set stack_ops then
           map_option (\<lambda>(st', alt). s\<lparr>st_stack := st', st_alt := alt\<rparr>)
             (op_stack E opcode st (st_alt s))
         else if opcode \<in> set splice_ops then put_stack s (op_splice E opcode st)
         else if opcode \<in> set bitwise_ops then put_stack s (op_bitwise opcode st)
         else if opcode = OP_EQUAL \<or> opcode = OP_EQUALVERIFY then put_verify s (op_equal opcode st)
         else if opcode \<in> set unary_ops then put_stack s (op_unary E opcode st)
         else if opcode \<in> set binary_ops then put_verify s (op_binary E opcode st)
         else if opcode = OP_WITHIN then put_stack s (op_within E st)
         else if opcode \<in> set hash_ops then put_stack s (op_hash E opcode st)
         else if opcode = OP_CODESEPARATOR then Some (s\<lparr>pbegincodehash := st_pc s\<rparr>)
         else if opcode = OP_CHECKSIG \<or> opcode = OP_CHECKSIGVERIFY then
           put_verify s (op_checksig E cx opcode (pbegincodehash s) st)
         else if opcode = OP_CHECKSIGFROMSTACK then put_stack s (op_csfs E cx st)
         else if opcode = OP_CHECKMULTISIG \<or> opcode = OP_CHECKMULTISIGVERIFY then
           put_verify s (op_multisig E cx opcode (pbegincodehash s) st)
         else None)"

section \<open>The loop\<close>

definition disabled_ops :: "nat list" where
  "disabled_ops = [OP_CAT, OP_SUBSTR, OP_LEFT, OP_RIGHT, OP_INVERT, OP_AND, OP_OR, OP_XOR,
     OP_2MUL, OP_2DIV, OP_MUL, OP_DIV, OP_MOD, OP_LSHIFT, OP_RSHIFT]"

text \<open>What the loop refuses before it looks at the stack, and the operation count after.\<close>

definition op_guard :: "script_ctx \<Rightarrow> nat \<Rightarrow> bytes \<Rightarrow> nat \<Rightarrow> nat option" where
  "op_guard cx opcode vchPushValue count =
     (if length vchPushValue > MAX_SCRIPT_ELEMENT_SIZE then None
      else if opcode \<in> set disabled_ops then None
      else if fRulesV3 cx \<and> (opcode = OP_VER \<or> opcode = OP_VERIF \<or> opcode = OP_VERNOTIF) then None
      else if opcode > OP_16 then
        (if Suc count > MAX_OPS_PER_SCRIPT then None else Some (Suc count))
      else Some count)"

definition eval_step :: "ext \<Rightarrow> script_ctx \<Rightarrow> script_state \<Rightarrow> script_state option" where
  "eval_step E cx s =
     (let fExec = list_all id (vfExec s)
      in case GetOp (st_pc s) of
           None \<Rightarrow> None
         | Some (opcode, vchPushValue, pc') \<Rightarrow>
             (case op_guard cx opcode vchPushValue (nOpCount s) of
                None \<Rightarrow> None
              | Some count \<Rightarrow>
                  let s1 = s\<lparr>st_pc := pc', nOpCount := count\<rparr>
                  in (case (if fExec \<and> opcode \<le> OP_PUSHDATA4 then
                              Some (s1\<lparr>st_stack := vchPushValue # st_stack s1\<rparr>)
                            else if fExec \<or> (OP_IF \<le> opcode \<and> opcode \<le> OP_ENDIF) then
                              exec_op E cx opcode fExec s1
                            else Some s1) of
                        None \<Rightarrow> None
                      | Some s2 \<Rightarrow>
                          if length (st_stack s2) + length (st_alt s2) > MAX_STACK_SIZE then None
                          else Some s2)))"

lemma put_stack_pc: "put_stack s r = Some s' \<Longrightarrow> st_pc s' = st_pc s"
  by (auto simp: put_stack_def)

lemma put_verify_pc: "put_verify s r = Some s' \<Longrightarrow> st_pc s' = st_pc s \<or> st_pc s' = []"
  by (auto simp: put_verify_def)

lemma exec_op_pc: "exec_op E cx opcode fExec s = Some s' \<Longrightarrow> st_pc s' = st_pc s \<or> st_pc s' = []"
  unfolding exec_op_def Let_def
  by (auto split: if_split_asm dest: put_stack_pc put_verify_pc)

lemma eval_step_shrinks:
  assumes "eval_step E cx s = Some s'"
  shows "length (st_pc s') < length (st_pc s)"
proof -
  obtain opcode v pc' where op: "GetOp (st_pc s) = Some (opcode, v, pc')"
    using assms by (cases "GetOp (st_pc s)") (auto simp: eval_step_def)
  then have "length pc' < length (st_pc s)" by (rule GetOp_shrinks)
  moreover have "st_pc s' = pc' \<or> st_pc s' = []"
    using assms op
    by (auto simp: eval_step_def Let_def split: option.splits if_splits dest!: exec_op_pc)
  ultimately show ?thesis by auto
qed

function run_script :: "ext \<Rightarrow> script_ctx \<Rightarrow> script_state \<Rightarrow> script_state option" where
  "run_script E cx s =
     (if st_pc s = [] then Some s
      else case eval_step E cx s of None \<Rightarrow> None | Some s' \<Rightarrow> run_script E cx s')"
  by pat_completeness auto
termination
  by (relation "measure (\<lambda>(E, cx, s). length (st_pc s))") (auto dest: eval_step_shrinks)

declare run_script.simps [simp del]

definition script_start :: "bytes \<Rightarrow> script_state" where
  "script_start script =
     \<lparr>st_stack = [], st_alt = [], vfExec = [], nOpCount = 0, st_pc = script,
      pbegincodehash = script, ctvCache = CtvHashCache_init\<rparr>"

text \<open>The result and \<^verbatim>\<open>*pvStackRet\<close>, which stays empty unless the loop gets to its end.\<close>

definition EvalScript_stack :: "ext \<Rightarrow> script_ctx \<Rightarrow> bytes \<Rightarrow> bool \<times> stack" where
  "EvalScript_stack E cx script =
     (case run_script E cx (script_start script) of
        None \<Rightarrow> (False, [])
      | Some s \<Rightarrow>
          if vfExec s \<noteq> [] then (False, [])
          else (case st_stack s of [] \<Rightarrow> False | vch # _ \<Rightarrow> CastToBool E vch, st_stack s))"

definition EvalScript :: "ext \<Rightarrow> script_ctx \<Rightarrow> bytes \<Rightarrow> bool" where
  "EvalScript E cx script = fst (EvalScript_stack E cx script)"

end
