(* ===== verification/Interp_Bounds.thy ===== *)
theory Interp_Bounds
  imports Interp
begin

text \<open>
  Resource bounds of the interpreter.  Every state a script reaches holds at most
  \<open>MAX_STACK_SIZE\<close> elements on its two stacks, has counted at most \<open>MAX_OPS_PER_SCRIPT\<close>
  operations, and its elements are at most \<open>MAX_SCRIPT_ELEMENT_SIZE\<close> bytes plus one for each
  counted operation: the cap is checked where a script pushes data, and each of the
  arithmetic operations that are left can make a number one byte longer.
\<close>

section \<open>Reachable states\<close>

inductive script_reach :: "ext \<Rightarrow> script_ctx \<Rightarrow> script_state \<Rightarrow> script_state \<Rightarrow> bool"
  for E :: ext and cx :: script_ctx where
  reach_refl: "script_reach E cx s s"
| reach_step: "script_reach E cx s s' \<Longrightarrow> st_pc s' \<noteq> [] \<Longrightarrow> eval_step E cx s' = Some s'' \<Longrightarrow>
    script_reach E cx s s''"

lemma steps_bounded:
  "((\<lambda>x. Option.bind x (eval_step E cx)) ^^ k) (Some s) = Some s' \<longrightarrow>
    k + length (st_pc s') \<le> length (st_pc s)"
proof (induction k arbitrary: s')
  case (Suc k)
  show ?case
  proof
    assume "((\<lambda>x. Option.bind x (eval_step E cx)) ^^ Suc k) (Some s) = Some s'"
    then obtain s1 where "((\<lambda>x. Option.bind x (eval_step E cx)) ^^ k) (Some s) = Some s1"
      "eval_step E cx s1 = Some s'"
      by (auto simp: bind_eq_Some_conv)
    then show "Suc k + length (st_pc s') \<le> length (st_pc s)"
      using Suc [of s1] eval_step_shrinks by fastforce
  qed
qed simp

lemma script_reach_head:
  "st_pc s \<noteq> [] \<Longrightarrow> eval_step E cx s = Some s1 \<Longrightarrow> script_reach E cx s1 s2 \<Longrightarrow>
   script_reach E cx s s2"
  by (rotate_tac 2, induction rule: script_reach.induct) (blast intro: script_reach.intros)+

lemma run_script_reach: "run_script E cx s = Some s' \<Longrightarrow> script_reach E cx s s' \<and> st_pc s' = []"
proof (induction E cx s rule: run_script.induct)
  case (1 E cx s)
  show ?case
  proof (cases "st_pc s = []")
    case True
    with "1.prems" show ?thesis by (subst (asm) run_script.simps) (simp add: reach_refl)
  next
    case False
    with "1.prems" obtain s1 where s1: "eval_step E cx s = Some s1" "run_script E cx s1 = Some s'"
      by (subst (asm) run_script.simps) auto
    with "1.IH" False have "script_reach E cx s1 s' \<and> st_pc s' = []" by blast
    with False s1 show ?thesis by (blast intro: script_reach_head)
  qed
qed

section \<open>Lengths of numbers\<close>

definition hash_lengths :: "ext \<Rightarrow> bool" where
  "hash_lengths E \<longleftrightarrow> (\<forall>x. length (SHA256 E x) = 32 \<and> length (SHA1 E x) = 20 \<and>
     length (RIPEMD160 E x) = 20)"

lemma hash_lengths_ref: "hash_lengths ref_ext"
  unfolding hash_lengths_def ref_ext_def ext_with_def toy_hash_def by (auto simp: min_def)

text \<open>Half of the range: what a body of \<open>k\<close> bytes can hold with its sign bit.\<close>

lemma mpi_value_half:
  assumes "length bs \<le> k" "1 \<le> k"
  shows "2 * nat \<bar>mpi_value bs\<bar> < 256 ^ k"
proof (cases bs)
  case (Cons b cs)
  have half: "2 * (x * 256 ^ length cs + be_nat cs) < 256 ^ k" if "x < 128" for x
  proof -
    have "2 * (x * 256 ^ length cs + be_nat cs) < 2 * (x * 256 ^ length cs + 256 ^ length cs)"
      using be_nat_bound [of cs] by simp
    also have "\<dots> = 2 * (Suc x) * 256 ^ length cs" by (simp add: algebra_simps)
    also have "\<dots> \<le> 256 * 256 ^ length cs" using that by (intro mult_right_mono) auto
    also have "\<dots> \<le> 256 ^ k"
      using assms Cons power_increasing [of "Suc (length cs)" k "256::nat"] by simp
    finally show ?thesis .
  qed
  show ?thesis
  proof (cases "128 \<le> unat b")
    case True
    have "nat \<bar>mpi_value bs\<bar> = (unat b - 128) * 256 ^ length cs + be_nat cs"
      unfolding Cons mpi_value.simps if_P [OF True] abs_minus_cancel abs_of_nat nat_int by (rule refl)
    moreover have "unat b - 128 < 128" using unat_byte_lt [of b] by simp
    ultimately show ?thesis using half by metis
  next
    case False
    have "nat \<bar>mpi_value bs\<bar> = unat b * 256 ^ length cs + be_nat cs"
      unfolding Cons mpi_value.simps if_not_P [OF False] abs_of_nat nat_int by (rule refl)
    then show ?thesis using half [of "unat b"] False by simp
  qed
qed simp

context openssl_bn
begin

lemma setvch_half:
  assumes "length x \<le> k" "1 \<le> k" "k < 2 ^ 32"
  shows "2 * \<bar>setvch E x\<bar> < 256 ^ k"
proof -
  have "2 * nat \<bar>setvch E x\<bar> < 256 ^ k"
    using assms mpi_value_half [of "rev x" k] by (simp add: setvch)
  then have "int (2 * nat \<bar>setvch E x\<bar>) < int (256 ^ k)" by (simp only: of_nat_less_iff)
  then show ?thesis by simp
qed

lemma length_getvch:
  assumes "\<bar>n\<bar> < 256 ^ k"
  shows "length (getvch E n) \<le> Suc k"
proof -
  have "nat \<bar>n\<bar> < 256 ^ k" using assms by (simp add: nat_less_iff)
  then show ?thesis by (simp add: getvch length_mpi_body_le)
qed

lemma unary_length:
  assumes "length x \<le> k" "1 \<le> k" "k < 2 ^ 32" "opcode \<notin> set disabled_ops"
  shows "length (getvch E (unary_value E opcode (setvch E x))) \<le> Suc k"
proof (rule length_getvch)
  define P :: int where "P = 256 ^ k"
  have h: "2 * \<bar>setvch E x\<bar> < P" using assms unfolding P_def by (intro setvch_half)
  have "(256::int) ^ 1 \<le> P" using assms unfolding P_def by (intro power_increasing) auto
  then have P: "256 \<le> P" by simp
  have no: "opcode \<noteq> OP_2MUL" "opcode \<noteq> OP_2DIV"
    using assms by (auto simp: disabled_ops_def)
  have "unary_value E opcode n \<in> {n + 1, n - 1, - n, n, 0, 1}" for n
    unfolding unary_value_def if_not_P [OF no(1)] if_not_P [OF no(2)] bn_of_bool_def
    by (auto split: if_split)
  from this [of "setvch E x"] have "\<bar>unary_value E opcode (setvch E x)\<bar> < P"
    using h P by auto
  then show "\<bar>unary_value E opcode (setvch E x)\<bar> < 256 ^ k" by (simp add: P_def)
qed

lemma binary_length:
  assumes "length x \<le> k" "length y \<le> k" "1 \<le> k" "k < 2 ^ 32" "opcode \<notin> set disabled_ops"
    and bn: "binary_value E opcode (setvch E x) (setvch E y) = Some bn"
  shows "length (getvch E bn) \<le> Suc k"
proof (rule length_getvch)
  define P :: int where "P = 256 ^ k"
  define a b where "a = setvch E x" and "b = setvch E y"
  have h: "2 * \<bar>a\<bar> < P" "2 * \<bar>b\<bar> < P"
    using assms unfolding P_def a_def b_def by (auto intro: setvch_half)
  have "(256::int) ^ 1 \<le> P" using assms unfolding P_def by (intro power_increasing) auto
  then have P: "256 \<le> P" by simp
  have no: "opcode \<noteq> OP_MUL" "opcode \<noteq> OP_DIV" "opcode \<noteq> OP_MOD" "opcode \<noteq> OP_LSHIFT"
      "opcode \<noteq> OP_RSHIFT"
    using assms(5) by (auto simp: disabled_ops_def)
  from bn have "bn = a + b \<or> bn = a - b \<or> bn = a \<or> bn = b \<or> bn = 0 \<or> bn = 1"
    unfolding a_def [symmetric] b_def [symmetric] binary_value_def if_not_P [OF no(1)]
      if_not_P [OF no(2)] if_not_P [OF no(3)] if_not_P [OF no(4)] if_not_P [OF no(5)]
    by (auto simp: bn_of_bool_def split: if_split_asm)
  then have "\<bar>bn\<bar> < P" using h P by auto
  then show "\<bar>bn\<bar> < 256 ^ k" by (simp add: P_def)
qed

end

section \<open>The switch by cases\<close>

lemma exec_op_cases:
  assumes "exec_op E cx opcode fExec s = Some s'"
  obtains
    (number) "opcode = OP_1NEGATE \<or> (OP_1 \<le> opcode \<and> opcode \<le> OP_16)"
      "put_stack s (op_number E opcode (st_stack s)) = Some s'"
  | (nop) "opcode = OP_NOP" "s' = s"
  | (cltv) "opcode = OP_CHECKLOCKTIMEVERIFY" "op_cltv E cx (st_stack s)" "s' = s"
  | (csv) "opcode = OP_CHECKSEQUENCEVERIFY" "op_csv E cx (st_stack s)" "s' = s"
  | (ctv) c where "opcode = OP_CHECKTEMPLATEVERIFY"
      "op_ctv E cx (st_stack s) (ctvCache s) = Some c" "s' = s\<lparr>ctvCache := c\<rparr>"
  | (ver) "opcode = OP_VER"
      "s' = s\<lparr>st_stack := getvch E (CBigNum_int E VERSION) # st_stack s\<rparr>"
  | (cond) st vf where "opcode = OP_IF \<or> opcode = OP_NOTIF \<or> opcode = OP_VERIF \<or> opcode = OP_VERNOTIF"
      "op_if E opcode fExec (st_stack s) (vfExec s) = Some (st, vf)"
      "s' = s\<lparr>st_stack := st, vfExec := vf\<rparr>"
  | (alternative) vf where "opcode = OP_ELSE" "op_else (vfExec s) = Some vf" "s' = s\<lparr>vfExec := vf\<rparr>"
  | (endcond) vf where "opcode = OP_ENDIF" "op_endif (vfExec s) = Some vf" "s' = s\<lparr>vfExec := vf\<rparr>"
  | (verify) "opcode = OP_VERIFY" "put_verify s (op_verify E (st_stack s)) = Some s'"
  | (stack) st alt where "opcode \<in> set stack_ops"
      "op_stack E opcode (st_stack s) (st_alt s) = Some (st, alt)"
      "s' = s\<lparr>st_stack := st, st_alt := alt\<rparr>"
  | (splice) "opcode \<in> set splice_ops" "put_stack s (op_splice E opcode (st_stack s)) = Some s'"
  | (bitwise) "opcode \<in> set bitwise_ops" "put_stack s (op_bitwise opcode (st_stack s)) = Some s'"
  | (equal) "opcode = OP_EQUAL \<or> opcode = OP_EQUALVERIFY"
      "put_verify s (op_equal opcode (st_stack s)) = Some s'"
  | (unary) "opcode \<in> set unary_ops" "put_stack s (op_unary E opcode (st_stack s)) = Some s'"
  | (binary) "opcode \<in> set binary_ops" "put_verify s (op_binary E opcode (st_stack s)) = Some s'"
  | (within) "opcode = OP_WITHIN" "put_stack s (op_within E (st_stack s)) = Some s'"
  | (hash) "opcode \<in> set hash_ops" "put_stack s (op_hash E opcode (st_stack s)) = Some s'"
  | (codesep) "opcode = OP_CODESEPARATOR" "s' = s\<lparr>pbegincodehash := st_pc s\<rparr>"
  | (checksig) "opcode = OP_CHECKSIG \<or> opcode = OP_CHECKSIGVERIFY"
      "put_verify s (op_checksig E cx opcode (pbegincodehash s) (st_stack s)) = Some s'"
  | (csfs) "opcode = OP_CHECKSIGFROMSTACK" "put_stack s (op_csfs E cx (st_stack s)) = Some s'"
  | (multisig) "opcode = OP_CHECKMULTISIG \<or> opcode = OP_CHECKMULTISIGVERIFY"
      "put_verify s (op_multisig E cx opcode (pbegincodehash s) (st_stack s)) = Some s'"
proof -
  have opt: "map_option f x = Some y \<longleftrightarrow> (\<exists>z. x = Some z \<and> y = f z)" for f :: "'x \<Rightarrow> 'y" and x y
    by (cases x) auto
  have same: "Some a = Some b \<longleftrightarrow> b = a" for a b :: "script_state" by auto
  have test: "(if b then Some s else None) = Some s' \<longleftrightarrow> b \<and> s' = s" for b by auto
  show ?thesis
    using assms unfolding exec_op_def Let_def
    by (simp only: opt test same split_paired_Ex prod.case split: if_split_asm)
      (((elim exE conjE)?, (rule that; assumption)) | simp)+
qed

section \<open>What each operation leaves on the stacks\<close>

lemma op_pick_elems:
  assumes "op_pick E opcode st = Some st'"
  shows "set st' \<subseteq> set st"
proof -
  obtain y x0 r where st: "st = y # x0 # r"
    using assms by (auto simp: op_pick_def split: list.splits)
  define n where "n = nat (getint E (setvch E y))"
  have n: "n < length (x0 # r)"
    and st': "st' = (x0 # r) ! n # (if opcode = OP_ROLL
        then take n (x0 # r) @ drop (Suc n) (x0 # r) else x0 # r)"
    using assms unfolding n_def by (auto simp: op_pick_def st Let_def split: if_split_asm)
  have "(x0 # r) ! n \<in> set st" using nth_mem [OF n] st by auto
  moreover have "set (take n (x0 # r)) \<subseteq> set st" "set (drop (Suc n) (x0 # r)) \<subseteq> set st"
    using set_take_subset [of n "x0 # r"] set_drop_subset [of "Suc n" "x0 # r"] st by auto
  ultimately show ?thesis using st' st by auto
qed

lemma op_stack_elems:
  assumes "op_stack E opcode st alt = Some (st', alt')"
  shows "set st' \<union> set alt' \<subseteq> insert (getvch E (int (length st))) (set st \<union> set alt)"
  using assms unfolding op_stack_def Let_def
  by (auto split: if_split_asm list.splits dest: op_pick_elems)

lemma op_splice_elems:
  "opcode \<notin> set disabled_ops \<Longrightarrow> op_splice E opcode st = Some st' \<Longrightarrow>
   \<exists>x \<in> set st. set st' \<subseteq> insert (getvch E (int (length x))) (set st)"
  by (auto simp: op_splice_def disabled_ops_def split: if_split_asm list.splits)

lemma op_bitwise_elems: "opcode \<notin> set disabled_ops \<Longrightarrow> op_bitwise opcode st = None"
  by (auto simp: op_bitwise_def disabled_ops_def)

lemma verify_result_elems:
  "verify_result f b st = (st', stop) \<Longrightarrow> set st' \<subseteq> insert vchTrue (insert vchFalse (set st))"
  by (auto simp: verify_result_def vch_of_bool_def split: if_split_asm)

lemma op_equal_elems:
  "op_equal opcode st = Some (st', stop) \<Longrightarrow>
   set st' \<subseteq> insert vchTrue (insert vchFalse (set st))"
  by (auto simp: op_equal_def split: list.splits dest!: verify_result_elems)

lemma op_checksig_elems:
  "op_checksig E cx opcode c st = Some (st', stop) \<Longrightarrow>
   set st' \<subseteq> insert vchTrue (insert vchFalse (set st))"
  by (auto simp: op_checksig_def Let_def split: list.splits dest!: verify_result_elems)

lemma op_multisig_elems:
  "op_multisig E cx opcode c st = Some (st', stop) \<Longrightarrow>
   set st' \<subseteq> insert vchTrue (insert vchFalse (set st))"
  by (auto simp: op_multisig_def Let_def split: if_split_asm dest!: verify_result_elems
      dest: in_set_dropD)

lemma op_verify_elems: "op_verify E st = Some (st', stop) \<Longrightarrow> set st' \<subseteq> set st"
  by (auto simp: op_verify_def split: list.splits if_split_asm)

lemma op_csfs_elems:
  "op_csfs E cx st = Some st' \<Longrightarrow> set st' \<subseteq> insert vchTrue (insert vchFalse (set st))"
  by (auto simp: op_csfs_def split: list.splits if_split_asm)

lemma op_within_elems:
  "op_within E st = Some st' \<Longrightarrow> set st' \<subseteq> insert vchTrue (insert vchFalse (set st))"
  by (auto simp: op_within_def vch_of_bool_def Let_def split: list.splits if_split_asm)

lemma op_if_elems: "op_if E opcode f st vf = Some (st', vf') \<Longrightarrow> set st' \<subseteq> set st"
  by (auto simp: op_if_def Let_def split: list.splits if_split_asm)

lemma op_hash_elems:
  "hash_lengths E \<Longrightarrow> op_hash E opcode st = Some st' \<Longrightarrow> \<forall>x \<in> set st'. x \<in> set st \<or> length x \<le> 32"
  by (auto simp: op_hash_def hash_lengths_def Let_def split: list.splits if_split_asm)

definition elems_le :: "nat \<Rightarrow> script_state \<Rightarrow> bool" where
  "elems_le k s \<longleftrightarrow> (\<forall>x \<in> set (st_stack s) \<union> set (st_alt s). length x \<le> k)"

lemma elems_leD: "elems_le k s \<Longrightarrow> x \<in> set (st_stack s) \<or> x \<in> set (st_alt s) \<Longrightarrow> length x \<le> k"
  by (auto simp: elems_le_def)

lemma elems_le_mono: "elems_le k s \<Longrightarrow> k \<le> k' \<Longrightarrow> elems_le k' s"
  unfolding elems_le_def by (meson le_trans)

text \<open>A stack operation whose new elements are short keeps the bound.\<close>

lemma elems_le_update:
  assumes "elems_le k s" "st_alt s' = st_alt s"
    and "\<And>x. x \<in> set (st_stack s') \<Longrightarrow> x \<in> set (st_stack s) \<or> length x \<le> Suc k"
  shows "elems_le (Suc k) s'"
  unfolding elems_le_def
proof
  fix x assume "x \<in> set (st_stack s') \<union> set (st_alt s')"
  then consider "x \<in> set (st_stack s) \<or> x \<in> set (st_alt s)" | "length x \<le> Suc k"
    using assms(2,3) by auto
  then show "length x \<le> Suc k"
    by cases (blast intro: le_SucI elems_leD [OF assms(1)])+
qed

lemma put_stack_elems:
  assumes "put_stack s r = Some s'" "elems_le k s"
    and "\<And>st'. r = Some st' \<Longrightarrow> \<forall>x \<in> set st'. x \<in> set (st_stack s) \<or> length x \<le> Suc k"
  shows "elems_le (Suc k) s'"
proof -
  obtain st' where st': "r = Some st'" "s' = s\<lparr>st_stack := st'\<rparr>"
    using assms(1) by (auto simp: put_stack_def)
  show ?thesis by (rule elems_le_update [OF assms(2)]) (use st' assms(3) in auto)
qed

lemma put_verify_elems:
  assumes "put_verify s r = Some s'" "elems_le k s"
    and "\<And>st' stop. r = Some (st', stop) \<Longrightarrow> \<forall>x \<in> set st'. x \<in> set (st_stack s) \<or> length x \<le> Suc k"
  shows "elems_le (Suc k) s'"
proof -
  obtain st' stop where st': "r = Some (st', stop)" "st_stack s' = st'" "st_alt s' = st_alt s"
    using assms(1) by (auto simp: put_verify_def)
  show ?thesis by (rule elems_le_update [OF assms(2)]) (use st' assms(3) in auto)
qed

lemma short_results [simp]: "length vchTrue = 1" "length vchFalse = 0"
  by (simp_all add: vchTrue_def vchFalse_def)

context openssl_bn
begin

lemma length_getvch_small: "\<bar>n\<bar> < 65536 \<Longrightarrow> length (getvch E n) \<le> 3"
  using length_getvch [of n 2] by simp

lemma op_unary_elems:
  assumes "op_unary E opcode st = Some st'" "\<forall>x \<in> set st. length x \<le> k"
    and "1 \<le> k" "k < 2 ^ 32" "opcode \<notin> set disabled_ops"
  shows "\<forall>x \<in> set st'. x \<in> set st \<or> length x \<le> Suc k"
  using assms unary_length [of _ k opcode] by (auto simp: op_unary_def split: list.splits)

lemma op_binary_elems:
  assumes "op_binary E opcode st = Some (st', stop)" "\<forall>x \<in> set st. length x \<le> k"
    and "1 \<le> k" "k < 2 ^ 32" "opcode \<notin> set disabled_ops"
  shows "\<forall>x \<in> set st'. x \<in> set st \<or> length x \<le> Suc k"
proof -
  obtain x y r bn where st: "st = y # x # r"
    and bn: "binary_value E opcode (setvch E x) (setvch E y) = Some bn"
    and st': "(if opcode = OP_NUMEQUALVERIFY then op_verify E (getvch E bn # r)
          else Some (getvch E bn # r, False)) = Some (st', stop)"
    using assms(1) by (auto simp: op_binary_def Let_def split: list.splits)
  have "length (getvch E bn) \<le> Suc k"
    using assms st bn by (intro binary_length) auto
  moreover have "set st' \<subseteq> insert (getvch E bn) (set r)"
    using st' by (auto split: if_split_asm dest!: op_verify_elems)
  ultimately show ?thesis using st by auto
qed

lemma exec_op_elems:
  assumes exec: "exec_op E cx opcode fExec s = Some s'"
    and le: "elems_le k s" and k: "32 \<le> k" "k < 65536" and len: "length (st_stack s) \<le> 1000"
    and hl: "hash_lengths E" and dis: "opcode \<notin> set disabled_ops"
  shows "elems_le (Suc k) s'"
proof -
  have st: "\<forall>x \<in> set (st_stack s). length x \<le> k" using le by (simp add: elems_le_def)
  have small: "length (getvch E n) \<le> Suc k" if "\<bar>n\<bar> < 65536" for n
    using length_getvch_small [OF that] k by linarith
  have set2: "\<forall>x \<in> set st'. x \<in> set (st_stack s) \<or> length x \<le> Suc k"
    if "set st' \<subseteq> insert vchTrue (insert vchFalse (set (st_stack s)))" for st'
    using that k by auto
  have same: ?thesis if "st_stack s' = st_stack s" "st_alt s' = st_alt s"
    by (rule elems_le_update [OF le]) (use that in auto)
  show ?thesis
    using exec
  proof (cases rule: exec_op_cases)
    case number
    have "\<bar>CBigNum_int E (int opcode - (int OP_1 - 1))\<bar> < 65536"
      using number(1) setint64 [of "- 1"] by (auto simp: CBigNum_int_def opcodes in_i64_def)
    from small [OF this] show ?thesis
      using number(2) by (intro put_stack_elems [OF _ le]) (auto simp: op_number_def)
  next
    case ver
    show ?thesis
      by (rule elems_le_update [OF le])
        (use ver small [of VERSION] in \<open>auto simp: CBigNum_int_def VERSION_def\<close>)
  next
    case (cond st' vf)
    show ?thesis
      by (rule elems_le_update [OF le]) (use cond op_if_elems [OF cond(2)] in auto)
  next
    case verify
    from verify(2) le show ?thesis by (rule put_verify_elems) (auto dest: op_verify_elems)
  next
    case (stack st' alt)
    have d: "length (getvch E (int (length (st_stack s)))) \<le> Suc k" using len by (intro small) auto
    show ?thesis unfolding elems_le_def
    proof
      fix x assume "x \<in> set (st_stack s') \<union> set (st_alt s')"
      then have "x = getvch E (int (length (st_stack s))) \<or> x \<in> set (st_stack s) \<or> x \<in> set (st_alt s)"
        using op_stack_elems [OF stack(2)] stack(3) by auto
      then show "length x \<le> Suc k" using d elems_leD [OF le] le_SucI by blast
    qed
  next
    case splice
    from splice(2) le show ?thesis
    proof (rule put_stack_elems)
      fix st' assume "op_splice E opcode (st_stack s) = Some st'"
      then obtain x where x: "x \<in> set (st_stack s)"
        "set st' \<subseteq> insert (getvch E (int (length x))) (set (st_stack s))"
        using op_splice_elems [OF dis] by blast
      have "length (getvch E (int (length x))) \<le> Suc k"
        by (rule small) (use x st k in force)
      with x show "\<forall>x \<in> set st'. x \<in> set (st_stack s) \<or> length x \<le> Suc k" by auto
    qed
  next
    case bitwise
    then show ?thesis by (simp add: op_bitwise_elems [OF dis] put_stack_def)
  next
    case equal
    from equal(2) le show ?thesis by (rule put_verify_elems) (rule set2, rule op_equal_elems)
  next
    case unary
    from unary(2) le show ?thesis
      by (rule put_stack_elems) (rule op_unary_elems, use st k dis in auto)
  next
    case binary
    from binary(2) le show ?thesis
      by (rule put_verify_elems) (rule op_binary_elems, use st k dis in auto)
  next
    case within
    from within(2) le show ?thesis by (rule put_stack_elems) (rule set2, rule op_within_elems)
  next
    case hash
    from hash(2) le show ?thesis
      by (rule put_stack_elems) (use op_hash_elems [OF hl] k in fastforce)
  next
    case checksig
    from checksig(2) le show ?thesis by (rule put_verify_elems) (rule set2, rule op_checksig_elems)
  next
    case csfs
    from csfs(2) le show ?thesis by (rule put_stack_elems) (rule set2, rule op_csfs_elems)
  next
    case multisig
    from multisig(2) le show ?thesis by (rule put_verify_elems) (rule set2, rule op_multisig_elems)
  qed (use same in auto)
qed

text \<open>Below \<open>OP_16\<close> the switch only pushes a number, of one byte.\<close>

lemma exec_op_uncounted:
  assumes "exec_op E cx opcode fExec s = Some s'" "opcode \<le> OP_16"
  shows "\<exists>n. s' = s\<lparr>st_stack := getvch E n # st_stack s\<rparr> \<and> \<bar>n\<bar> < 65536"
proof -
  have "put_stack s (op_number E opcode (st_stack s)) = Some s' \<and>
      (opcode = OP_1NEGATE \<or> (OP_1 \<le> opcode \<and> opcode \<le> OP_16))"
    using assms by (cases rule: exec_op_cases)
      (auto simp: opcodes stack_ops_def splice_ops_def bitwise_ops_def unary_ops_def binary_ops_def
        hash_ops_def)
  moreover from this have "\<bar>CBigNum_int E (int opcode - (int OP_1 - 1))\<bar> < 65536"
    using setint64 [of "- 1"] by (auto simp: CBigNum_int_def opcodes in_i64_def)
  ultimately show ?thesis by (auto simp: put_stack_def op_number_def)
qed

end

section \<open>The invariant\<close>

definition script_bounded :: "script_state \<Rightarrow> bool" where
  "script_bounded s \<longleftrightarrow>
     length (st_stack s) + length (st_alt s) \<le> MAX_STACK_SIZE \<and>
     nOpCount s \<le> MAX_OPS_PER_SCRIPT \<and>
     elems_le (MAX_SCRIPT_ELEMENT_SIZE + nOpCount s) s"

lemma op_guard_Some:
  "op_guard cx opcode v count = Some count' \<Longrightarrow>
     length v \<le> MAX_SCRIPT_ELEMENT_SIZE \<and> opcode \<notin> set disabled_ops \<and>
     count' = (if OP_16 < opcode then Suc count else count) \<and>
     (count \<le> MAX_OPS_PER_SCRIPT \<longrightarrow> count' \<le> MAX_OPS_PER_SCRIPT)"
  by (auto simp: op_guard_def split: if_split_asm)

text \<open>One turn of the loop, taken apart.\<close>

lemma eval_step_cases:
  assumes "eval_step E cx s = Some s'"
  obtains opcode v pc' count where "GetOp (st_pc s) = Some (opcode, v, pc')"
    and "op_guard cx opcode v (nOpCount s) = Some count"
    and "length (st_stack s') + length (st_alt s') \<le> MAX_STACK_SIZE"
    and "(list_all id (vfExec s) \<and> opcode \<le> OP_PUSHDATA4 \<and>
           s' = s\<lparr>st_pc := pc', nOpCount := count, st_stack := v # st_stack s\<rparr>) \<or>
         exec_op E cx opcode (list_all id (vfExec s)) (s\<lparr>st_pc := pc', nOpCount := count\<rparr>) = Some s' \<or>
         (\<not> list_all id (vfExec s) \<and> s' = s\<lparr>st_pc := pc', nOpCount := count\<rparr>)"
proof -
  obtain opcode v pc' where op: "GetOp (st_pc s) = Some (opcode, v, pc')"
    using assms by (cases "GetOp (st_pc s)") (auto simp: eval_step_def)
  obtain count where g: "op_guard cx opcode v (nOpCount s) = Some count"
    using assms op by (cases "op_guard cx opcode v (nOpCount s)") (auto simp: eval_step_def)
  show ?thesis
    using assms unfolding eval_step_def op g Let_def option.case prod.case
    by (intro that [OF op g]) (auto split: option.splits if_split_asm)
qed

lemma exec_op_counts: "exec_op E cx opcode f s = Some s' \<Longrightarrow> nOpCount s' = nOpCount s"
  by (erule exec_op_cases) (auto simp: put_stack_def put_verify_def)

lemma eval_step_bounded:
  assumes E: "openssl_bn E" "hash_lengths E" and s: "script_bounded s"
    and step: "eval_step E cx s = Some s'"
  shows "script_bounded s'"
  using step
proof (cases rule: eval_step_cases)
  case (1 opcode v pc' count)
  define s1 where "s1 = s\<lparr>st_pc := pc', nOpCount := count\<rparr>"
  define k where "k = MAX_SCRIPT_ELEMENT_SIZE + nOpCount s"
  have g: "length v \<le> MAX_SCRIPT_ELEMENT_SIZE" "opcode \<notin> set disabled_ops"
      "count = (if OP_16 < opcode then Suc (nOpCount s) else nOpCount s)"
      "count \<le> MAX_OPS_PER_SCRIPT"
    using op_guard_Some [OF 1(2)] s by (auto simp: script_bounded_def)
  have le: "elems_le k s1" using s by (simp add: script_bounded_def k_def s1_def elems_le_def)
  have kb: "520 \<le> k" "k \<le> 721" and len: "length (st_stack s1) \<le> 1000"
    using s by (auto simp: script_bounded_def k_def s1_def MAX_SCRIPT_ELEMENT_SIZE_def
        MAX_OPS_PER_SCRIPT_def MAX_STACK_SIZE_def)
  have fin: "script_bounded s'" if "nOpCount s' = count" "elems_le (MAX_SCRIPT_ELEMENT_SIZE + count) s'"
    using that 1(3) g(4) by (simp add: script_bounded_def)
  have kc: "k \<le> MAX_SCRIPT_ELEMENT_SIZE + count" using g(3) by (simp add: k_def)
  consider (push) "s' = s1\<lparr>st_stack := v # st_stack s1\<rparr>"
    | (exec) "exec_op E cx opcode (list_all id (vfExec s)) s1 = Some s'" | (skip) "s' = s1"
    using 1(4) by (auto simp: s1_def)
  then show ?thesis
  proof cases
    case push
    have "elems_le k s'"
      using le g(1) push by (auto simp: elems_le_def k_def)
    then show ?thesis by (intro fin elems_le_mono [OF _ kc]) (simp_all add: push s1_def)
  next
    case exec
    have n: "nOpCount s' = count" using exec_op_counts [OF exec] by (simp add: s1_def)
    show ?thesis
    proof (cases "OP_16 < opcode")
      case True
      have "elems_le (Suc k) s'"
        using E(1) exec le _ _ len E(2) g(2) by (rule openssl_bn.exec_op_elems) (use kb in auto)
      with n g(3) True show ?thesis by (intro fin) (auto simp: k_def)
    next
      case False
      then obtain m where s': "s' = s1\<lparr>st_stack := getvch E m # st_stack s1\<rparr>" "\<bar>m\<bar> < 65536"
        using openssl_bn.exec_op_uncounted [OF E(1) exec] by auto
      have "length (getvch E m) \<le> k"
        using openssl_bn.length_getvch_small [OF E(1) s'(2)] kb by linarith
      then have "elems_le k s'" using le s' by (auto simp: elems_le_def)
      then show ?thesis by (intro fin elems_le_mono [OF _ kc] n)
    qed
  next
    case skip
    then show ?thesis by (intro fin elems_le_mono [OF le [folded skip] kc]) (simp add: s1_def)
  qed
qed

lemma script_bounded_start [simp]: "script_bounded (script_start script)"
  by (simp add: script_bounded_def script_start_def elems_le_def)

lemma reach_bounded:
  assumes "script_reach E cx s s'" "openssl_bn E" "hash_lengths E" "script_bounded s"
  shows "script_bounded s'"
  using assms by (induction rule: script_reach.induct) (auto intro: eval_step_bounded)

end
