(* ===== verification/Verify.thy ===== *)
theory Verify
  imports Interp_Bounds
begin

text \<open>
  Script templates and the verification of an input (src/script.cpp, \<^verbatim>\<open>Solver\<close> to
  \<^verbatim>\<open>VerifySignature\<close>, and \<^verbatim>\<open>IsStandard\<close> of main.h, which uses them).  A function with a result
  and out-parameters returns an option of them; its \<open>None\<close> is \<^verbatim>\<open>return false\<close> with the
  out-parameters cleared, as the code leaves them.
\<close>

section \<open>Templates\<close>

function match_template ::
    "bytes \<Rightarrow> bytes \<Rightarrow> (nat \<times> bytes) list \<Rightarrow> (nat \<times> bytes) list option" where
  "match_template pc1 pc2 vSolution =
     (case (GetOp pc1, GetOp pc2) of
        (None, None) \<Rightarrow> Some (rev vSolution)
      | (Some (opcode1, vch1, r1), Some (opcode2, vch2, r2)) \<Rightarrow>
          if opcode2 = OP_PUBKEY then
            (if length vch1 \<le> 32 then None
             else match_template r1 r2 (vSolution @ [(opcode2, vch1)]))
          else if opcode2 = OP_PUBKEYHASH then
            (if length vch1 \<noteq> 20 then None
             else match_template r1 r2 (vSolution @ [(opcode2, vch1)]))
          else if opcode1 \<noteq> opcode2 then None
          else match_template r1 r2 vSolution
      | _ \<Rightarrow> None)"
  by pat_completeness auto
termination
  by (relation "measure (\<lambda>(pc1, _, _). length pc1)") (auto dest!: GetOp_shrinks [OF sym])

declare match_template.simps [simp del]

definition vTemplates :: "bytes list" where
  "vTemplates =
     [push_opcode OP_PUBKEY @ push_opcode OP_CHECKSIG,
      push_opcode OP_DUP @ push_opcode OP_HASH160 @ push_opcode OP_PUBKEYHASH @
      push_opcode OP_EQUALVERIFY @ push_opcode OP_CHECKSIG]"

fun first_match :: "bytes \<Rightarrow> bytes list \<Rightarrow> (nat \<times> bytes) list option" where
  "first_match script1 [] = None"
| "first_match script1 (script2 # rest) =
     (case match_template script1 script2 [] of
        Some vSolution \<Rightarrow> Some vSolution
      | None \<Rightarrow> first_match script1 rest)"

definition Solver :: "bytes \<Rightarrow> (nat \<times> bytes) list option" where
  "Solver spk = first_match spk vTemplates"

datatype txnouttype = TX_NONSTANDARD | TX_PUBKEY | TX_PUBKEYHASH | TX_SCRIPTHASH | TX_MULTISIG
  | TX_NULL_DATA

definition GetTxnOutputType :: "txnouttype \<Rightarrow> string" where
  "GetTxnOutputType t =
     (case t of TX_NONSTANDARD \<Rightarrow> ''nonstandard'' | TX_PUBKEY \<Rightarrow> ''pubkey''
      | TX_PUBKEYHASH \<Rightarrow> ''pubkeyhash'' | TX_SCRIPTHASH \<Rightarrow> ''scripthash''
      | TX_MULTISIG \<Rightarrow> ''multisig'' | TX_NULL_DATA \<Rightarrow> ''nulldata'')"

text \<open>The loop over the keys of \<open>m <key>... n OP_CHECKMULTISIG\<close>: the keys, the opcode that
  ends them and what follows it.\<close>

function multisig_keys :: "bytes \<Rightarrow> bytes list \<Rightarrow> (bytes list \<times> nat \<times> bytes) option" where
  "multisig_keys pc keys =
     (case GetOp pc of
        None \<Rightarrow> None
      | Some (opcode, vch, r) \<Rightarrow>
          if OP_1 \<le> opcode \<and> opcode \<le> OP_16 then Some (keys, opcode, r)
          else if length vch \<noteq> 65 \<and> length vch \<noteq> 33 then None
          else multisig_keys r (keys @ [vch]))"
  by pat_completeness auto
termination
  by (relation "measure (\<lambda>(pc, _). length pc)") auto

declare multisig_keys.simps [simp del]

definition solve_multisig :: "bytes \<Rightarrow> (nat \<times> bytes list \<times> nat) option" where
  "solve_multisig spk =
     (case GetOp spk of
        None \<Rightarrow> None
      | Some (opcode, _, r) \<Rightarrow>
          if opcode < OP_1 \<or> OP_16 < opcode then None
          else let m = DecodeOP_N opcode
          in case multisig_keys r [] of
               None \<Rightarrow> None
             | Some (keys, opcode2, r2) \<Rightarrow>
                 let n = DecodeOP_N opcode2
                 in if n \<noteq> length keys \<or> m < 1 \<or> n < m then None
                    else (case GetOp r2 of
                            None \<Rightarrow> None
                          | Some (opcode3, _, r3) \<Rightarrow>
                              if opcode3 \<noteq> OP_CHECKMULTISIG then None
                              else if r3 \<noteq> [] then None else Some (m, keys, n)))"

definition SolverTyped :: "bytes \<Rightarrow> (txnouttype \<times> bytes list) option" where
  "SolverTyped spk =
     (if IsPayToScriptHash spk then
        Some (TX_SCRIPTHASH, [take 20 (drop 2 spk)])
      else if IsNullData spk then
        Some (TX_NULL_DATA,
          [if length spk > 1
           then (case GetOp (drop 1 spk) of None \<Rightarrow> [] | Some (_, vch, _) \<Rightarrow> vch)
           else []])
      else case Solver spk of
             Some vSolution \<Rightarrow>
               if length vSolution = 1 \<and> fst (vSolution ! 0) = OP_PUBKEY then
                 Some (TX_PUBKEY, [snd (vSolution ! 0)])
               else if length vSolution = 1 \<and> fst (vSolution ! 0) = OP_PUBKEYHASH then
                 Some (TX_PUBKEYHASH, [snd (vSolution ! 0)])
               else None
           | None \<Rightarrow>
               (case solve_multisig spk of
                  None \<Rightarrow> None
                | Some (m, keys, n) \<Rightarrow>
                    Some (TX_MULTISIG, [word_of_nat m] # keys @ [[word_of_nat n]])))"

definition ExtractHash160 :: "bytes \<Rightarrow> uint160 option" where
  "ExtractHash160 spk =
     (case Solver spk of
        None \<Rightarrow> None
      | Some vSolution \<Rightarrow>
          map_option (\<lambda>item. uint160_of_bytes (snd item))
            (List.find (\<lambda>item. fst item = OP_PUBKEYHASH) vSolution))"

section \<open>Relay policy\<close>

definition MAX_STANDARD_TX_SIZE :: nat where "MAX_STANDARD_TX_SIZE = 100000"
definition MAX_OP_RETURN_RELAY :: nat where "MAX_OP_RETURN_RELAY = 80"

text \<open>The loop over the outputs; the flag says whether rules v3 are active at the adjusted time.\<close>

fun standard_outputs :: "bool \<Rightarrow> nat \<Rightarrow> CTxOut list \<Rightarrow> bool" where
  "standard_outputs fV3 nNullData [] = True"
| "standard_outputs fV3 nNullData (txout # rest) =
     (let s = scriptPubKey txout;
          fP2PKH = (length s = 25 \<and> unat (s ! 0) = OP_DUP \<and> unat (s ! 1) = OP_HASH160 \<and>
                    unat (s ! 2) = 20 \<and> unat (s ! 23) = OP_EQUALVERIFY \<and> unat (s ! 24) = OP_CHECKSIG);
          fP2PK = ((length s = 35 \<or> length s = 67) \<and> unat (s ! 0) = length s - 2 \<and>
                   unat (s ! (length s - 1)) = OP_CHECKSIG)
      in if fP2PKH \<or> fP2PK then standard_outputs fV3 nNullData rest
         else if IsNullData s then
           (if Suc nNullData > 1 \<or> length s > MAX_OP_RETURN_RELAY + 3 then False
            else standard_outputs fV3 (Suc nNullData) rest)
         else if (case SolverTyped s of
                    Some (TX_MULTISIG, vSolutions) \<Rightarrow> length vSolutions - 2 \<le> 3 | _ \<Rightarrow> False)
           then standard_outputs fV3 nNullData rest
         else if IsPayToScriptHash s \<and> fV3 then standard_outputs fV3 nNullData rest
         else False)"

definition IsStandard :: "bool \<Rightarrow> CTransaction \<Rightarrow> bool" where
  "IsStandard fV3 tx =
     (if GetSerializeSize_CTransaction tx > MAX_STANDARD_TX_SIZE then False
      else if list_ex (\<lambda>i. length (scriptSig i) > 500 \<or> \<not> IsPushOnly (scriptSig i)) (vin tx) then False
      else standard_outputs fV3 0 (vout tx))"

section \<open>Pay to script hash\<close>

text \<open>The loop that finds the last operation of a scriptSig: where it starts and its data.\<close>

function last_push :: "bytes \<Rightarrow> bytes \<Rightarrow> bytes \<Rightarrow> (bytes \<times> bytes) option" where
  "last_push pc pcLastStart vLast =
     (if pc = [] then Some (pcLastStart, vLast)
      else case GetOp pc of
             None \<Rightarrow> None
           | Some (opcode, vch, r) \<Rightarrow> last_push r pc vch)"
  by pat_completeness auto
termination
  by (relation "measure (\<lambda>(pc, _, _). length pc)") auto

declare last_push.simps [simp del]

definition GetP2SHSigOpCount :: "bytes \<Rightarrow> bool \<Rightarrow> nat" where
  "GetP2SHSigOpCount sig v4 =
     (case last_push sig sig [] of
        None \<Rightarrow> 0 | Some (_, vLast) \<Rightarrow> GetSigOpCount v4 vLast)"

definition script_ctx_of ::
    "CTransaction \<Rightarrow> nat \<Rightarrow> int \<Rightarrow> bool \<Rightarrow> bool \<Rightarrow> bool \<Rightarrow> script_ctx" where
  "script_ctx_of tx n nType strict v3 v4 =
     \<lparr>txTo = tx, nIn = n, nHashType = nType, fStrictSigs = strict, fRulesV3 = v3, fRulesV4 = v4\<rparr>"

definition VerifyScriptP2SH ::
    "ext \<Rightarrow> bytes \<Rightarrow> bytes \<Rightarrow> CTransaction \<Rightarrow> nat \<Rightarrow> bool \<Rightarrow> bool \<Rightarrow> bool \<Rightarrow> bool" where
  "VerifyScriptP2SH E sig spk tx n strict v3 v4 =
     (let cx = script_ctx_of tx n 0 strict v3 v4
      in if \<not> IsPushOnly sig then False
      else if \<not> EvalScript E cx (sig @ push_opcode OP_CODESEPARATOR @ spk) then False
      else if \<not> IsPayToScriptHash spk then True
      else case last_push sig sig [] of
             None \<Rightarrow> False
           | Some (pcLastStart, subscript) \<Rightarrow>
               if sig = [] then False
               else if Hash160 E subscript \<noteq> uint160_of_bytes (take 20 (drop 2 spk)) then False
               else EvalScript E cx
                 (take (length sig - length pcLastStart) sig @ push_opcode OP_CODESEPARATOR @ subscript))"

text \<open>\<open>nIn\<close> is an index of the transaction's inputs: the code asserts it.\<close>

definition VerifySignature ::
    "ext \<Rightarrow> CTransaction \<Rightarrow> CTransaction \<Rightarrow> nat \<Rightarrow> int \<Rightarrow> bool \<Rightarrow> bool \<Rightarrow> bool \<Rightarrow> bool" where
  "VerifySignature E txFrom tx n nType strict v3 v4 =
     (let txin = vin tx ! n
      in if length (vout txFrom) \<le> unat (out_n (prevout txin)) then False
      else let spk = scriptPubKey (vout txFrom ! unat (out_n (prevout txin)))
      in if out_hash (prevout txin) \<noteq> SerializeHash_tx E txFrom then False
      else if \<not> IsPushOnly (scriptSig txin) then False
      else if v3 \<and> IsPayToScriptHash spk then
        VerifyScriptP2SH E (scriptSig txin) spk tx n strict True v4
      else EvalScript E (script_ctx_of tx n nType strict v3 v4)
             (scriptSig txin @ push_opcode OP_CODESEPARATOR @ spk))"

section \<open>Merging multisig signatures\<close>

function sig_pushes :: "bytes \<Rightarrow> bytes list" where
  "sig_pushes pc =
     (if pc = [] then []
      else case GetOp pc of
             None \<Rightarrow> []
           | Some (opcode, vch, r) \<Rightarrow> (if vch \<noteq> [] then [vch] else []) @ sig_pushes r)"
  by pat_completeness auto
termination
  by (relation "measure length") auto

declare sig_pushes.simps [simp del]

fun combine_keys ::
    "(bytes \<Rightarrow> bytes \<Rightarrow> bool) \<Rightarrow> bytes list \<Rightarrow> nat \<Rightarrow> nat \<Rightarrow> bytes list \<Rightarrow> bytes" where
  "combine_keys check vSigs nRequired nFound [] = []"
| "combine_keys check vSigs nRequired nFound (key # keys) =
     (if nRequired \<le> nFound then []
      else case List.find (\<lambda>sig. check sig key) vSigs of
             Some sig \<Rightarrow> push_vch sig @ combine_keys check vSigs nRequired (Suc nFound) keys
           | None \<Rightarrow> combine_keys check vSigs nRequired nFound keys)"

definition CombineMultisig ::
    "ext \<Rightarrow> bytes \<Rightarrow> CTransaction \<Rightarrow> nat \<Rightarrow> bytes \<Rightarrow> bytes \<Rightarrow> bytes" where
  "CombineMultisig E scriptCode tx n sigA sigB =
     (case SolverTyped scriptCode of
        Some (TX_MULTISIG, vSolutions) \<Rightarrow>
          let nRequired = unat (hd (hd vSolutions));
              nKeys = length vSolutions - 2;
              vSigs = sig_pushes sigA @ sig_pushes sigB;
              check = (\<lambda>sig key. CheckSig E sig key scriptCode tx n (uint (last sig)) False)
          in push_opcode OP_0 @
             combine_keys check vSigs nRequired 0 (take nKeys (drop 1 vSolutions))
      | _ \<Rightarrow> if sigA = [] then sigB else sigA)"

end
