(* ===== verification/Spend.thy ===== *)
theory Spend
  imports Verify "HOL-Library.Sublist"
begin

text \<open>
  What it takes to spend an output.  A push-only scriptSig run in front of a script leaves
  its pushes on the stack (\<open>run_pushes\<close>), so the two run one after the other although the
  code concatenates them; from there the standard outputs are evaluated symbolically to the
  exact condition under which they accept.
\<close>

section \<open>Running the pushes of a scriptSig\<close>

definition pushed :: "ext \<Rightarrow> nat \<Rightarrow> bytes \<Rightarrow> bytes" where
  "pushed E opcode v =
     (if opcode \<le> OP_PUSHDATA4 then v else getvch E (CBigNum_int E (int opcode - (int OP_1 - 1))))"

text \<open>\<open>OP_RESERVED\<close> counts as a push in \<open>IsPushOnly\<close> and fails when it is run.\<close>

fun push_run :: "ext \<Rightarrow> (nat \<times> bytes \<times> bytes) list \<Rightarrow> stack \<Rightarrow> stack option" where
  "push_run E [] st = Some st"
| "push_run E ((opcode, v, _) # ops) st =
     (if MAX_SCRIPT_ELEMENT_SIZE < length v \<or> opcode = OP_RESERVED \<or> MAX_STACK_SIZE \<le> length st
      then None else push_run E ops (pushed E opcode v # st))"

lemma guard_push:
  "opcode \<le> OP_16 \<Longrightarrow> op_guard cx opcode v count =
     (if MAX_SCRIPT_ELEMENT_SIZE < length v then None else Some count)"
  by (auto simp: op_guard_def disabled_ops_def opcodes)

lemma exec_push:
  assumes "OP_PUSHDATA4 < opcode" "opcode \<le> OP_16"
  shows "exec_op E cx opcode f s =
    (if opcode = OP_RESERVED then None else Some (s\<lparr>st_stack := pushed E opcode [] # st_stack s\<rparr>))"
proof -
  have "opcode = OP_RESERVED \<or> opcode = OP_1NEGATE \<or> (OP_1 \<le> opcode \<and> opcode \<le> OP_16)"
    using assms by (auto simp: opcodes)
  then show ?thesis
    using assms
    by (auto simp: exec_op_def Let_def put_stack_def op_number_def pushed_def opcodes stack_ops_def
        splice_ops_def bitwise_ops_def unary_ops_def binary_ops_def hash_ops_def)
qed

lemma GetOp_data: "GetOp pc = Some (opcode, v, r) \<Longrightarrow> OP_PUSHDATA4 < opcode \<Longrightarrow> v = []"
  by (auto simp: GetOp_def Let_def split: list.splits option.splits if_split_asm)

lemma eval_step_push:
  assumes "GetOp (st_pc s) = Some (opcode, v, r)" "opcode \<le> OP_16" "list_all id (vfExec s)"
    and "st_alt s = []"
  shows "eval_step E cx s =
    (if MAX_SCRIPT_ELEMENT_SIZE < length v \<or> opcode = OP_RESERVED \<or> MAX_STACK_SIZE \<le> length (st_stack s)
     then None else Some (s\<lparr>st_pc := r, st_stack := pushed E opcode v # st_stack s\<rparr>))"
proof (cases "opcode \<le> OP_PUSHDATA4")
  case True
  then have "opcode \<noteq> OP_RESERVED" "pushed E opcode v = v" by (auto simp: opcodes pushed_def)
  with True assms show ?thesis
    by (simp add: eval_step_def guard_push Let_def Suc_le_eq)
next
  case False
  then have "v = []" using GetOp_data [OF assms(1)] by simp
  with False assms show ?thesis
    by (simp add: eval_step_def guard_push Let_def Suc_le_eq exec_push)
qed

lemma run_pushes:
  assumes "IsPushOnly a" "list_all id (vfExec s)" "st_alt s = []" "st_pc s = a @ b"
  shows "run_script E cx s =
    (case push_run E (ops_of a) (st_stack s) of None \<Rightarrow> None
     | Some st \<Rightarrow> run_script E cx (s\<lparr>st_stack := st, st_pc := b\<rparr>))"
  using assms
proof (induction a arbitrary: s rule: script_induct)
  case (stop pc)
  then have "pc = []" by (subst (asm) IsPushOnly.simps) (simp split: if_split_asm)
  moreover have "s\<lparr>st_pc := b\<rparr> = s" using stop calculation by (cases s) simp
  ultimately show ?case by simp
next
  case (step pc opcode v r p)
  have push: "opcode \<le> OP_16" "IsPushOnly r"
    using step(1,2,3,6) by (subst (asm) IsPushOnly.simps; auto split: if_split_asm)+
  have get: "GetOp (st_pc s) = Some (opcode, v, r @ b)"
    using step(2,4,9) by simp
  have ne: "st_pc s \<noteq> []" using step(2,3,9) by simp
  note e = eval_step_push [OF get push(1) step(7,8), of E cx]
  have ops: "ops_of pc = (opcode, v, p) # ops_of r"
    using parse_ops_step [OF step(4), of r] step(2) by simp
  show ?case
  proof (cases "MAX_SCRIPT_ELEMENT_SIZE < length v \<or> opcode = OP_RESERVED \<or>
      MAX_STACK_SIZE \<le> length (st_stack s)")
    case True
    with ne e ops show ?thesis by (subst run_script.simps) auto
  next
    case False
    define s1 where "s1 = s\<lparr>st_pc := r @ b, st_stack := pushed E opcode v # st_stack s\<rparr>"
    have "run_script E cx s = run_script E cx s1"
      using ne e False by (subst run_script.simps) (simp add: s1_def)
    also have "\<dots> = (case push_run E (ops_of r) (st_stack s1) of None \<Rightarrow> None
        | Some st \<Rightarrow> run_script E cx (s1\<lparr>st_stack := st, st_pc := b\<rparr>))"
      by (rule step.IH) (use push(2) step(7,8) in \<open>simp_all add: s1_def\<close>)
    finally have run: "run_script E cx s = \<dots>" .
    have upd: "s1\<lparr>st_stack := st, st_pc := b\<rparr> = s\<lparr>st_stack := st, st_pc := b\<rparr>" for st
      by (cases s) (simp add: s1_def)
    have "push_run E (ops_of pc) (st_stack s) = push_run E (ops_of r) (st_stack s1)"
      using ops False by (simp add: s1_def)
    then show ?thesis unfolding run upd by simp
  qed
qed

section \<open>One operation at a time\<close>

definition version_op :: "nat \<Rightarrow> bool" where
  "version_op opcode \<longleftrightarrow> opcode = OP_VER \<or> opcode = OP_VERIF \<or> opcode = OP_VERNOTIF"

text \<open>A counted operation executed in a taken branch.\<close>

lemma run_counted:
  assumes "GetOp (st_pc s) = Some (opcode, v, r)" "OP_16 < opcode" "opcode \<notin> set disabled_ops"
    and "\<not> version_op opcode" "list_all id (vfExec s)"
    and "nOpCount s < MAX_OPS_PER_SCRIPT"
  shows "run_script E cx s =
    (case exec_op E cx opcode True (s\<lparr>st_pc := r, nOpCount := Suc (nOpCount s)\<rparr>) of
       None \<Rightarrow> None
     | Some s2 \<Rightarrow> if length (st_stack s2) + length (st_alt s2) > MAX_STACK_SIZE then None
                  else run_script E cx s2)"
proof -
  have "v = []" using GetOp_data [OF assms(1)] assms(2) by (simp add: opcodes)
  with assms have g: "op_guard cx opcode v (nOpCount s) = Some (Suc (nOpCount s))"
    by (simp add: op_guard_def version_op_def)
  have "\<not> opcode \<le> OP_PUSHDATA4" using assms(2) by (simp add: opcodes)
  with assms g have "eval_step E cx s =
      (case exec_op E cx opcode True (s\<lparr>st_pc := r, nOpCount := Suc (nOpCount s)\<rparr>) of
         None \<Rightarrow> None
       | Some s2 \<Rightarrow> if length (st_stack s2) + length (st_alt s2) > MAX_STACK_SIZE then None
                    else Some s2)"
    by (simp add: eval_step_def Let_def)
  moreover have "st_pc s \<noteq> []" using assms(1) by auto
  ultimately show ?thesis by (subst run_script.simps) (auto split: option.split)
qed

lemma run_pushed:
  assumes "GetOp (st_pc s) = Some (opcode, v, r)" "opcode \<le> OP_16" "list_all id (vfExec s)"
    and "st_alt s = []"
  shows "run_script E cx s =
    (if MAX_SCRIPT_ELEMENT_SIZE < length v \<or> opcode = OP_RESERVED \<or> MAX_STACK_SIZE \<le> length (st_stack s)
     then None else run_script E cx (s\<lparr>st_pc := r, st_stack := pushed E opcode v # st_stack s\<rparr>))"
proof -
  have "st_pc s \<noteq> []" using assms(1) by auto
  then show ?thesis using eval_step_push [OF assms, of E cx] by (subst run_script.simps) auto
qed

lemma run_end: "st_pc s = [] \<Longrightarrow> run_script E cx s = Some s"
  by (subst run_script.simps) simp

text \<open>The operations of the standard outputs.\<close>

lemmas switch_defs = exec_op_def Let_def stack_ops_def splice_ops_def bitwise_ops_def unary_ops_def
  binary_ops_def hash_ops_def put_stack_def put_verify_def

lemma exec_DUP:
  "exec_op E cx OP_DUP f s =
     (case st_stack s of [] \<Rightarrow> None | x # r \<Rightarrow> Some (s\<lparr>st_stack := x # x # r\<rparr>))"
  by (cases s) (simp add: switch_defs op_stack_def opcodes split: list.split)

lemma exec_HASH160:
  "exec_op E cx OP_HASH160 f s =
     (case st_stack s of [] \<Rightarrow> None
      | x # r \<Rightarrow> Some (s\<lparr>st_stack := bytes_of_uint160 (Hash160 E x) # r\<rparr>))"
  by (simp add: switch_defs op_hash_def opcodes split: list.split)

lemma exec_EQUALVERIFY:
  "exec_op E cx OP_EQUALVERIFY f s =
     (case st_stack s of
        x2 # x1 # r \<Rightarrow>
          if x1 = x2 then Some (s\<lparr>st_stack := r\<rparr>)
          else Some (s\<lparr>st_stack := vchFalse # r, st_pc := []\<rparr>)
      | _ \<Rightarrow> None)"
  by (cases s) (simp add: switch_defs op_equal_def verify_result_def opcodes split: list.split)

lemma exec_EQUAL:
  "exec_op E cx OP_EQUAL f s =
     (case st_stack s of
        x2 # x1 # r \<Rightarrow> Some (s\<lparr>st_stack := vch_of_bool (x1 = x2) # r\<rparr>) | _ \<Rightarrow> None)"
  by (cases s) (simp add: switch_defs op_equal_def verify_result_def opcodes split: list.split)

lemma exec_CODESEPARATOR:
  "exec_op E cx OP_CODESEPARATOR f s = Some (s\<lparr>pbegincodehash := st_pc s\<rparr>)"
  by (simp add: switch_defs opcodes)

lemma exec_CHECKSIG:
  "exec_op E cx OP_CHECKSIG f s =
     (case st_stack s of
        pk # sig # r \<Rightarrow>
          Some (s\<lparr>st_stack := vch_of_bool
            (cx_CheckSig E cx (FindAndDelete (push_vch sig) (pbegincodehash s)) sig pk) # r\<rparr>)
      | _ \<Rightarrow> None)"
  by (cases s) (simp add: switch_defs op_checksig_def verify_result_def opcodes split: list.split)

lemma not_disabled:
  "OP_DUP \<notin> set disabled_ops" "OP_HASH160 \<notin> set disabled_ops" "OP_EQUALVERIFY \<notin> set disabled_ops"
  "OP_EQUAL \<notin> set disabled_ops" "OP_CODESEPARATOR \<notin> set disabled_ops"
  "OP_CHECKSIG \<notin> set disabled_ops" "OP_CHECKMULTISIG \<notin> set disabled_ops"
  by (simp_all add: disabled_ops_def opcodes)

lemma counted_op:
  "OP_16 < OP_DUP" "OP_16 < OP_HASH160" "OP_16 < OP_EQUALVERIFY" "OP_16 < OP_EQUAL"
  "OP_16 < OP_CODESEPARATOR" "OP_16 < OP_CHECKSIG" "OP_16 < OP_CHECKMULTISIG"
  "\<not> version_op OP_DUP" "\<not> version_op OP_HASH160"
  "\<not> version_op OP_EQUALVERIFY" "\<not> version_op OP_EQUAL"
  "\<not> version_op OP_CODESEPARATOR"
  "\<not> version_op OP_CHECKSIG"
  "\<not> version_op OP_CHECKMULTISIG"
  by (simp_all add: opcodes version_op_def)

lemma GetOp_std:
  "GetOp (push_opcode OP_DUP @ r) = Some (OP_DUP, [], r)"
  "GetOp (push_opcode OP_HASH160 @ r) = Some (OP_HASH160, [], r)"
  "GetOp (push_opcode OP_EQUALVERIFY @ r) = Some (OP_EQUALVERIFY, [], r)"
  "GetOp (push_opcode OP_EQUAL @ r) = Some (OP_EQUAL, [], r)"
  "GetOp (push_opcode OP_CODESEPARATOR @ r) = Some (OP_CODESEPARATOR, [], r)"
  "GetOp (push_opcode OP_CHECKSIG @ r) = Some (OP_CHECKSIG, [], r)"
  by (rule GetOp_push_opcode; simp add: opcodes)+

lemma GetOp_uint160: "GetOp (push_uint160 h @ r) = Some (20, bytes_of_uint160 h, r)"
  using GetOp_push_vch [of "bytes_of_uint160 h" r]
  by (simp add: push_uint160_def push_vch_def opcodes)

lemma CastToBool_result:
  assumes "openssl_bn E"
  shows "CastToBool E (vch_of_bool b) = b"
  using openssl_bn.setvch [OF assms, of "[1]"] openssl_bn.setvch [OF assms, of "[]"]
  by (simp add: CastToBool_def vch_of_bool_def vchTrue_def vchFalse_def)

text \<open>The state in which the script behind the separator starts.\<close>

definition behind_separator :: "stack \<Rightarrow> bytes \<Rightarrow> script_state" where
  "behind_separator st spk =
     \<lparr>st_stack = st, st_alt = [], vfExec = [], nOpCount = 1, st_pc = spk,
      pbegincodehash = spk, ctvCache = CtvHashCache_init\<rparr>"

lemma push_run_length: "push_run E ops st = Some st' \<Longrightarrow> length st \<le> MAX_STACK_SIZE \<Longrightarrow>
  length st' \<le> MAX_STACK_SIZE"
  by (induction E ops st rule: push_run.induct) (auto split: if_split_asm)

lemma run_sig_then:
  assumes "IsPushOnly sig"
  shows "run_script E cx (script_start (sig @ push_opcode OP_CODESEPARATOR @ spk)) =
    (case push_run E (ops_of sig) [] of None \<Rightarrow> None
     | Some st \<Rightarrow> run_script E cx (behind_separator st spk))"
proof -
  let ?rest = "push_opcode OP_CODESEPARATOR @ spk"
  let ?s = "\<lambda>st. script_start (sig @ ?rest)\<lparr>st_stack := st, st_pc := ?rest\<rparr>"
  have "run_script E cx (script_start (sig @ ?rest)) =
      (case push_run E (ops_of sig) [] of None \<Rightarrow> None | Some st \<Rightarrow> run_script E cx (?s st))"
    using run_pushes [OF assms, of "script_start (sig @ ?rest)"] by (simp add: script_start_def)
  moreover have "run_script E cx (?s st) = run_script E cx (behind_separator st spk)"
    if "push_run E (ops_of sig) [] = Some st" for st
  proof -
    have "length st \<le> MAX_STACK_SIZE" using push_run_length [OF that] by simp
    then show ?thesis
      by (subst run_counted [where opcode = OP_CODESEPARATOR and v = "[]" and r = spk])
        (simp_all add: script_start_def GetOp_std counted_op not_disabled exec_CODESEPARATOR
          MAX_OPS_PER_SCRIPT_def behind_separator_def)
  qed
  ultimately show ?thesis by (simp split: option.split)
qed

section \<open>Pay to public key hash\<close>

definition accepts :: "ext \<Rightarrow> script_state option \<Rightarrow> bool" where
  "accepts E r \<longleftrightarrow> (case r of None \<Rightarrow> False
     | Some s \<Rightarrow> vfExec s = [] \<and> (case st_stack s of [] \<Rightarrow> False | vch # _ \<Rightarrow> CastToBool E vch))"

lemma EvalScript_accepts: "EvalScript E cx script \<longleftrightarrow> accepts E (run_script E cx (script_start script))"
  by (simp add: EvalScript_def EvalScript_stack_def accepts_def split: option.split)

lemma accepts_None [simp]: "\<not> accepts E None"
  by (simp add: accepts_def)

lemma EvalScript_sig_then:
  assumes "IsPushOnly sig"
  shows "EvalScript E cx (sig @ push_opcode OP_CODESEPARATOR @ spk) \<longleftrightarrow>
    (\<exists>st. push_run E (ops_of sig) [] = Some st \<and>
          accepts E (run_script E cx (behind_separator st spk)))"
  unfolding EvalScript_accepts run_sig_then [OF assms] by (simp split: option.split)

definition p2pkh :: "uint160 \<Rightarrow> bytes" where
  "p2pkh h = push_opcode OP_DUP @ push_opcode OP_HASH160 @ push_uint160 h @
     push_opcode OP_EQUALVERIFY @ push_opcode OP_CHECKSIG"

definition p2pk :: "bytes \<Rightarrow> bytes" where
  "p2pk pk = push_vch pk @ push_opcode OP_CHECKSIG"

definition p2sh :: "uint160 \<Rightarrow> bytes" where
  "p2sh h = push_opcode OP_HASH160 @ push_uint160 h @ push_opcode OP_EQUAL"

lemma GetOp_checksig_end: "GetOp (push_opcode OP_CHECKSIG) = Some (OP_CHECKSIG, [], [])"
  "GetOp (push_opcode OP_EQUAL) = Some (OP_EQUAL, [], [])"
  using GetOp_std(6) [of "[]"] GetOp_std(4) [of "[]"] by simp_all

text \<open>The last operation of the standard outputs: the signature check and the comparison.\<close>

lemma accepts_CHECKSIG:
  assumes E: "openssl_bn E" and s: "st_pc s = push_opcode OP_CHECKSIG" "vfExec s = []" "st_alt s = []"
    "nOpCount s < MAX_OPS_PER_SCRIPT" "length (st_stack s) \<le> MAX_STACK_SIZE"
  shows "accepts E (run_script E cx s) \<longleftrightarrow>
    (\<exists>pk sig r. st_stack s = pk # sig # r \<and>
       cx_CheckSig E cx (FindAndDelete (push_vch sig) (pbegincodehash s)) sig pk)"
  using s
  by (subst run_counted [where opcode = OP_CHECKSIG and v = "[]" and r = "[]"])
    (auto simp: GetOp_checksig_end counted_op not_disabled exec_CHECKSIG run_end accepts_def
      CastToBool_result [OF E] split: list.split)

lemma accepts_EQUAL:
  assumes E: "openssl_bn E" and s: "st_pc s = push_opcode OP_EQUAL" "vfExec s = []" "st_alt s = []"
    "nOpCount s < MAX_OPS_PER_SCRIPT" "length (st_stack s) \<le> MAX_STACK_SIZE"
  shows "accepts E (run_script E cx s) \<longleftrightarrow> (\<exists>x r. st_stack s = x # x # r)"
  using s
  by (subst run_counted [where opcode = OP_EQUAL and v = "[]" and r = "[]"])
    (auto simp: GetOp_checksig_end counted_op not_disabled exec_EQUAL run_end accepts_def
      CastToBool_result [OF E] split: list.split)

lemma bytes_of_uint160_inject [simp]: "bytes_of_uint160 a = bytes_of_uint160 b \<longleftrightarrow> a = b"
  by (metis uint160_bytes_inverse)

lemma accepts_p2pkh_tail:
  assumes E: "openssl_bn E" and s: "st_pc s = push_opcode OP_EQUALVERIFY @ push_opcode OP_CHECKSIG"
    "vfExec s = []" "st_alt s = []" "Suc (nOpCount s) < MAX_OPS_PER_SCRIPT"
    "length (st_stack s) \<le> MAX_STACK_SIZE" "st_stack s = x2 # x1 # r"
  shows "accepts E (run_script E cx s) \<longleftrightarrow> x1 = x2 \<and>
    (\<exists>pk sig r'. r = pk # sig # r' \<and>
       cx_CheckSig E cx (FindAndDelete (push_vch sig) (pbegincodehash s)) sig pk)"
proof -
  have run: "run_script E cx s =
      run_script E cx (if x1 = x2
        then s\<lparr>st_pc := push_opcode OP_CHECKSIG, nOpCount := Suc (nOpCount s), st_stack := r\<rparr>
        else s\<lparr>nOpCount := Suc (nOpCount s), st_stack := vchFalse # r, st_pc := []\<rparr>)"
    using s
    by (subst run_counted [where opcode = OP_EQUALVERIFY and v = "[]" and r = "push_opcode OP_CHECKSIG"])
      (auto simp: GetOp_std counted_op not_disabled exec_EQUALVERIFY)
  have F: "\<not> CastToBool E vchFalse"
    using CastToBool_result [OF E, of False] by (simp add: vch_of_bool_def)
  show ?thesis
  proof (cases "x1 = x2")
    case True
    then show ?thesis unfolding run using s by (simp add: accepts_CHECKSIG [OF E])
  next
    case False
    then show ?thesis unfolding run using F s by (simp add: run_end accepts_def)
  qed
qed

lemma accepts_p2pkh:
  assumes E: "openssl_bn E" and len: "length st \<le> MAX_STACK_SIZE"
  shows "accepts E (run_script E cx (behind_separator st (p2pkh h))) \<longleftrightarrow>
    (\<exists>pk sig r. st = pk # sig # r \<and> length st + 2 \<le> MAX_STACK_SIZE \<and> Hash160 E pk = h \<and>
       cx_CheckSig E cx (FindAndDelete (push_vch sig) (p2pkh h)) sig pk)"
proof (cases st)
  case Nil
  then show ?thesis
    by (subst run_counted [where opcode = OP_DUP and v = "[]"])
      (auto simp: p2pkh_def GetOp_std counted_op not_disabled exec_DUP behind_separator_def
        MAX_OPS_PER_SCRIPT_def)
next
  case (Cons pk r)
  define s where "s = behind_separator st (p2pkh h)"
  define t1 where "t1 = push_uint160 h @ push_opcode OP_EQUALVERIFY @ push_opcode OP_CHECKSIG"
  let ?s1 = "s\<lparr>st_pc := push_opcode OP_HASH160 @ t1, nOpCount := Suc (Suc 0), st_stack := pk # pk # r\<rparr>"
  let ?s2 = "s\<lparr>st_pc := t1, nOpCount := Suc (Suc (Suc 0)), st_stack := bytes_of_uint160 (Hash160 E pk) # pk # r\<rparr>"
  let ?s3 = "s\<lparr>st_pc := push_opcode OP_EQUALVERIFY @ push_opcode OP_CHECKSIG, nOpCount := Suc (Suc (Suc 0)),
      st_stack := bytes_of_uint160 h # bytes_of_uint160 (Hash160 E pk) # pk # r\<rparr>"
  have r1: "run_script E cx s = (if Suc (length st) > MAX_STACK_SIZE then None else run_script E cx ?s1)"
    by (subst run_counted [where opcode = OP_DUP and v = "[]" and r = "push_opcode OP_HASH160 @ t1"])
      (auto simp: s_def p2pkh_def t1_def GetOp_std counted_op not_disabled exec_DUP behind_separator_def
        MAX_OPS_PER_SCRIPT_def Cons)
  have r2: "run_script E cx ?s1 = run_script E cx ?s2" if "\<not> Suc (length st) > MAX_STACK_SIZE"
    using that
    by (subst run_counted [where opcode = OP_HASH160 and v = "[]" and r = t1])
      (auto simp: s_def GetOp_std counted_op not_disabled exec_HASH160 behind_separator_def
        MAX_OPS_PER_SCRIPT_def Cons)
  have r3: "run_script E cx ?s2 =
      (if MAX_STACK_SIZE \<le> Suc (length st) then None else run_script E cx ?s3)"
    by (subst run_pushed [where opcode = 20 and v = "bytes_of_uint160 h" and
          r = "push_opcode OP_EQUALVERIFY @ push_opcode OP_CHECKSIG"])
      (auto simp: t1_def GetOp_uint160 s_def behind_separator_def Cons opcodes pushed_def
        MAX_SCRIPT_ELEMENT_SIZE_def)
  show ?thesis
  proof (cases "length st + 2 \<le> MAX_STACK_SIZE")
    case True
    have "accepts E (run_script E cx ?s3) \<longleftrightarrow> bytes_of_uint160 (Hash160 E pk) = bytes_of_uint160 h \<and>
        (\<exists>k sig r'. pk # r = k # sig # r' \<and>
          cx_CheckSig E cx (FindAndDelete (push_vch sig) (pbegincodehash ?s3)) sig k)"
      using True Cons
      by (intro accepts_p2pkh_tail [OF E]) (simp_all add: s_def behind_separator_def MAX_OPS_PER_SCRIPT_def)
    moreover have "run_script E cx s = run_script E cx ?s3" using r1 r2 r3 True by simp
    moreover have "pbegincodehash ?s3 = p2pkh h" by (simp add: s_def behind_separator_def)
    ultimately have "accepts E (run_script E cx s) \<longleftrightarrow> Hash160 E pk = h \<and>
        (\<exists>k sig r'. st = k # sig # r' \<and> cx_CheckSig E cx (FindAndDelete (push_vch sig) (p2pkh h)) sig k)"
      by (simp only: Cons bytes_of_uint160_inject)
    then show ?thesis unfolding s_def using True Cons by auto
  next
    case False
    then have "run_script E cx s = None" using r1 r2 r3 by (auto simp: Suc_le_eq)
    with False show ?thesis by (simp add: s_def)
  qed
qed

section \<open>Pay to script hash\<close>

lemma accepts_p2sh:
  assumes E: "openssl_bn E" and len: "length st \<le> MAX_STACK_SIZE"
  shows "accepts E (run_script E cx (behind_separator st (p2sh h))) \<longleftrightarrow>
    (\<exists>x r. st = x # r \<and> length st + 1 \<le> MAX_STACK_SIZE \<and> Hash160 E x = h)"
proof (cases st)
  case Nil
  then show ?thesis
    by (subst run_counted [where opcode = OP_HASH160 and v = "[]"])
      (auto simp: p2sh_def GetOp_std counted_op not_disabled exec_HASH160 behind_separator_def
        MAX_OPS_PER_SCRIPT_def)
next
  case (Cons x r)
  define s where "s = behind_separator st (p2sh h)"
  let ?s1 = "s\<lparr>st_pc := push_uint160 h @ push_opcode OP_EQUAL, nOpCount := Suc (Suc 0),
      st_stack := bytes_of_uint160 (Hash160 E x) # r\<rparr>"
  let ?s2 = "s\<lparr>st_pc := push_opcode OP_EQUAL, nOpCount := Suc (Suc 0),
      st_stack := bytes_of_uint160 h # bytes_of_uint160 (Hash160 E x) # r\<rparr>"
  have r1: "run_script E cx s = run_script E cx ?s1"
    using len
    by (subst run_counted [where opcode = OP_HASH160 and v = "[]"])
      (auto simp: s_def p2sh_def GetOp_std counted_op not_disabled exec_HASH160
        behind_separator_def MAX_OPS_PER_SCRIPT_def Cons)
  have r2: "run_script E cx ?s1 = (if MAX_STACK_SIZE \<le> length st then None else run_script E cx ?s2)"
    by (subst run_pushed [where opcode = 20 and v = "bytes_of_uint160 h" and r = "push_opcode OP_EQUAL"])
      (auto simp: GetOp_uint160 s_def behind_separator_def Cons opcodes pushed_def
        MAX_SCRIPT_ELEMENT_SIZE_def)
  have r3: "accepts E (run_script E cx ?s2) \<longleftrightarrow> Hash160 E x = h" if "\<not> MAX_STACK_SIZE \<le> length st"
    using that by (subst accepts_EQUAL [OF E])
      (auto simp: s_def behind_separator_def MAX_OPS_PER_SCRIPT_def Cons)
  show ?thesis
    using r1 r2 r3 Cons unfolding s_def by auto
qed

lemma IsPayToScriptHash_p2sh: "IsPayToScriptHash s \<longleftrightarrow> s = p2sh (uint160_of_bytes (take 20 (drop 2 s)))"
proof
  assume a: "IsPayToScriptHash s"
  then have len: "length s = 23" by (simp add: IsPayToScriptHash_def)
  obtain a b rest where s: "s = a # b # rest" "length rest = 21"
    using len by (cases s; cases "tl s") auto
  then have "length (drop 20 rest) = 1" by simp
  then have "drop 20 rest = [rest ! 20]"
    using s(2) by (simp add: Cons_nth_drop_Suc [symmetric])
  then have "rest = take 20 rest @ [rest ! 20]" by (metis append_take_drop_id)
  then have "s = [s ! 0, s ! 1] @ take 20 (drop 2 s) @ [s ! 22]"
    by (simp add: s(1))
  moreover have "s ! 0 = word_of_nat OP_HASH160" "s ! 22 = word_of_nat OP_EQUAL" "s ! 1 = 20"
    using a unfolding IsPayToScriptHash_def by (metis word_of_nat_unat_byte)+
  moreover have "bytes_of_uint160 (uint160_of_bytes (take 20 (drop 2 s))) = take 20 (drop 2 s)"
    by (rule bytes_uint160_inverse) (simp add: len)
  ultimately show "s = p2sh (uint160_of_bytes (take 20 (drop 2 s)))"
    by (simp add: p2sh_def push_opcode_def push_uint160_def opcodes)
next
  assume "s = p2sh (uint160_of_bytes (take 20 (drop 2 s)))"
  then obtain h where s: "s = p2sh h" by blast
  show "IsPayToScriptHash s"
    unfolding s by (simp add: IsPayToScriptHash_def p2sh_def push_opcode_def push_uint160_def opcodes
        nth_append unat_byte_of)
qed

lemma IsPayToScriptHash_of [simp]: "IsPayToScriptHash (p2sh h)"
  by (simp add: IsPayToScriptHash_def p2sh_def push_opcode_def push_uint160_def opcodes
        nth_append unat_byte_of)

lemma p2sh_hash [simp]: "uint160_of_bytes (take 20 (drop 2 (p2sh h))) = h"
  by (simp add: p2sh_def push_opcode_def push_uint160_def opcodes)

lemma ops_of_Nil: "tail_of pc = [] \<Longrightarrow> ops_of pc = [] \<longleftrightarrow> pc = []"
  using parse_ops_concat [of pc] by auto

lemma last_push_ops:
  "tail_of pc = [] \<Longrightarrow> last_push pc p0 v0 =
     Some (if pc = [] then (p0, v0) else (snd (snd (last (ops_of pc))), fst (snd (last (ops_of pc)))))"
proof (induction pc arbitrary: p0 v0 rule: script_induct)
  case (stop pc)
  then have "pc = []" by (simp add: parse_ops_None)
  then show ?case by (subst last_push.simps) simp
next
  case (step pc opcode v r p)
  have t: "tail_of r = []" and o: "ops_of pc = (opcode, v, p) # ops_of r"
    using step parse_ops_step [OF step(4), of r] by simp_all
  have "last_push pc p0 v0 = last_push r pc v"
    using step(1,2,3) by (subst last_push.simps) simp
  then show ?case using step.IH [OF t] step(2,3) o ops_of_Nil [OF t] by auto
qed

lemma push_only_split:
  assumes "IsPushOnly sig" "sig \<noteq> []"
  obtains inner opcode v p where "sig = inner @ p" "ops_of sig = ops_of inner @ [(opcode, v, p)]"
    "IsPushOnly inner" "GetOp p = Some (opcode, v, [])" "opcode \<le> OP_16"
    "last_push sig sig [] = Some (p, v)"
proof -
  have sig: "tail_of sig = []" "list_all (\<lambda>x. fst x \<le> OP_16) (ops_of sig)"
    using assms(1) by (simp_all add: IsPushOnly_ops)
  then obtain os opcode v p where ops: "ops_of sig = os @ [(opcode, v, p)]"
    using assms(2) ops_of_Nil by (metis rev_exhaust prod_cases3)
  define inner where "inner = concat (map (snd \<circ> snd) os)"
  have s: "sig = inner @ p"
    using parse_ops_concat [of sig] sig(1) ops by (simp add: inner_def)
  have get: "GetOp (p @ r) = Some (opcode, v, r)" for r
    using ops_of_raw [of opcode v p sig r] ops by simp
  have raw: "\<forall>(c, w, q) \<in> set os. \<forall>r. GetOp (q @ r) = Some (c, w, r)"
  proof clarify
    fix c w q r assume "(c, w, q) \<in> set os"
    then have "(c, w, q) \<in> set (ops_of sig)" by (simp add: ops)
    then show "GetOp (q @ r) = Some (c, w, r)" using ops_of_raw by blast
  qed
  then have os: "ops_of inner = os \<and> tail_of inner = []"
    unfolding inner_def by (induction os) (auto simp: parse_ops_step)
  have "IsPushOnly inner" using os sig(2) ops by (simp add: IsPushOnly_ops)
  moreover have "opcode \<le> OP_16" using sig(2) ops by simp
  moreover have "last_push sig sig [] = Some (p, v)"
    using last_push_ops [OF sig(1)] assms(2) ops by simp
  ultimately show ?thesis using that [of inner p opcode v] s ops os get [of "[]"] by simp
qed

lemma push_run_append:
  "push_run E (xs @ ys) st = (case push_run E xs st of None \<Rightarrow> None | Some st' \<Rightarrow> push_run E ys st')"
  by (induction E xs st rule: push_run.induct) auto

text \<open>
  The exact condition for a script-hash spend: the last operation of the scriptSig is a push
  whose data hashes to \<open>h\<close>, and that data, run as a script on what the other pushes leave,
  accepts.
\<close>

lemma VerifyScriptP2SH_iff:
  assumes E: "openssl_bn E"
  shows "VerifyScriptP2SH E sig (p2sh h) tx n strict v3 v4 \<longleftrightarrow>
    (\<exists>inner p opcode redeem st.
       sig = inner @ p \<and> IsPushOnly inner \<and> GetOp p = Some (opcode, redeem, []) \<and> opcode \<le> OP_16 \<and>
       push_run E (ops_of inner) [] = Some st \<and>
       length redeem \<le> MAX_SCRIPT_ELEMENT_SIZE \<and> opcode \<noteq> OP_RESERVED \<and>
       length st + 2 \<le> MAX_STACK_SIZE \<and>
       Hash160 E (pushed E opcode redeem) = h \<and> Hash160 E redeem = h \<and>
       accepts E (run_script E (script_ctx_of tx n 0 strict v3 v4) (behind_separator st redeem)))"
    (is "?l \<longleftrightarrow> ?r")
proof -
  let ?cx = "script_ctx_of tx n 0 strict v3 v4"
  have key: "VerifyScriptP2SH E sig (p2sh h) tx n strict v3 v4 \<longleftrightarrow>
      (\<exists>st. push_run E (ops_of inner) [] = Some st \<and>
         length v \<le> MAX_SCRIPT_ELEMENT_SIZE \<and> opcode \<noteq> OP_RESERVED \<and> length st + 2 \<le> MAX_STACK_SIZE \<and>
         Hash160 E (pushed E opcode v) = h \<and> Hash160 E v = h \<and>
         accepts E (run_script E ?cx (behind_separator st v)))"
    if s: "sig = inner @ p" "ops_of sig = ops_of inner @ [(opcode, v, p)]" "IsPushOnly inner"
      "IsPushOnly sig" "sig \<noteq> []" "last_push sig sig [] = Some (p, v)" for inner p opcode v
  proof -
    have inner: "take (length sig - length p) sig = inner" using s(1) by simp
    have outer: "EvalScript E ?cx (sig @ push_opcode OP_CODESEPARATOR @ p2sh h) \<longleftrightarrow>
        (\<exists>st. push_run E (ops_of inner) [] = Some st \<and> length v \<le> MAX_SCRIPT_ELEMENT_SIZE \<and>
           opcode \<noteq> OP_RESERVED \<and> length st + 2 \<le> MAX_STACK_SIZE \<and> Hash160 E (pushed E opcode v) = h)"
    proof -
      have snoc: "push_run E (ops_of inner @ [(opcode, v, p)]) [] = Some st' \<longleftrightarrow>
          (\<exists>st. push_run E (ops_of inner) [] = Some st \<and> length v \<le> MAX_SCRIPT_ELEMENT_SIZE \<and>
             opcode \<noteq> OP_RESERVED \<and> length st < MAX_STACK_SIZE \<and> st' = pushed E opcode v # st)" for st'
        by (cases "push_run E (ops_of inner) []") (auto simp: push_run_append)
      have acc: "accepts E (run_script E ?cx (behind_separator (pushed E opcode v # st) (p2sh h))) \<longleftrightarrow>
          length st + 2 \<le> MAX_STACK_SIZE \<and> Hash160 E (pushed E opcode v) = h"
        if "length st < MAX_STACK_SIZE" for st
        using that accepts_p2sh [OF E, of "pushed E opcode v # st"] by simp
      have "length st < MAX_STACK_SIZE" if "length st + 2 \<le> MAX_STACK_SIZE" for st :: stack
        using that by simp
      then show ?thesis
        unfolding EvalScript_sig_then [OF s(4)] s(2) snoc using acc by blast
    qed
    show ?thesis
      unfolding VerifyScriptP2SH_def Let_def outer s(6) option.case prod.case inner p2sh_hash
        EvalScript_sig_then [OF s(3)]
      using s(4,5) by auto
  qed
  show ?thesis
  proof
    assume l: ?l
    then have p: "IsPushOnly sig" "sig \<noteq> []"
      by (auto simp: VerifyScriptP2SH_def Let_def split: if_split_asm option.splits)
    from p obtain inner opcode v p where s: "sig = inner @ p" "ops_of sig = ops_of inner @ [(opcode, v, p)]"
      "IsPushOnly inner" "GetOp p = Some (opcode, v, [])" "opcode \<le> OP_16"
      "last_push sig sig [] = Some (p, v)" by (rule push_only_split)
    from l key [OF s(1-3) p s(6)] s show ?r by blast
  next
    assume ?r
    then obtain inner p opcode v st where s: "sig = inner @ p" "IsPushOnly inner"
      "GetOp p = Some (opcode, v, [])" "opcode \<le> OP_16" and
      rest: "push_run E (ops_of inner) [] = Some st" "length v \<le> MAX_SCRIPT_ELEMENT_SIZE"
        "opcode \<noteq> OP_RESERVED" "length st + 2 \<le> MAX_STACK_SIZE" "Hash160 E (pushed E opcode v) = h"
        "Hash160 E v = h" "accepts E (run_script E ?cx (behind_separator st v))" by blast
    have t: "tail_of inner = []" using s(2) by (simp add: IsPushOnly_ops)
    have p1: "ops_of p = [(opcode, v, p)]" "tail_of p = []"
      using parse_ops_Some [OF s(3)] by simp_all
    have ops: "ops_of sig = ops_of inner @ [(opcode, v, p)]" "tail_of sig = []"
      using parse_ops_append [OF t, of p] p1 s(1) by simp_all
    have push: "IsPushOnly sig" using ops s(2,4) by (simp add: IsPushOnly_ops)
    have ne: "sig \<noteq> []" using s(1,3) by auto
    have "last_push sig sig [] = Some (p, v)" using last_push_ops [OF ops(2)] ne ops(1) by simp
    from key [OF s(1) ops(1) s(2) push ne this] rest show ?l by blast
  qed
qed

section \<open>Pay to public key\<close>

lemma accepts_p2pk:
  assumes E: "openssl_bn E" and st: "length st \<le> MAX_STACK_SIZE" and pk: "length pk \<le> MAX_SCRIPT_ELEMENT_SIZE"
  shows "accepts E (run_script E cx (behind_separator st (p2pk pk))) \<longleftrightarrow>
    (\<exists>sig r. st = sig # r \<and> length st + 1 \<le> MAX_STACK_SIZE \<and>
       cx_CheckSig E cx (FindAndDelete (push_vch sig) (p2pk pk)) sig pk)"
proof -
  define s where "s = behind_separator st (p2pk pk)"
  define opcode where "opcode = (if length pk < OP_PUSHDATA1 then length pk
      else if length pk \<le> 0xff then OP_PUSHDATA1 else OP_PUSHDATA2)"
  have get: "GetOp (st_pc s) = Some (opcode, pk, push_opcode OP_CHECKSIG)"
    using pk GetOp_push_vch [of pk "push_opcode OP_CHECKSIG"]
    by (simp add: s_def behind_separator_def p2pk_def opcode_def MAX_SCRIPT_ELEMENT_SIZE_def)
  have op: "opcode \<le> OP_PUSHDATA4" "opcode \<le> OP_16" "opcode \<noteq> OP_RESERVED"
    by (auto simp: opcode_def opcodes)
  let ?s1 = "s\<lparr>st_pc := push_opcode OP_CHECKSIG, st_stack := pk # st\<rparr>"
  have r1: "run_script E cx s = (if MAX_STACK_SIZE \<le> length st then None else run_script E cx ?s1)"
    using op pk
    by (subst run_pushed [OF get op(2)]) (auto simp: s_def behind_separator_def pushed_def)
  have "accepts E (run_script E cx ?s1) \<longleftrightarrow>
      (\<exists>k sig r. pk # st = k # sig # r \<and> cx_CheckSig E cx (FindAndDelete (push_vch sig) (p2pk pk)) sig k)"
    if "\<not> MAX_STACK_SIZE \<le> length st"
    using that by (subst accepts_CHECKSIG [OF E]) (auto simp: s_def behind_separator_def MAX_OPS_PER_SCRIPT_def)
  with r1 show ?thesis unfolding s_def by auto
qed

section \<open>The multisig loop\<close>

text \<open>
  The loop takes the keys in order and spends each on at most one signature.  It succeeds
  exactly when some subsequence of the keys matches the signatures one to one.
\<close>

lemma multisig_loop_iff:
  "length sigs \<le> length keys \<Longrightarrow>
   multisig_loop check sigs keys \<longleftrightarrow> (\<exists>ks. subseq ks keys \<and> list_all2 check sigs ks)"
proof (induction check sigs keys rule: multisig_loop.induct)
  case (1 check keys)
  then show ?case by (auto intro: exI [of _ "[]"])
next
  case (2 check s sigs)
  then show ?case by simp
next
  case (3 check s sigs k keys)
  define sigs' where "sigs' = (if check s k then sigs else s # sigs)"
  have short: "(\<exists>ks. subseq ks keys \<and> list_all2 check sigs' ks) \<Longrightarrow> length sigs' \<le> length keys"
    by (metis list_all2_lengthD list_emb_length)
  have eq: "multisig_loop check (s # sigs) (k # keys) \<longleftrightarrow>
      (\<exists>ks. subseq ks keys \<and> list_all2 check sigs' ks)"
  proof (cases "length sigs' \<le> length keys")
    case True
    have "multisig_loop check (s # sigs) (k # keys) = multisig_loop check sigs' keys"
      using True by (simp add: sigs'_def Let_def)
    with "3.IH" [OF sigs'_def] True show ?thesis by simp
  next
    case False
    then have "\<not> multisig_loop check (s # sigs) (k # keys)" by (simp add: sigs'_def Let_def)
    with False short show ?thesis by blast
  qed
  have "(\<exists>ks. subseq ks keys \<and> list_all2 check sigs' ks) \<longleftrightarrow>
      (\<exists>ks. subseq ks (k # keys) \<and> list_all2 check (s # sigs) ks)"
  proof
    assume "\<exists>ks. subseq ks keys \<and> list_all2 check sigs' ks"
    then obtain ks where ks: "subseq ks keys" "list_all2 check sigs' ks" by blast
    show "\<exists>ks. subseq ks (k # keys) \<and> list_all2 check (s # sigs) ks"
    proof (cases "check s k")
      case True
      with ks show ?thesis by (intro exI [of _ "k # ks"]) (simp add: sigs'_def)
    next
      case False
      with ks show ?thesis by (intro exI [of _ ks]) (auto simp: sigs'_def)
    qed
  next
    assume "\<exists>ks. subseq ks (k # keys) \<and> list_all2 check (s # sigs) ks"
    then obtain c ks where ks: "subseq (c # ks) (k # keys)" "check s c" "list_all2 check sigs ks"
      by (auto simp: list_all2_Cons1)
    show "\<exists>ks. subseq ks keys \<and> list_all2 check sigs' ks"
    proof (cases "check s k")
      case True
      have "subseq ks keys"
        using ks(1) by (cases "c = k") (auto dest: subseq_Cons')
      with True ks(3) show ?thesis by (intro exI [of _ ks]) (simp add: sigs'_def)
    next
      case False
      then have "c \<noteq> k" using ks(2) by auto
      then have "subseq (c # ks) keys" using ks(1) by auto
      with False ks show ?thesis by (intro exI [of _ "c # ks"]) (simp add: sigs'_def)
    qed
  qed
  with eq show ?case by simp
qed

section \<open>Lock times\<close>

lemma op_cltv_iff:
  assumes E: "openssl_bn E" and tx: "in_i32 (nLockTime (txTo cx))"
  shows "op_cltv E cx st \<longleftrightarrow> fRulesV3 cx \<and>
    (\<exists>x r. st = x # r \<and> length x \<le> 5 \<and> 0 \<le> setvch E x \<and> setvch E x \<le> nLockTime (txTo cx) \<and>
       (setvch E x < 500000000 \<longleftrightarrow> nLockTime (txTo cx) < 500000000) \<and>
       nSequence (vin (txTo cx) ! nIn cx) \<noteq> SEQUENCE_FINAL)"
proof -
  have c: "setint64 E 500000000 = 500000000"
    using openssl_bn.setint64 [OF E, of 500000000] by (simp add: in_i64_def)
  have l: "setint64 E (nLockTime (txTo cx)) = nLockTime (txTo cx)"
    using openssl_bn.setint64 [OF E, of "nLockTime (txTo cx)"] tx by (simp add: in_i64_def in_i32_def)
  have u: "LOCKTIME_THRESHOLD \<le> u32_of (nLockTime (txTo cx)) \<longleftrightarrow> 500000000 \<le> nLockTime (txTo cx)"
    if "0 \<le> nLockTime (txTo cx)"
    using that tx by (simp add: u32_of_def LOCKTIME_THRESHOLD_def in_i32_def nat_le_eq_zle le_nat_iff)
  show ?thesis
    by (cases st) (use u in \<open>auto simp: op_cltv_def Let_def l c LOCKTIME_THRESHOLD_def CTxIn_IsFinal_def\<close>)
qed

text \<open>\<open>IsFinalAt\<close> for the lock times a script can require.\<close>

lemma IsFinalAt_iff:
  assumes "0 \<le> nLockTime tx" "nLockTime tx < 2 ^ 31"
  shows "IsFinalAt tx h t \<longleftrightarrow> nLockTime tx = 0 \<or>
    (if nLockTime tx < 500000000 then nLockTime tx < h else nLockTime tx < t) \<or>
    (\<forall>i \<in> set (vin tx). nSequence i = SEQUENCE_FINAL)"
proof -
  have "u32_of (nLockTime tx) < LOCKTIME_THRESHOLD \<longleftrightarrow> nLockTime tx < 500000000"
    using assms by (simp add: u32_of_def LOCKTIME_THRESHOLD_def nat_less_iff)
  then show ?thesis by (auto simp: IsFinalAt_def Let_def list_all_iff CTxIn_IsFinal_def)
qed

lemma cltv_enforced:
  assumes E: "openssl_bn E" and tx: "in_i32 (nLockTime (txTo cx))" "nIn cx < length (vin (txTo cx))"
    and ok: "op_cltv E cx (x # r)" and final: "IsFinalAt (txTo cx) h t"
  shows "setvch E x = 0 \<or> (if setvch E x < 500000000 then setvch E x < h else setvch E x < t)"
proof -
  note c = ok [unfolded op_cltv_iff [OF E tx(1)]]
  have i: "vin (txTo cx) ! nIn cx \<in> set (vin (txTo cx))" using tx(2) by simp
  have "nLockTime (txTo cx) < 2 ^ 31" using tx(1) by (simp add: in_i32_def)
  with final c i show ?thesis by (subst (asm) IsFinalAt_iff) (auto split: if_split_asm)
qed

text \<open>A lock from 2038 on cannot be met: \<open>nLockTime\<close> is a signed 32 bit field.\<close>

lemma cltv_after_2038:
  assumes E: "openssl_bn E" and tx: "in_i32 (nLockTime (txTo cx))" and lock: "2 ^ 31 \<le> setvch E x"
  shows "\<not> op_cltv E cx (x # r)"
  using lock tx by (auto simp: op_cltv_iff [OF E tx] in_i32_def)

lemma IsFinalAt_negative:
  assumes "in_i32 (nLockTime tx)" "nLockTime tx < 0" "0 \<le> t"
  shows "IsFinalAt tx h t"
proof -
  have "nLockTime tx mod 2 ^ 32 = (nLockTime tx + 2 ^ 32) mod 2 ^ 32" by (simp only: mod_add_self2)
  also have "\<dots> = nLockTime tx + 2 ^ 32"
    using assms by (intro mod_pos_pos_trivial) (auto simp: in_i32_def)
  finally have "\<not> u32_of (nLockTime tx) < LOCKTIME_THRESHOLD"
    using assms by (simp add: u32_of_def LOCKTIME_THRESHOLD_def in_i32_def nat_less_iff)
  with assms show ?thesis by (simp add: IsFinalAt_def Let_def)
qed

section \<open>Pushed vectors in a scriptSig\<close>

lemma ops_of_push_vch:
  assumes "length b \<le> 0xffff"
  obtains opcode where "opcode \<le> OP_PUSHDATA4" "ops_of (push_vch b @ r) = (opcode, b, push_vch b) # ops_of r"
    "tail_of (push_vch b @ r) = tail_of r"
proof -
  define opcode where "opcode = (if length b < OP_PUSHDATA1 then length b
      else if length b \<le> 0xff then OP_PUSHDATA1 else OP_PUSHDATA2)"
  have "GetOp (push_vch b @ r') = Some (opcode, b, r')" for r'
    using GetOp_push_vch [OF assms] by (simp add: opcode_def)
  then have "ops_of (push_vch b @ r) = (opcode, b, push_vch b) # ops_of r \<and>
      tail_of (push_vch b @ r) = tail_of r" by (rule parse_ops_step)
  moreover have "opcode \<le> OP_PUSHDATA4" by (auto simp: opcode_def opcodes)
  ultimately show ?thesis using that by blast
qed

lemma IsPushOnly_push_vch [simp]: "length b \<le> 0xffff \<Longrightarrow> IsPushOnly (push_vch b @ r) = IsPushOnly r"
  by (rule ops_of_push_vch [of b r]) (auto simp: IsPushOnly_ops opcodes)

lemma IsPushOnly_Nil [simp]: "IsPushOnly []"
  by (simp add: IsPushOnly_ops)

lemma push_run_push_vch [simp]:
  assumes "length b \<le> MAX_SCRIPT_ELEMENT_SIZE" "length st < MAX_STACK_SIZE"
  shows "push_run E (ops_of (push_vch b @ r)) st = push_run E (ops_of r) (b # st)"
proof -
  have "length b \<le> 0xffff" using assms by (simp add: MAX_SCRIPT_ELEMENT_SIZE_def)
  then obtain opcode where "opcode \<le> OP_PUSHDATA4" "ops_of (push_vch b @ r) = (opcode, b, push_vch b) # ops_of r"
    by (rule ops_of_push_vch)
  with assms show ?thesis by (auto simp: pushed_def opcodes)
qed

lemma p2pkh_not_p2sh [simp]: "\<not> IsPayToScriptHash (p2pkh h)"
  by (simp add: IsPayToScriptHash_def p2pkh_def push_opcode_def push_uint160_def opcodes)

end
