(* ===== verification/Examples.thy ===== *)
theory Examples
  imports Spend
begin

text \<open>
  Concrete transactions for the witnesses, over the reference instance \<open>ref_ext\<close> of the
  linked libraries: a previous transaction paying to a key hash, and one spending it.
\<close>

definition ex_key :: bytes where "ex_key = replicate 33 2"

definition ex_sig :: bytes where "ex_sig = replicate 33 2 @ [1]"

definition ex_prev :: "bytes \<Rightarrow> CTransaction" where
  "ex_prev spk = \<lparr>nVersion = 1,
     vin = [\<lparr>prevout = \<lparr>out_hash = 7, out_n = 0\<rparr>, scriptSig = [], nSequence = - 1\<rparr>],
     vout = [\<lparr>nValue = 50, scriptPubKey = spk\<rparr>], nLockTime = 0\<rparr>"

definition ex_spend :: "bytes \<Rightarrow> bytes \<Rightarrow> CTransaction" where
  "ex_spend spk sig = \<lparr>nVersion = 1,
     vin = [\<lparr>prevout = \<lparr>out_hash = SerializeHash_tx ref_ext (ex_prev spk), out_n = 0\<rparr>,
             scriptSig = sig, nSequence = 0\<rparr>],
     vout = [\<lparr>nValue = 40, scriptPubKey = []\<rparr>], nLockTime = 5\<rparr>"

lemma ex_tx:
  "scriptSig (vin (ex_spend spk sig) ! 0) = sig"
  "out_hash (prevout (vin (ex_spend spk sig) ! 0)) = SerializeHash_tx ref_ext (ex_prev spk)"
  "unat (out_n (prevout (vin (ex_spend spk sig) ! 0))) = 0"
  "scriptPubKey (vout (ex_prev spk) ! 0) = spk" "length (vout (ex_prev spk)) = 1"
  "nLockTime (ex_spend spk sig) = 5" "nSequence (vin (ex_spend spk sig) ! 0) = 0"
  by (simp_all add: ex_spend_def ex_prev_def)

lemma ex_lengths [simp]: "length ex_key = 33" "length ex_sig = 34"
  by (simp_all add: ex_key_def ex_sig_def)

lemma ex_CheckSig:
  "CheckSig ref_ext ex_sig ex_key code tx n 0 False"
  by (simp add: CheckSig_def SigCheckEcdsa_def ref_ext_def ext_with_def ex_sig_def ex_key_def
      butlast_append Let_def)

lemma ex_push_two: "push_run ref_ext (ops_of (push_vch ex_sig @ push_vch ex_key)) [] = Some [ex_key, ex_sig]"
  using push_run_push_vch [of ex_key "[ex_sig]" ref_ext "[]"]
  by (simp add: MAX_SCRIPT_ELEMENT_SIZE_def MAX_STACK_SIZE_def)

lemma ex_push_two_only: "IsPushOnly (push_vch ex_sig @ push_vch ex_key)"
  using IsPushOnly_push_vch [of ex_key "[]"] by simp

definition ex_cx :: script_ctx where
  "ex_cx = script_ctx_of (ex_spend [] []) 0 0 False True True"

lemma ex_reach:
  "script_reach ref_ext ex_cx (script_start (push_vch ex_key))
     (script_start (push_vch ex_key)\<lparr>st_pc := [], st_stack := [ex_key]\<rparr>)"
proof -
  have "GetOp (push_vch ex_key) = Some (33, ex_key, [])"
    using GetOp_push_vch [of ex_key "[]"] by (simp add: opcodes)
  then have "eval_step ref_ext ex_cx (script_start (push_vch ex_key)) =
      Some (script_start (push_vch ex_key)\<lparr>st_pc := [], st_stack := [ex_key]\<rparr>)"
    by (subst eval_step_push [where opcode = 33 and v = ex_key and r = "[]"])
      (simp_all add: script_start_def opcodes pushed_def MAX_SCRIPT_ELEMENT_SIZE_def MAX_STACK_SIZE_def)
  then show ?thesis by (intro reach_step [OF reach_refl]) (simp_all add: script_start_def)
qed

lemma ex_p2pk_length: "length (p2pk ex_key) = 35"
  by (simp add: p2pk_def push_vch_def push_opcode_def opcodes)

lemma ex_p2sh_inner:
  "\<exists>inner p opcode redeem st.
     push_vch ex_sig @ push_vch (p2pk ex_key) = inner @ p \<and> IsPushOnly inner \<and>
     GetOp p = Some (opcode, redeem, []) \<and> opcode \<le> OP_16 \<and>
     push_run ref_ext (ops_of inner) [] = Some st \<and>
     length redeem \<le> MAX_SCRIPT_ELEMENT_SIZE \<and> opcode \<noteq> OP_RESERVED \<and>
     length st + 2 \<le> MAX_STACK_SIZE \<and>
     Hash160 ref_ext (pushed ref_ext opcode redeem) = Hash160 ref_ext (p2pk ex_key) \<and>
     Hash160 ref_ext redeem = Hash160 ref_ext (p2pk ex_key) \<and>
     accepts ref_ext (run_script ref_ext (script_ctx_of tx 0 0 False True True)
       (behind_separator st redeem))"
proof -
  have "GetOp (push_vch (p2pk ex_key)) = Some (35, p2pk ex_key, [])"
    using GetOp_push_vch [of "p2pk ex_key" "[]"] by (simp add: ex_p2pk_length opcodes)
  moreover have "push_run ref_ext (ops_of (push_vch ex_sig)) [] = Some [ex_sig]"
    using push_run_push_vch [of ex_sig "[]" ref_ext "[]"]
    by (simp add: MAX_SCRIPT_ELEMENT_SIZE_def MAX_STACK_SIZE_def)
  moreover have "IsPushOnly (push_vch ex_sig)" using IsPushOnly_push_vch [of ex_sig "[]"] by simp
  moreover have "accepts ref_ext (run_script ref_ext (script_ctx_of tx 0 0 False True True)
       (behind_separator [ex_sig] (p2pk ex_key)))"
    by (subst accepts_p2pk [OF openssl_bn_ref])
      (simp_all add: MAX_SCRIPT_ELEMENT_SIZE_def MAX_STACK_SIZE_def cx_CheckSig_def script_ctx_of_def
        ex_CheckSig)
  ultimately show ?thesis
    by (intro exI [of _ "push_vch ex_sig"] exI [of _ "push_vch (p2pk ex_key)"] exI [of _ "35::nat"]
        exI [of _ "p2pk ex_key"] exI [of _ "[ex_sig]"])
      (simp add: ex_p2pk_length opcodes pushed_def MAX_SCRIPT_ELEMENT_SIZE_def MAX_STACK_SIZE_def)
qed

end
