(* ===== verification/Rules.thy ===== *)
theory Rules
  imports Crypto
begin

text \<open>
  The rule switches of \<^verbatim>\<open>consensus.h\<close> and \<^verbatim>\<open>randomx_pow.cpp\<close>: which consensus rules
  apply to a block of a given time, and which bytes of its header the proof of work hashes.
  Block times are C's \<^verbatim>\<open>unsigned int\<close>, read as \<open>nat\<close>.  What the node was started with
  is \<open>net_params\<close>: \<^verbatim>\<open>IsTestNet()\<close>, the command-line switch \<^verbatim>\<open>nBenchRulesV4Time\<close>, and
  what \<^verbatim>\<open>EnsureKey\<close> gets from the RandomX library for each version of the proof of work: a
  verification VM, as the function it computes, or nothing when the library could not
  allocate one.
\<close>

record net_params =
  IsTestNet :: bool
  nBenchRulesV4Time :: nat
  vmVerify :: "nat \<Rightarrow> (bytes \<Rightarrow> bytes) option"

definition RULES_V2_TIME_MAINNET :: nat where "RULES_V2_TIME_MAINNET = 1789992000"
definition RULES_V2_TIME_TESTNET :: nat where "RULES_V2_TIME_TESTNET = 1789570800"
definition RULES_V3_TIME_MAINNET :: nat where "RULES_V3_TIME_MAINNET = 1795262400"
definition RULES_V3_TIME_TESTNET :: nat where "RULES_V3_TIME_TESTNET = 1792458000"
definition RULES_V4_TIME_MAINNET :: nat where "RULES_V4_TIME_MAINNET = 1798200000"
definition RULES_V4_TIME_TESTNET :: nat where "RULES_V4_TIME_TESTNET = 1795176000"
definition SWAPS_OPEN_TIME_MAINNET :: nat where "SWAPS_OPEN_TIME_MAINNET = 1798200000"
definition POW_V2_TIME_MAINNET :: nat where "POW_V2_TIME_MAINNET = 1789992000"
definition POW_V2_TIME_TESTNET :: nat where "POW_V2_TIME_TESTNET = 1789419600"

lemmas rule_times =
  RULES_V2_TIME_MAINNET_def RULES_V2_TIME_TESTNET_def RULES_V3_TIME_MAINNET_def
  RULES_V3_TIME_TESTNET_def RULES_V4_TIME_MAINNET_def RULES_V4_TIME_TESTNET_def
  SWAPS_OPEN_TIME_MAINNET_def POW_V2_TIME_MAINNET_def POW_V2_TIME_TESTNET_def

definition PoWV2Time :: "net_params \<Rightarrow> nat" where
  "PoWV2Time N = (if IsTestNet N then POW_V2_TIME_TESTNET else POW_V2_TIME_MAINNET)"

definition RulesV2Time :: "net_params \<Rightarrow> nat" where
  "RulesV2Time N = (if IsTestNet N then RULES_V2_TIME_TESTNET else RULES_V2_TIME_MAINNET)"

definition RulesV2Active :: "net_params \<Rightarrow> nat \<Rightarrow> bool" where
  "RulesV2Active N nBlockTime \<longleftrightarrow> RulesV2Time N \<le> nBlockTime"

definition RulesV3Time :: "net_params \<Rightarrow> nat" where
  "RulesV3Time N = (if IsTestNet N then RULES_V3_TIME_TESTNET else RULES_V3_TIME_MAINNET)"

definition RulesV3Active :: "net_params \<Rightarrow> nat \<Rightarrow> bool" where
  "RulesV3Active N nBlockTime =
    (let t = RulesV3Time N in t \<noteq> 0 \<and> t \<le> nBlockTime)"

definition RulesV4Time :: "net_params \<Rightarrow> nat" where
  "RulesV4Time N =
    (if IsTestNet N \<and> nBenchRulesV4Time N \<noteq> 0 then nBenchRulesV4Time N
     else if IsTestNet N then RULES_V4_TIME_TESTNET else RULES_V4_TIME_MAINNET)"

definition RulesV4Active :: "net_params \<Rightarrow> nat \<Rightarrow> bool" where
  "RulesV4Active N nBlockTime =
    (let t = RulesV4Time N in t \<noteq> 0 \<and> t \<le> nBlockTime \<and> RulesV3Active N nBlockTime)"

definition SwapsOpenTimeFor :: "bool \<Rightarrow> nat" where
  "SwapsOpenTimeFor fTestNetwork =
    (let t = (if fTestNetwork then RULES_V3_TIME_TESTNET else RULES_V3_TIME_MAINNET)
     in if t = 0 \<or> fTestNetwork then t
        else if SWAPS_OPEN_TIME_MAINNET < t then t else SWAPS_OPEN_TIME_MAINNET)"

definition SwapsOpenTime :: "net_params \<Rightarrow> nat" where
  "SwapsOpenTime N = SwapsOpenTimeFor (IsTestNet N)"

definition SwapsOpen :: "net_params \<Rightarrow> nat \<Rightarrow> bool" where
  "SwapsOpen N nTime =
    (let t = SwapsOpenTime N in t \<noteq> 0 \<and> RulesV3Active N nTime \<and> t \<le> nTime)"

definition PoWVersionAt :: "net_params \<Rightarrow> nat \<Rightarrow> nat" where
  "PoWVersionAt N nTime = (if PoWV2Time N \<le> nTime then 2 else 1)"

section \<open>The input of the proof of work\<close>

definition POW_INPUT_V2_SIZE :: nat where "POW_INPUT_V2_SIZE = 83"

text \<open>The header is its 80 serialized bytes; \<open>memcpy(out, h + i, n)\<close> is \<open>take n (drop i h)\<close>.\<close>

definition PoWInputV2 :: "bytes \<Rightarrow> bytes" where
  "PoWInputV2 h =
    take 36 h @ replicate 3 0 @ take 4 (drop 76 h) @ take 32 (drop 36 h) @ take 8 (drop 68 h)"

definition PoWInputFromHeader :: "net_params \<Rightarrow> bytes \<Rightarrow> bytes \<times> nat" where
  "PoWInputFromHeader N h =
    (let nTime = le_nat (take 4 (drop 68 h));
         v = PoWVersionAt N nTime
     in if v = 2 then (PoWInputV2 h, v) else (take 80 h, v))"

text \<open>Without a verification VM the hash of every input is zero.\<close>

definition EnsureKey :: "net_params \<Rightarrow> nat \<Rightarrow> (bytes \<Rightarrow> bytes) option" where
  "EnsureKey N version = (if version < 1 \<or> 2 < version then None else vmVerify N version)"

definition RandomXPoWHash :: "net_params \<Rightarrow> nat \<Rightarrow> bytes \<Rightarrow> uint256" where
  "RandomXPoWHash N version data =
    (case EnsureKey N version of None \<Rightarrow> 0 | Some hash \<Rightarrow> uint256_of_bytes (hash data))"

definition PoWHashHeader :: "net_params \<Rightarrow> bytes \<Rightarrow> uint256" where
  "PoWHashHeader N h =
    (let (input, v) = PoWInputFromHeader N h in RandomXPoWHash N v input)"

section \<open>The rules nest\<close>

lemma RulesV3_V2: "RulesV3Active N t \<Longrightarrow> RulesV2Active N t"
  by (auto simp: RulesV3Active_def RulesV3Time_def RulesV2Active_def RulesV2Time_def rule_times
      Let_def split: if_split_asm)

lemma RulesV4_V3: "RulesV4Active N t \<Longrightarrow> RulesV3Active N t"
  by (simp add: RulesV4Active_def Let_def)

lemma RulesV2_PoWV2: "RulesV2Active N t \<Longrightarrow> PoWVersionAt N t = 2"
  by (auto simp: RulesV2Active_def RulesV2Time_def PoWVersionAt_def PoWV2Time_def rule_times
      split: if_split_asm)

lemma RulesV2_mono: "RulesV2Active N t \<Longrightarrow> t \<le> u \<Longrightarrow> RulesV2Active N u"
  by (simp add: RulesV2Active_def)

lemma RulesV3_mono: "RulesV3Active N t \<Longrightarrow> t \<le> u \<Longrightarrow> RulesV3Active N u"
  by (simp add: RulesV3Active_def Let_def)

lemma RulesV4_mono: "RulesV4Active N t \<Longrightarrow> t \<le> u \<Longrightarrow> RulesV4Active N u"
  by (auto simp: RulesV4Active_def Let_def intro: RulesV3_mono)

lemma SwapsOpen_V3: "SwapsOpen N t \<Longrightarrow> RulesV3Active N t"
  by (simp add: SwapsOpen_def Let_def)

lemma SwapsOpen_V4_mainnet: "\<not> IsTestNet N \<Longrightarrow> SwapsOpen N t \<longleftrightarrow> RulesV4Active N t"
  by (auto simp: SwapsOpen_def SwapsOpenTime_def SwapsOpenTimeFor_def RulesV4Active_def
      RulesV4Time_def RulesV3Active_def RulesV3Time_def rule_times Let_def)

section \<open>The proof-of-work input determines the header\<close>

lemma split_header:
  assumes "length h = 80"
  shows "h = take 36 h @ take 32 (drop 36 h) @ take 8 (drop 68 h) @ take 4 (drop 76 h)"
proof -
  have "h = take 36 h @ drop 36 h" by simp
  also have "drop 36 h = take 32 (drop 36 h) @ drop 68 h"
    using append_take_drop_id [of 32 "drop 36 h"] by simp
  also have "drop 68 h = take 8 (drop 68 h) @ drop 76 h"
    using append_take_drop_id [of 8 "drop 68 h"] by simp
  also have "drop 76 h = take 4 (drop 76 h)"
    using assms by simp
  finally show ?thesis .
qed

lemma length_PoWInputV2: "length h = 80 \<Longrightarrow> length (PoWInputV2 h) = POW_INPUT_V2_SIZE"
  by (simp add: PoWInputV2_def POW_INPUT_V2_SIZE_def)

lemma PoWInputV2_inject:
  assumes "length h = 80" "length h' = 80" "PoWInputV2 h = PoWInputV2 h'"
  shows "h = h'"
proof -
  have "take 36 h = take 36 h' \<and> take 4 (drop 76 h) = take 4 (drop 76 h') \<and>
      take 32 (drop 36 h) = take 32 (drop 36 h') \<and> take 8 (drop 68 h) = take 8 (drop 68 h')"
    using assms by (simp add: PoWInputV2_def)
  then show ?thesis
    using split_header [OF assms(1)] split_header [OF assms(2)] by metis
qed

text \<open>Bytes 39 to 42 of the second version's input are the nonce.\<close>

lemma PoWInputV2_nonce:
  "length h = 80 \<Longrightarrow> take 4 (drop 39 (PoWInputV2 h)) = drop 76 h"
  by (simp add: PoWInputV2_def)

end
