(* ===== verification/Merkle.thy ===== *)
theory Merkle
  imports Crypto
begin

text \<open>
  The Merkle tree of a block (\<^verbatim>\<open>CBlock::BuildMerkleTree\<close>, \<^verbatim>\<open>GetMerkleBranch\<close> and
  \<^verbatim>\<open>CheckMerkleBranch\<close>).  The code keeps all the levels in one vector \<^verbatim>\<open>vMerkleTree\<close>, the
  leaves first, and addresses a level by its offset; the definitions do the same.  The
  lemmas then read the vector level by level, show that a branch of the tree checks, that
  a branch which checks belongs to the tree unless two different pairs of the computation
  hash alike, and which lists of leaves share a root.
\<close>

unbundle bit_operations_syntax

definition node_hash :: "ext \<Rightarrow> uint256 \<Rightarrow> uint256 \<Rightarrow> uint256" where
  "node_hash E a b = Hash2 E (bytes_of_uint256 a) (bytes_of_uint256 b)"

text \<open>
  One turn of the outer loop appends the row above the \<open>nSize\<close> entries at offset \<open>j\<close>; the
  inner loop's \<open>i\<close> runs over \<open>0, 2, 4, \<dots>\<close>.
\<close>

definition merkle_row_at :: "ext \<Rightarrow> uint256 list \<Rightarrow> nat \<Rightarrow> nat \<Rightarrow> uint256 list" where
  "merkle_row_at E vMerkleTree j nSize =
    map (\<lambda>k. let i = 2 * k; i2 = min (i + 1) (nSize - 1)
             in node_hash E (vMerkleTree ! (j + i)) (vMerkleTree ! (j + i2)))
      [0..<(nSize + 1) div 2]"

function merkle_loop :: "ext \<Rightarrow> uint256 list \<Rightarrow> nat \<Rightarrow> nat \<Rightarrow> uint256 list" where
  "merkle_loop E vMerkleTree j nSize =
    (if nSize \<le> 1 then vMerkleTree
     else merkle_loop E (vMerkleTree @ merkle_row_at E vMerkleTree j nSize) (j + nSize)
            ((nSize + 1) div 2))"
  by pat_completeness auto
termination
  by (relation "measure (\<lambda>(E, t, j, n). n)") auto

declare merkle_loop.simps [simp del]

text \<open>The tree, then the root that \<open>BuildMerkleTree\<close> returns.\<close>

definition merkle_tree :: "ext \<Rightarrow> uint256 list \<Rightarrow> uint256 list" where
  "merkle_tree E hashes = merkle_loop E hashes 0 (length hashes)"

definition BuildMerkleTree :: "ext \<Rightarrow> uint256 list \<Rightarrow> uint256" where
  "BuildMerkleTree E hashes =
    (let vMerkleTree = merkle_tree E hashes in if vMerkleTree = [] then 0 else last vMerkleTree)"

function branch_loop :: "uint256 list \<Rightarrow> nat \<Rightarrow> nat \<Rightarrow> nat \<Rightarrow> uint256 list" where
  "branch_loop vMerkleTree nIndex j nSize =
    (if nSize \<le> 1 then []
     else vMerkleTree ! (j + min (nIndex XOR 1) (nSize - 1)) #
       branch_loop vMerkleTree (nIndex div 2) (j + nSize) ((nSize + 1) div 2))"
  by pat_completeness auto
termination
  by (relation "measure (\<lambda>(t, i, j, n). n)") auto

declare branch_loop.simps [simp del]

text \<open>\<open>cached\<close> is the member \<^verbatim>\<open>vMerkleTree\<close> as the call finds it.\<close>

definition GetMerkleBranch :: "ext \<Rightarrow> uint256 list \<Rightarrow> uint256 list \<Rightarrow> nat \<Rightarrow> uint256 list" where
  "GetMerkleBranch E cached hashes nIndex =
    (let vMerkleTree = (if cached = [] then merkle_tree E hashes else cached)
     in branch_loop vMerkleTree nIndex 0 (length hashes))"

text \<open>
  The index is a C \<^verbatim>\<open>int\<close>; shifting a negative one other than -1 keeps its sign, which the
  parity test reads as two's complement.
\<close>

fun check_loop :: "ext \<Rightarrow> uint256 \<Rightarrow> uint256 list \<Rightarrow> int \<Rightarrow> uint256" where
  "check_loop E hash [] nIndex = hash"
| "check_loop E hash (otherside # rest) nIndex =
    check_loop E
      (if odd nIndex then node_hash E otherside hash else node_hash E hash otherside)
      rest (nIndex div 2)"

definition CheckMerkleBranch :: "ext \<Rightarrow> uint256 \<Rightarrow> uint256 list \<Rightarrow> int \<Rightarrow> uint256" where
  "CheckMerkleBranch E hash vMerkleBranch nIndex =
    (if nIndex = - 1 then 0 else check_loop E hash vMerkleBranch nIndex)"

text \<open>The same on natural indices.\<close>

fun check_branch :: "ext \<Rightarrow> uint256 \<Rightarrow> uint256 list \<Rightarrow> nat \<Rightarrow> uint256" where
  "check_branch E hash [] nIndex = hash"
| "check_branch E hash (otherside # rest) nIndex =
    (if odd nIndex then check_branch E (node_hash E otherside hash) rest (nIndex div 2)
     else check_branch E (node_hash E hash otherside) rest (nIndex div 2))"

lemma check_branch_int: "check_loop E h br (int n) = check_branch E h br n"
proof (induction br arbitrary: h n)
  case Nil
  then show ?case by simp
next
  case (Cons x br)
  have "int n div 2 = int (n div 2)" by simp
  then show ?case
    by (cases "even n")
      (simp_all only: check_loop.simps check_branch.simps even_of_nat Cons.IH not_True_eq_False
        not_False_eq_True if_True if_False)
qed

lemma CheckMerkleBranch_nat: "CheckMerkleBranch E h br (int n) = check_branch E h br n"
  by (simp add: CheckMerkleBranch_def check_branch_int)

section \<open>Level by level\<close>

fun row :: "ext \<Rightarrow> uint256 list \<Rightarrow> uint256 list" where
  "row E [] = []"
| "row E [a] = [node_hash E a a]"
| "row E (a # b # r) = node_hash E a b # row E r"

lemma length_row [simp]: "length (row E hs) = (length hs + 1) div 2"
  by (induction E hs rule: row.induct) simp_all

lemma nth_row:
  "k < (length hs + 1) div 2 \<Longrightarrow>
    row E hs ! k = node_hash E (hs ! (2 * k)) (hs ! min (2 * k + 1) (length hs - 1))"
proof (induction E hs arbitrary: k rule: row.induct)
  case (3 E a b r)
  show ?case
  proof (cases k)
    case (Suc i)
    then have i: "i < (length r + 1) div 2" using 3(2) by simp
    then have "r \<noteq> []" by auto
    then have "(a # b # r) ! min (2 * k + 1) (length (a # b # r) - 1)
        = r ! min (2 * i + 1) (length r - 1)"
      by (cases "2 * i + 1 \<le> length r - 1") (auto simp: Suc min_def)
    then show ?thesis using 3(1) [OF i] Suc by simp
  qed simp
qed simp_all

function levels :: "ext \<Rightarrow> uint256 list \<Rightarrow> uint256 list" where
  "levels E hs = (if length hs \<le> 1 then hs else hs @ levels E (row E hs))"
  by pat_completeness auto
termination
  by (relation "measure (\<lambda>(E, hs). length hs)") auto

declare levels.simps [simp del]

lemma row_at:
  "merkle_row_at E (pre @ hs) (length pre) (length hs) = row E hs"
  by (rule nth_equalityI) (auto simp: merkle_row_at_def Let_def nth_row nth_append)

lemma merkle_loop_levels:
  "merkle_loop E (pre @ hs) (length pre) (length hs) = pre @ levels E hs"
proof (induction E hs arbitrary: pre rule: levels.induct)
  case (1 E hs)
  show ?case
  proof (cases "length hs \<le> 1")
    case True
    then show ?thesis by (simp add: merkle_loop.simps [of E "pre @ hs"] levels.simps [of E hs])
  next
    case False
    have "merkle_loop E (pre @ hs) (length pre) (length hs) =
        merkle_loop E ((pre @ hs) @ row E hs) (length (pre @ hs)) (length (row E hs))"
      using False by (subst merkle_loop.simps) (simp add: row_at)
    also have "\<dots> = (pre @ hs) @ levels E (row E hs)"
      by (rule 1 [OF False])
    finally show ?thesis using False by (simp add: levels.simps [of E hs])
  qed
qed

lemma merkle_tree_levels: "merkle_tree E hs = levels E hs"
  using merkle_loop_levels [of E "[]" hs] by (simp add: merkle_tree_def)

function root :: "ext \<Rightarrow> uint256 list \<Rightarrow> uint256" where
  "root E hs = (if hs = [] then 0 else if length hs = 1 then hd hs else root E (row E hs))"
  by pat_completeness auto
termination
proof (relation "measure (\<lambda>(E, hs). length hs)")
  fix E :: ext and hs :: "uint256 list"
  assume "hs \<noteq> []" "length hs \<noteq> 1"
  then have "1 < length hs" by (cases hs) auto
  then show "((E, row E hs), (E, hs)) \<in> measure (\<lambda>(E, hs). length hs)" by simp
qed simp

declare root.simps [simp del]

lemma row_eq_Nil [simp]: "row E hs = [] \<longleftrightarrow> hs = []"
  by (induction E hs rule: row.induct) simp_all

lemma levels_eq_Nil [simp]: "levels E hs = [] \<longleftrightarrow> hs = []"
  by (subst levels.simps) auto

lemma last_levels: "hs \<noteq> [] \<Longrightarrow> last (levels E hs) = root E hs"
proof (induction E hs rule: levels.induct)
  case (1 E hs)
  show ?case
  proof (cases "length hs \<le> 1")
    case True
    with 1(2) have "length hs = 1" by (cases hs) auto
    then show ?thesis using 1(2) by (cases hs) (simp_all add: levels.simps root.simps)
  next
    case False
    then show ?thesis
      using 1 by (subst levels.simps, subst root.simps) auto
  qed
qed

lemma BuildMerkleTree_root: "BuildMerkleTree E hs = root E hs"
proof (cases "hs = []")
  case True
  then show ?thesis by (simp add: BuildMerkleTree_def merkle_tree_levels root.simps)
next
  case False
  then show ?thesis by (simp add: BuildMerkleTree_def merkle_tree_levels last_levels)
qed

section \<open>Branches\<close>

function branch_of :: "ext \<Rightarrow> uint256 list \<Rightarrow> nat \<Rightarrow> uint256 list" where
  "branch_of E hs i =
    (if length hs \<le> 1 then []
     else hs ! min (i XOR 1) (length hs - 1) # branch_of E (row E hs) (i div 2))"
  by pat_completeness auto
termination
  by (relation "measure (\<lambda>(E, hs, i). length hs)") auto

declare branch_of.simps [simp del]

lemma branch_loop_levels:
  "branch_loop (pre @ levels E hs) i (length pre) (length hs) = branch_of E hs i"
proof (induction E hs i arbitrary: pre rule: branch_of.induct)
  case (1 E hs i)
  show ?case
  proof (cases "length hs \<le> 1")
    case True
    then show ?thesis by (simp add: branch_loop.simps [of _ i] branch_of.simps [of E hs])
  next
    case False
    have lev: "levels E hs = hs @ levels E (row E hs)" using False by (simp add: levels.simps [of E hs])
    have "branch_loop (pre @ levels E hs) i (length pre) (length hs) =
        hs ! min (i XOR 1) (length hs - 1) #
        branch_loop ((pre @ hs) @ levels E (row E hs)) (i div 2) (length (pre @ hs)) (length (row E hs))"
      using False by (subst branch_loop.simps) (auto simp: lev nth_append)
    also have "\<dots> = hs ! min (i XOR 1) (length hs - 1) # branch_of E (row E hs) (i div 2)"
      by (simp only: 1 [OF False])
    finally show ?thesis using False by (simp add: branch_of.simps [of E hs])
  qed
qed

lemma GetMerkleBranch_of:
  "cached = [] \<or> cached = merkle_tree E hs \<Longrightarrow> GetMerkleBranch E cached hs i = branch_of E hs i"
  using branch_loop_levels [of "[]" E hs i] by (auto simp: GetMerkleBranch_def merkle_tree_levels)

lemma xor_1_nat: "i XOR Suc 0 = (if even i then Suc i else i - Suc 0)"
  by (simp add: xor_Suc_0_eq)

text \<open>The pair hashed above position \<open>i\<close>, seen from \<open>i\<close> and its neighbour.\<close>

lemma row_parent:
  assumes "i < length hs"
  shows "row E hs ! (i div 2) =
    (let other = hs ! min (i XOR 1) (length hs - 1)
     in if odd i then node_hash E other (hs ! i) else node_hash E (hs ! i) other)"
proof (cases "even i")
  case True
  then have "2 * (i div 2) = i" by simp
  moreover have "i div 2 < (length hs + 1) div 2" using assms by linarith
  ultimately show ?thesis
    using assms True nth_row [of "i div 2" hs E] by (simp add: Let_def xor_1_nat)
next
  case False
  then have e: "2 * (i div 2) = i - 1" "2 * (i div 2) + 1 = i" by presburger+
  moreover have "i div 2 < (length hs + 1) div 2" using assms e by linarith
  moreover have "min (i - Suc 0) (length hs - Suc 0) = i - Suc 0" "min i (length hs - Suc 0) = i"
    using assms by simp_all
  ultimately show ?thesis
    using assms False nth_row [of "i div 2" hs E] by (simp add: Let_def xor_1_nat)
qed

lemma branch_checks:
  "i < length hs \<Longrightarrow> check_branch E (hs ! i) (branch_of E hs i) i = root E hs"
proof (induction E hs i rule: branch_of.induct)
  case (1 E hs i)
  show ?case
  proof (cases "length hs \<le> 1")
    case True
    then show ?thesis using 1(2) by (cases hs) (simp_all add: branch_of.simps root.simps)
  next
    case False
    have "root E hs = root E (row E hs)"
      using False by (subst root.simps) auto
    also have "\<dots> = check_branch E (row E hs ! (i div 2)) (branch_of E (row E hs) (i div 2)) (i div 2)"
      by (rule 1(1) [OF False, symmetric]) (use 1(2) in simp)
    finally show ?thesis
      using False 1(2) by (subst branch_of.simps) (simp add: row_parent Let_def)
  qed
qed

section \<open>A branch that checks belongs to the tree\<close>

fun row_pairs :: "uint256 list \<Rightarrow> (uint256 \<times> uint256) list" where
  "row_pairs [] = []"
| "row_pairs [a] = [(a, a)]"
| "row_pairs (a # b # r) = (a, b) # row_pairs r"

text \<open>Every pair hashed when the tree is built, and every pair hashed when a branch is checked.\<close>

function tree_pairs :: "ext \<Rightarrow> uint256 list \<Rightarrow> (uint256 \<times> uint256) list" where
  "tree_pairs E hs = (if length hs \<le> 1 then [] else row_pairs hs @ tree_pairs E (row E hs))"
  by pat_completeness auto
termination
  by (relation "measure (\<lambda>(E, hs). length hs)") auto

declare tree_pairs.simps [simp del]

fun branch_pairs :: "ext \<Rightarrow> uint256 \<Rightarrow> uint256 list \<Rightarrow> nat \<Rightarrow> (uint256 \<times> uint256) list" where
  "branch_pairs E h [] i = []"
| "branch_pairs E h (x # br) i =
    (let p = (if odd i then (x, h) else (h, x))
     in p # branch_pairs E (node_hash E (fst p) (snd p)) br (i div 2))"

definition collision :: "ext \<Rightarrow> (uint256 \<times> uint256) list \<Rightarrow> (uint256 \<times> uint256) list \<Rightarrow> bool" where
  "collision E ps qs \<longleftrightarrow>
    (\<exists>p \<in> set ps. \<exists>q \<in> set qs. p \<noteq> q \<and> node_hash E (fst p) (snd p) = node_hash E (fst q) (snd q))"

lemma row_map: "row E hs = map (\<lambda>p. node_hash E (fst p) (snd p)) (row_pairs hs)"
  by (induction hs rule: row_pairs.induct) simp_all

lemma length_row_pairs [simp]: "length (row_pairs hs) = (length hs + 1) div 2"
  by (induction hs rule: row_pairs.induct) simp_all

lemma nth_row_pairs:
  "k < (length hs + 1) div 2 \<Longrightarrow>
    row_pairs hs ! k = (hs ! (2 * k), hs ! min (2 * k + 1) (length hs - 1))"
proof (induction hs arbitrary: k rule: row_pairs.induct)
  case (3 a b r)
  show ?case
  proof (cases k)
    case (Suc i)
    then have i: "i < (length r + 1) div 2" using 3(2) by simp
    then have "r \<noteq> []" by auto
    then have "(a # b # r) ! min (2 * k + 1) (length (a # b # r) - 1)
        = r ! min (2 * i + 1) (length r - 1)"
      by (cases "2 * i + 1 \<le> length r - 1") (auto simp: Suc min_def)
    then show ?thesis using 3(1) [OF i] Suc by simp
  qed simp
qed simp_all

lemma row_pairs_parent:
  assumes "i < length hs"
  shows "row_pairs hs ! (i div 2) =
    (let other = hs ! min (i XOR 1) (length hs - 1)
     in if odd i then (other, hs ! i) else (hs ! i, other))"
proof (cases "even i")
  case True
  then have "2 * (i div 2) = i" by simp
  moreover have "i div 2 < (length hs + 1) div 2" using assms by linarith
  ultimately show ?thesis
    using assms True nth_row_pairs [of "i div 2" hs] by (simp add: Let_def xor_1_nat)
next
  case False
  then have e: "2 * (i div 2) = i - 1" "2 * (i div 2) + 1 = i" by presburger+
  moreover have "i div 2 < (length hs + 1) div 2" using assms e by linarith
  moreover have "min (i - Suc 0) (length hs - Suc 0) = i - Suc 0" "min i (length hs - Suc 0) = i"
    using assms by simp_all
  ultimately show ?thesis
    using assms False nth_row_pairs [of "i div 2" hs] by (simp add: Let_def xor_1_nat)
qed

lemma branch_sound:
  "i < length hs \<Longrightarrow> length br = length (branch_of E hs i) \<Longrightarrow> check_branch E h br i = root E hs \<Longrightarrow>
    h = hs ! i \<and> br = branch_of E hs i \<or> collision E (tree_pairs E hs) (branch_pairs E h br i)"
proof (induction E hs i arbitrary: h br rule: branch_of.induct)
  case (1 E hs i)
  show ?case
  proof (cases "length hs \<le> 1")
    case True
    then show ?thesis using 1(2-4) by (cases hs) (simp_all add: branch_of.simps root.simps)
  next
    case False
    define other where "other = hs ! min (i XOR 1) (length hs - 1)"
    have br0: "branch_of E hs i = other # branch_of E (row E hs) (i div 2)"
      using False by (simp add: branch_of.simps [of E hs] other_def)
    then obtain x br' where br: "br = x # br'" "length br' = length (branch_of E (row E hs) (i div 2))"
      using 1(3) by (cases br) auto
    define p where "p = (if odd i then (x, h) else (h, x))"
    define n where "n = node_hash E (fst p) (snd p)"
    have step: "check_branch E h br i = check_branch E n br' (i div 2)"
      and pairs: "branch_pairs E h br i = p # branch_pairs E n br' (i div 2)"
      by (simp_all add: br n_def p_def Let_def)
    have root: "root E hs = root E (row E hs)" using False by (subst root.simps) auto
    have tp: "tree_pairs E hs = row_pairs hs @ tree_pairs E (row E hs)"
      using False by (simp add: tree_pairs.simps [of E hs])
    define q where "q = row_pairs hs ! (i div 2)"
    have i2: "i div 2 < (length hs + 1) div 2" using 1(2) by linarith
    have mem: "q \<in> set (row_pairs hs)" using i2 by (simp add: q_def)
    have q: "q = (if odd i then (other, hs ! i) else (hs ! i, other))"
      "row E hs ! (i div 2) = node_hash E (fst q) (snd q)"
      using i2 1(2) by (simp_all add: q_def row_pairs_parent other_def Let_def row_map)
    have "n = row E hs ! (i div 2) \<and> br' = branch_of E (row E hs) (i div 2) \<or>
        collision E (tree_pairs E (row E hs)) (branch_pairs E n br' (i div 2))"
      by (rule 1(1) [OF False]) (use i2 br 1(4) step root in simp_all)
    then consider "collision E (tree_pairs E (row E hs)) (branch_pairs E n br' (i div 2))"
      | "p = q" "br' = branch_of E (row E hs) (i div 2)" | "p \<noteq> q" "n = node_hash E (fst q) (snd q)"
      using q(2) by auto
    then show ?thesis
    proof cases
      case 1
      then have "collision E (tree_pairs E hs) (branch_pairs E h br i)"
        unfolding collision_def tp pairs by (metis Un_iff set_append list.set_intros(2))
      then show ?thesis by simp
    next
      case 2
      then show ?thesis using q(1) by (auto simp: p_def br br0 split: if_split_asm)
    next
      case 3
      then have "collision E (tree_pairs E hs) (branch_pairs E h br i)"
        unfolding collision_def tp pairs using mem
        by (intro bexI [of _ q] bexI [of _ p]) (auto simp: n_def)
      then show ?thesis by simp
    qed
  qed
qed

section \<open>Which leaves share a root\<close>

text \<open>
  A level of odd width hashes its last entry with itself, so repeating the last leaf of an
  odd number of leaves does not change the root: the reason \<open>CheckBlock\<close> refuses a
  transaction that occurs twice.
\<close>

lemma row_repeat: "odd (length hs) \<Longrightarrow> row E (hs @ [last hs]) = row E hs"
  by (induction E hs rule: row.induct) auto

lemma root_repeat:
  assumes "odd (length hs)" "1 < length hs"
  shows "root E (hs @ [last hs]) = root E hs"
proof -
  have "root E (hs @ [last hs]) = root E (row E (hs @ [last hs]))"
    using assms(2) by (subst root.simps) auto
  also have "\<dots> = root E (row E hs)" by (simp only: row_repeat [OF assms(1)])
  also have "\<dots> = root E hs" using assms(2) by (subst (2) root.simps) auto
  finally show ?thesis .
qed

text \<open>The number of levels above the leaves.\<close>

function depth :: "nat \<Rightarrow> nat" where
  "depth n = (if n \<le> 1 then 0 else Suc (depth ((n + 1) div 2)))"
  by pat_completeness auto
termination
  by (relation "measure id") auto

declare depth.simps [simp del]

lemma length_branch_of: "length (branch_of E hs i) = depth (length hs)"
proof (induction E hs i rule: branch_of.induct)
  case (1 E hs i)
  then show ?case by (subst branch_of.simps, subst depth.simps) simp
qed

lemma row_pairs_distinct: "distinct hs \<Longrightarrow> distinct (row_pairs hs)"
proof -
  have "set (map fst (row_pairs hs)) \<subseteq> set hs" for hs
    by (induction hs rule: row_pairs.induct) auto
  then have sub: "x \<in> set (map fst (row_pairs hs)) \<Longrightarrow> x \<in> set hs" for x hs by blast
  have "distinct hs \<Longrightarrow> distinct (map fst (row_pairs hs))"
    using sub by (induction hs rule: row_pairs.induct) (auto dest!: sub)
  then show "distinct hs \<Longrightarrow> distinct (row_pairs hs)" by (simp add: distinct_map)
qed

lemma row_pairs_inject:
  "distinct hs \<Longrightarrow> distinct hs' \<Longrightarrow> row_pairs hs = row_pairs hs' \<Longrightarrow> hs = hs'"
proof (induction hs arbitrary: hs' rule: row_pairs.induct)
  case 1
  then show ?case by (cases hs' rule: row_pairs.cases) auto
next
  case (2 a)
  then show ?case by (cases hs' rule: row_pairs.cases) auto
next
  case (3 a b r)
  then show ?case by (cases hs' rule: row_pairs.cases) auto
qed

definition injective_pairs :: "ext \<Rightarrow> (uint256 \<times> uint256) list \<Rightarrow> bool" where
  "injective_pairs E ps \<longleftrightarrow> inj_on (\<lambda>p. node_hash E (fst p) (snd p)) (set ps)"

lemma injective_or_collision: "injective_pairs E ps \<or> collision E ps ps"
  unfolding injective_pairs_def collision_def inj_on_def by blast

lemma injective_subset: "injective_pairs E ps \<Longrightarrow> set qs \<subseteq> set ps \<Longrightarrow> injective_pairs E qs"
  by (auto simp: injective_pairs_def intro: inj_on_subset)

lemma row_distinct: "distinct hs \<Longrightarrow> injective_pairs E (row_pairs hs) \<Longrightarrow> distinct (row E hs)"
  by (simp add: row_map distinct_map row_pairs_distinct injective_pairs_def)

lemma row_inject:
  assumes "distinct hs" "distinct hs'" "injective_pairs E (row_pairs hs @ row_pairs hs')"
    and "row E hs = row E hs'"
  shows "hs = hs'"
proof -
  have "row_pairs hs = row_pairs hs'"
    using assms(3,4) unfolding row_map injective_pairs_def by (simp add: inj_on_map_eq_map)
  then show ?thesis by (rule row_pairs_inject [OF assms(1,2)])
qed

lemma root_inject:
  "distinct hs \<Longrightarrow> distinct hs' \<Longrightarrow> hs \<noteq> [] \<Longrightarrow> hs' \<noteq> [] \<Longrightarrow> depth (length hs) = depth (length hs') \<Longrightarrow>
    injective_pairs E (tree_pairs E hs @ tree_pairs E hs') \<Longrightarrow> root E hs = root E hs' \<Longrightarrow> hs = hs'"
proof (induction E hs arbitrary: hs' rule: levels.induct)
  case (1 E hs)
  show ?case
  proof (cases "length hs \<le> 1")
    case True
    then have "depth (length hs') = 0" using 1(6) by (simp add: depth.simps)
    then have "length hs' \<le> 1" by (subst (asm) depth.simps) (simp split: if_split_asm)
    with True show ?thesis
      using 1(4,5,8) by (cases hs; cases hs') (simp_all add: root.simps)
  next
    case False
    then have "depth (length hs') \<noteq> 0" using 1(6) by (simp add: depth.simps [of "length hs"])
    then have big: "1 < length hs'" by (subst (asm) depth.simps) (simp split: if_split_asm)
    have pairs: "tree_pairs E hs = row_pairs hs @ tree_pairs E (row E hs)"
      "tree_pairs E hs' = row_pairs hs' @ tree_pairs E (row E hs')"
      using False big by (simp_all add: tree_pairs.simps [of E hs] tree_pairs.simps [of E hs'])
    note inj = injective_subset [OF 1(7)]
    have "row E hs = row E hs'"
    proof (rule 1(1) [OF False])
      show "distinct (row E hs)" "distinct (row E hs')"
        by (rule row_distinct; use 1(2,3) in \<open>auto simp: pairs intro!: inj\<close>)+
      show "depth (length (row E hs)) = depth (length (row E hs'))"
        using 1(6) False big by (simp add: depth.simps [of "length hs"] depth.simps [of "length hs'"])
      show "injective_pairs E (tree_pairs E (row E hs) @ tree_pairs E (row E hs'))"
        by (rule inj) (auto simp: pairs)
      have "root E hs = root E (row E hs)" using False by (subst root.simps) auto
      moreover have "root E hs' = root E (row E hs')" using big by (subst root.simps) auto
      ultimately show "root E (row E hs) = root E (row E hs')" using 1(8) by simp
    qed (use 1(4,5) in simp_all)
    then show ?thesis
      by (intro row_inject [OF 1(2,3)]) (auto simp: pairs intro!: inj)
  qed
qed

lemma root_unique:
  assumes "distinct hs" "distinct hs'" "hs \<noteq> []" "hs' \<noteq> []" "depth (length hs) = depth (length hs')"
    and "root E hs = root E hs'"
  shows "hs = hs' \<or>
    collision E (tree_pairs E hs @ tree_pairs E hs') (tree_pairs E hs @ tree_pairs E hs')"
  using root_inject [OF assms(1-5) _ assms(6)] injective_or_collision by blast

end
