(* ===== verification/Pow.thy ===== *)
theory Pow
  imports Rules Transaction Bignum
begin

text \<open>
  Difficulty, time and subsidy (\<^verbatim>\<open>main.cpp\<close>, \<^verbatim>\<open>main.h\<close>).  A \<^verbatim>\<open>CBlockIndex*\<close> is the list
  of the index entries met by following \<^verbatim>\<open>pprev\<close> from it, itself first: the null pointer is
  the empty list and \<^verbatim>\<open>pprev\<close> is the tail.  \<^verbatim>\<open>pprev\<close> never changes once an entry has been
  linked, so this is the same data; \<^verbatim>\<open>pnext\<close>, which does change, is kept beside the index by
  the theory of the chain.
\<close>

record CBlockIndex =
  phashBlock :: uint256
  nFile :: u32
  nBlockPos :: u32
  nHeight :: int
  idx_nVersion :: int
  idx_hashMerkleRoot :: uint256
  idx_nTime :: u32
  idx_nBits :: u32
  idx_nNonce :: u32

type_synonym chain = "CBlockIndex list"

section \<open>Median time past\<close>

definition nMedianTimeSpan :: nat where "nMedianTimeSpan = 11"

definition GetMedianTimePast :: "chain \<Rightarrow> int" where
  "GetMedianTimePast pindex =
     (let times = sort (map (unat \<circ> idx_nTime) (take nMedianTimeSpan pindex))
      in int (times ! (length times div 2)))"

section \<open>Subsidy\<close>

text \<open>
  Shifting a 64-bit value by 64 places or more is undefined in C++: \<open>None\<close>.
\<close>

definition GetBlockValue :: "int \<Rightarrow> int \<Rightarrow> int option" where
  "GetBlockValue height nFees =
     (let halvings = height div 210000
      in if 0 \<le> halvings \<and> halvings < 64 then
           Some (i64 (drop_bit (nat halvings) (50 * COIN) + nFees))
         else None)"

section \<open>The next work\<close>

definition bnProofOfWorkLimit :: int where
  "bnProofOfWorkLimit = uint (drop_bit 12 (NOT 0 :: uint256))"

definition nTargetSpacing :: nat where "nTargetSpacing = 2 * 60"
definition nInterval :: nat where "nInterval = 30"
definition nTargetTimespan :: nat where "nTargetTimespan = nInterval * nTargetSpacing"

definition limit_timespan :: "nat \<Rightarrow> nat" where
  "limit_timespan nActualTimespan =
     (let t = (if nActualTimespan < nTargetTimespan div 4 then nTargetTimespan div 4
               else nActualTimespan)
      in if nTargetTimespan * 4 < t then nTargetTimespan * 4 else t)"

definition retarget :: "ext \<Rightarrow> nat \<Rightarrow> nat \<Rightarrow> nat" where
  "retarget E nBits nActualTimespan =
     (let bnNew = bn_quot (SetCompact E nBits * int nActualTimespan) (int nTargetTimespan);
          bnNew = (if bnProofOfWorkLimit < bnNew then bnProofOfWorkLimit else bnNew)
      in GetCompact E bnNew)"

definition nWindow :: "net_params \<Rightarrow> CBlockIndex \<Rightarrow> nat" where
  "nWindow N tip =
    (if RulesV2Active N (unat (idx_nTime tip)) then nInterval else nInterval - 1)"

text \<open>
  \<open>None\<close> is the failure of \<^verbatim>\<open>assert(pindexFirst)\<close>.  The loop that looks for \<^verbatim>\<open>pindexFirst\<close>
  follows \<^verbatim>\<open>pprev\<close> at most \<^verbatim>\<open>nWindow\<close> times.
\<close>

definition GetNextWorkRequired :: "ext \<Rightarrow> net_params \<Rightarrow> chain \<Rightarrow> nat option" where
  "GetNextWorkRequired E N pindexLast =
     (case pindexLast of
        [] \<Rightarrow> Some (GetCompact E bnProofOfWorkLimit)
      | tip # _ \<Rightarrow>
          if (nHeight tip + 1) mod int nInterval \<noteq> 0 then Some (unat (idx_nBits tip))
          else
            case drop (nWindow N tip) pindexLast of
              [] \<Rightarrow> None
            | first # _ \<Rightarrow>
                Some (retarget E (unat (idx_nBits tip))
                  (limit_timespan (unat (idx_nTime tip - idx_nTime first)))))"

section \<open>The median never goes back\<close>

lemma sorted_nth_le_iff:
  fixes m :: nat
  assumes "sorted xs" "i < length xs"
  shows "m \<le> xs ! i \<longleftrightarrow> length xs - i \<le> length (filter (\<lambda>x. m \<le> x) xs)"
  using assms
proof (induction xs arbitrary: i)
  case Nil
  then show ?case by simp
next
  case (Cons x xs)
  have all: "filter (\<lambda>y. m \<le> y) xs = xs" if "m \<le> x"
    using Cons.prems(1) that by (auto intro!: filter_True)
  show ?case
  proof (cases i)
    case 0
    have "\<not> Suc (length xs) \<le> length (filter (\<lambda>y. m \<le> y) xs)"
      by (simp add: not_le less_Suc_eq_le)
    with 0 all show ?thesis by auto
  next
    case (Suc j)
    show ?thesis
    proof (cases "m \<le> x")
      case True
      moreover have "m \<le> xs ! j"
        using Cons.prems True Suc by (auto intro: order_trans)
      ultimately show ?thesis using Suc all by simp
    next
      case False
      then show ?thesis using Cons Suc by simp
    qed
  qed
qed

lemma median_le_iff:
  fixes m :: nat
  assumes "xs \<noteq> []"
  shows "m \<le> sort xs ! (length xs div 2) \<longleftrightarrow>
    length xs - length xs div 2 \<le> length (filter (\<lambda>x. m \<le> x) xs)"
proof -
  have "length (filter (\<lambda>x. m \<le> x) (sort xs)) = length (filter (\<lambda>x. m \<le> x) xs)"
    by (metis filter_sort length_sort)
  then show ?thesis
    using sorted_nth_le_iff [of "sort xs" "length xs div 2" m] assms by simp
qed

lemma length_filter_take_Suc:
  "length (filter P (take (Suc n) xs)) \<le> Suc (length (filter P (take n xs)))"
proof (cases "n < length xs")
  case True
  then show ?thesis by (simp add: take_Suc_conv_app_nth)
next
  case False
  then show ?thesis by simp
qed

text \<open>Putting a value above the median on a window of the last \<open>k\<close> keeps the median.\<close>

lemma median_window_mono:
  fixes x :: nat
  assumes "xs \<noteq> []" "0 < k"
    and x: "sort (take k xs) ! (length (take k xs) div 2) \<le> x"
  shows "sort (take k xs) ! (length (take k xs) div 2)
    \<le> sort (take k (x # xs)) ! (length (take k (x # xs)) div 2)"
proof -
  define m where "m = sort (take k xs) ! (length (take k xs) div 2)"
  define f where "f ys = length (filter (\<lambda>y. m \<le> y) ys)" for ys
  have old: "length (take k xs) - length (take k xs) div 2 \<le> f (take k xs)"
    using median_le_iff [of "take k xs" m] assms(1,2) by (simp add: m_def f_def)
  obtain k' where k: "k = Suc k'" using assms(2) by (cases k) simp_all
  have new: "f (take k (x # xs)) = Suc (f (take k' xs))"
    using x by (simp add: k f_def m_def)
  have lost: "f (take k xs) \<le> Suc (f (take k' xs))"
    unfolding f_def k by (rule length_filter_take_Suc)
  have "length (take k (x # xs)) - length (take k (x # xs)) div 2 \<le> f (take k (x # xs))"
  proof (cases "k \<le> length xs")
    case True
    then show ?thesis using old lost new by (simp add: k)
  next
    case False
    then have "take k xs = xs" "take k' xs = xs" using k by simp_all
    then show ?thesis using old new False k by simp
  qed
  then show ?thesis
    using median_le_iff [of "take k (x # xs)" m] assms(2) by (simp add: m_def f_def k)
qed

lemma GetMedianTimePast_mono:
  assumes "c \<noteq> []" "GetMedianTimePast c \<le> int (unat (idx_nTime b))"
  shows "GetMedianTimePast c \<le> GetMedianTimePast (b # c)"
proof -
  let ?xs = "map (unat \<circ> idx_nTime) c"
  have "sort (take nMedianTimeSpan ?xs) ! (length (take nMedianTimeSpan ?xs) div 2)
      \<le> unat (idx_nTime b)"
    using assms(2) by (simp only: GetMedianTimePast_def Let_def of_nat_le_iff take_map length_sort)
  then have "sort (take nMedianTimeSpan ?xs) ! (length (take nMedianTimeSpan ?xs) div 2)
      \<le> sort (take nMedianTimeSpan (unat (idx_nTime b) # ?xs)) !
          (length (take nMedianTimeSpan (unat (idx_nTime b) # ?xs)) div 2)"
    by (intro median_window_mono) (use assms(1) in \<open>simp_all add: nMedianTimeSpan_def\<close>)
  moreover have "unat (idx_nTime b) # ?xs = map (unat \<circ> idx_nTime) (b # c)" by simp
  ultimately show ?thesis
    by (simp only: GetMedianTimePast_def Let_def of_nat_le_iff take_map length_sort)
qed

section \<open>The schedule of new coins\<close>

lemma GetBlockValue_defined:
  "0 \<le> h \<Longrightarrow> GetBlockValue h nFees \<noteq> None \<longleftrightarrow> h < 13440000"
  by (auto simp: GetBlockValue_def Let_def)

lemma GetBlockValue_value:
  assumes "0 \<le> h" "h < 13440000" "MoneyRange nFees"
  shows "GetBlockValue h nFees = Some (50 * COIN div 2 ^ nat (h div 210000) + nFees)"
proof -
  have le: "50 * COIN div 2 ^ k \<le> 50 * COIN" for k
    using zdiv_mono2 [of "50 * COIN" 1 "2 ^ k"] by (simp add: COIN_def)
  have ge: "0 \<le> 50 * COIN div 2 ^ k" for k
    by (simp add: COIN_def pos_imp_zdiv_nonneg_iff)
  have "in_i64 (50 * COIN div 2 ^ k + nFees)" for k
    using le [of k] ge [of k] assms(3) by (auto simp: in_i64_def MoneyRange_def MAX_MONEY_def COIN_def)
  moreover have "0 \<le> h div 210000" "h div 210000 < 64" using assms(1,2) by linarith+
  ultimately show ?thesis by (simp add: GetBlockValue_def Let_def drop_bit_eq_div i64_id)
qed

definition subsidy :: "nat \<Rightarrow> int" where
  "subsidy h = 50 * COIN div 2 ^ (h div 210000)"

lemma sum_const_period:
  fixes f :: "nat \<Rightarrow> int"
  assumes "0 < p"
  shows "(\<Sum>h<p * n. f (h div p)) = int p * (\<Sum>k<n. f k)"
proof (induction n)
  case 0
  then show ?case by simp
next
  case (Suc n)
  have split: "{..<p * Suc n} = {..<p * n} \<union> {p * n..<p * n + p}" by auto
  have "(\<Sum>h<p * Suc n. f (h div p)) = (\<Sum>h<p * n. f (h div p)) + (\<Sum>h=p * n..<p * n + p. f (h div p))"
    unfolding split by (rule sum.union_disjoint) auto
  also have "(\<Sum>h=p * n..<p * n + p. f (h div p)) = (\<Sum>h=p * n..<p * n + p. f n)"
  proof (rule sum.cong [OF refl])
    fix h assume "h \<in> {p * n..<p * n + p}"
    then have "h div p = n" using assms by (auto intro!: div_nat_eqI simp: algebra_simps)
    then show "f (h div p) = f n" by simp
  qed
  finally show ?case using Suc by (simp add: algebra_simps)
qed

lemma sum_subsidy: "(\<Sum>h<210000 * 64. subsidy h) = 2099999997690000"
proof -
  have "(\<Sum>h<210000 * 64. subsidy h) = 210000 * (\<Sum>k<64. 50 * COIN div 2 ^ k)"
    unfolding subsidy_def by (subst sum_const_period) simp_all
  also have "(\<Sum>k<64. 50 * COIN div 2 ^ k) = 9999999989"
    by (simp add: COIN_def lessThan_nat_numeral lessThan_Suc)
  finally show ?thesis by simp
qed

section \<open>One retarget moves the target by at most a factor of four\<close>

lemma limit_timespan_bounds [bounds]: "900 \<le> limit_timespan t" "limit_timespan t \<le> 14400"
  by (simp_all add: limit_timespan_def Let_def nTargetTimespan_def nInterval_def nTargetSpacing_def)

lemma limit_timespan_id: "900 \<le> t \<Longrightarrow> t \<le> 14400 \<Longrightarrow> limit_timespan t = t"
  by (simp add: limit_timespan_def Let_def nTargetTimespan_def nInterval_def nTargetSpacing_def)

lemma limit_timespan_long: "14400 \<le> t \<Longrightarrow> limit_timespan t = 14400"
  by (simp add: limit_timespan_def nTargetTimespan_def nInterval_def nTargetSpacing_def Let_def)

lemma bnProofOfWorkLimit_value: "bnProofOfWorkLimit = 2 ^ 244 - 1"
  by (simp add: bnProofOfWorkLimit_def mask_eq_exp_minus_1)

lemma below_limit_length: "0 \<le> x \<Longrightarrow> x \<le> bnProofOfWorkLimit \<Longrightarrow> length (mpi_body x) < 256"
  using length_mpi_body_le [of x 31] by (simp add: bnProofOfWorkLimit_value nat_less_iff)

definition raw_target :: "ext \<Rightarrow> nat \<Rightarrow> nat \<Rightarrow> int" where
  "raw_target E nBits t = min bnProofOfWorkLimit (SetCompact E nBits * int t div 3600)"

context openssl_bn
begin

lemma compact_loss:
  assumes "0 \<le> x" "length (mpi_body x) < 256"
  shows "256 * (x - SetCompact E (GetCompact E x)) \<le> x"
proof -
  define L where "L = length (mpi_body x)"
  have eq: "x - SetCompact E (GetCompact E x) = x mod 256 ^ (L - 3)"
    using SetCompact_GetCompact [OF assms] by (simp add: L_def)
  show ?thesis
  proof (cases "L \<le> 3")
    case True
    then show ?thesis using assms(1) eq by simp
  next
    case False
    then obtain k where k: "L = k + 3" "0 < k"
      by (metis add.commute le_Suc_ex less_or_eq_imp_le nat_add_left_cancel_less nle_le
          not_less add_0 linorder_not_le)
    have "\<not> nat \<bar>x\<bar> < 256 ^ Suc k"
      using length_mpi_body_le [of x "Suc k"] k by (auto simp: L_def)
    then have "256 ^ Suc k \<le> x" using assms(1) by (simp add: nat_less_iff)
    moreover have "256 * (x mod 256 ^ k) \<le> 256 ^ Suc k" by (simp add: less_imp_le)
    ultimately show ?thesis using eq k by simp
  qed
qed

lemma retarget_raw:
  "0 \<le> SetCompact E nBits \<Longrightarrow> retarget E nBits t = GetCompact E (raw_target E nBits t)"
  by (simp add: retarget_def Let_def bn_quot_nonneg raw_target_def min_def nTargetTimespan_def
      nInterval_def nTargetSpacing_def)

lemma retarget_bounds:
  assumes old: "0 \<le> SetCompact E nBits" "SetCompact E nBits \<le> bnProofOfWorkLimit"
    and t: "900 \<le> t" "t \<le> 14400"
  shows "SetCompact E (retarget E nBits t) \<le> bnProofOfWorkLimit"
    and "SetCompact E (retarget E nBits t) \<le> 4 * SetCompact E nBits"
    and "255 * (SetCompact E nBits div 4) \<le> 256 * SetCompact E (retarget E nBits t)"
proof -
  define x where "x = SetCompact E nBits"
  define r where "r = raw_target E nBits t"
  have "x * int t \<le> x * 14400" "x * 900 \<le> x * int t"
    using old t by (simp_all add: x_def mult_left_mono)
  then have up: "x * int t div 3600 \<le> 4 * x" and lo: "x div 4 \<le> x * int t div 3600" by linarith+
  have r: "r = min bnProofOfWorkLimit (x * int t div 3600)" by (simp add: r_def raw_target_def x_def)
  have r0: "0 \<le> r" using old lo by (simp add: r x_def bnProofOfWorkLimit_value)
  have len: "length (mpi_body r) < 256" by (rule below_limit_length [OF r0]) (simp add: r)
  have new: "SetCompact E (retarget E nBits t) = SetCompact E (GetCompact E r)"
    by (simp add: retarget_raw old r_def)
  have down: "SetCompact E (GetCompact E r) \<le> r" by (rule compact_rounds_down [OF r0 len])
  have loss: "256 * (r - SetCompact E (GetCompact E r)) \<le> r" by (rule compact_loss [OF r0 len])
  have "x div 4 \<le> r" using lo old by (simp add: r x_def)
  then show "255 * (SetCompact E nBits div 4) \<le> 256 * SetCompact E (retarget E nBits t)"
    using loss by (simp add: new x_def)
  show "SetCompact E (retarget E nBits t) \<le> bnProofOfWorkLimit" using down by (simp add: new r)
  show "SetCompact E (retarget E nBits t) \<le> 4 * SetCompact E nBits"
    using down up by (simp add: new r x_def)
qed

end

section \<open>When the next work is defined\<close>

lemma case_list_Some:
  "(\<exists>z. (case xs of [] \<Rightarrow> None | y # _ \<Rightarrow> Some (f y)) = Some z) \<longleftrightarrow> xs \<noteq> []"
  by (cases xs) simp_all

lemma nWindow_value: "nWindow N tip = (if RulesV2Active N (unat (idx_nTime tip)) then 30 else 29)"
  by (simp add: nWindow_def nInterval_def)

lemma nWindow_le: "nWindow N tip \<le> 30"
  by (simp add: nWindow_value)

lemma GetNextWorkRequired_defined:
  "(\<exists>bits. GetNextWorkRequired E N c = Some bits) \<longleftrightarrow>
    c = [] \<or> (nHeight (hd c) + 1) mod 30 \<noteq> 0 \<or> nWindow N (hd c) < length c"
  by (cases c) (simp_all add: GetNextWorkRequired_def nInterval_def case_list_Some not_le)

lemma GetNextWorkRequired_keep:
  "(nHeight tip + 1) mod 30 \<noteq> 0 \<Longrightarrow>
    GetNextWorkRequired E N (tip # c) = Some (unat (idx_nBits tip))"
  by (simp add: GetNextWorkRequired_def nInterval_def)

lemma GetNextWorkRequired_boundary:
  assumes "(nHeight tip + 1) mod 30 = 0" "nWindow N tip < length (tip # c)"
  shows "GetNextWorkRequired E N (tip # c) = Some (retarget E (unat (idx_nBits tip))
      (limit_timespan (unat (idx_nTime tip - idx_nTime ((tip # c) ! nWindow N tip)))))"
proof -
  have "drop (nWindow N tip) (tip # c) = (tip # c) ! nWindow N tip # drop (Suc (nWindow N tip)) (tip # c)"
    using assms(2) by (rule Cons_nth_drop_Suc [symmetric])
  then show ?thesis using assms(1) by (simp add: GetNextWorkRequired_def nInterval_def)
qed

end
