(* ===== verification/Block.thy ===== *)
theory Block
  imports Pow Merkle
begin

text \<open>
  Blocks (\<^verbatim>\<open>CBlock\<close> of \<^verbatim>\<open>main.h\<close> and the checks of \<^verbatim>\<open>main.cpp\<close>): the format, the checks that
  need nothing but the block (\<open>CheckBlock\<close>) and those that need its place in the chain (the
  first half of \<open>AcceptBlock\<close>).  A refusal carries the reason and, as in the code, the score
  charged to the peer that sent the block.
\<close>

definition MAX_BLOCK_SIGOPS :: nat where "MAX_BLOCK_SIGOPS = 20000"
definition MAX_BLOCK_SIZE :: nat where "MAX_BLOCK_SIZE = 1000000"
definition COINBASE_MATURITY :: int where "COINBASE_MATURITY = 100"

record CBlock =
  blk_nVersion :: int
  hashPrevBlock :: uint256
  hashMerkleRoot :: uint256
  nTime :: u32
  nBits :: u32
  nNonce :: u32
  vtx :: "CTransaction list"

definition CBlock_SetNull :: CBlock where
  "CBlock_SetNull = \<lparr>blk_nVersion = 1, hashPrevBlock = 0, hashMerkleRoot = 0, nTime = 0,
     nBits = 0, nNonce = 0, vtx = []\<rparr>"

definition CBlock_IsNull :: "CBlock \<Rightarrow> bool" where
  "CBlock_IsNull b \<longleftrightarrow> nBits b = 0"

text \<open>The 80 bytes from \<^verbatim>\<open>BEGIN(nVersion)\<close> to \<^verbatim>\<open>END(nNonce)\<close>, which are also what is serialized.\<close>

definition block_header :: "CBlock \<Rightarrow> bytes" where
  "block_header b =
    ser_int32 (blk_nVersion b) @ ser_uint256 (hashPrevBlock b) @ ser_uint256 (hashMerkleRoot b) @
    ser_u32 (nTime b) @ ser_u32 (nBits b) @ ser_u32 (nNonce b)"

definition ser_CBlock :: "CBlock \<Rightarrow> bytes" where
  "ser_CBlock b = block_header b @ Serialize_vector ser_CTransaction (vtx b)"

definition unser_CBlock :: "bytes \<Rightarrow> (CBlock \<times> bytes) option" where
  "unser_CBlock s =
    (case unser_int32 s of None \<Rightarrow> None
     | Some (v, r1) \<Rightarrow> (case unser_uint256 r1 of None \<Rightarrow> None
       | Some (p, r2) \<Rightarrow> (case unser_uint256 r2 of None \<Rightarrow> None
         | Some (m, r3) \<Rightarrow> (case unser_u32 r3 of None \<Rightarrow> None
           | Some (t, r4) \<Rightarrow> (case unser_u32 r4 of None \<Rightarrow> None
             | Some (c, r5) \<Rightarrow> (case unser_u32 r5 of None \<Rightarrow> None
               | Some (k, r6) \<Rightarrow> (case Unserialize_vector unser_CTransaction r6 of None \<Rightarrow> None
                 | Some (txs, r7) \<Rightarrow>
                     Some (\<lparr>blk_nVersion = v, hashPrevBlock = p, hashMerkleRoot = m, nTime = t,
                       nBits = c, nNonce = k, vtx = txs\<rparr>, r7))))))))"

definition GetSerializeSize_CBlock :: "CBlock \<Rightarrow> nat" where
  "GetSerializeSize_CBlock b = 80 + GetSerializeSize_vector GetSerializeSize_CTransaction (vtx b)"

definition GetHash :: "ext \<Rightarrow> CBlock \<Rightarrow> uint256" where
  "GetHash E b = Hash E (block_header b)"

definition GetPoWHash :: "net_params \<Rightarrow> CBlock \<Rightarrow> uint256" where
  "GetPoWHash N b = PoWHashHeader N (block_header b)"

definition CheckSizeLimits :: "CBlock \<Rightarrow> bool" where
  "CheckSizeLimits b \<longleftrightarrow>
    vtx b \<noteq> [] \<and> length (vtx b) \<le> MAX_BLOCK_SIZE \<and> GetSerializeSize_CBlock b \<le> MAX_BLOCK_SIZE"

definition tx_hashes :: "ext \<Rightarrow> CBlock \<Rightarrow> uint256 list" where
  "tx_hashes E b = map (SerializeHash_tx E) (vtx b)"

section \<open>Checks independent of context\<close>

datatype block_error =
    SizeLimits | TimestampTooFar | FirstTxNotCoinbase | MoreThanOneCoinbase
  | CheckTransactionFailed | TooManySigOps | DuplicateTransaction | BitsBelowMinimumWork
  | ProofOfWorkMismatch | MerkleRootMismatch
  | AlreadyInIndex | PrevBlockNotFound | TimestampTooEarly | IncorrectProofOfWork
  | CoinbaseWithoutHeight | TransactionNotFinal | AssertionFailed

fun nDoS :: "block_error \<Rightarrow> nat" where
  "nDoS TimestampTooFar = 0"
| "nDoS ProofOfWorkMismatch = 50"
| "nDoS AlreadyInIndex = 0"
| "nDoS PrevBlockNotFound = 0"
| "nDoS TimestampTooEarly = 0"
| "nDoS TransactionNotFinal = 10"
| "nDoS AssertionFailed = 0"
| "nDoS _ = 100"

text \<open>The set \<^verbatim>\<open>setTxHashes\<close> of the hashes seen so far.\<close>

fun distinct_hashes :: "uint256 set \<Rightarrow> uint256 list \<Rightarrow> bool" where
  "distinct_hashes setTxHashes [] = True"
| "distinct_hashes setTxHashes (hashTx # rest) =
    (if hashTx \<in> setTxHashes then False else distinct_hashes (insert hashTx setTxHashes) rest)"

definition block_sigops :: "net_params \<Rightarrow> CBlock \<Rightarrow> nat" where
  "block_sigops N b = sum_list (map (tx_GetSigOpCount (RulesV4Active N (unat (nTime b)))) (vtx b))"

text \<open>\<open>nAdjustedTime\<close> is \<^verbatim>\<open>GetAdjustedTime()\<close> at the time of the check.\<close>

definition CheckBlock :: "ext \<Rightarrow> net_params \<Rightarrow> int \<Rightarrow> CBlock \<Rightarrow> block_error + unit" where
  "CheckBlock E N nAdjustedTime b =
    (if \<not> CheckSizeLimits b then Inl SizeLimits
     else if nAdjustedTime + 2 * 60 * 60 < int (unat (nTime b)) then Inl TimestampTooFar
     else if vtx b = [] \<or> \<not> IsCoinBase (vtx b ! 0) then Inl FirstTxNotCoinbase
     else if list_ex IsCoinBase (drop 1 (vtx b)) then Inl MoreThanOneCoinbase
     else if \<not> list_all (\<lambda>tx. CheckTransaction tx = Inr ()) (vtx b) then Inl CheckTransactionFailed
     else if MAX_BLOCK_SIGOPS < block_sigops N b then Inl TooManySigOps
     else if \<not> distinct_hashes {} (tx_hashes E b) then Inl DuplicateTransaction
     else if bnProofOfWorkLimit < SetCompact E (unat (nBits b)) then Inl BitsBelowMinimumWork
     else if getuint256 E (SetCompact E (unat (nBits b))) < GetPoWHash N b then Inl ProofOfWorkMismatch
     else if hashMerkleRoot b \<noteq> BuildMerkleTree E (tx_hashes E b) then Inl MerkleRootMismatch
     else Inr ())"

section \<open>Checks against the chain\<close>

text \<open>
  \<open>mapBlockIndex\<close> gives for a hash the entry it names, as the chain from that entry back.
  The result is the parent \<^verbatim>\<open>pindexPrev\<close> that the rest of \<open>AcceptBlock\<close> goes on with.
\<close>

definition coinbase_has_height :: "ext \<Rightarrow> int \<Rightarrow> CBlock \<Rightarrow> bool" where
  "coinbase_has_height E height b =
    (let expect = push_int64 E height; cb = scriptSig (vin (vtx b ! 0) ! 0)
     in \<not> (length cb < length expect \<or> take (length expect) cb \<noteq> expect))"

definition AcceptBlock_checks ::
    "ext \<Rightarrow> net_params \<Rightarrow> (uint256 \<rightharpoonup> chain) \<Rightarrow> CBlock \<Rightarrow> block_error + chain" where
  "AcceptBlock_checks E N mapBlockIndex b =
    (if mapBlockIndex (GetHash E b) \<noteq> None then Inl AlreadyInIndex
     else case mapBlockIndex (hashPrevBlock b) of
       None \<Rightarrow> Inl PrevBlockNotFound
     | Some pindexPrev \<Rightarrow>
         if int (unat (nTime b)) \<le> GetMedianTimePast pindexPrev then Inl TimestampTooEarly
         else case GetNextWorkRequired E N pindexPrev of
           None \<Rightarrow> Inl AssertionFailed
         | Some bits \<Rightarrow>
             if unat (nBits b) \<noteq> bits then Inl IncorrectProofOfWork
             else if RulesV2Active N (unat (nTime b)) \<and>
                     \<not> coinbase_has_height E (nHeight (hd pindexPrev) + 1) b
             then Inl CoinbaseWithoutHeight
             else if RulesV3Active N (unat (nTime b)) \<and>
                     \<not> list_all (\<lambda>tx. IsFinalAt tx (nHeight (hd pindexPrev) + 1)
                                  (GetMedianTimePast pindexPrev)) (vtx b)
             then Inl TransactionNotFinal
             else Inr pindexPrev)"

text \<open>The same question for the block a miner would build on the tip (\<open>[]\<close>: no tip yet).\<close>

definition IsFinalForNextBlock :: "net_params \<Rightarrow> int \<Rightarrow> int \<Rightarrow> chain \<Rightarrow> CTransaction \<Rightarrow> bool" where
  "IsFinalForNextBlock N nAdjustedTime nBestHeight pindexBest tx =
    (if pindexBest = [] \<or> \<not> RulesV3Active N (u32_of nAdjustedTime) then IsFinal nBestHeight tx
     else IsFinalAt tx (nHeight (hd pindexBest) + 1) (GetMedianTimePast pindexBest))"

section \<open>Format\<close>

definition wf_CBlock :: "CBlock \<Rightarrow> bool" where
  "wf_CBlock b \<longleftrightarrow> in_i32 (blk_nVersion b) \<and> length (vtx b) \<le> MAX_SIZE \<and> list_all wf_CTransaction (vtx b)"

lemma length_block_header [simp, wire]: "length (block_header b) = 80"
  by (simp add: block_header_def)

interpretation block: sized_codec ser_CBlock unser_CBlock wf_CBlock GetSerializeSize_CBlock
  by unfold_locales
    (simp_all add: ser_CBlock_def unser_CBlock_def wf_CBlock_def GetSerializeSize_CBlock_def
      block_header_def tx.unser_vector tx.length_vector)

lemma header_inject:
  assumes "in_i32 (blk_nVersion a)" "in_i32 (blk_nVersion b)" "block_header a = block_header b"
  shows "blk_nVersion a = blk_nVersion b \<and> hashPrevBlock a = hashPrevBlock b \<and>
    hashMerkleRoot a = hashMerkleRoot b \<and> nTime a = nTime b \<and> nBits a = nBits b \<and> nNonce a = nNonce b"
proof -
  have "wf_CBlock (a\<lparr>vtx := []\<rparr>)" "wf_CBlock (b\<lparr>vtx := []\<rparr>)"
    using assms by (simp_all add: wf_CBlock_def)
  moreover have "ser_CBlock (a\<lparr>vtx := []\<rparr>) = ser_CBlock (b\<lparr>vtx := []\<rparr>)"
    using assms(3) by (simp add: ser_CBlock_def block_header_def)
  ultimately have "a\<lparr>vtx := []\<rparr> = b\<lparr>vtx := []\<rparr>" by (rule block.ser_inject)
  then show ?thesis by (cases a; cases b) simp
qed

section \<open>What an accepted block satisfies\<close>

lemma distinct_hashes_iff: "distinct_hashes S hs \<longleftrightarrow> distinct hs \<and> set hs \<inter> S = {}"
  by (induction hs arbitrary: S) auto

definition block_sane :: "ext \<Rightarrow> net_params \<Rightarrow> int \<Rightarrow> CBlock \<Rightarrow> bool" where
  "block_sane E N nAdjustedTime b \<longleftrightarrow>
    vtx b \<noteq> [] \<and> GetSerializeSize_CBlock b \<le> MAX_BLOCK_SIZE \<and>
    int (unat (nTime b)) \<le> nAdjustedTime + 7200 \<and>
    IsCoinBase (hd (vtx b)) \<and> (\<forall>tx \<in> set (tl (vtx b)). \<not> IsCoinBase tx) \<and>
    (\<forall>tx \<in> set (vtx b). tx_sane tx) \<and> block_sigops N b \<le> MAX_BLOCK_SIGOPS \<and>
    distinct (tx_hashes E b) \<and>
    SetCompact E (unat (nBits b)) \<le> bnProofOfWorkLimit \<and>
    GetPoWHash N b \<le> getuint256 E (SetCompact E (unat (nBits b))) \<and>
    hashMerkleRoot b = root E (tx_hashes E b)"

lemma tx_size_pos: "1 \<le> GetSerializeSize_CTransaction tx"
  by (simp add: GetSerializeSize_CTransaction_def)

lemma block_count: "length (vtx b) \<le> GetSerializeSize_CBlock b"
proof -
  have "length txs \<le> sum_list (map GetSerializeSize_CTransaction txs)" for txs
  proof (induction txs)
    case (Cons tx txs)
    then show ?case using tx_size_pos [of tx] by simp
  qed simp
  then show ?thesis
    by (auto simp: GetSerializeSize_CBlock_def GetSerializeSize_vector_def intro: order_trans trans_le_add2)
qed

lemma CheckBlock_iff: "CheckBlock E N t b = Inr () \<longleftrightarrow> block_sane E N t b"
proof -
  have "list_ex IsCoinBase (drop 1 (vtx b)) \<longleftrightarrow> (\<exists>tx \<in> set (tl (vtx b)). IsCoinBase tx)"
    by (simp add: list_ex_iff drop_Suc)
  moreover have "GetSerializeSize_CBlock b \<le> MAX_BLOCK_SIZE \<Longrightarrow> length (vtx b) \<le> MAX_BLOCK_SIZE"
    using block_count [of b] by simp
  ultimately show ?thesis
    by (auto simp: CheckBlock_def block_sane_def CheckSizeLimits_def distinct_hashes_iff
        CheckTransaction_iff list_all_iff hd_conv_nth BuildMerkleTree_root not_le not_less
        split: if_split_asm)
qed

lemma AcceptBlock_checks_iff:
  "AcceptBlock_checks E N idx b = Inr c \<longleftrightarrow>
    idx (GetHash E b) = None \<and> idx (hashPrevBlock b) = Some c \<and>
    GetMedianTimePast c < int (unat (nTime b)) \<and>
    GetNextWorkRequired E N c = Some (unat (nBits b)) \<and>
    (RulesV2Active N (unat (nTime b)) \<longrightarrow> coinbase_has_height E (nHeight (hd c) + 1) b) \<and>
    (RulesV3Active N (unat (nTime b)) \<longrightarrow>
      (\<forall>tx \<in> set (vtx b). IsFinalAt tx (nHeight (hd c) + 1) (GetMedianTimePast c)))"
  by (auto simp: AcceptBlock_checks_def list_all_iff not_le split: if_split_asm option.split_asm)

section \<open>Reading a target\<close>

lemma unat_and_7F: "unat ((b::byte) AND 0x7f) = unat b mod 128"
proof -
  have "unat b AND mask 7 = unat b mod 128"
    by (simp flip: take_bit_eq_mask add: take_bit_eq_mod)
  moreover have "mask 7 = (127::nat)" by (simp add: mask_eq_exp_minus_1)
  ultimately show ?thesis by (simp add: unsigned_and_eq)
qed

lemma be_nat_abs_mpi: "be_nat ((b AND 0x7f) # bs) = nat \<bar>mpi_value (b # bs)\<bar>"
proof (cases "128 \<le> unat b")
  case True
  have "unat b < 256" by (rule unat_byte_lt)
  with True have "unat b mod 128 = unat b - 128" by (simp add: mod_if)
  then show ?thesis
    using True by (simp add: be_nat_Cons unat_and_7F del: of_nat_add of_nat_mult)
next
  case False
  then show ?thesis by (simp add: be_nat_Cons unat_and_7F del: of_nat_add of_nat_mult)
qed

context openssl_bn
begin

text \<open>\<open>getuint256\<close> drops the sign.\<close>

lemma getuint256_abs:
  assumes "nat \<bar>x\<bar> < 2 ^ 256"
  shows "unat (getuint256 E x) = nat \<bar>x\<bar>"
proof (cases "mpi_body x")
  case Nil
  then have "x = 0" by (metis mpi_value.simps(1) mpi_value_body)
  then show ?thesis using Nil by (simp add: getuint256_def bn2mpi Let_def uint256_of_bytes_def)
next
  case (Cons b bs)
  define q where "q = (b AND 0x7f) # bs"
  have q: "be_nat q = nat \<bar>x\<bar>"
    using be_nat_abs_mpi [of b bs] mpi_value_body [of x] by (simp add: q_def Cons)
  define p where "p = be_bytes 4 (length (mpi_body x)) @ mpi_body x"
  have "length (be_bytes 4 (length (mpi_body x))) = 4" by simp
  then have p: "4 < length p" "drop 4 (p[4 := p ! 4 AND 0x7f]) = q"
    by (simp_all add: p_def Cons q_def drop_update_swap nth_append)
  have "getuint256 E x = uint256_of_bytes (take 32 (rev q))"
    using p by (simp add: getuint256_def bn2mpi Let_def flip: p_def)
  also have "\<dots> = word_of_nat (le_nat (take 32 (rev q)))"
    by (simp add: uint256_of_bytes_def)
  finally have u: "getuint256 E x = word_of_nat (le_nat (take 32 (rev q)))" .
  have "le_nat (rev q) = le_nat (take 32 (rev q) @ drop 32 (rev q))" by simp
  also have "\<dots> = le_nat (take 32 (rev q)) + 256 ^ length (take 32 (rev q)) * le_nat (drop 32 (rev q))"
    by (rule le_nat_append)
  finally have split: "nat \<bar>x\<bar> = le_nat (take 32 (rev q)) +
      256 ^ length (take 32 (rev q)) * le_nat (drop 32 (rev q))"
    using q by (simp add: be_nat_def)
  have "le_nat (take 32 (rev q)) = nat \<bar>x\<bar>"
  proof (cases "length q \<le> 32")
    case True
    then show ?thesis using split by simp
  next
    case False
    then have "nat \<bar>x\<bar> = le_nat (take 32 (rev q)) + 256 ^ 32 * le_nat (drop 32 (rev q))"
      using split by (simp add: min_def)
    then have "le_nat (drop 32 (rev q)) = 0" using assms by (cases "le_nat (drop 32 (rev q))") simp_all
    then show ?thesis using split by simp
  qed
  moreover have "unat (getuint256 E x) = le_nat (take 32 (rev q)) mod 2 ^ 256"
    unfolding u by (simp only: unat_of_nat) simp
  ultimately show ?thesis using assms by simp
qed

lemma getuint256_limit:
  assumes "0 \<le> x" "x \<le> bnProofOfWorkLimit"
  shows "uint (getuint256 E x) = x"
proof -
  have "nat \<bar>x\<bar> < 2 ^ 256" using assms by (simp add: bnProofOfWorkLimit_value nat_less_iff)
  then have "unat (getuint256 E x) = nat x" using getuint256_abs [of x] assms by simp
  then have "int (unat (getuint256 E x)) = x" using assms by simp
  then show ?thesis by simp
qed

end

section \<open>The height in the coinbase\<close>

lemma coinbase_has_height_iff:
  "coinbase_has_height E h b \<longleftrightarrow> (\<exists>r. scriptSig (vin (vtx b ! 0) ! 0) = push_int64 E h @ r)"
proof -
  have "\<not> (length cb < length ex \<or> take (length ex) cb \<noteq> ex) \<longleftrightarrow> (\<exists>r. cb = ex @ r)" for cb ex :: bytes
    by (metis append_eq_conv_conj append_take_drop_id length_append not_add_less1)
  then show ?thesis by (simp add: coinbase_has_height_def Let_def)
qed

context openssl_bn
begin

lemma GetOp_push_height:
  assumes "0 \<le> n" "n < 2 ^ 31"
  shows "GetOp (push_int64 E n @ rest) =
    Some (if 1 \<le> n \<and> n \<le> 16 then 80 + nat n else length (getvch E n),
          if 1 \<le> n \<and> n \<le> 16 then [] else getvch E n, rest)"
proof (cases "1 \<le> n \<and> n \<le> 16")
  case True
  then obtain k where k: "n = int k" "1 \<le> k" "k \<le> 16" by (metis assms(1) nonneg_int_cases of_nat_1 of_nat_le_iff of_nat_numeral)
  have "word_of_int (int (80 + k)) = (word_of_nat (80 + k) :: byte)" by (rule of_int_of_nat_eq)
  then have "push_int64 E n = [word_of_nat (80 + k)]"
    using k by (simp add: push_int64_def OP_1_def add.commute)
  moreover have "GetOp (word_of_nat (80 + k) # rest) = Some (80 + k, [], rest)"
    using k by (intro GetOp_byte) (simp_all add: OP_PUSHDATA4_def OP_SINGLEBYTE_END_def)
  ultimately show ?thesis using k by simp
next
  case False
  have "setint64 E n = n" using assms by (simp add: setint64 in_i64_def)
  then have "push_int64 E n = push_vch (getvch E n)"
    using False assms(1) by (auto simp: push_int64_def)
  moreover have "length (getvch E n) \<le> 5"
    using length_mpi_body_le [of n 4] assms by (simp add: getvch nat_less_iff)
  then have "GetOp (push_vch (getvch E n) @ rest) = Some (length (getvch E n), getvch E n, rest)"
    using GetOp_push_vch [of "getvch E n" rest] by (simp add: OP_PUSHDATA1_def)
  ultimately show ?thesis using False by (simp only: if_False)
qed

lemma push_height_inject:
  assumes "0 \<le> n" "n < 2 ^ 31" "0 \<le> m" "m < 2 ^ 31" "push_int64 E n @ r = push_int64 E m @ r'"
  shows "n = m"
proof -
  have len: "length (getvch E k) < 80" if "0 \<le> k" "k < 2 ^ 31" for k
    using length_mpi_body_le [of k 4] that by (simp add: getvch nat_less_iff)
  have set: "setvch E (getvch E k) = k" if "0 \<le> k" "k < 2 ^ 31" for k
    by (rule setvch_getvch) (use len [OF that] in \<open>simp add: getvch\<close>)
  define P where "P k \<longleftrightarrow> 1 \<le> k \<and> k \<le> 16" for k :: int
  have "GetOp (push_int64 E n @ r) = GetOp (push_int64 E m @ r')"
    by (rule arg_cong [OF assms(5)])
  then have parse: "(if P n then 80 + nat n else length (getvch E n)) =
      (if P m then 80 + nat m else length (getvch E m))"
    "(if P n then [] else getvch E n) = (if P m then [] else getvch E m)"
    unfolding GetOp_push_height [OF assms(1,2)] GetOp_push_height [OF assms(3,4)] P_def
    by (simp_all only: option.inject prod.inject)
  consider "P n" "P m" | "P n" "\<not> P m" | "\<not> P n" "P m" | "\<not> P n" "\<not> P m" by blast
  then show ?thesis
  proof cases
    case 1
    then show ?thesis using parse(1) assms(1,3) by simp
  next
    case 2
    then show ?thesis using parse(1) len [OF assms(3,4)] by simp
  next
    case 3
    then show ?thesis using parse(1) len [OF assms(1,2)] by simp
  next
    case 4
    then have "getvch E n = getvch E m" using parse(2) by (simp only: if_False)
    then have "setvch E (getvch E n) = setvch E (getvch E m)" by (rule arg_cong)
    then show ?thesis by (simp only: set [OF assms(1,2)] set [OF assms(3,4)])
  qed
qed

end

section \<open>Finality only grows\<close>

lemma IsFinalAt_mono: "IsFinalAt tx h t \<Longrightarrow> h \<le> h' \<Longrightarrow> t \<le> t' \<Longrightarrow> IsFinalAt tx h' t'"
  by (auto simp: IsFinalAt_def Let_def split: if_split_asm)

end
