(* ===== verification/TxIndex.thy ===== *)
theory TxIndex
  imports Block
begin

text \<open>
  The transaction index (\<^verbatim>\<open>CTxDB\<close> of \<^verbatim>\<open>db.cpp\<close>, \<^verbatim>\<open>CDiskTxPos\<close> and \<^verbatim>\<open>CTxIndex\<close> of
  \<^verbatim>\<open>main.h\<close>): for every transaction of the main chain, where it is on disk and, for every
  output, where the transaction that spends it is.  The database is the map from hashes to
  entries; a write inside a database transaction is the updated map, an abort goes back to
  the map the transaction began with.  A block file is its bytes.
\<close>

section \<open>Positions and entries\<close>

record CDiskTxPos =
  pos_nFile :: u32
  pos_nBlockPos :: u32
  pos_nTxPos :: u32

definition CDiskTxPos_SetNull :: CDiskTxPos where
  "CDiskTxPos_SetNull = \<lparr>pos_nFile = - 1, pos_nBlockPos = 0, pos_nTxPos = 0\<rparr>"

definition CDiskTxPos_IsNull :: "CDiskTxPos \<Rightarrow> bool" where
  "CDiskTxPos_IsNull p \<longleftrightarrow> pos_nFile p = - 1"

record CTxIndex =
  pos :: CDiskTxPos
  vSpent :: "CDiskTxPos list"

definition CTxIndex_SetNull :: CTxIndex where
  "CTxIndex_SetNull = \<lparr>pos = CDiskTxPos_SetNull, vSpent = []\<rparr>"

text \<open>The constructor from a position and a number of outputs.\<close>

definition new_CTxIndex :: "CDiskTxPos \<Rightarrow> nat \<Rightarrow> CTxIndex" where
  "new_CTxIndex posIn nOutputs = \<lparr>pos = posIn, vSpent = replicate nOutputs CDiskTxPos_SetNull\<rparr>"

lemma IsNull_SetNull [simp]: "CDiskTxPos_IsNull CDiskTxPos_SetNull"
  by (simp add: CDiskTxPos_IsNull_def CDiskTxPos_SetNull_def)

section \<open>The database\<close>

type_synonym txdb = "uint256 \<rightharpoonup> CTxIndex"

definition ReadTxIndex :: "txdb \<Rightarrow> uint256 \<Rightarrow> CTxIndex option" where
  "ReadTxIndex db hash = db hash"

definition UpdateTxIndex :: "txdb \<Rightarrow> uint256 \<Rightarrow> CTxIndex \<Rightarrow> txdb" where
  "UpdateTxIndex db hash txindex = db(hash \<mapsto> txindex)"

definition AddTxIndex :: "ext \<Rightarrow> txdb \<Rightarrow> CTransaction \<Rightarrow> CDiskTxPos \<Rightarrow> txdb" where
  "AddTxIndex E db tx p =
    UpdateTxIndex db (SerializeHash_tx E tx) (new_CTxIndex p (length (vout tx)))"

definition EraseTxIndex :: "ext \<Rightarrow> txdb \<Rightarrow> CTransaction \<Rightarrow> txdb" where
  "EraseTxIndex E db tx = db(SerializeHash_tx E tx := None)"

definition ContainsTx :: "txdb \<Rightarrow> uint256 \<Rightarrow> bool" where
  "ContainsTx db hash \<longleftrightarrow> db hash \<noteq> None"

text \<open>
  An output is unspent when its entry marks it with the null position.  The laws a store of
  entries has to keep, and what they say about the unspent outputs.
\<close>

definition entry_unspent :: "CTxIndex option \<Rightarrow> nat \<Rightarrow> bool" where
  "entry_unspent ix n \<longleftrightarrow>
    (\<exists>e. ix = Some e \<and> n < length (vSpent e) \<and> CDiskTxPos_IsNull (vSpent e ! n))"

locale tx_store =
  fixes get :: "'db \<Rightarrow> uint256 \<Rightarrow> CTxIndex option"
    and put :: "'db \<Rightarrow> uint256 \<Rightarrow> CTxIndex \<Rightarrow> 'db"
    and del :: "'db \<Rightarrow> uint256 \<Rightarrow> 'db"
  assumes get_put: "get (put db h e) k = (if k = h then Some e else get db k)"
    and get_del: "get (del db h) k = (if k = h then None else get db k)"
begin

lemma unspent_write:
  "entry_unspent (get (put db h e) k) n \<longleftrightarrow>
    (if k = h then n < length (vSpent e) \<and> CDiskTxPos_IsNull (vSpent e ! n)
     else entry_unspent (get db k) n)"
  by (simp add: get_put entry_unspent_def)

lemma unspent_erase:
  "entry_unspent (get (del db h) k) n \<longleftrightarrow> k \<noteq> h \<and> entry_unspent (get db k) n"
  by (simp add: get_del entry_unspent_def)

text \<open>Marking one output of an entry.\<close>

lemma unspent_mark:
  assumes "get db h = Some e" "i < length (vSpent e)"
  shows "entry_unspent (get (put db h (e\<lparr>vSpent := (vSpent e)[i := p]\<rparr>)) k) n \<longleftrightarrow>
    (if k = h \<and> n = i then CDiskTxPos_IsNull p else entry_unspent (get db k) n)"
  using assms by (simp only: unspent_write) (auto simp: entry_unspent_def nth_list_update)

lemma unspent_new:
  "entry_unspent (get (put db h (new_CTxIndex p m)) k) n \<longleftrightarrow>
    (if k = h then n < m else entry_unspent (get db k) n)"
  by (auto simp: unspent_write new_CTxIndex_def)

end

definition erase_entry :: "txdb \<Rightarrow> uint256 \<Rightarrow> txdb" where
  "erase_entry db h = db(h := None)"

interpretation txdb: tx_store ReadTxIndex UpdateTxIndex erase_entry
  by unfold_locales (simp_all add: ReadTxIndex_def UpdateTxIndex_def erase_entry_def)

section \<open>Transactions on disk\<close>

text \<open>\<open>files\<close> gives the bytes of block file \<^verbatim>\<open>nFile\<close>, or nothing when it cannot be opened.\<close>

definition tx_ReadFromDisk :: "(u32 \<Rightarrow> bytes option) \<Rightarrow> CDiskTxPos \<Rightarrow> CTransaction option" where
  "tx_ReadFromDisk files p =
    (case files (pos_nFile p) of None \<Rightarrow> None
     | Some file \<Rightarrow> map_option fst (unser_CTransaction (drop (unat (pos_nTxPos p)) file)))"

text \<open>
  \<open>first_tx_pos\<close> and the running sum of \<open>ConnectBlock\<close>: the size of an empty block is 81
  bytes, one of them the count of its transactions.
\<close>

definition first_tx_pos :: "u32 \<Rightarrow> CBlock \<Rightarrow> u32" where
  "first_tx_pos nPos b =
    nPos + word_of_nat (GetSerializeSize_CBlock CBlock_SetNull) - 1 +
    word_of_nat (GetSizeOfCompactSize (length (vtx b)))"

fun tx_positions :: "u32 \<Rightarrow> CTransaction list \<Rightarrow> u32 list" where
  "tx_positions p [] = []"
| "tx_positions p (tx # txs) =
    p # tx_positions (p + word_of_nat (GetSerializeSize_CTransaction tx)) txs"

lemma length_tx_positions [simp]: "length (tx_positions p txs) = length txs"
  by (induction p txs rule: tx_positions.induct) simp_all

lemma tx_positions_offset:
  "i < length txs \<Longrightarrow> unat p + sum_list (map GetSerializeSize_CTransaction txs) < 2 ^ 32 \<Longrightarrow>
    unat (tx_positions p txs ! i) = unat p + length (concat (map ser_CTransaction (take i txs)))"
proof (induction p txs arbitrary: i rule: tx_positions.induct)
  case (2 p tx txs)
  define q where "q = p + word_of_nat (GetSerializeSize_CTransaction tx)"
  have q: "unat q = unat p + GetSerializeSize_CTransaction tx"
    using 2(3) by (simp add: q_def unat_word_ariths unat_of_nat)
  show ?case
  proof (cases i)
    case 0
    then show ?thesis by simp
  next
    case (Suc j)
    then have "unat (tx_positions q txs ! j) = unat q + length (concat (map ser_CTransaction (take j txs)))"
      using 2 q by (simp add: q_def)
    then show ?thesis using Suc q by (simp add: tx.length_ser q_def)
  qed
qed simp

text \<open>
  A block written at \<open>nPos\<close>: every transaction is read back at the position \<open>ConnectBlock\<close>
  computes for it.
\<close>

definition on_disk :: "(u32 \<Rightarrow> bytes option) \<Rightarrow> u32 \<Rightarrow> u32 \<Rightarrow> CBlock \<Rightarrow> bool" where
  "on_disk files nf nPos b \<longleftrightarrow>
    (\<exists>before after. files nf = Some (before @ ser_CBlock b @ after) \<and> length before = unat nPos \<and>
       unat nPos + GetSerializeSize_CBlock b < 2 ^ 32)"

lemma GetSizeOfCompactSize_pos: "1 \<le> GetSizeOfCompactSize n"
  by (simp add: GetSizeOfCompactSize_def)

lemma first_tx_pos:
  assumes "unat nPos + GetSerializeSize_CBlock b < 2 ^ 32"
  shows "unat (first_tx_pos nPos b) = unat nPos + 80 + GetSizeOfCompactSize (length (vtx b))"
proof -
  have "first_tx_pos nPos b = nPos + word_of_nat (80 + GetSizeOfCompactSize (length (vtx b)))"
    by (simp add: first_tx_pos_def GetSerializeSize_CBlock_def CBlock_SetNull_def
        GetSerializeSize_vector_def GetSizeOfCompactSize_def)
  moreover have "unat nPos + (80 + GetSizeOfCompactSize (length (vtx b))) < 2 ^ 32"
    using assms by (simp add: GetSerializeSize_CBlock_def GetSerializeSize_vector_def)
  ultimately show ?thesis by (simp add: unat_word_ariths unat_of_nat)
qed

lemma read_back:
  assumes "on_disk files nf nPos b" "wf_CBlock b" "i < length (vtx b)"
  shows "tx_ReadFromDisk files
      \<lparr>pos_nFile = nf, pos_nBlockPos = bp, pos_nTxPos = tx_positions (first_tx_pos nPos b) (vtx b) ! i\<rparr>
    = Some (vtx b ! i)"
proof -
  obtain pre post where f: "files nf = Some (pre @ ser_CBlock b @ post)" "length pre = unat nPos"
    and fits: "unat nPos + GetSerializeSize_CBlock b < 2 ^ 32"
    using assms(1) by (auto simp: on_disk_def)
  define k where "k = length (concat (map ser_CTransaction (take i (vtx b))))"
  have at: "unat (tx_positions (first_tx_pos nPos b) (vtx b) ! i) =
      unat nPos + 80 + GetSizeOfCompactSize (length (vtx b)) + k"
    using fits by (subst tx_positions_offset)
      (simp_all add: assms(3) first_tx_pos [OF fits] k_def GetSerializeSize_CBlock_def
        GetSerializeSize_vector_def)
  have split: "concat (map ser_CTransaction (vtx b)) =
      concat (map ser_CTransaction (take i (vtx b))) @ ser_CTransaction (vtx b ! i) @
      concat (map ser_CTransaction (drop (Suc i) (vtx b)))"
    by (subst id_take_nth_drop [OF assms(3)]) simp
  have "drop (unat nPos + 80 + GetSizeOfCompactSize (length (vtx b)) + k) (pre @ ser_CBlock b @ post) =
      ser_CTransaction (vtx b ! i) @ concat (map ser_CTransaction (drop (Suc i) (vtx b))) @ post"
    using f(2) by (simp add: ser_CBlock_def Serialize_vector_def split length_WriteCompactSize k_def)
  moreover have "wf_CTransaction (vtx b ! i)"
    using assms(2,3) by (simp add: wf_CBlock_def list_all_length)
  ultimately show ?thesis by (simp add: tx_ReadFromDisk_def f(1) at tx.unser_ser)
qed

section \<open>The block an entry points into\<close>

text \<open>
  \<^verbatim>\<open>mapBlockIndex\<close> as the list of its pairs, and the cache \<^verbatim>\<open>mapByPos\<close>.  A hit is believed
  when the index still has that entry at that position; otherwise the cache is rebuilt from
  the whole index, once.  The result is the entry and the cache left behind.
\<close>

type_synonym disk_pos = "u32 \<times> u32"

definition rebuild_positions :: "(uint256 \<times> chain) list \<Rightarrow> disk_pos \<rightharpoonup> uint256" where
  "rebuild_positions index =
    fold (\<lambda>(hash, c) m. m((nFile (hd c), nBlockPos (hd c)) \<mapsto> hash)) index Map.empty"

definition believed_hit ::
    "(uint256 \<times> chain) list \<Rightarrow> (disk_pos \<rightharpoonup> uint256) \<Rightarrow> disk_pos \<Rightarrow> chain option" where
  "believed_hit index mapByPos key =
    (case mapByPos key of None \<Rightarrow> None
     | Some hash \<Rightarrow>
        (case map_of index hash of None \<Rightarrow> None
         | Some c \<Rightarrow> if (nFile (hd c), nBlockPos (hd c)) = key then Some c else None))"

definition BlockIndexAtDiskPos ::
    "(uint256 \<times> chain) list \<Rightarrow> (disk_pos \<rightharpoonup> uint256) \<Rightarrow> disk_pos \<Rightarrow>
      chain option \<times> (disk_pos \<rightharpoonup> uint256)" where
  "BlockIndexAtDiskPos index mapByPos key =
    (case believed_hit index mapByPos key of
       Some c \<Rightarrow> (Some c, mapByPos)
     | None \<Rightarrow>
         let rebuilt = rebuild_positions index in (believed_hit index rebuilt key, rebuilt))"

text \<open>Whatever the cache held: the entry at the position, when no two entries share one.\<close>

definition block_at :: "(uint256 \<times> chain) list \<Rightarrow> disk_pos \<Rightarrow> chain option" where
  "block_at index key =
    map_option snd (find (\<lambda>(hash, c). (nFile (hd c), nBlockPos (hd c)) = key) index)"

definition index_positions :: "(uint256 \<times> chain) list \<Rightarrow> disk_pos list" where
  "index_positions index = map (\<lambda>(hash, c). (nFile (hd c), nBlockPos (hd c))) index"

lemma rebuild_positions_map_of:
  "fold (\<lambda>(hash, c) m. m((nFile (hd c), nBlockPos (hd c)) \<mapsto> hash)) index m =
    m ++ map_of (rev (map (\<lambda>(hash, c). ((nFile (hd c), nBlockPos (hd c)), hash)) index))"
  by (induction index arbitrary: m) (auto simp: fun_eq_iff map_add_def split: option.split)

lemma rebuild_positions_iff:
  assumes "distinct (index_positions index)"
  shows "rebuild_positions index key = Some hash \<longleftrightarrow>
    (\<exists>c. (hash, c) \<in> set index \<and> (nFile (hd c), nBlockPos (hd c)) = key)"
proof -
  have "distinct (map fst (rev (map (\<lambda>(hash, c). ((nFile (hd c), nBlockPos (hd c)), hash)) index)))"
    using assms by (simp add: index_positions_def comp_def split_def flip: rev_map)
  then have "map_of (rev (map (\<lambda>(hash, c). ((nFile (hd c), nBlockPos (hd c)), hash)) index)) key = Some hash
      \<longleftrightarrow> (key, hash) \<in> set (map (\<lambda>(hash, c). ((nFile (hd c), nBlockPos (hd c)), hash)) index)"
    by (simp only: map_of_eq_Some_iff set_rev)
  then show ?thesis by (auto simp: rebuild_positions_def rebuild_positions_map_of)
qed

lemma block_at_iff:
  assumes "distinct (index_positions index)"
  shows "block_at index key = Some c \<longleftrightarrow>
    (\<exists>hash. (hash, c) \<in> set index) \<and> (nFile (hd c), nBlockPos (hd c)) = key"
  using assms
  by (induction index) (auto simp: block_at_def index_positions_def split: if_split_asm)

lemma believed_hit_at:
  assumes "distinct (index_positions index)" "believed_hit index m key = Some c"
  shows "block_at index key = Some c"
  using assms
  by (auto simp: believed_hit_def block_at_iff split: option.split_asm if_split_asm
      dest!: map_of_SomeD)

lemma believed_hit_rebuilt:
  assumes "distinct (index_positions index)" "distinct (map fst index)" "block_at index key = Some c"
  shows "believed_hit index (rebuild_positions index) key = Some c"
proof -
  obtain hash where h: "(hash, c) \<in> set index" "(nFile (hd c), nBlockPos (hd c)) = key"
    using assms(1,3) by (auto simp: block_at_iff)
  then have "rebuild_positions index key = Some hash"
    using assms(1) by (auto simp: rebuild_positions_iff)
  moreover have "map_of index hash = Some c" using assms(2) h(1) by simp
  ultimately show ?thesis using h(2) by (simp add: believed_hit_def)
qed

lemma BlockIndexAtDiskPos_spec:
  assumes "distinct (index_positions index)" "distinct (map fst index)"
  shows "fst (BlockIndexAtDiskPos index mapByPos key) = block_at index key"
proof (cases "believed_hit index mapByPos key")
  case (Some c)
  then show ?thesis using believed_hit_at [OF assms(1)] by (simp add: BlockIndexAtDiskPos_def)
next
  case None
  show ?thesis
  proof (cases "block_at index key")
    case (Some c)
    then show ?thesis
      using believed_hit_rebuilt [OF assms] \<open>believed_hit index mapByPos key = None\<close>
      by (simp add: BlockIndexAtDiskPos_def Let_def)
  next
    case None
    then have "believed_hit index (rebuild_positions index) key = None"
      using believed_hit_at [OF assms(1)] by (metis option.exhaust option.distinct(1))
    then show ?thesis
      using None \<open>believed_hit index mapByPos key = None\<close> by (simp add: BlockIndexAtDiskPos_def Let_def)
  qed
qed

end
