(* ===== verification/Connect.thy ===== *)
theory Connect
  imports TxIndex Verify
begin

text \<open>
  \<^verbatim>\<open>CTransaction::ConnectInputs\<close> and \<^verbatim>\<open>DisconnectInputs\<close> (\<^verbatim>\<open>main.cpp\<close>), with the relative
  locks of BIP68: how a transaction takes over the outputs it spends, in its three uses --
  connecting a block, building one, and entering the memory pool.  A refusal is an error
  value; the writes made before it are dropped, as every caller drops them (the database
  transaction is aborted, the miner works on a copy, the pool writes nothing).
\<close>

unbundle bit_operations_syntax

section \<open>Relative locks\<close>

definition SEQUENCE_LOCKTIME_GRANULARITY :: nat where "SEQUENCE_LOCKTIME_GRANULARITY = 9"

text \<open>\<open>blockAt\<close> is \<open>BlockIndexAtDiskPos\<close> on the index as it stands.\<close>

definition SequenceLockPasses ::
    "(disk_pos \<Rightarrow> chain option) \<Rightarrow> CTxIn \<Rightarrow> CTxIndex \<Rightarrow> bool \<Rightarrow> chain \<Rightarrow> bool" where
  "SequenceLockPasses blockAt txin txindex fUnmined pindexPrev =
    (if nSequence txin AND SEQUENCE_LOCKTIME_DISABLE_FLAG \<noteq> 0 then True
     else if pindexPrev = [] then False
     else
       let nNextHeight = nHeight (hd pindexPrev) + 1;
           coin = (if fUnmined then Some (nNextHeight, GetMedianTimePast pindexPrev)
                   else case blockAt (pos_nFile (pos txindex), pos_nBlockPos (pos txindex)) of
                          None \<Rightarrow> None
                        | Some pindexCoin \<Rightarrow>
                            Some (nHeight (hd pindexCoin),
                              GetMedianTimePast (if tl pindexCoin \<noteq> [] then tl pindexCoin else pindexCoin)));
           lockValue = int (unat (nSequence txin AND SEQUENCE_LOCKTIME_MASK))
       in case coin of
            None \<Rightarrow> False
          | Some (nCoinHeight, nCoinTime) \<Rightarrow>
              if nSequence txin AND SEQUENCE_LOCKTIME_TYPE_FLAG \<noteq> 0
              then nCoinTime + push_bit SEQUENCE_LOCKTIME_GRANULARITY lockValue
                     \<le> GetMedianTimePast pindexPrev
              else nCoinHeight + lockValue \<le> nNextHeight)"

section \<open>Connecting the inputs\<close>

datatype connect_error =
    PrevIndexNotFound | PrevNotInPool | ReadPrevFailed | PrevoutOutOfRange | ImmatureCoinbase
  | UnderRelativeLock | VerifySignatureFailed | AlreadySpent | ValueInOutOfRange
  | ValueOutInvalid tx_error | FeeNegative | FeeTooLow | FeesOutOfRange

text \<open>What the function reads and never writes: its flags, the globals and the files.\<close>

record connect_ctx =
  fBlock :: bool
  fMiner :: bool
  posThisTx :: CDiskTxPos
  nMinFee :: int
  pindexPrev :: chain
  nRulesTime :: nat
  mapTransactions :: "uint256 \<rightharpoonup> CTransaction"
  blockFiles :: "u32 \<Rightarrow> bytes option"
  blockIndexAt :: "disk_pos \<Rightarrow> chain option"

text \<open>What it writes: the database or the miner's test pool, and two running totals.\<close>

record connect_state =
  ctxdb :: txdb
  mapTestPool :: txdb
  nFees :: int
  nP2SHSigOps :: nat

definition pos_in_pool :: CDiskTxPos where
  "pos_in_pool = \<lparr>pos_nFile = 1, pos_nBlockPos = 1, pos_nTxPos = 1\<rparr>"

text \<open>The depth loop: is the coinbase at \<open>p\<close> within the last \<^verbatim>\<open>COINBASE_MATURITY-1\<close> blocks?\<close>

fun tries_immature :: "int \<Rightarrow> CDiskTxPos \<Rightarrow> chain \<Rightarrow> bool" where
  "tries_immature nPrevHeight p [] = False"
| "tries_immature nPrevHeight p (pindex # rest) =
    (if nPrevHeight - nHeight pindex < COINBASE_MATURITY - 1 then
       if nBlockPos pindex = pos_nBlockPos p \<and> nFile pindex = pos_nFile p then True
       else tries_immature nPrevHeight p rest
     else False)"

text \<open>The entry of the previous transaction, and whether there is one.\<close>

definition find_index :: "connect_ctx \<Rightarrow> connect_state \<Rightarrow> uint256 \<Rightarrow> CTxIndex option" where
  "find_index C s hash =
    (if fMiner C \<and> ContainsTx (mapTestPool s) hash then ReadTxIndex (mapTestPool s) hash
     else ReadTxIndex (ctxdb s) hash)"

definition find_prev ::
    "connect_ctx \<Rightarrow> connect_state \<Rightarrow> uint256 \<Rightarrow> connect_error + (CTransaction \<times> CTxIndex \<times> bool)" where
  "find_prev C s hash =
    (case find_index C s hash of
       None \<Rightarrow>
         if fBlock C \<or> fMiner C then Inl PrevIndexNotFound
         else (case mapTransactions C hash of None \<Rightarrow> Inl PrevNotInPool
               | Some txPrev \<Rightarrow>
                   Inr (txPrev, CTxIndex_SetNull
                     \<lparr>vSpent := replicate (length (vout txPrev)) CDiskTxPos_SetNull\<rparr>, True))
     | Some txindex \<Rightarrow>
         if pos txindex = pos_in_pool then
           (case mapTransactions C hash of None \<Rightarrow> Inl PrevNotInPool
            | Some txPrev \<Rightarrow> Inr (txPrev, txindex, True))
         else
           (case tx_ReadFromDisk (blockFiles C) (pos txindex) of None \<Rightarrow> Inl ReadPrevFailed
            | Some txPrev \<Rightarrow> Inr (txPrev, txindex, False)))"

definition write_index :: "connect_ctx \<Rightarrow> connect_state \<Rightarrow> uint256 \<Rightarrow> CTxIndex \<Rightarrow> connect_state" where
  "write_index C s hash txindex =
    (if fBlock C then s\<lparr>ctxdb := UpdateTxIndex (ctxdb s) hash txindex\<rparr>
     else if fMiner C then s\<lparr>mapTestPool := UpdateTxIndex (mapTestPool s) hash txindex\<rparr>
     else s)"

text \<open>One turn of the loop over the inputs, with the running \<^verbatim>\<open>nValueIn\<close>.\<close>

definition connect_input ::
    "ext \<Rightarrow> net_params \<Rightarrow> connect_ctx \<Rightarrow> CTransaction \<Rightarrow> nat \<Rightarrow> connect_state \<times> int \<Rightarrow>
      connect_error + (connect_state \<times> int)" where
  "connect_input E N C tx i = (\<lambda>(s, nValueIn).
    let txin = vin tx ! i; out = prevout txin; n = unat (out_n out);
        v4 = RulesV4Active N (nRulesTime C); v3 = RulesV3Active N (nRulesTime C);
        strict = RulesV2Active N (nRulesTime C)
    in case find_prev C s (out_hash out) of
      Inl e \<Rightarrow> Inl e
    | Inr (txPrev, txindex, fUnmined) \<Rightarrow>
        if length (vout txPrev) \<le> n \<or> length (vSpent txindex) \<le> n then Inl PrevoutOutOfRange
        else if IsCoinBase txPrev \<and> pindexPrev C \<noteq> [] \<and>
                tries_immature (nHeight (hd (pindexPrev C))) (pos txindex) (pindexPrev C)
        then Inl ImmatureCoinbase
        else if v4 \<and> 2 \<le> u32_of (nVersion tx) \<and>
                \<not> SequenceLockPasses (blockIndexAt C) txin txindex fUnmined (pindexPrev C)
        then Inl UnderRelativeLock
        else if \<not> VerifySignature E txPrev tx i 0 strict v3 v4 then Inl VerifySignatureFailed
        else if \<not> CDiskTxPos_IsNull (vSpent txindex ! n) then Inl AlreadySpent
        else
          let sigops = (if v3 \<and> IsPayToScriptHash (scriptPubKey (vout txPrev ! n))
                        then GetP2SHSigOpCount (scriptSig txin) v4 else 0);
              s' = write_index C (s\<lparr>nP2SHSigOps := nP2SHSigOps s + sigops\<rparr>) (out_hash out)
                     (txindex\<lparr>vSpent := (vSpent txindex)[n := posThisTx C]\<rparr>);
              amount = nValue (vout txPrev ! n);
              total = i64 (nValueIn + amount)
          in if \<not> MoneyRange amount \<or> \<not> MoneyRange total then Inl ValueInOutOfRange
             else Inr (s', total))"

fun connect_loop ::
    "ext \<Rightarrow> net_params \<Rightarrow> connect_ctx \<Rightarrow> CTransaction \<Rightarrow> nat list \<Rightarrow> connect_state \<times> int \<Rightarrow>
      connect_error + (connect_state \<times> int)" where
  "connect_loop E N C tx [] acc = Inr acc"
| "connect_loop E N C tx (i # is) acc =
    (case connect_input E N C tx i acc of
       Inl e \<Rightarrow> Inl e | Inr acc' \<Rightarrow> connect_loop E N C tx is acc')"

definition ConnectInputs ::
    "ext \<Rightarrow> net_params \<Rightarrow> connect_ctx \<Rightarrow> CTransaction \<Rightarrow> connect_state \<Rightarrow>
      connect_error + connect_state" where
  "ConnectInputs E N C tx s =
    (let connected =
        (if IsCoinBase tx then Inr s
         else case connect_loop E N C tx [0..<length (vin tx)] (s, 0) of
           Inl e \<Rightarrow> Inl e
         | Inr (s', nValueIn) \<Rightarrow>
            (case GetValueOut tx of
               Inl e \<Rightarrow> Inl (ValueOutInvalid e)
             | Inr nValueOut \<Rightarrow>
                 let nTxFee = i64 (nValueIn - nValueOut); total = i64 (nFees s' + nTxFee)
                 in if nTxFee < 0 then Inl FeeNegative
                    else if nTxFee < nMinFee C then Inl FeeTooLow
                    else if \<not> MoneyRange total then Inl FeesOutOfRange
                    else Inr (s'\<lparr>nFees := total\<rparr>)))
     in case connected of
          Inl e \<Rightarrow> Inl e
        | Inr s' \<Rightarrow>
            Inr (if fBlock C then s'\<lparr>ctxdb := AddTxIndex E (ctxdb s') tx (posThisTx C)\<rparr>
                 else if fMiner C then
                   s'\<lparr>mapTestPool := UpdateTxIndex (mapTestPool s') (SerializeHash_tx E tx)
                        (new_CTxIndex pos_in_pool (length (vout tx)))\<rparr>
                 else s'))"

section \<open>Disconnecting them\<close>

datatype disconnect_error = PrevIndexGone | PrevSpentOutOfRange

fun disconnect_loop :: "CTxIn list \<Rightarrow> txdb \<Rightarrow> disconnect_error + txdb" where
  "disconnect_loop [] db = Inr db"
| "disconnect_loop (txin # rest) db =
    (case ReadTxIndex db (out_hash (prevout txin)) of
       None \<Rightarrow> Inl PrevIndexGone
     | Some txindex \<Rightarrow>
         let n = unat (out_n (prevout txin))
         in if length (vSpent txindex) \<le> n then Inl PrevSpentOutOfRange
            else disconnect_loop rest
              (UpdateTxIndex db (out_hash (prevout txin))
                 (txindex\<lparr>vSpent := (vSpent txindex)[n := CDiskTxPos_SetNull]\<rparr>)))"

definition DisconnectInputs :: "ext \<Rightarrow> CTransaction \<Rightarrow> txdb \<Rightarrow> disconnect_error + txdb" where
  "DisconnectInputs E tx db =
    (case (if IsCoinBase tx then Inr db else disconnect_loop (vin tx) db) of
       Inl e \<Rightarrow> Inl e
     | Inr db' \<Rightarrow> Inr (EraseTxIndex E db' tx))"

text \<open>The same loop over the memory pool, for a client without an index.\<close>

fun client_loop ::
    "ext \<Rightarrow> (uint256 \<rightharpoonup> CTransaction) \<Rightarrow> CTransaction \<Rightarrow> nat list \<Rightarrow> int \<Rightarrow> int option" where
  "client_loop E pool tx [] nValueIn = Some nValueIn"
| "client_loop E pool tx (i # is) nValueIn =
    (let out = prevout (vin tx ! i)
     in case pool (out_hash out) of
          None \<Rightarrow> None
        | Some txPrev \<Rightarrow>
            if length (vout txPrev) \<le> unat (out_n out) then None
            else if \<not> VerifySignature E txPrev tx i 0 False False False then None
            else client_loop E pool tx is (i64 (nValueIn + nValue (vout txPrev ! unat (out_n out)))))"

definition ClientConnectInputs ::
    "ext \<Rightarrow> (uint256 \<rightharpoonup> CTransaction) \<Rightarrow> CTransaction \<Rightarrow> tx_error + bool" where
  "ClientConnectInputs E pool tx =
    (if IsCoinBase tx then Inr False
     else case client_loop E pool tx [0..<length (vin tx)] 0 of
            None \<Rightarrow> Inr False
          | Some nValueIn \<Rightarrow>
              (case GetValueOut tx of Inl e \<Rightarrow> Inl e | Inr out \<Rightarrow> Inr (\<not> nValueIn < out)))"

end
