(* ===== verification/Coins.thy ===== *)
theory Coins
  imports Connect
begin

text \<open>
  What connecting and disconnecting do to the unspent outputs.  The index is read as the
  set \<open>coins\<close> of unspent outpoints, each worth what the transaction on disk says; connecting
  the inputs of a transaction removes exactly the outpoints it names, connecting the
  transaction adds exactly its own, the totals add up to the fee, and disconnecting is the
  inverse.
\<close>

section \<open>Marking outpoints\<close>

definition set_spent :: "txdb \<Rightarrow> COutPoint \<Rightarrow> CDiskTxPos \<Rightarrow> txdb" where
  "set_spent db op p =
    (case db (out_hash op) of None \<Rightarrow> db
     | Some e \<Rightarrow> db(out_hash op \<mapsto> e\<lparr>vSpent := (vSpent e)[unat (out_n op) := p]\<rparr>))"

definition spent_at :: "txdb \<Rightarrow> COutPoint \<Rightarrow> CDiskTxPos option" where
  "spent_at db op =
    (case db (out_hash op) of None \<Rightarrow> None
     | Some e \<Rightarrow> if unat (out_n op) < length (vSpent e) then Some (vSpent e ! unat (out_n op)) else None)"

definition coins :: "txdb \<Rightarrow> COutPoint set" where
  "coins db = {op. entry_unspent (ReadTxIndex db (out_hash op)) (unat (out_n op))}"

lemma coins_spent_at: "op \<in> coins db \<longleftrightarrow> (\<exists>p. spent_at db op = Some p \<and> CDiskTxPos_IsNull p)"
  by (auto simp: coins_def entry_unspent_def ReadTxIndex_def spent_at_def split: option.split)

lemma set_spent_same: "set_spent (set_spent db op p) op q = set_spent db op q"
  by (auto simp: set_spent_def split: option.split)

lemma set_spent_id: "spent_at db op = Some q \<Longrightarrow> set_spent db op q = db"
  by (auto simp: set_spent_def spent_at_def fun_eq_iff split: option.split_asm if_split_asm)

lemma out_eqI: "out_hash a = out_hash b \<Longrightarrow> unat (out_n a) = unat (out_n b) \<Longrightarrow> a = (b::COutPoint)"
  by (cases a; cases b) (auto dest: unsigned_word_eqI)

lemma set_spent_commute:
  assumes "a \<noteq> b"
  shows "set_spent (set_spent db a p) b q = set_spent (set_spent db b q) a p"
proof (cases "out_hash a = out_hash b")
  case True
  then have "unat (out_n a) \<noteq> unat (out_n b)" using assms out_eqI by blast
  then show ?thesis
    using True by (auto simp: set_spent_def list_update_swap split: option.split)
next
  case False
  then show ?thesis by (auto simp: set_spent_def fun_eq_iff split: option.split)
qed

lemma spent_at_set:
  "spent_at (set_spent db a p) b =
    (if b = a then map_option (\<lambda>_. p) (spent_at db a) else spent_at db b)"
proof (cases "out_hash a = out_hash b")
  case True
  show ?thesis
  proof (cases "a = b")
    case False
    then have "unat (out_n a) \<noteq> unat (out_n b)" using True out_eqI by blast
    then show ?thesis using True False
      by (auto simp: spent_at_def set_spent_def split: option.split)
  qed (auto simp: spent_at_def set_spent_def split: option.split)
next
  case False
  then show ?thesis by (auto simp: spent_at_def set_spent_def split: option.split)
qed

lemma coins_set_spent:
  "\<not> CDiskTxPos_IsNull p \<Longrightarrow> coins (set_spent db op p) = coins db - {op}"
proof (rule set_eqI)
  fix x
  assume "\<not> CDiskTxPos_IsNull p"
  then show "x \<in> coins (set_spent db op p) \<longleftrightarrow> x \<in> coins db - {op}"
    by (cases "x = op") (auto simp: coins_spent_at spent_at_set)
qed

lemma set_spent_pos: "map_option pos (set_spent db op p h) = map_option pos (db h)"
  by (auto simp: set_spent_def split: option.split)

lemma set_spent_dom [simp]: "set_spent db op p h = None \<longleftrightarrow> db h = None"
  by (auto simp: set_spent_def split: option.split)

lemma set_spent_length:
  "map_option (length \<circ> vSpent) (set_spent db op p h) = map_option (length \<circ> vSpent) (db h)"
  by (auto simp: set_spent_def split: option.split)

definition mark_all :: "CDiskTxPos \<Rightarrow> COutPoint list \<Rightarrow> txdb \<Rightarrow> txdb" where
  "mark_all p ops db = fold (\<lambda>op d. set_spent d op p) ops db"

lemma mark_all_simps [simp]:
  "mark_all p [] db = db" "mark_all p (op # ops) db = mark_all p ops (set_spent db op p)"
  by (simp_all add: mark_all_def)

lemma mark_all_dom [simp]: "mark_all p ops db h = None \<longleftrightarrow> db h = None"
  by (induction ops arbitrary: db) simp_all

lemma mark_all_pos: "map_option pos (mark_all p ops db h) = map_option pos (db h)"
  by (induction ops arbitrary: db) (simp_all add: set_spent_pos)

lemma mark_all_length:
  "map_option (length \<circ> vSpent) (mark_all p ops db h) = map_option (length \<circ> vSpent) (db h)"
  by (induction ops arbitrary: db) (simp_all add: set_spent_length)

lemma mark_all_commute:
  "op \<notin> set ops \<Longrightarrow> mark_all p ops (set_spent db op q) = set_spent (mark_all p ops db) op q"
  by (induction ops arbitrary: db) (simp_all add: set_spent_commute)

lemma coins_mark_all:
  "\<not> CDiskTxPos_IsNull p \<Longrightarrow> coins (mark_all p ops db) = coins db - set ops"
  by (induction ops arbitrary: db) (auto simp: coins_set_spent)

text \<open>Unmarking in the same order what was marked gives the index back.\<close>

lemma mark_all_undo:
  "distinct ops \<Longrightarrow> (\<forall>op \<in> set ops. spent_at db op = Some q) \<Longrightarrow>
    mark_all q ops (mark_all p ops db) = db"
proof (induction ops arbitrary: db)
  case (Cons op ops)
  have "mark_all q ops (set_spent (mark_all p ops (set_spent db op p)) op q) =
      mark_all q ops (mark_all p ops (set_spent (set_spent db op p) op q))"
    using Cons(2) by (simp add: mark_all_commute)
  also have "\<dots> = mark_all q ops (mark_all p ops db)"
    using Cons(3) by (simp add: set_spent_same set_spent_id)
  also have "\<dots> = db" using Cons by simp
  finally show ?case by simp
qed simp

section \<open>What an index has to satisfy\<close>

text \<open>
  Every entry points at a transaction on disk with that hash and one mark per output, and
  an output that is not spent carries the null position the code writes.
\<close>

definition index_ok :: "ext \<Rightarrow> (u32 \<Rightarrow> bytes option) \<Rightarrow> txdb \<Rightarrow> bool" where
  "index_ok E files db \<longleftrightarrow>
    (\<forall>h e. db h = Some e \<longrightarrow> pos e \<noteq> pos_in_pool \<and>
      (\<forall>p \<in> set (vSpent e). CDiskTxPos_IsNull p \<longrightarrow> p = CDiskTxPos_SetNull) \<and>
      (\<exists>tx. tx_ReadFromDisk files (pos e) = Some tx \<and> SerializeHash_tx E tx = h \<and>
        length (vout tx) = length (vSpent e)))"

lemma index_ok_read:
  assumes "index_ok E files db" "db h = Some e"
  obtains tx where "tx_ReadFromDisk files (pos e) = Some tx" "SerializeHash_tx E tx = h"
    "length (vout tx) = length (vSpent e)" "pos e \<noteq> pos_in_pool"
  using assms unfolding index_ok_def by blast

lemma index_ok_coin:
  "index_ok E files db \<Longrightarrow> op \<in> coins db \<Longrightarrow> spent_at db op = Some CDiskTxPos_SetNull"
  by (auto simp: index_ok_def coins_spent_at spent_at_def split: option.split_asm if_split_asm)

lemma index_ok_set_spent:
  assumes "index_ok E files db" "\<not> CDiskTxPos_IsNull p"
  shows "index_ok E files (set_spent db op p)"
proof (cases "db (out_hash op)")
  case None
  then show ?thesis using assms by (simp add: set_spent_def)
next
  case (Some e)
  obtain tx where tx: "tx_ReadFromDisk files (pos e) = Some tx" "SerializeHash_tx E tx = out_hash op"
    "length (vout tx) = length (vSpent e)" "pos e \<noteq> pos_in_pool"
    using index_ok_read [OF assms(1) Some] .
  have "q = CDiskTxPos_SetNull"
    if "q \<in> set ((vSpent e)[unat (out_n op) := p])" "CDiskTxPos_IsNull q" for q
  proof -
    from that(1) have "q \<in> insert p (set (vSpent e))" by (rule set_mp [OF set_update_subset_insert])
    then show ?thesis using that(2) assms Some by (auto simp: index_ok_def)
  qed
  then show ?thesis using assms(1) Some tx by (auto simp: index_ok_def set_spent_def)
qed

lemma index_ok_mark_all:
  "index_ok E files db \<Longrightarrow> \<not> CDiskTxPos_IsNull p \<Longrightarrow> index_ok E files (mark_all p ops db)"
  by (induction ops arbitrary: db) (simp_all add: index_ok_set_spent)

lemma index_ok_add:
  assumes "index_ok E files db" "tx_ReadFromDisk files p = Some tx" "p \<noteq> pos_in_pool"
  shows "index_ok E files (AddTxIndex E db tx p)"
  using assms by (auto simp: index_ok_def AddTxIndex_def UpdateTxIndex_def new_CTxIndex_def)

section \<open>Values\<close>

definition coin_value :: "(u32 \<Rightarrow> bytes option) \<Rightarrow> txdb \<Rightarrow> COutPoint \<Rightarrow> int" where
  "coin_value files db op =
    (case db (out_hash op) of None \<Rightarrow> 0
     | Some e \<Rightarrow> (case tx_ReadFromDisk files (pos e) of None \<Rightarrow> 0
         | Some tx \<Rightarrow> nValue (vout tx ! unat (out_n op))))"

definition total_value :: "(u32 \<Rightarrow> bytes option) \<Rightarrow> txdb \<Rightarrow> int" where
  "total_value files db = (\<Sum>op \<in> coins db. coin_value files db op)"

lemma finite_outpoints [simp]: "finite (A :: COutPoint set)"
proof -
  have "inj (\<lambda>p :: COutPoint. (out_hash p, out_n p))" by (auto simp: inj_def)
  then have "finite (UNIV :: COutPoint set)"
    by (rule finite_imageD [rotated]) (rule finite)
  then show ?thesis by (rule finite_subset [rotated]) simp
qed

lemma coin_value_set_spent [simp]: "coin_value files (set_spent db a p) = coin_value files db"
  by (auto simp: coin_value_def set_spent_def fun_eq_iff split: option.split)

lemma coin_value_mark_all [simp]: "coin_value files (mark_all p ops db) = coin_value files db"
  by (induction ops arbitrary: db) simp_all

lemma total_value_mark_all:
  assumes "\<not> CDiskTxPos_IsNull p" "distinct ops" "set ops \<subseteq> coins db"
  shows "total_value files (mark_all p ops db) =
    total_value files db - sum_list (map (coin_value files db) ops)"
proof -
  have "total_value files (mark_all p ops db) = (\<Sum>op \<in> coins db - set ops. coin_value files db op)"
    by (simp add: total_value_def coins_mark_all [OF assms(1)])
  also have "\<dots> = total_value files db - (\<Sum>op \<in> set ops. coin_value files db op)"
    unfolding total_value_def by (rule sum_diff) (use assms(3) in simp_all)
  finally show ?thesis using assms(2) by (simp add: sum_list_distinct_conv_sum_set)
qed

section \<open>One input\<close>

text \<open>What the checks on one input establish, when a block is connected.\<close>

definition spend_ok ::
    "ext \<Rightarrow> net_params \<Rightarrow> connect_ctx \<Rightarrow> txdb \<Rightarrow> CTransaction \<Rightarrow> nat \<Rightarrow> CTxIndex \<Rightarrow> CTransaction \<Rightarrow> bool" where
  "spend_ok E N C db tx i e txPrev \<longleftrightarrow>
    db (out_hash (prevout (vin tx ! i))) = Some e \<and>
    tx_ReadFromDisk (blockFiles C) (pos e) = Some txPrev \<and>
    unat (out_n (prevout (vin tx ! i))) < length (vout txPrev) \<and>
    \<not> (IsCoinBase txPrev \<and> pindexPrev C \<noteq> [] \<and>
       tries_immature (nHeight (hd (pindexPrev C))) (pos e) (pindexPrev C)) \<and>
    (RulesV4Active N (nRulesTime C) \<and> 2 \<le> u32_of (nVersion tx) \<longrightarrow>
       SequenceLockPasses (blockIndexAt C) (vin tx ! i) e False (pindexPrev C)) \<and>
    VerifySignature E txPrev tx i 0 (RulesV2Active N (nRulesTime C))
      (RulesV3Active N (nRulesTime C)) (RulesV4Active N (nRulesTime C)) \<and>
    MoneyRange (nValue (vout txPrev ! unat (out_n (prevout (vin tx ! i)))))"

lemma i64_add_money: "MoneyRange a \<Longrightarrow> MoneyRange b \<Longrightarrow> i64 (a + b) = a + b"
  by (rule i64_id) (simp add: in_i64_def MoneyRange_def MAX_MONEY_def COIN_def)

lemma connect_input_block:
  assumes mode: "fBlock C" "\<not> fMiner C"
    and ok: "index_ok E (blockFiles C) (ctxdb s)"
    and step: "connect_input E N C tx i (s, v) = Inr (s', v')"
    and v: "MoneyRange v"
  obtains e txPrev where
    "spend_ok E N C (ctxdb s) tx i e txPrev"
    "prevout (vin tx ! i) \<in> coins (ctxdb s)"
    "ctxdb s' = set_spent (ctxdb s) (prevout (vin tx ! i)) (posThisTx C)"
    "v' = v + coin_value (blockFiles C) (ctxdb s) (prevout (vin tx ! i))"
    "MoneyRange v'" "nFees s' = nFees s"
proof -
  define op where "op = prevout (vin tx ! i)"
  obtain txPrev e unmined where prev: "find_prev C s (out_hash op) = Inr (txPrev, e, unmined)"
    using step by (cases "find_prev C s (out_hash op)")
      (auto simp: connect_input_def Let_def op_def)
  have idx: "find_index C s (out_hash op) = ctxdb s (out_hash op)"
    using mode(2) by (simp add: find_index_def ReadTxIndex_def)
  have db: "ctxdb s (out_hash op) = Some e"
    using prev mode by (auto simp: find_prev_def idx split: option.split_asm if_split_asm)
  have not_pool: "pos e \<noteq> pos_in_pool" using index_ok_read [OF ok db] by metis
  then have disk: "tx_ReadFromDisk (blockFiles C) (pos e) = Some txPrev" "unmined = False"
    using prev db by (auto simp: find_prev_def idx split: option.split_asm if_split_asm)
  note checks = step [unfolded connect_input_def Let_def split, folded op_def, unfolded prev sum.case prod.case]
  have facts: "spend_ok E N C (ctxdb s) tx i e txPrev"
    "unat (out_n op) < length (vSpent e)" "CDiskTxPos_IsNull (vSpent e ! unat (out_n op))"
    "MoneyRange (nValue (vout txPrev ! unat (out_n op)))"
    "MoneyRange v'" "v' = i64 (v + nValue (vout txPrev ! unat (out_n op)))"
    "s' = write_index C (s\<lparr>nP2SHSigOps := nP2SHSigOps s' \<rparr>) (out_hash op)
        (e\<lparr>vSpent := (vSpent e)[unat (out_n op) := posThisTx C]\<rparr>)"
    using checks db disk mode
    by (auto simp: spend_ok_def op_def [symmetric] write_index_def not_le split: if_split_asm)
  show thesis
  proof (rule that)
    show "spend_ok E N C (ctxdb s) tx i e txPrev" by (rule facts(1))
    show "prevout (vin tx ! i) \<in> coins (ctxdb s)"
      using facts(2,3) db by (simp add: coins_spent_at spent_at_def flip: op_def)
    have "ctxdb s' = UpdateTxIndex (ctxdb s) (out_hash op)
        (e\<lparr>vSpent := (vSpent e)[unat (out_n op) := posThisTx C]\<rparr>)"
      by (subst facts(7)) (simp add: write_index_def mode)
    then show "ctxdb s' = set_spent (ctxdb s) (prevout (vin tx ! i)) (posThisTx C)"
      using db by (simp add: set_spent_def UpdateTxIndex_def flip: op_def)
    show "v' = v + coin_value (blockFiles C) (ctxdb s) (prevout (vin tx ! i))"
      using facts(6) i64_add_money [OF v facts(4)] db disk by (simp add: coin_value_def flip: op_def)
    show "MoneyRange v'" by (rule facts(5))
    show "nFees s' = nFees s"
      by (subst facts(7)) (simp add: write_index_def mode)
  qed
qed

section \<open>All the inputs of a transaction\<close>

lemma connect_loop_block:
  assumes mode: "fBlock C" "\<not> fMiner C" "\<not> CDiskTxPos_IsNull (posThisTx C)"
  shows "index_ok E (blockFiles C) (ctxdb s) \<Longrightarrow> MoneyRange v \<Longrightarrow>
    connect_loop E N C tx is (s, v) = Inr (s', v') \<Longrightarrow>
    (let ops = map (\<lambda>i. prevout (vin tx ! i)) is in
      distinct ops \<and> set ops \<subseteq> coins (ctxdb s) \<and>
      ctxdb s' = mark_all (posThisTx C) ops (ctxdb s) \<and>
      v' = v + sum_list (map (coin_value (blockFiles C) (ctxdb s)) ops) \<and>
      MoneyRange v' \<and> nFees s' = nFees s)"
proof (induction "is" arbitrary: s v)
  case Nil
  then show ?case by simp
next
  case (Cons i "is")
  obtain s1 v1 where step: "connect_input E N C tx i (s, v) = Inr (s1, v1)"
    and rest: "connect_loop E N C tx is (s1, v1) = Inr (s', v')"
    using Cons(4) by (cases "connect_input E N C tx i (s, v)") auto
  obtain e txPrev where one: "spend_ok E N C (ctxdb s) tx i e txPrev"
    "prevout (vin tx ! i) \<in> coins (ctxdb s)"
    "ctxdb s1 = set_spent (ctxdb s) (prevout (vin tx ! i)) (posThisTx C)"
    "v1 = v + coin_value (blockFiles C) (ctxdb s) (prevout (vin tx ! i))"
    "MoneyRange v1" "nFees s1 = nFees s"
    using connect_input_block [OF mode(1,2) Cons(2) step Cons(3)] .
  have "index_ok E (blockFiles C) (ctxdb s1)"
    using one(3) Cons(2) mode(3) by (simp add: index_ok_set_spent)
  then have IH: "let ops = map (\<lambda>i. prevout (vin tx ! i)) is in
      distinct ops \<and> set ops \<subseteq> coins (ctxdb s1) \<and>
      ctxdb s' = mark_all (posThisTx C) ops (ctxdb s1) \<and>
      v' = v1 + sum_list (map (coin_value (blockFiles C) (ctxdb s1)) ops) \<and>
      MoneyRange v' \<and> nFees s' = nFees s1"
    by (rule Cons(1) [OF _ one(5) rest])
  moreover have "coins (ctxdb s1) = coins (ctxdb s) - {prevout (vin tx ! i)}"
    using one(3) mode(3) by (simp add: coins_set_spent)
  ultimately show ?case using one by (auto simp: Let_def)
qed

definition prevouts :: "CTransaction \<Rightarrow> COutPoint list" where
  "prevouts tx = map prevout (vin tx)"

lemma prevouts_upt: "map (\<lambda>i. prevout (vin tx ! i)) [0..<length (vin tx)] = prevouts tx"
  using arg_cong [OF map_nth [of "vin tx"], of "map prevout"] by (simp only: prevouts_def map_map comp_def)

definition own_outpoints :: "ext \<Rightarrow> CTransaction \<Rightarrow> COutPoint set" where
  "own_outpoints E tx = {op. out_hash op = SerializeHash_tx E tx \<and> unat (out_n op) < length (vout tx)}"

definition value_out :: "CTransaction \<Rightarrow> int" where
  "value_out tx = sum_list (map nValue (vout tx))"

text \<open>The outputs the inputs of \<open>tx\<close> take: none for a coinbase.\<close>

definition spends :: "CTransaction \<Rightarrow> COutPoint list" where
  "spends tx = (if IsCoinBase tx then [] else prevouts tx)"

lemma ConnectInputs_block:
  assumes mode: "fBlock C" "\<not> fMiner C" "\<not> CDiskTxPos_IsNull (posThisTx C)"
    and ok: "index_ok E (blockFiles C) (ctxdb s)" and fees: "MoneyRange (nFees s)"
    and conn: "ConnectInputs E N C tx s = Inr s'"
  shows "distinct (spends tx) \<and> set (spends tx) \<subseteq> coins (ctxdb s) \<and>
    ctxdb s' = AddTxIndex E (mark_all (posThisTx C) (spends tx) (ctxdb s)) tx (posThisTx C) \<and>
    MoneyRange (nFees s') \<and>
    (IsCoinBase tx \<longrightarrow> nFees s' = nFees s) \<and>
    (\<not> IsCoinBase tx \<longrightarrow> 0 \<le> nFees s' - nFees s \<and>
       nFees s' - nFees s = sum_list (map (coin_value (blockFiles C) (ctxdb s)) (spends tx)) - value_out tx)"
proof (cases "IsCoinBase tx")
  case True
  then show ?thesis
    using conn mode fees by (auto simp: ConnectInputs_def Let_def spends_def)
next
  case False
  obtain s1 v where loop: "connect_loop E N C tx [0..<length (vin tx)] (s, 0) = Inr (s1, v)"
    using conn False by (auto simp: ConnectInputs_def Let_def split: sum.split_asm)
  obtain out where out: "GetValueOut tx = Inr out"
    using conn False loop by (auto simp: ConnectInputs_def Let_def split: sum.split_asm)
  note L = connect_loop_block [OF mode ok MoneyRange_0 loop, unfolded prevouts_upt Let_def]
  have outv: "out = value_out tx" "MoneyRange out"
    using out by (auto simp: GetValueOut_ok value_out_def MoneyRange_def intro!: sum_list_nonneg)
  have res: "nFees s' = i64 (nFees s1 + i64 (v - out))" "0 \<le> i64 (v - out)" "MoneyRange (nFees s')"
    "ctxdb s' = AddTxIndex E (ctxdb s1) tx (posThisTx C)"
    using conn False loop out mode by (auto simp: ConnectInputs_def Let_def split: if_split_asm)
  have fee: "i64 (v - out) = v - out"
    by (rule i64_id) (use L outv in \<open>simp add: in_i64_def MoneyRange_def MAX_MONEY_def COIN_def\<close>)
  then have "MoneyRange (v - out)" using res(2) L outv by (simp add: MoneyRange_def)
  then have "nFees s' = nFees s + (v - out)"
    using res(1) fee i64_add_money [OF fees] L by simp
  then show ?thesis using False L res fee outv by (simp add: spends_def)
qed

section \<open>Adding the transaction's own outputs\<close>

definition no_coins_of :: "uint256 \<Rightarrow> txdb \<Rightarrow> bool" where
  "no_coins_of h db \<longleftrightarrow> (\<forall>op \<in> coins db. out_hash op \<noteq> h)"

lemma coins_AddTxIndex:
  "coins (AddTxIndex E db tx p) =
    {op \<in> coins db. out_hash op \<noteq> SerializeHash_tx E tx} \<union> own_outpoints E tx"
  by (auto simp: coins_def AddTxIndex_def txdb.unspent_new own_outpoints_def)

lemma coins_EraseTxIndex:
  "coins (EraseTxIndex E db tx) = {op \<in> coins db. out_hash op \<noteq> SerializeHash_tx E tx}"
  using txdb.unspent_erase [of db "SerializeHash_tx E tx"]
  by (auto simp: coins_def EraseTxIndex_def erase_entry_def)

lemma sum_own_outpoints:
  assumes "length (vout tx) < 2 ^ 32"
  shows "(\<Sum>op \<in> own_outpoints E tx. nValue (vout tx ! unat (out_n op))) = value_out tx"
proof -
  define outp :: "nat \<Rightarrow> COutPoint" where
    "outp n = \<lparr>out_hash = SerializeHash_tx E tx, out_n = word_of_nat n\<rparr>" for n
  have num: "unat (word_of_nat n :: u32) = n" if "n < length (vout tx)" for n
    using that assms by (simp add: unat_of_nat)
  have "inj_on outp {..<length (vout tx)}"
    by (rule inj_onI) (metis outp_def num lessThan_iff COutPoint.select_convs(2))
  moreover have "outp ` {..<length (vout tx)} = own_outpoints E tx"
  proof -
    have "op = outp (unat (out_n op))" if "out_hash op = SerializeHash_tx E tx" for op
      using that by (simp add: outp_def)
    then have "own_outpoints E tx \<subseteq> outp ` {..<length (vout tx)}"
      by (auto simp: own_outpoints_def intro!: image_eqI)
    moreover have "outp ` {..<length (vout tx)} \<subseteq> own_outpoints E tx"
      using num by (auto simp: own_outpoints_def outp_def)
    ultimately show ?thesis by blast
  qed
  ultimately have "(\<Sum>op \<in> own_outpoints E tx. nValue (vout tx ! unat (out_n op))) =
      (\<Sum>n<length (vout tx). nValue (vout tx ! unat (out_n (outp n))))"
    by (metis (no_types, lifting) sum.reindex_cong)
  also have "\<dots> = (\<Sum>n<length (vout tx). nValue (vout tx ! n))"
    by (rule sum.cong [OF refl]) (simp add: outp_def num)
  also have "\<dots> = value_out tx"
    by (simp add: value_out_def sum_list_sum_nth lessThan_atLeast0)
  finally show ?thesis .
qed

lemma total_value_add:
  assumes fresh: "no_coins_of (SerializeHash_tx E tx) db" and len: "length (vout tx) < 2 ^ 32"
    and disk: "tx_ReadFromDisk files p = Some tx"
  shows "total_value files (AddTxIndex E db tx p) = total_value files db + value_out tx"
proof -
  let ?h = "SerializeHash_tx E tx"
  have old: "{op \<in> coins db. out_hash op \<noteq> ?h} = coins db"
    using fresh by (auto simp: no_coins_of_def)
  have disjoint: "coins db \<inter> own_outpoints E tx = {}"
    using fresh by (auto simp: no_coins_of_def own_outpoints_def)
  have "total_value files (AddTxIndex E db tx p) =
      (\<Sum>op \<in> coins db. coin_value files (AddTxIndex E db tx p) op) +
      (\<Sum>op \<in> own_outpoints E tx. coin_value files (AddTxIndex E db tx p) op)"
    by (simp add: total_value_def coins_AddTxIndex old sum.union_disjoint disjoint)
  also have "(\<Sum>op \<in> coins db. coin_value files (AddTxIndex E db tx p) op) = total_value files db"
    unfolding total_value_def
    by (rule sum.cong [OF refl])
      (use fresh in \<open>simp add: coin_value_def AddTxIndex_def UpdateTxIndex_def no_coins_of_def\<close>)
  also have "(\<Sum>op \<in> own_outpoints E tx. coin_value files (AddTxIndex E db tx p) op) =
      (\<Sum>op \<in> own_outpoints E tx. nValue (vout tx ! unat (out_n op)))"
    by (rule sum.cong [OF refl])
      (simp add: coin_value_def AddTxIndex_def UpdateTxIndex_def own_outpoints_def new_CTxIndex_def disk)
  finally show ?thesis by (simp add: sum_own_outpoints [OF len])
qed

lemma no_coins_of_mark_all:
  "no_coins_of h db \<Longrightarrow> \<not> CDiskTxPos_IsNull p \<Longrightarrow> no_coins_of h (mark_all p ops db)"
  by (simp add: no_coins_of_def coins_mark_all)

text \<open>One connected transaction: the new set of coins, and the new total.\<close>

definition connect_mode :: "connect_ctx \<Rightarrow> CTransaction \<Rightarrow> bool" where
  "connect_mode C tx \<longleftrightarrow> fBlock C \<and> \<not> fMiner C \<and> \<not> CDiskTxPos_IsNull (posThisTx C) \<and>
    posThisTx C \<noteq> pos_in_pool \<and> tx_ReadFromDisk (blockFiles C) (posThisTx C) = Some tx"

lemma connect_tx:
  assumes mode: "connect_mode C tx" and ok: "index_ok E (blockFiles C) (ctxdb s)"
    and fees: "MoneyRange (nFees s)" and len: "length (vout tx) < 2 ^ 32"
    and fresh: "no_coins_of (SerializeHash_tx E tx) (ctxdb s)"
    and conn: "ConnectInputs E N C tx s = Inr s'"
  shows "coins (ctxdb s') = coins (ctxdb s) - set (spends tx) \<union> own_outpoints E tx"
    and "index_ok E (blockFiles C) (ctxdb s')"
    and "MoneyRange (nFees s')"
    and "IsCoinBase tx \<Longrightarrow> nFees s' = nFees s \<and>
      total_value (blockFiles C) (ctxdb s') = total_value (blockFiles C) (ctxdb s) + value_out tx"
    and "\<not> IsCoinBase tx \<Longrightarrow> nFees s \<le> nFees s' \<and>
      total_value (blockFiles C) (ctxdb s') =
        total_value (blockFiles C) (ctxdb s) - (nFees s' - nFees s)"
proof -
  have m: "fBlock C" "\<not> fMiner C" "\<not> CDiskTxPos_IsNull (posThisTx C)"
    using mode by (simp_all add: connect_mode_def)
  note F = ConnectInputs_block [OF m ok fees conn]
  define db1 where "db1 = mark_all (posThisTx C) (spends tx) (ctxdb s)"
  have db': "ctxdb s' = AddTxIndex E db1 tx (posThisTx C)" using F by (simp add: db1_def)
  have fresh1: "no_coins_of (SerializeHash_tx E tx) db1"
    unfolding db1_def by (rule no_coins_of_mark_all [OF fresh m(3)])
  have coins1: "coins db1 = coins (ctxdb s) - set (spends tx)"
    by (simp add: db1_def coins_mark_all [OF m(3)])
  show "coins (ctxdb s') = coins (ctxdb s) - set (spends tx) \<union> own_outpoints E tx"
    using fresh1 by (auto simp: db' coins_AddTxIndex coins1 no_coins_of_def)
  show "index_ok E (blockFiles C) (ctxdb s')"
    unfolding db' by (rule index_ok_add) (use mode ok in \<open>simp_all add: connect_mode_def db1_def index_ok_mark_all\<close>)
  show "MoneyRange (nFees s')" using F by simp
  have total: "total_value (blockFiles C) (ctxdb s') = total_value (blockFiles C) (ctxdb s) -
      sum_list (map (coin_value (blockFiles C) (ctxdb s)) (spends tx)) + value_out tx"
    using total_value_add [OF fresh1 len, of "blockFiles C" "posThisTx C"] mode F
      total_value_mark_all [OF m(3), of "spends tx" "ctxdb s" "blockFiles C"]
    by (simp add: db' db1_def connect_mode_def)
  show "nFees s' = nFees s \<and>
      total_value (blockFiles C) (ctxdb s') = total_value (blockFiles C) (ctxdb s) + value_out tx"
    if "IsCoinBase tx"
    using F total that by (simp add: spends_def)
  show "nFees s \<le> nFees s' \<and> total_value (blockFiles C) (ctxdb s') =
        total_value (blockFiles C) (ctxdb s) - (nFees s' - nFees s)"
    if "\<not> IsCoinBase tx"
    using F total that by simp
qed

section \<open>Disconnecting is the inverse\<close>

lemma disconnect_loop_mark:
  "\<forall>x \<in> set ins. spent_at db (prevout x) \<noteq> None \<Longrightarrow>
    disconnect_loop ins db = Inr (mark_all CDiskTxPos_SetNull (map prevout ins) db)"
proof (induction ins arbitrary: db)
  case (Cons x ins)
  then obtain e where e: "db (out_hash (prevout x)) = Some e" "unat (out_n (prevout x)) < length (vSpent e)"
    by (auto simp: spent_at_def split: option.split_asm if_split_asm)
  have upd: "UpdateTxIndex db (out_hash (prevout x))
      (e\<lparr>vSpent := (vSpent e)[unat (out_n (prevout x)) := CDiskTxPos_SetNull]\<rparr>) =
      set_spent db (prevout x) CDiskTxPos_SetNull"
    using e by (simp add: set_spent_def UpdateTxIndex_def)
  have "\<forall>y \<in> set ins. spent_at (set_spent db (prevout x) CDiskTxPos_SetNull) (prevout y) \<noteq> None"
    using Cons(2) by (auto simp: spent_at_set)
  then show ?case using Cons(1) e by (simp add: ReadTxIndex_def Let_def upd)
qed simp

lemma mark_all_upd:
  "\<forall>op \<in> set ops. out_hash op \<noteq> h \<Longrightarrow> mark_all q ops (db(h \<mapsto> e)) = (mark_all q ops db)(h \<mapsto> e)"
proof (induction ops arbitrary: db)
  case (Cons op ops)
  then have upd: "set_spent (db(h \<mapsto> e)) op q = (set_spent db op q)(h \<mapsto> e)"
    by (auto simp: set_spent_def fun_eq_iff split: option.split)
  have "mark_all q ops ((set_spent db op q)(h \<mapsto> e)) = (mark_all q ops (set_spent db op q))(h \<mapsto> e)"
    by (rule Cons(1)) (use Cons(2) in simp)
  then show ?case by (simp only: mark_all_simps upd)
qed simp

lemma spent_at_mark_all: "spent_at (mark_all p ops db) op = None \<longleftrightarrow> spent_at db op = None"
  by (induction ops arbitrary: db) (auto simp: spent_at_set)

lemma disconnect_connect:
  assumes mode: "fBlock C" "\<not> fMiner C" "\<not> CDiskTxPos_IsNull (posThisTx C)"
    and ok: "index_ok E (blockFiles C) (ctxdb s)" and fees: "MoneyRange (nFees s)"
    and fresh: "ctxdb s (SerializeHash_tx E tx) = None"
    and conn: "ConnectInputs E N C tx s = Inr s'"
  shows "DisconnectInputs E tx (ctxdb s') = Inr (ctxdb s)"
proof -
  define h where "h = SerializeHash_tx E tx"
  define db1 where "db1 = mark_all (posThisTx C) (spends tx) (ctxdb s)"
  define e where "e = new_CTxIndex (posThisTx C) (length (vout tx))"
  note F = ConnectInputs_block [OF mode ok fees conn]
  have db': "ctxdb s' = db1(h \<mapsto> e)"
    using F by (simp add: db1_def h_def e_def AddTxIndex_def UpdateTxIndex_def)
  have null: "\<forall>op \<in> set (spends tx). spent_at (ctxdb s) op = Some CDiskTxPos_SetNull"
    using F index_ok_coin [OF ok] by blast
  then have other: "\<forall>op \<in> set (spends tx). out_hash op \<noteq> h"
    using fresh by (auto simp: spent_at_def h_def split: option.split_asm)
  have undo: "mark_all CDiskTxPos_SetNull (spends tx) (db1(h \<mapsto> e)) = (ctxdb s)(h \<mapsto> e)"
    using F null other by (simp add: mark_all_upd db1_def mark_all_undo)
  have present: "\<forall>op \<in> set (spends tx). spent_at (db1(h \<mapsto> e)) op \<noteq> None"
  proof
    fix op assume op: "op \<in> set (spends tx)"
    then have "spent_at (db1(h \<mapsto> e)) op = spent_at db1 op" using other by (simp add: spent_at_def)
    then show "spent_at (db1(h \<mapsto> e)) op \<noteq> None" using op null by (simp add: db1_def spent_at_mark_all)
  qed
  have "(if IsCoinBase tx then Inr (ctxdb s') else disconnect_loop (vin tx) (ctxdb s')) =
      Inr ((ctxdb s)(h \<mapsto> e))"
  proof (cases "IsCoinBase tx")
    case True
    then show ?thesis using undo by (simp add: db' spends_def)
  next
    case False
    then have "\<forall>x \<in> set (vin tx). spent_at (ctxdb s') (prevout x) \<noteq> None"
      using present by (simp add: db' spends_def prevouts_def)
    then show ?thesis
      using False undo by (simp add: disconnect_loop_mark db' spends_def prevouts_def)
  qed
  moreover have "EraseTxIndex E ((ctxdb s)(h \<mapsto> e)) tx = ctxdb s"
    using fresh by (auto simp: EraseTxIndex_def h_def fun_eq_iff)
  ultimately show ?thesis by (simp add: DisconnectInputs_def)
qed

end
