(* ===== verification/ConnectBlock.thy ===== *)
theory ConnectBlock
  imports Coins
begin

text \<open>
  \<^verbatim>\<open>CBlock::ConnectBlock\<close> and \<^verbatim>\<open>DisconnectBlock\<close>: a block is connected when each of its
  transactions connects in turn to the index left by the ones before, its coinbase claims no
  more than the subsidy and the fees, and, from rules v2 on, no transaction replaces one that
  still has unspent outputs.
\<close>

datatype connect_block_error =
    AlreadyExistsUnspent | InputsFailed connect_error | SigOpsWithRedeemScripts
  | CoinbaseValueInvalid tx_error | CoinbasePaysTooMuch | SubsidyUndefined

text \<open>
  The globals a block is connected against: the block files, \<open>BlockIndexAtDiskPos\<close> on the
  index, the memory pool, the node's clock and the tip \<^verbatim>\<open>pindexBest\<close>.
\<close>

record chain_view =
  viewFiles :: "u32 \<Rightarrow> bytes option"
  viewBlockAt :: "disk_pos \<Rightarrow> chain option"
  viewPool :: "uint256 \<rightharpoonup> CTransaction"
  viewAdjustedTime :: int
  viewBest :: chain

text \<open>
  What \<open>ConnectBlock\<close> passes to \<open>ConnectInputs\<close> for the transaction at \<open>p\<close>: \<open>pindex\<close> is the
  chain that ends in the block, its tail the parent \<^verbatim>\<open>pindex->pprev\<close>, for which the tip stands
  in when there is none; the clock stands in for the time of a block whose time is zero.
\<close>

definition block_ctx :: "chain_view \<Rightarrow> chain \<Rightarrow> CBlock \<Rightarrow> u32 \<Rightarrow> connect_ctx" where
  "block_ctx V pindex b p =
    \<lparr>fBlock = True, fMiner = False,
     posThisTx = \<lparr>pos_nFile = nFile (hd pindex), pos_nBlockPos = nBlockPos (hd pindex), pos_nTxPos = p\<rparr>,
     nMinFee = 0,
     pindexPrev = (if tl pindex = [] then viewBest V else tl pindex),
     nRulesTime = (if nTime b \<noteq> 0 then unat (nTime b) else u32_of (viewAdjustedTime V)),
     mapTransactions = viewPool V, blockFiles = viewFiles V, blockIndexAt = viewBlockAt V\<rparr>"

lemma block_ctx_sel [simp]:
  "fBlock (block_ctx V pindex b p)" "\<not> fMiner (block_ctx V pindex b p)"
  "blockFiles (block_ctx V pindex b p) = viewFiles V"
  by (simp_all add: block_ctx_def)

definition bip30_conflict :: "ext \<Rightarrow> txdb \<Rightarrow> CTransaction \<Rightarrow> bool" where
  "bip30_conflict E db tx =
    (case ReadTxIndex db (SerializeHash_tx E tx) of None \<Rightarrow> False
     | Some txindexOld \<Rightarrow> list_ex CDiskTxPos_IsNull (vSpent txindexOld))"

text \<open>The loop over the transactions and their positions.\<close>

fun connect_txs ::
    "ext \<Rightarrow> net_params \<Rightarrow> chain_view \<Rightarrow> chain \<Rightarrow> CBlock \<Rightarrow> CTransaction list \<Rightarrow> u32 list \<Rightarrow>
      connect_state \<Rightarrow> connect_block_error + connect_state" where
  "connect_txs E N V pindex b (tx # txs) (p # ps) s =
    (if RulesV2Active N (unat (nTime b)) \<and> bip30_conflict E (ctxdb s) tx then Inl AlreadyExistsUnspent
     else case ConnectInputs E N (block_ctx V pindex b p) tx s of
            Inl e \<Rightarrow> Inl (InputsFailed e)
          | Inr s' \<Rightarrow>
              if MAX_BLOCK_SIGOPS < nP2SHSigOps s' then Inl SigOpsWithRedeemScripts
              else connect_txs E N V pindex b txs ps s')"
| "connect_txs E N V pindex b _ _ s = Inr s"

definition ConnectBlock ::
    "ext \<Rightarrow> net_params \<Rightarrow> chain_view \<Rightarrow> chain \<Rightarrow> CBlock \<Rightarrow> txdb \<Rightarrow> connect_block_error + txdb" where
  "ConnectBlock E N V pindex b db =
    (let s0 = \<lparr>ctxdb = db, mapTestPool = Map.empty, nFees = 0, nP2SHSigOps = block_sigops N b\<rparr>
     in case connect_txs E N V pindex b (vtx b)
               (tx_positions (first_tx_pos (nBlockPos (hd pindex)) b) (vtx b)) s0 of
          Inl e \<Rightarrow> Inl e
        | Inr s \<Rightarrow>
           (case GetValueOut (vtx b ! 0) of
              Inl e \<Rightarrow> Inl (CoinbaseValueInvalid e)
            | Inr claimed \<Rightarrow>
               (case GetBlockValue (nHeight (hd pindex)) (nFees s) of
                  None \<Rightarrow> Inl SubsidyUndefined
                | Some allowed \<Rightarrow> if allowed < claimed then Inl CoinbasePaysTooMuch else Inr (ctxdb s))))"

fun disconnect_txs :: "ext \<Rightarrow> CTransaction list \<Rightarrow> txdb \<Rightarrow> disconnect_error + txdb" where
  "disconnect_txs E [] db = Inr db"
| "disconnect_txs E (tx # txs) db =
    (case DisconnectInputs E tx db of Inl e \<Rightarrow> Inl e | Inr db' \<Rightarrow> disconnect_txs E txs db')"

definition DisconnectBlock :: "ext \<Rightarrow> CBlock \<Rightarrow> txdb \<Rightarrow> disconnect_error + txdb" where
  "DisconnectBlock E b db = disconnect_txs E (rev (vtx b)) db"

section \<open>The rule against duplicates\<close>

lemma bip30_no_coins:
  assumes "\<not> bip30_conflict E db tx"
  shows "no_coins_of (SerializeHash_tx E tx) db"
  using assms
  by (fastforce simp: bip30_conflict_def no_coins_of_def coins_def entry_unspent_def list_ex_iff
      split: option.split_asm)

lemma disconnect_txs_append:
  "disconnect_txs E (xs @ ys) db =
    (case disconnect_txs E xs db of Inl e \<Rightarrow> Inl e | Inr db' \<Rightarrow> disconnect_txs E ys db')"
  by (induction xs arbitrary: db) (auto split: sum.split)

section \<open>Reading the block back\<close>

text \<open>
  A block being connected is on disk at the position its index entry names, in a file whose
  number is a valid one.
\<close>

definition stored :: "chain_view \<Rightarrow> chain \<Rightarrow> CBlock \<Rightarrow> bool" where
  "stored V pindex b \<longleftrightarrow>
    on_disk (viewFiles V) (nFile (hd pindex)) (nBlockPos (hd pindex)) b \<and> wf_CBlock b \<and>
    nFile (hd pindex) \<noteq> - 1 \<and> nBlockPos (hd pindex) \<noteq> 1"

lemma connect_mode_tx:
  assumes "stored V pindex b" "i < length (vtx b)"
  shows "connect_mode (block_ctx V pindex b (tx_positions (first_tx_pos (nBlockPos (hd pindex)) b) (vtx b) ! i))
    (vtx b ! i)"
  using assms read_back [of "viewFiles V" "nFile (hd pindex)" "nBlockPos (hd pindex)" b i]
  by (auto simp: connect_mode_def block_ctx_def stored_def CDiskTxPos_IsNull_def pos_in_pool_def)

section \<open>The ledger\<close>

text \<open>
  The abstract rule: a list of transactions turns a set of unspent outpoints into another.
  Each transaction names distinct outpoints of the set and takes them out, puts its own in,
  and none of its own is there already.
\<close>

fun ledger :: "ext \<Rightarrow> CTransaction list \<Rightarrow> COutPoint set \<Rightarrow> COutPoint set option" where
  "ledger E [] S = Some S"
| "ledger E (tx # txs) S =
    (if distinct (spends tx) \<and> set (spends tx) \<subseteq> S \<and> (\<forall>op \<in> S. out_hash op \<noteq> SerializeHash_tx E tx)
     then ledger E txs (S - set (spends tx) \<union> own_outpoints E tx) else None)"

definition coinbase_out :: "CTransaction list \<Rightarrow> int" where
  "coinbase_out txs = sum_list (map value_out (filter IsCoinBase txs))"

lemma connect_txs_ledger:
  assumes "list_all2 (\<lambda>tx p. connect_mode (block_ctx V pindex b p) tx) txs ps"
    and "\<forall>tx \<in> set txs. length (vout tx) < 2 ^ 32"
    and "RulesV2Active N (unat (nTime b))"
    and "index_ok E (viewFiles V) (ctxdb s)" "MoneyRange (nFees s)"
    and "connect_txs E N V pindex b txs ps s = Inr s'"
  shows "ledger E txs (coins (ctxdb s)) = Some (coins (ctxdb s')) \<and>
    index_ok E (viewFiles V) (ctxdb s') \<and> MoneyRange (nFees s') \<and>
    total_value (viewFiles V) (ctxdb s') + nFees s' =
      total_value (viewFiles V) (ctxdb s) + nFees s + coinbase_out txs"
  using assms
proof (induction txs ps arbitrary: s rule: list_all2_induct)
  case Nil
  then show ?case by (simp add: coinbase_out_def)
next
  case (Cons tx txs p ps)
  let ?C = "block_ctx V pindex b p"
  have "\<not> bip30_conflict E (ctxdb s) tx" using Cons by auto
  then have fresh: "no_coins_of (SerializeHash_tx E tx) (ctxdb s)" by (rule bip30_no_coins)
  obtain s1 where conn: "ConnectInputs E N ?C tx s = Inr s1"
    and rest: "connect_txs E N V pindex b txs ps s1 = Inr s'"
    using Cons by (auto split: if_split_asm sum.split_asm)
  have ok: "index_ok E (blockFiles ?C) (ctxdb s)" using Cons by simp
  have len: "length (vout tx) < 2 ^ 32" using Cons by simp
  have mode: "connect_mode ?C tx" by (rule Cons(1))
  note T = connect_tx [OF mode ok Cons(7) len fresh conn]
  have C: "fBlock ?C" "\<not> fMiner ?C" "\<not> CDiskTxPos_IsNull (posThisTx ?C)"
    using mode by (simp_all add: connect_mode_def)
  have spent: "distinct (spends tx)" "set (spends tx) \<subseteq> coins (ctxdb s)"
    using ConnectInputs_block [OF C ok Cons(7) conn] by simp_all
  have "ledger E txs (coins (ctxdb s1)) = Some (coins (ctxdb s')) \<and>
      index_ok E (viewFiles V) (ctxdb s') \<and> MoneyRange (nFees s') \<and>
      total_value (viewFiles V) (ctxdb s') + nFees s' =
        total_value (viewFiles V) (ctxdb s1) + nFees s1 + coinbase_out txs"
    by (rule Cons(3)) (use Cons T rest in simp_all)
  then show ?case
    using T spent fresh by (cases "IsCoinBase tx") (auto simp: coinbase_out_def no_coins_of_def)
qed

section \<open>A whole block\<close>

definition block_positions :: "chain \<Rightarrow> CBlock \<Rightarrow> u32 list" where
  "block_positions pindex b = tx_positions (first_tx_pos (nBlockPos (hd pindex)) b) (vtx b)"

lemma stored_modes:
  "stored V pindex b \<Longrightarrow>
    list_all2 (\<lambda>tx p. connect_mode (block_ctx V pindex b p) tx) (vtx b) (block_positions pindex b)"
  by (simp add: list_all2_conv_all_nth block_positions_def connect_mode_tx)

lemma stored_outputs: "stored V pindex b \<Longrightarrow> tx \<in> set (vtx b) \<Longrightarrow> length (vout tx) < 2 ^ 32"
  by (auto simp: stored_def wf_CBlock_def wf_CTransaction_def list_all_iff MAX_SIZE_def)

lemma ConnectBlock_cases:
  assumes "ConnectBlock E N V pindex b db = Inr db'"
  obtains s claimed allowed where
    "connect_txs E N V pindex b (vtx b) (block_positions pindex b)
      \<lparr>ctxdb = db, mapTestPool = Map.empty, nFees = 0, nP2SHSigOps = block_sigops N b\<rparr> = Inr s"
    "GetValueOut (vtx b ! 0) = Inr claimed" "GetBlockValue (nHeight (hd pindex)) (nFees s) = Some allowed"
    "claimed \<le> allowed" "db' = ctxdb s"
  using assms
  by (auto simp: ConnectBlock_def Let_def block_positions_def
      split: sum.split_asm option.split_asm if_split_asm)

lemma ConnectBlock_ledger:
  assumes stored: "stored V pindex b" and v2: "RulesV2Active N (unat (nTime b))"
    and ok: "index_ok E (viewFiles V) db"
    and conn: "ConnectBlock E N V pindex b db = Inr db'"
  shows "ledger E (vtx b) (coins db) = Some (coins db')" "index_ok E (viewFiles V) db'"
proof -
  obtain s where "connect_txs E N V pindex b (vtx b) (block_positions pindex b)
      \<lparr>ctxdb = db, mapTestPool = Map.empty, nFees = 0, nP2SHSigOps = block_sigops N b\<rparr> = Inr s"
    and "db' = ctxdb s"
    using ConnectBlock_cases [OF conn] .
  then show "ledger E (vtx b) (coins db) = Some (coins db')" "index_ok E (viewFiles V) db'"
    using connect_txs_ledger [OF stored_modes [OF stored] _ v2, of E
        "\<lparr>ctxdb = db, mapTestPool = Map.empty, nFees = 0, nP2SHSigOps = block_sigops N b\<rparr>" s]
      stored_outputs [OF stored] ok by simp_all
qed

lemma ConnectBlock_supply:
  assumes stored: "stored V pindex b" and v2: "RulesV2Active N (unat (nTime b))"
    and ok: "index_ok E (viewFiles V) db"
    and conn: "ConnectBlock E N V pindex b db = Inr db'"
    and first: "vtx b \<noteq> []" "IsCoinBase (hd (vtx b))" "\<forall>tx \<in> set (tl (vtx b)). \<not> IsCoinBase tx"
    and height: "0 \<le> nHeight (hd pindex)"
  shows "total_value (viewFiles V) db' \<le>
    total_value (viewFiles V) db + subsidy (nat (nHeight (hd pindex)))"
proof -
  obtain s claimed allowed where run: "connect_txs E N V pindex b (vtx b) (block_positions pindex b)
      \<lparr>ctxdb = db, mapTestPool = Map.empty, nFees = 0, nP2SHSigOps = block_sigops N b\<rparr> = Inr s"
    and claim: "GetValueOut (vtx b ! 0) = Inr claimed"
      "GetBlockValue (nHeight (hd pindex)) (nFees s) = Some allowed" "claimed \<le> allowed"
    and db': "db' = ctxdb s"
    using ConnectBlock_cases [OF conn] .
  have T: "MoneyRange (nFees s)"
    "total_value (viewFiles V) db' + nFees s = total_value (viewFiles V) db + coinbase_out (vtx b)"
    using connect_txs_ledger [OF stored_modes [OF stored] _ v2 _ _ run]
      stored_outputs [OF stored] ok by (simp_all add: db')
  obtain cb rest where b: "vtx b = cb # rest" using first(1) by (cases "vtx b") simp_all
  have "filter IsCoinBase rest = []" using first(3) by (simp add: b filter_empty_conv)
  then have "coinbase_out (vtx b) = claimed"
    using first(2) claim(1) by (simp add: coinbase_out_def b value_out_def GetValueOut_ok)
  moreover have "nHeight (hd pindex) < 13440000"
    using GetBlockValue_defined [OF height] claim(2) by (metis option.distinct(1))
  then have "allowed = 50 * COIN div 2 ^ nat (nHeight (hd pindex) div 210000) + nFees s"
    using GetBlockValue_value [OF height _ T(1)] claim(2) by simp
  moreover have "nat (nHeight (hd pindex) div 210000) = nat (nHeight (hd pindex)) div 210000"
    using height by (simp add: nat_div_distrib)
  ultimately show ?thesis using T claim(3) by (simp add: subsidy_def)
qed

section \<open>Disconnecting gives the index back\<close>

lemma connect_txs_disconnect:
  assumes "list_all2 (\<lambda>tx p. connect_mode (block_ctx V pindex b p) tx) txs ps"
    and "\<forall>tx \<in> set txs. length (vout tx) < 2 ^ 32"
    and "index_ok E (viewFiles V) (ctxdb s)" "MoneyRange (nFees s)"
    and "distinct (map (SerializeHash_tx E) txs)"
    and "\<forall>tx \<in> set txs. ctxdb s (SerializeHash_tx E tx) = None"
    and "connect_txs E N V pindex b txs ps s = Inr s'"
  shows "disconnect_txs E (rev txs) (ctxdb s') = Inr (ctxdb s)"
  using assms
proof (induction txs ps arbitrary: s rule: list_all2_induct)
  case Nil
  then show ?case by simp
next
  case (Cons tx txs p ps)
  let ?C = "block_ctx V pindex b p"
  obtain s1 where conn: "ConnectInputs E N ?C tx s = Inr s1"
    and rest: "connect_txs E N V pindex b txs ps s1 = Inr s'"
    using Cons by (auto split: if_split_asm sum.split_asm)
  have ok: "index_ok E (blockFiles ?C) (ctxdb s)" using Cons by simp
  have C: "fBlock ?C" "\<not> fMiner ?C" "\<not> CDiskTxPos_IsNull (posThisTx ?C)"
    using Cons(1) by (simp_all add: connect_mode_def)
  have fresh: "ctxdb s (SerializeHash_tx E tx) = None" using Cons by simp
  note F = ConnectInputs_block [OF C ok Cons(6) conn]
  have "\<not> bip30_conflict E (ctxdb s) tx" using fresh by (simp add: bip30_conflict_def ReadTxIndex_def)
  then have "index_ok E (blockFiles ?C) (ctxdb s1)"
    using connect_tx(2) [OF Cons(1) ok Cons(6) _ bip30_no_coins conn] Cons by simp
  moreover have "ctxdb s1 (SerializeHash_tx E t) = None" if "t \<in> set txs" for t
  proof -
    have "SerializeHash_tx E t \<in> set (map (SerializeHash_tx E) txs)" using that by simp
    then have "SerializeHash_tx E t \<noteq> SerializeHash_tx E tx"
      using Cons(7) by (metis distinct.simps(2) list.simps(9))
    then show ?thesis using F Cons(8) that by (simp add: AddTxIndex_def UpdateTxIndex_def)
  qed
  ultimately have "disconnect_txs E (rev txs) (ctxdb s') = Inr (ctxdb s1)"
    using Cons F rest by (intro Cons(3)) auto
  moreover have "DisconnectInputs E tx (ctxdb s1) = Inr (ctxdb s)"
    by (rule disconnect_connect [OF C ok Cons(6) fresh conn])
  ultimately show ?case by (simp add: disconnect_txs_append)
qed

lemma ConnectBlock_disconnect:
  assumes stored: "stored V pindex b" and ok: "index_ok E (viewFiles V) db"
    and fresh: "distinct (tx_hashes E b)" "\<forall>h \<in> set (tx_hashes E b). db h = None"
    and conn: "ConnectBlock E N V pindex b db = Inr db'"
  shows "DisconnectBlock E b db' = Inr db"
proof -
  obtain s where "connect_txs E N V pindex b (vtx b) (block_positions pindex b)
      \<lparr>ctxdb = db, mapTestPool = Map.empty, nFees = 0, nP2SHSigOps = block_sigops N b\<rparr> = Inr s"
    and "db' = ctxdb s"
    using ConnectBlock_cases [OF conn] .
  then show ?thesis
    using connect_txs_disconnect [OF stored_modes [OF stored], where E = E and N = N and s' = s and
        s = "\<lparr>ctxdb = db, mapTestPool = Map.empty, nFees = 0, nP2SHSigOps = block_sigops N b\<rparr>"]
      stored_outputs [OF stored] ok fresh
    by (simp add: DisconnectBlock_def tx_hashes_def)
qed

end
