(* ===== verification/Supply.thy ===== *)
theory Supply
  imports ConnectBlock
begin

text \<open>
  The money supply: whatever blocks are connected one after the other from the genesis
  block on, the unspent outputs of the index are together worth at most the subsidies of the
  blocks connected.  The argument does not need the rule against duplicates, so it covers the
  blocks from before rules v2 too: replacing an entry can only destroy value.
\<close>

definition values_ok :: "(u32 \<Rightarrow> bytes option) \<Rightarrow> txdb \<Rightarrow> bool" where
  "values_ok files db \<longleftrightarrow> (\<forall>op \<in> coins db. 0 \<le> coin_value files db op)"

lemma coin_value_add:
  "coin_value files (AddTxIndex E db tx p) op =
    (if out_hash op = SerializeHash_tx E tx
     then (case tx_ReadFromDisk files p of None \<Rightarrow> 0 | Some t \<Rightarrow> nValue (vout t ! unat (out_n op)))
     else coin_value files db op)"
  by (simp add: coin_value_def AddTxIndex_def UpdateTxIndex_def new_CTxIndex_def)

lemma values_ok_mark_all:
  "values_ok files db \<Longrightarrow> \<not> CDiskTxPos_IsNull p \<Longrightarrow> values_ok files (mark_all p ops db)"
  by (simp add: values_ok_def coins_mark_all)

lemma values_ok_add:
  assumes "values_ok files db" "tx_ReadFromDisk files p = Some tx" "\<forall>x \<in> set (vout tx). 0 \<le> nValue x"
  shows "values_ok files (AddTxIndex E db tx p)"
  using assms by (auto simp: values_ok_def coins_AddTxIndex coin_value_add own_outpoints_def)

lemma total_value_add_le:
  assumes ok: "values_ok files db" and len: "length (vout tx) < 2 ^ 32"
    and disk: "tx_ReadFromDisk files p = Some tx"
  shows "total_value files (AddTxIndex E db tx p) \<le> total_value files db + value_out tx"
proof -
  let ?keep = "{op \<in> coins db. out_hash op \<noteq> SerializeHash_tx E tx}"
  have "total_value files (AddTxIndex E db tx p) =
      (\<Sum>op \<in> ?keep. coin_value files (AddTxIndex E db tx p) op) +
      (\<Sum>op \<in> own_outpoints E tx. coin_value files (AddTxIndex E db tx p) op)"
    unfolding total_value_def coins_AddTxIndex
    by (rule sum.union_disjoint) (auto simp: own_outpoints_def)
  also have "(\<Sum>op \<in> ?keep. coin_value files (AddTxIndex E db tx p) op) = (\<Sum>op \<in> ?keep. coin_value files db op)"
    by (rule sum.cong [OF refl]) (simp add: coin_value_add)
  also have "(\<Sum>op \<in> own_outpoints E tx. coin_value files (AddTxIndex E db tx p) op) =
      (\<Sum>op \<in> own_outpoints E tx. nValue (vout tx ! unat (out_n op)))"
    by (rule sum.cong [OF refl]) (simp add: coin_value_add own_outpoints_def disk)
  also have "\<dots> = value_out tx" by (rule sum_own_outpoints [OF len])
  also have "(\<Sum>op \<in> ?keep. coin_value files db op) \<le> total_value files db"
    unfolding total_value_def
    by (rule sum_mono2) (use ok in \<open>auto simp: values_ok_def\<close>)
  finally show ?thesis by simp
qed

text \<open>One transaction, then the transactions of a block.\<close>

lemma connect_tx_le:
  assumes mode: "connect_mode C tx" and ok: "index_ok E (blockFiles C) (ctxdb s)"
    and vals: "values_ok (blockFiles C) (ctxdb s)"
    and fees: "MoneyRange (nFees s)" and len: "length (vout tx) < 2 ^ 32"
    and outs: "\<forall>x \<in> set (vout tx). 0 \<le> nValue x"
    and conn: "ConnectInputs E N C tx s = Inr s'"
  shows "index_ok E (blockFiles C) (ctxdb s') \<and> values_ok (blockFiles C) (ctxdb s') \<and>
    MoneyRange (nFees s') \<and>
    total_value (blockFiles C) (ctxdb s') + nFees s' \<le>
      total_value (blockFiles C) (ctxdb s) + nFees s + (if IsCoinBase tx then value_out tx else 0)"
proof -
  have m: "fBlock C" "\<not> fMiner C" "\<not> CDiskTxPos_IsNull (posThisTx C)"
    "posThisTx C \<noteq> pos_in_pool" "tx_ReadFromDisk (blockFiles C) (posThisTx C) = Some tx"
    using mode by (simp_all add: connect_mode_def)
  note F = ConnectInputs_block [OF m(1-3) ok fees conn]
  define db1 where "db1 = mark_all (posThisTx C) (spends tx) (ctxdb s)"
  have db': "ctxdb s' = AddTxIndex E db1 tx (posThisTx C)" using F by (simp add: db1_def)
  have ok1: "index_ok E (blockFiles C) db1" "values_ok (blockFiles C) db1"
    unfolding db1_def by (rule index_ok_mark_all [OF ok m(3)], rule values_ok_mark_all [OF vals m(3)])
  have "total_value (blockFiles C) (ctxdb s') \<le> total_value (blockFiles C) db1 + value_out tx"
    unfolding db' by (rule total_value_add_le [OF ok1(2) len m(5)])
  moreover have "total_value (blockFiles C) db1 = total_value (blockFiles C) (ctxdb s) -
      sum_list (map (coin_value (blockFiles C) (ctxdb s)) (spends tx))"
    unfolding db1_def by (rule total_value_mark_all [OF m(3)]) (use F in simp_all)
  ultimately have "total_value (blockFiles C) (ctxdb s') + nFees s' \<le>
      total_value (blockFiles C) (ctxdb s) + nFees s + (if IsCoinBase tx then value_out tx else 0)"
    using F by (cases "IsCoinBase tx") (auto simp: spends_def)
  moreover have "index_ok E (blockFiles C) (ctxdb s')" "values_ok (blockFiles C) (ctxdb s')"
    unfolding db' by (rule index_ok_add [OF ok1(1) m(5,4)], rule values_ok_add [OF ok1(2) m(5) outs])
  ultimately show ?thesis using F by simp
qed

lemma connect_txs_le:
  assumes "list_all2 (\<lambda>tx p. connect_mode (block_ctx V pindex b p) tx) txs ps"
    and "\<forall>tx \<in> set txs. length (vout tx) < 2 ^ 32 \<and> (\<forall>x \<in> set (vout tx). 0 \<le> nValue x)"
    and "index_ok E (viewFiles V) (ctxdb s)" "values_ok (viewFiles V) (ctxdb s)" "MoneyRange (nFees s)"
    and "connect_txs E N V pindex b txs ps s = Inr s'"
  shows "index_ok E (viewFiles V) (ctxdb s') \<and> values_ok (viewFiles V) (ctxdb s') \<and>
    MoneyRange (nFees s') \<and>
    total_value (viewFiles V) (ctxdb s') + nFees s' \<le>
      total_value (viewFiles V) (ctxdb s) + nFees s + coinbase_out txs"
  using assms
proof (induction txs ps arbitrary: s rule: list_all2_induct)
  case Nil
  then show ?case by (simp add: coinbase_out_def)
next
  case (Cons tx txs p ps)
  let ?C = "block_ctx V pindex b p"
  obtain s1 where conn: "ConnectInputs E N ?C tx s = Inr s1"
    and rest: "connect_txs E N V pindex b txs ps s1 = Inr s'"
    using Cons by (auto split: if_split_asm sum.split_asm)
  have one: "index_ok E (viewFiles V) (ctxdb s1) \<and> values_ok (viewFiles V) (ctxdb s1) \<and>
    MoneyRange (nFees s1) \<and>
    total_value (viewFiles V) (ctxdb s1) + nFees s1 \<le>
      total_value (viewFiles V) (ctxdb s) + nFees s + (if IsCoinBase tx then value_out tx else 0)"
    using connect_tx_le [OF Cons(1) _ _ _ _ _ conn] Cons by simp
  have "index_ok E (viewFiles V) (ctxdb s') \<and> values_ok (viewFiles V) (ctxdb s') \<and>
    MoneyRange (nFees s') \<and>
    total_value (viewFiles V) (ctxdb s') + nFees s' \<le>
      total_value (viewFiles V) (ctxdb s1) + nFees s1 + coinbase_out txs"
    by (rule Cons(3)) (use Cons one rest in simp_all)
  then show ?case using one by (auto simp: coinbase_out_def split: if_split_asm)
qed

lemma ConnectBlock_le:
  assumes stored: "stored V pindex b" and sane: "block_sane E N t b"
    and ok: "index_ok E (viewFiles V) db" "values_ok (viewFiles V) db"
    and height: "0 \<le> nHeight (hd pindex)"
    and conn: "ConnectBlock E N V pindex b db = Inr db'"
  shows "index_ok E (viewFiles V) db' \<and> values_ok (viewFiles V) db' \<and> nHeight (hd pindex) < 13440000 \<and>
    total_value (viewFiles V) db' \<le> total_value (viewFiles V) db + subsidy (nat (nHeight (hd pindex)))"
proof -
  obtain s claimed allowed where run: "connect_txs E N V pindex b (vtx b) (block_positions pindex b)
      \<lparr>ctxdb = db, mapTestPool = Map.empty, nFees = 0, nP2SHSigOps = block_sigops N b\<rparr> = Inr s"
    and claim: "GetValueOut (vtx b ! 0) = Inr claimed"
      "GetBlockValue (nHeight (hd pindex)) (nFees s) = Some allowed" "claimed \<le> allowed"
    and db': "db' = ctxdb s"
    using ConnectBlock_cases [OF conn] .
  have txs: "\<forall>tx \<in> set (vtx b). length (vout tx) < 2 ^ 32 \<and> (\<forall>x \<in> set (vout tx). 0 \<le> nValue x)"
    using stored_outputs [OF stored] sane by (auto simp: block_sane_def tx_sane_def)
  have T: "index_ok E (viewFiles V) db'" "values_ok (viewFiles V) db'" "MoneyRange (nFees s)"
    "total_value (viewFiles V) db' + nFees s \<le> total_value (viewFiles V) db + coinbase_out (vtx b)"
    using connect_txs_le [OF stored_modes [OF stored] txs _ _ _ run] ok by (simp_all add: db')
  obtain cb rest where b: "vtx b = cb # rest" using sane by (cases "vtx b") (simp_all add: block_sane_def)
  have cb: "IsCoinBase cb" and rest: "\<forall>tx \<in> set rest. \<not> IsCoinBase tx"
    using sane b by (simp_all add: block_sane_def)
  have "filter IsCoinBase rest = []" using rest by (simp add: filter_empty_conv)
  then have out: "coinbase_out (vtx b) = claimed"
    using cb claim(1) by (simp add: coinbase_out_def b value_out_def GetValueOut_ok)
  have h: "nHeight (hd pindex) < 13440000"
    using GetBlockValue_defined [OF height] claim(2) by (metis option.distinct(1))
  then have "allowed = 50 * COIN div 2 ^ nat (nHeight (hd pindex) div 210000) + nFees s"
    using GetBlockValue_value [OF height _ T(3)] claim(2) by simp
  moreover have "nat (nHeight (hd pindex) div 210000) = nat (nHeight (hd pindex)) div 210000"
    using height by (simp add: nat_div_distrib)
  ultimately show ?thesis using T claim(3) out h by (simp add: subsidy_def)
qed

section \<open>The main chain\<close>

text \<open>
  The index after the block at height \<open>h\<close>.  The genesis block is not connected: its coinbase
  is in no index and cannot be spent.  Every later block has passed \<open>CheckBlock\<close> at some
  moment \<open>t\<close>, is on disk, and connects to the index of its parent.
\<close>

inductive main_chain ::
    "ext \<Rightarrow> net_params \<Rightarrow> (u32 \<Rightarrow> bytes option) \<Rightarrow> nat \<Rightarrow> txdb \<Rightarrow> bool"
  for E N files where
  genesis: "main_chain E N files 0 Map.empty"
| extend: "main_chain E N files h db \<Longrightarrow> viewFiles V = files \<Longrightarrow> stored V pindex b \<Longrightarrow>
    nHeight (hd pindex) = int (Suc h) \<Longrightarrow> CheckBlock E N t b = Inr () \<Longrightarrow>
    ConnectBlock E N V pindex b db = Inr db' \<Longrightarrow> main_chain E N files (Suc h) db'"

inductive_cases main_chain_SucE: "main_chain E N files (Suc h) db"

lemma main_chain_invariant:
  "main_chain E N files h db \<Longrightarrow>
    index_ok E files db \<and> values_ok files db \<and> h < 13440000 \<and>
    total_value files db \<le> (\<Sum>k<Suc h. subsidy k)"
proof (induction h db rule: main_chain.induct)
  case genesis
  have "coins Map.empty = {}" by (auto simp: coins_def entry_unspent_def ReadTxIndex_def)
  then show ?case
    by (simp add: index_ok_def values_ok_def total_value_def subsidy_def COIN_def)
next
  case (extend h db V pindex b t db')
  have "block_sane E N t b" using extend by (simp add: CheckBlock_iff)
  then have "index_ok E (viewFiles V) db' \<and> values_ok (viewFiles V) db' \<and>
      nHeight (hd pindex) < 13440000 \<and>
      total_value (viewFiles V) db' \<le> total_value (viewFiles V) db + subsidy (nat (nHeight (hd pindex)))"
    using extend by (intro ConnectBlock_le) simp_all
  moreover have "nat (nHeight (hd pindex)) = Suc h" using extend by simp
  ultimately show ?case using extend by simp
qed

lemma main_chain_supply:
  assumes "main_chain E N files h db"
  shows "total_value files db \<le> 2099999997690000"
proof -
  have "(\<Sum>k<Suc h. subsidy k) \<le> (\<Sum>k<210000 * 64. subsidy k)"
    using main_chain_invariant [OF assms]
    by (intro sum_mono2) (auto simp: subsidy_def COIN_def pos_imp_zdiv_nonneg_iff)
  then show ?thesis using main_chain_invariant [OF assms] sum_subsidy by simp
qed

end
