(* ===== verification/BlockFile.thy ===== *)
theory BlockFile
  imports TxIndex
begin

text \<open>
  The block files (\<^verbatim>\<open>AppendBlockFile\<close> of \<^verbatim>\<open>main.cpp\<close>, \<^verbatim>\<open>WriteToDisk\<close>, \<^verbatim>\<open>ReadFromDisk\<close> and
  \<^verbatim>\<open>EraseBlockFromDisk\<close> of \<^verbatim>\<open>main.h\<close>).  A file is its bytes; opening one to append creates it.
  Failures of the operating system are not modelled.
\<close>

type_synonym block_files = "u32 \<Rightarrow> bytes option"

definition pchMessageStart :: "net_params \<Rightarrow> bytes" where
  "pchMessageStart N =
    (if IsTestNet N then [0xce, 0xe2, 0xc0, 0xff] else [0xbf, 0x20, 0x5c, 0xfd])"

definition file_data :: "block_files \<Rightarrow> u32 \<Rightarrow> bytes" where
  "file_data files n = (case files n of None \<Rightarrow> [] | Some d \<Rightarrow> d)"

text \<open>The file to append to, and the counter \<^verbatim>\<open>nCurrentBlockFile\<close> it is left at.\<close>

function AppendBlockFile :: "block_files \<Rightarrow> u32 \<Rightarrow> u32 option \<times> u32" where
  "AppendBlockFile files nCurrentBlockFile =
    (if nCurrentBlockFile = - 1 then (None, nCurrentBlockFile)
     else if length (file_data files nCurrentBlockFile) < 0x7F000000 - MAX_SIZE
     then (Some nCurrentBlockFile, nCurrentBlockFile)
     else AppendBlockFile files (nCurrentBlockFile + 1))"
  by pat_completeness auto
termination
proof (relation "measure (\<lambda>(files, n). unat (- 1 - n))")
  fix files :: block_files and n :: u32
  assume "n \<noteq> - 1"
  then have "- 1 - n \<noteq> 0" by auto
  then have "unat ((- 1 - n) - 1) < unat (- 1 - n)" by (rule measure_unat)
  moreover have "- 1 - (n + 1) = (- 1 - n) - 1" by simp
  ultimately show "((files, n + 1), (files, n)) \<in> measure (\<lambda>(files, n). unat (- 1 - n))"
    by (simp only: in_measure case_prod_conv)
qed simp

declare AppendBlockFile.simps [simp del]

text \<open>\<open>None\<close>: the block was not written.  The new files, and where the block is.\<close>

definition WriteToDisk ::
    "net_params \<Rightarrow> CBlock \<Rightarrow> block_files \<Rightarrow> u32 \<Rightarrow> (block_files \<times> u32 \<times> u32) option" where
  "WriteToDisk N b files nCurrentBlockFile =
    (case fst (AppendBlockFile files nCurrentBlockFile) of
       None \<Rightarrow> None
     | Some nFileRet \<Rightarrow>
         let d = file_data files nFileRet @ pchMessageStart N @ ser_uint 4 (GetSerializeSize_CBlock b);
             nBlockPosRet = word_of_nat (length d)
         in if nBlockPosRet = - 1 then None
            else Some (files(nFileRet \<mapsto> d @ ser_CBlock b), nFileRet, nBlockPosRet))"

datatype read_error = OpenBlockFileFailed | BlockUnreadable | BitsErrorsInHeader

definition ReadFromDisk :: "ext \<Rightarrow> block_files \<Rightarrow> u32 \<Rightarrow> u32 \<Rightarrow> read_error + CBlock" where
  "ReadFromDisk E files nf np =
    (if nf = - 1 then Inl OpenBlockFileFailed
     else case files nf of
       None \<Rightarrow> Inl OpenBlockFileFailed
     | Some d \<Rightarrow>
        (case unser_CBlock (drop (unat np) d) of
           None \<Rightarrow> Inl BlockUnreadable
         | Some (b, _) \<Rightarrow>
             if bnProofOfWorkLimit < SetCompact E (unat (nBits b)) then Inl BitsErrorsInHeader
             else Inr b))"

text \<open>The null block written over the place of an erased one.\<close>

definition EraseBlockFromDisk :: "CBlockIndex \<Rightarrow> block_files \<Rightarrow> block_files" where
  "EraseBlockFromDisk e files =
    (if nFile e = - 1 then files
     else case files (nFile e) of
       None \<Rightarrow> files
     | Some d \<Rightarrow>
         let p = unat (nBlockPos e); z = ser_CBlock CBlock_SetNull
         in files(nFile e \<mapsto> take p d @ z @ drop (p + length z) d))"

section \<open>What was written is read back\<close>

lemma on_disk_read:
  assumes "on_disk files nf nPos b" "wf_CBlock b" "nf \<noteq> - 1"
    and "SetCompact E (unat (nBits b)) \<le> bnProofOfWorkLimit"
  shows "ReadFromDisk E files nf nPos = Inr b"
  using assms by (auto simp: on_disk_def ReadFromDisk_def block.unser_ser)

lemma length_null_block: "length (ser_CBlock CBlock_SetNull) = 81"
  by (simp add: block.length_ser GetSerializeSize_CBlock_def CBlock_SetNull_def
      GetSerializeSize_vector_def GetSizeOfCompactSize_def)

lemma block_size_least: "81 \<le> GetSerializeSize_CBlock b"
  using GetSizeOfCompactSize_pos [of "length (vtx b)"]
  by (simp add: GetSerializeSize_CBlock_def GetSerializeSize_vector_def)

lemma AppendBlockFile_room:
  "AppendBlockFile files n = (Some m, k) \<Longrightarrow>
    m = k \<and> m \<noteq> - 1 \<and> length (file_data files m) < 0x7F000000 - MAX_SIZE"
proof (induction files n rule: AppendBlockFile.induct)
  case (1 files n)
  then show ?case by (subst (asm) (2) AppendBlockFile.simps) (auto split: if_split_asm)
qed

text \<open>The part of a file a block takes.\<close>

lemma on_disk_iff:
  "on_disk files nf nPos b \<longleftrightarrow>
    (\<exists>d. files nf = Some d \<and> take (length (ser_CBlock b)) (drop (unat nPos) d) = ser_CBlock b) \<and>
    unat nPos + GetSerializeSize_CBlock b < 2 ^ 32"
proof -
  have "(\<exists>before after. d = before @ x @ after \<and> length before = p) \<longleftrightarrow> take (length x) (drop p d) = x"
    if "x \<noteq> []" for x :: bytes and d p
  proof
    assume t: "take (length x) (drop p d) = x"
    then have "p \<le> length d" using that by (cases "p \<le> length d") auto
    then have "length (take p d) = p" by simp
    moreover have "d = take p d @ x @ drop (p + length x) d"
      using t by (metis append_take_drop_id drop_drop add.commute)
    ultimately show "\<exists>before after. d = before @ x @ after \<and> length before = p" by blast
  qed auto
  moreover have "ser_CBlock b \<noteq> []"
    using block.length_ser [of b] block_size_least [of b] by (cases "ser_CBlock b") auto
  ultimately show ?thesis by (auto simp: on_disk_def)
qed

lemma on_disk_at:
  "files nf = Some (d0 @ ser_CBlock b @ d1) \<Longrightarrow> length d0 = unat nPos \<Longrightarrow>
    unat nPos + GetSerializeSize_CBlock b < 2 ^ 32 \<Longrightarrow> on_disk files nf nPos b"
  unfolding on_disk_def by blast

lemma on_disk_prefix:
  assumes "on_disk files nf nPos b" "files nf = Some d" "files' nf = Some (d @ d2)"
  shows "on_disk files' nf nPos b"
proof -
  obtain d0 d1 where "d = d0 @ ser_CBlock b @ d1" "length d0 = unat nPos"
    "unat nPos + GetSerializeSize_CBlock b < 2 ^ 32"
    using assms(1,2) by (auto simp: on_disk_def)
  then show ?thesis using assms(3) by (intro on_disk_at [of _ _ d0 _ "d1 @ d2"]) simp_all
qed

lemma on_disk_inside:
  assumes "on_disk files nf nPos b" "files nf = Some d"
  shows "unat nPos + GetSerializeSize_CBlock b \<le> length d"
  using assms by (auto simp: on_disk_def block.length_ser)

lemma WriteToDisk_cases:
  assumes "WriteToDisk N b files n = Some (files', nf, nPos)"
    and "GetSerializeSize_CBlock b \<le> MAX_BLOCK_SIZE"
  obtains d where "d = file_data files nf @ pchMessageStart N @ ser_uint 4 (GetSerializeSize_CBlock b)"
    "files' = files(nf \<mapsto> d @ ser_CBlock b)" "unat nPos = length d" "8 \<le> length d" "nf \<noteq> - 1"
    "length d + GetSerializeSize_CBlock b < 2 ^ 32"
proof -
  obtain k where k: "AppendBlockFile files n = (Some nf, k)"
    using assms(1) by (cases "AppendBlockFile files n")
      (auto simp: WriteToDisk_def Let_def split: option.split_asm if_split_asm)
  define d where "d = file_data files nf @ pchMessageStart N @ ser_uint 4 (GetSerializeSize_CBlock b)"
  have room: "nf \<noteq> - 1" "length (file_data files nf) < 0x7F000000 - MAX_SIZE"
    using AppendBlockFile_room [OF k] by blast+
  have len: "length d = length (file_data files nf) + 8"
    by (simp add: d_def pchMessageStart_def)
  then have small: "length d + GetSerializeSize_CBlock b < 2 ^ 32" "length d < 2 ^ 32"
    using room(2) assms(2) by (simp_all add: MAX_SIZE_def MAX_BLOCK_SIZE_def)
  have "files' = files(nf \<mapsto> d @ ser_CBlock b)" "nPos = word_of_nat (length d)"
    using assms(1) k by (auto simp: WriteToDisk_def Let_def d_def split: if_split_asm)
  moreover have "unat (word_of_nat (length d) :: u32) = length d"
    using small(2) by (simp add: unat_of_nat)
  ultimately show ?thesis using that [OF d_def] room small len by simp
qed

lemma WriteToDisk_on_disk:
  assumes "WriteToDisk N b files n = Some (files', nf, nPos)" "GetSerializeSize_CBlock b \<le> MAX_BLOCK_SIZE"
  shows "on_disk files' nf nPos b" "nf \<noteq> - 1" "8 \<le> unat nPos"
    and "on_disk files nf' nPos' b' \<Longrightarrow> on_disk files' nf' nPos' b'"
    and "on_disk files nf nPos' b' \<Longrightarrow> unat nPos' + GetSerializeSize_CBlock b' \<le> unat nPos"
proof -
  obtain d where d: "d = file_data files nf @ pchMessageStart N @ ser_uint 4 (GetSerializeSize_CBlock b)"
    "files' = files(nf \<mapsto> d @ ser_CBlock b)" "unat nPos = length d" "8 \<le> length d" "nf \<noteq> - 1"
    "length d + GetSerializeSize_CBlock b < 2 ^ 32"
    using WriteToDisk_cases [OF assms] .
  show "on_disk files' nf nPos b" using d(2,3,6) by (intro on_disk_at [of _ _ d _ "[]"]) simp_all
  show "nf \<noteq> - 1" "8 \<le> unat nPos" using d by simp_all
  show "on_disk files' nf' nPos' b'" if old: "on_disk files nf' nPos' b'"
  proof (cases "nf' = nf")
    case True
    obtain dat where "files nf' = Some dat" using old by (auto simp: on_disk_def)
    with old True d show ?thesis
      by (intro on_disk_prefix [OF old, of dat _ "drop (length dat) (d @ ser_CBlock b)"])
        (simp_all add: file_data_def)
  next
    case False
    then show ?thesis using old d(2) by (simp add: on_disk_def)
  qed
  show "unat nPos' + GetSerializeSize_CBlock b' \<le> unat nPos" if old: "on_disk files nf nPos' b'"
  proof -
    obtain dat where "files nf = Some dat" using old by (auto simp: on_disk_def)
    with on_disk_inside [OF old this] d show ?thesis by (simp add: file_data_def)
  qed
qed

text \<open>Erasing a block leaves those beside it.\<close>

lemma take_drop_overwrite:
  assumes "p + length z \<le> length d" "n + m \<le> p \<or> p + length z \<le> n"
  shows "take m (drop n (take p d @ z @ drop (p + length z) d)) = take m (drop n d)"
  using assms(2)
proof
  assume "n + m \<le> p"
  then show ?thesis using assms(1) by (simp add: min_def take_drop flip: take_take) (simp add: drop_take)
next
  assume "p + length z \<le> n"
  then show ?thesis using assms(1) by (simp add: drop_append)
qed

lemma EraseBlockFromDisk_keeps:
  assumes "on_disk files nf nPos b" "on_disk files (nFile e) (nBlockPos e) old"
    and "nFile e = nf \<Longrightarrow> unat nPos + GetSerializeSize_CBlock b \<le> unat (nBlockPos e) \<or>
      unat (nBlockPos e) + GetSerializeSize_CBlock old \<le> unat nPos"
  shows "on_disk (EraseBlockFromDisk e files) nf nPos b"
proof (cases "nFile e = nf \<and> nFile e \<noteq> - 1")
  case True
  obtain d where d: "files nf = Some d" using assms(1) by (auto simp: on_disk_def)
  define z where "z = ser_CBlock CBlock_SetNull"
  have z: "length z = 81" by (simp only: z_def length_null_block)
  have "unat (nBlockPos e) + 81 \<le> length d"
    using on_disk_inside [OF assms(2)] d True block_size_least [of old] by fastforce
  then have "take (GetSerializeSize_CBlock b) (drop (unat nPos)
        (take (unat (nBlockPos e)) d @ z @ drop (unat (nBlockPos e) + length z) d)) =
      take (GetSerializeSize_CBlock b) (drop (unat nPos) d)"
    using assms(3) True block_size_least [of old] z by (intro take_drop_overwrite) auto
  moreover have "EraseBlockFromDisk e files nf =
      Some (take (unat (nBlockPos e)) d @ z @ drop (unat (nBlockPos e) + length z) d)"
    using True d by (auto simp: EraseBlockFromDisk_def Let_def z_def)
  ultimately show ?thesis
    using assms(1) d unfolding on_disk_iff block.length_ser by simp
next
  case False
  then show ?thesis using assms(1)
    by (auto simp: on_disk_def EraseBlockFromDisk_def Let_def split: option.split)
qed

end
