(* ===== verification/Mempool.thy ===== *)
theory Mempool
  imports Coins "HOL-Library.Finite_Map"
begin

text \<open>
  The memory pool (\<^verbatim>\<open>mapTransactions\<close> and \<^verbatim>\<open>mapNextTx\<close> of \<^verbatim>\<open>main.cpp\<close>): what
  \<open>AcceptTransaction\<close> lets in, when a transaction may replace others and what it has to pay.
  \<^verbatim>\<open>mapNextTx\<close> holds, for an outpoint, a pointer to the pool transaction that spends it and
  the input that does; the pointer is the hash its target is stored under.
\<close>

definition MAX_STANDARD_TX_SIGOPS :: nat where "MAX_STANDARD_TX_SIGOPS = MAX_BLOCK_SIGOPS div 5"
definition MAX_MEMPOOL_TRANSACTIONS :: nat where "MAX_MEMPOOL_TRANSACTIONS = 5000"
definition MIN_RELAY_FEE_PER_KB :: int where "MIN_RELAY_FEE_PER_KB = CENT div 10"
definition MAX_REPLACED_TXS :: nat where "MAX_REPLACED_TXS = 100"

record CInPoint =
  ptx :: uint256
  in_n :: nat

record mempool =
  pool :: "(uint256, CTransaction) fmap"
  mapNextTx :: "(COutPoint, CInPoint) fmap"
  nTransactionsUpdated :: u32

section \<open>Adding and removing\<close>

definition link_inputs :: "uint256 \<Rightarrow> COutPoint list \<Rightarrow> (COutPoint, CInPoint) fmap \<Rightarrow> (COutPoint, CInPoint) fmap" where
  "link_inputs hash ops m =
    fold (\<lambda>(i, op) m. fmupd op \<lparr>ptx = hash, in_n = i\<rparr> m) (enumerate 0 ops) m"

definition AddToMemoryPool :: "ext \<Rightarrow> CTransaction \<Rightarrow> mempool \<Rightarrow> mempool" where
  "AddToMemoryPool E tx M =
    (let hash = SerializeHash_tx E tx
     in M\<lparr>pool := fmupd hash tx (pool M), mapNextTx := link_inputs hash (prevouts tx) (mapNextTx M),
          nTransactionsUpdated := nTransactionsUpdated M + 1\<rparr>)"

definition RemoveFromMemoryPool :: "ext \<Rightarrow> CTransaction \<Rightarrow> mempool \<Rightarrow> mempool" where
  "RemoveFromMemoryPool E tx M =
    M\<lparr>mapNextTx := fold fmdrop (prevouts tx) (mapNextTx M), pool := fmdrop (SerializeHash_tx E tx) (pool M),
      nTransactionsUpdated := nTransactionsUpdated M + 1\<rparr>"

section \<open>Fees\<close>

text \<open>The sum over the inputs: a previous transaction is in the pool or on disk.\<close>

fun fee_loop ::
    "mempool \<Rightarrow> txdb \<Rightarrow> (u32 \<Rightarrow> bytes option) \<Rightarrow> COutPoint list \<Rightarrow> int \<Rightarrow> int option" where
  "fee_loop M db files [] nValueIn = Some nValueIn"
| "fee_loop M db files (op # ops) nValueIn =
    (case (case fmlookup (pool M) (out_hash op) of
             Some t \<Rightarrow> Some t
           | None \<Rightarrow> (case ReadTxIndex db (out_hash op) of None \<Rightarrow> None
                      | Some e \<Rightarrow> tx_ReadFromDisk files (pos e))) of
       None \<Rightarrow> None
     | Some txPrev \<Rightarrow>
         if length (vout txPrev) \<le> unat (out_n op) then None
         else fee_loop M db files ops (i64 (nValueIn + nValue (vout txPrev ! unat (out_n op)))))"

text \<open>\<open>Inl\<close> is the exception of \<open>GetValueOut\<close>; \<open>None\<close> is the answer false.\<close>

definition GetMempoolTxFee ::
    "mempool \<Rightarrow> txdb \<Rightarrow> (u32 \<Rightarrow> bytes option) \<Rightarrow> CTransaction \<Rightarrow> tx_error + int option" where
  "GetMempoolTxFee M db files tx =
    (if IsCoinBase tx then Inr None
     else case fee_loop M db files (prevouts tx) 0 of
       None \<Rightarrow> Inr None
     | Some nValueIn \<Rightarrow>
        (case GetValueOut tx of
           Inl e \<Rightarrow> Inl e
         | Inr out \<Rightarrow> let nFee = i64 (nValueIn - out) in Inr (if 0 \<le> nFee then Some nFee else None)))"

fun pays_loop :: "int \<Rightarrow> nat \<Rightarrow> (int \<times> nat) list \<Rightarrow> int \<Rightarrow> int option" where
  "pays_loop nNewFee nNewSize [] nOldFees = Some nOldFees"
| "pays_loop nNewFee nNewSize ((fee, sz) # old) nOldFees =
    (if i64 (nNewFee * int sz) \<le> i64 (fee * int nNewSize) then None
     else pays_loop nNewFee nNewSize old (i64 (nOldFees + fee)))"

definition ReplacementPaysEnough :: "int \<Rightarrow> nat \<Rightarrow> (int \<times> nat) list \<Rightarrow> bool" where
  "ReplacementPaysEnough nNewFee nNewSize vOld =
    (case pays_loop nNewFee nNewSize vOld 0 of
       None \<Rightarrow> False
     | Some nOldFees \<Rightarrow> \<not> nNewFee < i64 (nOldFees + FeeForSize MIN_RELAY_FEE_PER_KB nNewSize))"

section \<open>Accepting a transaction\<close>

datatype accept_error =
    CoinbaseAsIndividualTx | CheckTransactionRefused | NonStandard | AlreadyInPool | AlreadyInChain
  | ConflictsUnchecked | ReplacesTooMany | ReplacementNotAllowed | ReplacedHasChildren
  | InputsNotConnected connect_error | TooManySigOpsForRelay | MempoolFull | CannotPriceReplaced
  | ReplacementPaysTooLittle | FeeException tx_error

text \<open>\<^verbatim>\<open>setConflicts\<close>, in the order of the set.\<close>

definition conflicts :: "mempool \<Rightarrow> CTransaction \<Rightarrow> uint256 list" where
  "conflicts M tx =
    sort (remdups (map ptx (List.map_filter (fmlookup (mapNextTx M)) (prevouts tx))))"

text \<open>The outputs of \<open>txOld\<close> that something in the pool spends.\<close>

definition has_children :: "mempool \<Rightarrow> uint256 \<Rightarrow> CTransaction \<Rightarrow> bool" where
  "has_children M h txOld \<longleftrightarrow>
    list_ex (\<lambda>n. fmlookup (mapNextTx M) \<lparr>out_hash = h, out_n = word_of_nat n\<rparr> \<noteq> None)
      [0..<length (vout txOld)]"

text \<open>The default transaction that \<^verbatim>\<open>mapTransactions[h]\<close> would make is what a missing entry reads as.\<close>

definition pool_at :: "mempool \<Rightarrow> uint256 \<Rightarrow> CTransaction" where
  "pool_at M h = (case fmlookup (pool M) h of Some t \<Rightarrow> t | None \<Rightarrow> CTransaction_SetNull)"

fun check_conflicts :: "mempool \<Rightarrow> uint256 list \<Rightarrow> accept_error option" where
  "check_conflicts M [] = None"
| "check_conflicts M (h # hs) =
    (if \<not> SignalsReplacement (pool_at M h) then Some ReplacementNotAllowed
     else if has_children M h (pool_at M h) then Some ReplacedHasChildren
     else check_conflicts M hs)"

text \<open>The fee and the size of each transaction to be replaced.\<close>

fun price_conflicts ::
    "mempool \<Rightarrow> txdb \<Rightarrow> (u32 \<Rightarrow> bytes option) \<Rightarrow> uint256 list \<Rightarrow> accept_error + (int \<times> nat) list" where
  "price_conflicts M db files [] = Inr []"
| "price_conflicts M db files (h # hs) =
    (case fmlookup (pool M) h of
       None \<Rightarrow> Inl CannotPriceReplaced
     | Some t \<Rightarrow>
        (case GetMempoolTxFee M db files t of
           Inl e \<Rightarrow> Inl (FeeException e)
         | Inr None \<Rightarrow> Inl CannotPriceReplaced
         | Inr (Some nOldFee) \<Rightarrow>
            (case price_conflicts M db files hs of
               Inl e \<Rightarrow> Inl e
             | Inr old \<Rightarrow> Inr ((nOldFee, GetSerializeSize_CTransaction t) # old))))"

text \<open>The globals read: the view of \<open>ConnectBlock\<close> with the pool of \<open>M\<close>.\<close>

record accept_view =
  avFiles :: "u32 \<Rightarrow> bytes option"
  avBlockAt :: "disk_pos \<Rightarrow> chain option"
  avAdjustedTime :: int
  avBest :: chain

definition pool_ctx :: "accept_view \<Rightarrow> mempool \<Rightarrow> connect_ctx" where
  "pool_ctx A M =
    \<lparr>fBlock = False, fMiner = False, posThisTx = pos_in_pool, nMinFee = 0, pindexPrev = avBest A,
     nRulesTime = u32_of (avAdjustedTime A), mapTransactions = fmlookup (pool M),
     blockFiles = avFiles A, blockIndexAt = avBlockAt A\<rparr>"

definition check_inputs ::
    "ext \<Rightarrow> net_params \<Rightarrow> accept_view \<Rightarrow> mempool \<Rightarrow> txdb \<Rightarrow> CTransaction \<Rightarrow> bool \<Rightarrow>
      connect_error + (int \<times> nat)" where
  "check_inputs E N A M db tx fCheckInputs =
    (let nSigOps = tx_GetSigOpCount (RulesV4Active N (u32_of (avAdjustedTime A))) tx
     in if \<not> fCheckInputs then Inr (0, nSigOps)
        else case ConnectInputs E N (pool_ctx A M) tx
                    \<lparr>ctxdb = db, mapTestPool = Map.empty, nFees = 0, nP2SHSigOps = nSigOps\<rparr> of
               Inl e \<Rightarrow> Inl e
             | Inr s \<Rightarrow> Inr (nFees s, nP2SHSigOps s))"

text \<open>
  The result: the new pool and the transactions it dropped, which the caller also erases
  from the wallet.
\<close>

definition store_tx ::
    "ext \<Rightarrow> accept_view \<Rightarrow> txdb \<Rightarrow> CTransaction \<Rightarrow> bool \<Rightarrow> uint256 list \<Rightarrow> int \<Rightarrow> mempool \<Rightarrow>
      accept_error + mempool" where
  "store_tx E A db tx fCheckInputs setConflicts nFee M =
    (if fCheckInputs \<and> setConflicts = [] \<and> MAX_MEMPOOL_TRANSACTIONS \<le> fcard (fmdom (pool M)) \<and>
        nFee < GetMinFee False tx
     then Inl MempoolFull
     else if setConflicts = [] then Inr (AddToMemoryPool E tx M)
     else case price_conflicts M db (avFiles A) setConflicts of
       Inl e \<Rightarrow> Inl e
     | Inr vOld \<Rightarrow>
         if \<not> ReplacementPaysEnough nFee (GetSerializeSize_CTransaction tx) vOld
         then Inl ReplacementPaysTooLittle
         else Inr (AddToMemoryPool E tx
                (fold (\<lambda>h M. RemoveFromMemoryPool E (pool_at M h) M) setConflicts M)))"

definition AcceptTransaction ::
    "ext \<Rightarrow> net_params \<Rightarrow> accept_view \<Rightarrow> txdb \<Rightarrow> bool \<Rightarrow> CTransaction \<Rightarrow> mempool \<Rightarrow>
      accept_error + (mempool \<times> uint256 list)" where
  "AcceptTransaction E N A db fCheckInputs tx M =
    (let hash = SerializeHash_tx E tx; setConflicts = conflicts M tx
     in if IsCoinBase tx then Inl CoinbaseAsIndividualTx
        else if CheckTransaction tx \<noteq> Inr () then Inl CheckTransactionRefused
        else if \<not> IsStandard (RulesV3Active N (u32_of (avAdjustedTime A))) tx then Inl NonStandard
        else if fmlookup (pool M) hash \<noteq> None then Inl AlreadyInPool
        else if fCheckInputs \<and> ContainsTx db hash then Inl AlreadyInChain
        else if setConflicts \<noteq> [] \<and> \<not> fCheckInputs then Inl ConflictsUnchecked
        else if MAX_REPLACED_TXS < length setConflicts then Inl ReplacesTooMany
        else case check_conflicts M setConflicts of
          Some e \<Rightarrow> Inl e
        | None \<Rightarrow>
            (case check_inputs E N A M db tx fCheckInputs of
               Inl e \<Rightarrow> Inl (InputsNotConnected e)
             | Inr (nFee, nSigOps) \<Rightarrow>
                 if MAX_STANDARD_TX_SIGOPS < nSigOps then Inl TooManySigOpsForRelay
                 else case store_tx E A db tx fCheckInputs setConflicts nFee M of
                        Inl e \<Rightarrow> Inl e
                      | Inr M' \<Rightarrow> Inr (M', setConflicts)))"

section \<open>The two maps agree\<close>

text \<open>
  Every transaction of the pool is stored under its hash and holds the claim on each of its
  inputs, and every claim is held by a transaction of the pool.
\<close>

definition pool_ok :: "ext \<Rightarrow> mempool \<Rightarrow> bool" where
  "pool_ok E M \<longleftrightarrow>
    (\<forall>h tx. fmlookup (pool M) h = Some tx \<longrightarrow>
      SerializeHash_tx E tx = h \<and> distinct (prevouts tx) \<and>
      (\<forall>i < length (prevouts tx). fmlookup (mapNextTx M) (prevouts tx ! i) = Some \<lparr>ptx = h, in_n = i\<rparr>)) \<and>
    (\<forall>op c. fmlookup (mapNextTx M) op = Some c \<longrightarrow>
      (\<exists>tx. fmlookup (pool M) (ptx c) = Some tx \<and> in_n c < length (prevouts tx) \<and>
         prevouts tx ! in_n c = op))"

lemma pool_okD:
  assumes "pool_ok E M" "fmlookup (pool M) h = Some tx"
  shows "SerializeHash_tx E tx = h" "distinct (prevouts tx)"
    "i < length (prevouts tx) \<Longrightarrow> fmlookup (mapNextTx M) (prevouts tx ! i) = Some \<lparr>ptx = h, in_n = i\<rparr>"
  using assms by (auto simp: pool_ok_def)

lemma pool_ok_claimE:
  assumes "pool_ok E M" "fmlookup (mapNextTx M) op = Some c"
  obtains tx where "fmlookup (pool M) (ptx c) = Some tx" "in_n c < length (prevouts tx)"
    "prevouts tx ! in_n c = op"
  using assms unfolding pool_ok_def by blast

text \<open>No outpoint is spent twice in the pool.\<close>

lemma pool_no_double_spend:
  assumes "pool_ok E M" "fmlookup (pool M) h = Some t" "fmlookup (pool M) k = Some u"
    and "op \<in> set (prevouts t)" "op \<in> set (prevouts u)"
  shows "h = k"
proof -
  obtain i j where "i < length (prevouts t)" "prevouts t ! i = op"
    "j < length (prevouts u)" "prevouts u ! j = op"
    using assms(4,5) by (auto simp: in_set_conv_nth)
  then show ?thesis
    using pool_okD(3) [OF assms(1,2), of i] pool_okD(3) [OF assms(1,3), of j] by simp
qed

lemma link_inputs_other:
  "op \<notin> set ops \<Longrightarrow> fmlookup (fold (\<lambda>(i, op) m. fmupd op \<lparr>ptx = h, in_n = i\<rparr> m) (enumerate k ops) m) op =
    fmlookup m op"
  by (induction ops arbitrary: k m) auto

lemma link_inputs_nth:
  "distinct ops \<Longrightarrow> i < length ops \<Longrightarrow>
    fmlookup (fold (\<lambda>(i, op) m. fmupd op \<lparr>ptx = h, in_n = i\<rparr> m) (enumerate k ops) m) (ops ! i) =
      Some \<lparr>ptx = h, in_n = k + i\<rparr>"
proof (induction ops arbitrary: k m i)
  case (Cons op ops)
  show ?case
  proof (cases i)
    case 0
    then show ?thesis using Cons(2) by (simp add: link_inputs_other)
  next
    case (Suc j)
    then show ?thesis using Cons(1) [of j "Suc k"] Cons(2,3) by simp
  qed
qed simp

lemma fold_fmdrop: "fmlookup (fold fmdrop ops m) op = (if op \<in> set ops then None else fmlookup m op)"
  by (induction ops arbitrary: m) auto

section \<open>Adding and removing keep them so\<close>

lemma AddToMemoryPool_lookup:
  "fmlookup (pool (AddToMemoryPool E tx M)) k =
    (if k = SerializeHash_tx E tx then Some tx else fmlookup (pool M) k)"
  by (auto simp: AddToMemoryPool_def Let_def)

lemma AddToMemoryPool_ok:
  assumes ok: "pool_ok E M" and new: "fmlookup (pool M) (SerializeHash_tx E tx) = None"
    and "distinct (prevouts tx)" and free: "\<forall>op \<in> set (prevouts tx). fmlookup (mapNextTx M) op = None"
  shows "pool_ok E (AddToMemoryPool E tx M)"
proof -
  define h where "h = SerializeHash_tx E tx"
  define M' where "M' = AddToMemoryPool E tx M"
  have pool: "fmlookup (pool M') k = (if k = h then Some tx else fmlookup (pool M) k)" for k
    by (simp add: M'_def h_def AddToMemoryPool_lookup)
  have own: "fmlookup (mapNextTx M') (prevouts tx ! i) = Some \<lparr>ptx = h, in_n = i\<rparr>"
    if "i < length (prevouts tx)" for i
    using link_inputs_nth [OF assms(3) that, of h 0]
    by (simp add: M'_def AddToMemoryPool_def Let_def h_def link_inputs_def)
  have other: "fmlookup (mapNextTx M') op = fmlookup (mapNextTx M) op" if "op \<notin> set (prevouts tx)" for op
    using link_inputs_other [OF that] by (simp add: M'_def AddToMemoryPool_def Let_def link_inputs_def)
  have claim: "\<exists>t. fmlookup (pool M') (ptx c) = Some t \<and> in_n c < length (prevouts t) \<and> prevouts t ! in_n c = op"
    if c: "fmlookup (mapNextTx M') op = Some c" for op c
  proof (cases "op \<in> set (prevouts tx)")
    case True
    then obtain i where "i < length (prevouts tx)" "prevouts tx ! i = op" by (auto simp: in_set_conv_nth)
    then show ?thesis using own [of i] c pool by auto
  next
    case False
    then obtain t where t: "fmlookup (pool M) (ptx c) = Some t" "in_n c < length (prevouts t)"
      "prevouts t ! in_n c = op"
      using pool_ok_claimE [OF ok] c other by metis
    then have "ptx c \<noteq> h" using new by (auto simp: h_def)
    then show ?thesis using t pool by auto
  qed
  have holds: "fmlookup (mapNextTx M') (prevouts t ! i) = Some \<lparr>ptx = k, in_n = i\<rparr>"
    if "k \<noteq> h" "fmlookup (pool M) k = Some t" "i < length (prevouts t)" for k t i
  proof -
    have claimed: "fmlookup (mapNextTx M) (prevouts t ! i) = Some \<lparr>ptx = k, in_n = i\<rparr>"
      using pool_okD(3) [OF ok that(2,3)] .
    then have "prevouts t ! i \<notin> set (prevouts tx)" using free by auto
    then show ?thesis using other claimed by simp
  qed
  show ?thesis
    unfolding M'_def [symmetric] pool_ok_def
    using claim holds own pool assms(3) pool_okD(1,2) [OF ok] by (auto simp: h_def split: if_split_asm)
qed

lemma RemoveFromMemoryPool_lookup:
  "fmlookup (pool (RemoveFromMemoryPool E tx M)) k =
    (if k = SerializeHash_tx E tx then None else fmlookup (pool M) k)"
  "fmlookup (mapNextTx (RemoveFromMemoryPool E tx M)) op =
    (if op \<in> set (prevouts tx) then None else fmlookup (mapNextTx M) op)"
  by (auto simp: RemoveFromMemoryPool_def fold_fmdrop)

lemma RemoveFromMemoryPool_ok:
  assumes ok: "pool_ok E M" and "fmlookup (pool M) (SerializeHash_tx E tx) = Some tx"
  shows "pool_ok E (RemoveFromMemoryPool E tx M)"
proof -
  define h where "h = SerializeHash_tx E tx"
  have tx: "fmlookup (pool M) h = Some tx" using assms(2) by (simp add: h_def)
  define M' where "M' = RemoveFromMemoryPool E tx M"
  have pool: "fmlookup (pool M') k = (if k = h then None else fmlookup (pool M) k)" for k
    by (simp add: M'_def h_def RemoveFromMemoryPool_lookup)
  have claims: "fmlookup (mapNextTx M') op =
      (if op \<in> set (prevouts tx) then None else fmlookup (mapNextTx M) op)" for op
    by (simp add: M'_def RemoveFromMemoryPool_lookup)
  have apart: "prevouts t ! i \<notin> set (prevouts tx)"
    if "fmlookup (pool M) k = Some t" "k \<noteq> h" "i < length (prevouts t)" for k t i
    using pool_no_double_spend [OF ok that(1) tx, of "prevouts t ! i"] that by auto
  have claim: "\<exists>t. fmlookup (pool M') (ptx c) = Some t \<and> in_n c < length (prevouts t) \<and> prevouts t ! in_n c = op"
    if "fmlookup (mapNextTx M') op = Some c" for op c
  proof -
    have c: "fmlookup (mapNextTx M) op = Some c" "op \<notin> set (prevouts tx)"
      using that claims by (auto split: if_split_asm)
    obtain t where t: "fmlookup (pool M) (ptx c) = Some t" "in_n c < length (prevouts t)"
      "prevouts t ! in_n c = op"
      using pool_ok_claimE [OF ok c(1)] .
    then have "ptx c \<noteq> h" using tx c(2) by auto
    then show ?thesis using t pool by auto
  qed
  show ?thesis
    unfolding M'_def [symmetric] pool_ok_def
    using claim pool claims apart pool_okD [OF ok] by (auto split: if_split_asm)
qed

text \<open>
  Removing a transaction that is not in the pool, as the chain does with every transaction of
  a new block, keeps the maps in agreement only if no transaction of the pool spends what it
  spends: the claim of that one is erased and the transaction stays.
\<close>

lemma RemoveFromMemoryPool_ok_iff:
  assumes ok: "pool_ok E M" and tx: "fmlookup (pool M) (SerializeHash_tx E tx) = None"
  shows "pool_ok E (RemoveFromMemoryPool E tx M) \<longleftrightarrow>
    (\<forall>op \<in> set (prevouts tx). fmlookup (mapNextTx M) op = None)"
proof
  define M' where "M' = RemoveFromMemoryPool E tx M"
  have pool: "fmlookup (pool M') k = fmlookup (pool M) k" for k
    using tx by (simp add: M'_def RemoveFromMemoryPool_lookup)
  have claims: "fmlookup (mapNextTx M') op =
      (if op \<in> set (prevouts tx) then None else fmlookup (mapNextTx M) op)" for op
    by (simp add: M'_def RemoveFromMemoryPool_lookup)
  {
    assume free: "\<forall>op \<in> set (prevouts tx). fmlookup (mapNextTx M) op = None"
    then have "fmlookup (mapNextTx M') op = fmlookup (mapNextTx M) op" for op
      by (simp add: claims)
    then show "pool_ok E (RemoveFromMemoryPool E tx M)"
      using ok pool by (simp add: pool_ok_def flip: M'_def)
  }
  assume ok': "pool_ok E (RemoveFromMemoryPool E tx M)"
  show "\<forall>op \<in> set (prevouts tx). fmlookup (mapNextTx M) op = None"
  proof (rule ballI, rule ccontr)
    fix op assume op: "op \<in> set (prevouts tx)" "fmlookup (mapNextTx M) op \<noteq> None"
    then obtain c where "fmlookup (mapNextTx M) op = Some c" by auto
    then obtain t where t: "fmlookup (pool M) (ptx c) = Some t" "in_n c < length (prevouts t)"
      "prevouts t ! in_n c = op"
      by (rule pool_ok_claimE [OF ok])
    then have "fmlookup (mapNextTx M') op = Some \<lparr>ptx = ptx c, in_n = in_n c\<rparr>"
      using pool_okD(3) [OF ok' [folded M'_def], of "ptx c" t "in_n c"] pool by simp
    then show False using op(1) claims by simp
  qed
qed

section \<open>Replacement\<close>

lemma set_conflicts:
  "set (conflicts M tx) = {ptx c | c op. op \<in> set (prevouts tx) \<and> fmlookup (mapNextTx M) op = Some c}"
  by (auto simp: conflicts_def List.map_filter_def image_iff) (metis option.sel option.distinct(1))+

lemma distinct_conflicts: "distinct (conflicts M tx)"
  by (simp add: conflicts_def)

definition drop_all :: "ext \<Rightarrow> uint256 list \<Rightarrow> mempool \<Rightarrow> mempool" where
  "drop_all E hs M = fold (\<lambda>h M. RemoveFromMemoryPool E (pool_at M h) M) hs M"

lemma drop_all_Cons: "drop_all E (h # hs) M = drop_all E hs (RemoveFromMemoryPool E (pool_at M h) M)"
  by (simp add: drop_all_def)

lemma claim_after_remove:
  assumes "pool_ok E M" "fmlookup (pool M) h = Some t"
  shows "fmlookup (mapNextTx (RemoveFromMemoryPool E t M)) op =
    (case fmlookup (mapNextTx M) op of None \<Rightarrow> None | Some c \<Rightarrow> if ptx c = h then None else Some c)"
proof (cases "fmlookup (mapNextTx M) op")
  case None
  then show ?thesis by (simp add: RemoveFromMemoryPool_lookup)
next
  case (Some c)
  obtain u where u: "fmlookup (pool M) (ptx c) = Some u" "in_n c < length (prevouts u)"
    "prevouts u ! in_n c = op"
    using pool_ok_claimE [OF assms(1) Some] .
  have "op \<in> set (prevouts t) \<longleftrightarrow> ptx c = h"
    using pool_no_double_spend [OF assms(1) u(1) assms(2), of op] u assms(2) by auto
  then show ?thesis using Some by (simp add: RemoveFromMemoryPool_lookup)
qed

lemma drop_all_lookup:
  "pool_ok E M \<Longrightarrow> distinct hs \<Longrightarrow> (\<forall>h \<in> set hs. fmlookup (pool M) h \<noteq> None) \<Longrightarrow>
    pool_ok E (drop_all E hs M) \<and>
    (\<forall>k. fmlookup (pool (drop_all E hs M)) k = (if k \<in> set hs then None else fmlookup (pool M) k)) \<and>
    (\<forall>op. fmlookup (mapNextTx (drop_all E hs M)) op =
      (case fmlookup (mapNextTx M) op of None \<Rightarrow> None | Some c \<Rightarrow> if ptx c \<in> set hs then None else Some c))"
proof (induction hs arbitrary: M)
  case Nil
  then show ?case by (auto simp: drop_all_def split: option.split)
next
  case (Cons h hs)
  obtain t where t: "fmlookup (pool M) h = Some t" using Cons(4) by auto
  then have at: "pool_at M h = t" by (simp add: pool_at_def)
  have hash: "SerializeHash_tx E t = h" by (rule pool_okD(1) [OF Cons(2) t])
  define M1 where "M1 = RemoveFromMemoryPool E t M"
  have ok1: "pool_ok E M1"
    unfolding M1_def using t by (intro RemoveFromMemoryPool_ok [OF Cons(2)]) (simp add: hash)
  have pool1: "fmlookup (pool M1) k = (if k = h then None else fmlookup (pool M) k)" for k
    by (simp add: M1_def RemoveFromMemoryPool_lookup hash)
  have claim1: "fmlookup (mapNextTx M1) op =
      (case fmlookup (mapNextTx M) op of None \<Rightarrow> None | Some c \<Rightarrow> if ptx c = h then None else Some c)" for op
    unfolding M1_def by (rule claim_after_remove [OF Cons(2) t])
  have "\<forall>k \<in> set hs. fmlookup (pool M1) k \<noteq> None" using Cons(3,4) pool1 by auto
  then have IH: "pool_ok E (drop_all E hs M1) \<and>
    (\<forall>k. fmlookup (pool (drop_all E hs M1)) k = (if k \<in> set hs then None else fmlookup (pool M1) k)) \<and>
    (\<forall>op. fmlookup (mapNextTx (drop_all E hs M1)) op =
      (case fmlookup (mapNextTx M1) op of None \<Rightarrow> None | Some c \<Rightarrow> if ptx c \<in> set hs then None else Some c))"
    using Cons(1) [OF ok1] Cons(3) by simp
  then show ?case
    using pool1 claim1 by (auto simp: drop_all_Cons at M1_def [symmetric] split: option.split)
qed

text \<open>What accepting a transaction does to the pool.\<close>

lemma price_conflicts_pool:
  "price_conflicts M db files hs = Inr old \<Longrightarrow> (\<forall>h \<in> set hs. fmlookup (pool M) h \<noteq> None)"
  by (induction hs arbitrary: old) (auto split: option.split_asm sum.split_asm)

lemma check_conflicts_None:
  "check_conflicts M hs = None \<Longrightarrow>
    \<forall>h \<in> set hs. SignalsReplacement (pool_at M h) \<and> \<not> has_children M h (pool_at M h)"
  by (induction hs) (auto split: if_split_asm)

lemma AcceptTransaction_cases:
  assumes "AcceptTransaction E N A db fCheckInputs tx M = Inr (M', d)"
  obtains nFee nSigOps where "d = conflicts M tx" "CheckTransaction tx = Inr ()"
    "fmlookup (pool M) (SerializeHash_tx E tx) = None"
    "check_inputs E N A M db tx fCheckInputs = Inr (nFee, nSigOps)"
    "nSigOps \<le> MAX_STANDARD_TX_SIGOPS"
    "store_tx E A db tx fCheckInputs (conflicts M tx) nFee M = Inr M'"
    "d = [] \<or> fCheckInputs" "check_conflicts M d = None" "length d \<le> MAX_REPLACED_TXS"
    "\<not> IsCoinBase tx"
  using assms
  by (auto simp: AcceptTransaction_def Let_def not_less
      split: if_split_asm option.split_asm sum.split_asm)

lemma store_tx_drop:
  assumes "store_tx E A db tx fCheckInputs hs nFee M = Inr M'"
  shows "M' = AddToMemoryPool E tx (drop_all E hs M) \<and> (\<forall>h \<in> set hs. fmlookup (pool M) h \<noteq> None)"
  using assms price_conflicts_pool
  by (fastforce simp: store_tx_def drop_all_def split: if_split_asm sum.split_asm)

lemma AcceptTransaction_pool:
  assumes ok: "pool_ok E M" and acc: "AcceptTransaction E N A db fCheckInputs tx M = Inr (M', d)"
  shows "pool_ok E M'"
    and "fmlookup (pool M') k = (if k = SerializeHash_tx E tx then Some tx
           else if k \<in> set d then None else fmlookup (pool M) k)"
proof -
  obtain nFee nSigOps where C: "d = conflicts M tx" "CheckTransaction tx = Inr ()"
    "fmlookup (pool M) (SerializeHash_tx E tx) = None"
    "store_tx E A db tx fCheckInputs (conflicts M tx) nFee M = Inr M'"
    using AcceptTransaction_cases [OF acc] .
  define M1 where "M1 = drop_all E d M"
  have M': "M' = AddToMemoryPool E tx M1" and present: "\<forall>h \<in> set d. fmlookup (pool M) h \<noteq> None"
    using store_tx_drop [OF C(4)] by (simp_all add: M1_def C(1))
  have D: "pool_ok E M1" "\<And>k. fmlookup (pool M1) k = (if k \<in> set d then None else fmlookup (pool M) k)"
    "\<And>op. fmlookup (mapNextTx M1) op =
      (case fmlookup (mapNextTx M) op of None \<Rightarrow> None | Some c \<Rightarrow> if ptx c \<in> set d then None else Some c)"
    using drop_all_lookup [OF ok _ present] distinct_conflicts [of M tx] by (simp_all add: M1_def C(1))
  have "fmlookup (mapNextTx M1) op = None" if "op \<in> set (prevouts tx)" for op
    using that set_conflicts [of M tx] by (auto simp: D(3) C(1) split: option.split)
  moreover have "distinct (prevouts tx)"
    using C(2) by (simp add: CheckTransaction_iff tx_sane_def prevouts_def)
  ultimately show "pool_ok E M'"
    unfolding M' by (intro AddToMemoryPool_ok) (use D C(3) in simp_all)
  show "fmlookup (pool M') k = (if k = SerializeHash_tx E tx then Some tx
           else if k \<in> set d then None else fmlookup (pool M) k)"
    unfolding M' by (simp add: AddToMemoryPool_lookup D)
qed

section \<open>What a replacement pays\<close>

lemma FeeForSize_value: "n \<le> 100000 \<Longrightarrow> FeeForSize MIN_RELAY_FEE_PER_KB n = (100000 * int n + 999) div 1000"
proof -
  assume n: "n \<le> 100000"
  have "i64 (MIN_RELAY_FEE_PER_KB * int n) = 1000000 div 10 * int n"
    by (subst i64_id) (use n in \<open>simp_all add: in_i64_def MIN_RELAY_FEE_PER_KB_def CENT_def\<close>)
  moreover have "i64 (100000 * int n + 999) = 100000 * int n + 999"
    by (rule i64_id) (use n in \<open>simp add: in_i64_def\<close>)
  moreover have "n mod 2 ^ 32 = n" using n by simp
  ultimately show ?thesis by (simp add: FeeForSize_def Let_def)
qed

lemma pays_loop_iff:
  assumes "\<forall>(f, z) \<in> set old. 0 \<le> f \<and> f \<le> 90000000000000 \<and> z \<le> 100000"
    and "nNewSize \<le> 100000" "0 \<le> nNewFee" "nNewFee \<le> 90000000000000"
    and "0 \<le> a" "a + 90000000000000 * int (length old) < 2 ^ 62"
  shows "pays_loop nNewFee nNewSize old a = Some t \<longleftrightarrow>
    (\<forall>(f, z) \<in> set old. f * int nNewSize < nNewFee * int z) \<and> t = a + sum_list (map fst old)"
  using assms
proof (induction old arbitrary: a)
  case Nil
  then show ?case by auto
next
  case (Cons fz old)
  obtain f z where fz: "fz = (f, z)" by (cases fz)
  have r: "0 \<le> f" "f \<le> 90000000000000" "z \<le> 100000" using Cons(2) by (auto simp: fz)
  have prod: "0 \<le> x * int n \<and> x * int n \<le> 90000000000000 * 100000"
    if "0 \<le> x" "x \<le> 90000000000000" "n \<le> 100000" for x n
    using mult_mono [of x 90000000000000 "int n" 100000] that by simp
  have "i64 (nNewFee * int z) = nNewFee * int z" "i64 (f * int nNewSize) = f * int nNewSize"
    using prod [OF Cons(4,5) r(3)] prod [OF r(1,2) Cons(3)] by (auto intro!: i64_id simp: in_i64_def)
  moreover have "i64 (a + f) = a + f"
    by (rule i64_id) (use r Cons(6,7) in \<open>simp add: in_i64_def\<close>)
  moreover have "pays_loop nNewFee nNewSize old (a + f) = Some t \<longleftrightarrow>
      (\<forall>(f, z) \<in> set old. f * int nNewSize < nNewFee * int z) \<and> t = a + f + sum_list (map fst old)"
    by (rule Cons(1)) (use Cons r in \<open>auto simp: fz\<close>)
  ultimately show ?case by (auto simp: fz)
qed

lemma ReplacementPaysEnough_iff:
  assumes "\<forall>(f, z) \<in> set old. 0 \<le> f \<and> f \<le> 90000000000000 \<and> z \<le> 100000"
    and "nNewSize \<le> 100000" "0 \<le> nNewFee" "nNewFee \<le> 90000000000000" "length old \<le> MAX_REPLACED_TXS"
  shows "ReplacementPaysEnough nNewFee nNewSize old \<longleftrightarrow>
    (\<forall>(f, z) \<in> set old. f * int nNewSize < nNewFee * int z) \<and>
    sum_list (map fst old) + (100000 * int nNewSize + 999) div 1000 \<le> nNewFee"
proof -
  have len: "length old \<le> 100" using assms(5) by (simp add: MAX_REPLACED_TXS_def)
  have loop: "pays_loop nNewFee nNewSize old 0 = Some t \<longleftrightarrow>
      (\<forall>(f, z) \<in> set old. f * int nNewSize < nNewFee * int z) \<and> t = sum_list (map fst old)" for t
    using pays_loop_iff [OF assms(1-4), of 0] len by simp
  have fee: "FeeForSize MIN_RELAY_FEE_PER_KB nNewSize = (100000 * int nNewSize + 999) div 1000"
    using FeeForSize_value [OF assms(2)] by simp
  have "0 \<le> sum_list (map fst old)" using assms(1) by (intro sum_list_nonneg) auto
  moreover have "sum_list (map fst old) \<le> 90000000000000 * int (length old)"
    using assms(1) by (induction old) auto
  moreover have "(100000 * int nNewSize + 999) div 1000 \<le> 10000000000"
    "0 \<le> (100000 * int nNewSize + 999) div 1000"
    using assms(2) by auto
  ultimately have "i64 (sum_list (map fst old) + (100000 * int nNewSize + 999) div 1000) =
      sum_list (map fst old) + (100000 * int nNewSize + 999) div 1000"
    using len by (intro i64_id) (simp add: in_i64_def)
  moreover have "pays_loop nNewFee nNewSize old 0 =
      (if \<forall>(f, z) \<in> set old. f * int nNewSize < nNewFee * int z
       then Some (sum_list (map fst old)) else None)"
    using loop by (cases "pays_loop nNewFee nNewSize old 0") (simp_all only: option.simps if_split, blast+)
  ultimately show ?thesis by (auto simp: ReplacementPaysEnough_def fee)
qed

end
