(* ===== verification/Node.thy ===== *)
theory Node
  imports BlockFile ConnectBlock Mempool
begin

text \<open>
  The state of a node and what a block does to it (\<^verbatim>\<open>ProcessBlock\<close>, \<^verbatim>\<open>AcceptBlock\<close>,
  \<^verbatim>\<open>AddToBlockIndex\<close> and \<^verbatim>\<open>Reorganize\<close> of \<^verbatim>\<open>main.cpp\<close>).  The state is that of the globals:
  \<^verbatim>\<open>mapBlockIndex\<close> gives for a hash its entry with the chain behind it, and the pointers
  \<^verbatim>\<open>pnext\<close> of the entries are a map between their hashes.  Deleting an entry takes it out of the
  map; that other entries may still point to it is visible as a chain through a hash that is no
  longer in the map.  A handler returns the state it leaves, together with the error it reports.
  The wallet, the entries written to the block database, and messages to peers are left out.
\<close>

record node =
  mapBlockIndex :: "(uint256, chain) fmap"
  pnext :: "uint256 \<rightharpoonup> uint256"
  pindexGenesisBlock :: chain
  pindexBest :: chain
  hashBestChain :: uint256
  nBestHeight :: int
  nd_txdb :: txdb
  nd_files :: block_files
  nCurrentBlockFile :: u32
  nd_pool :: mempool
  mapOrphanBlocks :: "(uint256, CBlock) fmap"
  mapOrphanBlocksByPrev :: "(uint256 \<times> CBlock) list"

datatype index_error =
    AlreadyExists | ConnectBlockFailed connect_block_error | ForkIsNull | ReadFailed read_error
  | DisconnectBlockFailed disconnect_error | BranchInvalid connect_block_error

text \<open>
  What \<open>ConnectBlock\<close> and \<open>AcceptTransaction\<close> see of the node at the adjusted time \<open>t\<close>.  The
  answer of \<open>BlockIndexAtDiskPos\<close> does not depend on its cache, which is left out of the state.
\<close>

definition node_block_at :: "node \<Rightarrow> disk_pos \<Rightarrow> chain option" where
  "node_block_at nd key = fst (BlockIndexAtDiskPos (sorted_list_of_fmap (mapBlockIndex nd)) Map.empty key)"

definition node_view :: "int \<Rightarrow> node \<Rightarrow> chain_view" where
  "node_view t nd =
    \<lparr>viewFiles = nd_files nd, viewBlockAt = node_block_at nd, viewPool = fmlookup (pool (nd_pool nd)),
     viewAdjustedTime = t, viewBest = pindexBest nd\<rparr>"

definition node_accept_view :: "int \<Rightarrow> node \<Rightarrow> accept_view" where
  "node_accept_view t nd =
    \<lparr>avFiles = nd_files nd, avBlockAt = node_block_at nd, avAdjustedTime = t, avBest = pindexBest nd\<rparr>"

section \<open>Reorganize\<close>

text \<open>The loops that find the fork: lower the longer branch, then step back the shorter.\<close>

fun drop_above :: "int \<Rightarrow> chain \<Rightarrow> chain option" where
  "drop_above h [] = None"
| "drop_above h (e # c) = (if h < nHeight e then drop_above h c else Some (e # c))"

fun find_fork :: "chain \<Rightarrow> chain \<Rightarrow> chain option" where
  "find_fork [] plonger = (if plonger = [] then Some [] else None)"
| "find_fork (e # pfork) plonger =
    (if e # pfork = plonger then Some (e # pfork)
     else if pfork = [] then None
     else case drop_above (nHeight (hd pfork)) plonger of
            None \<Rightarrow> None
          | Some plonger' \<Rightarrow> find_fork pfork plonger')"

fun branch_to :: "chain \<Rightarrow> chain \<Rightarrow> chain list" where
  "branch_to pfork [] = []"
| "branch_to pfork (e # c) = (if e # c = pfork then [] else (e # c) # branch_to pfork c)"

fun disconnect_branch ::
    "ext \<Rightarrow> block_files \<Rightarrow> chain list \<Rightarrow> txdb \<Rightarrow> CTransaction list \<Rightarrow>
      index_error + (txdb \<times> CTransaction list)" where
  "disconnect_branch E files [] db vResurrect = Inr (db, vResurrect)"
| "disconnect_branch E files (pindex # rest) db vResurrect =
    (case ReadFromDisk E files (nFile (hd pindex)) (nBlockPos (hd pindex)) of
       Inl e \<Rightarrow> Inl (ReadFailed e)
     | Inr b \<Rightarrow>
        (case DisconnectBlock E b db of
           Inl e \<Rightarrow> Inl (DisconnectBlockFailed e)
         | Inr db' \<Rightarrow>
             disconnect_branch E files rest db' (vResurrect @ filter (\<lambda>tx. \<not> IsCoinBase tx) (vtx b))))"

text \<open>On a block that does not connect: the error, and the rest of the branch from it on.\<close>

fun connect_branch ::
    "ext \<Rightarrow> net_params \<Rightarrow> chain_view \<Rightarrow> chain list \<Rightarrow> txdb \<Rightarrow> CTransaction list \<Rightarrow>
      (index_error \<times> chain list) + (txdb \<times> CTransaction list)" where
  "connect_branch E N V [] db vDelete = Inr (db, vDelete)"
| "connect_branch E N V (pindex # rest) db vDelete =
    (case ReadFromDisk E (viewFiles V) (nFile (hd pindex)) (nBlockPos (hd pindex)) of
       Inl e \<Rightarrow> Inl (ReadFailed e, [])
     | Inr b \<Rightarrow>
        (case ConnectBlock E N V pindex b db of
           Inl e \<Rightarrow> Inl (BranchInvalid e, pindex # rest)
         | Inr db' \<Rightarrow> connect_branch E N V rest db' (vDelete @ vtx b)))"

definition delete_entry :: "chain \<Rightarrow> node \<Rightarrow> node" where
  "delete_entry pindex nd =
    nd\<lparr>nd_files := EraseBlockFromDisk (hd pindex) (nd_files nd),
       mapBlockIndex := fmdrop (phashBlock (hd pindex)) (mapBlockIndex nd)\<rparr>"

definition unlink :: "chain \<Rightarrow> (uint256 \<rightharpoonup> uint256) \<Rightarrow> uint256 \<rightharpoonup> uint256" where
  "unlink pindex m = (case tl pindex of [] \<Rightarrow> m | p # _ \<Rightarrow> m(phashBlock p := None))"

definition link :: "chain \<Rightarrow> (uint256 \<rightharpoonup> uint256) \<Rightarrow> uint256 \<rightharpoonup> uint256" where
  "link pindex m = (case tl pindex of [] \<Rightarrow> m | p # _ \<Rightarrow> m(phashBlock p \<mapsto> phashBlock (hd pindex)))"

definition resurrect ::
    "ext \<Rightarrow> net_params \<Rightarrow> accept_view \<Rightarrow> txdb \<Rightarrow> CTransaction list \<Rightarrow> mempool \<Rightarrow> mempool" where
  "resurrect E N A db txs M =
    fold (\<lambda>tx M. case AcceptTransaction E N A db False tx M of Inl _ \<Rightarrow> M | Inr (M', _) \<Rightarrow> M') txs M"

definition remove_txs :: "ext \<Rightarrow> CTransaction list \<Rightarrow> mempool \<Rightarrow> mempool" where
  "remove_txs E txs M = fold (RemoveFromMemoryPool E) txs M"

definition Reorganize ::
    "ext \<Rightarrow> net_params \<Rightarrow> int \<Rightarrow> chain \<Rightarrow> node \<Rightarrow> node \<times> index_error option" where
  "Reorganize E N t pindexNew nd =
    (case find_fork (pindexBest nd) pindexNew of
       None \<Rightarrow> (nd, Some ForkIsNull)
     | Some pfork \<Rightarrow>
         let vDisconnect = branch_to pfork (pindexBest nd); vConnect = rev (branch_to pfork pindexNew)
         in case disconnect_branch E (nd_files nd) vDisconnect (nd_txdb nd) [] of
              Inl e \<Rightarrow> (nd, Some e)
            | Inr (db, vResurrect) \<Rightarrow>
               (case connect_branch E N (node_view t nd) vConnect db [] of
                  Inl (e, doomed) \<Rightarrow> (fold delete_entry doomed nd, Some e)
                | Inr (db', vDelete) \<Rightarrow>
                    (nd\<lparr>nd_txdb := db',
                        pnext := fold link vConnect (fold unlink vDisconnect (pnext nd)),
                        nd_pool := remove_txs E vDelete
                          (resurrect E N (node_accept_view t nd) db' vResurrect (nd_pool nd))\<rparr>, None)))"

section \<open>A new entry of the index\<close>

definition new_entry :: "ext \<Rightarrow> CBlock \<Rightarrow> u32 \<Rightarrow> u32 \<Rightarrow> int \<Rightarrow> CBlockIndex" where
  "new_entry E b nf np h =
    \<lparr>phashBlock = GetHash E b, nFile = nf, nBlockPos = np, nHeight = h, idx_nVersion = blk_nVersion b,
     idx_hashMerkleRoot = hashMerkleRoot b, idx_nTime = nTime b, idx_nBits = nBits b,
     idx_nNonce = nNonce b\<rparr>"

definition new_chain :: "ext \<Rightarrow> node \<Rightarrow> CBlock \<Rightarrow> u32 \<Rightarrow> u32 \<Rightarrow> chain" where
  "new_chain E nd b nf np =
    (case fmlookup (mapBlockIndex nd) (hashPrevBlock b) of
       None \<Rightarrow> [new_entry E b nf np 0]
     | Some pprev \<Rightarrow> new_entry E b nf np (nHeight (hd pprev) + 1) # pprev)"

definition set_best :: "chain \<Rightarrow> node \<Rightarrow> node" where
  "set_best pindexNew nd =
    nd\<lparr>hashBestChain := phashBlock (hd pindexNew), pindexBest := pindexNew,
       nBestHeight := nHeight (hd pindexNew),
       nd_pool := (nd_pool nd)\<lparr>nTransactionsUpdated := nTransactionsUpdated (nd_pool nd) + 1\<rparr>\<rparr>"

definition AddToBlockIndex ::
    "ext \<Rightarrow> net_params \<Rightarrow> uint256 \<Rightarrow> int \<Rightarrow> CBlock \<Rightarrow> u32 \<Rightarrow> u32 \<Rightarrow> node \<Rightarrow> node \<times> index_error option" where
  "AddToBlockIndex E N hashGenesisBlock t b nf np nd =
    (let hash = GetHash E b
     in if fmlookup (mapBlockIndex nd) hash \<noteq> None then (nd, Some AlreadyExists)
        else
          let pindexNew = new_chain E nd b nf np;
              nd1 = nd\<lparr>mapBlockIndex := fmupd hash pindexNew (mapBlockIndex nd)\<rparr>
          in if nHeight (hd pindexNew) \<le> nBestHeight nd then (nd1, None)
             else if pindexGenesisBlock nd = [] \<and> hash = hashGenesisBlock then
               (set_best pindexNew (nd1\<lparr>pindexGenesisBlock := pindexNew\<rparr>), None)
             else if hashPrevBlock b = hashBestChain nd then
               (case ConnectBlock E N (node_view t nd1) pindexNew b (nd_txdb nd) of
                  Inl e \<Rightarrow> (delete_entry pindexNew nd1, Some (ConnectBlockFailed e))
                | Inr db' \<Rightarrow>
                    (set_best pindexNew
                      (nd1\<lparr>nd_txdb := db', pnext := link pindexNew (pnext nd),
                           nd_pool := remove_txs E (vtx b) (nd_pool nd)\<rparr>), None))
             else
               (case Reorganize E N t pindexNew nd1 of
                  (nd2, Some e) \<Rightarrow> (nd2, Some e)
                | (nd2, None) \<Rightarrow> (set_best pindexNew nd2, None)))"

datatype accept_block_error = Refused block_error | NotWritten | NotIndexed index_error

definition AcceptBlock ::
    "ext \<Rightarrow> net_params \<Rightarrow> uint256 \<Rightarrow> int \<Rightarrow> CBlock \<Rightarrow> node \<Rightarrow> node \<times> accept_block_error option" where
  "AcceptBlock E N hashGenesisBlock t b nd =
    (case AcceptBlock_checks E N (fmlookup (mapBlockIndex nd)) b of
       Inl e \<Rightarrow> (nd, Some (Refused e))
     | Inr _ \<Rightarrow>
         let nd0 = nd\<lparr>nCurrentBlockFile := snd (AppendBlockFile (nd_files nd) (nCurrentBlockFile nd))\<rparr>
         in case WriteToDisk N b (nd_files nd) (nCurrentBlockFile nd) of
              None \<Rightarrow> (nd0, Some NotWritten)
            | Some (files', nf, np) \<Rightarrow>
                let (nd', r) = AddToBlockIndex E N hashGenesisBlock t b nf np (nd0\<lparr>nd_files := files'\<rparr>)
                in (nd', map_option NotIndexed r))"

section \<open>Orphan blocks\<close>

text \<open>
  A new block whose parent is unknown waits in \<^verbatim>\<open>mapOrphanBlocks\<close>; when there are too many,
  random ones are dropped: \<open>rs\<close> supplies the random hashes.  The pointers of
  \<^verbatim>\<open>mapOrphanBlocksByPrev\<close>, in the order of the multimap, are the blocks they point to.
\<close>

definition MAX_ORPHAN_BLOCKS :: nat where "MAX_ORPHAN_BLOCKS = 200"

definition orphan_victim :: "uint256 \<Rightarrow> (uint256, CBlock) fmap \<Rightarrow> uint256" where
  "orphan_victim randomhash m =
    (let keys = sorted_list_of_fset (fmdom m)
     in case filter (\<lambda>k. randomhash \<le> k) keys of k # _ \<Rightarrow> k | [] \<Rightarrow> hd keys)"

lemma orphan_victim_in:
  assumes "m \<noteq> fmempty"
  shows "orphan_victim r m |\<in>| fmdom m"
proof -
  have ne: "sorted_list_of_fset (fmdom m) \<noteq> []"
    using assms by (metis fmdom_empty fset_of_list_simps(1) fmrestrict_fset_dom fmrestrict_fset_null
        sorted_list_of_fset_simps(2))
  show ?thesis
  proof (cases "filter (\<lambda>k. r \<le> k) (sorted_list_of_fset (fmdom m))")
    case Nil
    then show ?thesis
      using hd_in_set [OF ne] by (simp add: orphan_victim_def)
  next
    case (Cons k ks)
    then have "k \<in> set (sorted_list_of_fset (fmdom m))"
      by (metis filter_is_subset list.set_intros(1) subsetD)
    then show ?thesis using Cons by (simp add: orphan_victim_def)
  qed
qed

function LimitOrphanBlocks ::
    "nat \<Rightarrow> (nat \<Rightarrow> uint256) \<Rightarrow> (uint256, CBlock) fmap \<Rightarrow> (uint256 \<times> CBlock) list \<Rightarrow>
      (uint256, CBlock) fmap \<times> (uint256 \<times> CBlock) list" where
  "LimitOrphanBlocks nMaxOrphans rs m byPrev =
    (if fcard (fmdom m) \<le> nMaxOrphans then (m, byPrev)
     else
       let h = orphan_victim (rs 0) m; pblock = the (fmlookup m h)
       in LimitOrphanBlocks nMaxOrphans (\<lambda>i. rs (Suc i)) (fmdrop h m)
            (filter (\<lambda>(prev, b). \<not> (prev = hashPrevBlock pblock \<and> b = pblock)) byPrev))"
  by pat_completeness auto
termination
proof (relation "measure (\<lambda>(n, rs, m, l). fcard (fmdom m))")
  fix n :: nat and rs :: "nat \<Rightarrow> uint256" and m :: "(uint256, CBlock) fmap" and l :: "(uint256 \<times> CBlock) list" and h b
  assume "\<not> fcard (fmdom m) \<le> n" and h: "h = orphan_victim (rs 0) m"
  then have "m \<noteq> fmempty" by (auto simp: fcard_fempty)
  then have "h |\<in>| fmdom m" using orphan_victim_in h by simp
  then have "fcard (fmdom m |-| {|h|}) < fcard (fmdom m)" by (rule fcard_fminus1_less)
  then show "((n, \<lambda>i. rs (Suc i), fmdrop h m, filter (\<lambda>(prev, ba). \<not> (prev = hashPrevBlock b \<and> ba = b)) l), n, rs, m, l)
      \<in> measure (\<lambda>(n, rs, m, l). fcard (fmdom m))"
    by simp
qed simp

declare LimitOrphanBlocks.simps [simp del]

text \<open>Nothing but \<open>ProcessBlock\<close> itself touches the orphans.\<close>

lemma fold_delete_entry_orphans [simp]:
  "mapOrphanBlocksByPrev (fold delete_entry cs nd) = mapOrphanBlocksByPrev nd"
  "mapOrphanBlocks (fold delete_entry cs nd) = mapOrphanBlocks nd"
  by (induction cs arbitrary: nd) (simp_all add: delete_entry_def)

lemma Reorganize_orphans [simp]:
  "mapOrphanBlocksByPrev (fst (Reorganize E N t c nd)) = mapOrphanBlocksByPrev nd"
  "mapOrphanBlocks (fst (Reorganize E N t c nd)) = mapOrphanBlocks nd"
  by (auto simp: Reorganize_def Let_def split: option.split sum.split)

lemma AddToBlockIndex_orphans [simp]:
  "mapOrphanBlocksByPrev (fst (AddToBlockIndex E N g t b nf np nd)) = mapOrphanBlocksByPrev nd"
  "mapOrphanBlocks (fst (AddToBlockIndex E N g t b nf np nd)) = mapOrphanBlocks nd"
proof -
  have R: "mapOrphanBlocksByPrev nd2 = mapOrphanBlocksByPrev nd1" "mapOrphanBlocks nd2 = mapOrphanBlocks nd1"
    if "Reorganize E N t c nd1 = (nd2, r)" for c nd1 nd2 r
    using Reorganize_orphans [of E N t c nd1] that by simp_all
  show "mapOrphanBlocksByPrev (fst (AddToBlockIndex E N g t b nf np nd)) = mapOrphanBlocksByPrev nd"
    "mapOrphanBlocks (fst (AddToBlockIndex E N g t b nf np nd)) = mapOrphanBlocks nd"
    by (auto simp: AddToBlockIndex_def Let_def set_best_def delete_entry_def
        split: sum.split prod.split option.split dest: R)
qed

lemma AcceptBlock_orphans [simp]:
  "mapOrphanBlocksByPrev (fst (AcceptBlock E N g t b nd)) = mapOrphanBlocksByPrev nd"
  "mapOrphanBlocks (fst (AcceptBlock E N g t b nd)) = mapOrphanBlocks nd"
proof -
  have A: "mapOrphanBlocksByPrev nd2 = mapOrphanBlocksByPrev nd1" "mapOrphanBlocks nd2 = mapOrphanBlocks nd1"
    if "AddToBlockIndex E N g t b nf np nd1 = (nd2, r)" for nf np nd1 nd2 r
    using AddToBlockIndex_orphans [of E N g t b nf np nd1] that by simp_all
  show "mapOrphanBlocksByPrev (fst (AcceptBlock E N g t b nd)) = mapOrphanBlocksByPrev nd"
    "mapOrphanBlocks (fst (AcceptBlock E N g t b nd)) = mapOrphanBlocks nd"
    by (auto simp: AcceptBlock_def Let_def split: sum.split prod.split option.split dest: A)
qed

text \<open>The orphans waiting for one block: each is tried, and the hash of an accepted one queued.\<close>

fun accept_orphans ::
    "ext \<Rightarrow> net_params \<Rightarrow> uint256 \<Rightarrow> int \<Rightarrow> CBlock list \<Rightarrow> node \<Rightarrow> node \<times> uint256 list" where
  "accept_orphans E N g t [] nd = (nd, [])"
| "accept_orphans E N g t (b # bs) nd =
    (let (nd1, r) = AcceptBlock E N g t b nd;
         (nd2, accepted) = accept_orphans E N g t bs
           (nd1\<lparr>mapOrphanBlocks := fmdrop (GetHash E b) (mapOrphanBlocks nd1)\<rparr>)
     in (nd2, (if r = None then [GetHash E b] else []) @ accepted))"

lemma accept_orphans_ByPrev [simp]:
  "mapOrphanBlocksByPrev (fst (accept_orphans E N g t bs nd)) = mapOrphanBlocksByPrev nd"
proof (induction bs arbitrary: nd)
  case (Cons b bs)
  obtain nd1 r where r: "AcceptBlock E N g t b nd = (nd1, r)" by force
  then have "mapOrphanBlocksByPrev nd1 = mapOrphanBlocksByPrev nd"
    using AcceptBlock_orphans(1) [of E N g t b nd] by simp
  then show ?case
    using Cons [of "nd1\<lparr>mapOrphanBlocks := fmdrop (GetHash E b) (mapOrphanBlocks nd1)\<rparr>"]
    by (auto simp: r split: prod.split)
qed simp

lemma accept_orphans_length: "length (snd (accept_orphans E N g t bs nd)) \<le> length bs"
proof (induction bs arbitrary: nd)
  case (Cons b bs)
  obtain nd1 r where r: "AcceptBlock E N g t b nd = (nd1, r)" by force
  show ?case
    using Cons [of "nd1\<lparr>mapOrphanBlocks := fmdrop (GetHash E b) (mapOrphanBlocks nd1)\<rparr>"]
    by (auto simp: r split: prod.split)
qed simp

text \<open>The work queue of \<open>ProcessBlock\<close>.\<close>

function process_orphans ::
    "ext \<Rightarrow> net_params \<Rightarrow> uint256 \<Rightarrow> int \<Rightarrow> uint256 list \<Rightarrow> node \<Rightarrow> node" where
  "process_orphans E N g t [] nd = nd"
| "process_orphans E N g t (hashPrev # vWorkQueue) nd =
    (let waiting = map snd (filter (\<lambda>(p, b). p = hashPrev) (mapOrphanBlocksByPrev nd));
         (nd1, accepted) = accept_orphans E N g t waiting nd
     in process_orphans E N g t (vWorkQueue @ accepted)
          (nd1\<lparr>mapOrphanBlocksByPrev := filter (\<lambda>(p, b). p \<noteq> hashPrev) (mapOrphanBlocksByPrev nd1)\<rparr>))"
  by pat_completeness auto
termination
proof (relation "measure (\<lambda>(E, N, g, t, q, nd). length q + length (mapOrphanBlocksByPrev nd))")
  fix E :: ext and N :: net_params and g t h q and nd nd1 :: node and bs acc x
  assume bs: "bs = map snd (filter (\<lambda>(p, b). p = h) (mapOrphanBlocksByPrev nd))"
    and x: "x = accept_orphans E N g t bs nd" "(nd1, acc) = x"
  have same: "mapOrphanBlocksByPrev nd1 = mapOrphanBlocksByPrev nd"
    using accept_orphans_ByPrev [of E N g t bs nd] x by (metis fst_conv)
  have "length acc \<le> length (filter (\<lambda>(p, b). p = h) (mapOrphanBlocksByPrev nd))"
    using accept_orphans_length [of E N g t bs nd] x bs by (metis length_map snd_conv)
  moreover have "length (filter (\<lambda>(p, b). p = h) l) + length (filter (\<lambda>(p, b). p \<noteq> h) l) = length l"
    for l :: "(uint256 \<times> CBlock) list"
    using sum_length_filter_compl [of "\<lambda>(p, b). p = h" l] by (simp add: case_prod_unfold)
  ultimately have "length acc + length (filter (\<lambda>(p, b). p \<noteq> h) (mapOrphanBlocksByPrev nd)) \<le>
      length (mapOrphanBlocksByPrev nd)"
    by (metis add.commute add_le_cancel_left)
  then show "((E, N, g, t, q @ acc,
        nd1\<lparr>mapOrphanBlocksByPrev := filter (\<lambda>(p, b). p \<noteq> h) (mapOrphanBlocksByPrev nd1)\<rparr>),
      E, N, g, t, h # q, nd) \<in> measure (\<lambda>(E, N, g, t, q, nd). length q + length (mapOrphanBlocksByPrev nd))"
    by (simp add: same)
qed simp

datatype process_result =
    AlreadyHave | AlreadyOrphan | CheckBlockFailed block_error | HeldAsOrphan
  | AcceptBlockFailed accept_block_error | Accepted

definition ProcessBlock ::
    "ext \<Rightarrow> net_params \<Rightarrow> uint256 \<Rightarrow> int \<Rightarrow> (nat \<Rightarrow> uint256) \<Rightarrow> CBlock \<Rightarrow> node \<Rightarrow> node \<times> process_result" where
  "ProcessBlock E N g t rs pblock nd =
    (let hash = GetHash E pblock
     in if fmlookup (mapBlockIndex nd) hash \<noteq> None then (nd, AlreadyHave)
        else if fmlookup (mapOrphanBlocks nd) hash \<noteq> None then (nd, AlreadyOrphan)
        else case CheckBlock E N t pblock of
          Inl e \<Rightarrow> (nd, CheckBlockFailed e)
        | Inr _ \<Rightarrow>
            if fmlookup (mapBlockIndex nd) (hashPrevBlock pblock) = None then
              let (m, l) = LimitOrphanBlocks MAX_ORPHAN_BLOCKS rs (fmupd hash pblock (mapOrphanBlocks nd))
                             (mapOrphanBlocksByPrev nd @ [(hashPrevBlock pblock, pblock)])
              in (nd\<lparr>mapOrphanBlocks := m, mapOrphanBlocksByPrev := l\<rparr>, HeldAsOrphan)
            else case AcceptBlock E N g t pblock nd of
              (nd1, Some e) \<Rightarrow> (nd1, AcceptBlockFailed e)
            | (nd1, None) \<Rightarrow> (process_orphans E N g t [hash] nd1, Accepted))"

section \<open>Questions about the chain\<close>

definition IsInMainChain :: "node \<Rightarrow> chain \<Rightarrow> bool" where
  "IsInMainChain nd pindex \<longleftrightarrow> pnext nd (phashBlock (hd pindex)) \<noteq> None \<or> pindex = pindexBest nd"

text \<open>\<open>nNet\<close> is \<^verbatim>\<open>GetPeerMedianHeight()\<close>.\<close>

definition IsInitialBlockDownload :: "node \<Rightarrow> int \<Rightarrow> bool" where
  "IsInitialBlockDownload nd nNet =
    (if pindexBest nd = [] then True else if nNet < 0 then False else nBestHeight nd < nNet - 3)"

text \<open>
  \<^verbatim>\<open>CBlockLocator\<close>: hashes of the chain, ten of them step by step and then in doubling steps.
  \<open>nStep\<close> is at least 1, so a step drops the entry just taken.
\<close>

function locator_hashes :: "chain \<Rightarrow> nat \<Rightarrow> nat \<Rightarrow> uint256 list" where
  "locator_hashes [] nStep n = []"
| "locator_hashes (e # pindex) nStep n =
    phashBlock e # locator_hashes (drop (nStep - 1) pindex) (if 10 < Suc n then nStep * 2 else nStep) (Suc n)"
  by pat_completeness auto
termination
  by (relation "measure (\<lambda>(c, k, n). length c)") auto

definition CBlockLocator_Set :: "uint256 \<Rightarrow> chain \<Rightarrow> uint256 list" where
  "CBlockLocator_Set hashGenesisBlock pindex = locator_hashes pindex 1 0 @ [hashGenesisBlock]"

fun CBlockLocator_GetBlockIndex :: "node \<Rightarrow> uint256 list \<Rightarrow> chain" where
  "CBlockLocator_GetBlockIndex nd [] = pindexGenesisBlock nd"
| "CBlockLocator_GetBlockIndex nd (hash # vHave) =
    (case fmlookup (mapBlockIndex nd) hash of
       None \<Rightarrow> CBlockLocator_GetBlockIndex nd vHave
     | Some pindex \<Rightarrow> if IsInMainChain nd pindex then pindex else CBlockLocator_GetBlockIndex nd vHave)"

fun CBlockLocator_GetBlockHash :: "node \<Rightarrow> uint256 \<Rightarrow> uint256 list \<Rightarrow> uint256" where
  "CBlockLocator_GetBlockHash nd hashGenesisBlock [] = hashGenesisBlock"
| "CBlockLocator_GetBlockHash nd hashGenesisBlock (hash # vHave) =
    (case fmlookup (mapBlockIndex nd) hash of
       None \<Rightarrow> CBlockLocator_GetBlockHash nd hashGenesisBlock vHave
     | Some pindex \<Rightarrow>
         if IsInMainChain nd pindex then hash else CBlockLocator_GetBlockHash nd hashGenesisBlock vHave)"

definition CBlockLocator_GetHeight :: "node \<Rightarrow> uint256 list \<Rightarrow> int" where
  "CBlockLocator_GetHeight nd vHave =
    (case CBlockLocator_GetBlockIndex nd vHave of [] \<Rightarrow> 0 | e # _ \<Rightarrow> nHeight e)"

text \<open>A wallet transaction with its place in a block; \<open>fMerkleVerified\<close> is the memo of the check.\<close>

record CMerkleTx =
  mtx :: CTransaction
  hashBlock :: uint256
  vMerkleBranch :: "uint256 list"
  nIndex :: int
  fMerkleVerified :: bool

definition GetDepthInMainChain :: "ext \<Rightarrow> node \<Rightarrow> CMerkleTx \<Rightarrow> int \<times> CMerkleTx" where
  "GetDepthInMainChain E nd w =
    (if hashBlock w = 0 \<or> nIndex w = - 1 then (0, w)
     else case fmlookup (mapBlockIndex nd) (hashBlock w) of
       None \<Rightarrow> (0, w)
     | Some pindex \<Rightarrow>
         if pindex = [] \<or> \<not> IsInMainChain nd pindex then (0, w)
         else if \<not> fMerkleVerified w \<and>
                 CheckMerkleBranch E (SerializeHash_tx E (mtx w)) (vMerkleBranch w) (nIndex w) \<noteq>
                   idx_hashMerkleRoot (hd pindex)
         then (0, w)
         else (nHeight (hd (pindexBest nd)) - nHeight (hd pindex) + 1, w\<lparr>fMerkleVerified := True\<rparr>))"

definition GetBlocksToMaturity :: "ext \<Rightarrow> node \<Rightarrow> CMerkleTx \<Rightarrow> int" where
  "GetBlocksToMaturity E nd w =
    (if \<not> IsCoinBase (mtx w) then 0
     else max 0 (COINBASE_MATURITY + 20 - fst (GetDepthInMainChain E nd w)))"

end
