(* ===== verification/History.thy ===== *)
theory History
  imports Node Supply
begin

text \<open>
  The transaction index as a function of the chain.  A history is the list of the entries of a
  chain, tip first, each with its block; \<open>connected H db\<close> says that \<open>db\<close> is what connecting the
  blocks of \<open>H\<close> one after the other, on top of the genesis block, leaves, whatever the node's
  view was at each of these moments.  What follows from it does not depend on those views, but
  only on the blocks still being on disk.
\<close>

type_synonym history = "(CBlockIndex \<times> CBlock) list"

text \<open>A checked block on disk where its entry says.\<close>

definition entry_block :: "ext \<Rightarrow> net_params \<Rightarrow> block_files \<Rightarrow> CBlockIndex \<Rightarrow> CBlock \<Rightarrow> bool" where
  "entry_block E N files e b \<longleftrightarrow>
    on_disk files (nFile e) (nBlockPos e) b \<and> wf_CBlock b \<and> nFile e \<noteq> - 1 \<and> 8 \<le> unat (nBlockPos e) \<and>
    phashBlock e = GetHash E b \<and> (\<exists>t. CheckBlock E N t b = Inr ())"

definition H_stored :: "ext \<Rightarrow> net_params \<Rightarrow> block_files \<Rightarrow> history \<Rightarrow> bool" where
  "H_stored E N files H \<longleftrightarrow> (\<forall>(e, b) \<in> set (butlast H). entry_block E N files e b)"

lemma H_stored_Cons: "H \<noteq> [] \<Longrightarrow> H_stored E N files ((e, b) # H) \<longleftrightarrow> entry_block E N files e b \<and> H_stored E N files H"
  by (simp add: H_stored_def)

inductive connected :: "ext \<Rightarrow> net_params \<Rightarrow> history \<Rightarrow> txdb \<Rightarrow> bool" for E N where
  genesis: "nHeight g = 0 \<Longrightarrow> connected E N [(g, b)] Map.empty"
| extend: "connected E N H db \<Longrightarrow> H_stored E N (viewFiles V) ((e, b) # H) \<Longrightarrow>
    nHeight e = nHeight (fst (hd H)) + 1 \<Longrightarrow> \<forall>h \<in> set (tx_hashes E b). db h = None \<Longrightarrow>
    ConnectBlock E N V (e # map fst H) b db = Inr db' \<Longrightarrow> connected E N ((e, b) # H) db'"

inductive_cases connected_extendE: "connected E N ((e, b) # H) db"

lemma connected_ne: "connected E N H db \<Longrightarrow> H \<noteq> []"
  by (induction rule: connected.induct) simp_all

lemma entry_block_read:
  "entry_block E N files e b \<Longrightarrow> ReadFromDisk E files (nFile e) (nBlockPos e) = Inr b"
  by (auto simp: entry_block_def CheckBlock_iff block_sane_def intro: on_disk_read)

lemma entry_block_unique: "entry_block E N files e b \<Longrightarrow> entry_block E N files e b' \<Longrightarrow> b = b'"
  by (metis entry_block_read sum.inject(2))

lemma entry_block_sane: "entry_block E N files e b \<Longrightarrow> \<exists>t. block_sane E N t b"
  by (auto simp: entry_block_def CheckBlock_iff)

lemma entry_block_stored:
  "entry_block E N (viewFiles V) e b \<Longrightarrow> stored V (e # c) b"
  by (auto simp: entry_block_def stored_def)

lemma entry_block_distinct: "entry_block E N files e b \<Longrightarrow> distinct (tx_hashes E b)"
  by (auto simp: entry_block_def CheckBlock_iff block_sane_def)

section \<open>Where the entries of the index point\<close>

definition tx_at :: "CBlockIndex \<Rightarrow> CBlock \<Rightarrow> nat \<Rightarrow> CDiskTxPos" where
  "tx_at e b i = \<lparr>pos_nFile = nFile e, pos_nBlockPos = nBlockPos e,
     pos_nTxPos = tx_positions (first_tx_pos (nBlockPos e) b) (vtx b) ! i\<rparr>"

definition located :: "ext \<Rightarrow> history \<Rightarrow> txdb \<Rightarrow> bool" where
  "located E H db \<longleftrightarrow>
    (\<forall>h en. db h = Some en \<longrightarrow>
      (\<exists>e b i. (e, b) \<in> set (butlast H) \<and> i < length (vtx b) \<and> SerializeHash_tx E (vtx b ! i) = h \<and>
        pos en = tx_at e b i \<and> length (vout (vtx b ! i)) = length (vSpent en)) \<and>
      (\<forall>p \<in> set (vSpent en). CDiskTxPos_IsNull p \<longrightarrow> p = CDiskTxPos_SetNull))"

lemma locatedE:
  assumes "located E H db" "db h = Some en"
  obtains e b i where "(e, b) \<in> set (butlast H)" "i < length (vtx b)" "SerializeHash_tx E (vtx b ! i) = h"
    "pos en = tx_at e b i" "length (vout (vtx b ! i)) = length (vSpent en)"
  using assms unfolding located_def by blast

lemma tx_at_read:
  assumes "entry_block E N files e b" "i < length (vtx b)"
  shows "tx_ReadFromDisk files (tx_at e b i) = Some (vtx b ! i)" "tx_at e b i \<noteq> pos_in_pool"
    "\<not> CDiskTxPos_IsNull (tx_at e b i)"
  using assms read_back [of files "nFile e" "nBlockPos e" b i]
  by (auto simp: entry_block_def tx_at_def pos_in_pool_def CDiskTxPos_IsNull_def)

lemma H_storedD: "H_stored E N files H \<Longrightarrow> (e, b) \<in> set (butlast H) \<Longrightarrow> entry_block E N files e b"
  by (auto simp: H_stored_def)

lemma located_index_ok:
  assumes "located E H db" "H_stored E N files H"
  shows "index_ok E files db"
  unfolding index_ok_def
proof (intro allI impI)
  fix h en assume en: "db h = Some en"
  obtain e b i where w: "(e, b) \<in> set (butlast H)" "i < length (vtx b)" "SerializeHash_tx E (vtx b ! i) = h"
    "pos en = tx_at e b i" "length (vout (vtx b ! i)) = length (vSpent en)"
    using locatedE [OF assms(1) en] .
  then show "pos en \<noteq> pos_in_pool \<and>
      (\<forall>p \<in> set (vSpent en). CDiskTxPos_IsNull p \<longrightarrow> p = CDiskTxPos_SetNull) \<and>
      (\<exists>tx. tx_ReadFromDisk files (pos en) = Some tx \<and> SerializeHash_tx E tx = h \<and>
        length (vout tx) = length (vSpent en))"
    using tx_at_read [OF H_storedD [OF assms(2) w(1)] w(2)] assms(1) en by (auto simp: located_def)
qed

lemma located_value:
  assumes "located E H db" "H_stored E N files H" "H_stored E N' files' H"
  shows "coin_value files db op = coin_value files' db op"
proof (cases "db (out_hash op)")
  case (Some en)
  obtain e b i where "(e, b) \<in> set (butlast H)" "i < length (vtx b)" "pos en = tx_at e b i"
    using locatedE [OF assms(1) Some] by metis
  then have "tx_ReadFromDisk files (pos en) = tx_ReadFromDisk files' (pos en)"
    using tx_at_read(1) [OF H_storedD [OF assms(2)]] tx_at_read(1) [OF H_storedD [OF assms(3)]] by simp
  then show ?thesis using Some by (simp add: coin_value_def)
qed (simp add: coin_value_def)

lemma located_mono: "located E H db \<Longrightarrow> H \<noteq> [] \<Longrightarrow> located E (x # H) db"
proof -
  assume "H \<noteq> []"
  then have "set (butlast H) \<subseteq> set (butlast (x # H))" by auto
  then show "located E H db \<Longrightarrow> located E (x # H) db" unfolding located_def by blast
qed

lemma located_hashes: "located E H db \<Longrightarrow> db h = Some en \<Longrightarrow> \<exists>(e, b) \<in> set (butlast H). h \<in> set (tx_hashes E b)"
  by (erule (1) locatedE) (force simp: tx_hashes_def)

lemma located_set_spent:
  assumes "located E H db" "\<not> CDiskTxPos_IsNull p"
  shows "located E H (set_spent db op p)"
  unfolding located_def
proof (intro allI impI)
  fix h en assume en: "set_spent db op p h = Some en"
  have "db h \<noteq> None" using en set_spent_dom [of db op p h] by (metis option.distinct(1))
  then obtain en0 where en0: "db h = Some en0" by blast
  then have "pos en = pos en0" "length (vSpent en) = length (vSpent en0)"
    using en set_spent_pos [of db op p h] set_spent_length [of db op p h] by auto
  moreover have "set (vSpent en) \<subseteq> insert p (set (vSpent en0))"
    using en en0 set_update_subset_insert [of "vSpent en0" "unat (out_n op)" p]
    by (auto simp: set_spent_def split: option.split_asm if_split_asm)
  moreover obtain e b i where "(e, b) \<in> set (butlast H)" "i < length (vtx b)"
    "SerializeHash_tx E (vtx b ! i) = h" "pos en0 = tx_at e b i"
    "length (vout (vtx b ! i)) = length (vSpent en0)"
    using locatedE [OF assms(1) en0] .
  ultimately show "(\<exists>e b i. (e, b) \<in> set (butlast H) \<and> i < length (vtx b) \<and>
        SerializeHash_tx E (vtx b ! i) = h \<and> pos en = tx_at e b i \<and>
        length (vout (vtx b ! i)) = length (vSpent en)) \<and>
      (\<forall>p \<in> set (vSpent en). CDiskTxPos_IsNull p \<longrightarrow> p = CDiskTxPos_SetNull)"
    using assms en0 unfolding located_def by (metis insert_iff subsetD)
qed

lemma located_mark_all:
  "located E H db \<Longrightarrow> \<not> CDiskTxPos_IsNull p \<Longrightarrow> located E H (mark_all p ops db)"
  by (induction ops arbitrary: db) (simp_all add: located_set_spent)

lemma located_add:
  assumes "located E H db" "(e, b) \<in> set (butlast H)" "i < length (vtx b)"
  shows "located E H (AddTxIndex E db (vtx b ! i) (tx_at e b i))"
  using assms by (fastforce simp: located_def AddTxIndex_def UpdateTxIndex_def new_CTxIndex_def)

lemma connect_txs_located:
  assumes "list_all2 (\<lambda>tx p. connect_mode (block_ctx V pindex b p) tx) txs ps"
    and "\<forall>k < length txs. \<exists>i < length (vtx b). txs ! k = vtx b ! i \<and>
      posThisTx (block_ctx V pindex b (ps ! k)) = tx_at e b i"
    and "(e, b) \<in> set (butlast H)" "H_stored E N' (viewFiles V) H"
    and "located E H (ctxdb s)" "MoneyRange (nFees s)"
    and "connect_txs E N V pindex b txs ps s = Inr s'"
  shows "located E H (ctxdb s')"
  using assms
proof (induction txs ps arbitrary: s rule: list_all2_induct)
  case Nil
  then show ?case by simp
next
  case (Cons tx txs p ps)
  let ?C = "block_ctx V pindex b p"
  obtain s1 where conn: "ConnectInputs E N ?C tx s = Inr s1"
    and rest: "connect_txs E N V pindex b txs ps s1 = Inr s'"
    using Cons by (auto split: if_split_asm sum.split_asm)
  have C: "fBlock ?C" "\<not> fMiner ?C" "\<not> CDiskTxPos_IsNull (posThisTx ?C)"
    using Cons(1) by (simp_all add: connect_mode_def)
  have "index_ok E (blockFiles ?C) (ctxdb s)" using located_index_ok [OF Cons(7,6)] by simp
  note F = ConnectInputs_block [OF C this Cons(8) conn]
  obtain i where i: "i < length (vtx b)" "tx = vtx b ! i" "posThisTx ?C = tx_at e b i"
    using Cons(4) by force
  have "located E H (ctxdb s1)"
    using F located_add [OF located_mark_all [OF Cons(7) C(3)] Cons(5) i(1)] i by simp
  moreover have "\<forall>k < length txs. \<exists>i < length (vtx b). txs ! k = vtx b ! i \<and>
      posThisTx (block_ctx V pindex b (ps ! k)) = tx_at e b i"
    using Cons(4) by force
  ultimately show ?case using Cons F rest by blast
qed

lemma ConnectBlock_located:
  assumes conn: "ConnectBlock E N V (e # c) b db = Inr db'"
    and stored: "H_stored E N' (viewFiles V) ((e, b) # H)" "H \<noteq> []"
    and ok: "located E H db"
  shows "located E ((e, b) # H) db'"
proof -
  have eb: "entry_block E N' (viewFiles V) e b" using stored by (simp add: H_stored_Cons)
  obtain s where run: "connect_txs E N V (e # c) b (vtx b) (block_positions (e # c) b)
      \<lparr>ctxdb = db, mapTestPool = Map.empty, nFees = 0, nP2SHSigOps = block_sigops N b\<rparr> = Inr s"
    and db': "db' = ctxdb s"
    using ConnectBlock_cases [OF conn] .
  have "\<forall>k < length (vtx b). \<exists>i < length (vtx b). vtx b ! k = vtx b ! i \<and>
      posThisTx (block_ctx V (e # c) b (block_positions (e # c) b ! k)) = tx_at e b i"
    by (auto simp: block_ctx_def tx_at_def block_positions_def)
  then show ?thesis
    unfolding db'
    by (rule connect_txs_located [OF stored_modes [OF entry_block_stored [OF eb]] _ _ stored(1) _ _ run])
      (use stored ok in \<open>simp_all add: located_mono\<close>)
qed

lemma connected_located: "connected E N H db \<Longrightarrow> located E H db"
proof (induction rule: connected.induct)
  case (extend H db V e b db')
  then show ?case using ConnectBlock_located [OF extend.hyps(5,2) connected_ne] by blast
qed (simp add: located_def)

section \<open>Values\<close>

lemma connected_height: "connected E N H db \<Longrightarrow> nHeight (fst (hd H)) = int (length H) - 1"
proof (induction rule: connected.induct)
  case (extend H db V e b db')
  then show ?case using connected_ne [OF extend.hyps(1)] by (cases H) auto
qed simp

lemma connected_values:
  "connected E N H db \<Longrightarrow> H_stored E N files H \<Longrightarrow>
    values_ok files db \<and> length H \<le> 13440000 \<and> total_value files db \<le> (\<Sum>k<length H. subsidy k)"
proof (induction arbitrary: files rule: connected.induct)
  case (genesis g b)
  have "coins Map.empty = {}" by (auto simp: coins_def entry_unspent_def ReadTxIndex_def)
  then show ?case by (simp add: values_ok_def total_value_def subsidy_def COIN_def)
next
  case (extend H db V e b db')
  have ne: "H \<noteq> []" by (rule connected_ne [OF extend.hyps(1)])
  have eb: "entry_block E N (viewFiles V) e b" and VH: "H_stored E N (viewFiles V) H"
    using extend.hyps(2) ne by (simp_all add: H_stored_Cons)
  obtain t where sane: "block_sane E N t b" using entry_block_sane [OF eb] by blast
  have IH: "values_ok (viewFiles V) db" "length H \<le> 13440000"
    "total_value (viewFiles V) db \<le> (\<Sum>k<length H. subsidy k)"
    using extend.IH [OF VH] by simp_all
  have height: "nHeight e = int (length H)" using connected_height [OF extend.hyps(1)] extend.hyps(3) by simp
  have B: "values_ok (viewFiles V) db' \<and> nHeight e < 13440000 \<and>
      total_value (viewFiles V) db' \<le> total_value (viewFiles V) db + subsidy (nat (nHeight e))"
    using ConnectBlock_le [OF entry_block_stored [OF eb] sane
        located_index_ok [OF connected_located [OF extend.hyps(1)] VH] IH(1) _ extend.hyps(5)] height by simp
  have same: "coin_value files db' op = coin_value (viewFiles V) db' op" for op
    by (rule located_value [OF ConnectBlock_located [OF extend.hyps(5,2) ne connected_located [OF extend.hyps(1)]]
        extend.prems extend.hyps(2)])
  then have "total_value files db' = total_value (viewFiles V) db'" "values_ok files db' = values_ok (viewFiles V) db'"
    by (simp_all add: total_value_def values_ok_def)
  then show ?case using B IH height by simp
qed

section \<open>Disconnecting\<close>

lemma connected_disconnect:
  assumes "connected E N ((e, b) # H) db'" "H \<noteq> []"
  shows "\<exists>db. connected E N H db \<and> DisconnectBlock E b db' = Inr db"
proof -
  obtain db V where C: "connected E N H db" "H_stored E N (viewFiles V) ((e, b) # H)"
    "\<forall>h \<in> set (tx_hashes E b). db h = None" "ConnectBlock E N V (e # map fst H) b db = Inr db'"
    using assms by (auto elim: connected_extendE)
  have eb: "entry_block E N (viewFiles V) e b" and VH: "H_stored E N (viewFiles V) H"
    using C assms(2) by (simp_all add: H_stored_Cons)
  have "DisconnectBlock E b db' = Inr db"
    by (rule ConnectBlock_disconnect [OF entry_block_stored [OF eb]
        located_index_ok [OF connected_located [OF C(1)] VH] entry_block_distinct [OF eb] C(3,4)])
  then show ?thesis using C by blast
qed

end
