(* ===== verification/Branches.thy ===== *)
theory Branches
  imports History "HOL-Library.Sublist"
begin

text \<open>
  Finding the fork, disconnecting one branch and connecting the other: from the index of one
  chain to the index of another, without a trace of the first.
\<close>

section \<open>The fork\<close>

lemma drop_above_suffix: "drop_above h c = Some c' \<Longrightarrow> suffix c' c \<and> c' \<noteq> []"
  by (induction h c rule: drop_above.induct) (auto split: if_split_asm simp: suffix_Cons)

lemma find_fork_suffix: "find_fork a b = Some f \<Longrightarrow> suffix f a \<and> suffix f b \<and> (a \<noteq> [] \<longrightarrow> f \<noteq> [])"
proof (induction a b rule: find_fork.induct)
  case (2 e a b)
  show ?case
  proof (cases "e # a = b")
    case False
    then have ne: "a \<noteq> []" and step: "(case drop_above (nHeight (hd a)) b of None \<Rightarrow> None | Some b' \<Rightarrow> find_fork a b') = Some f"
      using 2(2) by (auto split: if_split_asm)
    then obtain b' where b': "drop_above (nHeight (hd a)) b = Some b'" "find_fork a b' = Some f"
      by (auto split: option.split_asm)
    then have "suffix f a \<and> suffix f b' \<and> (a \<noteq> [] \<longrightarrow> f \<noteq> [])" using 2(1) [OF False ne] by blast
    then show ?thesis
      using drop_above_suffix [OF b'(1)] ne suffix_order.trans by (auto simp: suffix_Cons)
  qed (use 2 in auto)
qed (auto split: if_split_asm)

section \<open>Heights\<close>

primrec heights :: "chain \<Rightarrow> bool" where
  "heights [] = True"
| "heights (e # c) = (nHeight e = int (length c) \<and> heights c)"

lemma heights_append: "heights (d @ c) \<Longrightarrow> heights c"
  by (induction d) auto

text \<open>Two chains on the same genesis block have a fork, and the loops find one.\<close>

lemma drop_above_heights:
  "heights b \<Longrightarrow> 0 < k \<Longrightarrow> k \<le> length b \<Longrightarrow> drop_above (int k - 1) b = Some (drop (length b - k) b)"
  by (induction b) (auto simp: le_Suc_eq Suc_diff_le)

lemma find_fork_level:
  "heights a \<Longrightarrow> heights b \<Longrightarrow> length a = length b \<Longrightarrow> a \<noteq> [] \<Longrightarrow> last a = last b \<Longrightarrow>
    find_fork a b \<noteq> None"
proof (induction a arbitrary: b)
  case (Cons e a)
  obtain e' b' where b: "b = e' # b'" using Cons(4) by (cases b) auto
  show ?case
  proof (cases "a = []")
    case True
    then show ?thesis using Cons b by auto
  next
    case False
    then have "nHeight (hd a) = int (length a) - 1" using Cons(2) by (cases a) auto
    then have "drop_above (nHeight (hd a)) b = Some b'"
      using drop_above_heights [of b "length a"] False Cons(3,4) b by simp
    moreover have "find_fork a b' \<noteq> None"
      using Cons(1) [of b'] Cons(2-6) False b by (cases b') auto
    ultimately show ?thesis using False by simp
  qed
qed simp

lemma find_fork_exists:
  assumes "heights a" "heights b" "a \<noteq> []" "last a = last b" "length a < length b" "\<not> suffix a b"
  shows "find_fork a b \<noteq> None"
proof -
  obtain e a' where a: "a = e # a'" using assms(3) by (cases a) auto
  have b: "b \<noteq> []" "a \<noteq> b" using assms by auto
  have ne: "a' \<noteq> []"
  proof
    assume "a' = []"
    then have "suffix a b" using assms(4) a b by (metis append_butlast_last_id last.simps suffixI)
    then show False using assms(6) by simp
  qed
  then have "nHeight (hd a') = int (length a') - 1" using assms(1) a by (cases a') auto
  then have d: "drop_above (nHeight (hd a')) b = Some (drop (length b - length a') b)"
    using drop_above_heights [OF assms(2), of "length a'"] ne assms(5) a by simp
  have "heights (drop (length b - length a') b)"
    using heights_append [of "take (length b - length a') b"] assms(2) by simp
  moreover have "last (drop (length b - length a') b) = last b"
    using assms(5) a ne by (intro last_drop) (cases a', simp_all)
  ultimately have "find_fork a' (drop (length b - length a') b) \<noteq> None"
    using assms a ne by (intro find_fork_level) auto
  then show ?thesis using ne b(2) d by (simp add: a)
qed

section \<open>Branches\<close>

lemma branch_to_same [simp]: "branch_to c c = []"
  by (cases c) auto

lemma branch_to_Cons: "branch_to c (e # d @ c) = (e # d @ c) # branch_to c (d @ c)"
  by (simp add: append_eq_conv_conj)

lemma branch_to_in:
  "x \<in> set (branch_to c (d @ c)) \<longleftrightarrow> (\<exists>d1 d2. d = d1 @ d2 \<and> d2 \<noteq> [] \<and> x = d2 @ c)"
proof (induction d)
  case (Cons e d)
  have "x \<in> set (branch_to c ((e # d) @ c)) \<longleftrightarrow> x = (e # d) @ c \<or> (\<exists>d1 d2. d = d1 @ d2 \<and> d2 \<noteq> [] \<and> x = d2 @ c)"
    by (simp add: branch_to_Cons Cons)
  then show ?case by (auto simp: Cons_eq_append_conv)
qed simp

lemma branch_heads: "map hd (branch_to c (d @ c)) = d"
  by (induction d) (simp_all add: branch_to_Cons)

lemma hd_branch: "d \<noteq> [] \<Longrightarrow> hd (branch_to c (d @ c)) = d @ c \<and> branch_to c (d @ c) \<noteq> []"
  by (cases d) (simp_all add: branch_to_Cons)

lemma connect_branch_append:
  "connect_branch E N V (xs @ ys) db del = Inr r \<longleftrightarrow>
    (\<exists>db1 del1. connect_branch E N V xs db del = Inr (db1, del1) \<and>
      connect_branch E N V ys db1 del1 = Inr r)"
  by (induction xs arbitrary: db del) (auto split: sum.split)

lemma connect_branch_doomed:
  "connect_branch E N V cs db del = Inl (e, doomed) \<Longrightarrow> suffix doomed cs"
  by (induction cs arbitrary: db del) (auto split: sum.split_asm simp: suffix_Cons)

lemma connect_branch_error:
  "connect_branch E N V cs db del = Inl (e, doomed) \<Longrightarrow>
    \<forall>c \<in> set cs. \<exists>b. entry_block E N' (viewFiles V) (hd c) b \<Longrightarrow> doomed \<noteq> []"
proof (induction cs arbitrary: db del)
  case (Cons c cs)
  obtain b where "ReadFromDisk E (viewFiles V) (nFile (hd c)) (nBlockPos (hd c)) = Inr b"
    using Cons(3) entry_block_read by (metis list.set_intros(1))
  then show ?case using Cons by (auto split: sum.split_asm)
qed simp

text \<open>No two transactions of a history have the same hash.\<close>

definition no_repeat :: "ext \<Rightarrow> history \<Rightarrow> bool" where
  "no_repeat E H \<longleftrightarrow> distinct (concat (map (tx_hashes E \<circ> snd) (butlast H)))"

lemma no_repeat_Cons:
  "H \<noteq> [] \<Longrightarrow> no_repeat E ((e, b) # H) \<longleftrightarrow>
    distinct (tx_hashes E b) \<and> no_repeat E H \<and>
    (\<forall>(e', b') \<in> set (butlast H). set (tx_hashes E b) \<inter> set (tx_hashes E b') = {})"
  unfolding no_repeat_def by (simp add: case_prod_unfold disjoint_iff) blast

lemma no_repeat_fresh:
  assumes "connected E N H db" "no_repeat E ((e, b) # H)"
  shows "\<forall>h \<in> set (tx_hashes E b). db h = None"
proof (rule ballI, rule ccontr)
  fix h assume h: "h \<in> set (tx_hashes E b)" "db h \<noteq> None"
  then obtain en where "db h = Some en" by blast
  then obtain x where "x \<in> set (butlast H)" "h \<in> set (tx_hashes E (snd x))"
    using located_hashes [OF connected_located [OF assms(1)]] by fastforce
  then show False
    using assms(2) h(1) by (fastforce simp: no_repeat_Cons [OF connected_ne [OF assms(1)]])
qed

lemma disconnect_branch_connected:
  "connected E N (D @ H) db \<Longrightarrow> H \<noteq> [] \<Longrightarrow> H_stored E N files (D @ H) \<Longrightarrow>
    \<exists>db0 r. connected E N H db0 \<and>
      disconnect_branch E files (branch_to (map fst H) (map fst (D @ H))) db txs = Inr (db0, r)"
proof (induction D arbitrary: db txs)
  case (Cons x D)
  obtain e b where x: "x = (e, b)" by force
  have ne: "D @ H \<noteq> []" using Cons(3) by simp
  obtain db1 where db1: "connected E N (D @ H) db1" "DisconnectBlock E b db = Inr db1"
    using connected_disconnect [of E N e b "D @ H" db] ne Cons(2) by (auto simp: x)
  have stored: "entry_block E N files e b" "H_stored E N files (D @ H)"
    using Cons(4) ne by (simp_all add: x H_stored_Cons)
  show ?case
    using Cons(1) [OF db1(1) Cons(3) stored(2), of "txs @ filter (\<lambda>tx. \<not> IsCoinBase tx) (vtx b)"]
    by (simp add: x branch_to_Cons entry_block_read [OF stored(1)] db1(2) flip: map_append)
qed auto

lemma connect_branch_connected:
  "connected E N H db0 \<Longrightarrow> H_stored E N (viewFiles V) (D @ H) \<Longrightarrow> heights (map fst (D @ H)) \<Longrightarrow>
    no_repeat E (D @ H) \<Longrightarrow>
    connect_branch E N V (rev (branch_to (map fst H) (map fst (D @ H)))) db0 [] = Inr (db', txs) \<Longrightarrow>
    connected E N (D @ H) db'"
proof (induction D arbitrary: db' txs)
  case (Cons x D)
  obtain e b where x: "x = (e, b)" by force
  have ne: "D @ H \<noteq> []" using connected_ne [OF Cons(2)] by simp
  have stored: "entry_block E N (viewFiles V) e b" "H_stored E N (viewFiles V) (D @ H)"
    using Cons(3) ne by (simp_all add: x H_stored_Cons)
  obtain db1 txs1 where C: "connect_branch E N V (rev (branch_to (map fst H) (map fst (D @ H)))) db0 [] = Inr (db1, txs1)"
    "connect_branch E N V [e # map fst (D @ H)] db1 txs1 = Inr (db', txs)"
    using Cons(6) by (auto simp: x branch_to_Cons connect_branch_append simp flip: map_append)
  have "no_repeat E (D @ H)" using Cons(5) ne by (simp add: x no_repeat_Cons)
  then have conn: "connected E N (D @ H) db1" using Cons(1) [OF Cons(2) stored(2) _ _ C(1)] Cons(4) by simp
  have "ConnectBlock E N V (e # map fst (D @ H)) b db1 = Inr db'"
    using C(2) by (auto simp: entry_block_read [OF stored(1)] split: sum.split_asm)
  moreover have "nHeight e = nHeight (fst (hd (D @ H))) + 1"
    using Cons(4) ne by (cases "D @ H") (auto simp: x simp flip: map_append)
  ultimately show ?case
    using connected.extend [OF conn _ _ no_repeat_fresh [OF conn]] Cons(3,5) by (simp add: x)
qed simp

section \<open>The pointers to the next block\<close>

fun chain_links :: "chain \<Rightarrow> uint256 \<rightharpoonup> uint256" where
  "chain_links (e # e' # c) = (chain_links (e' # c))(phashBlock e' \<mapsto> phashBlock e)"
| "chain_links _ = Map.empty"

lemma dom_chain_links: "dom (chain_links c) = phashBlock ` set (tl c)"
  by (induction c rule: chain_links.induct) (simp_all only: chain_links.simps dom_fun_upd dom_empty list.sel list.set image_insert image_empty
      option.distinct if_False)

lemma link_chain: "c \<noteq> [] \<Longrightarrow> link (e # c) (chain_links c) = chain_links (e # c)"
  by (cases c) (simp_all add: link_def)

lemma unlink_chain:
  assumes "c \<noteq> []" "phashBlock (hd c) \<notin> phashBlock ` set (tl c)"
  shows "unlink (e # c) (chain_links (e # c)) = chain_links c"
proof -
  obtain e' c' where c: "c = e' # c'" using assms(1) by (cases c) auto
  then have "chain_links c (phashBlock e') = None"
    using assms(2) dom_chain_links [of c] by auto
  then show ?thesis by (auto simp: c unlink_def)
qed

lemma fold_link:
  "c \<noteq> [] \<Longrightarrow> fold link (rev (branch_to c (d @ c))) (chain_links c) = chain_links (d @ c)"
proof (induction d)
  case (Cons e d)
  then show ?case by (simp add: branch_to_Cons link_chain)
qed simp

lemma fold_unlink:
  "c \<noteq> [] \<Longrightarrow> distinct (map phashBlock (d @ c)) \<Longrightarrow>
    fold unlink (branch_to c (d @ c)) (chain_links (d @ c)) = chain_links c"
proof (induction d)
  case (Cons e d)
  obtain e' c' where "d @ c = e' # c'" using Cons(2) by (cases "d @ c") auto
  then have "unlink (e # d @ c) (chain_links (e # d @ c)) = chain_links (d @ c)"
    using Cons(3) by (intro unlink_chain) auto
  then show ?case using Cons by (simp add: branch_to_Cons)
qed simp

end
