(* ===== verification/NodeInv.thy ===== *)
theory NodeInv
  imports Branches
begin

text \<open>
  What holds of a node at all times: its block index is a tree of checked blocks that lie
  beside one another in the block files, the best chain is one of its branches and no shorter
  than the others, the pointers to the next block run along it, and the transaction index is
  exactly what connecting it leaves.  Accepting a block keeps this, on every path: a new side
  branch, a longer best chain, a reorganization, a block that does not connect.
\<close>

section \<open>The block index\<close>

type_synonym index = "uint256 \<Rightarrow> chain option"

text \<open>Every entry is under its hash; no pointer to a parent dangles.\<close>

definition keyed :: "index \<Rightarrow> bool" where
  "keyed idx \<longleftrightarrow> (\<forall>h c. idx h = Some c \<longrightarrow> c \<noteq> [] \<and> phashBlock (hd c) = h \<and> heights c)"

definition no_dangling :: "index \<Rightarrow> bool" where
  "no_dangling idx \<longleftrightarrow>
    (\<forall>h c. idx h = Some c \<longrightarrow> tl c \<noteq> [] \<longrightarrow> idx (phashBlock (hd (tl c))) = Some (tl c))"

definition stored_index :: "ext \<Rightarrow> net_params \<Rightarrow> block_files \<Rightarrow> index \<Rightarrow> bool" where
  "stored_index E N files idx \<longleftrightarrow>
    (\<forall>h c. idx h = Some c \<longrightarrow> tl c \<noteq> [] \<longrightarrow> (\<exists>b. entry_block E N files (hd c) b))"

definition beside :: "ext \<Rightarrow> net_params \<Rightarrow> block_files \<Rightarrow> CBlockIndex \<Rightarrow> CBlockIndex \<Rightarrow> bool" where
  "beside E N files e e' \<longleftrightarrow>
    (\<forall>b b'. entry_block E N files e b \<longrightarrow> entry_block E N files e' b' \<longrightarrow> nFile e = nFile e' \<longrightarrow>
      unat (nBlockPos e) + GetSerializeSize_CBlock b \<le> unat (nBlockPos e') \<or>
      unat (nBlockPos e') + GetSerializeSize_CBlock b' \<le> unat (nBlockPos e))"

definition apart_index :: "ext \<Rightarrow> net_params \<Rightarrow> block_files \<Rightarrow> index \<Rightarrow> bool" where
  "apart_index E N files idx \<longleftrightarrow>
    (\<forall>h c h' c'. idx h = Some c \<longrightarrow> idx h' = Some c' \<longrightarrow> h \<noteq> h' \<longrightarrow> tl c \<noteq> [] \<longrightarrow> tl c' \<noteq> [] \<longrightarrow>
      beside E N files (hd c) (hd c'))"

definition part_good :: "ext \<Rightarrow> net_params \<Rightarrow> block_files \<Rightarrow> index \<Rightarrow> bool" where
  "part_good E N files idx \<longleftrightarrow> keyed idx \<and> stored_index E N files idx \<and> apart_index E N files idx"

definition index_good :: "ext \<Rightarrow> net_params \<Rightarrow> block_files \<Rightarrow> index \<Rightarrow> bool" where
  "index_good E N files idx \<longleftrightarrow> part_good E N files idx \<and> no_dangling idx"

lemma keyedD: "keyed idx \<Longrightarrow> idx h = Some c \<Longrightarrow> c \<noteq> [] \<and> phashBlock (hd c) = h \<and> heights c"
  by (simp add: keyed_def)

lemma index_suffix:
  "no_dangling idx \<Longrightarrow> keyed idx \<Longrightarrow> idx h = Some (d @ c) \<Longrightarrow> c \<noteq> [] \<Longrightarrow> idx (phashBlock (hd c)) = Some c"
proof (induction d arbitrary: h)
  case Nil
  then show ?case using keyedD by fastforce
next
  case (Cons e d)
  then have "idx (phashBlock (hd (d @ c))) = Some (d @ c)"
    using Cons(2,4) by (force simp: no_dangling_def)
  then show ?case using Cons by blast
qed

lemma index_distinct:
  assumes "no_dangling idx" "keyed idx" "idx h = Some c"
  shows "distinct (map phashBlock c)"
  using assms(3)
proof (induction c arbitrary: h)
  case (Cons e c)
  have "phashBlock e \<noteq> phashBlock e'" if "e' \<in> set c" for e'
  proof
    assume eq: "phashBlock e = phashBlock e'"
    obtain d c' where c: "c = d @ e' # c'" using \<open>e' \<in> set c\<close> by (meson split_list)
    have "idx (phashBlock e') = Some (e' # c')"
      using index_suffix [OF assms(1,2), of h "e # d" "e' # c'"] Cons(2) by (simp add: c)
    moreover have "idx (phashBlock e) = Some (e # c)" using keyedD [OF assms(2) Cons(2)] Cons(2) by simp
    ultimately have "length (e' # c') = length (e # c)" using eq by simp
    then show False by (simp add: c)
  qed
  moreover have "distinct (map phashBlock c)"
  proof (cases "c = []")
    case False
    then show ?thesis using Cons assms(1) by (force simp: no_dangling_def)
  qed simp
  ultimately show ?case by auto
qed simp

text \<open>A chain of the index has a history on disk.\<close>

lemma history_of:
  assumes "index_good E N files idx" "idx h = Some c"
  shows "\<exists>H. map fst H = c \<and> H_stored E N files H"
  using assms(2)
proof (induction c arbitrary: h)
  case Nil
  then show ?case using assms(1) by (auto simp: index_good_def part_good_def keyed_def)
next
  case (Cons e c)
  show ?case
  proof (cases "c = []")
    case True
    then show ?thesis by (intro exI [of _ "[(e, CBlock_SetNull)]"]) (simp add: H_stored_def)
  next
    case False
    then obtain b where b: "entry_block E N files e b"
      using assms(1) Cons(2) by (force simp: index_good_def part_good_def stored_index_def)
    have "idx (phashBlock (hd c)) = Some c"
      using assms(1) Cons(2) False by (force simp: index_good_def no_dangling_def)
    then obtain H where H: "map fst H = c" "H_stored E N files H" using Cons(1) by blast
    then have "H \<noteq> []" using False by auto
    then show ?thesis using H b by (intro exI [of _ "(e, b) # H"]) (simp add: H_stored_Cons)
  qed
qed

lemma H_unique:
  "H_stored E N files H \<Longrightarrow> H_stored E N files H' \<Longrightarrow> map fst H = map fst H' \<Longrightarrow> butlast H = butlast H'"
proof (induction H arbitrary: H')
  case (Cons x H)
  obtain e b where x: "x = (e, b)" by force
  obtain b' H1 where H': "H' = (e, b') # H1" "map fst H = map fst H1" using Cons(4) x by (cases H') auto
  show ?case
  proof (cases "H = []")
    case False
    then have ne: "H1 \<noteq> []" using H'(2) by auto
    have s: "entry_block E N files e b" "H_stored E N files H" using Cons(2) False by (simp_all add: x H_stored_Cons)
    have s': "entry_block E N files e b'" "H_stored E N files H1"
      using Cons(3) ne by (simp_all add: H'(1) H_stored_Cons)
    have "butlast H = butlast H1" by (rule Cons(1) [OF s(2) s'(2) H'(2)])
    then show ?thesis using False ne x H'(1) entry_block_unique [OF s(1) s'(1)] by simp
  qed (use H' in simp)
qed simp

lemma H_entry:
  assumes "(e, b) \<in> set (butlast H)" "map fst H = c"
  shows "\<exists>d c'. c = d @ e # c' \<and> c' \<noteq> []"
proof -
  obtain D D' where H: "butlast H = D @ (e, b) # D'" using assms(1) by (meson split_list)
  then have ne: "H \<noteq> []" by auto
  have "H = (D @ (e, b) # D') @ [last H]" unfolding H [symmetric] by (simp add: ne)
  then have "map fst H = map fst ((D @ (e, b) # D') @ [last H])" by (rule arg_cong)
  then have "c = map fst D @ e # (map fst D' @ [fst (last H)])" using assms(2) by simp
  then show ?thesis by blast
qed

lemma H_stored_cong:
  assumes "H_stored E N files H" "map fst H = c" "idx h = Some c" "no_dangling idx" "keyed idx"
    and "\<And>h c b. idx h = Some c \<Longrightarrow> tl c \<noteq> [] \<Longrightarrow> entry_block E N files (hd c) b \<Longrightarrow>
      entry_block E N files' (hd c) b"
  shows "H_stored E N files' H"
  unfolding H_stored_def
proof (intro ballI, clarify)
  fix e b assume x: "(e, b) \<in> set (butlast H)"
  obtain d c' where c: "c = d @ e # c'" "c' \<noteq> []" using H_entry [OF x assms(2)] by blast
  have "idx h = Some (d @ e # c')" using assms(3) c(1) by simp
  then have "idx (phashBlock (hd (e # c'))) = Some (e # c')"
    by (rule index_suffix [OF assms(4,5)]) simp
  moreover have "entry_block E N files (hd (e # c')) b"
    using H_storedD [OF assms(1) x] by simp
  ultimately have "entry_block E N files' (hd (e # c')) b"
    using c(2) assms(6) [of _ "e # c'"] by simp
  then show "entry_block E N files' e b" by simp
qed

section \<open>A new entry\<close>

lemma index_good_add:
  assumes good: "index_good E N files idx" and parent: "idx (phashBlock (hd c)) = Some c" "c \<noteq> []"
    and new: "idx (phashBlock e) = None" "nHeight e = nHeight (hd c) + 1"
    and block: "entry_block E N files' e b"
    and keeps: "\<And>e' b'. entry_block E N files e' b' \<Longrightarrow> entry_block E N files' e' b'"
    and after: "\<And>e' b'. entry_block E N files e' b' \<Longrightarrow> nFile e' = nFile e \<Longrightarrow>
      unat (nBlockPos e') + GetSerializeSize_CBlock b' \<le> unat (nBlockPos e)"
  shows "index_good E N files' (idx(phashBlock e \<mapsto> e # c))"
proof -
  let ?idx = "idx(phashBlock e \<mapsto> e # c)"
  have G: "keyed idx" "stored_index E N files idx" "apart_index E N files idx" "no_dangling idx"
    using good by (simp_all add: index_good_def part_good_def)
  have old: "entry_block E N files (hd x) b'"
    if x: "idx h = Some x" "tl x \<noteq> []" "entry_block E N files' (hd x) b'" for h x b'
  proof -
    obtain b0 where b0: "entry_block E N files (hd x) b0"
      using G(2) x(1,2) unfolding stored_index_def by blast
    then show ?thesis using entry_block_unique [OF keeps [OF b0] x(3)] by simp
  qed
  have "heights c" using keyedD [OF G(1) parent(1)] by simp
  then have "nHeight e = int (length c)" using new(2) parent(2) by (cases c) auto
  then have "keyed ?idx" using G(1) \<open>heights c\<close> by (auto simp: keyed_def)
  moreover have "stored_index E N files' ?idx"
    unfolding stored_index_def
  proof (intro allI impI)
    fix h x assume x: "?idx h = Some x" "tl x \<noteq> []"
    show "\<exists>b. entry_block E N files' (hd x) b"
    proof (cases "h = phashBlock e")
      case True
      then have "hd x = e" using x(1) by auto
      then show ?thesis using block by blast
    next
      case False
      then have "idx h = Some x" using x(1) by simp
      then show ?thesis using G(2) x(2) keeps unfolding stored_index_def by blast
    qed
  qed
  moreover have "apart_index E N files' ?idx"
    unfolding apart_index_def
  proof (intro allI impI)
    fix h x h' x'
    assume xs: "?idx h = Some x" "?idx h' = Some x'" "h \<noteq> h'" "tl x \<noteq> []" "tl x' \<noteq> []"
    consider "h = phashBlock e" "x = e # c" "idx h' = Some x'" | "h' = phashBlock e" "x' = e # c" "idx h = Some x"
      | "idx h = Some x" "idx h' = Some x'"
      using xs(1-3) by (cases "h = phashBlock e"; cases "h' = phashBlock e") auto
    then show "beside E N files' (hd x) (hd x')"
    proof cases
      case 1
      have "unat (nBlockPos (hd x')) + GetSerializeSize_CBlock b2 \<le> unat (nBlockPos e)"
        if "entry_block E N files' (hd x') b2" "nFile (hd x') = nFile e" for b2
        by (rule after [OF old [OF 1(3) xs(5) that(1)] that(2)])
      then show ?thesis unfolding beside_def 1(2) by simp
    next
      case 2
      have "unat (nBlockPos (hd x)) + GetSerializeSize_CBlock b2 \<le> unat (nBlockPos e)"
        if "entry_block E N files' (hd x) b2" "nFile (hd x) = nFile e" for b2
        by (rule after [OF old [OF 2(3) xs(4) that(1)] that(2)])
      then show ?thesis unfolding beside_def 2(2) by simp
    next
      case 3
      have "beside E N files (hd x) (hd x')"
        by (rule G(3) [unfolded apart_index_def, rule_format, OF 3 xs(3-5)])
      then show ?thesis
        using old [OF 3(1) xs(4)] old [OF 3(2) xs(5)] by (simp add: beside_def)
    qed
  qed
  moreover have "no_dangling ?idx"
    unfolding no_dangling_def
  proof (intro allI impI)
    fix h x assume x: "?idx h = Some x" "tl x \<noteq> []"
    have "idx (phashBlock (hd (tl x))) = Some (tl x)"
    proof (cases "h = phashBlock e")
      case True
      then have "tl x = c" using x(1) by auto
      then show ?thesis using parent(1) by simp
    next
      case False
      then show ?thesis using G(4) x unfolding no_dangling_def by simp
    qed
    moreover from this have "phashBlock (hd (tl x)) \<noteq> phashBlock e" using new(1) by auto
    ultimately show "?idx (phashBlock (hd (tl x))) = Some (tl x)" by simp
  qed
  ultimately show ?thesis by (simp add: index_good_def part_good_def)
qed

section \<open>Deleted entries\<close>

lemma delete_entry_good:
  assumes good: "part_good E N (nd_files nd) (fmlookup (mapBlockIndex nd))"
    and x: "fmlookup (mapBlockIndex nd) (phashBlock (hd x)) = Some x" "tl x \<noteq> []"
  shows "part_good E N (nd_files (delete_entry x nd)) (fmlookup (mapBlockIndex (delete_entry x nd)))"
    and "fmlookup (mapBlockIndex (delete_entry x nd)) h = Some c \<Longrightarrow> tl c \<noteq> [] \<Longrightarrow>
      entry_block E N (nd_files nd) (hd c) b \<Longrightarrow> entry_block E N (nd_files (delete_entry x nd)) (hd c) b"
proof -
  let ?idx = "fmlookup (mapBlockIndex nd)"
  define idx' where "idx' = fmlookup (mapBlockIndex (delete_entry x nd))"
  define files' where "files' = nd_files (delete_entry x nd)"
  have G: "keyed ?idx" "stored_index E N (nd_files nd) ?idx" "apart_index E N (nd_files nd) ?idx"
    using good by (simp_all add: part_good_def)
  have idx': "idx' h = (if h = phashBlock (hd x) then None else ?idx h)" for h
    by (simp add: idx'_def delete_entry_def)
  obtain old where old: "entry_block E N (nd_files nd) (hd x) old"
    using G(2) x unfolding stored_index_def by blast
  have keep: "entry_block E N files' (hd c) b"
    if "idx' h = Some c" "tl c \<noteq> []" "entry_block E N (nd_files nd) (hd c) b" for h c b
  proof -
    have "?idx h = Some c" "h \<noteq> phashBlock (hd x)" using that(1) idx' by (auto split: if_split_asm)
    then have "beside E N (nd_files nd) (hd c) (hd x)"
      using G(3) that(2) x unfolding apart_index_def by blast
    then have "nFile (hd x) = nFile (hd c) \<Longrightarrow>
        unat (nBlockPos (hd c)) + GetSerializeSize_CBlock b \<le> unat (nBlockPos (hd x)) \<or>
        unat (nBlockPos (hd x)) + GetSerializeSize_CBlock old \<le> unat (nBlockPos (hd c))"
      using that(3) old unfolding beside_def by metis
    moreover have "on_disk (nd_files nd) (nFile (hd c)) (nBlockPos (hd c)) b"
      "on_disk (nd_files nd) (nFile (hd x)) (nBlockPos (hd x)) old"
      using that(3) old by (simp_all add: entry_block_def)
    ultimately have "on_disk files' (nFile (hd c)) (nBlockPos (hd c)) b"
      unfolding files'_def delete_entry_def by (simp add: EraseBlockFromDisk_keeps)
    then show ?thesis using that(3) by (simp add: entry_block_def)
  qed
  then show "fmlookup (mapBlockIndex (delete_entry x nd)) h = Some c \<Longrightarrow> tl c \<noteq> [] \<Longrightarrow>
      entry_block E N (nd_files nd) (hd c) b \<Longrightarrow> entry_block E N (nd_files (delete_entry x nd)) (hd c) b"
    by (simp add: idx'_def files'_def)
  have sub: "?idx h = Some c" if "idx' h = Some c" for h c using that idx' by (auto split: if_split_asm)
  have before: "entry_block E N (nd_files nd) (hd c) b"
    if c: "idx' h = Some c" "tl c \<noteq> []" "entry_block E N files' (hd c) b" for h c b
  proof -
    obtain b0 where b0: "entry_block E N (nd_files nd) (hd c) b0"
      using G(2) sub [OF c(1)] c(2) unfolding stored_index_def by blast
    then show ?thesis using entry_block_unique [OF keep [OF c(1,2) b0] c(3)] by simp
  qed
  have "keyed idx'" using G(1) sub unfolding keyed_def by blast
  moreover have "stored_index E N files' idx'"
    using G(2) sub keep unfolding stored_index_def by blast
  moreover have "apart_index E N files' idx'"
    using G(3) sub before unfolding apart_index_def beside_def by blast
  ultimately show "part_good E N (nd_files (delete_entry x nd)) (fmlookup (mapBlockIndex (delete_entry x nd)))"
    by (simp add: part_good_def idx'_def files'_def)
qed

lemma delete_entry_lookup:
  "fmlookup (mapBlockIndex (fold delete_entry xs nd)) h =
    (if h \<in> phashBlock ` hd ` set xs then None else fmlookup (mapBlockIndex nd) h)"
  by (induction xs arbitrary: nd) (auto simp: delete_entry_def)

lemma fold_delete_entry_same:
  "pindexBest (fold delete_entry xs nd) = pindexBest nd" "pnext (fold delete_entry xs nd) = pnext nd"
  "nd_txdb (fold delete_entry xs nd) = nd_txdb nd" "hashBestChain (fold delete_entry xs nd) = hashBestChain nd"
  "nBestHeight (fold delete_entry xs nd) = nBestHeight nd"
  "pindexGenesisBlock (fold delete_entry xs nd) = pindexGenesisBlock nd"
  by (induction xs arbitrary: nd) (simp_all add: delete_entry_def)

lemma delete_entries_good:
  "part_good E N (nd_files nd) (fmlookup (mapBlockIndex nd)) \<Longrightarrow> distinct (map (phashBlock \<circ> hd) xs) \<Longrightarrow>
    \<forall>x \<in> set xs. fmlookup (mapBlockIndex nd) (phashBlock (hd x)) = Some x \<and> tl x \<noteq> [] \<Longrightarrow>
    part_good E N (nd_files (fold delete_entry xs nd)) (fmlookup (mapBlockIndex (fold delete_entry xs nd))) \<and>
    (\<forall>h c b. fmlookup (mapBlockIndex (fold delete_entry xs nd)) h = Some c \<longrightarrow> tl c \<noteq> [] \<longrightarrow>
      entry_block E N (nd_files nd) (hd c) b \<longrightarrow>
      entry_block E N (nd_files (fold delete_entry xs nd)) (hd c) b)"
proof (induction xs arbitrary: nd)
  case (Cons x xs)
  define nd1 where "nd1 = delete_entry x nd"
  have x: "fmlookup (mapBlockIndex nd) (phashBlock (hd x)) = Some x" "tl x \<noteq> []" using Cons(4) by simp_all
  note one = delete_entry_good [OF Cons(2) x, folded nd1_def]
  have "\<forall>y \<in> set xs. fmlookup (mapBlockIndex nd1) (phashBlock (hd y)) = Some y \<and> tl y \<noteq> []"
    using Cons(3,4) by (auto simp: nd1_def delete_entry_def image_iff)
  then have IH: "part_good E N (nd_files (fold delete_entry xs nd1)) (fmlookup (mapBlockIndex (fold delete_entry xs nd1))) \<and>
    (\<forall>h c b. fmlookup (mapBlockIndex (fold delete_entry xs nd1)) h = Some c \<longrightarrow> tl c \<noteq> [] \<longrightarrow>
      entry_block E N (nd_files nd1) (hd c) b \<longrightarrow>
      entry_block E N (nd_files (fold delete_entry xs nd1)) (hd c) b)"
    using Cons(1) [OF one(1)] Cons(3) by simp
  moreover have "fmlookup (mapBlockIndex nd1) h = Some c"
    if "fmlookup (mapBlockIndex (fold delete_entry xs nd1)) h = Some c" for h c
    using that by (simp add: delete_entry_lookup split: if_split_asm)
  ultimately show ?case using one(2) unfolding fold_Cons o_apply nd1_def [symmetric] by blast
qed simp

section \<open>The invariant\<close>

abbreviation idx_of :: "node \<Rightarrow> index" where "idx_of nd \<equiv> fmlookup (mapBlockIndex nd)"

text \<open>
  The genesis block is there; the best chain is in the index, and no chain of the index is
  longer; all of them start from the same block.
\<close>

definition best_in_index :: "node \<Rightarrow> bool" where
  "best_in_index nd \<longleftrightarrow>
    pindexGenesisBlock nd \<noteq> [] \<and> idx_of nd (hashBestChain nd) = Some (pindexBest nd) \<and>
    nBestHeight nd = nHeight (hd (pindexBest nd)) \<and>
    (\<forall>h c. idx_of nd h = Some c \<longrightarrow> length c \<le> length (pindexBest nd) \<and> last c = last (pindexBest nd))"

text \<open>The transaction index, and the pointers to the next block, are those of the best chain.\<close>

definition best_connected :: "ext \<Rightarrow> net_params \<Rightarrow> node \<Rightarrow> bool" where
  "best_connected E N nd \<longleftrightarrow>
    (\<exists>H. map fst H = pindexBest nd \<and> H_stored E N (nd_files nd) H \<and> connected E N H (nd_txdb nd)) \<and>
    pnext nd = chain_links (pindexBest nd)"

definition node_ok :: "ext \<Rightarrow> net_params \<Rightarrow> node \<Rightarrow> bool" where
  "node_ok E N nd \<longleftrightarrow>
    index_good E N (nd_files nd) (idx_of nd) \<and> best_in_index nd \<and> best_connected E N nd"

lemma node_okD:
  assumes "node_ok E N nd"
  shows "index_good E N (nd_files nd) (idx_of nd)" "part_good E N (nd_files nd) (idx_of nd)"
    "keyed (idx_of nd)" "no_dangling (idx_of nd)" "best_in_index nd" "best_connected E N nd"
  using assms by (simp_all add: node_ok_def index_good_def part_good_def)

lemma best_ne: "node_ok E N nd \<Longrightarrow> pindexBest nd \<noteq> [] \<and> phashBlock (hd (pindexBest nd)) = hashBestChain nd"
  using node_okD(3,5) [of E N nd] keyedD by (fastforce simp: best_in_index_def)

lemma in_index:
  assumes "node_ok E N nd" "idx_of nd h = Some c"
  shows "c \<noteq> []" "phashBlock (hd c) = h" "heights c" "length c \<le> length (pindexBest nd)"
    "last c = last (pindexBest nd)"
  using assms keyedD [OF node_okD(3) [OF assms(1)] assms(2)] node_okD(5) [OF assms(1)]
  by (auto simp: best_in_index_def)

lemma hd_height: "heights c \<Longrightarrow> c \<noteq> [] \<Longrightarrow> nHeight (hd c) = int (length c) - 1"
  by (cases c) auto

text \<open>A history of one chain, with the tail of another below the fork.\<close>

lemma graft:
  assumes "map fst H = f" "H_stored E N files H" "map fst H2 = d @ f" "H_stored E N files H2" "f \<noteq> []"
  shows "\<exists>D. map fst D = d \<and> H_stored E N files (D @ H)"
proof -
  define D where "D = take (length d) H2"
  have len: "length d < length H2" using assms(3,5) by (metis length_append length_greater_0_conv length_map less_add_same_cancel1)
  have "map fst D = d" using assms(3) by (simp add: D_def flip: take_map)
  moreover have "set D \<subseteq> set (butlast H2)"
    using len by (metis D_def set_take_subset take_butlast)
  moreover have "butlast (D @ H) = D @ butlast H" using assms(1,5) by (auto simp: butlast_append)
  ultimately show ?thesis
    using assms(2,4) by (intro exI [of _ D]) (auto simp: H_stored_def)
qed

section \<open>Reorganizing\<close>

lemma branch_inside:
  assumes good: "index_good E N files idx" and new: "idx h = Some (d @ f)" and f: "f \<noteq> []"
    and x: "x \<in> set (branch_to f (d @ f))"
  shows "idx (phashBlock (hd x)) = Some x \<and> tl x \<noteq> [] \<and> (\<exists>b. entry_block E N files (hd x) b) \<and>
    suffix x (d @ f)"
proof -
  have K: "keyed idx" "no_dangling idx" "stored_index E N files idx"
    using good by (simp_all add: index_good_def part_good_def)
  obtain d1 d2 where d: "d = d1 @ d2" "d2 \<noteq> []" "x = d2 @ f" using x unfolding branch_to_in by blast
  have "idx h = Some (d1 @ x)" using new d by simp
  then have i: "idx (phashBlock (hd x)) = Some x"
    by (rule index_suffix [OF K(2,1)]) (simp add: d(2,3))
  have t: "tl x \<noteq> []" using d(2,3) f by (cases d2) auto
  have "\<exists>b. entry_block E N files (hd x) b" using K(3) i t unfolding stored_index_def by blast
  then show ?thesis using i t d by (simp add: suffix_def)
qed

lemma branch_distinct:
  assumes "index_good E N files idx" "idx h = Some (d @ f)"
  shows "distinct (map (phashBlock \<circ> hd) (branch_to f (d @ f)))"
proof -
  have "distinct (map phashBlock (d @ f))"
    using index_distinct [of idx h "d @ f"] assms by (simp add: index_good_def part_good_def)
  then show ?thesis using branch_heads [of f d] by (simp flip: map_map)
qed

text \<open>The two ends of \<open>Reorganize\<close> once the fork is found and the old branch disconnected.\<close>

lemma Reorganize_cases:
  assumes "find_fork (pindexBest nd) pindexNew = Some f"
    and "disconnect_branch E (nd_files nd) (branch_to f (pindexBest nd)) (nd_txdb nd) [] = Inr (db0, vr)"
    and "Reorganize E N t pindexNew nd = (nd', r)"
  obtains (connected) db' vd M where
      "connect_branch E N (node_view t nd) (rev (branch_to f pindexNew)) db0 [] = Inr (db', vd)" "r = None"
      "nd' = nd\<lparr>nd_txdb := db',
        pnext := fold link (rev (branch_to f pindexNew)) (fold unlink (branch_to f (pindexBest nd)) (pnext nd)),
        nd_pool := M\<rparr>"
    | (failed) e doomed where
      "connect_branch E N (node_view t nd) (rev (branch_to f pindexNew)) db0 [] = Inl (e, doomed)"
      "r = Some e" "nd' = fold delete_entry doomed nd"
  using assms by (auto simp: Reorganize_def Let_def split: sum.split_asm prod.split_asm)

lemma disconnect_to_fork:
  assumes good: "index_good E N (nd_files nd) (idx_of nd)" and conn: "best_connected E N nd"
    and best: "pindexBest nd = dB @ f" and new: "idx_of nd h = Some (dN @ f)" and f: "f \<noteq> []"
  obtains D H db0 vr where "map fst H = f" "map fst D = dN" "H_stored E N (nd_files nd) (D @ H)"
    "connected E N H db0"
    "disconnect_branch E (nd_files nd) (branch_to f (pindexBest nd)) (nd_txdb nd) [] = Inr (db0, vr)"
proof -
  obtain H0 where H0: "map fst H0 = pindexBest nd" "H_stored E N (nd_files nd) H0" "connected E N H0 (nd_txdb nd)"
    using conn by (auto simp: best_connected_def)
  define H where "H = drop (length dB) H0"
  define DB where "DB = take (length dB) H0"
  have HD: "H0 = DB @ H" "map fst DB = dB" "map fst H = f"
    using H0(1) best by (simp_all add: DB_def H_def flip: take_map drop_map)
  have ne: "H \<noteq> []" using HD(3) f by auto
  have HS: "H_stored E N (nd_files nd) H"
    using H0(2) ne by (auto simp: HD(1) H_stored_def butlast_append)
  obtain db0 vr where dis: "connected E N H db0"
    "disconnect_branch E (nd_files nd) (branch_to (map fst H) (map fst (DB @ H))) (nd_txdb nd) [] = Inr (db0, vr)"
    using disconnect_branch_connected [of E N DB H "nd_txdb nd" "nd_files nd" "[]"] H0 ne HD(1) by auto
  obtain H2 where H2: "map fst H2 = dN @ f" "H_stored E N (nd_files nd) H2"
    using history_of [OF good new] by blast
  obtain D where "map fst D = dN" "H_stored E N (nd_files nd) (D @ H)"
    using graft [OF HD(3) HS H2 f] by blast
  then show ?thesis using that [OF HD(3) _ _ dis(1)] dis(2) HD best by simp
qed

lemma Reorganize_connected:
  assumes idx: "index_good E N (nd_files nd) (idx_of nd)" and conn: "best_connected E N nd"
    and best: "idx_of nd h = Some (dB @ f)" "pindexBest nd = dB @ f"
    and new: "heights (dN @ f)" and f: "f \<noteq> []"
    and H: "map fst H = f" "map fst D = dN" "H_stored E N (nd_files nd) (D @ H)" "connected E N H db0"
    and txs: "no_repeat E (D @ H)"
    and run: "connect_branch E N (node_view t nd) (rev (branch_to f (dN @ f))) db0 [] = Inr (db', vd)"
    and nd': "nd' = nd\<lparr>nd_txdb := db',
        pnext := fold link (rev (branch_to f (dN @ f))) (fold unlink (branch_to f (pindexBest nd)) (pnext nd)),
        nd_pool := M\<rparr>"
  shows "best_connected E N (nd'\<lparr>pindexBest := dN @ f\<rparr>)"
proof -
  have V: "viewFiles (node_view t nd) = nd_files nd" by (simp add: node_view_def)
  have "connected E N (D @ H) db'"
    by (rule connect_branch_connected [OF H(4), of "node_view t nd" D])
      (use H new run txs in \<open>simp_all add: V\<close>)
  moreover have "distinct (map phashBlock (dB @ f))"
    using index_distinct [of "idx_of nd" h "dB @ f"] idx best(1) by (simp add: index_good_def part_good_def)
  then have "fold unlink (branch_to f (pindexBest nd)) (pnext nd) = chain_links f"
    using fold_unlink [OF f, of dB] conn by (simp add: best_connected_def best(2))
  then have "pnext nd' = chain_links (dN @ f)" using fold_link [OF f, of dN] by (simp add: nd')
  moreover have "map fst (D @ H) = dN @ f" using H by simp
  ultimately show ?thesis using H(3) unfolding best_connected_def
    by (auto simp: nd' intro!: exI [of _ "D @ H"])
qed

lemma delete_keeps_best:
  assumes good: "index_good E N (nd_files nd) (idx_of nd)" and conn: "best_connected E N nd"
    and best: "idx_of nd (hashBestChain nd) = Some (pindexBest nd)"
    and doomed: "distinct (map (phashBlock \<circ> hd) doomed)"
      "\<And>x. x \<in> set doomed \<Longrightarrow> idx_of nd (phashBlock (hd x)) = Some x \<and> tl x \<noteq> [] \<and> x \<noteq> pindexBest nd"
    and nd': "nd' = fold delete_entry doomed nd" and clean: "no_dangling (idx_of nd')"
  shows "index_good E N (nd_files nd') (idx_of nd') \<and> best_connected E N nd' \<and>
    idx_of nd' (hashBestChain nd) = Some (pindexBest nd)"
proof -
  have D: "part_good E N (nd_files nd') (idx_of nd')"
    "\<And>h c b. idx_of nd' h = Some c \<Longrightarrow> tl c \<noteq> [] \<Longrightarrow> entry_block E N (nd_files nd) (hd c) b \<Longrightarrow>
      entry_block E N (nd_files nd') (hd c) b"
    using delete_entries_good [of E N nd doomed] good doomed unfolding nd' index_good_def by blast+
  have good': "index_good E N (nd_files nd') (idx_of nd')" using D(1) clean by (simp add: index_good_def)
  have "hashBestChain nd \<noteq> phashBlock (hd x)" if "x \<in> set doomed" for x
    using doomed(2) [OF that] best by auto
  then have best': "idx_of nd' (hashBestChain nd) = Some (pindexBest nd)"
    using best by (auto simp: nd' delete_entry_lookup)
  obtain H where H: "map fst H = pindexBest nd" "H_stored E N (nd_files nd) H" "connected E N H (nd_txdb nd)"
    using conn by (auto simp: best_connected_def)
  have "H_stored E N (nd_files nd') H"
    using H_stored_cong [OF H(2,1) best' clean _ D(2)] good' by (simp add: index_good_def part_good_def)
  then have "best_connected E N nd'"
    using H conn unfolding best_connected_def nd' fold_delete_entry_same by blast
  then show ?thesis using good' best' by blast
qed

lemma Reorganize_failed:
  assumes good: "index_good E N (nd_files nd) (idx_of nd)" and conn: "best_connected E N nd"
    and best: "idx_of nd (hashBestChain nd) = Some (pindexBest nd)"
    and new: "idx_of nd h = Some (dN @ f)" "\<not> suffix (pindexBest nd) (dN @ f)" and f: "f \<noteq> []" "dN \<noteq> []"
    and run: "connect_branch E N (node_view t nd) (rev (branch_to f (dN @ f))) db0 [] = Inl (e, doomed)"
    and nd': "nd' = fold delete_entry doomed nd" and clean: "no_dangling (idx_of nd')"
  shows "index_good E N (nd_files nd') (idx_of nd') \<and> best_connected E N nd' \<and>
    idx_of nd' (hashBestChain nd) = Some (pindexBest nd) \<and> idx_of nd' (phashBlock (hd (dN @ f))) = None"
proof -
  define cs where "cs = rev (branch_to f (dN @ f))"
  have inside: "idx_of nd (phashBlock (hd x)) = Some x \<and> tl x \<noteq> [] \<and>
      (\<exists>b. entry_block E N (nd_files nd) (hd x) b) \<and> suffix x (dN @ f)" if "x \<in> set cs" for x
    using branch_inside [OF good new(1) f(1)] that by (simp add: cs_def)
  have "suffix doomed cs" "doomed \<noteq> []"
    using connect_branch_doomed [OF run] connect_branch_error [OF run] inside
    by (auto simp: node_view_def cs_def)
  then obtain pre where pre: "cs = pre @ doomed" by (auto simp: suffix_def)
  have "last cs = dN @ f" using hd_branch [OF f(2), of f] by (simp add: cs_def last_rev)
  then have top: "dN @ f \<in> set doomed" using pre \<open>doomed \<noteq> []\<close> last_in_set [of doomed] by simp
  have "distinct (map (phashBlock \<circ> hd) cs)"
    using branch_distinct [OF good new(1)] by (simp add: cs_def flip: rev_map)
  then have "distinct (map (phashBlock \<circ> hd) doomed)" by (simp add: pre)
  moreover have "idx_of nd (phashBlock (hd x)) = Some x \<and> tl x \<noteq> [] \<and> x \<noteq> pindexBest nd"
    if "x \<in> set doomed" for x
    using inside [of x] that pre new(2) by auto
  ultimately have "index_good E N (nd_files nd') (idx_of nd') \<and> best_connected E N nd' \<and>
      idx_of nd' (hashBestChain nd) = Some (pindexBest nd)"
    by (intro delete_keeps_best [OF good conn best _ _ nd' clean]) blast+
  then show ?thesis using top by (auto simp: nd' delete_entry_lookup)
qed

end
