(* ===== verification/NodeAccept.thy ===== *)
theory NodeAccept
  imports NodeInv
begin

text \<open>
  Accepting a block keeps the invariant of the node, on every path \<open>AcceptBlock\<close> can take.
\<close>

section \<open>Accepting a block\<close>

text \<open>The transactions of the block are new to its branch.\<close>

definition new_hashes :: "ext \<Rightarrow> net_params \<Rightarrow> node \<Rightarrow> CBlock \<Rightarrow> bool" where
  "new_hashes E N nd b \<longleftrightarrow>
    (\<forall>c H. idx_of nd (hashPrevBlock b) = Some c \<longrightarrow> map fst H = c \<longrightarrow> H_stored E N (nd_files nd) H \<longrightarrow>
      distinct (tx_hashes E b @ concat (map (tx_hashes E \<circ> snd) (butlast H))))"

text \<open>The node with the block written and entered, before anything is made of it.\<close>

definition entered :: "ext \<Rightarrow> CBlock \<Rightarrow> CBlockIndex \<Rightarrow> chain \<Rightarrow> block_files \<Rightarrow> u32 \<Rightarrow> node \<Rightarrow> node" where
  "entered E b e c files' k nd =
    nd\<lparr>nCurrentBlockFile := k, nd_files := files', mapBlockIndex := fmupd (GetHash E b) (e # c) (mapBlockIndex nd)\<rparr>"

lemma fmlookup_fmupd: "fmlookup (fmupd h c m) = (fmlookup m)(h \<mapsto> c)"
  by (rule ext) simp

lemma CheckBlock_size: "CheckBlock E N t0 b = Inr () \<Longrightarrow> GetSerializeSize_CBlock b \<le> MAX_BLOCK_SIZE"
  by (simp add: CheckBlock_iff block_sane_def)

lemma entered_ok:
  assumes ok: "node_ok E N nd" and wf: "wf_CBlock b" and chk: "CheckBlock E N t0 b = Inr ()"
    and c: "idx_of nd (hashPrevBlock b) = Some c" and fresh: "idx_of nd (GetHash E b) = None"
    and w: "WriteToDisk N b (nd_files nd) (nCurrentBlockFile nd) = Some (files', nf, np)"
    and e: "e = new_entry E b nf np (nHeight (hd c) + 1)"
  shows "index_good E N files' (idx_of (entered E b e c files' k nd))"
    and "best_connected E N (entered E b e c files' k nd)"
    and "idx_of (entered E b e c files' k nd) (hashBestChain nd) = Some (pindexBest nd)"
    and "entry_block E N files' e b"
proof -
  have size: "GetSerializeSize_CBlock b \<le> MAX_BLOCK_SIZE" using chk by (simp add: CheckBlock_iff block_sane_def)
  note W = WriteToDisk_on_disk [OF w size]
  show block: "entry_block E N files' e b"
    using W(1-3) wf chk by (auto simp: entry_block_def e new_entry_def)
  have keeps: "entry_block E N files' e' b'" if "entry_block E N (nd_files nd) e' b'" for e' b'
    using that W(4) by (auto simp: entry_block_def)
  have pc: "c \<noteq> []" "phashBlock (hd c) = hashPrevBlock b" using in_index [OF ok c] by simp_all
  have he: "phashBlock e = GetHash E b" "nFile e = nf" "nBlockPos e = np" "nHeight e = nHeight (hd c) + 1"
    by (simp_all add: e new_entry_def)
  have after: "unat (nBlockPos e') + GetSerializeSize_CBlock b' \<le> unat (nBlockPos e)"
    if "entry_block E N (nd_files nd) e' b'" "nFile e' = nFile e" for e' b'
    using W(5) [of "nBlockPos e'" b'] that by (simp add: entry_block_def he)
  have "index_good E N files' ((idx_of nd)(phashBlock e \<mapsto> e # c))"
    using index_good_add [OF node_okD(1) [OF ok] _ pc(1) _ he(4) block keeps after] c fresh pc(2) he(1) by simp
  then show idx: "index_good E N files' (idx_of (entered E b e c files' k nd))"
    by (simp add: entered_def he(1) fmlookup_fmupd)
  show best: "idx_of (entered E b e c files' k nd) (hashBestChain nd) = Some (pindexBest nd)"
    using node_okD(5) [OF ok] fresh by (auto simp: best_in_index_def entered_def)
  obtain H where H: "map fst H = pindexBest nd" "H_stored E N (nd_files nd) H" "connected E N H (nd_txdb nd)"
    using node_okD(6) [OF ok] by (auto simp: best_connected_def)
  have "H_stored E N files' H" using H(2) keeps by (auto simp: H_stored_def)
  then show "best_connected E N (entered E b e c files' k nd)"
    using H node_okD(6) [OF ok] by (auto simp: best_connected_def entered_def)
qed

text \<open>The ways \<open>AcceptBlock\<close> can go for a block whose parent is in the index.\<close>

lemma AcceptBlock_cases:
  assumes ok: "node_ok E N nd" and run: "AcceptBlock E N g t b nd = (nd', r)"
  obtains (refused) k where "nd' = nd\<lparr>nCurrentBlockFile := k\<rparr>" "r \<noteq> None"
    | (entered) c e files' nf np k nd1 where
      "idx_of nd (hashPrevBlock b) = Some c" "idx_of nd (GetHash E b) = None"
      "WriteToDisk N b (nd_files nd) (nCurrentBlockFile nd) = Some (files', nf, np)"
      "e = new_entry E b nf np (nHeight (hd c) + 1)" "nd1 = entered E b e c files' k nd"
      "nHeight e \<le> nBestHeight nd \<and> nd' = nd1 \<and> r = None \<or>
       nBestHeight nd < nHeight e \<and> hashPrevBlock b = hashBestChain nd \<and>
         (\<exists>err. ConnectBlock E N (node_view t nd1) (e # c) b (nd_txdb nd) = Inl err \<and>
           nd' = delete_entry (e # c) nd1 \<and> r \<noteq> None) \<or>
       nBestHeight nd < nHeight e \<and> hashPrevBlock b = hashBestChain nd \<and>
         (\<exists>db' M. ConnectBlock E N (node_view t nd1) (e # c) b (nd_txdb nd) = Inr db' \<and> r = None \<and>
           nd' = set_best (e # c) (nd1\<lparr>nd_txdb := db', pnext := link (e # c) (pnext nd), nd_pool := M\<rparr>)) \<or>
       nBestHeight nd < nHeight e \<and> hashPrevBlock b \<noteq> hashBestChain nd \<and>
         (\<exists>nd2 r2. Reorganize E N t (e # c) nd1 = (nd2, r2) \<and> (r = None \<longleftrightarrow> r2 = None) \<and>
           nd' = (if r2 = None then set_best (e # c) nd2 else nd2))"
proof (cases "AcceptBlock_checks E N (idx_of nd) b")
  case (Inl err)
  then show ?thesis using refused [of "nCurrentBlockFile nd"] run by (auto simp: AcceptBlock_def)
next
  case (Inr c)
  then have c: "idx_of nd (hashPrevBlock b) = Some c" "idx_of nd (GetHash E b) = None"
    by (simp_all add: AcceptBlock_checks_iff)
  define k where "k = snd (AppendBlockFile (nd_files nd) (nCurrentBlockFile nd))"
  show ?thesis
  proof (cases "WriteToDisk N b (nd_files nd) (nCurrentBlockFile nd)")
    case None
    then show ?thesis using refused [of k] run Inr by (auto simp: AcceptBlock_def k_def)
  next
    case (Some w)
    obtain files' nf np where w: "w = (files', nf, np)" by (metis prod_cases3)
    define e where "e = new_entry E b nf np (nHeight (hd c) + 1)"
    define nd1 where "nd1 = entered E b e c files' k nd"
    have gen: "pindexGenesisBlock nd \<noteq> []" using node_okD(5) [OF ok] by (simp add: best_in_index_def)
    show ?thesis
      by (rule entered [OF c Some [unfolded w] e_def nd1_def])
        (use run Inr Some w c gen in \<open>auto simp: AcceptBlock_def Let_def AddToBlockIndex_def new_chain_def
          nd1_def entered_def e_def k_def split: sum.split_asm prod.split_asm option.split_asm if_split_asm\<close>)
  qed
qed

lemma node_ok_refused: "node_ok E N nd \<Longrightarrow> node_ok E N (nd\<lparr>nCurrentBlockFile := k\<rparr>)"
  by (simp add: node_ok_def best_in_index_def best_connected_def)

text \<open>A new best chain, or the old one kept.\<close>

lemma node_ok_new_best:
  assumes "index_good E N (nd_files nd) (idx_of nd)" "best_connected E N (nd\<lparr>pindexBest := p\<rparr>)"
    and "idx_of nd (phashBlock (hd p)) = Some p" "pindexGenesisBlock nd \<noteq> []"
    and "\<And>h c. idx_of nd h = Some c \<Longrightarrow> length c \<le> length p \<and> last c = last p"
  shows "node_ok E N (set_best p nd)"
proof -
  have sel: "pindexGenesisBlock (set_best p nd) = pindexGenesisBlock nd"
    "mapBlockIndex (set_best p nd) = mapBlockIndex nd" "hashBestChain (set_best p nd) = phashBlock (hd p)"
    "pindexBest (set_best p nd) = p" "nBestHeight (set_best p nd) = nHeight (hd p)"
    "nd_files (set_best p nd) = nd_files nd" "pnext (set_best p nd) = pnext nd"
    "nd_txdb (set_best p nd) = nd_txdb nd"
    by (simp_all add: set_best_def)
  have "best_in_index (set_best p nd)" using assms(3-5) unfolding best_in_index_def sel by blast
  moreover have "best_connected E N (set_best p nd)"
    using assms(2) unfolding best_connected_def sel by simp
  ultimately show ?thesis using assms(1) unfolding node_ok_def sel by blast
qed

text \<open>Reorganizing to a longer chain just entered.\<close>

lemma Reorganize_ok:
  assumes good: "index_good E N (nd_files nd) (idx_of nd)" and conn: "best_connected E N nd"
    and best: "idx_of nd (hashBestChain nd) = Some (pindexBest nd)" "pindexGenesisBlock nd \<noteq> []"
      "nBestHeight nd = nHeight (hd (pindexBest nd))"
    and p: "idx_of nd h = Some p" "h \<noteq> hashBestChain nd" "\<not> suffix (pindexBest nd) p"
      "length (pindexBest nd) < length p" "last (pindexBest nd) = last p"
    and old: "\<And>k x. idx_of nd k = Some x \<Longrightarrow> k \<noteq> h \<Longrightarrow>
      length x \<le> length (pindexBest nd) \<and> last x = last (pindexBest nd)"
    and txs: "\<And>H. map fst H = p \<Longrightarrow> H_stored E N (nd_files nd) H \<Longrightarrow> no_repeat E H"
    and run: "Reorganize E N t p nd = (nd', r)"
    and clean: "r \<noteq> None \<Longrightarrow> no_dangling (idx_of nd')"
  shows "node_ok E N (if r = None then set_best p nd' else nd')"
proof -
  have K: "keyed (idx_of nd)" using good by (simp add: index_good_def part_good_def)
  have hs: "heights (pindexBest nd)" "pindexBest nd \<noteq> []" "heights p" "phashBlock (hd p) = h"
    using keyedD [OF K best(1)] keyedD [OF K p(1)] by simp_all
  obtain f where f: "find_fork (pindexBest nd) p = Some f"
    using find_fork_exists [OF hs(1,3,2) p(5,4,3)] by blast
  obtain dB dN where d: "pindexBest nd = dB @ f" "p = dN @ f" and fne: "f \<noteq> []"
    using find_fork_suffix [OF f] hs(2) by (auto simp: suffix_def)
  have dNne: "dN \<noteq> []" using p(4) d by auto
  note tip = p(1) [unfolded d(2)]
  obtain D H db0 vr where H: "map fst H = f" "map fst D = dN" "H_stored E N (nd_files nd) (D @ H)"
    "connected E N H db0"
    "disconnect_branch E (nd_files nd) (branch_to f (pindexBest nd)) (nd_txdb nd) [] = Inr (db0, vr)"
    by (rule disconnect_to_fork [OF good conn d(1) tip fne])
  from f H(5) run show ?thesis
  proof (cases rule: Reorganize_cases)
    case (connected db' vd M)
    have DH: "map fst (D @ H) = p" by (simp add: H(1,2) d(2))
    have "best_connected E N (nd'\<lparr>pindexBest := dN @ f\<rparr>)"
      by (rule Reorganize_connected [OF good conn best(1) [unfolded d(1)] d(1) hs(3) [unfolded d(2)] fne
          H(1-4) txs [OF DH H(3)] connected(1,3) [unfolded d(2)]])
    then have bc: "best_connected E N (nd'\<lparr>pindexBest := p\<rparr>)" by (simp only: d(2))
    have same: "nd_files nd' = nd_files nd" "mapBlockIndex nd' = mapBlockIndex nd"
      "pindexGenesisBlock nd' = pindexGenesisBlock nd"
      by (simp_all add: connected(3))
    have grown: "length x \<le> length p \<and> last x = last p" if "idx_of nd k = Some x" for k x
    proof (cases "k = h")
      case True
      then show ?thesis using that p(1) by simp
    next
      case False
      have "length x \<le> length (pindexBest nd)" "last x = last (pindexBest nd)" using old [OF that False] by simp_all
      then show ?thesis using p(4,5) by (metis less_imp_le_nat order.trans)
    qed
    have "node_ok E N (set_best p nd')"
      
    proof (rule node_ok_new_best [OF _ bc])
      show "index_good E N (nd_files nd') (idx_of nd')" using good by (simp only: same)
      show "idx_of nd' (phashBlock (hd p)) = Some p" using p(1) by (simp only: same hs(4))
      show "pindexGenesisBlock nd' \<noteq> []" using best(2) same(3) by simp
      show "length c \<le> length p \<and> last c = last p" if "idx_of nd' k = Some c" for k c
        using grown that by (simp only: same)
    qed
    then show ?thesis using connected(2) by simp
  next
    case (failed err doomed)
    have cl: "no_dangling (idx_of nd')" by (rule clean) (simp add: failed(2))
    have D: "index_good E N (nd_files nd') (idx_of nd') \<and> best_connected E N nd' \<and>
        idx_of nd' (hashBestChain nd) = Some (pindexBest nd) \<and> idx_of nd' (phashBlock (hd (dN @ f))) = None"
      by (rule Reorganize_failed [OF good conn best(1) tip p(3) [unfolded d(2)] fne dNne
          failed(1) [unfolded d(2)] failed(3) cl])
    have sub: "idx_of nd k = Some x \<and> k \<noteq> h" if "idx_of nd' k = Some x" for k x
    proof -
      have "idx_of nd k = Some x" using that unfolding failed(3) delete_entry_lookup by (auto split: if_split_asm)
      moreover have "idx_of nd' h = None" using D hs(4) d(2) by simp
      ultimately show ?thesis using that by auto
    qed
    have same: "pindexGenesisBlock nd' = pindexGenesisBlock nd" "pindexBest nd' = pindexBest nd"
      "nBestHeight nd' = nBestHeight nd" "hashBestChain nd' = hashBestChain nd"
      by (simp_all add: failed(3) fold_delete_entry_same)
    have "best_in_index nd'"
      using best D old sub unfolding best_in_index_def same by blast
    then show ?thesis using D failed(2) by (simp add: node_ok_def)
  qed
qed

text \<open>
  A reorganization that fails deletes the failed block and the rest of its branch; another
  child of any of them keeps a pointer to what is deleted.
\<close>

lemma Reorganize_dangling:
  assumes "find_fork (pindexBest nd) pindexNew = Some f"
    and "disconnect_branch E (nd_files nd) (branch_to f (pindexBest nd)) (nd_txdb nd) [] = Inr (db0, vr)"
    and "connect_branch E N (node_view t nd) (rev (branch_to f pindexNew)) db0 [] = Inl (e, doomed)"
    and child: "idx_of nd h = Some x" "tl x \<in> set doomed" "tl x \<noteq> []" "h \<notin> phashBlock ` hd ` set doomed"
  shows "\<not> no_dangling (idx_of (fst (Reorganize E N t pindexNew nd)))"
proof -
  have "fst (Reorganize E N t pindexNew nd) = fold delete_entry doomed nd"
    using assms(1-3) by (simp add: Reorganize_def Let_def)
  then show ?thesis using child by (auto simp: no_dangling_def delete_entry_lookup)
qed

lemma AcceptBlock_ok:
  assumes ok: "node_ok E N nd" and wf: "wf_CBlock b" and chk: "CheckBlock E N t0 b = Inr ()"
    and txs: "new_hashes E N nd b" and run: "AcceptBlock E N g t b nd = (nd', r)"
    and clean: "hashPrevBlock b \<noteq> hashBestChain nd \<Longrightarrow> r \<noteq> None \<Longrightarrow> no_dangling (idx_of nd')"
  shows "node_ok E N nd'"
  using ok run
proof (cases rule: AcceptBlock_cases)
  case (refused k)
  then show ?thesis using node_ok_refused [OF ok] by simp
next
  case (entered c e files' nf np k nd1)
  note new = entered_ok(1-3) [OF ok wf chk entered(1-4), where k = k, folded entered(5)]
    entered_ok(4) [OF ok wf chk entered(1-4)]
  have c: "c \<noteq> []" "phashBlock (hd c) = hashPrevBlock b" "heights c" "length c \<le> length (pindexBest nd)"
    "last c = last (pindexBest nd)"
    using in_index [OF ok entered(1)] by simp_all
  have he: "phashBlock e = GetHash E b" "nHeight e = int (length c)"
    using hd_height [OF c(3,1)] by (simp_all add: entered(4) new_entry_def)
  have B: "pindexGenesisBlock nd \<noteq> []" "nBestHeight nd = int (length (pindexBest nd)) - 1"
    "phashBlock (hd (pindexBest nd)) = hashBestChain nd" "pindexBest nd \<noteq> []"
    using node_okD(5) [OF ok] best_ne [OF ok] in_index(3) [OF ok] hd_height
    by (fastforce simp: best_in_index_def)+
  have nd1: "nd_files nd1 = files'" "pindexBest nd1 = pindexBest nd" "hashBestChain nd1 = hashBestChain nd"
    "idx_of nd1 = (idx_of nd)(GetHash E b \<mapsto> e # c)" "nBestHeight nd1 = nBestHeight nd"
    "pindexGenesisBlock nd1 = pindexGenesisBlock nd" "nd_txdb nd1 = nd_txdb nd" "pnext nd1 = pnext nd"
    by (simp_all add: entered(5) entered_def fmlookup_fmupd)
  have old: "length x \<le> length (pindexBest nd) \<and> last x = last (pindexBest nd)"
    if "idx_of nd1 h = Some x" "h \<noteq> GetHash E b" for h x
    using in_index [OF ok, of h x] that by (simp add: nd1)
  have good: "index_good E N (nd_files nd1) (idx_of nd1)" using new(1) by (simp add: nd1)
  have norep: "no_repeat E H" if H: "map fst H = e # c" "H_stored E N files' H" for H
  proof -
    obtain b' H1 where H1: "H = (e, b') # H1" "map fst H1 = c" using H(1) by (cases H) auto
    then have ne: "H1 \<noteq> []" using c(1) by auto
    have H1s: "entry_block E N files' e b'" "H_stored E N files' H1"
      using H(2) ne by (simp_all add: H1(1) H_stored_Cons)
    have "b' = b" by (rule entry_block_unique [OF H1s(1) new(4)])
    obtain H3 where H3: "map fst H3 = c" "H_stored E N (nd_files nd) H3"
      using history_of [OF node_okD(1) [OF ok] entered(1)] by blast
    have "H_stored E N files' H3"
      using H3(2) WriteToDisk_on_disk(4) [OF entered(3) CheckBlock_size [OF chk]]
      by (auto simp: H_stored_def entry_block_def)
    then have "butlast H1 = butlast H3" using H_unique [OF H1s(2)] H1(2) H3(1) by simp
    moreover have "distinct (tx_hashes E b @ concat (map (tx_hashes E \<circ> snd) (butlast H3)))"
      using txs entered(1) H3 unfolding new_hashes_def by blast
    ultimately show ?thesis using ne \<open>b' = b\<close> by (simp add: H1(1) no_repeat_def)
  qed
  have tip: "idx_of nd1 (phashBlock (hd (e # c))) = Some (e # c)" by (simp add: nd1 he(1))
  have grown: "length x \<le> length (e # c) \<and> last x = last (e # c)"
    if "idx_of nd1 h = Some x" "nBestHeight nd < nHeight e" for h x
    using old [OF that(1)] that c B he by (cases "h = GetHash E b") (auto simp: nd1)
  from entered(6) consider
    (side) "nHeight e \<le> nBestHeight nd" "nd' = nd1"
    | (bad) "nBestHeight nd < nHeight e" "hashPrevBlock b = hashBestChain nd" "nd' = delete_entry (e # c) nd1"
    | (longer) db' M where "nBestHeight nd < nHeight e" "hashPrevBlock b = hashBestChain nd"
      "ConnectBlock E N (node_view t nd1) (e # c) b (nd_txdb nd) = Inr db'"
      "nd' = set_best (e # c) (nd1\<lparr>nd_txdb := db', pnext := link (e # c) (pnext nd), nd_pool := M\<rparr>)"
    | (reorg) nd2 r2 where "nBestHeight nd < nHeight e" "hashPrevBlock b \<noteq> hashBestChain nd"
      "Reorganize E N t (e # c) nd1 = (nd2, r2)" "nd' = (if r2 = None then set_best (e # c) nd2 else nd2)"
      "r = None \<longleftrightarrow> r2 = None"
    by blast
  then show ?thesis
  proof cases
    case side
    have "length x \<le> length (pindexBest nd) \<and> last x = last (pindexBest nd)" if "idx_of nd1 h = Some x" for h x
      using old [OF that] that side(1) c B he by (cases "h = GetHash E b") (auto simp: nd1)
    then have "best_in_index nd1"
      using node_okD(5) [OF ok] new(3) unfolding best_in_index_def nd1(2,3,5,6) by blast
    then show ?thesis using good new(2) by (simp add: node_ok_def side(2))
  next
    case bad
    have cb: "c = pindexBest nd"
      using entered(1) node_okD(5) [OF ok] bad(2) by (simp add: best_in_index_def)
    have "idx_of nd' = idx_of nd"
      using entered(2) by (auto simp: bad(3) delete_entry_def nd1 he(1))
    then have clean: "no_dangling (idx_of nd')" using node_okD(4) [OF ok] by simp
    have D: "index_good E N (nd_files nd') (idx_of nd') \<and> best_connected E N nd' \<and>
        idx_of nd' (hashBestChain nd1) = Some (pindexBest nd1)"
      by (rule delete_keeps_best [of E N nd1 "[e # c]"])
        (use good new(2,3) tip bad(3) clean cb c(1) nd1(2,3) in simp_all)
    have sub: "idx_of nd1 h = Some x \<and> h \<noteq> GetHash E b" if "idx_of nd' h = Some x" for h x
      using that by (auto simp: bad(3) delete_entry_def he(1) split: if_split_asm)
    have same: "pindexGenesisBlock nd' = pindexGenesisBlock nd" "pindexBest nd' = pindexBest nd"
      "nBestHeight nd' = nBestHeight nd" "hashBestChain nd' = hashBestChain nd"
      by (simp_all add: bad(3) delete_entry_def nd1)
    have "best_in_index nd'"
      using node_okD(5) [OF ok] D old sub unfolding best_in_index_def same nd1(2,3) by blast
    then show ?thesis using D by (simp add: node_ok_def)
  next
    case (longer db' M)
    have cb: "c = pindexBest nd"
      using entered(1) node_okD(5) [OF ok] longer(2) by (simp add: best_in_index_def)
    obtain H where H: "map fst H = c" "H_stored E N files' H" "connected E N H (nd_txdb nd)"
      using new(2) by (auto simp: best_connected_def nd1 cb)
    have ne: "H \<noteq> []" using H(1) c(1) by auto
    have V: "viewFiles (node_view t nd1) = files'" by (simp add: node_view_def nd1)
    have stored: "H_stored E N files' ((e, b) # H)" using H(2) new(4) ne by (simp add: H_stored_Cons)
    have "nHeight e = nHeight (fst (hd H)) + 1"
      using H(1) ne by (cases H) (auto simp: entered(4) new_entry_def)
    then have "connected E N ((e, b) # H) db'"
      using connected.extend [OF H(3), of "node_view t nd1" e b db'] stored H(1) longer(3)
        no_repeat_fresh [OF H(3) norep] by (simp add: V)
    moreover have "link (e # c) (pnext nd) = chain_links (e # c)"
      using link_chain [OF c(1)] node_okD(6) [OF ok] by (simp add: best_connected_def cb)
    ultimately have "best_connected E N
        (nd1\<lparr>nd_txdb := db', pnext := link (e # c) (pnext nd), nd_pool := M, pindexBest := e # c\<rparr>)"
      using stored H(1) by (auto simp: best_connected_def nd1 intro!: exI [of _ "(e, b) # H"])
    then show ?thesis
      unfolding longer(4) using good grown longer(1) tip B(1)
      by (intro node_ok_new_best) (simp_all add: nd1)
  next
    case (reorg nd2 r2)
    have longer: "length (pindexBest nd1) < length (e # c)" using reorg(1) B(2) he(2) nd1(2) by simp
    have ns: "\<not> suffix (pindexBest nd1) (e # c)"
    proof
      assume "suffix (pindexBest nd1) (e # c)"
      then obtain d where d: "e # c = d @ pindexBest nd" by (auto simp: suffix_def nd1)
      have "hashPrevBlock b \<noteq> phashBlock (hd (pindexBest nd))" using reorg(2) B(3) by simp
      then have "c \<noteq> pindexBest nd" using c(2) by auto
      then show False using d c(4) longer by (cases d) (auto simp: append_eq_Cons_conv nd1)
    qed
    have best1: "heights (pindexBest nd1)" "pindexBest nd1 \<noteq> []"
      using in_index(3) [OF ok] node_okD(5) [OF ok] B(4) by (auto simp: nd1 best_in_index_def)
    have hb: "hashBestChain nd1 \<noteq> GetHash E b" using node_okD(5) [OF ok] entered(2) nd1(3)
      by (auto simp: best_in_index_def)
    have "node_ok E N (if r2 = None then set_best (e # c) nd2 else nd2)"
    proof (rule Reorganize_ok [OF good new(2) _ _ _ _ hb [symmetric] ns longer _ _ _ reorg(3)])
      show "idx_of nd1 (hashBestChain nd1) = Some (pindexBest nd1)" using new(3) nd1 by simp
      show "pindexGenesisBlock nd1 \<noteq> []" using B(1) nd1(6) by simp
      show "nBestHeight nd1 = nHeight (hd (pindexBest nd1))"
        using node_okD(5) [OF ok] by (simp add: best_in_index_def nd1(2,5))
      show "idx_of nd1 (GetHash E b) = Some (e # c)" by (simp add: nd1(4))
      show "last (pindexBest nd1) = last (e # c)" using c(1,5) by (simp add: nd1(2))
      show "length x \<le> length (pindexBest nd1) \<and> last x = last (pindexBest nd1)"
        if "idx_of nd1 k = Some x" "k \<noteq> GetHash E b" for k x
        using old [OF that] by (simp add: nd1(2))
      show "no_repeat E H" if "map fst H = e # c" "H_stored E N (nd_files nd1) H" for H
        using norep that by (simp add: nd1(1))
      show "no_dangling (idx_of nd2)" if "r2 \<noteq> None" using clean reorg(2,4,5) that by simp
    qed
    then show ?thesis using reorg(4) by simp
  qed
qed

end
