(* ===== verification/Orphans.thy ===== *)
theory Orphans
  imports Node
begin

text \<open>
  The store of orphan blocks: the map by hash and the multimap by parent hold the same blocks,
  and no more than \<^verbatim>\<open>MAX_ORPHAN_BLOCKS\<close> of them.  \<open>ProcessBlock\<close> keeps this, whatever it is
  given, and when it accepts a block no orphan is left waiting for it.
\<close>

definition same_orphans :: "ext \<Rightarrow> (uint256, CBlock) fmap \<Rightarrow> (uint256 \<times> CBlock) list \<Rightarrow> bool" where
  "same_orphans E m l \<longleftrightarrow>
    (\<forall>h b. fmlookup m h = Some b \<longrightarrow> GetHash E b = h \<and> (hashPrevBlock b, b) \<in> set l) \<and>
    (\<forall>(p, b) \<in> set l. p = hashPrevBlock b \<and> fmlookup m (GetHash E b) = Some b) \<and> distinct l"

definition orphans_ok :: "ext \<Rightarrow> node \<Rightarrow> bool" where
  "orphans_ok E nd \<longleftrightarrow>
    same_orphans E (mapOrphanBlocks nd) (mapOrphanBlocksByPrev nd) \<and>
    fcard (fmdom (mapOrphanBlocks nd)) \<le> MAX_ORPHAN_BLOCKS"

lemma same_orphansD:
  assumes "same_orphans E m l"
  shows "fmlookup m h = Some b \<Longrightarrow> GetHash E b = h" "fmlookup m h = Some b \<Longrightarrow> (hashPrevBlock b, b) \<in> set l"
    "(p, b) \<in> set l \<Longrightarrow> p = hashPrevBlock b" "(p, b) \<in> set l \<Longrightarrow> fmlookup m (GetHash E b) = Some b" "distinct l"
  using assms by (auto simp: same_orphans_def)

lemma same_orphansI:
  assumes "\<And>h b. fmlookup m h = Some b \<Longrightarrow> GetHash E b = h \<and> (hashPrevBlock b, b) \<in> set l"
    and "\<And>p b. (p, b) \<in> set l \<Longrightarrow> p = hashPrevBlock b \<and> fmlookup m (GetHash E b) = Some b" "distinct l"
  shows "same_orphans E m l"
  using assms by (auto simp: same_orphans_def)

lemma same_orphans_add:
  assumes S: "same_orphans E m l" and new: "fmlookup m (GetHash E b) = None"
  shows "same_orphans E (fmupd (GetHash E b) b m) (l @ [(hashPrevBlock b, b)])"
proof (rule same_orphansI)
  fix h x assume "fmlookup (fmupd (GetHash E b) b m) h = Some x"
  then show "GetHash E x = h \<and> (hashPrevBlock x, x) \<in> set (l @ [(hashPrevBlock b, b)])"
    using same_orphansD(1,2) [OF S, of h x] by (auto split: if_split_asm)
next
  fix p x assume "(p, x) \<in> set (l @ [(hashPrevBlock b, b)])"
  then consider "p = hashPrevBlock b" "x = b" | "(p, x) \<in> set l" by auto
  then show "p = hashPrevBlock x \<and> fmlookup (fmupd (GetHash E b) b m) (GetHash E x) = Some x"
  proof cases
    case 2
    then show ?thesis using same_orphansD(3,4) [OF S 2] new by auto
  qed simp
next
  have "(hashPrevBlock b, b) \<notin> set l" using same_orphansD(4) [OF S] new by fastforce
  then show "distinct (l @ [(hashPrevBlock b, b)])" using same_orphansD(5) [OF S] by simp
qed

text \<open>Blocks taken out of both.\<close>

lemma same_orphans_remove:
  assumes S: "same_orphans E m l"
    and m': "\<And>h. fmlookup m' h = (if \<exists>(p, b) \<in> set l. P p b \<and> GetHash E b = h then None else fmlookup m h)"
  shows "same_orphans E m' (filter (\<lambda>(p, b). \<not> P p b) l)"
proof -
  have one: "P p b = P p' b'" if "(p, b) \<in> set l" "(p', b') \<in> set l" "GetHash E b = GetHash E b'" for p b p' b'
  proof -
    have "Some b = fmlookup m (GetHash E b)" by (rule same_orphansD(4) [OF S that(1), symmetric])
    also have "\<dots> = Some b'" unfolding that(3) by (rule same_orphansD(4) [OF S that(2)])
    finally have "b = b'" by simp
    then show ?thesis using same_orphansD(3) [OF S that(1)] same_orphansD(3) [OF S that(2)] by simp
  qed
  show ?thesis
  proof (rule same_orphansI)
    fix h b assume x: "fmlookup m' h = Some b"
    have np: "\<not> (\<exists>(p, b) \<in> set l. P p b \<and> GetHash E b = h)" 
    proof
      assume "\<exists>(p, b) \<in> set l. P p b \<and> GetHash E b = h"
      then have "fmlookup m' h = None" by (simp only: m' if_True)
      then show False using x by simp
    qed
    then have "fmlookup m h = Some b" using x by (simp only: m' if_False)
    note in_l = same_orphansD(1,2) [OF S this]
    then have "\<not> P (hashPrevBlock b) b" using np by blast
    with in_l show "GetHash E b = h \<and> (hashPrevBlock b, b) \<in> set (filter (\<lambda>(p, b). \<not> P p b) l)"
      by simp
  next
    fix p b assume "(p, b) \<in> set (filter (\<lambda>(p, b). \<not> P p b) l)"
    then have pb: "(p, b) \<in> set l" "\<not> P p b" by simp_all
    have "\<not> (\<exists>(p', b') \<in> set l. P p' b' \<and> GetHash E b' = GetHash E b)" 
    proof
      assume "\<exists>(p', b') \<in> set l. P p' b' \<and> GetHash E b' = GetHash E b"
      then obtain p' b' where x: "(p', b') \<in> set l" "P p' b'" "GetHash E b' = GetHash E b" by blast
      show False using one [OF pb(1) x(1) x(3) [symmetric]] pb(2) x(2) by simp
    qed
    then have "fmlookup m' (GetHash E b) = fmlookup m (GetHash E b)" by (simp only: m' if_False)
    then show "p = hashPrevBlock b \<and> fmlookup m' (GetHash E b) = Some b"
      using same_orphansD(3,4) [OF S pb(1)] by simp
  next
    show "distinct (filter (\<lambda>(p, b). \<not> P p b) l)" using same_orphansD(5) [OF S] by simp
  qed
qed

lemma LimitOrphanBlocks_ok:
  "same_orphans E m l \<Longrightarrow> LimitOrphanBlocks n rs m l = (m', l') \<Longrightarrow>
    same_orphans E m' l' \<and> fcard (fmdom m') \<le> n"
proof (induction n rs m l rule: LimitOrphanBlocks.induct)
  case (1 n rs m l)
  show ?case
  proof (cases "fcard (fmdom m) \<le> n")
    case True
    then show ?thesis using 1(2,3) by (simp add: LimitOrphanBlocks.simps)
  next
    case False
    define h where "h = orphan_victim (rs 0) m"
    have "m \<noteq> fmempty" using False by (auto simp: fcard_fempty)
    then obtain b where b: "fmlookup m h = Some b"
      using orphan_victim_in [of m "rs 0"] by (auto simp: h_def fmlookup_dom_iff)
    have hb: "GetHash E b = h" "(hashPrevBlock b, b) \<in> set l" using same_orphansD(1,2) [OF 1(2) b] by simp_all
    define l1 where "l1 = filter (\<lambda>(prev, x). \<not> (prev = hashPrevBlock (the (fmlookup m h)) \<and> x = the (fmlookup m h))) l"
    have "same_orphans E (fmdrop h m) l1"
      unfolding l1_def by (rule same_orphans_remove [OF 1(2)]) (use hb b in auto)
    moreover have "LimitOrphanBlocks n (\<lambda>i. rs (Suc i)) (fmdrop h m) l1 = (m', l')"
      using 1(3) False unfolding LimitOrphanBlocks.simps [of n rs m l] by (simp only: if_False Let_def h_def l1_def)
    ultimately show ?thesis using 1(1) [OF False h_def refl] unfolding l1_def by blast
  qed
qed

lemma accept_orphans_map:
  "fmlookup (mapOrphanBlocks (fst (accept_orphans E N g t bs nd))) h =
    (if h \<in> GetHash E ` set bs then None else fmlookup (mapOrphanBlocks nd) h)"
proof (induction bs arbitrary: nd)
  case (Cons b bs)
  obtain nd1 r where r: "AcceptBlock E N g t b nd = (nd1, r)" by force
  then have "mapOrphanBlocks nd1 = mapOrphanBlocks nd"
    using AcceptBlock_orphans(2) [of E N g t b nd] by simp
  then show ?case
    using Cons [of "nd1\<lparr>mapOrphanBlocks := fmdrop (GetHash E b) (mapOrphanBlocks nd1)\<rparr>"]
    by (auto simp: r split: prod.split)
qed simp

lemma process_orphans_ok:
  "same_orphans E (mapOrphanBlocks nd) (mapOrphanBlocksByPrev nd) \<Longrightarrow> nd' = process_orphans E N g t q nd \<Longrightarrow>
    same_orphans E (mapOrphanBlocks nd') (mapOrphanBlocksByPrev nd') \<and>
    fmdom (mapOrphanBlocks nd') |\<subseteq>| fmdom (mapOrphanBlocks nd) \<and>
    set (mapOrphanBlocksByPrev nd') \<subseteq> set (mapOrphanBlocksByPrev nd) \<and>
    (\<forall>h \<in> set q. \<forall>b. (h, b) \<notin> set (mapOrphanBlocksByPrev nd'))"
proof (induction E N g t q nd rule: process_orphans.induct)
  case (1 E N g t nd)
  then show ?case by simp
next
  case (2 E N g t p q nd)
  define ws where "ws = map snd (filter (\<lambda>(p', b). p' = p) (mapOrphanBlocksByPrev nd))"
  obtain nd1 acc where A: "accept_orphans E N g t ws nd = (nd1, acc)" by force
  define nd2 where "nd2 = nd1\<lparr>mapOrphanBlocksByPrev := filter (\<lambda>(p', b). p' \<noteq> p) (mapOrphanBlocksByPrev nd1)\<rparr>"
  have l: "mapOrphanBlocksByPrev nd2 = filter (\<lambda>(p', b). \<not> p' = p) (mapOrphanBlocksByPrev nd)"
    using accept_orphans_ByPrev [of E N g t ws nd] by (simp add: nd2_def A)
  have m: "fmlookup (mapOrphanBlocks nd2) h =
      (if \<exists>(p', b) \<in> set (mapOrphanBlocksByPrev nd). p' = p \<and> GetHash E b = h then None
       else fmlookup (mapOrphanBlocks nd) h)" for h
    proof -
    have "(h \<in> GetHash E ` set ws) = (\<exists>(p', b) \<in> set (mapOrphanBlocksByPrev nd). p' = p \<and> GetHash E b = h)"
      by (force simp: ws_def)
    moreover have "mapOrphanBlocks nd2 = mapOrphanBlocks (fst (accept_orphans E N g t ws nd))"
      by (simp add: nd2_def A)
    ultimately show ?thesis using accept_orphans_map [of E N g t ws nd h] by simp
  qed
  have S: "same_orphans E (mapOrphanBlocks nd2) (mapOrphanBlocksByPrev nd2)"
    unfolding l by (rule same_orphans_remove [OF 2(2) m])
  have dom: "fmdom (mapOrphanBlocks nd2) |\<subseteq>| fmdom (mapOrphanBlocks nd)"
    using m by (auto simp: fmlookup_dom_iff split: if_split_asm)
  have run: "nd' = process_orphans E N g t (q @ acc) nd2" using 2(3) A by (simp add: ws_def nd2_def)
  have IH: "same_orphans E (mapOrphanBlocks nd') (mapOrphanBlocksByPrev nd') \<and>
      fmdom (mapOrphanBlocks nd') |\<subseteq>| fmdom (mapOrphanBlocks nd2) \<and>
      set (mapOrphanBlocksByPrev nd') \<subseteq> set (mapOrphanBlocksByPrev nd2) \<and>
      (\<forall>h \<in> set (q @ acc). \<forall>b. (h, b) \<notin> set (mapOrphanBlocksByPrev nd'))"
    using 2(1) [OF ws_def A [symmetric] refl, folded nd2_def] S run by blast
  then show ?case using dom l by auto
qed

lemma ProcessBlock_cases:
  assumes run: "ProcessBlock E N g t rs b nd = (nd', r)"
  obtains (same) "nd' = nd" "r \<noteq> Accepted"
    | (held) m l where "fmlookup (mapOrphanBlocks nd) (GetHash E b) = None" "r \<noteq> Accepted"
      "LimitOrphanBlocks MAX_ORPHAN_BLOCKS rs (fmupd (GetHash E b) b (mapOrphanBlocks nd))
        (mapOrphanBlocksByPrev nd @ [(hashPrevBlock b, b)]) = (m, l)"
      "nd' = nd\<lparr>mapOrphanBlocks := m, mapOrphanBlocksByPrev := l\<rparr>"
    | (failed) e where "CheckBlock E N t b = Inr ()" "AcceptBlock E N g t b nd = (nd', Some e)" "r \<noteq> Accepted"
    | (accepted) nd1 where "CheckBlock E N t b = Inr ()" "AcceptBlock E N g t b nd = (nd1, None)"
      "nd' = process_orphans E N g t [GetHash E b] nd1" "r = Accepted"
proof (cases "fmlookup (mapBlockIndex nd) (GetHash E b) \<noteq> None \<or> fmlookup (mapOrphanBlocks nd) (GetHash E b) \<noteq> None")
  case True
  then show ?thesis using same run by (auto simp: ProcessBlock_def Let_def split: if_split_asm)
next
  case new: False
  show ?thesis
  proof (cases "CheckBlock E N t b")
    case (Inl e)
    then show ?thesis using same run new by (auto simp: ProcessBlock_def Let_def)
  next
    case (Inr u)
    show ?thesis
    proof (cases "fmlookup (mapBlockIndex nd) (hashPrevBlock b) = None")
      case True
      obtain m l where "LimitOrphanBlocks MAX_ORPHAN_BLOCKS rs (fmupd (GetHash E b) b (mapOrphanBlocks nd))
        (mapOrphanBlocksByPrev nd @ [(hashPrevBlock b, b)]) = (m, l)" by force
      then show ?thesis using held [of m l] run new Inr True by (simp add: ProcessBlock_def Let_def)
    next
      case False
      obtain c where c: "fmlookup (mapBlockIndex nd) (hashPrevBlock b) = Some c" using False by blast
      obtain nd1 r1 where A: "AcceptBlock E N g t b nd = (nd1, r1)" by force
      show ?thesis
      proof (cases r1)
        case None
        then show ?thesis using accepted [of nd1] run new Inr c A
          by (simp add: ProcessBlock_def Let_def del: process_orphans.simps)
      next
        case (Some e)
        then show ?thesis using failed [of e] run new Inr c A by (auto simp: ProcessBlock_def Let_def)
      qed
    qed
  qed
qed

lemma ProcessBlock_orphans:
  assumes ok: "orphans_ok E nd" and run: "ProcessBlock E N g t rs b nd = (nd', r)"
  shows "orphans_ok E nd' \<and>
    (r = Accepted \<longrightarrow> (\<forall>x. (GetHash E b, x) \<notin> set (mapOrphanBlocksByPrev nd')))"
proof -
  have S: "same_orphans E (mapOrphanBlocks nd) (mapOrphanBlocksByPrev nd)"
    "fcard (fmdom (mapOrphanBlocks nd)) \<le> MAX_ORPHAN_BLOCKS"
    using ok by (simp_all add: orphans_ok_def)
  consider (same) "nd' = nd" "r \<noteq> Accepted"
    | (held) m l where "fmlookup (mapOrphanBlocks nd) (GetHash E b) = None" "r \<noteq> Accepted"
      "LimitOrphanBlocks MAX_ORPHAN_BLOCKS rs (fmupd (GetHash E b) b (mapOrphanBlocks nd))
        (mapOrphanBlocksByPrev nd @ [(hashPrevBlock b, b)]) = (m, l)"
      "nd' = nd\<lparr>mapOrphanBlocks := m, mapOrphanBlocksByPrev := l\<rparr>"
    | (failed) e where "AcceptBlock E N g t b nd = (nd', Some e)" "r \<noteq> Accepted"
    | (accepted) nd1 where "AcceptBlock E N g t b nd = (nd1, None)" "nd' = process_orphans E N g t [GetHash E b] nd1"
    using run by (rule ProcessBlock_cases)
  then show ?thesis
  proof cases
    case same
    then show ?thesis using ok by simp
  next
    case held
    then show ?thesis
      using LimitOrphanBlocks_ok [OF same_orphans_add [OF S(1) held(1)] held(3)] by (simp add: orphans_ok_def)
  next
    case failed
    then show ?thesis using AcceptBlock_orphans [of E N g t b nd] S by (simp add: orphans_ok_def)
  next
    case accepted
    have nd1: "mapOrphanBlocksByPrev nd1 = mapOrphanBlocksByPrev nd" "mapOrphanBlocks nd1 = mapOrphanBlocks nd"
      using AcceptBlock_orphans [of E N g t b nd] accepted(1) by simp_all
    have P: "same_orphans E (mapOrphanBlocks nd') (mapOrphanBlocksByPrev nd') \<and>
        fmdom (mapOrphanBlocks nd') |\<subseteq>| fmdom (mapOrphanBlocks nd1) \<and>
        set (mapOrphanBlocksByPrev nd') \<subseteq> set (mapOrphanBlocksByPrev nd1) \<and>
        (\<forall>h \<in> set [GetHash E b]. \<forall>x. (h, x) \<notin> set (mapOrphanBlocksByPrev nd'))"
      by (rule process_orphans_ok [OF _ accepted(2)]) (simp add: nd1 S)
    then have "fcard (fmdom (mapOrphanBlocks nd')) \<le> fcard (fmdom (mapOrphanBlocks nd))"
      by (simp add: nd1 fcard_mono)
    then show ?thesis using P S(2) by (simp add: orphans_ok_def)
  qed
qed

end
