(* ===== verification/NodeProps.thy ===== *)
theory NodeProps
  imports NodeAccept Orphans
begin

text \<open>
  What the invariant of the node gives: the node that has just entered the genesis block has
  it; the coins of its transaction index are bounded by the subsidies of its best chain; the
  pointers to the next block decide which blocks are in the main chain; block locators find
  the block they were made from; the store of orphan blocks is consistent and bounded.
\<close>

section \<open>Starting\<close>

text \<open>The globals before \<^verbatim>\<open>LoadBlockIndex\<close> enters the genesis block.\<close>

definition empty_node :: "block_files \<Rightarrow> u32 \<Rightarrow> node" where
  "empty_node files k =
    \<lparr>mapBlockIndex = fmempty, pnext = Map.empty, pindexGenesisBlock = [], pindexBest = [],
     hashBestChain = 0, nBestHeight = - 1, nd_txdb = Map.empty, nd_files = files,
     nCurrentBlockFile = k,
     nd_pool = \<lparr>pool = fmempty, mapNextTx = fmempty, nTransactionsUpdated = 0\<rparr>,
     mapOrphanBlocks = fmempty, mapOrphanBlocksByPrev = []\<rparr>"

lemma genesis_ok:
  assumes "AddToBlockIndex E N (GetHash E b) t b nf np (empty_node files k) = (nd, r)"
  shows "node_ok E N nd \<and> r = None"
proof -
  define e where "e = new_entry E b nf np 0"
  have e: "phashBlock e = GetHash E b" "nHeight e = 0" by (simp_all add: e_def new_entry_def)
  have nd: "r = None" "idx_of nd = [GetHash E b \<mapsto> [e]]" "pindexGenesisBlock nd = [e]" "pindexBest nd = [e]"
    "hashBestChain nd = GetHash E b" "nBestHeight nd = 0" "nd_txdb nd = Map.empty" "pnext nd = Map.empty"
    using assms by (auto simp: AddToBlockIndex_def new_chain_def empty_node_def Let_def set_best_def
        fmlookup_fmupd e simp flip: e_def)
  have "index_good E N (nd_files nd) (idx_of nd)"
    by (auto simp: index_good_def part_good_def keyed_def stored_index_def apart_index_def no_dangling_def
        nd(2) e split: if_split_asm)
  moreover have "best_in_index nd" by (auto simp: best_in_index_def nd(2-6) e split: if_split_asm)
  moreover have "best_connected E N nd"
    using connected.genesis [of e E N CBlock_SetNull] e
    by (auto simp: best_connected_def nd(4,7,8) H_stored_def intro!: exI [of _ "[(e, CBlock_SetNull)]"])
  ultimately show ?thesis using nd(1) by (simp add: node_ok_def)
qed

section \<open>The coins of the best chain\<close>

lemma node_values:
  assumes "node_ok E N nd"
  shows "values_ok (nd_files nd) (nd_txdb nd) \<and> nBestHeight nd < 13440000 \<and>
    total_value (nd_files nd) (nd_txdb nd) \<le> (\<Sum>k<nat (nBestHeight nd + 1). subsidy k)"
proof -
  obtain H where H: "map fst H = pindexBest nd" "H_stored E N (nd_files nd) H" "connected E N H (nd_txdb nd)"
    using node_okD(6) [OF assms] by (auto simp: best_connected_def)
  have "nBestHeight nd = nHeight (hd (pindexBest nd))" using node_okD(5) [OF assms] by (simp add: best_in_index_def)
  also have "\<dots> = int (length H) - 1"
    using connected_height [OF H(3)] connected_ne [OF H(3)] by (simp flip: H(1) add: hd_map)
  finally show ?thesis using connected_values [OF H(3,2)] connected_ne [OF H(3)] by simp
qed

text \<open>
  The states a node goes through: the genesis block entered on the empty node, then blocks
  that pass \<open>CheckBlock\<close> and are given to \<open>AcceptBlock\<close>, accepted or not.  The hashes of the
  transactions of a block are assumed new to its branch, and the entries that a failed
  reorganization deletes to have no other children.
\<close>

inductive node_run :: "ext \<Rightarrow> net_params \<Rightarrow> uint256 \<Rightarrow> node \<Rightarrow> bool" for E N g where
  start: "GetHash E b = g \<Longrightarrow> AddToBlockIndex E N g t b nf np (empty_node files k) = (nd, r) \<Longrightarrow>
    node_run E N g nd"
| block: "node_run E N g nd \<Longrightarrow> wf_CBlock b \<Longrightarrow> CheckBlock E N t b = Inr () \<Longrightarrow> new_hashes E N nd b \<Longrightarrow>
    AcceptBlock E N g t b nd = (nd', r) \<Longrightarrow>
    (hashPrevBlock b \<noteq> hashBestChain nd \<Longrightarrow> r \<noteq> None \<Longrightarrow> no_dangling (idx_of nd')) \<Longrightarrow>
    node_run E N g nd'"

lemma node_run_ok: "node_run E N g nd \<Longrightarrow> node_ok E N nd"
proof (induction rule: node_run.induct)
  case (start b t nf np files k nd r)
  then show ?case using genesis_ok by blast
next
  case (block nd b t nd' r)
  show ?case by (rule AcceptBlock_ok [OF block.IH block.hyps(2-5) block.hyps(6)])
qed

lemma node_supply:
  assumes "node_ok E N nd"
  shows "total_value (nd_files nd) (nd_txdb nd) \<le> 2099999997690000"
proof -
  have "(\<Sum>k<nat (nBestHeight nd + 1). subsidy k) \<le> (\<Sum>k<210000 * 64. subsidy k)"
    using node_values [OF assms]
    by (intro sum_mono2) (auto simp: subsidy_def COIN_def pos_imp_zdiv_nonneg_iff)
  then show ?thesis using node_values [OF assms] sum_subsidy by simp
qed

section \<open>The main chain\<close>

lemma main_chain_iff:
  assumes ok: "node_ok E N nd" and c: "idx_of nd h = Some c"
  shows "IsInMainChain nd c \<longleftrightarrow> suffix c (pindexBest nd)"
proof -
  note I = node_okD(3,4) [OF ok]
  have best: "idx_of nd (hashBestChain nd) = Some (pindexBest nd)"
    using node_okD(5) [OF ok] by (simp add: best_in_index_def)
  have links: "pnext nd = chain_links (pindexBest nd)" using node_okD(6) [OF ok] by (simp add: best_connected_def)
  have cne: "c \<noteq> []" "phashBlock (hd c) = h" using keyedD [OF I(1) c] by simp_all
  show ?thesis
  proof
    assume "IsInMainChain nd c"
    moreover have "suffix c (pindexBest nd)" if "pnext nd (phashBlock (hd c)) \<noteq> None"
    proof -
      have "phashBlock (hd c) \<in> phashBlock ` set (tl (pindexBest nd))"
        using that dom_chain_links [of "pindexBest nd"] unfolding links by auto
      then obtain e where e: "e \<in> set (tl (pindexBest nd))" "phashBlock e = h" using cne(2) by auto
      then obtain d c' where "tl (pindexBest nd) = d @ e # c'" by (meson split_list)
      then have split: "pindexBest nd = (hd (pindexBest nd) # d) @ (e # c')"
        using best_ne [OF ok] by (cases "pindexBest nd") auto
      have "idx_of nd (phashBlock (hd (e # c'))) = Some (e # c')"
        using index_suffix [OF I(2,1), of "hashBestChain nd" "hd (pindexBest nd) # d" "e # c'"] best split by simp
      then have "c = e # c'" using c e(2) by simp
      then show ?thesis using split by (metis suffixI)
    qed
    ultimately show "suffix c (pindexBest nd)" by (auto simp: IsInMainChain_def)
  next
    assume "suffix c (pindexBest nd)"
    then obtain d where d: "pindexBest nd = d @ c" by (auto simp: suffix_def)
    show "IsInMainChain nd c"
    proof (cases "d = []")
      case False
      then have "hd c \<in> set (tl (pindexBest nd))" using d cne(1) by (cases d) auto
      then have "phashBlock (hd c) \<in> dom (chain_links (pindexBest nd))" by (simp add: dom_chain_links)
      then show ?thesis by (auto simp: IsInMainChain_def links)
    qed (simp add: IsInMainChain_def d)
  qed
qed

section \<open>Block locators\<close>

text \<open>A locator made from a block of the main chain leads back to it.\<close>

lemma locator_main:
  assumes "node_ok E N nd" "idx_of nd h = Some c" "suffix c (pindexBest nd)"
  shows "CBlockLocator_GetBlockIndex nd (CBlockLocator_Set g c) = c"
proof -
  obtain e c' where e: "c = e # c'" "phashBlock e = h" using in_index [OF assms(1,2)] by (cases c) auto
  then show ?thesis using assms main_chain_iff [OF assms(1,2)] by (simp add: CBlockLocator_Set_def)
qed

text \<open>
  From any block, what is found is of the main chain, and lies behind the block or is the
  genesis block.
\<close>

lemma locator_hashes_in: "h \<in> set (locator_hashes c k n) \<Longrightarrow> \<exists>c'. suffix c' c \<and> c' \<noteq> [] \<and> h = phashBlock (hd c')"
proof (induction c k n rule: locator_hashes.induct)
  case (2 e c k n)
  then consider "h = phashBlock e"
    | "h \<in> set (locator_hashes (drop (k - 1) c) (if 10 < Suc n then k * 2 else k) (Suc n))" by auto
  then show ?case
  proof cases
    case 1
    then show ?thesis by (intro exI [of _ "e # c"]) simp
  next
    case 2
    from "2.IH" [OF this] obtain c' where c': "suffix c' (drop (k - 1) c)" "c' \<noteq> []" "h = phashBlock (hd c')" by blast
    have "suffix c' (e # c)" using c'(1) suffix_drop suffix_order.trans suffix_ConsI by metis
    then show ?thesis using c' by blast
  qed
qed simp

lemma GetBlockIndex_cases:
  "CBlockLocator_GetBlockIndex nd hs = pindexGenesisBlock nd \<or>
    (\<exists>h \<in> set hs. idx_of nd h = Some (CBlockLocator_GetBlockIndex nd hs) \<and>
      IsInMainChain nd (CBlockLocator_GetBlockIndex nd hs))"
  by (induction hs) (auto split: option.split)

text \<open>A locator is short: after ten single steps, the steps double.\<close>

lemma locator_steps:
  "10 \<le> n \<Longrightarrow> 0 < k \<Longrightarrow> length c + k \<le> k * 2 ^ m \<Longrightarrow> length (locator_hashes c k n) \<le> m"
proof (induction m arbitrary: c k n)
  case (Suc m)
  show ?case
  proof (cases c)
    case (Cons e c')
    have "length (drop (k - 1) c') + k * 2 \<le> k * 2 * 2 ^ m"
    proof (cases "k - 1 \<le> length c'")
      case False
      then show ?thesis by simp
    next
      case True
      then show ?thesis using Suc.prems Cons by simp
    qed
    then have "length (locator_hashes (drop (k - 1) c') (k * 2) (Suc n)) \<le> m"
      using Suc.prems by (intro Suc.IH) simp_all
    then show ?thesis using Suc.prems Cons by simp
  qed simp
qed simp

lemma locator_first: "n + i = 10 \<Longrightarrow> length (locator_hashes c 1 n) \<le> i + length (locator_hashes (drop i c) 1 10)"
proof (induction i arbitrary: c n)
  case (Suc i)
  show ?case
  proof (cases c)
    case (Cons e c')
    then show ?thesis using Suc.IH [of "Suc n" c'] Suc.prems by simp
  qed simp
qed simp

lemma locator_length:
  assumes "length c < 2 ^ m"
  shows "length (CBlockLocator_Set g c) \<le> m + 11"
proof -
  have "length (locator_hashes (drop 10 c) 1 10) \<le> m" using assms by (intro locator_steps) simp_all
  then show ?thesis using locator_first [of 0 10 c] by (simp add: CBlockLocator_Set_def)
qed

end
