(* ===== verification/Chain_Examples.thy ===== *)
theory Chain_Examples
  imports Supply Mempool Examples
begin

text \<open>
  A concrete chain for the witnesses: a test network whose proof of work always hashes to
  zero, a first block with nothing but a coinbase, stored in a block file, and the view of a
  node that connects it on top of a genesis block.
\<close>

definition ex_net :: net_params where
  "ex_net = \<lparr>IsTestNet = True, nBenchRulesV4Time = 0, vmVerify = (\<lambda>v. Some (\<lambda>i. replicate 32 0))\<rparr>"

definition ex_coinbase :: CTransaction where
  "ex_coinbase = \<lparr>nVersion = 1,
     vin = [\<lparr>prevout = COutPoint_SetNull, scriptSig = [0x51, 0], nSequence = - 1\<rparr>],
     vout = [\<lparr>nValue = 50 * COIN, scriptPubKey = []\<rparr>], nLockTime = 0\<rparr>"

definition ex_block :: CBlock where
  "ex_block = \<lparr>blk_nVersion = 1, hashPrevBlock = 0, hashMerkleRoot = SerializeHash_tx ref_ext ex_coinbase,
     nTime = 1789992000, nBits = 0x1f0fffff, nNonce = 0, vtx = [ex_coinbase]\<rparr>"

definition ex_files :: "u32 \<Rightarrow> bytes option" where
  "ex_files n = (if n = 1 then Some (replicate 8 0 @ ser_CBlock ex_block) else None)"

definition ex_entry :: CBlockIndex where
  "ex_entry = \<lparr>phashBlock = GetHash ref_ext ex_block, nFile = 1, nBlockPos = 8, nHeight = 1,
     idx_nVersion = 1, idx_hashMerkleRoot = hashMerkleRoot ex_block, idx_nTime = nTime ex_block,
     idx_nBits = nBits ex_block, idx_nNonce = 0\<rparr>"

definition ex_genesis :: CBlockIndex where
  "ex_genesis = \<lparr>phashBlock = 0, nFile = 1, nBlockPos = 0, nHeight = 0, idx_nVersion = 1,
     idx_hashMerkleRoot = 0, idx_nTime = 1789990000, idx_nBits = 0x1f0fffff, idx_nNonce = 0\<rparr>"

definition ex_chain :: chain where "ex_chain = [ex_entry, ex_genesis]"

definition ex_view :: chain_view where
  "ex_view = \<lparr>viewFiles = ex_files, viewBlockAt = (\<lambda>k. None), viewPool = Map.empty,
     viewAdjustedTime = 1789992000, viewBest = [ex_genesis]\<rparr>"

lemma ex_coinbase [simp]: "IsCoinBase ex_coinbase"
  by (simp add: IsCoinBase_def ex_coinbase_def COutPoint_IsNull_def COutPoint_SetNull_def)

lemma ex_coinbase_sane: "tx_sane ex_coinbase"
  by (simp add: tx_sane_def, simp add: ex_coinbase_def MAX_MONEY_value COIN_def)

lemma ex_coinbase_wf: "wf_CTransaction ex_coinbase"
  by (simp add: wf_CTransaction_def ex_coinbase_def in_i32_def wf_CTxIn_def wf_CTxOut_def
      MAX_SIZE_def in_i64_def COIN_def)

lemma ex_block_wf: "wf_CBlock ex_block"
  by (simp add: wf_CBlock_def ex_block_def in_i32_def ex_coinbase_wf MAX_SIZE_def)

lemma ex_coinbase_size: "GetSerializeSize_CTransaction ex_coinbase = 62"
  by (simp add: ex_coinbase_def GetSerializeSize_CTransaction_def GetSerializeSize_vector_def
      GetSerializeSize_CTxIn_def GetSerializeSize_CTxOut_def GetSerializeSize_vch_def
      GetSizeOfCompactSize_def)

lemma ex_block_size: "GetSerializeSize_CBlock ex_block = 143"
  by (simp add: GetSerializeSize_CBlock_def ex_block_def GetSerializeSize_vector_def
      GetSizeOfCompactSize_def ex_coinbase_size)

lemma ex_target: "SetCompact ref_ext 0x1f0fffff = 2 ^ 244 - 2 ^ 224"
  by (simp add: openssl_bn.SetCompact [OF openssl_bn_ref])
    (simp add: compact_value_def compact_mag_def Let_def)

lemma ex_pow: "GetPoWHash ex_net ex_block = 0"
  by (simp add: GetPoWHash_def PoWHashHeader_def PoWInputFromHeader_def Let_def RandomXPoWHash_def
      EnsureKey_def PoWVersionAt_def ex_net_def uint256_of_bytes_def numeral_eq_Suc le_nat_def)

lemma ex_sigops_script: "GetSigOpCount v [] = 0" "GetSigOpCount v [0x51, 0] = 0"
  by (code_simp, code_simp)

lemma ex_sigops: "block_sigops ex_net ex_block = 0"
  by (simp add: block_sigops_def ex_block_def ex_coinbase_def tx_GetSigOpCount_def ex_sigops_script)

lemma ex_block_vtx [simp]: "vtx ex_block = [ex_coinbase]" "nTime ex_block = 1789992000"
  "nBits ex_block = 0x1f0fffff" "hashMerkleRoot ex_block = SerializeHash_tx ref_ext ex_coinbase"
  by (simp_all add: ex_block_def)

lemma ex_root: "root ref_ext [h] = h"
  by (subst root.simps) simp

lemma ex_CheckBlock: "CheckBlock ref_ext ex_net 1789992000 ex_block = Inr ()"
  unfolding CheckBlock_iff block_sane_def ex_block_size ex_sigops ex_pow
  by (simp add: ex_coinbase_sane ex_target bnProofOfWorkLimit_value tx_hashes_def
      MAX_BLOCK_SIZE_def ex_root)

lemma ex_stored: "stored ex_view ex_chain ex_block"
  by (simp add: stored_def ex_block_wf on_disk_def ex_block_size ex_view_def ex_files_def ex_chain_def
      ex_entry_def, rule exI [of _ "replicate 8 0"], simp)

definition ex_pos :: CDiskTxPos where
  "ex_pos = \<lparr>pos_nFile = 1, pos_nBlockPos = 8, pos_nTxPos = 89\<rparr>"

definition ex_db :: txdb where
  "ex_db = AddTxIndex ref_ext Map.empty ex_coinbase ex_pos"

lemma ex_first_pos: "first_tx_pos 8 ex_block = 89"
  by (simp add: first_tx_pos_def GetSerializeSize_CBlock_def CBlock_SetNull_def
      GetSerializeSize_vector_def GetSizeOfCompactSize_def)

lemma ex_ConnectBlock: "ConnectBlock ref_ext ex_net ex_view ex_chain ex_block Map.empty = Inr ex_db"
proof -
  have "GetValueOut ex_coinbase = Inr (50 * COIN)"
    by (simp add: GetValueOut_ok ex_coinbase_def COIN_def MAX_MONEY_value)
  moreover have "GetBlockValue 1 0 = Some (50 * COIN)"
    by (subst GetBlockValue_value) simp_all
  ultimately show ?thesis
    by (simp add: ConnectBlock_def ex_sigops Let_def bip30_conflict_def ReadTxIndex_def ConnectInputs_def
        ex_chain_def ex_entry_def block_ctx_def ex_first_pos ex_db_def ex_pos_def)
qed

lemma ex_rules: "RulesV2Active ex_net 1789992000"
  by (simp add: RulesV2Active_def RulesV2Time_def ex_net_def rule_times)

lemma ex_index_ok: "index_ok E files Map.empty"
  by (simp add: index_ok_def)

lemma ex_main_chain: "main_chain ref_ext ex_net ex_files 1 ex_db"
proof -
  have "main_chain ref_ext ex_net ex_files (Suc 0) ex_db"
    by (rule main_chain.extend [OF main_chain.genesis _ ex_stored _ ex_CheckBlock ex_ConnectBlock])
      (simp_all add: ex_view_def ex_chain_def ex_entry_def)
  then show ?thesis by simp
qed

text \<open>The placeholder hash of \<open>ref_ext\<close> keeps the first byte.\<close>

lemma toy_hash_Cons: "toy_hash (Suc k) (b # bs) = b # take k (bs @ replicate (Suc k) 0)"
  by (simp add: toy_hash_def)

lemma ref_hash_nonzero:
  assumes "b \<noteq> 0"
  shows "Hash ref_ext (b # bs) \<noteq> 0"
proof -
  obtain r where r: "SHA256 ref_ext (SHA256 ref_ext (b # bs)) = b # r" "length r = 31"
    by (simp add: ref_ext_def ext_with_def toy_hash_Cons [of 31, simplified] del: replicate_Suc)
  have "unat b + 256 * le_nat r < 2 ^ 256"
    using le_nat_bound [of "b # r"] r(2) by simp
  then have "unat (word_of_nat (unat b + 256 * le_nat r) :: uint256) = unat b + 256 * le_nat r"
    by (simp add: unat_of_nat del: of_nat_add of_nat_mult)
  moreover have "unat b \<noteq> 0" using assms by (simp add: unat_eq_zero)
  ultimately have "word_of_nat (unat b + 256 * le_nat r) \<noteq> (0 :: uint256)"
    by (metis add_is_0 unat_0)
  then show ?thesis by (simp add: Hash_def uint256_of_bytes_def r(1))
qed

lemma ex_GetHash: "GetHash ref_ext ex_block \<noteq> 0"
proof -
  have "Suc 3 = 4" by simp
  then have "le_bytes 4 1 = 1 # le_bytes 3 0" using le_bytes.simps(2) [of 3 1] by simp
  then have "block_header ex_block = 1 # tl (block_header ex_block)"
    by (simp add: block_header_def ser_int32_def ex_block_def u32_of_def)
  then show ?thesis unfolding GetHash_def by (metis ref_hash_nonzero one_neq_zero)
qed

definition ex_index :: "uint256 \<rightharpoonup> chain" where
  "ex_index = [0 \<mapsto> [ex_genesis]]"

lemma ex_height: "coinbase_has_height ref_ext 1 ex_block"
  by (simp add: coinbase_has_height_iff push_int64_def opcodes ex_coinbase_def)

lemma ex_AcceptBlock: "AcceptBlock_checks ref_ext ex_net ex_index ex_block = Inr [ex_genesis]"
proof -
  have "hashPrevBlock ex_block = 0" by (simp add: ex_block_def)
  moreover have "push_int64 ref_ext 1 = [0x51]"
    by (simp add: push_int64_def opcodes)
  moreover have "IsFinalAt ex_coinbase h t" for h t
    by (simp add: IsFinalAt_def ex_coinbase_def)
  ultimately show ?thesis
    by (simp add: AcceptBlock_checks_iff ex_index_def ex_GetHash GetMedianTimePast_def Let_def
        nMedianTimeSpan_def GetNextWorkRequired_keep coinbase_has_height_iff ex_genesis_def)
      (simp add: ex_coinbase_def)
qed

text \<open>Chains at a retarget height, the second with a last block stamped before the first.\<close>

definition ex_boundary :: chain where
  "ex_boundary = ex_genesis\<lparr>nHeight := 29\<rparr> # replicate 30 ex_genesis"

definition ex_backwards :: chain where
  "ex_backwards = ex_genesis\<lparr>nHeight := 29, idx_nTime := 1789980000\<rparr> # replicate 30 ex_genesis"

section \<open>A memory pool\<close>

definition ex_pool :: mempool where
  "ex_pool = \<lparr>pool = fmempty, mapNextTx = fmempty, nTransactionsUpdated = 0\<rparr>"

definition ex_pool_tx :: CTransaction where
  "ex_pool_tx = \<lparr>nVersion = 1,
     vin = [\<lparr>prevout = \<lparr>out_hash = 7, out_n = 0\<rparr>, scriptSig = [], nSequence = 0\<rparr>],
     vout = [\<lparr>nValue = 0, scriptPubKey = [0x6a]\<rparr>], nLockTime = 0\<rparr>"

definition ex_accept :: accept_view where
  "ex_accept = \<lparr>avFiles = ex_files, avBlockAt = (\<lambda>k. None), avAdjustedTime = 1789992000,
     avBest = [ex_genesis]\<rparr>"

lemma ex_pool_ok: "pool_ok E ex_pool"
  by (simp add: pool_ok_def ex_pool_def)

lemma ex_null_data: "IsNullData [0x6a]" "GetSigOpCount v [0x6a] = 0" "IsPushOnly []"
  by (code_simp, code_simp, code_simp)

lemma ex_pool_tx_plain: "\<not> IsCoinBase ex_pool_tx" "tx_sane ex_pool_tx"
proof -
  show "\<not> IsCoinBase ex_pool_tx"
    by (simp add: IsCoinBase_def ex_pool_tx_def COutPoint_IsNull_def)
  then show "tx_sane ex_pool_tx"
    by (simp add: tx_sane_def, simp add: ex_pool_tx_def MAX_MONEY_value COutPoint_IsNull_def)
qed

lemma ex_pool_tx_standard: "IsStandard v3 ex_pool_tx"
  by (simp add: IsStandard_def ex_pool_tx_def GetSerializeSize_CTransaction_def GetSerializeSize_vector_def
      GetSerializeSize_CTxIn_def GetSerializeSize_CTxOut_def GetSerializeSize_vch_def
      GetSizeOfCompactSize_def MAX_STANDARD_TX_SIZE_def MAX_OP_RETURN_RELAY_def ex_null_data)

lemma ex_AcceptTransaction:
  "AcceptTransaction ref_ext ex_net ex_accept Map.empty False ex_pool_tx ex_pool =
    Inr (AddToMemoryPool ref_ext ex_pool_tx ex_pool, [])"
proof -
  have "conflicts ex_pool ex_pool_tx = []" by (simp add: conflicts_def ex_pool_def List.map_filter_def)
  moreover have "tx_GetSigOpCount v ex_pool_tx = 0" for v
    by (simp add: tx_GetSigOpCount_def ex_pool_tx_def ex_null_data ex_sigops_script)
  ultimately show ?thesis
    by (simp add: AcceptTransaction_def Let_def ex_pool_tx_plain CheckTransaction_iff ex_pool_tx_standard
        check_inputs_def store_tx_def)
      (simp add: ex_pool_def)
qed

end
