(* ===== verification/Node_Examples.thy ===== *)
theory Node_Examples
  imports NodeProps Chain_Examples
begin

text \<open>
  A node that has only the genesis block, about to be given the first block.
\<close>

definition ex_node :: node where
  "ex_node =
    \<lparr>mapBlockIndex = fmupd 0 [ex_genesis] fmempty, pnext = Map.empty, pindexGenesisBlock = [ex_genesis],
     pindexBest = [ex_genesis], hashBestChain = 0, nBestHeight = 0, nd_txdb = Map.empty,
     nd_files = (\<lambda>n. None), nCurrentBlockFile = 1, nd_pool = ex_pool,
     mapOrphanBlocks = fmempty, mapOrphanBlocksByPrev = []\<rparr>"

lemma ex_node_sel [simp]:
  "idx_of ex_node = [0 \<mapsto> [ex_genesis]]" "pindexBest ex_node = [ex_genesis]" "hashBestChain ex_node = 0"
  "nd_files ex_node = (\<lambda>n. None)" "nd_txdb ex_node = Map.empty" "mapOrphanBlocks ex_node = fmempty"
  "mapOrphanBlocksByPrev ex_node = []" "nBestHeight ex_node = 0" "pnext ex_node = Map.empty"
  by (simp_all add: ex_node_def fmlookup_fmupd) (rule ext, simp)

lemma ex_node_ok: "node_ok E N ex_node"
proof -
  have g: "phashBlock ex_genesis = 0" "nHeight ex_genesis = 0" by (simp_all add: ex_genesis_def)
  have "index_good E N (nd_files ex_node) (idx_of ex_node)"
    by (auto simp: index_good_def part_good_def keyed_def stored_index_def apart_index_def no_dangling_def
        g split: if_split_asm)
  moreover have "best_in_index ex_node"
    by (auto simp: best_in_index_def g ex_node_def split: if_split_asm)
  moreover have "best_connected E N ex_node"
    using connected.genesis [of ex_genesis E N CBlock_SetNull] g
    by (auto simp: best_connected_def H_stored_def intro!: exI [of _ "[(ex_genesis, CBlock_SetNull)]"])
  ultimately show ?thesis by (simp add: node_ok_def)
qed

lemma ex_prev [simp]: "hashPrevBlock ex_block = 0" by (simp add: ex_block_def)

lemma ex_new_hashes: "new_hashes ref_ext ex_net ex_node ex_block"
proof -
  have "butlast H = []" if "map fst H = [ex_genesis]" for H :: history
    using that by (cases H) auto
  then show ?thesis by (simp add: new_hashes_def tx_hashes_def)
qed

lemma ex_orphans_ok: "orphans_ok ref_ext ex_node"
  by (simp add: orphans_ok_def same_orphans_def fcard_fempty)

end
