(* ===== verification/Payouts.thy ===== *)
theory Payouts
  imports Transaction "HOL-Library.Finite_Map" "HOL-Library.List_Lexorder" "HOL-Library.Multiset"
begin

text \<open>
  How a P2Pool block pays its window (\<^verbatim>\<open>p2pool.cpp\<close>): every node must compute the same list,
  to the satoshi.  A \<^verbatim>\<open>std::map\<close> keyed by scripts is a finite map iterated in the
  lexicographic order of its keys; the 128 bit unsigned arithmetic wraps where it is done.
\<close>

definition WINDOW_SHARES :: nat where "WINDOW_SHARES = 2160"

record WindowShare =
  payoutScript :: bytes
  ws_work :: nat

record Payout =
  pay_script :: bytes
  pay_value :: int

datatype payout_error = EmptyWindow | BlockValueOutOfRange | NoScriptOrNoWork

definition u128 :: "nat \<Rightarrow> nat" where "u128 n = n mod 2 ^ 128"

fun tally :: "WindowShare list \<Rightarrow> (bytes, nat) fmap \<Rightarrow> nat \<Rightarrow> ((bytes, nat) fmap \<times> nat) option" where
  "tally [] work nTotal = Some (work, nTotal)"
| "tally (w # window) work nTotal =
    (if payoutScript w = [] \<or> ws_work w = 0 then None
     else tally window
       (fmupd (payoutScript w)
         (u128 ((case fmlookup work (payoutScript w) of None \<Rightarrow> 0 | Some n \<Rightarrow> n) + ws_work w)) work)
       (u128 (nTotal + ws_work w)))"

definition share_of :: "int \<Rightarrow> nat \<Rightarrow> bytes \<times> nat \<Rightarrow> Payout" where
  "share_of nAmount nTotal it =
    \<lparr>pay_script = fst it, pay_value = i64 (int (u128 (nat nAmount * snd it) div nTotal))\<rparr>"

fun best_of :: "bytes \<times> nat \<Rightarrow> (bytes \<times> nat) list \<Rightarrow> bytes \<times> nat" where
  "best_of best [] = best"
| "best_of best (it # rest) = best_of (if snd best < snd it then it else best) rest"

definition give :: "bytes \<Rightarrow> int \<Rightarrow> Payout \<Rightarrow> Payout" where
  "give script left p = (if pay_script p = script then p\<lparr>pay_value := i64 (pay_value p + left)\<rparr> else p)"

definition ComputePayouts :: "WindowShare list \<Rightarrow> int \<Rightarrow> payout_error + Payout list" where
  "ComputePayouts window nAmount =
    (if window = [] then Inl EmptyWindow
     else if nAmount < 0 \<or> 2 ^ 51 \<le> nAmount then Inl BlockValueOutOfRange
     else case tally window fmempty 0 of
       None \<Rightarrow> Inl NoScriptOrNoWork
     | Some (work, nTotal) \<Rightarrow>
         let items = sorted_list_of_fmap work;
             out = map (share_of nAmount nTotal) items;
             paid = foldl (\<lambda>paid p. i64 (paid + pay_value p)) 0 out;
             best = best_of (hd items) (tl items)
         in Inr (map (give (fst best) (i64 (nAmount - paid))) out))"

section \<open>What the tally holds\<close>

definition script_work :: "WindowShare list \<Rightarrow> bytes \<Rightarrow> nat" where
  "script_work window s = sum_list (map ws_work (filter (\<lambda>w. payoutScript w = s) window))"

abbreviation total_work :: "WindowShare list \<Rightarrow> nat" where
  "total_work window \<equiv> sum_list (map ws_work window)"

definition good_window :: "WindowShare list \<Rightarrow> bool" where
  "good_window window \<longleftrightarrow> (\<forall>w \<in> set window. payoutScript w \<noteq> [] \<and> ws_work w \<noteq> 0)"

lemma u128_add [simp]: "u128 (u128 a + b) = u128 (a + b)" "u128 (a + u128 b) = u128 (a + b)"
  by (simp_all add: u128_def mod_simps)

lemma tally_None: "tally window m t = None \<longleftrightarrow> \<not> good_window window"
  by (induction window m t rule: tally.induct) (auto simp: good_window_def)

lemma tally_Some:
  "tally window m t = Some (m', t') \<Longrightarrow>
    (window \<noteq> [] \<longrightarrow> t' = u128 (t + total_work window)) \<and>
    fmlookup m' s = (if s \<in> payoutScript ` set window
      then Some (u128 ((case fmlookup m s of None \<Rightarrow> 0 | Some n \<Rightarrow> n) + script_work window s))
      else fmlookup m s)"
proof (induction window m t rule: tally.induct)
  case (2 w window m t)
  define m1 where "m1 = fmupd (payoutScript w)
    (u128 ((case fmlookup m (payoutScript w) of None \<Rightarrow> 0 | Some n \<Rightarrow> n) + ws_work w)) m"
  have ok: "\<not> (payoutScript w = [] \<or> ws_work w = 0)" using 2(2) by (auto split: if_split_asm)
  have run: "tally window m1 (u128 (t + ws_work w)) = Some (m', t')" using 2(2) ok by (simp add: m1_def)
  have IH: "(window \<noteq> [] \<longrightarrow> t' = u128 (u128 (t + ws_work w) + total_work window)) \<and>
    fmlookup m' s = (if s \<in> payoutScript ` set window
      then Some (u128 ((case fmlookup m1 s of None \<Rightarrow> 0 | Some n \<Rightarrow> n) + script_work window s))
      else fmlookup m1 s)"
    by (rule 2(1) [OF ok, folded m1_def, OF run])
  have t': "t' = u128 (t + total_work (w # window))"
    using IH run by (cases "window = []") (simp_all add: add.assoc)
  have sw: "script_work (w # window) s = (if payoutScript w = s then ws_work w else 0) + script_work window s"
    by (simp add: script_work_def)
  have none: "script_work window s = 0" if "s \<notin> payoutScript ` set window"
    using that by (auto simp: script_work_def filter_empty_conv)
  have "fmlookup m' s = (if s \<in> payoutScript ` set (w # window)
      then Some (u128 ((case fmlookup m s of None \<Rightarrow> 0 | Some n \<Rightarrow> n) + script_work (w # window) s))
      else fmlookup m s)"
    using IH none unfolding sw by (cases "payoutScript w = s") (auto simp: m1_def add.assoc)
  then show ?case using t' by blast
qed simp

text \<open>The tally is decided by what is in the window, not by its order.\<close>

lemma tally_perm:
  assumes "mset window = mset window'"
  shows "tally window fmempty 0 = tally window' fmempty 0"
proof -
  have sets: "set window = set window'" using assms by (rule mset_eq_setD)
  have sums: "total_work window = total_work window'" "script_work window s = script_work window' s" for s
    unfolding script_work_def sum_mset_sum_list [symmetric] mset_map mset_filter assms by simp_all
  show ?thesis
  proof (cases "good_window window")
    case False
    then have "\<not> good_window window'" using sets by (simp add: good_window_def)
    then show ?thesis using False tally_None by metis
  next
    case True
    then have "good_window window'" using sets by (simp add: good_window_def)
    then obtain m t m' t' where T: "tally window fmempty 0 = Some (m, t)" "tally window' fmempty 0 = Some (m', t')"
      using True tally_None by (metis not_None_eq surj_pair)
    have "m = m'"
    proof (rule fmap_ext)
      fix s show "fmlookup m s = fmlookup m' s"
        using tally_Some [OF T(1), of s] tally_Some [OF T(2), of s] by (simp add: sets sums)
    qed
    moreover have "t = t'"
      
    proof (cases "window = []")
      case False
      then have "window' \<noteq> []" using sets by auto
      then show ?thesis using tally_Some [OF T(1)] tally_Some [OF T(2)] False sums(1) by simp
    qed (use T assms in auto)
    ultimately show ?thesis using T by simp
  qed
qed

lemma ComputePayouts_perm:
  assumes "mset window = mset window'"
  shows "ComputePayouts window nAmount = ComputePayouts window' nAmount"
proof -
  have "window = [] \<longleftrightarrow> window' = []" using assms by auto
  then show ?thesis unfolding ComputePayouts_def tally_perm [OF assms] by simp
qed

section \<open>Dividing without losing anything\<close>

lemma floors_sum:
  fixes v T :: nat
  assumes "0 < T"
  shows "(\<Sum>w\<leftarrow>ws. v * w div T) * T \<le> v * sum_list ws \<and>
    v * sum_list ws \<le> (\<Sum>w\<leftarrow>ws. v * w div T) * T + length ws * (T - 1)"
proof (induction ws)
  case (Cons w ws)
  have "v * w = v * w div T * T + v * w mod T" by simp
  moreover have "v * w mod T \<le> T - 1" using assms by (metis Suc_pred' less_Suc_eq_le mod_less_divisor)
  ultimately have w: "v * w div T * T \<le> v * w" "v * w \<le> v * w div T * T + (T - 1)" by linarith+
  have "(\<Sum>w\<leftarrow>w # ws. v * w div T) * T = v * w div T * T + (\<Sum>w\<leftarrow>ws. v * w div T) * T"
    "v * sum_list (w # ws) = v * w + v * sum_list ws" "length (w # ws) * (T - 1) = (T - 1) + length ws * (T - 1)"
    by (simp_all add: add_mult_distrib add_mult_distrib2)
  then show ?case using Cons w by linarith
qed simp

lemma floors_bounds:
  fixes v T :: nat
  assumes "0 < T" "sum_list ws = T" "ws \<noteq> []"
  shows "(\<Sum>w\<leftarrow>ws. v * w div T) \<le> v \<and> v < (\<Sum>w\<leftarrow>ws. v * w div T) + length ws"
proof
  let ?S = "\<Sum>w\<leftarrow>ws. v * w div T"
  have F: "?S * T \<le> v * T" "v * T \<le> ?S * T + length ws * (T - 1)"
    using floors_sum [OF assms(1), of v ws] assms(2) by simp_all
  show "?S \<le> v" using F(1) assms(1) by simp
  have "length ws * (T - 1) < length ws * T" using assms(1,3) by simp
  then have "v * T < ?S * T + length ws * T" using F(2) by (rule order.strict_trans1 [rotated, OF add_strict_left_mono])
  then have "v * T < (?S + length ws) * T" by (simp add: distrib_right)
  then show "v < ?S + length ws" by simp
qed

lemma best_of_in: "best_of b xs \<in> set (b # xs)"
  by (induction b xs rule: best_of.induct) auto

lemma best_of_max: "x \<in> set (b # xs) \<Longrightarrow> snd x \<le> snd (best_of b xs)"
proof (induction b xs arbitrary: x rule: best_of.induct)
  case (2 b y ys)
  define c where "c = (if snd b < snd y then y else b)"
  have c: "snd b \<le> snd c" "snd y \<le> snd c" by (simp_all add: c_def)
  have IH: "snd z \<le> snd (best_of c ys)" if "z \<in> set (c # ys)" for z
    using 2(1) that by (simp add: c_def)
  have "best_of b (y # ys) = best_of c ys" by (simp add: c_def)
  then show ?case using 2(2) IH [of x] IH [of c] c by auto
qed simp

section \<open>What is paid\<close>

lemma script_work_sum:
  "finite A \<Longrightarrow> payoutScript ` set window \<subseteq> A \<Longrightarrow> (\<Sum>s\<in>A. script_work window s) = total_work window"
proof (induction window)
  case (Cons w window)
  have "script_work (w # window) s = (if s = payoutScript w then ws_work w else 0) + script_work window s" for s
    by (auto simp: script_work_def)
  then have "(\<Sum>s\<in>A. script_work (w # window) s) =
      (\<Sum>s\<in>A. if s = payoutScript w then ws_work w else 0) + (\<Sum>s\<in>A. script_work window s)"
    by (simp add: sum.distrib)
  also have "(\<Sum>s\<in>A. if s = payoutScript w then ws_work w else 0) = ws_work w"
    using Cons.prems by (simp add: sum.delta)
  finally show ?case using Cons by simp
qed (simp add: script_work_def)

lemma total_work_bound:
  assumes "\<forall>w \<in> set window. ws_work w < 2 ^ 64" "length window \<le> 2 ^ 13"
  shows "total_work window < 2 ^ 77"
proof -
  have "total_work window \<le> length window * (2 ^ 64 - 1)"
    using assms(1) by (induction window) auto
  also have "\<dots> \<le> 2 ^ 13 * (2 ^ 64 - 1)" using assms(2) by (rule mult_le_mono1)
  finally show ?thesis by simp
qed

lemma script_work_le: "script_work window s \<le> total_work window"
  by (induction window) (auto simp: script_work_def)

lemma good_window_pos: "good_window window \<Longrightarrow> window \<noteq> [] \<Longrightarrow> 0 < total_work window"
  by (cases window) (auto simp: good_window_def)

text \<open>The items of the map, and the exact share of each.\<close>

definition scripts_of :: "WindowShare list \<Rightarrow> bytes list" where
  "scripts_of window = sorted_list_of_set (payoutScript ` set window)"

definition floor_share :: "WindowShare list \<Rightarrow> int \<Rightarrow> bytes \<Rightarrow> nat" where
  "floor_share window v s = nat v * script_work window s div total_work window"

lemma tally_items:
  assumes "tally window fmempty 0 = Some (work, T)" "window \<noteq> []" "\<forall>w \<in> set window. ws_work w < 2 ^ 64"
    and "length window \<le> 2 ^ 13"
  shows "sorted_list_of_fmap work = map (\<lambda>s. (s, script_work window s)) (scripts_of window)"
    and "T = total_work window"
proof -
  have B: "total_work window < 2 ^ 128" using total_work_bound [OF assms(3,4)] by simp
  then have u: "u128 (script_work window s) = script_work window s" for s
    using script_work_le [of window s] by (simp add: u128_def)
  have L: "fmlookup work s = (if s \<in> payoutScript ` set window then Some (script_work window s) else None)" for s
    using tally_Some [OF assms(1), of s] by (simp add: u)
  have "fset (fmdom work) = payoutScript ` set window"
    using L by (auto simp: fmlookup_dom_iff split: if_split_asm)
  then have "sorted_list_of_fset (fmdom work) = scripts_of window"
    by (simp add: scripts_of_def sorted_list_of_fset.rep_eq)
  then show "sorted_list_of_fmap work = map (\<lambda>s. (s, script_work window s)) (scripts_of window)"
    by (auto simp: sorted_list_of_fmap_def L scripts_of_def)
  show "T = total_work window" using tally_Some [OF assms(1)] assms(2) B by (simp add: u128_def)
qed

lemma share_of_exact:
  assumes "0 \<le> v" "v < 2 ^ 51" "\<forall>w \<in> set window. ws_work w < 2 ^ 64" "length window \<le> 2 ^ 13"
  shows "share_of v (total_work window) (s, script_work window s) =
    \<lparr>pay_script = s, pay_value = int (floor_share window v s)\<rparr>"
proof -
  have "nat v < 2 ^ 51" using assms(1,2) by (simp add: nat_less_iff)
  moreover have "script_work window s < 2 ^ 77"
    using total_work_bound [OF assms(3,4)] script_work_le [of window s] by (rule order.strict_trans1 [rotated])
  ultimately have "nat v * script_work window s < 2 ^ 51 * 2 ^ 77" by (rule mult_strict_mono) simp_all
  then have u: "u128 (nat v * script_work window s) = nat v * script_work window s"
    by (simp add: u128_def)
  have "floor_share window v s \<le> nat v"
  proof (cases "total_work window = 0")
    case False
    then have "nat v * script_work window s div total_work window \<le> nat v * total_work window div total_work window"
      using script_work_le [of window s] by (intro div_le_mono mult_le_mono2)
    then show ?thesis using False by (simp add: floor_share_def)
  next
    case True
    then show ?thesis unfolding floor_share_def by (simp only: div_by_0)
  qed
  then have "in_i64 (int (floor_share window v s))" using assms(1,2) unfolding in_i64_def by (simp add: le_nat_iff)
  then show ?thesis unfolding share_of_def fst_conv snd_conv u floor_share_def [symmetric] by (simp add: i64_id)
qed

text \<open>The outputs of a window that is paid.\<close>

lemma int_sum_list: "int (sum_list (map f xs)) = (\<Sum>x\<leftarrow>xs. int (f x))"
  by (induction xs) simp_all


definition paid_out :: "WindowShare list \<Rightarrow> int \<Rightarrow> bytes \<Rightarrow> bytes \<Rightarrow> int" where
  "paid_out window v best s =
    int (floor_share window v s) +
    (if s = best then v - int (\<Sum>s\<leftarrow>scripts_of window. floor_share window v s) else 0)"

lemma scripts_of: "distinct (scripts_of window)" "set (scripts_of window) = payoutScript ` set window"
  "sorted (scripts_of window)"
  by (simp_all add: scripts_of_def)

lemma floor_share_sum:
  assumes "good_window window" "window \<noteq> []" "0 \<le> v"
  shows "int (\<Sum>s\<leftarrow>scripts_of window. floor_share window v s) \<le> v \<and>
    v < int (\<Sum>s\<leftarrow>scripts_of window. floor_share window v s) + int (length (scripts_of window))"
proof -
  let ?ws = "map (script_work window) (scripts_of window)"
  have "sum_list ?ws = (\<Sum>s\<in>set (scripts_of window). script_work window s)"
    by (simp add: sum_list_distinct_conv_sum_set scripts_of(1))
  then have "sum_list ?ws = total_work window" by (simp add: scripts_of(2) script_work_sum)
  moreover have "?ws \<noteq> []" using assms(2) scripts_of(2) [of window] by auto
  ultimately have "(\<Sum>w\<leftarrow>?ws. nat v * w div total_work window) \<le> nat v \<and>
      nat v < (\<Sum>w\<leftarrow>?ws. nat v * w div total_work window) + length ?ws"
    using good_window_pos [OF assms(1,2)] by (intro floors_bounds)
  then show ?thesis using assms(3) by (simp add: floor_share_def [abs_def] comp_def) linarith
qed

lemma foldl_paid:
  "(\<forall>p \<in> set ps. 0 \<le> pay_value p) \<Longrightarrow> 0 \<le> a \<Longrightarrow> a + sum_list (map pay_value ps) < 2 ^ 63 \<Longrightarrow>
    foldl (\<lambda>paid p. i64 (paid + pay_value p)) a ps = a + sum_list (map pay_value ps)"
proof (induction ps arbitrary: a)
  case (Cons p ps)
  have nn: "0 \<le> sum_list (map pay_value ps)" using Cons.prems(1) by (intro sum_list_nonneg) auto
  have "0 \<le> a + pay_value p" using Cons.prems by simp
  moreover have "a + pay_value p < 2 ^ 63" using Cons.prems nn by simp
  ultimately have "i64 (a + pay_value p) = a + pay_value p" by (intro i64_id) (simp add: in_i64_def)
  then show ?case using Cons by (simp add: add.assoc)
qed simp

lemma ComputePayouts_value:
  assumes run: "ComputePayouts window v = Inr out"
    and work: "\<forall>w \<in> set window. ws_work w < 2 ^ 64" and len: "length window \<le> 2 ^ 13"
  shows "\<exists>best \<in> payoutScript ` set window. (\<forall>s. script_work window s \<le> script_work window best) \<and>
    out = map (\<lambda>s. \<lparr>pay_script = s, pay_value = paid_out window v best s\<rparr>) (scripts_of window)"
    and "good_window window \<and> window \<noteq> [] \<and> 0 \<le> v \<and> v < 2 ^ 51"
proof -
  have W: "window \<noteq> []" "0 \<le> v" "v < 2 ^ 51"
    using run by (auto simp: ComputePayouts_def split: if_split_asm)
  obtain m T where T: "tally window fmempty 0 = Some (m, T)"
    using run W by (auto simp: ComputePayouts_def split: option.split_asm)
  have good: "good_window window" using T tally_None by (metis option.distinct(1))
  show "good_window window \<and> window \<noteq> [] \<and> 0 \<le> v \<and> v < 2 ^ 51" using good W by blast
  note items = tally_items [OF T W(1) work len]
  define F where "F = (\<Sum>s\<leftarrow>scripts_of window. floor_share window v s)"
  have F: "int F \<le> v" "v < int F + int (length (scripts_of window))"
    using floor_share_sum [OF good W(1,2)] by (simp_all only: F_def)
  let ?sh = "\<lambda>s. \<lparr>pay_script = s, pay_value = int (floor_share window v s)\<rparr>"
  define best where "best = fst (best_of (hd (sorted_list_of_fmap m)) (tl (sorted_list_of_fmap m)))"
  have ne: "sorted_list_of_fmap m \<noteq> []" using W(1) scripts_of(2) [of window] by (auto simp: items(1))
  then have I: "hd (sorted_list_of_fmap m) # tl (sorted_list_of_fmap m) = sorted_list_of_fmap m" by simp
  have B: "best_of (hd (sorted_list_of_fmap m)) (tl (sorted_list_of_fmap m)) \<in> set (sorted_list_of_fmap m)"
    using best_of_in [of "hd (sorted_list_of_fmap m)" "tl (sorted_list_of_fmap m)"] unfolding I .
  then have in_b: "best \<in> payoutScript ` set window" 
    "snd (best_of (hd (sorted_list_of_fmap m)) (tl (sorted_list_of_fmap m))) = script_work window best"
    by (auto simp: items(1) best_def scripts_of(2))
  have mx: "script_work window s \<le> script_work window best" for s
  proof (cases "s \<in> payoutScript ` set window")
    case True
    then have "(s, script_work window s) \<in> set (sorted_list_of_fmap m)" by (simp add: items(1) scripts_of(2))
    then show ?thesis
      using best_of_max [of "(s, script_work window s)" "hd (sorted_list_of_fmap m)" "tl (sorted_list_of_fmap m)"]
      unfolding I in_b(2) by simp
  next
    case False
    then have "filter (\<lambda>w. payoutScript w = s) window = []" by (auto simp: filter_empty_conv)
    then show ?thesis by (simp add: script_work_def)
  qed
  have outs: "map (share_of v T) (sorted_list_of_fmap m) = map ?sh (scripts_of window)"
    by (simp add: items share_of_exact [OF W(2,3) work len])
  have "out = map (give best (i64 (v - foldl (\<lambda>paid p. i64 (paid + pay_value p)) 0
      (map (share_of v T) (sorted_list_of_fmap m))))) (map (share_of v T) (sorted_list_of_fmap m))"
    using run W T by (simp add: ComputePayouts_def Let_def best_def)
  moreover have "foldl (\<lambda>paid p. i64 (paid + pay_value p)) 0 (map ?sh (scripts_of window)) = int F"
    using F W(3) by (subst foldl_paid) (simp_all add: F_def comp_def int_sum_list)
  ultimately have "out = map (give best (i64 (v - int F))) (map ?sh (scripts_of window))"
    by (simp only: outs)
  moreover have "i64 (v - int F) = v - int F" using F W by (intro i64_id) (simp add: in_i64_def)
  moreover have "give best (v - int F) (?sh s) = \<lparr>pay_script = s, pay_value = paid_out window v best s\<rparr>"
    if "s \<in> set (scripts_of window)" for s
  proof -
    have "floor_share window v s \<le> F"
      unfolding F_def using that by (intro member_le_sum_list) auto
    then have "i64 (int (floor_share window v s) + (v - int F)) = int (floor_share window v s) + (v - int F)"
      using F W by (intro i64_id) (simp add: in_i64_def)
    then show ?thesis by (cases "s = best") (simp_all add: give_def paid_out_def flip: F_def)
  qed
  ultimately show "\<exists>best \<in> payoutScript ` set window. (\<forall>s. script_work window s \<le> script_work window best) \<and>
      out = map (\<lambda>s. \<lparr>pay_script = s, pay_value = paid_out window v best s\<rparr>) (scripts_of window)"
    using in_b(1) mx by (intro bexI [of _ best]) auto
qed

text \<open>Everything is paid, in the order of the scripts, and nobody is off by a unit per output.\<close>

lemma ComputePayouts_exact:
  assumes run: "ComputePayouts window v = Inr out"
    and work: "\<forall>w \<in> set window. ws_work w < 2 ^ 64" and len: "length window \<le> 2 ^ 13"
  shows "sum_list (map pay_value out) = v \<and> map pay_script out = scripts_of window \<and>
    (\<forall>p \<in> set out. int (floor_share window v (pay_script p)) \<le> pay_value p \<and>
      pay_value p < int (floor_share window v (pay_script p)) + int (length out))"
proof -
  obtain best where best: "best \<in> payoutScript ` set window"
    "out = map (\<lambda>s. \<lparr>pay_script = s, pay_value = paid_out window v best s\<rparr>) (scripts_of window)"
    using ComputePayouts_value(1) [OF assms] by blast
  define F where "F = (\<Sum>s\<leftarrow>scripts_of window. floor_share window v s)"
  have F: "int F \<le> v" "v < int F + int (length (scripts_of window))"
    using floor_share_sum [of window v] ComputePayouts_value(2) [OF assms] by (simp_all add: F_def)
  have P: "paid_out window v best s = int (floor_share window v s) + (if s = best then v - int F else 0)" for s
    by (simp add: paid_out_def F_def)
  have "sum_list (map pay_value out) =
      (\<Sum>s\<leftarrow>scripts_of window. int (floor_share window v s)) +
      (\<Sum>s\<leftarrow>scripts_of window. if s = best then v - int F else 0)"
    by (simp add: best(2) P comp_def sum_list_addf)
  also have "(\<Sum>s\<leftarrow>scripts_of window. if s = best then v - int F else 0) = v - int F"
    using best(1) by (simp add: sum_list_distinct_conv_sum_set scripts_of sum.delta)
  finally have "sum_list (map pay_value out) = v" by (simp add: F_def int_sum_list comp_def)
  moreover have "map pay_script out = scripts_of window" by (simp add: best(2) comp_def)
  moreover have "int (floor_share window v (pay_script p)) \<le> pay_value p \<and>
      pay_value p < int (floor_share window v (pay_script p)) + int (length out)" if "p \<in> set out" for p
  proof -
    have "0 < length (scripts_of window)" using that by (auto simp: best(2))
    then show ?thesis using that F by (auto simp: best(2) paid_out_def F_def)
  qed
  ultimately show ?thesis by blast
qed

end
