(* ===== verification/Share.thy ===== *)
theory Share
  imports Payouts Block
begin

text \<open>
  A P2Pool share (\<^verbatim>\<open>p2pool_share.h\<close>, \<^verbatim>\<open>p2pool_share.cpp\<close>): a block header whose work meets the
  easier target of the share chain, with the coinbase, its Merkle branch and the data the
  coinbase commits to.  A check returns the reason of a refusal.
\<close>

definition MAX_UNCLES :: nat where "MAX_UNCLES = 2"
definition MAX_SHARE_HEIGHT :: nat where "MAX_SHARE_HEIGHT = 2 ^ 30"
definition MAX_BLOCK_HEIGHT :: int where "MAX_BLOCK_HEIGHT = 10000000"

record ShareData =
  hashPrevShare :: uint256
  vUncles :: "uint256 list"
  nShareHeight :: u32
  nShareBits :: u32
  sd_payoutScript :: bytes

definition ser_ShareData :: "ShareData \<Rightarrow> bytes" where
  "ser_ShareData d =
    ser_uint256 (hashPrevShare d) @ Serialize_vector ser_uint256 (vUncles d) @
    ser_u32 (nShareHeight d) @ ser_u32 (nShareBits d) @ Serialize_vch (sd_payoutScript d)"

definition unser_ShareData :: "bytes \<Rightarrow> (ShareData \<times> bytes) option" where
  "unser_ShareData s =
    (case unser_uint256 s of None \<Rightarrow> None
     | Some (p, r1) \<Rightarrow> (case Unserialize_vector unser_uint256 r1 of None \<Rightarrow> None
       | Some (us, r2) \<Rightarrow> (case unser_u32 r2 of None \<Rightarrow> None
         | Some (h, r3) \<Rightarrow> (case unser_u32 r3 of None \<Rightarrow> None
           | Some (c, r4) \<Rightarrow> (case Unserialize_vch r4 of None \<Rightarrow> None
             | Some (ps, r5) \<Rightarrow>
                 Some (\<lparr>hashPrevShare = p, vUncles = us, nShareHeight = h, nShareBits = c,
                   sd_payoutScript = ps\<rparr>, r5))))))"

definition GetSerializeSize_ShareData :: "ShareData \<Rightarrow> nat" where
  "GetSerializeSize_ShareData d =
    32 + GetSerializeSize_vector (\<lambda>_. 32) (vUncles d) + 8 + GetSerializeSize_vch (sd_payoutScript d)"

definition ShareData_GetHash :: "ext \<Rightarrow> ShareData \<Rightarrow> uint256" where
  "ShareData_GetHash E d = Hash E (ser_ShareData d)"

record Share =
  sh_nVersion :: int
  sh_hashPrevBlock :: uint256
  sh_hashMerkleRoot :: uint256
  sh_nTime :: u32
  sh_nBits :: u32
  sh_nNonce :: u32
  coinbase :: CTransaction
  sh_vMerkleBranch :: "uint256 list"
  sh_data :: ShareData

definition Header :: "Share \<Rightarrow> CBlock" where
  "Header s = \<lparr>blk_nVersion = sh_nVersion s, hashPrevBlock = sh_hashPrevBlock s,
     hashMerkleRoot = sh_hashMerkleRoot s, nTime = sh_nTime s, nBits = sh_nBits s,
     nNonce = sh_nNonce s, vtx = []\<rparr>"

definition GetId :: "ext \<Rightarrow> Share \<Rightarrow> uint256" where
  "GetId E s = GetHash E (Header s)"

definition ser_Share :: "Share \<Rightarrow> bytes" where
  "ser_Share s = block_header (Header s) @ ser_CTransaction (coinbase s) @
    Serialize_vector ser_uint256 (sh_vMerkleBranch s) @ ser_ShareData (sh_data s)"

definition unser_Share :: "bytes \<Rightarrow> (Share \<times> bytes) option" where
  "unser_Share s =
    (case unser_int32 s of None \<Rightarrow> None
     | Some (v, r1) \<Rightarrow> (case unser_uint256 r1 of None \<Rightarrow> None
       | Some (p, r2) \<Rightarrow> (case unser_uint256 r2 of None \<Rightarrow> None
         | Some (m, r3) \<Rightarrow> (case unser_u32 r3 of None \<Rightarrow> None
           | Some (t, r4) \<Rightarrow> (case unser_u32 r4 of None \<Rightarrow> None
             | Some (c, r5) \<Rightarrow> (case unser_u32 r5 of None \<Rightarrow> None
               | Some (k, r6) \<Rightarrow> (case unser_CTransaction r6 of None \<Rightarrow> None
                 | Some (cb, r7) \<Rightarrow> (case Unserialize_vector unser_uint256 r7 of None \<Rightarrow> None
                   | Some (br, r8) \<Rightarrow> (case unser_ShareData r8 of None \<Rightarrow> None
                     | Some (d, r9) \<Rightarrow>
                         Some (\<lparr>sh_nVersion = v, sh_hashPrevBlock = p, sh_hashMerkleRoot = m,
                           sh_nTime = t, sh_nBits = c, sh_nNonce = k, coinbase = cb,
                           sh_vMerkleBranch = br, sh_data = d\<rparr>, r9))))))))))"

definition GetSerializeSize_Share :: "Share \<Rightarrow> nat" where
  "GetSerializeSize_Share s = 80 + GetSerializeSize_CTransaction (coinbase s) +
    GetSerializeSize_vector (\<lambda>_. 32) (sh_vMerkleBranch s) + GetSerializeSize_ShareData (sh_data s)"

definition wf_ShareData :: "ShareData \<Rightarrow> bool" where
  "wf_ShareData d \<longleftrightarrow> length (vUncles d) \<le> MAX_SIZE \<and> length (sd_payoutScript d) \<le> MAX_SIZE"

definition wf_Share :: "Share \<Rightarrow> bool" where
  "wf_Share s \<longleftrightarrow> in_i32 (sh_nVersion s) \<and> wf_CTransaction (coinbase s) \<and>
    length (sh_vMerkleBranch s) \<le> MAX_SIZE \<and> wf_ShareData (sh_data s)"

lemma vector_True: "length xs \<le> MAX_SIZE \<Longrightarrow>
    Unserialize_vector unser_uint256 (Serialize_vector ser_uint256 xs @ rest) = Some (xs, rest)"
  by (rule u256.unser_vector) (simp_all add: list_all_iff)

interpretation share_data: sized_codec ser_ShareData unser_ShareData wf_ShareData GetSerializeSize_ShareData
  by unfold_locales
    (simp_all add: ser_ShareData_def unser_ShareData_def wf_ShareData_def GetSerializeSize_ShareData_def
      vector_True u256.length_vector length_Serialize_vch)

interpretation share: sized_codec ser_Share unser_Share wf_Share GetSerializeSize_Share
  by unfold_locales
    (simp_all add: ser_Share_def unser_Share_def wf_Share_def GetSerializeSize_Share_def block_header_def
      Header_def tx.unser_ser tx.length_ser vector_True u256.length_vector share_data.unser_ser
      share_data.length_ser)

section \<open>The commitment\<close>

definition TAG :: bytes where "TAG = [0x70, 0x32, 0x70]"

definition CommitmentPush :: "uint256 \<Rightarrow> bytes" where
  "CommitmentPush h = TAG @ bytes_of_uint256 h"

text \<open>The loop over the coinbase script: the last commitment seen, and how many there were.\<close>

function commit_loop :: "bytes \<Rightarrow> uint256 \<Rightarrow> nat \<Rightarrow> (uint256 \<times> nat) option" where
  "commit_loop pc hashOut nFound =
    (if pc = [] then Some (hashOut, nFound)
     else case GetOp pc of
       None \<Rightarrow> None
     | Some (_, push, r) \<Rightarrow>
         if length push = 35 \<and> take 3 push = TAG
         then commit_loop r (uint256_of_bytes (drop 3 push)) (nFound + 1)
         else commit_loop r hashOut nFound)"
  by pat_completeness auto
termination
  by (relation "measure (\<lambda>(pc, h, n). length pc)") auto

declare commit_loop.simps [simp del]

definition FindCommitment :: "CTransaction \<Rightarrow> uint256 option" where
  "FindCommitment cb =
    (if \<not> IsCoinBase cb then None
     else case commit_loop (scriptSig (vin cb ! 0)) 0 0 of
       None \<Rightarrow> None
     | Some (hashOut, nFound) \<Rightarrow> if nFound = 1 then Some hashOut else None)"

section \<open>The checks of a share\<close>

definition IsPayoutScript :: "bytes \<Rightarrow> bool" where
  "IsPayoutScript s \<longleftrightarrow>
    length s = 25 \<and> unat (s ! 0) = OP_DUP \<and> unat (s ! 1) = OP_HASH160 \<and> s ! 2 = 20 \<and>
      unat (s ! 23) = OP_EQUALVERIFY \<and> unat (s ! 24) = OP_CHECKSIG \<or>
    length s = 23 \<and> unat (s ! 0) = OP_HASH160 \<and> s ! 1 = 20 \<and> unat (s ! 22) = OP_EQUAL"

datatype share_error =
    TooManyUncles | UncleNamedTwice | BadPayoutScript | ShareHeightOutOfRange | NotACoinbase
  | CoinbaseNoBlockCouldCarry | TooManyAddresses | NotAnAddress | NoCommitment | NotInMerkleRoot
  | TargetEasierThanFloor | WorkNotMet
  | BlockHeightOutOfRange | OutputOutOfRange | LessThanSubsidy | PayoutsFailed payout_error
  | DoesNotPayWindow

text \<open>\<open>Inr fBlock\<close>: the share is good, and \<open>fBlock\<close> says whether it is also a block.\<close>

definition CheckShareWork ::
    "ext \<Rightarrow> net_params \<Rightarrow> Share \<Rightarrow> int \<Rightarrow> bool \<Rightarrow> share_error + bool" where
  "CheckShareWork E N share bnFloor fCheckPoW =
    (let d = sh_data share;
         bnShare = SetCompact E (unat (nShareBits d));
         bnBlock = SetCompact E (unat (sh_nBits share));
         hashPoW = GetPoWHash N (Header share)
     in if MAX_UNCLES < length (vUncles d) then Inl TooManyUncles
        else if \<not> distinct (vUncles d) then Inl UncleNamedTwice
        else if \<not> IsPayoutScript (sd_payoutScript d) then Inl BadPayoutScript
        else if MAX_SHARE_HEIGHT < unat (nShareHeight d) then Inl ShareHeightOutOfRange
        else if \<not> IsCoinBase (coinbase share) then Inl NotACoinbase
        else if CheckTransaction (coinbase share) \<noteq> Inr () then Inl CoinbaseNoBlockCouldCarry
        else if 3 * WINDOW_SHARES < length (vout (coinbase share)) then Inl TooManyAddresses
        else if \<not> list_all (\<lambda>x. IsPayoutScript (scriptPubKey x)) (vout (coinbase share))
        then Inl NotAnAddress
        else if FindCommitment (coinbase share) \<noteq> Some (ShareData_GetHash E d) then Inl NoCommitment
        else if CheckMerkleBranch E (SerializeHash_tx E (coinbase share)) (sh_vMerkleBranch share) 0 \<noteq>
                sh_hashMerkleRoot share
        then Inl NotInMerkleRoot
        else if bnShare \<le> 0 \<or> bnFloor < bnShare then Inl TargetEasierThanFloor
        else if \<not> fCheckPoW then Inr False
        else if bnShare < setuint256 E hashPoW then Inl WorkNotMet
        else Inr (0 < bnBlock \<and> setuint256 E hashPoW \<le> bnBlock))"

fun share_total :: "CTxOut list \<Rightarrow> int \<Rightarrow> int option" where
  "share_total [] nTotal = Some nTotal"
| "share_total (x # outs) nTotal =
    (if \<not> MoneyRange (nValue x) then None else share_total outs (i64 (nTotal + nValue x)))"

definition CheckShare ::
    "ext \<Rightarrow> net_params \<Rightarrow> Share \<Rightarrow> WindowShare list \<Rightarrow> int \<Rightarrow> int \<Rightarrow> bool \<Rightarrow> share_error + bool" where
  "CheckShare E N share window nBlockHeight bnFloor fCheckPoW =
    (case CheckShareWork E N share bnFloor fCheckPoW of
       Inl e \<Rightarrow> Inl e
     | Inr fBlock \<Rightarrow>
         if nBlockHeight < 1 \<or> MAX_BLOCK_HEIGHT < nBlockHeight then Inl BlockHeightOutOfRange
         else (case share_total (vout (coinbase share)) 0 of
           None \<Rightarrow> Inl OutputOutOfRange
         | Some nTotal \<Rightarrow>
            (case GetBlockValue nBlockHeight 0 of
               None \<Rightarrow> Inl LessThanSubsidy
             | Some least \<Rightarrow>
                 if \<not> MoneyRange nTotal \<or> nTotal < least then Inl LessThanSubsidy
                 else (case ComputePayouts window nTotal of
                   Inl e \<Rightarrow> Inl (PayoutsFailed e)
                 | Inr want \<Rightarrow>
                     if map (\<lambda>p. (pay_value p, pay_script p)) want \<noteq>
                        map (\<lambda>x. (nValue x, scriptPubKey x)) (vout (coinbase share))
                     then Inl DoesNotPayWindow
                     else Inr fBlock))))"

section \<open>What a good share satisfies\<close>

lemma share_total_sane:
  "(\<forall>x \<in> set outs. 0 \<le> nValue x) \<Longrightarrow> 0 \<le> a \<Longrightarrow> a + sum_list (map nValue outs) \<le> MAX_MONEY \<Longrightarrow>
    share_total outs a = Some (a + sum_list (map nValue outs))"
proof (induction outs arbitrary: a)
  case (Cons x outs)
  have nn: "0 \<le> sum_list (map nValue outs)" using Cons.prems(1) by (intro sum_list_nonneg) auto
  then have "MoneyRange (nValue x)" "i64 (a + nValue x) = a + nValue x"
    using Cons.prems by (auto simp: MoneyRange_def in_i64_def MAX_MONEY_value intro!: i64_id)
  then show ?case using Cons by (simp add: add.assoc)
qed simp

definition share_work_ok :: "ext \<Rightarrow> net_params \<Rightarrow> Share \<Rightarrow> int \<Rightarrow> bool \<Rightarrow> bool" where
  "share_work_ok E N s bnFloor fCheckPoW \<longleftrightarrow>
    length (vUncles (sh_data s)) \<le> 2 \<and> distinct (vUncles (sh_data s)) \<and>
    IsPayoutScript (sd_payoutScript (sh_data s)) \<and> unat (nShareHeight (sh_data s)) \<le> 2 ^ 30 \<and>
    IsCoinBase (coinbase s) \<and> tx_sane (coinbase s) \<and> length (vout (coinbase s)) \<le> 6480 \<and>
    (\<forall>x \<in> set (vout (coinbase s)). IsPayoutScript (scriptPubKey x)) \<and>
    FindCommitment (coinbase s) = Some (ShareData_GetHash E (sh_data s)) \<and>
    CheckMerkleBranch E (SerializeHash_tx E (coinbase s)) (sh_vMerkleBranch s) 0 = sh_hashMerkleRoot s \<and>
    0 < SetCompact E (unat (nShareBits (sh_data s))) \<and> SetCompact E (unat (nShareBits (sh_data s))) \<le> bnFloor \<and>
    (fCheckPoW \<longrightarrow> setuint256 E (GetPoWHash N (Header s)) \<le> SetCompact E (unat (nShareBits (sh_data s))))"

lemma CheckShareWork_iff:
  "(\<exists>fBlock. CheckShareWork E N s bnFloor fCheckPoW = Inr fBlock) \<longleftrightarrow> share_work_ok E N s bnFloor fCheckPoW"
  by (auto simp: CheckShareWork_def share_work_ok_def Let_def MAX_UNCLES_def MAX_SHARE_HEIGHT_def
      WINDOW_SHARES_def CheckTransaction_iff list_all_iff not_le not_less)

lemma CheckShare_iff:
  "(\<exists>fBlock. CheckShare E N s window h bnFloor fCheckPoW = Inr fBlock) \<longleftrightarrow>
    share_work_ok E N s bnFloor fCheckPoW \<and> 1 \<le> h \<and> h \<le> MAX_BLOCK_HEIGHT \<and>
    50 * COIN div 2 ^ nat (h div 210000) \<le> sum_list (map nValue (vout (coinbase s))) \<and>
    (\<exists>want. ComputePayouts window (sum_list (map nValue (vout (coinbase s)))) = Inr want \<and>
      map (\<lambda>p. (pay_value p, pay_script p)) want =
        map (\<lambda>x. (nValue x, scriptPubKey x)) (vout (coinbase s)))"
proof (cases "share_work_ok E N s bnFloor fCheckPoW \<and> 1 \<le> h \<and> h \<le> MAX_BLOCK_HEIGHT")
  case False
  then show ?thesis
    using CheckShareWork_iff [of E N s bnFloor fCheckPoW]
    by (auto simp: CheckShare_def split: sum.split_asm if_split_asm)
next
  case True
  then obtain fBlock where W: "CheckShareWork E N s bnFloor fCheckPoW = Inr fBlock"
    using CheckShareWork_iff by blast
  have sane: "tx_sane (coinbase s)" using True by (simp add: share_work_ok_def)
  define T where "T = sum_list (map nValue (vout (coinbase s)))"
  have T: "share_total (vout (coinbase s)) 0 = Some T" "MoneyRange T"
  proof -
    have nn: "\<forall>x \<in> set (vout (coinbase s)). 0 \<le> nValue x" using sane by (simp add: tx_sane_def)
    then have "0 \<le> T" unfolding T_def by (intro sum_list_nonneg) auto
    then show "MoneyRange T" using sane by (simp add: T_def MoneyRange_def tx_sane_def)
    show "share_total (vout (coinbase s)) 0 = Some T"
      using share_total_sane [OF nn, of 0] sane by (simp add: T_def tx_sane_def)
  qed
  have "GetBlockValue h 0 = Some (50 * COIN div 2 ^ nat (h div 210000))"
    using True GetBlockValue_value [of h 0] by (simp add: MAX_BLOCK_HEIGHT_def MoneyRange_def MAX_MONEY_value)
  then show ?thesis
    using True W T by (auto simp: CheckShare_def T_def [symmetric] not_less split: sum.split)
qed

end
