(* ===== verification/ShareChain.thy ===== *)
theory ShareChain
  imports Share
begin

text \<open>
  The share chain (\<^verbatim>\<open>p2pool_chain.h\<close>, \<^verbatim>\<open>p2pool_chain.cpp\<close>): the shares a node holds, the line it
  mines on, the share target, uncles, the payout window, and the two ways a share gets in: in
  full, or on its work alone from a peer's history.  \<open>Get\<close> is the lookup in \<^verbatim>\<open>mapShares\<close>.  Two
  walks go from a share to its parent until they meet or end; nothing in the code bounds them
  but that a share's id commits to its parent, so they are partial, and \<open>None\<close> is not
  returning.
\<close>

definition SHARE_SPACING :: int where "SHARE_SPACING = 10"
definition RETARGET_SHARES :: nat where "RETARGET_SHARES = 720"
definition MAX_UNCLE_DEPTH :: int where "MAX_UNCLE_DEPTH = 3"
definition MAX_SHARE_FUTURE :: int where "MAX_SHARE_FUTURE = 120"
definition HISTORY_SHARES :: nat where
  "HISTORY_SHARES = WINDOW_SHARES + RETARGET_SHARES + 2 * nat MAX_UNCLE_DEPTH + 10"
definition MAX_CHAIN_SHARES :: nat where "MAX_CHAIN_SHARES = 4 * HISTORY_SHARES"
definition MAX_TRUSTED_BYTES :: nat where "MAX_TRUSTED_BYTES = 64 * 1000 * 1000"
definition TIP_MAX_AGE :: int where "TIP_MAX_AGE = 30 * 60"

definition u64 :: "nat \<Rightarrow> nat" where "u64 n = n mod 2 ^ 64"

record share_entry =
  share :: Share
  en_nHeight :: int
  work :: nat
  bnOwnWork :: int
  bnChainWork :: int
  fTrusted :: bool

record share_chain =
  mapShares :: "(uint256, share_entry) fmap"
  hashTip :: uint256
  bnFloor :: int
  fCheckPoW :: bool
  nLastPruneCut :: int
  nTrustedBytes :: nat

definition new_share_chain :: "int \<Rightarrow> bool \<Rightarrow> share_chain" where
  "new_share_chain bnFloorIn fCheckPoWIn =
    \<lparr>mapShares = fmempty, hashTip = 0, bnFloor = bnFloorIn, fCheckPoW = fCheckPoWIn,
     nLastPruneCut = - 10, nTrustedBytes = 0\<rparr>"

abbreviation Get :: "share_chain \<Rightarrow> uint256 \<Rightarrow> share_entry option" where
  "Get C \<equiv> fmlookup (mapShares C)"

abbreviation parent_of :: "share_entry \<Rightarrow> uint256" where
  "parent_of e \<equiv> hashPrevShare (sh_data (share e))"

abbreviation uncles_of :: "share_entry \<Rightarrow> uint256 list" where
  "uncles_of e \<equiv> vUncles (sh_data (share e))"

definition Has :: "share_chain \<Rightarrow> uint256 \<Rightarrow> bool" where
  "Has C h \<longleftrightarrow> Get C h \<noteq> None"

definition sc_Height :: "share_chain \<Rightarrow> uint256 \<Rightarrow> int" where
  "sc_Height C h = (case Get C h of None \<Rightarrow> - 1 | Some e \<Rightarrow> en_nHeight e)"

section \<open>Work and heights\<close>

definition WorkOf :: "ext \<Rightarrow> u32 \<Rightarrow> nat" where
  "WorkOf E bits =
    (let bnTarget = SetCompact E (unat bits)
     in if bnTarget \<le> 0 then 0
        else let bnWork = bn_quot (2 ^ 256) (bnTarget + 1); bnMax = setuint64 E (2 ^ 64 - 1)
             in if bnMax < bnWork then 2 ^ 64 - 1
                else le_nat (take 8 (bytes_of_uint256 (getuint256 E bnWork))))"

definition CoinbaseHeight :: "ext \<Rightarrow> CTransaction \<Rightarrow> int option" where
  "CoinbaseHeight E cb =
    (if \<not> IsCoinBase cb then None
     else case GetOp (scriptSig (vin cb ! 0)) of
       None \<Rightarrow> None
     | Some (opc, push, _) \<Rightarrow>
         if OP_1 \<le> opc \<and> opc \<le> OP_16 then Some (int opc - (int OP_1 - 1))
         else if push = [] \<or> 4 < length push then None
         else Some (getint E (setvch E push)))"

section \<open>Lines and uncles\<close>

text \<open>The loops run with \<open>i\<close> from 0 to \<open>nDepth\<close>: \<open>k\<close> is the number of rounds left.\<close>

primrec line_has :: "share_chain \<Rightarrow> uint256 \<Rightarrow> uint256 \<Rightarrow> nat \<Rightarrow> bool" where
  "line_has C h cur 0 = False"
| "line_has C h cur (Suc k) =
    (if cur = 0 then False else if cur = h then True
     else case Get C cur of None \<Rightarrow> False | Some e \<Rightarrow> line_has C h (parent_of e) k)"

primrec line_names :: "share_chain \<Rightarrow> uint256 \<Rightarrow> uint256 \<Rightarrow> nat \<Rightarrow> bool" where
  "line_names C uncle cur 0 = False"
| "line_names C uncle cur (Suc k) =
    (if cur = 0 then False
     else case Get C cur of None \<Rightarrow> False
     | Some e \<Rightarrow> if uncle \<in> set (uncles_of e) then True else line_names C uncle (parent_of e) k)"

definition OnLine :: "share_chain \<Rightarrow> uint256 \<Rightarrow> uint256 \<Rightarrow> int \<Rightarrow> bool" where
  "OnLine C h src nDepth = line_has C h src (nat (nDepth + 1))"

definition UncleTaken :: "share_chain \<Rightarrow> uint256 \<Rightarrow> uint256 \<Rightarrow> int \<Rightarrow> bool" where
  "UncleTaken C uncle src nDepth = line_names C uncle src (nat (nDepth + 1))"

datatype p2p_error =
    AlreadyHaveShare | UnknownParent | UnknownUncle | WindowNotHere
  | HereUncleTrusted | HereFuture | HereNoRoom
  | UncleTooOld | UncleIsAncestor | UncleOffLine | UncleAlreadyPaid | UncleTwice
  | TooManyUnclesNamed | WrongShareHeight | CoinbaseStatesNoHeight | TimeNotAfterMedian | WrongShareTarget
  | HistoryOutOfOrder | ShareBad share_error

fun InnocentRefusal :: "p2p_error \<Rightarrow> bool" where
  "InnocentRefusal e = (e \<in> {AlreadyHaveShare, UnknownParent, UnknownUncle, WindowNotHere,
     HereUncleTrusted, HereFuture, HereNoRoom})"

definition UncleProblem :: "share_chain \<Rightarrow> uint256 \<Rightarrow> uint256 \<Rightarrow> int \<Rightarrow> p2p_error option" where
  "UncleProblem C u parent height =
    (case Get C u of
       None \<Rightarrow> Some UnknownUncle
     | Some e \<Rightarrow>
         if fTrusted e then Some HereUncleTrusted
         else if height \<le> en_nHeight e \<or> en_nHeight e < height - MAX_UNCLE_DEPTH then Some UncleTooOld
         else if OnLine C u parent MAX_UNCLE_DEPTH then Some UncleIsAncestor
         else if \<not> OnLine C (parent_of e) parent MAX_UNCLE_DEPTH then Some UncleOffLine
         else if UncleTaken C u parent MAX_UNCLE_DEPTH then Some UncleAlreadyPaid
         else None)"

fun check_uncles :: "share_chain \<Rightarrow> uint256 list \<Rightarrow> uint256 list \<Rightarrow> uint256 \<Rightarrow> int \<Rightarrow> p2p_error option" where
  "check_uncles C named [] parent height = None"
| "check_uncles C named (u # us) parent height =
    (if count_list named u \<noteq> 1 then Some UncleTwice
     else case UncleProblem C u parent height of
       Some e \<Rightarrow> Some e | None \<Rightarrow> check_uncles C named us parent height)"

definition CheckUncles :: "share_chain \<Rightarrow> ShareData \<Rightarrow> uint256 \<Rightarrow> int \<Rightarrow> p2p_error option" where
  "CheckUncles C d parent height = check_uncles C (vUncles d) (vUncles d) parent height"

fun take_candidates :: "share_chain \<Rightarrow> uint256 \<Rightarrow> int \<Rightarrow> (uint256 \<times> share_entry) list \<Rightarrow> nat \<Rightarrow> uint256 list" where
  "take_candidates C parent height [] k = []"
| "take_candidates C parent height ((h, e) # rest) k =
    (if k = 0 then []
     else if height \<le> en_nHeight e \<or> en_nHeight e < height - MAX_UNCLE_DEPTH \<or> fTrusted e \<or>
        OnLine C h parent MAX_UNCLE_DEPTH \<or> \<not> OnLine C (parent_of e) parent MAX_UNCLE_DEPTH \<or>
        UncleTaken C h parent MAX_UNCLE_DEPTH
     then take_candidates C parent height rest k
     else h # take_candidates C parent height rest (k - 1))"

definition UncleCandidates :: "share_chain \<Rightarrow> uint256 \<Rightarrow> uint256 list" where
  "UncleCandidates C parent =
    (case Get C parent of None \<Rightarrow> []
     | Some p \<Rightarrow> take_candidates C parent (en_nHeight p + 1) (sorted_list_of_fmap (mapShares C)) MAX_UNCLES)"

section \<open>Time and target\<close>

text \<open>At most \<open>k\<close> entries of the line from \<open>cur\<close> on, tip first.\<close>

primrec line :: "share_chain \<Rightarrow> uint256 \<Rightarrow> nat \<Rightarrow> share_entry list" where
  "line C cur 0 = []"
| "line C cur (Suc k) = (case Get C cur of None \<Rightarrow> [] | Some e \<Rightarrow> e # line C (parent_of e) k)"

definition NextShareMinTime :: "share_chain \<Rightarrow> uint256 \<Rightarrow> u32" where
  "NextShareMinTime C parent =
    (let times = sort (map (\<lambda>e. sh_nTime (share e)) (line C parent 11))
     in if times = [] then 0 else times ! (length times div 2) + 1)"

definition NextShareBits :: "ext \<Rightarrow> share_chain \<Rightarrow> uint256 \<Rightarrow> nat" where
  "NextShareBits E C parent =
    (case Get C parent of
       None \<Rightarrow> GetCompact E (bnFloor C)
     | Some p \<Rightarrow>
         if en_nHeight p + 1 < int RETARGET_SHARES then GetCompact E (bnFloor C)
         else
           let es = line C parent RETARGET_SHARES;
               bnSum = sum_list (map (\<lambda>e. SetCompact E (unat (nShareBits (sh_data (share e))))) es);
               first = last es;
               nExpected = (int RETARGET_SHARES - 1) * SHARE_SPACING;
               nActual = int (unat (sh_nTime (share p))) - int (unat (sh_nTime (share first)));
               nActual1 = (if nActual < nExpected div 4 then nExpected div 4 else nActual);
               nActual2 = (if nExpected * 4 < nActual1 then nExpected * 4 else nActual1);
               bnNew = bn_quot (bn_quot bnSum (int RETARGET_SHARES) * nActual2) nExpected;
               bnNew1 = (if bnFloor C < bnNew then bnFloor C else bnNew);
               bnNew2 = (if bnNew1 < 1 then 1 else bnNew1)
           in GetCompact E bnNew2)"

section \<open>The payout window\<close>

definition uncle_pay :: "nat \<Rightarrow> nat" where
  "uncle_pay w = u64 (w div 5 * 4 + (w mod 5) * 4 div 5)"

text \<open>The uncles' part of the list, and the bonus for the share that names them.\<close>

fun credit_uncles :: "share_chain \<Rightarrow> uint256 list \<Rightarrow> (WindowShare list \<times> nat) option" where
  "credit_uncles C [] = Some ([], 0)"
| "credit_uncles C (h # uncles) =
    (case Get C h of None \<Rightarrow> None
     | Some u \<Rightarrow>
        (case credit_uncles C uncles of None \<Rightarrow> None
         | Some (v, bonus) \<Rightarrow>
             let paid = uncle_pay (work u)
             in Some ((if paid = 0 then []
                       else [\<lparr>payoutScript = sd_payoutScript (sh_data (share u)), ws_work = paid\<rparr>]) @ v,
                      u64 (bonus + (work u - paid)))))"

definition credit_share :: "share_chain \<Rightarrow> bytes \<Rightarrow> nat \<Rightarrow> uint256 list \<Rightarrow> WindowShare list option" where
  "credit_share C script w uncles =
    (case credit_uncles C uncles of None \<Rightarrow> None
     | Some (v, bonus) \<Rightarrow> Some (v @ [\<lparr>payoutScript = script, ws_work = u64 (w + bonus)\<rparr>]))"

primrec window_line :: "share_chain \<Rightarrow> uint256 \<Rightarrow> nat \<Rightarrow> WindowShare list option" where
  "window_line C cur 0 = Some []"
| "window_line C cur (Suc k) =
    (if cur = 0 then Some []
     else case Get C cur of None \<Rightarrow> None
     | Some e \<Rightarrow>
        (case credit_share C (sd_payoutScript (sh_data (share e))) (work e) (uncles_of e) of
           None \<Rightarrow> None
         | Some v \<Rightarrow> (case window_line C (parent_of e) k of None \<Rightarrow> None | Some v' \<Rightarrow> Some (v @ v'))))"

definition WindowFor :: "share_chain \<Rightarrow> ShareData \<Rightarrow> nat \<Rightarrow> WindowShare list option" where
  "WindowFor C d nOwnWork =
    (case credit_share C (sd_payoutScript d) nOwnWork (vUncles d) of
       None \<Rightarrow> None
     | Some v \<Rightarrow>
        (case window_line C (hashPrevShare d) (WINDOW_SHARES - 1) of
           None \<Rightarrow> None | Some v' \<Rightarrow> Some (v @ v')))"

definition GetShare :: "share_chain \<Rightarrow> uint256 \<Rightarrow> Share option" where
  "GetShare C h =
    (case Get C h of None \<Rightarrow> None | Some e \<Rightarrow> if fTrusted e then None else Some (share e))"

section \<open>Which line is heavier\<close>

text \<open>The two walks, on entries; \<open>Some None\<close>: they do not meet.\<close>

partial_function (option) meet ::
    "share_chain \<Rightarrow> uint256 \<Rightarrow> uint256 \<Rightarrow> int \<Rightarrow> int \<Rightarrow> (int \<times> int) option option" where
  "meet C a b bnA bnB =
    (case Get C a of None \<Rightarrow> Some None
     | Some ea \<Rightarrow>
        (case Get C b of None \<Rightarrow> Some None
         | Some eb \<Rightarrow>
             if a = b then Some (Some (bnA, bnB))
             else if en_nHeight eb \<le> en_nHeight ea
             then meet C (parent_of ea) b (bnA + bnOwnWork ea) bnB
             else meet C a (parent_of eb) bnA (bnB + bnOwnWork eb)))"

definition LinesMeet :: "share_chain \<Rightarrow> uint256 \<Rightarrow> uint256 \<Rightarrow> (int \<times> int) option option" where
  "LinesMeet C a b = meet C a b 0 0"

definition LineWork :: "share_chain \<Rightarrow> uint256 \<Rightarrow> int" where
  "LineWork C h = sum_list (map bnOwnWork (line C h WINDOW_SHARES))"

definition Heavier :: "share_chain \<Rightarrow> uint256 \<Rightarrow> int \<Rightarrow> bool option" where
  "Heavier C h now =
    (case Get C h of
       None \<Rightarrow> Some False
     | Some c \<Rightarrow>
         if fTrusted c then Some False
         else (case Get C (hashTip C) of
           None \<Rightarrow> Some True
         | Some t \<Rightarrow>
             if parent_of c = hashTip C then Some True
             else
               let fCandLive = now - TIP_MAX_AGE \<le> int (unat (sh_nTime (share c)));
                   fTipLive = now - TIP_MAX_AGE \<le> int (unat (sh_nTime (share t)))
               in if fCandLive \<noteq> fTipLive then Some fCandLive
                  else (case LinesMeet C h (hashTip C) of
                    None \<Rightarrow> None
                  | Some (Some (bnC, bnT)) \<Rightarrow> Some (bnT < bnC)
                  | Some None \<Rightarrow> Some (LineWork C (hashTip C) < LineWork C h))))"

end
