(* ===== verification/ShareAdd.thy ===== *)
theory ShareAdd
  imports ShareChain
begin

text \<open>
  Getting into the share chain and out of it: \<open>Add\<close> checks a share in full, \<open>AddTrusted\<close> on its
  work alone, \<open>AddHistory\<close> takes a peer's history; \<open>Drop\<close>, \<open>Prune\<close> and \<open>Evict\<close> take shares out.
  \<open>now\<close> is the adjusted time.  \<open>None\<close> is a walk that does not return.
\<close>

section \<open>Out\<close>

definition Drop :: "uint256 \<Rightarrow> share_chain \<Rightarrow> share_chain" where
  "Drop h C =
    (case Get C h of
       None \<Rightarrow> C
     | Some e \<Rightarrow>
         C\<lparr>nTrustedBytes := (if fTrusted e then nTrustedBytes C - GetSerializeSize_Share (share e)
                             else nTrustedBytes C),
           mapShares := fmdrop h (mapShares C)\<rparr>)"

text \<open>The walk of \<open>RootOf\<close>, with the path it has gone; \<open>roots\<close> are the answers known before.\<close>

partial_function (option) root_walk ::
    "share_chain \<Rightarrow> (uint256 \<rightharpoonup> uint256) \<Rightarrow> uint256 \<Rightarrow> uint256 list \<Rightarrow> (uint256 \<times> uint256 list) option" where
  "root_walk C roots cur path =
    (case roots cur of
       Some r \<Rightarrow> Some (r, path)
     | None \<Rightarrow>
        (case Get C cur of None \<Rightarrow> None
         | Some e \<Rightarrow>
             if \<not> Has C (parent_of e) then Some (cur, cur # path)
             else root_walk C roots (parent_of e) (cur # path)))"

definition RootOf ::
    "share_chain \<Rightarrow> uint256 \<Rightarrow> (uint256 \<rightharpoonup> uint256) \<Rightarrow> (uint256 \<times> (uint256 \<rightharpoonup> uint256)) option" where
  "RootOf C h roots =
    (case root_walk C roots h [] of None \<Rightarrow> None
     | Some (rt, path) \<Rightarrow> Some (rt, fold (\<lambda>x m. m(x \<mapsto> rt)) path roots))"

fun prune_roots ::
    "share_chain \<Rightarrow> (uint256 \<times> share_entry) list \<Rightarrow> (uint256 \<rightharpoonup> uint256) \<Rightarrow> (uint256 \<rightharpoonup> int) \<Rightarrow>
      ((uint256 \<rightharpoonup> uint256) \<times> (uint256 \<rightharpoonup> int)) option" where
  "prune_roots C [] roots nTop = Some (roots, nTop)"
| "prune_roots C ((h, e) # rest) roots nTop =
    (case RootOf C h roots of None \<Rightarrow> None
     | Some (rt, roots') \<Rightarrow>
         let n = (case nTop rt of None \<Rightarrow> - 1 | Some n \<Rightarrow> n)
         in prune_roots C rest roots' (nTop(rt \<mapsto> max n (en_nHeight e))))"

definition cut_off :: "share_chain \<Rightarrow> int \<Rightarrow> (uint256 \<rightharpoonup> uint256) \<Rightarrow> (uint256 \<rightharpoonup> int) \<Rightarrow> uint256 list" where
  "cut_off C nCut roots nTop =
    map fst (filter (\<lambda>(h, e). en_nHeight e < nCut \<and>
        (roots h = roots (hashTip C) \<or> the (nTop (the (roots h))) < nCut))
      (sorted_list_of_fmap (mapShares C)))"

definition Prune :: "share_chain \<Rightarrow> share_chain option" where
  "Prune C =
    (case Get C (hashTip C) of
       None \<Rightarrow> Some C
     | Some tip \<Rightarrow>
         let nCut = en_nHeight tip - (int HISTORY_SHARES + 10)
         in if nCut \<le> 0 \<or> nLastPruneCut C \<le> nCut \<and> nCut < nLastPruneCut C + 10 then Some C
            else
              let C1 = C\<lparr>nLastPruneCut := nCut\<rparr>
              in (case prune_roots C1 (sorted_list_of_fmap (mapShares C1)) Map.empty Map.empty of
                    None \<Rightarrow> None
                  | Some (roots, nTop) \<Rightarrow> Some (fold Drop (cut_off C1 nCut roots nTop) C1)))"

primrec evict_keep :: "share_chain \<Rightarrow> uint256 \<Rightarrow> nat \<Rightarrow> uint256 set" where
  "evict_keep C cur 0 = {}"
| "evict_keep C cur (Suc k) =
    (if cur = 0 then {}
     else case Get C cur of None \<Rightarrow> {}
     | Some e \<Rightarrow> insert cur (set (uncles_of e) \<union> evict_keep C (parent_of e) k))"

definition count_children :: "share_chain \<Rightarrow> uint256 \<rightharpoonup> nat" where
  "count_children C h =
    (let n = length (filter (\<lambda>(_, e). parent_of e = h) (sorted_list_of_fmap (mapShares C)))
     in if Has C h \<and> n \<noteq> 0 then Some n else None)"

text \<open>A \<^verbatim>\<open>multimap\<close> by work: a new pair goes after those of the same work.\<close>

fun insert_leaf :: "int \<times> uint256 \<Rightarrow> (int \<times> uint256) list \<Rightarrow> (int \<times> uint256) list" where
  "insert_leaf x [] = [x]"
| "insert_leaf x (y # ys) = (if fst x < fst y then x # y # ys else y # insert_leaf x ys)"

function evict_loop ::
    "share_chain \<Rightarrow> uint256 set \<Rightarrow> (uint256 \<rightharpoonup> nat) \<Rightarrow> (int \<times> uint256) list \<Rightarrow> share_chain" where
  "evict_loop C keep children leaves =
    (case leaves of
       [] \<Rightarrow> C
     | (_, h) # leaves' \<Rightarrow>
         if fcard (fmdom (mapShares C)) \<le> MAX_CHAIN_SHARES * 3 div 4 then C
         else (case Get C h of
           None \<Rightarrow> C
         | Some e \<Rightarrow>
             let parent = parent_of e; C' = Drop h C
             in (case children parent of
                   None \<Rightarrow> evict_loop C' keep children leaves'
                 | Some n \<Rightarrow>
                     evict_loop C' keep (children(parent \<mapsto> n - 1))
                       (if n - 1 = 0 \<and> parent \<notin> keep then
                          (case Get C' parent of None \<Rightarrow> leaves'
                           | Some p \<Rightarrow> insert_leaf (bnChainWork p, parent) leaves')
                        else leaves'))))"
  by pat_completeness auto
termination
proof (relation "measure (\<lambda>(C, k, ch, l). fcard (fmdom (mapShares C)))", goal_cases)
  case (2 C k ch l x l' z h e p C')
  then have "h |\<in>| fmdom (mapShares C)" by (simp add: fmlookup_dom_iff)
  then show ?case using 2 by (simp add: Drop_def fcard_fminus1_less)
next
  case (3 C k ch l x l' z h e p C' n)
  then have "h |\<in>| fmdom (mapShares C)" by (simp add: fmlookup_dom_iff)
  then show ?case using 3 by (simp add: Drop_def fcard_fminus1_less)
qed simp

declare evict_loop.simps [simp del]

definition Evict :: "nat \<Rightarrow> share_chain \<Rightarrow> share_chain" where
  "Evict nRoom C =
    (if fcard (fmdom (mapShares C)) + nRoom \<le> MAX_CHAIN_SHARES then C
     else
       let keep = evict_keep C (hashTip C) (HISTORY_SHARES + 10);
           children = count_children C;
           leaves = fold (\<lambda>(h, e) l. if h \<notin> keep \<and> children h = None then insert_leaf (bnChainWork e, h) l else l)
             (sorted_list_of_fmap (mapShares C)) []
       in evict_loop C keep children leaves)"

section \<open>In\<close>

datatype add_result = ShareRefused p2p_error "uint256 list" | ShareTaken bool

definition missing :: "share_chain \<Rightarrow> ShareData \<Rightarrow> uint256 list" where
  "missing C d =
    foldl (\<lambda>v u. if \<not> Has C u \<and> u \<notin> set v then v @ [u] else v)
      (if hashPrevShare d \<noteq> 0 \<and> \<not> Has C (hashPrevShare d) then [hashPrevShare d] else []) (vUncles d)"

definition new_height :: "share_chain \<Rightarrow> ShareData \<Rightarrow> int" where
  "new_height C d =
    (if hashPrevShare d = 0 then 0
     else case Get C (hashPrevShare d) of None \<Rightarrow> 0 | Some p \<Rightarrow> en_nHeight p + 1)"

text \<open>Everything \<open>AddInContext\<close> asks before it changes anything.\<close>

definition add_checks ::
    "ext \<Rightarrow> net_params \<Rightarrow> share_chain \<Rightarrow> Share \<Rightarrow> int \<Rightarrow> (p2p_error \<times> uint256 list) + bool" where
  "add_checks E N C s now =
    (let d = sh_data s
     in if Has C (GetId E s) then Inl (AlreadyHaveShare, [])
        else if MAX_UNCLES < length (vUncles d) then Inl (TooManyUnclesNamed, [])
        else if missing C d \<noteq> [] then
          Inl (if hashPrevShare d \<noteq> 0 \<and> \<not> Has C (hashPrevShare d) then UnknownParent else UnknownUncle,
               missing C d)
        else if i32 (int (unat (nShareHeight d))) \<noteq> new_height C d then Inl (WrongShareHeight, [])
        else (case CoinbaseHeight E (coinbase s) of
          None \<Rightarrow> Inl (CoinbaseStatesNoHeight, [])
        | Some nBlockHeight \<Rightarrow>
            if nBlockHeight < 1 then Inl (CoinbaseStatesNoHeight, [])
            else if now + MAX_SHARE_FUTURE < int (unat (sh_nTime s)) then Inl (HereFuture, [])
            else (case WindowFor C d (WorkOf E (nShareBits d)) of
              None \<Rightarrow> Inl (WindowNotHere, [])
            | Some window \<Rightarrow>
                if sh_nTime s < NextShareMinTime C (hashPrevShare d) then Inl (TimeNotAfterMedian, [])
                else if unat (nShareBits d) \<noteq> NextShareBits E C (hashPrevShare d)
                then Inl (WrongShareTarget, [])
                else (case CheckUncles C d (hashPrevShare d) (new_height C d) of
                  Some e \<Rightarrow> Inl (e, [])
                | None \<Rightarrow>
                   (case CheckShare E N s window nBlockHeight (bnFloor C) (fCheckPoW C) of
                      Inl e \<Rightarrow> Inl (ShareBad e, []) | Inr fBlock \<Rightarrow> Inr fBlock)))))"

definition chain_work :: "share_chain \<Rightarrow> uint256 \<Rightarrow> int" where
  "chain_work C h = (case Get C h of None \<Rightarrow> 0 | Some p \<Rightarrow> bnChainWork p)"

definition work_at :: "share_chain \<Rightarrow> uint256 \<Rightarrow> nat" where
  "work_at C h = (case Get C h of None \<Rightarrow> 0 | Some u \<Rightarrow> work u)"

definition full_entry :: "ext \<Rightarrow> share_chain \<Rightarrow> Share \<Rightarrow> share_entry" where
  "full_entry E C s =
    (let d = sh_data s; w = WorkOf E (nShareBits d);
         own = foldl (\<lambda>bn u. bn + setuint64 E (work_at C u)) (setuint64 E w) (vUncles d)
     in \<lparr>share = s, en_nHeight = new_height C d, work = w, bnOwnWork = own,
         bnChainWork = (if hashPrevShare d = 0 then 0 else chain_work C (hashPrevShare d)) + own,
         fTrusted = False\<rparr>)"

definition trusted_children :: "share_chain \<Rightarrow> uint256 \<Rightarrow> uint256 list" where
  "trusted_children C h =
    map fst (filter (\<lambda>(_, e). fTrusted e \<and> parent_of e = h) (sorted_list_of_fmap (mapShares C)))"

text \<open>
  The entry goes into the map, and the trusted shares that build on it are dropped.
\<close>

definition add_entry :: "ext \<Rightarrow> share_chain \<Rightarrow> Share \<Rightarrow> share_chain" where
  "add_entry E C s =
    (let h = GetId E s; C1 = C\<lparr>mapShares := fmupd h (full_entry E C s) (mapShares C)\<rparr>
     in fold Drop (trusted_children C1 h) C1)"

definition Add ::
    "ext \<Rightarrow> net_params \<Rightarrow> Share \<Rightarrow> int \<Rightarrow> share_chain \<Rightarrow> (share_chain \<times> add_result) option" where
  "Add E N s now C =
    (case add_checks E N C s now of
       Inl (e, vMissing) \<Rightarrow> Some (C, ShareRefused e vMissing)
     | Inr fBlock \<Rightarrow>
         let h = GetId E s; C2 = add_entry E C s
         in (case Heavier C2 h now of
               None \<Rightarrow> None
             | Some heavier \<Rightarrow>
                (case Prune (if heavier then C2\<lparr>hashTip := h\<rparr> else C2) of
                   None \<Rightarrow> None
                 | Some C3 \<Rightarrow> Some (Evict 0 C3, ShareTaken fBlock))))"

definition trusted_entry :: "ext \<Rightarrow> share_chain \<Rightarrow> Share \<Rightarrow> share_entry" where
  "trusted_entry E C s =
    (let d = sh_data s; w = WorkOf E (nShareBits d); nHeight' = i32 (int (unat (nShareHeight d)));
         linked = hashPrevShare d \<noteq> 0 \<and> Has C (hashPrevShare d);
         own = foldl (\<lambda>bn u. if linked \<and> UncleProblem C u (hashPrevShare d) nHeight' = None
                             then bn + setuint64 E (work_at C u) else bn) (setuint64 E w) (vUncles d)
     in \<lparr>share = s, en_nHeight = nHeight', work = w, bnOwnWork = own,
         bnChainWork = (if linked then chain_work C (hashPrevShare d) else 0) + own, fTrusted = True\<rparr>)"

definition AddTrusted ::
    "ext \<Rightarrow> net_params \<Rightarrow> Share \<Rightarrow> share_chain \<Rightarrow> share_chain \<times> p2p_error option" where
  "AddTrusted E N s C =
    (let h = GetId E s; d = sh_data s;
         C1 = (if MAX_CHAIN_SHARES \<le> fcard (fmdom (mapShares C)) then Evict 1 C else C);
         nBytes = GetSerializeSize_Share s
     in if Has C h then (C, Some AlreadyHaveShare)
        else if MAX_CHAIN_SHARES \<le> fcard (fmdom (mapShares C1)) then (C1, Some HereNoRoom)
        else if MAX_TRUSTED_BYTES < nTrustedBytes C1 + nBytes then (C1, Some HereNoRoom)
        else (case CheckShareWork E N s (bnFloor C1) (fCheckPoW C1) of
          Inl e \<Rightarrow> (C1, Some (ShareBad e))
        | Inr _ \<Rightarrow>
            if (\<exists>p. hashPrevShare d \<noteq> 0 \<and> Get C1 (hashPrevShare d) = Some p \<and>
                i32 (int (unat (nShareHeight d))) \<noteq> en_nHeight p + 1)
            then (C1, Some WrongShareHeight)
            else (C1\<lparr>mapShares := fmupd h (trusted_entry E C1 s) (mapShares C1),
                     nTrustedBytes := nTrustedBytes C1 + nBytes\<rparr>, None)))"

fun in_height_order :: "Share list \<Rightarrow> bool" where
  "in_height_order (a # b # part) \<longleftrightarrow>
    \<not> nShareHeight (sh_data b) < nShareHeight (sh_data a) \<and> in_height_order (b # part)"
| "in_height_order _ \<longleftrightarrow> True"

text \<open>One share of a history: on trust or in full.\<close>

definition history_step ::
    "ext \<Rightarrow> net_params \<Rightarrow> int \<Rightarrow> int \<Rightarrow> Share \<Rightarrow> share_chain \<Rightarrow> (share_chain \<times> p2p_error option) option" where
  "history_step E N nTipHeight now s C =
    (let fTrust = int (unat (nShareHeight (sh_data s))) < nTipHeight - int RETARGET_SHARES \<and>
           (case Get C (hashPrevShare (sh_data s)) of None \<Rightarrow> True | Some p \<Rightarrow> fTrusted p)
     in if fTrust then Some (AddTrusted E N s C)
        else (case Add E N s now C of None \<Rightarrow> None
              | Some (C', ShareRefused e _) \<Rightarrow> Some (C', Some e)
              | Some (C', ShareTaken _) \<Rightarrow> Some (C', None)))"

fun history_loop ::
    "ext \<Rightarrow> net_params \<Rightarrow> int \<Rightarrow> int \<Rightarrow> Share list \<Rightarrow> share_chain \<Rightarrow> (share_chain \<times> p2p_error option) option" where
  "history_loop E N nTipHeight now [] C = Some (C, None)"
| "history_loop E N nTipHeight now (s # part) C =
    (case history_step E N nTipHeight now s C of
       None \<Rightarrow> None
     | Some (C', err) \<Rightarrow>
         if err = None \<or> err = Some AlreadyHaveShare then history_loop E N nTipHeight now part C'
         else if InnocentRefusal (the err) then Some (C', None)
         else Some (C', err))"

definition AddHistory ::
    "ext \<Rightarrow> net_params \<Rightarrow> Share list \<Rightarrow> int \<Rightarrow> int \<Rightarrow> share_chain \<Rightarrow> (share_chain \<times> p2p_error option) option" where
  "AddHistory E N part nTipHeight now C =
    (if \<not> in_height_order part then Some (C, Some HistoryOutOfOrder)
     else history_loop E N nTipHeight now part C)"

text \<open>What a starting peer is sent, oldest first.\<close>

primrec history_line ::
    "share_chain \<Rightarrow> uint256 \<Rightarrow> nat \<Rightarrow> uint256 set \<Rightarrow> share_entry list" where
  "history_line C cur 0 seen = []"
| "history_line C cur (Suc k) seen =
    (if cur = 0 then []
     else case Get C cur of None \<Rightarrow> []
     | Some e \<Rightarrow>
         let (v, seen1) = (if cur \<in> seen then ([], seen) else ([e], insert cur seen));
             (us, seen2) = foldl (\<lambda>(v, seen) u. case Get C u of None \<Rightarrow> (v, seen)
               | Some x \<Rightarrow> if u \<in> seen then (v, seen) else (v @ [x], insert u seen)) ([], seen1) (uncles_of e)
         in v @ us @ history_line C (parent_of e) k seen2)"

definition History :: "share_chain \<Rightarrow> Share list" where
  "History C = map share (sort_key en_nHeight (history_line C (hashTip C) HISTORY_SHARES {}))"

end
