(* ===== verification/ShareProps.thy ===== *)
theory ShareProps
  imports ShareAdd
begin

text \<open>
  What the share chain computes: the commitment a coinbase carries, what its outputs may cost a
  block, how much work a share counts for, what the window holds, which uncles may be named,
  and how easy the next share may be.
\<close>

section \<open>The commitment\<close>

lemma length_CommitmentPush: "length (CommitmentPush h) = 35"
  by (simp add: CommitmentPush_def TAG_def)

lemma CommitmentPush_parts: "take 3 (CommitmentPush h) = TAG" "drop 3 (CommitmentPush h) = bytes_of_uint256 h"
  by (simp_all add: CommitmentPush_def TAG_def)

lemma GetOp_direct_push:
  assumes "length v < 76"
  shows "GetOp (word_of_nat (length v) # v @ r) = Some (length v, v, r)"
proof -
  have n: "unat (word_of_nat (length v) :: byte) = length v" using assms by (simp add: unat_of_nat)
  have "unat (word_of_nat (length v) :: byte) \<le> OP_PUSHDATA4" using assms by (simp add: n opcodes)
  then show ?thesis using assms by (subst GetOp_push) (simp_all add: n push_size_def opcodes)
qed

lemma commit_loop_push:
  assumes "length v < 76"
  shows "commit_loop (push_vch v @ r) h n =
    (if length v = 35 \<and> take 3 v = TAG then commit_loop r (uint256_of_bytes (drop 3 v)) (n + 1)
     else commit_loop r h n)"
proof -
  have "push_vch v @ r = word_of_nat (length v) # v @ r" using assms by (simp add: push_vch_def opcodes)
  then show ?thesis
    by (subst commit_loop.simps) (simp add: GetOp_direct_push [OF assms])
qed

text \<open>The coinbase script of a miner: pushes, one of which is the commitment.\<close>

lemma commit_loop_pushes:
  "\<forall>v \<in> set vs. length v < 76 \<and> \<not> (length v = 35 \<and> take 3 v = TAG) \<Longrightarrow>
    commit_loop (concat (map push_vch vs) @ r) h n = commit_loop r h n"
  by (induction vs) (auto simp: commit_loop_push)

lemma FindCommitment_pushes:
  assumes "IsCoinBase cb"
    and script: "scriptSig (vin cb ! 0) = concat (map push_vch before) @ push_vch (CommitmentPush h) @ concat (map push_vch after)"
    and others: "\<forall>v \<in> set before \<union> set after. length v < 76 \<and> \<not> (length v = 35 \<and> take 3 v = TAG)"
  shows "FindCommitment cb = Some h"
proof -
  have "commit_loop (scriptSig (vin cb ! 0)) 0 0 =
      commit_loop (push_vch (CommitmentPush h) @ concat (map push_vch after)) 0 0"
    unfolding script using others by (intro commit_loop_pushes) simp
  also have "\<dots> = commit_loop (concat (map push_vch after) @ []) h 1"
    by (simp add: commit_loop_push length_CommitmentPush CommitmentPush_parts)
  also have "\<dots> = commit_loop [] h 1" using others by (intro commit_loop_pushes) simp
  also have "\<dots> = Some (h, 1)" by (subst commit_loop.simps) simp
  finally show ?thesis using assms(1) by (simp add: FindCommitment_def)
qed

section \<open>What the coinbase costs a block\<close>

lemma sigop_cost_le: "sigop_cost v opc \<le> 20"
  by (simp add: sigop_cost_def)

lemma GetSigOpCount_le: "GetSigOpCount v pc \<le> 20 * length pc"
proof (induction v pc rule: GetSigOpCount.induct)
  case (1 v pc)
  show ?case
  proof (cases "GetOp pc")
    case None
    then show ?thesis by (subst GetSigOpCount.simps) simp
  next
    case (Some x)
    obtain opc d r where x: "x = (opc, d, r)" by (metis prod_cases3)
    have "pc \<noteq> []" using Some by (auto simp: GetOp_def)
    then have IH: "GetSigOpCount v r \<le> 20 * length r" using 1 Some x by blast
    obtain p where "pc = p @ r" "length d < length p" using GetOp_local_ex [of pc opc d r] Some x by blast
    then have "length r < length pc" by (cases p) auto
    then show ?thesis
      using IH sigop_cost_le [of v opc] \<open>pc \<noteq> []\<close> Some x by (subst GetSigOpCount.simps) simp
  qed
qed

text \<open>An address costs at most one signature operation.\<close>

lemma GetSigOpCount_one:
  assumes "OP_PUSHDATA4 < unat b" "unat b < OP_SINGLEBYTE_END"
  shows "GetSigOpCount v (b # pc) = sigop_cost v (unat b) + GetSigOpCount v pc"
  by (subst GetSigOpCount.simps) (simp add: GetOp_one [OF assms])

lemma GetSigOpCount_push20:
  assumes "20 \<le> length pc"
  shows "GetSigOpCount v (20 # pc) = GetSigOpCount v (drop 20 pc)"
proof -
  have "GetOp (20 # take 20 pc @ drop 20 pc) = Some (20, take 20 pc, drop 20 pc)"
    using GetOp_direct_push [of "take 20 pc" "drop 20 pc"] assms by simp
  then show ?thesis by (subst GetSigOpCount.simps) (simp add: sigop_cost_def opcodes)
qed

lemma nth_drop_Cons: "i < length s \<Longrightarrow> drop i s = s ! i # drop (Suc i) s"
  by (rule Cons_nth_drop_Suc [symmetric])

lemma IsPayoutScript_sigops:
  assumes "IsPayoutScript s"
  shows "GetSigOpCount v s \<le> 1"
proof -
  have E: "GetSigOpCount v [] = 0" by (subst GetSigOpCount.simps) simp
  from assms consider
    "length s = 25" "unat (s ! 0) = OP_DUP" "unat (s ! 1) = OP_HASH160" "s ! 2 = 20"
      "unat (s ! 23) = OP_EQUALVERIFY" "unat (s ! 24) = OP_CHECKSIG"
    | "length s = 23" "unat (s ! 0) = OP_HASH160" "s ! 1 = 20" "unat (s ! 22) = OP_EQUAL"
    unfolding IsPayoutScript_def by blast
  then show ?thesis
  proof cases
    case 1
    have s: "s = s ! 0 # s ! 1 # 20 # drop 3 s"
      using nth_drop_Cons [of 0 s] nth_drop_Cons [of 1 s] nth_drop_Cons [of 2 s] 1(1,4) by (simp add: numeral_eq_Suc)
    have d: "drop 23 s = [s ! 23, s ! 24]"
      using nth_drop_Cons [of 23 s] nth_drop_Cons [of 24 s] 1(1) by simp
    have "GetSigOpCount v s = GetSigOpCount v (s ! 0 # s ! 1 # 20 # drop 3 s)" using s by simp
    also have "\<dots> = GetSigOpCount v (20 # drop 3 s)"
      using 1(2,3) by (simp add: GetSigOpCount_one opcodes sigop_cost_def)
    also have "\<dots> = GetSigOpCount v [s ! 23, s ! 24]"
      using 1(1) d by (simp add: GetSigOpCount_push20)
    also have "\<dots> \<le> 1"
      using 1(5,6) by (simp add: GetSigOpCount_one opcodes sigop_cost_def E)
    finally show ?thesis .
  next
    case 2
    have s: "s = s ! 0 # 20 # drop 2 s"
      using nth_drop_Cons [of 0 s] nth_drop_Cons [of 1 s] 2(1,3) by (simp add: numeral_eq_Suc)
    have d: "drop 22 s = [s ! 22]" using nth_drop_Cons [of 22 s] 2(1) by simp
    have "GetSigOpCount v s = GetSigOpCount v (s ! 0 # 20 # drop 2 s)" using s by simp
    also have "\<dots> = GetSigOpCount v (20 # drop 2 s)"
      using 2(2) by (simp add: GetSigOpCount_one opcodes sigop_cost_def)
    also have "\<dots> = GetSigOpCount v [s ! 22]" using 2(1) d by (simp add: GetSigOpCount_push20)
    also have "\<dots> \<le> 1" using 2(4) by (simp add: GetSigOpCount_one opcodes sigop_cost_def E)
    finally show ?thesis .
  qed
qed

lemma share_coinbase_sigops:
  assumes "share_work_ok E N s flr powChecked"
  shows "tx_GetSigOpCount v (coinbase s) \<le> 8480"
proof -
  have A: "IsCoinBase (coinbase s)" "tx_sane (coinbase s)" "length (vout (coinbase s)) \<le> 6480"
    "\<forall>x \<in> set (vout (coinbase s)). IsPayoutScript (scriptPubKey x)"
    using assms by (simp_all add: share_work_ok_def)
  obtain i where i: "vin (coinbase s) = [i]"
    using A(1) by (auto simp: IsCoinBase_def length_Suc_conv)
  then have "length (scriptSig i) \<le> 100" using A(1,2) by (simp add: tx_sane_def)
  then have ins: "GetSigOpCount v (scriptSig i) \<le> 2000"
    using GetSigOpCount_le [of v "scriptSig i"] by linarith
  have "sum_list (map (\<lambda>o1. GetSigOpCount v (scriptPubKey o1)) xs) \<le> length xs"
    if "\<forall>x \<in> set xs. IsPayoutScript (scriptPubKey x)" for xs
    using that
  proof (induction xs)
    case (Cons x xs)
    then have "GetSigOpCount v (scriptPubKey x) \<le> 1" using IsPayoutScript_sigops by simp
    then show ?case using Cons by simp
  qed simp
  from this [OF A(4)] have "sum_list (map (\<lambda>o1. GetSigOpCount v (scriptPubKey o1)) (vout (coinbase s))) \<le> 6480"
    using A(3) by linarith
  then show ?thesis using ins by (simp add: tx_GetSigOpCount_def i)
qed

section \<open>Work\<close>

context openssl_bn
begin

lemma WorkOf:
  assumes "0 < SetCompact E (unat bits)"
  shows "int (WorkOf E bits) = min (2 ^ 64 - 1) (2 ^ 256 div (SetCompact E (unat bits) + 1))"
proof -
  define T where "T = SetCompact E (unat bits)"
  define W where "W = 2 ^ 256 div (T + 1)"
  have T: "0 < T" using assms by (simp add: T_def)
  have W: "0 \<le> W" "bn_quot (2 ^ 256) (T + 1) = W"
    using T by (simp_all add: W_def bn_quot_nonneg pos_imp_zdiv_nonneg_iff)
  have mx: "setuint64 E (2 ^ 64 - 1) = 2 ^ 64 - 1" by (subst setuint64) simp_all
  have unf: "WorkOf E bits = (if T \<le> 0 then 0 else if 2 ^ 64 - 1 < W then 2 ^ 64 - 1
      else le_nat (take 8 (bytes_of_uint256 (getuint256 E W))))"
    by (simp only: WorkOf_def Let_def mx W(2) T_def [symmetric])
  have "int (WorkOf E bits) = min (2 ^ 64 - 1) W"
  proof (cases "2 ^ 64 - 1 < W")
    case True
    then show ?thesis using T by (simp add: unf)
  next
    case False
    then have small: "nat \<bar>W\<bar> < 2 ^ 64" using W(1) by (simp add: nat_less_iff)
    then have u: "unat (getuint256 E W) = nat W" using getuint256_abs [of W] W(1) by simp
    have "le_nat (take 8 (bytes_of_uint256 (getuint256 E W))) = nat W mod 256 ^ 8"
    proof -
      have "nat W = le_nat (take 8 (bytes_of_uint256 (getuint256 E W)) @ drop 8 (bytes_of_uint256 (getuint256 E W)))"
        by (simp add: u)
      also have "\<dots> = le_nat (take 8 (bytes_of_uint256 (getuint256 E W))) +
          256 ^ 8 * le_nat (drop 8 (bytes_of_uint256 (getuint256 E W)))"
        by (simp only: le_nat_append) simp
      finally show ?thesis
        using le_nat_bound [of "take 8 (bytes_of_uint256 (getuint256 E W))"] by simp
    qed
    then have "WorkOf E bits = nat W"
      using T False small W(1) by (simp add: unf)
    then show ?thesis using W(1) False by simp
  qed
  then show ?thesis by (simp only: W_def T_def)
qed

end

section \<open>The window\<close>

lemma uncle_pay:
  assumes "w < 2 ^ 64"
  shows "uncle_pay w = 4 * w div 5"
proof -
  define q r where "q = w div 5" and "r = w mod 5"
  have "w = 5 * q + r" by (simp add: q_def r_def)
  then have "4 * w = 5 * (4 * q) + 4 * r" by simp
  then have "4 * w div 5 = 4 * q + 4 * r div 5" by simp
  then have "4 * w div 5 = w div 5 * 4 + w mod 5 * 4 div 5" by (simp add: q_def r_def mult.commute)
  moreover have "4 * w div 5 < 2 ^ 64" using assms by simp
  ultimately show ?thesis by (simp add: uncle_pay_def u64_def)
qed

text \<open>The work of a share and of the uncles it names, as far as they are held.\<close>

definition uncle_works :: "share_chain \<Rightarrow> uint256 list \<Rightarrow> nat" where
  "uncle_works C us = sum_list (map (work_at C) us)"

definition small_works :: "share_chain \<Rightarrow> bool" where
  "small_works C \<longleftrightarrow> (\<forall>h e. Get C h = Some e \<longrightarrow> work e < 2 ^ 62 \<and> length (uncles_of e) \<le> 2)"

lemma credit_uncles_work:
  "small_works C \<Longrightarrow> length us \<le> 2 \<Longrightarrow> credit_uncles C us = Some (v, bonus) \<Longrightarrow>
    total_work v + bonus = uncle_works C us \<and> bonus \<le> length us * 2 ^ 62"
proof (induction us arbitrary: v bonus)
  case (Cons h us)
  obtain u v' b where u: "Get C h = Some u" and v': "credit_uncles C us = Some (v', b)"
    and r: "v = (if uncle_pay (work u) = 0 then []
        else [\<lparr>payoutScript = sd_payoutScript (sh_data (share u)), ws_work = uncle_pay (work u)\<rparr>]) @ v'"
      "bonus = u64 (b + (work u - uncle_pay (work u)))"
    using Cons.prems(3) by (auto simp: Let_def split: option.split_asm prod.split_asm)
  have w: "work u < 2 ^ 62" using Cons.prems(1) u by (auto simp: small_works_def)
  then have p: "uncle_pay (work u) \<le> work u" by (simp add: uncle_pay)
  have IH: "total_work v' + b = uncle_works C us \<and> b \<le> length us * 2 ^ 62"
    using Cons.IH [OF Cons.prems(1) _ v'] Cons.prems(2) by simp
  have "length us * 2 ^ 62 \<le> (1::nat) * 2 ^ 62" using Cons.prems(2) by (intro mult_right_mono) simp_all
  then have "b \<le> 2 ^ 62" using IH by (metis (no_types) mult_1 order_trans)
  then have "b + (work u - uncle_pay (work u)) < 2 ^ 64" using w by simp
  then have "bonus = b + (work u - uncle_pay (work u))" by (simp add: r(2) u64_def)
  moreover have "b + (work u - uncle_pay (work u)) \<le> 2 ^ 62 + length us * 2 ^ 62"
    using IH w by (intro order_trans [OF add_mono [of b "length us * 2 ^ 62" _ "2 ^ 62"]]) auto
  ultimately show ?case using IH p by (simp add: r(1) uncle_works_def work_at_def u)
qed (simp add: uncle_works_def)

lemma credit_share_work:
  assumes "small_works C" "length us \<le> 2" "w < 2 ^ 62" "credit_share C script w us = Some v"
  shows "total_work v = w + uncle_works C us"
proof -
  obtain v' b where v': "credit_uncles C us = Some (v', b)" "v = v' @ [\<lparr>payoutScript = script, ws_work = u64 (w + b)\<rparr>]"
    using assms(4) by (auto simp: credit_share_def split: option.split_asm prod.split_asm)
  have B: "total_work v' + b = uncle_works C us \<and> b \<le> length us * 2 ^ 62"
    by (rule credit_uncles_work [OF assms(1,2) v'(1)])
  have "length us * 2 ^ 62 \<le> (2::nat) * 2 ^ 62" using assms(2) by (intro mult_right_mono) simp_all
  then have "w + b < 2 ^ 64" using B assms(3) by simp
  then show ?thesis using B by (simp add: v'(2) u64_def)
qed

text \<open>The entries of the window behind a share: the line from its parent, until it starts.\<close>

primrec back_line :: "share_chain \<Rightarrow> uint256 \<Rightarrow> nat \<Rightarrow> share_entry list" where
  "back_line C cur 0 = []"
| "back_line C cur (Suc k) =
    (if cur = 0 then [] else case Get C cur of None \<Rightarrow> [] | Some e \<Rightarrow> e # back_line C (parent_of e) k)"

lemma window_line_work:
  "small_works C \<Longrightarrow> window_line C cur k = Some v \<Longrightarrow>
    total_work v = (\<Sum>e\<leftarrow>back_line C cur k. work e + uncle_works C (uncles_of e))"
proof (induction k arbitrary: cur v)
  case (Suc k)
  show ?case
  proof (cases "cur = 0")
    case False
    obtain e v1 v2 where e: "Get C cur = Some e"
      and v1: "credit_share C (sd_payoutScript (sh_data (share e))) (work e) (uncles_of e) = Some v1"
      and v2: "window_line C (parent_of e) k = Some v2" and v: "v = v1 @ v2"
      using Suc.prems(2) False by (auto split: option.split_asm)
    have "work e < 2 ^ 62" "length (uncles_of e) \<le> 2" using Suc.prems(1) e by (auto simp: small_works_def)
    then have "total_work v1 = work e + uncle_works C (uncles_of e)"
      using credit_share_work [OF Suc.prems(1) _ _ v1] by simp
    then show ?thesis using Suc.IH [OF Suc.prems(1) v2] False e v by simp
  qed (use Suc in simp)
qed simp

lemma WindowFor_work:
  assumes "small_works C" "length (vUncles d) \<le> 2" "w < 2 ^ 62" "WindowFor C d w = Some v"
  shows "total_work v = w + uncle_works C (vUncles d) +
    (\<Sum>e\<leftarrow>back_line C (hashPrevShare d) 2159. work e + uncle_works C (uncles_of e))"
proof -
  obtain v1 v2 where v: "credit_share C (sd_payoutScript d) w (vUncles d) = Some v1"
    "window_line C (hashPrevShare d) (WINDOW_SHARES - 1) = Some v2" "v = v1 @ v2"
    using assms(4) by (auto simp: WindowFor_def split: option.split_asm)
  show ?thesis
    using credit_share_work [OF assms(1-3) v(1)] window_line_work [OF assms(1) v(2)]
    by (simp add: v(3) WINDOW_SHARES_def)
qed

section \<open>Uncles\<close>

lemma take_candidates_in:
  "h \<in> set (take_candidates C parent height xs k) \<Longrightarrow>
    \<exists>e. (h, e) \<in> set xs \<and> \<not> (height \<le> en_nHeight e \<or> en_nHeight e < height - MAX_UNCLE_DEPTH \<or> fTrusted e \<or>
        OnLine C h parent MAX_UNCLE_DEPTH \<or> \<not> OnLine C (parent_of e) parent MAX_UNCLE_DEPTH \<or>
        UncleTaken C h parent MAX_UNCLE_DEPTH)"
  by (induction C parent height xs k rule: take_candidates.induct) (auto split: if_split_asm)

lemma take_candidates_length: "length (take_candidates C parent height xs k) \<le> k"
  by (induction C parent height xs k rule: take_candidates.induct) (auto simp: le_diff_conv)

lemma take_candidates_distinct:
  "distinct (map fst xs) \<Longrightarrow> distinct (take_candidates C parent height xs k)"
proof (induction C parent height xs k rule: take_candidates.induct)
  case (2 C parent height h e rest k)
  have "h \<notin> set (take_candidates C parent height rest (k - 1))"
    using take_candidates_in [of h C parent height rest "k - 1"] 2(3) by force
  then show ?case using 2 by simp
qed simp

lemma check_uncles_iff:
  "check_uncles C named us parent height = None \<longleftrightarrow>
    (\<forall>u \<in> set us. count_list named u = 1 \<and> UncleProblem C u parent height = None)"
  by (induction us) (auto split: option.split)

lemma distinct_count: "distinct xs \<Longrightarrow> x \<in> set xs \<Longrightarrow> count_list xs x = 1"
  by (induction xs) (auto simp: count_list_0_iff)

lemma in_sorted_list_of_fmap: "(h, e) \<in> set (sorted_list_of_fmap m) \<longleftrightarrow> fmlookup m h = Some e"
  by (auto simp: sorted_list_of_fmap_def fmlookup_dom_iff image_iff)

lemma UncleCandidates_ok:
  assumes "Get C parent = Some p" and "vUncles d = UncleCandidates C parent"
  shows "CheckUncles C d parent (en_nHeight p + 1) = None \<and> length (vUncles d) \<le> MAX_UNCLES"
proof -
  define xs where "xs = sorted_list_of_fmap (mapShares C)"
  have us: "vUncles d = take_candidates C parent (en_nHeight p + 1) xs MAX_UNCLES"
    using assms by (simp add: UncleCandidates_def xs_def)
  have "map fst xs = sorted_list_of_fset (fmdom (mapShares C))" by (simp add: xs_def sorted_list_of_fmap_def comp_def)
  then have "distinct (map fst xs)" by (simp add: sorted_list_of_fset.rep_eq)
  then have D: "distinct (vUncles d)" unfolding us by (rule take_candidates_distinct)
  have "UncleProblem C u parent (en_nHeight p + 1) = None" if "u \<in> set (vUncles d)" for u
    using take_candidates_in [OF that [unfolded us]] unfolding xs_def in_sorted_list_of_fmap
    by (auto simp: UncleProblem_def)
  then show ?thesis
    using distinct_count [OF D] take_candidates_length [of C parent "en_nHeight p + 1" xs MAX_UNCLES]
    by (simp add: CheckUncles_def check_uncles_iff us [symmetric])
qed

end
