(* ===== verification/ShareInv.thy ===== *)
theory ShareInv
  imports ShareProps
begin

text \<open>
  What holds of a share chain whatever it is given: every share is under its own id, the bytes
  held on trust are counted exactly and bounded, and the tip is a share checked in full.  And
  what the choice of the tip rests on: the walks return, because an id commits to its parent,
  and a switch of the tip is not undone.
\<close>

section \<open>The next target\<close>

definition mean_target :: "ext \<Rightarrow> share_chain \<Rightarrow> uint256 \<Rightarrow> int" where
  "mean_target E C h =
    sum_list (map (\<lambda>e. SetCompact E (unat (nShareBits (sh_data (share e))))) (line C h RETARGET_SHARES)) div 720"

context openssl_bn
begin

lemma compact_positive:
  assumes "1 \<le> x" "x \<le> bnProofOfWorkLimit"
  shows "0 < SetCompact E (GetCompact E x) \<and> SetCompact E (GetCompact E x) \<le> x"
proof -
  have L: "length (mpi_body x) < 256" by (rule below_limit_length) (use assms in simp_all)
  have "256 * (x - SetCompact E (GetCompact E x)) \<le> x" by (rule compact_loss) (use assms L in simp_all)
  moreover have "SetCompact E (GetCompact E x) \<le> x" by (rule compact_rounds_down) (use assms L in simp_all)
  ultimately show ?thesis using assms(1) by auto
qed

lemma NextShareBits_bounds:
  assumes floor: "1 \<le> bnFloor C" "bnFloor C \<le> bnProofOfWorkLimit"
    and targets: "\<forall>e \<in> set (line C h RETARGET_SHARES). 0 \<le> SetCompact E (unat (nShareBits (sh_data (share e))))"
  shows "0 < SetCompact E (NextShareBits E C h) \<and> SetCompact E (NextShareBits E C h) \<le> bnFloor C \<and>
    (sc_Height C h + 1 < 720 \<or> SetCompact E (NextShareBits E C h) \<le> max 1 (4 * mean_target E C h))"
proof (cases "Get C h")
  case None
  then show ?thesis using compact_positive [OF floor] by (simp add: NextShareBits_def sc_Height_def)
next
  case (Some p)
  show ?thesis
  proof (cases "en_nHeight p + 1 < int RETARGET_SHARES")
    case True
    then show ?thesis using compact_positive [OF floor] Some by (simp add: NextShareBits_def sc_Height_def RETARGET_SHARES_def)
  next
    case False
    define M where "M = mean_target E C h"
    define S where "S = sum_list (map (\<lambda>e. SetCompact E (unat (nShareBits (sh_data (share e))))) (line C h RETARGET_SHARES))"
    define d where "d = int (unat (sh_nTime (share p))) - int (unat (sh_nTime (share (last (line C h RETARGET_SHARES)))))"
    define t where "t = (if 7190 * 4 < (if d < 1797 then 1797 else d) then 7190 * 4 else (if d < 1797 then 1797 else d))"
    have S0: "0 \<le> S" unfolding S_def using targets by (intro sum_list_nonneg) auto
    then have M: "0 \<le> M" "bn_quot S (int RETARGET_SHARES) = M"
      by (simp_all add: M_def S_def mean_target_def RETARGET_SHARES_def bn_quot_nonneg pos_imp_zdiv_nonneg_iff)
    have t: "1797 \<le> t" "t \<le> 28760" by (auto simp: t_def)
    define q where "q = bn_quot (M * t) 7190"
    have "M * t \<le> M * 28760" using M t by (intro mult_left_mono) auto
    then have q: "q \<le> 4 * M" using M t by (simp add: q_def bn_quot_nonneg)
    define r where "r = (if (if bnFloor C < q then bnFloor C else q) < 1 then 1 else if bnFloor C < q then bnFloor C else q)"
    have r: "1 \<le> r" "r \<le> bnFloor C" "r \<le> max 1 (4 * M)" using floor q by (auto simp: r_def)
    have "NextShareBits E C h = GetCompact E r"
      unfolding NextShareBits_def Some r_def q_def t_def d_def
      using False M(2) by (simp add: Let_def SHARE_SPACING_def RETARGET_SHARES_def flip: S_def) (simp add: S_def RETARGET_SHARES_def)
    moreover have "0 < SetCompact E (GetCompact E r) \<and> SetCompact E (GetCompact E r) \<le> r"
      by (rule compact_positive) (use r floor in simp_all)
    ultimately show ?thesis using r by (auto simp: M_def)
  qed
qed

end

section \<open>Walks\<close>

text \<open>
  \<open>grounded\<close>: an order on ids along which every share held follows its parent.  There is one as
  long as no set of ids is a cycle of hashes.
\<close>

definition grounded :: "share_chain \<Rightarrow> (uint256 \<Rightarrow> nat) \<Rightarrow> bool" where
  "grounded C rank \<longleftrightarrow> (\<forall>h e. Get C h = Some e \<longrightarrow> Has C (parent_of e) \<longrightarrow> rank (parent_of e) < rank h)"

definition left :: "share_chain \<Rightarrow> (uint256 \<Rightarrow> nat) \<Rightarrow> uint256 \<Rightarrow> nat" where
  "left C rank h = (if Has C h then Suc (rank h) else 0)"

lemma left_parent: "grounded C rank \<Longrightarrow> Get C h = Some e \<Longrightarrow> left C rank (parent_of e) < left C rank h"
  by (auto simp: grounded_def left_def Has_def)

lemma meet_returns:
  "grounded C rank \<Longrightarrow> \<exists>r. meet C a b x y = Some r"
proof (induction "left C rank a + left C rank b" arbitrary: a b x y rule: less_induct)
  case less
  show ?case
  proof (cases "Get C a = None \<or> Get C b = None \<or> a = b")
    case True
    then show ?thesis by (subst meet.simps) (auto split: option.split)
  next
    case False
    then obtain ea eb where e: "Get C a = Some ea" "Get C b = Some eb" "a \<noteq> b" by auto
    have "\<exists>r. meet C (parent_of ea) b (x + bnOwnWork ea) y = Some r"
      by (rule less.hyps) (use left_parent [OF less.prems e(1)] less.prems in simp_all)
    moreover have "\<exists>r. meet C a (parent_of eb) x (y + bnOwnWork eb) = Some r"
      by (rule less.hyps) (use left_parent [OF less.prems e(2)] less.prems in simp_all)
    ultimately show ?thesis using e by (subst meet.simps) simp
  qed
qed

lemma root_walk_returns:
  "grounded C rank \<Longrightarrow> Has C h \<Longrightarrow> \<exists>r p. root_walk C roots h path = Some (r, p)"
proof (induction "rank h" arbitrary: h path rule: less_induct)
  case less
  obtain e where e: "Get C h = Some e" using less.prems(2) by (auto simp: Has_def)
  show ?case
  proof (cases "roots h = None \<and> Has C (parent_of e)")
    case False
    then show ?thesis using e by (subst root_walk.simps) (auto split: option.split)
  next
    case True
    then have "rank (parent_of e) < rank h" using less.prems(1) e by (auto simp: grounded_def)
    then have "\<exists>r p. root_walk C roots (parent_of e) (h # path) = Some (r, p)"
      using less True by blast
    then show ?thesis using e True by (subst root_walk.simps) simp
  qed
qed

lemma RootOf_returns: "grounded C rank \<Longrightarrow> Has C h \<Longrightarrow> \<exists>r roots'. RootOf C h roots = Some (r, roots')"
  using root_walk_returns [of C rank h roots "[]"] by (auto simp: RootOf_def)

lemma prune_roots_returns:
  "grounded C rank \<Longrightarrow> \<forall>(h, e) \<in> set xs. Has C h \<Longrightarrow> prune_roots C xs roots nTop \<noteq> None"
proof (induction C xs roots nTop rule: prune_roots.induct)
  case (2 C h e xs roots nTop)
  obtain r roots' where r: "RootOf C h roots = Some (r, roots')"
    using RootOf_returns [OF 2(2), of h roots] 2(3) by auto
  have "prune_roots C xs roots' (nTop(r \<mapsto> max (case nTop r of None \<Rightarrow> - 1 | Some n \<Rightarrow> n) (en_nHeight e))) \<noteq> None"
    by (rule 2(1) [OF r refl refl 2(2)]) (use 2(3) in simp)
  then show ?case by (simp add: r Let_def)
qed simp

lemma grounded_update [simp]:
  "grounded (C\<lparr>hashTip := t\<rparr>) rank = grounded C rank" "grounded (C\<lparr>nLastPruneCut := n\<rparr>) rank = grounded C rank"
  by (simp_all add: grounded_def Has_def)

lemma Prune_returns: "grounded C rank \<Longrightarrow> Prune C \<noteq> None"
proof -
  assume g: "grounded C rank"
  have "prune_roots (C\<lparr>nLastPruneCut := n\<rparr>) (sorted_list_of_fmap (mapShares C)) Map.empty Map.empty \<noteq> None" for n
    by (rule prune_roots_returns [of _ rank]) (use g in \<open>auto simp: in_sorted_list_of_fmap Has_def\<close>)
  then show ?thesis by (auto simp: Prune_def Let_def split: option.split)
qed

lemma Heavier_returns: "grounded C rank \<Longrightarrow> Heavier C h now \<noteq> None"
  using meet_returns [of C rank h "hashTip C" 0 0]
  by (auto simp: Heavier_def LinesMeet_def Let_def split: option.split)

text \<open>The walks do not depend on which of two lines is the first.\<close>

definition level :: "share_chain \<Rightarrow> bool" where
  "level C \<longleftrightarrow> (\<forall>h e p. Get C h = Some e \<longrightarrow> Get C (parent_of e) = Some p \<longrightarrow> en_nHeight e = en_nHeight p + 1)"

lemma meet_swap:
  "grounded C rank \<Longrightarrow> level C \<Longrightarrow>
    meet C b a y x = map_option (map_option prod.swap) (meet C a b x y)"
proof (induction "left C rank a + left C rank b" arbitrary: a b x y rule: less_induct)
  case less
  show ?case
  proof (cases "Get C a = None \<or> Get C b = None \<or> a = b")
    case True
    then show ?thesis
      by (subst meet.simps, subst (2) meet.simps) (auto split: option.split)
  next
    case False
    then obtain ea eb where e: "Get C a = Some ea" "Get C b = Some eb" "a \<noteq> b" by auto
    note la = left_parent [OF less.prems(1) e(1)] and lb = left_parent [OF less.prems(1) e(2)]
    have IHa: "meet C b (parent_of ea) y (x + bnOwnWork ea) =
        map_option (map_option prod.swap) (meet C (parent_of ea) b (x + bnOwnWork ea) y)"
      by (rule less.hyps) (use la less.prems in simp_all)
    have IHb: "meet C (parent_of eb) a (y + bnOwnWork eb) x =
        map_option (map_option prod.swap) (meet C a (parent_of eb) x (y + bnOwnWork eb))"
      by (rule less.hyps) (use lb less.prems in simp_all)
    have IHab: "meet C (parent_of eb) (parent_of ea) (y + bnOwnWork eb) (x + bnOwnWork ea) =
        map_option (map_option prod.swap) (meet C (parent_of ea) (parent_of eb) (x + bnOwnWork ea) (y + bnOwnWork eb))"
      by (rule less.hyps) (use la lb less.prems in simp_all)
    consider (more) "en_nHeight eb < en_nHeight ea" | (fewer) "en_nHeight ea < en_nHeight eb"
      | (same) "en_nHeight ea = en_nHeight eb" by linarith
    then show ?thesis
    proof cases
      case more
      then show ?thesis using e IHa by (subst meet.simps, subst (2) meet.simps) simp
    next
      case fewer
      then show ?thesis using e IHb by (subst meet.simps, subst (2) meet.simps) simp
    next
      case same
      have one: "meet C a b x y = meet C (parent_of ea) b (x + bnOwnWork ea) y"
        using e same by (subst meet.simps) simp
      have two: "meet C b a y x = meet C (parent_of eb) a (y + bnOwnWork eb) x"
        using e same by (subst meet.simps) simp
      show ?thesis
      proof (cases "Has C (parent_of ea) \<and> Has C (parent_of eb)")
        case True
        then obtain pa pb where p: "Get C (parent_of ea) = Some pa" "Get C (parent_of eb) = Some pb"
          by (auto simp: Has_def)
        have h: "en_nHeight pa < en_nHeight eb" "en_nHeight pb < en_nHeight ea"
          using less.prems(2) e p same by (fastforce simp: level_def)+
        have ne: "parent_of ea \<noteq> b" "parent_of eb \<noteq> a" using h e p by auto
        have "meet C (parent_of ea) b (x + bnOwnWork ea) y =
            meet C (parent_of ea) (parent_of eb) (x + bnOwnWork ea) (y + bnOwnWork eb)"
          using e p h ne by (subst meet.simps) simp
        moreover have "meet C (parent_of eb) a (y + bnOwnWork eb) x =
            meet C (parent_of eb) (parent_of ea) (y + bnOwnWork eb) (x + bnOwnWork ea)"
          using e p h ne by (subst meet.simps) simp
        ultimately show ?thesis using one two IHab by simp
      next
        case gone: False
        have A: "meet C (parent_of ea) b (x + bnOwnWork ea) y = Some None"
        proof (cases "Has C (parent_of ea)")
          case False
          then show ?thesis by (subst meet.simps) (simp add: Has_def)
        next
          case True
          then obtain pa where p: "Get C (parent_of ea) = Some pa" by (auto simp: Has_def)
          have h: "en_nHeight pa < en_nHeight eb" using less.prems(2) e p same by (fastforce simp: level_def)
          then have ne: "parent_of ea \<noteq> b" using e p by auto
          have "Get C (parent_of eb) = None" using gone True by (auto simp: Has_def)
          then show ?thesis using e p h ne by (subst meet.simps) (simp add: meet.simps [of C _ "parent_of eb"])
        qed
        have B: "meet C (parent_of eb) a (y + bnOwnWork eb) x = Some None"
        proof (cases "Has C (parent_of eb)")
          case False
          then show ?thesis by (subst meet.simps) (simp add: Has_def)
        next
          case True
          then obtain pb where p: "Get C (parent_of eb) = Some pb" by (auto simp: Has_def)
          have h: "en_nHeight pb < en_nHeight ea" using less.prems(2) e p same by (fastforce simp: level_def)
          then have ne: "parent_of eb \<noteq> a" using e p by auto
          have "Get C (parent_of ea) = None" using gone True by (auto simp: Has_def)
          then show ?thesis using e p h ne by (subst meet.simps) (simp add: meet.simps [of C _ "parent_of ea"])
        qed
        show ?thesis using one two A B by simp
      qed
    qed
  qed
qed

text \<open>A switch of the tip is not undone: seen from the new tip, the old one is not heavier.\<close>

lemma meet_work_nonneg:
  "grounded C rank \<Longrightarrow> \<forall>h e. Get C h = Some e \<longrightarrow> 0 \<le> bnOwnWork e \<Longrightarrow>
    meet C a b x y = Some (Some (x', y')) \<Longrightarrow> x \<le> x' \<and> y \<le> y'"
proof (induction "left C rank a + left C rank b" arbitrary: a b x y rule: less_induct)
  case less
  obtain ea eb where e: "Get C a = Some ea" "Get C b = Some eb"
    using less.prems(3) by (subst (asm) meet.simps) (auto split: option.split_asm)
  have w: "0 \<le> bnOwnWork ea" "0 \<le> bnOwnWork eb" using less.prems(2) e by blast+
  consider (met) "a = b" | (lower_a) "a \<noteq> b" "en_nHeight eb \<le> en_nHeight ea"
    | (lower_b) "a \<noteq> b" "\<not> en_nHeight eb \<le> en_nHeight ea" by blast
  then show ?case
  proof cases
    case met
    then show ?thesis using less.prems(3) e by (subst (asm) meet.simps) simp
  next
    case lower_a
    then have "meet C (parent_of ea) b (x + bnOwnWork ea) y = Some (Some (x', y'))"
      using less.prems(3) e by (subst (asm) meet.simps) simp
    then have "x + bnOwnWork ea \<le> x' \<and> y \<le> y'"
      by (rule less.hyps [OF _ less.prems(1,2), rotated]) (use left_parent [OF less.prems(1) e(1)] in simp)
    then show ?thesis using w by simp
  next
    case lower_b
    then have "meet C a (parent_of eb) x (y + bnOwnWork eb) = Some (Some (x', y'))"
      using less.prems(3) e by (subst (asm) meet.simps) simp
    then have "x \<le> x' \<and> y + bnOwnWork eb \<le> y'"
      by (rule less.hyps [OF _ less.prems(1,2), rotated]) (use left_parent [OF less.prems(1) e(2)] in simp)
    then show ?thesis using w by simp
  qed
qed

text \<open>Building on the tip: the lines meet at the tip, and the tip has no work above it.\<close>

lemma meet_child:
  assumes "grounded C rank" "\<forall>h e. Get C h = Some e \<longrightarrow> 0 \<le> bnOwnWork e" "level C"
    and "Get C t = Some et" "Get C c = Some ec" "parent_of ec = t" "c \<noteq> t"
  shows "meet C t c 0 0 = Some (Some (0, bnOwnWork ec))"
proof -
  have "en_nHeight ec = en_nHeight et + 1" using assms(3-6) by (auto simp: level_def)
  then have "meet C t c 0 0 = meet C t t 0 (bnOwnWork ec)"
    using assms(4-7) by (subst meet.simps) simp
  also have "\<dots> = Some (Some (0, bnOwnWork ec))" using assms(4) by (subst meet.simps) simp
  finally show ?thesis .
qed

lemma meet_tip_irrelevant: "meet (C\<lparr>hashTip := t\<rparr>) a b x y = meet C a b x y" if g: "grounded C rank"
  using g
proof (induction "left C rank a + left C rank b" arbitrary: a b x y rule: less_induct)
  case less
  show ?case
  proof (cases "Get C a = None \<or> Get C b = None \<or> a = b")
    case True
    then show ?thesis by (subst meet.simps, subst (2) meet.simps) (auto split: option.split)
  next
    case False
    then obtain ea eb where e: "Get C a = Some ea" "Get C b = Some eb" "a \<noteq> b" by auto
    have "meet (C\<lparr>hashTip := t\<rparr>) (parent_of ea) b (x + bnOwnWork ea) y = meet C (parent_of ea) b (x + bnOwnWork ea) y"
      "meet (C\<lparr>hashTip := t\<rparr>) a (parent_of eb) x (y + bnOwnWork eb) = meet C a (parent_of eb) x (y + bnOwnWork eb)"
      using left_parent [OF less.prems e(1)] left_parent [OF less.prems e(2)] less by simp_all
    then show ?thesis using e by (subst meet.simps, subst (2) meet.simps) simp
  qed
qed

lemma line_tip_irrelevant [simp]: "line (C\<lparr>hashTip := t\<rparr>) h k = line C h k"
  by (induction k arbitrary: h) (auto split: option.split)

lemma Heavier_not_undone:
  assumes g: "grounded C rank" "level C" and w: "\<forall>h e. Get C h = Some e \<longrightarrow> 0 \<le> bnOwnWork e"
    and t: "Get C (hashTip C) = Some et" and c: "Get C c = Some ec" "c \<noteq> hashTip C"
    and apart: "parent_of et \<noteq> c" and heavier: "Heavier C c now = Some True"
    and fresh: "parent_of ec = hashTip C \<Longrightarrow> now - TIP_MAX_AGE \<le> int (unat (sh_nTime (share ec)))"
  shows "Heavier (C\<lparr>hashTip := c\<rparr>) (hashTip C) now = Some False"
proof (cases "fTrusted et")
  case True
  then show ?thesis using t by (simp add: Heavier_def)
next
  case False
  define liveC where "liveC \<longleftrightarrow> now - TIP_MAX_AGE \<le> int (unat (sh_nTime (share ec)))"
  define liveT where "liveT \<longleftrightarrow> now - TIP_MAX_AGE \<le> int (unat (sh_nTime (share et)))"
  have full: "\<not> fTrusted ec" using heavier c(1) by (auto simp: Heavier_def)
  have swap: "LinesMeet C (hashTip C) c = map_option (map_option prod.swap) (LinesMeet C c (hashTip C))"
    unfolding LinesMeet_def by (rule meet_swap [OF g])
  have backward: "Heavier (C\<lparr>hashTip := c\<rparr>) (hashTip C) now =
      (if liveT \<noteq> liveC then Some liveT
       else (case LinesMeet C (hashTip C) c of
         None \<Rightarrow> None
       | Some (Some (bnC, bnT)) \<Rightarrow> Some (bnT < bnC)
       | Some None \<Rightarrow> Some (LineWork C c < LineWork C (hashTip C))))"
    using t c apart False
    by (simp add: Heavier_def Let_def LinesMeet_def LineWork_def meet_tip_irrelevant [OF g(1)] liveC_def liveT_def
        split: option.split)
  show ?thesis
  proof (cases "parent_of ec = hashTip C")
    case True
    have M: "LinesMeet C (hashTip C) c = Some (Some (0, bnOwnWork ec))"
      unfolding LinesMeet_def using meet_child [OF g(1) w g(2) t c(1) True] c(2) by simp
    have "liveC" using fresh [OF True] by (simp add: liveC_def)
    moreover have "0 \<le> bnOwnWork ec" using w c(1) by blast
    ultimately show ?thesis using M by (auto simp: backward)
  next
    case False
    have forward: "Heavier C c now = (if liveC \<noteq> liveT then Some liveC
       else (case LinesMeet C c (hashTip C) of
         None \<Rightarrow> None
       | Some (Some (bnC, bnT)) \<Rightarrow> Some (bnT < bnC)
       | Some None \<Rightarrow> Some (LineWork C (hashTip C) < LineWork C c)))"
      using t c full False by (simp add: Heavier_def Let_def liveC_def liveT_def)
    show ?thesis
      using heavier unfolding forward backward swap
      by (cases "LinesMeet C c (hashTip C)") (auto split: if_split_asm option.split_asm)
  qed
qed

section \<open>The invariant\<close>

definition entry_bytes :: "share_entry \<Rightarrow> nat" where
  "entry_bytes e = (if fTrusted e then GetSerializeSize_Share (share e) else 0)"

definition trusted_bytes :: "(uint256, share_entry) fmap \<Rightarrow> nat" where
  "trusted_bytes m = (\<Sum>h\<in>fset (fmdom m). entry_bytes (the (fmlookup m h)))"

definition entry_ok :: "ext \<Rightarrow> net_params \<Rightarrow> share_chain \<Rightarrow> uint256 \<Rightarrow> share_entry \<Rightarrow> bool" where
  "entry_ok E N C h e \<longleftrightarrow> GetId E (share e) = h \<and> en_nHeight e = int (unat (nShareHeight (sh_data (share e)))) \<and>
    share_work_ok E N (share e) (bnFloor C) (fCheckPoW C) \<and>
    work e = WorkOf E (nShareBits (sh_data (share e))) \<and> 0 \<le> bnOwnWork e"

definition shares_ok :: "ext \<Rightarrow> net_params \<Rightarrow> share_chain \<Rightarrow> bool" where
  "shares_ok E N C \<longleftrightarrow>
    (\<forall>h e. Get C h = Some e \<longrightarrow> entry_ok E N C h e) \<and>
    nTrustedBytes C = trusted_bytes (mapShares C) \<and> nTrustedBytes C \<le> MAX_TRUSTED_BYTES \<and>
    (hashTip C = 0 \<or> (\<exists>e. Get C (hashTip C) = Some e \<and> \<not> fTrusted e))"

lemma entry_ok_same: "bnFloor C' = bnFloor C \<Longrightarrow> fCheckPoW C' = fCheckPoW C \<Longrightarrow> entry_ok E N C' = entry_ok E N C"
  by (intro ext) (simp add: entry_ok_def)

definition within :: "share_chain \<Rightarrow> share_chain \<Rightarrow> bool" where
  "within C' C \<longleftrightarrow> (\<forall>h e. Get C' h = Some e \<longrightarrow> Get C h = Some e)"

lemma within_refl [simp]: "within C C"
  by (simp add: within_def)

lemma within_trans: "within C'' C' \<Longrightarrow> within C' C \<Longrightarrow> within C'' C"
  by (simp add: within_def)

lemma grounded_within: "within C' C \<Longrightarrow> grounded C rank \<Longrightarrow> grounded C' rank"
  by (fastforce simp: grounded_def Has_def within_def)

lemma trusted_bytes_drop:
  assumes "fmlookup m h = Some e"
  shows "trusted_bytes m = entry_bytes e + trusted_bytes (fmdrop h m)"
proof -
  have "h \<in> fset (fmdom m)" using assms by (simp add: fmlookup_dom_iff)
  then have "trusted_bytes m = entry_bytes (the (fmlookup m h)) +
      (\<Sum>h\<in>fset (fmdom m) - {h}. entry_bytes (the (fmlookup m h)))"
    unfolding trusted_bytes_def by (intro sum.remove) simp_all
  also have "(\<Sum>h\<in>fset (fmdom m) - {h}. entry_bytes (the (fmlookup m h))) = trusted_bytes (fmdrop h m)"
    unfolding trusted_bytes_def by (intro sum.cong) auto
  finally show ?thesis by (simp add: assms)
qed

lemma trusted_bytes_add:
  assumes "fmlookup m h = None"
  shows "trusted_bytes (fmupd h e m) = entry_bytes e + trusted_bytes m"
proof -
  have "fmdrop h (fmupd h e m) = m" by (rule fmap_ext) (use assms in auto)
  then show ?thesis using trusted_bytes_drop [of "fmupd h e m" h e] by simp
qed

lemma Drop_sel [simp]: "hashTip (Drop h C) = hashTip C" "bnFloor (Drop h C) = bnFloor C"
  "fCheckPoW (Drop h C) = fCheckPoW C" "Get (Drop h C) k = (if k = h then None else Get C k)"
  by (auto simp: Drop_def split: option.split)

lemma Drop_ok:
  assumes "shares_ok E N C" "h \<noteq> hashTip C \<or> hashTip C = 0"
  shows "shares_ok E N (Drop h C)"
proof (cases "Get C h")
  case None
  then show ?thesis using assms by (simp add: Drop_def)
next
  case (Some e)
  have "nTrustedBytes (Drop h C) = trusted_bytes (mapShares (Drop h C))"
    using assms(1) trusted_bytes_drop [OF Some] by (simp add: Drop_def Some shares_ok_def entry_bytes_def)
  moreover have "nTrustedBytes (Drop h C) \<le> nTrustedBytes C" by (simp add: Drop_def Some)
  ultimately show ?thesis using assms entry_ok_same [of "Drop h C" C] by (auto simp: shares_ok_def)
qed

lemma fold_Drop_sel [simp]: "hashTip (fold Drop hs C) = hashTip C" "bnFloor (fold Drop hs C) = bnFloor C"
  "fCheckPoW (fold Drop hs C) = fCheckPoW C"
  "Get (fold Drop hs C) k = (if k \<in> set hs then None else Get C k)"
  by (induction hs arbitrary: C) auto

lemma fold_Drop_ok: "shares_ok E N C \<Longrightarrow> hashTip C \<notin> set hs \<or> hashTip C = 0 \<Longrightarrow> shares_ok E N (fold Drop hs C)"
proof (induction hs arbitrary: C)
  case (Cons h hs)
  have "shares_ok E N (fold Drop hs (Drop h C))"
    by (rule Cons.IH [OF Drop_ok]) (use Cons.prems in auto)
  then show ?case by simp
qed simp

lemma within_Drop [simp]: "within (Drop h C) C" "within (fold Drop hs C) C"
  by (simp_all add: within_def)

lemma insert_leaf_set [simp]: "set (insert_leaf x xs) = insert x (set xs)"
  by (induction x xs rule: insert_leaf.induct) auto

lemma evict_loop_ok:
  "shares_ok E N C \<Longrightarrow> hashTip C \<in> keep \<or> hashTip C = 0 \<Longrightarrow> snd ` set leaves \<inter> keep = {} \<Longrightarrow>
    shares_ok E N (evict_loop C keep children leaves) \<and>
    hashTip (evict_loop C keep children leaves) = hashTip C \<and>
    bnFloor (evict_loop C keep children leaves) = bnFloor C \<and>
    fCheckPoW (evict_loop C keep children leaves) = fCheckPoW C \<and>
    within (evict_loop C keep children leaves) C"
proof (induction C keep children leaves rule: evict_loop.induct)
  case (1 C keep children leaves)
  show ?case
  proof (cases "leaves = [] \<or> fcard (fmdom (mapShares C)) \<le> MAX_CHAIN_SHARES * 3 div 4 \<or> Get C (snd (hd leaves)) = None")
    case True
    then have "evict_loop C keep children leaves = C"
      by (subst evict_loop.simps) (auto split: list.split option.split)
    then show ?thesis using 1(3) by simp
  next
    case False
    then obtain x h l e where l: "leaves = (x, h) # l" "Get C h = Some e"
      "\<not> fcard (fmdom (mapShares C)) \<le> MAX_CHAIN_SHARES * 3 div 4"
      by (cases leaves) auto
    have D: "shares_ok E N (Drop h C)" by (rule Drop_ok [OF 1(3)]) (use 1(4,5) l in auto)
    have tip: "hashTip (Drop h C) \<in> keep \<or> hashTip (Drop h C) = 0" using 1(4) by simp
    show ?thesis
    proof (cases "children (parent_of e)")
      case None
      have "evict_loop C keep children leaves = evict_loop (Drop h C) keep children l"
        using l None by (subst evict_loop.simps) (simp add: Let_def)
      moreover have "snd ` set l \<inter> keep = {}" using 1(5) l by auto
      ultimately show ?thesis
        using 1(1) [OF l(1) refl l(3,2) refl refl None D tip] within_trans [OF _ within_Drop(1) [of h C]] by auto
    next
      case (Some n)
      define l' where "l' = (if n - 1 = 0 \<and> parent_of e \<notin> keep
        then (case Get (Drop h C) (parent_of e) of None \<Rightarrow> l | Some p \<Rightarrow> insert_leaf (bnChainWork p, parent_of e) l)
        else l)"
      have "evict_loop C keep children leaves = evict_loop (Drop h C) keep (children(parent_of e \<mapsto> n - 1)) l'"
        unfolding l'_def using l Some by (subst evict_loop.simps) (simp add: Let_def)
      moreover have "snd ` set l' \<inter> keep = {}" using 1(5) l by (auto simp: l'_def split: option.split)
      ultimately show ?thesis
        using 1(2) [OF l(1) refl l(3,2) refl refl Some D tip, folded l'_def] within_trans [OF _ within_Drop(1) [of h C]]
        by (auto simp: fun_upd_def)
    qed
  qed
qed

lemma leaves_apart:
  "snd ` set (fold (\<lambda>(h, e) l. if h \<notin> keep \<and> children h = None then insert_leaf (bnChainWork e, h) l else l) xs l0) \<inter> keep = {}"
  if "snd ` set l0 \<inter> keep = {}"
  using that by (induction xs arbitrary: l0) (auto split: prod.split)

lemma Evict_ok:
  assumes "shares_ok E N C"
  shows "shares_ok E N (Evict n C) \<and> hashTip (Evict n C) = hashTip C \<and> bnFloor (Evict n C) = bnFloor C \<and>
    fCheckPoW (Evict n C) = fCheckPoW C \<and> within (Evict n C) C"
proof (cases "fcard (fmdom (mapShares C)) + n \<le> MAX_CHAIN_SHARES")
  case True
  then show ?thesis using assms by (simp add: Evict_def)
next
  case False
  define keep where "keep = evict_keep C (hashTip C) (HISTORY_SHARES + 10)"
  define leaves where "leaves = fold (\<lambda>(h, e) l. if h \<notin> keep \<and> count_children C h = None then insert_leaf (bnChainWork e, h) l else l)
    (sorted_list_of_fmap (mapShares C)) []"
  have "hashTip C \<in> keep" if ne: "hashTip C \<noteq> 0"
  proof -
    obtain e where "Get C (hashTip C) = Some e" using assms ne by (auto simp: shares_ok_def)
    moreover have "HISTORY_SHARES + 10 = Suc (HISTORY_SHARES + 9)" by simp
    ultimately show ?thesis using ne by (simp only: keep_def evict_keep.simps) simp
  qed
  moreover have "snd ` set leaves \<inter> keep = {}" unfolding leaves_def by (rule leaves_apart) simp
  moreover have "Evict n C = evict_loop C keep (count_children C) leaves"
    using False by (simp add: Evict_def Let_def keep_def leaves_def)
  ultimately show ?thesis using evict_loop_ok [OF assms, of keep leaves "count_children C"] by auto
qed

lemma Prune_ok:
  assumes ok: "shares_ok E N C" and run: "Prune C = Some C'"
  shows "shares_ok E N C' \<and> hashTip C' = hashTip C \<and> bnFloor C' = bnFloor C \<and> fCheckPoW C' = fCheckPoW C \<and> within C' C"
proof (cases "C' = C")
  case False
  obtain tip where tip: "Get C (hashTip C) = Some tip" using run False by (auto simp: Prune_def split: option.split_asm)
  define nCut where "nCut = en_nHeight tip - (int HISTORY_SHARES + 10)"
  define C1 where "C1 = C\<lparr>nLastPruneCut := nCut\<rparr>"
  obtain roots nTop where C': "C' = fold Drop (cut_off C1 nCut roots nTop) C1"
    using run False tip by (auto simp: Prune_def Let_def C1_def nCut_def split: if_split_asm option.split_asm)
  have "shares_ok E N C1" using ok entry_ok_same [of C1 C] by (simp add: shares_ok_def C1_def)
  moreover have "hashTip C1 \<notin> set (cut_off C1 nCut roots nTop)"
    using tip by (auto simp: cut_off_def C1_def nCut_def in_sorted_list_of_fmap)
  moreover have "within C1 C" by (simp add: within_def C1_def)
  ultimately show ?thesis
    using fold_Drop_ok [of E N C1 "cut_off C1 nCut roots nTop"] within_trans [OF within_Drop(2)] by (auto simp: C' C1_def)
qed (use assms in simp)

end
