(* ===== verification/ShareKeeps.thy ===== *)
theory ShareKeeps
  imports ShareInv
begin

text \<open>
  \<open>Add\<close>, \<open>AddTrusted\<close> and \<open>AddHistory\<close> keep the invariant of the share chain, and return: whatever
  shares a node is sent, in whatever order, its chain is in order.
\<close>

section \<open>One new entry\<close>

lemma shares_ok_insert:
  assumes ok: "shares_ok E N C" and new: "Get C h = None" and e: "entry_ok E N C h e"
    and bytes: "nTrustedBytes C + entry_bytes e \<le> MAX_TRUSTED_BYTES"
    and C': "mapShares C' = fmupd h e (mapShares C)" "nTrustedBytes C' = nTrustedBytes C + entry_bytes e"
      "hashTip C' = hashTip C" "bnFloor C' = bnFloor C" "fCheckPoW C' = fCheckPoW C"
  shows "shares_ok E N C'"
proof -
  have "entry_ok E N C' = entry_ok E N C" by (rule entry_ok_same [OF C'(4,5)])
  moreover have "hashTip C = h \<Longrightarrow> hashTip C = 0" using ok new by (auto simp: shares_ok_def)
  ultimately show ?thesis
    using ok e bytes trusted_bytes_add [OF new, of e] by (auto simp: shares_ok_def C')
qed

definition held :: "share_chain \<Rightarrow> Share set" where
  "held C = share ` {e. \<exists>h. Get C h = Some e}"

lemma held_within: "within C' C \<Longrightarrow> held C' \<subseteq> held C"
  by (auto simp: held_def within_def)

lemma held_insert: "mapShares C' = fmupd h e (mapShares C) \<Longrightarrow> held C' \<subseteq> insert (share e) (held C)"
  by (auto simp: held_def split: if_split_asm)

lemma held_tip [simp]: "held (C\<lparr>hashTip := h\<rparr>) = held C"
  by (simp add: held_def)

lemma in_i32_small: "n \<le> 2 ^ 30 \<Longrightarrow> in_i32 (int n)"
  by (simp add: in_i32_def)

lemma small_height:
  assumes "share_work_ok E N s f p"
  shows "i32 (int (unat (nShareHeight (sh_data s)))) = int (unat (nShareHeight (sh_data s)))"
proof -
  have "unat (nShareHeight (sh_data s)) \<le> 2 ^ 30" using assms by (simp only: share_work_ok_def)
  then show ?thesis by (rule i32_id [OF in_i32_small])
qed

context openssl_bn
begin

lemma WorkOf_less: "WorkOf E bits < 2 ^ 64"
proof (cases "0 < SetCompact E (unat bits)")
  case True
  then have "int (WorkOf E bits) \<le> 2 ^ 64 - 1" by (simp add: WorkOf)
  then show ?thesis by simp
qed (simp add: WorkOf_def)

lemma work_at_less: "shares_ok E N C \<Longrightarrow> work_at C u < 2 ^ 64"
  using WorkOf_less by (auto simp: work_at_def shares_ok_def entry_ok_def split: option.split)

lemma own_work_nonneg:
  assumes "shares_ok E N C"
  shows "0 \<le> b \<Longrightarrow> 0 \<le> foldl (\<lambda>bn u. if P u then bn + setuint64 E (work_at C u) else bn) b us"
  by (induction us arbitrary: b) (use work_at_less [OF assms] in \<open>simp_all add: setuint64\<close>)

lemma full_entry_ok:
  assumes ok: "shares_ok E N C" and run: "add_checks E N C s now = Inr fBlock"
  shows "entry_ok E N C (GetId E s) (full_entry E C s)"
proof -
  obtain window h where c: "CheckShare E N s window h (bnFloor C) (fCheckPoW C) = Inr fBlock"
    and ht: "i32 (int (unat (nShareHeight (sh_data s)))) = new_height C (sh_data s)"
    using run by (auto simp: add_checks_def Let_def split: if_split_asm option.split_asm sum.split_asm)
  have w: "share_work_ok E N s (bnFloor C) (fCheckPoW C)" using c CheckShare_iff by blast
  then have "new_height C (sh_data s) = int (unat (nShareHeight (sh_data s)))"
    using ht small_height [OF w] by simp
  moreover have "0 \<le> bnOwnWork (full_entry E C s)"
    using own_work_nonneg [OF ok, of "setuint64 E (WorkOf E (nShareBits (sh_data s)))" "\<lambda>_. True"] WorkOf_less
    by (simp add: full_entry_def Let_def setuint64)
  ultimately show ?thesis using w by (simp add: entry_ok_def full_entry_def Let_def)
qed

lemma trusted_entry_ok:
  assumes ok: "shares_ok E N C" and run: "CheckShareWork E N s (bnFloor C) (fCheckPoW C) = Inr fBlock"
  shows "entry_ok E N C (GetId E s) (trusted_entry E C s)"
proof -
  have w: "share_work_ok E N s (bnFloor C) (fCheckPoW C)" using run CheckShareWork_iff by blast
  have "0 \<le> bnOwnWork (trusted_entry E C s)"
    using own_work_nonneg [OF ok, of "setuint64 E (WorkOf E (nShareBits (sh_data s)))"] WorkOf_less
    by (simp add: trusted_entry_def Let_def setuint64)
  moreover note small_height [OF w]
  ultimately show ?thesis using w by (simp add: entry_ok_def trusted_entry_def Let_def)
qed

section \<open>The operations\<close>

lemma Add_steps:
  assumes ok: "shares_ok E N C" and run: "add_checks E N C s now = Inr fBlock"
  shows "Add E N s now C = (case Heavier (add_entry E C s) (GetId E s) now of None \<Rightarrow> None
      | Some heavier \<Rightarrow>
          (case Prune (if heavier then (add_entry E C s)\<lparr>hashTip := GetId E s\<rparr> else add_entry E C s) of None \<Rightarrow> None
           | Some C3 \<Rightarrow> Some (Evict 0 C3, ShareTaken fBlock)))"
    and "shares_ok E N (add_entry E C s)"
    and "Heavier (add_entry E C s) (GetId E s) now = Some heavier \<Longrightarrow>
      shares_ok E N (if heavier then (add_entry E C s)\<lparr>hashTip := GetId E s\<rparr> else add_entry E C s)"
    and "held (add_entry E C s) \<subseteq> insert s (held C)"
proof -
  define h C1 C2 where "h = GetId E s" and "C1 = C\<lparr>mapShares := fmupd h (full_entry E C s) (mapShares C)\<rparr>"
    and "C2 = fold Drop (trusted_children C1 h) C1"
  have C2_eq: "add_entry E C s = C2" by (simp only: add_entry_def Let_def h_def C1_def C2_def)
  show "Add E N s now C = (case Heavier (add_entry E C s) (GetId E s) now of None \<Rightarrow> None
      | Some heavier \<Rightarrow>
          (case Prune (if heavier then (add_entry E C s)\<lparr>hashTip := GetId E s\<rparr> else add_entry E C s) of None \<Rightarrow> None
           | Some C3 \<Rightarrow> Some (Evict 0 C3, ShareTaken fBlock)))"
    by (simp only: Add_def run sum.case Let_def)
  have new: "Get C h = None"
    using run by (auto simp: add_checks_def Let_def h_def Has_def split: if_split_asm)
  have C1: "shares_ok E N C1"
    by (rule shares_ok_insert [OF ok new, of "full_entry E C s"])
      (use ok full_entry_ok [OF ok run]
        in \<open>simp_all add: C1_def h_def entry_bytes_def full_entry_def Let_def shares_ok_def\<close>)
  have "hashTip C1 \<notin> set (trusted_children C1 h) \<or> hashTip C1 = 0"
    using C1 by (auto simp: trusted_children_def in_sorted_list_of_fmap shares_ok_def)
  with C1 have C2: "shares_ok E N C2" unfolding C2_def by (rule fold_Drop_ok)
  then show "shares_ok E N (add_entry E C s)" by (simp only: C2_eq)
  show "shares_ok E N (if heavier then (add_entry E C s)\<lparr>hashTip := GetId E s\<rparr> else add_entry E C s)"
    if "Heavier (add_entry E C s) (GetId E s) now = Some heavier"
  proof (cases heavier)
    case True
    then have "\<exists>e. Get C2 h = Some e \<and> \<not> fTrusted e"
      using that by (auto simp: Heavier_def C2_eq h_def split: option.split_asm if_split_asm)
    then show ?thesis
      using C2 True entry_ok_same [of "C2\<lparr>hashTip := h\<rparr>" C2] by (auto simp: shares_ok_def C2_eq h_def)
  qed (use C2 in \<open>simp add: C2_eq\<close>)
  have "held C2 \<subseteq> held C1" unfolding C2_def by (rule held_within) simp
  also have "\<dots> \<subseteq> insert (share (full_entry E C s)) (held C)" by (rule held_insert) (simp add: C1_def)
  finally show "held (add_entry E C s) \<subseteq> insert s (held C)" by (simp add: C2_eq full_entry_def Let_def)
qed

lemma Add_shares_ok:
  assumes ok: "shares_ok E N C" and run: "Add E N s now C = Some (C', r)"
  shows "shares_ok E N C' \<and> bnFloor C' = bnFloor C \<and> fCheckPoW C' = fCheckPoW C \<and> held C' \<subseteq> insert s (held C)"
proof (cases "add_checks E N C s now")
  case (Inl x)
  then show ?thesis using run ok by (cases x) (auto simp: Add_def)
next
  case (Inr fBlock)
  define C2 where "C2 = add_entry E C s"
  have same: "bnFloor C2 = bnFloor C" "fCheckPoW C2 = fCheckPoW C" by (simp_all add: C2_def add_entry_def Let_def)
  obtain heavier C3 where heavier: "Heavier C2 (GetId E s) now = Some heavier"
    and prune: "Prune (if heavier then C2\<lparr>hashTip := GetId E s\<rparr> else C2) = Some C3" and C': "C' = Evict 0 C3"
    using run unfolding Add_steps(1) [OF ok Inr] C2_def by (auto split: option.split_asm)
  have ok2: "shares_ok E N (if heavier then C2\<lparr>hashTip := GetId E s\<rparr> else C2)"
    unfolding C2_def by (rule Add_steps(3) [OF ok Inr heavier [unfolded C2_def]])
  have P: "shares_ok E N C3 \<and> bnFloor C3 = bnFloor C \<and> fCheckPoW C3 = fCheckPoW C \<and> held C3 \<subseteq> held C2"
    using Prune_ok [OF ok2 prune] held_within [of C3 C2] held_within [of C3 "C2\<lparr>hashTip := GetId E s\<rparr>"] same
    by (cases heavier) simp_all
  moreover have "held C' \<subseteq> held C3" using Evict_ok [OF conjunct1 [OF P], of 0] held_within by (simp add: C')
  ultimately show ?thesis
    using Evict_ok [OF conjunct1 [OF P], of 0] Add_steps(4) [OF ok Inr] by (auto simp: C' C2_def)
qed

lemma AddTrusted_shares_ok:
  assumes ok: "shares_ok E N C" and run: "AddTrusted E N s C = (C', r)"
  shows "shares_ok E N C' \<and> bnFloor C' = bnFloor C \<and> fCheckPoW C' = fCheckPoW C \<and> hashTip C' = hashTip C \<and>
    (r = None \<longrightarrow> fcard (fmdom (mapShares C')) \<le> MAX_CHAIN_SHARES) \<and> held C' \<subseteq> insert s (held C)"
proof -
  define C1 where "C1 = (if MAX_CHAIN_SHARES \<le> fcard (fmdom (mapShares C)) then Evict 1 C else C)"
  have C1: "shares_ok E N C1" "bnFloor C1 = bnFloor C" "fCheckPoW C1 = fCheckPoW C" "hashTip C1 = hashTip C" "within C1 C"
    using Evict_ok [OF ok, of 1] ok by (simp_all add: C1_def)
  show ?thesis
  proof (cases "r = None")
    case False
    then have "C' = C \<or> C' = C1"
      using run by (auto simp: AddTrusted_def Let_def C1_def [symmetric] split: if_split_asm sum.split_asm)
    then show ?thesis using C1 ok False held_within [OF C1(5)] by auto
  next
    case True
    then obtain fBlock where w: "CheckShareWork E N s (bnFloor C1) (fCheckPoW C1) = Inr fBlock"
      and new: "\<not> Has C (GetId E s)" and room: "\<not> MAX_CHAIN_SHARES \<le> fcard (fmdom (mapShares C1))"
        "nTrustedBytes C1 + GetSerializeSize_Share s \<le> MAX_TRUSTED_BYTES"
      and C': "C' = C1\<lparr>mapShares := fmupd (GetId E s) (trusted_entry E C1 s) (mapShares C1),
        nTrustedBytes := nTrustedBytes C1 + GetSerializeSize_Share s\<rparr>"
      using run by (auto simp: AddTrusted_def Let_def C1_def [symmetric] split: if_split_asm sum.split_asm)
    have bytes: "entry_bytes (trusted_entry E C1 s) = GetSerializeSize_Share s"
      by (simp add: entry_bytes_def trusted_entry_def Let_def)
    have new1: "Get C1 (GetId E s) = None"
      using new C1(5) by (cases "Get C1 (GetId E s)") (auto simp: Has_def within_def)
    have "shares_ok E N C'"
      by (rule shares_ok_insert [OF C1(1) new1 trusted_entry_ok [OF C1(1) w]])
        (simp_all add: bytes room C')
    moreover have "fcard (fmdom (mapShares C')) \<le> Suc (fcard (fmdom (mapShares C1)))"
      by (simp add: C' fcard_finsert_if)
    moreover have "held C' \<subseteq> insert (share (trusted_entry E C1 s)) (held C1)" by (rule held_insert) (simp add: C')
    then have "held C' \<subseteq> insert s (held C)"
      using held_within [OF C1(5)] by (auto simp: trusted_entry_def Let_def)
    ultimately show ?thesis using C1 room True by (simp add: C')
  qed
qed

lemma history_step_ok:
  assumes ok: "shares_ok E N C" and one: "history_step E N nTipHeight now s C = Some (C1, err)"
  shows "shares_ok E N C1 \<and> bnFloor C1 = bnFloor C \<and> fCheckPoW C1 = fCheckPoW C \<and> held C1 \<subseteq> insert s (held C)"
proof -
  have "AddTrusted E N s C = (C1, err) \<or> (\<exists>a. Add E N s now C = Some (C1, a))"
    using one by (auto simp: history_step_def Let_def split: if_split_asm option.split_asm add_result.split_asm)
  then show ?thesis
  proof
    assume "AddTrusted E N s C = (C1, err)"
    from AddTrusted_shares_ok [OF ok this] show ?thesis by simp
  next
    assume "\<exists>a. Add E N s now C = Some (C1, a)"
    then obtain a where "Add E N s now C = Some (C1, a)" ..
    from Add_shares_ok [OF ok this] show ?thesis .
  qed
qed

lemma history_loop_shares_ok:
  "shares_ok E N C \<Longrightarrow> history_loop E N nTipHeight now part C = Some (C', r) \<Longrightarrow>
    shares_ok E N C' \<and> bnFloor C' = bnFloor C \<and> fCheckPoW C' = fCheckPoW C"
proof (induction part arbitrary: C)
  case (Cons s part)
  obtain C1 err where one: "history_step E N nTipHeight now s C = Some (C1, err)"
    and rest: "history_loop E N nTipHeight now part C1 = Some (C', r) \<or> C' = C1"
    using Cons.prems(2) by (auto split: if_split_asm option.split_asm)
  note ok = history_step_ok [OF Cons.prems(1) one]
  from rest show ?case
  proof
    assume "history_loop E N nTipHeight now part C1 = Some (C', r)"
    from Cons.IH [OF conjunct1 [OF ok] this] show ?thesis using ok by simp
  qed (use ok in simp)
qed simp

lemma AddHistory_shares_ok:
  "shares_ok E N C \<Longrightarrow> AddHistory E N part nTipHeight now C = Some (C', r) \<Longrightarrow>
    shares_ok E N C' \<and> bnFloor C' = bnFloor C \<and> fCheckPoW C' = fCheckPoW C"
  using history_loop_shares_ok [of N C nTipHeight now part C' r] by (auto simp: AddHistory_def split: if_split_asm)

end

section \<open>Every chain a node can get to\<close>

text \<open>\<open>A\<close> is the set of the shares it is given.\<close>

inductive chain_run :: "ext \<Rightarrow> net_params \<Rightarrow> Share set \<Rightarrow> share_chain \<Rightarrow> bool" for E N A where
  start: "chain_run E N A (new_share_chain bnFloorIn fCheckPoWIn)"
| add: "chain_run E N A C \<Longrightarrow> s \<in> A \<Longrightarrow> Add E N s now C = Some (C', r) \<Longrightarrow> chain_run E N A C'"
| trusted: "chain_run E N A C \<Longrightarrow> s \<in> A \<Longrightarrow> AddTrusted E N s C = (C', e) \<Longrightarrow> chain_run E N A C'"
| history: "chain_run E N A C \<Longrightarrow> set part \<subseteq> A \<Longrightarrow>
    AddHistory E N part nTipHeight now C = Some (C', e) \<Longrightarrow> chain_run E N A C'"

lemma new_share_chain_ok: "shares_ok E N (new_share_chain bnFloorIn fCheckPoWIn)"
  by (simp add: shares_ok_def new_share_chain_def trusted_bytes_def)

context openssl_bn
begin

lemma chain_run_ok:
  assumes "chain_run E N A C"
  shows "shares_ok E N C"
  using assms
proof induction
  case start
  show ?case by (rule new_share_chain_ok)
next
  case (add C s now C' r)
  from Add_shares_ok [OF add.IH add.hyps(3)] show ?case by simp
next
  case (trusted C s C' e)
  from AddTrusted_shares_ok [OF trusted.IH trusted.hyps(3)] show ?case by simp
next
  case (history C part nTipHeight now C' e)
  from AddHistory_shares_ok [OF history.IH history.hyps(3)] show ?case by simp
qed

end

section \<open>The operations return\<close>

text \<open>No share of \<open>S\<close> is its own ancestor: there is an order in which each comes after its parent.\<close>

definition acyclic_ids :: "ext \<Rightarrow> Share set \<Rightarrow> (uint256 \<Rightarrow> nat) \<Rightarrow> bool" where
  "acyclic_ids E S rank \<longleftrightarrow> (\<forall>s \<in> S. rank (hashPrevShare (sh_data s)) < rank (GetId E s))"

lemma acyclic_ids_mono: "acyclic_ids E S rank \<Longrightarrow> T \<subseteq> S \<Longrightarrow> acyclic_ids E T rank"
  by (auto simp: acyclic_ids_def)

lemma grounded_held:
  assumes "\<And>h e. Get C h = Some e \<Longrightarrow> GetId E (share e) = h" "acyclic_ids E (held C) rank"
  shows "grounded C rank"
  using assms by (fastforce simp: grounded_def acyclic_ids_def held_def)

context openssl_bn
begin

lemma Add_returns:
  assumes ok: "shares_ok E N C" and ids: "acyclic_ids E (insert s (held C)) rank"
  shows "Add E N s now C \<noteq> None"
proof (cases "add_checks E N C s now")
  case (Inl x)
  then show ?thesis by (cases x) (simp add: Add_def)
next
  case (Inr fBlock)
  have "acyclic_ids E (held (add_entry E C s)) rank" by (rule acyclic_ids_mono [OF ids Add_steps(4) [OF ok Inr]])
  then have g: "grounded (add_entry E C s) rank"
    by (rule grounded_held [rotated]) (use Add_steps(2) [OF ok Inr] in \<open>simp add: shares_ok_def entry_ok_def\<close>)
  obtain heavier where h: "Heavier (add_entry E C s) (GetId E s) now = Some heavier"
    using Heavier_returns [OF g] by auto
  have "Prune (if heavier then (add_entry E C s)\<lparr>hashTip := GetId E s\<rparr> else add_entry E C s) \<noteq> None"
    by (rule Prune_returns [of _ rank]) (use g in simp)
  then show ?thesis by (auto simp: Add_steps(1) [OF ok Inr] h)
qed

lemma history_loop_returns:
  "shares_ok E N C \<Longrightarrow> acyclic_ids E (set part \<union> held C) rank \<Longrightarrow>
    history_loop E N nTipHeight now part C \<noteq> None"
proof (induction part arbitrary: C)
  case (Cons s part)
  have "Add E N s now C \<noteq> None"
    by (rule Add_returns [OF Cons.prems(1)]) (rule acyclic_ids_mono [OF Cons.prems(2)], auto)
  then obtain C' a where "Add E N s now C = Some (C', a)" by auto
  then have "history_step E N nTipHeight now s C \<noteq> None"
    unfolding history_step_def Let_def by (cases a) (simp_all split: if_split)
  then obtain C1 err where one: "history_step E N nTipHeight now s C = Some (C1, err)" by auto
  have ok: "shares_ok E N C1" "held C1 \<subseteq> insert s (held C)"
    using history_step_ok [OF Cons.prems(1) one] by simp_all
  have "history_loop E N nTipHeight now part C1 \<noteq> None"
    by (rule Cons.IH [OF ok(1)]) (rule acyclic_ids_mono [OF Cons.prems(2)], use ok(2) in auto)
  then show ?case by (simp add: one)
qed simp

lemma AddHistory_returns:
  "shares_ok E N C \<Longrightarrow> acyclic_ids E (set part \<union> held C) rank \<Longrightarrow>
    AddHistory E N part nTipHeight now C \<noteq> None"
  using history_loop_returns [of N C part rank nTipHeight now] by (simp add: AddHistory_def)

end

end
