(* ===== verification/ShareOnce.thy ===== *)
theory ShareOnce
  imports ShareKeeps
begin

text \<open>
  No share is paid twice: on a line of shares checked in full, the shares of the line and the
  uncles they name are all different.  What a share checked in full says of its ancestors is
  checked when it comes, while its whole window is held; lines are cut and filled again later,
  but with no two of the shares given having the same id they come back the same.
\<close>

section \<open>Ancestors by id\<close>

text \<open>\<open>sh\<close> is the share an id stands for.\<close>

primrec anc :: "(uint256 \<Rightarrow> Share) \<Rightarrow> uint256 \<Rightarrow> nat \<Rightarrow> uint256 list" where
  "anc sh cur 0 = []"
| "anc sh cur (Suc k) = (if cur = 0 then [] else cur # anc sh (hashPrevShare (sh_data (sh cur))) k)"

definition height_of :: "Share \<Rightarrow> int" where
  "height_of s = int (unat (nShareHeight (sh_data s)))"

definition uncles_good :: "(uint256 \<Rightarrow> Share) \<Rightarrow> Share \<Rightarrow> bool" where
  "uncles_good sh s \<longleftrightarrow>
    (\<forall>u \<in> set (vUncles (sh_data s)).
      height_of (sh u) < height_of s \<and> height_of s - 3 \<le> height_of (sh u) \<and>
      (\<forall>x \<in> set (anc sh (hashPrevShare (sh_data s)) 4). u \<noteq> x \<and> u \<notin> set (vUncles (sh_data (sh x))))) \<and>
    (hashPrevShare (sh_data s) \<noteq> 0 \<longrightarrow> height_of (sh (hashPrevShare (sh_data s))) + 1 = height_of s)"

definition named :: "(uint256 \<Rightarrow> Share) \<Rightarrow> share_chain \<Rightarrow> bool" where
  "named sh C \<longleftrightarrow> (\<forall>h e. Get C h = Some e \<longrightarrow> sh h = share e)"

lemma window_line_anc:
  "named sh C \<Longrightarrow> window_line C cur k = Some v \<Longrightarrow> j \<le> k \<Longrightarrow>
    line_has C h cur j = (h \<in> set (anc sh cur j)) \<and>
    line_names C h cur j = (\<exists>x \<in> set (anc sh cur j). h \<in> set (vUncles (sh_data (sh x))))"
proof (induction k arbitrary: cur v j)
  case (Suc k)
  show ?case
  proof (cases "cur = 0 \<or> j = 0")
    case True
    then show ?thesis by (cases j) auto
  next
    case False
    then obtain i e v' where j: "j = Suc i" and e: "Get C cur = Some e" and v': "window_line C (parent_of e) k = Some v'"
      using Suc.prems(2) by (cases j) (auto split: option.split_asm)
    have sh: "sh cur = share e" using Suc.prems(1) e by (simp add: named_def)
    show ?thesis using Suc.IH [OF Suc.prems(1) v', of i] Suc.prems(3) False by (auto simp: j e sh)
  qed
qed simp

section \<open>What a full check establishes\<close>

lemma add_checks_uncles:
  assumes ok: "shares_ok E N C" and nm: "named sh C" and run: "add_checks E N C s now = Inr fBlock"
  shows "uncles_good sh s"
proof -
  define d where "d = sh_data s"
  obtain v0 window h where ht: "i32 (int (unat (nShareHeight d))) = new_height C d"
    and mis: "missing C d = []" and win: "WindowFor C d v0 = Some window"
    and unc: "CheckUncles C d (hashPrevShare d) (new_height C d) = None"
    and cs: "CheckShare E N s window h (bnFloor C) (fCheckPoW C) = Inr fBlock"
    using run by (auto simp: add_checks_def Let_def d_def split: if_split_asm option.split_asm sum.split_asm)
  have w: "share_work_ok E N s (bnFloor C) (fCheckPoW C)" using cs CheckShare_iff by blast
  have H: "height_of s = new_height C d" using ht small_height [OF w] by (simp add: height_of_def d_def)
  obtain v where line: "window_line C (hashPrevShare d) (WINDOW_SHARES - 1) = Some v"
    using win by (auto simp: WindowFor_def split: option.split_asm)
  have held_height: "height_of (sh h) = en_nHeight e" if "Get C h = Some e" for h e
    using ok nm that by (simp add: shares_ok_def entry_ok_def named_def height_of_def)
  have up: "height_of (sh (hashPrevShare d)) + 1 = height_of s" if p: "hashPrevShare d \<noteq> 0"
  proof -
    have "WINDOW_SHARES - 1 = Suc 2158" by (simp add: WINDOW_SHARES_def)
    then have "window_line C (hashPrevShare d) (Suc 2158) = Some v" using line by (simp only:)
    then have "Get C (hashPrevShare d) \<noteq> None"
      unfolding window_line.simps using p by (auto split: option.split_asm)
    then obtain e where "Get C (hashPrevShare d) = Some e" by blast
    then show ?thesis using held_height [of "hashPrevShare d" e] p H by (simp add: new_height_def)
  qed
  have "height_of (sh u) < height_of s \<and> height_of s - 3 \<le> height_of (sh u) \<and>
      (\<forall>x \<in> set (anc sh (hashPrevShare d) 4). u \<noteq> x \<and> u \<notin> set (vUncles (sh_data (sh x))))"
    if "u \<in> set (vUncles d)" for u
  proof -
    have "UncleProblem C u (hashPrevShare d) (new_height C d) = None"
      using unc that by (simp add: CheckUncles_def check_uncles_iff)
    then obtain e where e: "Get C u = Some e" "en_nHeight e < new_height C d" "new_height C d - 3 \<le> en_nHeight e"
      and off: "\<not> line_has C u (hashPrevShare d) 4" "\<not> line_names C u (hashPrevShare d) 4"
      by (auto simp: UncleProblem_def OnLine_def UncleTaken_def MAX_UNCLE_DEPTH_def split: option.split_asm if_split_asm)
    have A: "line_has C u (hashPrevShare d) 4 = (u \<in> set (anc sh (hashPrevShare d) 4)) \<and>
        line_names C u (hashPrevShare d) 4 = (\<exists>x \<in> set (anc sh (hashPrevShare d) 4). u \<in> set (vUncles (sh_data (sh x))))"
      by (rule window_line_anc [OF nm line]) (simp add: WINDOW_SHARES_def)
    show ?thesis using e H A off held_height [OF e(1)] by auto
  qed
  then show ?thesis using up by (simp add: uncles_good_def d_def)
qed


section \<open>On every chain\<close>

text \<open>What all operations keep: the shares held are among those given, and the full ones are good.\<close>

definition once_ok :: "(uint256 \<Rightarrow> Share) \<Rightarrow> Share set \<Rightarrow> share_chain \<Rightarrow> bool" where
  "once_ok sh A C \<longleftrightarrow>
    (\<forall>h e. Get C h = Some e \<longrightarrow> share e \<in> A \<and> (\<not> fTrusted e \<longrightarrow> uncles_good sh (share e)))"

lemma once_ok_within: "once_ok sh A C \<Longrightarrow> within C' C \<Longrightarrow> once_ok sh A C'"
  by (auto simp: once_ok_def within_def)

lemma once_ok_tip [simp]: "once_ok sh A (C\<lparr>hashTip := h\<rparr>) = once_ok sh A C"
  by (simp add: once_ok_def)

lemma once_ok_insert:
  assumes "once_ok sh A C" "mapShares C' = fmupd h e (mapShares C)" "share e \<in> A" "fTrusted e \<or> uncles_good sh (share e)"
  shows "once_ok sh A C'"
  using assms by (auto simp: once_ok_def split: if_split_asm)

lemma once_ok_named:
  assumes "shares_ok E N C" "once_ok sh A C" "\<forall>s \<in> A. sh (GetId E s) = s"
  shows "named sh C"
  unfolding named_def
proof (intro allI impI)
  fix h e assume e: "Get C h = Some e"
  then have "GetId E (share e) = h" "share e \<in> A"
    using assms(1,2) by (simp_all add: once_ok_def shares_ok_def entry_ok_def)
  then show "sh h = share e" using assms(3) by blast
qed

context openssl_bn
begin

lemma Add_once:
  assumes ok: "shares_ok E N C" "once_ok sh A C" "\<forall>s \<in> A. sh (GetId E s) = s" and s: "s \<in> A"
    and run: "Add E N s now C = Some (C', r)"
  shows "once_ok sh A C'"
proof (cases "add_checks E N C s now")
  case (Inl x)
  then show ?thesis using run ok by (cases x) (auto simp: Add_def)
next
  case (Inr fBlock)
  define C2 where "C2 = add_entry E C s"
  have good: "uncles_good sh s" by (rule add_checks_uncles [OF ok(1) once_ok_named [OF ok] Inr])
  have "once_ok sh A (C\<lparr>mapShares := fmupd (GetId E s) (full_entry E C s) (mapShares C)\<rparr>)"
    by (rule once_ok_insert [OF ok(2), where e = "full_entry E C s" and h = "GetId E s"])
      (use s good in \<open>simp_all add: full_entry_def Let_def\<close>)
  then have C2: "once_ok sh A C2" unfolding C2_def add_entry_def Let_def by (rule once_ok_within) simp
  obtain heavier C3 where heavier: "Heavier C2 (GetId E s) now = Some heavier"
    and prune: "Prune (if heavier then C2\<lparr>hashTip := GetId E s\<rparr> else C2) = Some C3" and C': "C' = Evict 0 C3"
    using run unfolding Add_steps(1) [OF ok(1) Inr] C2_def by (auto split: option.split_asm)
  have ok2: "shares_ok E N (if heavier then C2\<lparr>hashTip := GetId E s\<rparr> else C2)"
    unfolding C2_def by (rule Add_steps(3) [OF ok(1) Inr heavier [unfolded C2_def]])
  have P: "shares_ok E N C3" "within C3 (if heavier then C2\<lparr>hashTip := GetId E s\<rparr> else C2)"
    using Prune_ok [OF ok2 prune] by simp_all
  have "once_ok sh A (if heavier then C2\<lparr>hashTip := GetId E s\<rparr> else C2)" using C2 by simp
  then have "once_ok sh A C3" using P(2) by (rule once_ok_within)
  then show ?thesis unfolding C' by (rule once_ok_within) (use Evict_ok [OF P(1), of 0] in simp)
qed

lemma AddTrusted_once:
  assumes ok: "shares_ok E N C" "once_ok sh A C" and s: "s \<in> A" and run: "AddTrusted E N s C = (C', r)"
  shows "once_ok sh A C'"
proof -
  define C1 where "C1 = (if MAX_CHAIN_SHARES \<le> fcard (fmdom (mapShares C)) then Evict 1 C else C)"
  have "within C1 C" using Evict_ok [OF ok(1), of 1] by (simp add: C1_def)
  then have C1: "once_ok sh A C1" by (rule once_ok_within [OF ok(2)])
  consider "C' = C" | "C' = C1" | "mapShares C' = fmupd (GetId E s) (trusted_entry E C1 s) (mapShares C1)"
    using run by (auto simp: AddTrusted_def Let_def C1_def [symmetric] split: if_split_asm sum.split_asm)
  then show ?thesis
  proof cases
    case 3
    then show ?thesis
      by (rule once_ok_insert [OF C1]) (use s in \<open>simp_all add: trusted_entry_def Let_def\<close>)
  qed (use ok C1 in simp_all)
qed

lemma history_once:
  "shares_ok E N C \<Longrightarrow> once_ok sh A C \<Longrightarrow> \<forall>s \<in> A. sh (GetId E s) = s \<Longrightarrow> set part \<subseteq> A \<Longrightarrow>
    history_loop E N nTipHeight now part C = Some (C', r) \<Longrightarrow> once_ok sh A C'"
proof (induction part arbitrary: C)
  case (Cons s part)
  obtain C1 err where one: "history_step E N nTipHeight now s C = Some (C1, err)"
    and rest: "history_loop E N nTipHeight now part C1 = Some (C', r) \<or> C' = C1"
    using Cons.prems(5) by (auto split: if_split_asm option.split_asm)
  have s: "s \<in> A" "set part \<subseteq> A" using Cons.prems(4) by auto
  have ok: "shares_ok E N C1" using history_step_ok [OF Cons.prems(1) one] by simp
  have "AddTrusted E N s C = (C1, err) \<or> (\<exists>a. Add E N s now C = Some (C1, a))"
    using one by (auto simp: history_step_def Let_def split: if_split_asm option.split_asm add_result.split_asm)
  then have C1: "once_ok sh A C1"
    using AddTrusted_once [OF Cons.prems(1,2) s(1)] Add_once [OF Cons.prems(1-3) s(1)] by blast
  from rest show ?case
  proof
    assume "history_loop E N nTipHeight now part C1 = Some (C', r)"
    then show ?thesis by (rule Cons.IH [OF ok C1 Cons.prems(3) s(2)])
  qed (use C1 in simp)
qed simp

lemma chain_run_once:
  assumes "chain_run E N A C" and ids: "\<forall>s \<in> A. sh (GetId E s) = s"
  shows "once_ok sh A C"
  using assms(1)
proof induction
  case start
  show ?case by (simp add: once_ok_def new_share_chain_def)
next
  case (add C s now C' r)
  show ?case by (rule Add_once [OF chain_run_ok [OF add.hyps(1)] add.IH ids add.hyps(2,3)])
next
  case (trusted C s C' e)
  show ?case by (rule AddTrusted_once [OF chain_run_ok [OF trusted.hyps(1)] trusted.IH trusted.hyps(2,3)])
next
  case (history C part nTipHeight now C' e)
  note ok = chain_run_ok [OF history.hyps(1)]
  show ?case
    using history.hyps(3) history.IH history_once [OF ok history.IH ids history.hyps(2)]
    by (auto simp: AddHistory_def split: if_split_asm)
qed

end

section \<open>Paid once\<close>

text \<open>The ids a window over the line is paid for: the shares of the line and their uncles.\<close>

primrec paid_ids :: "share_chain \<Rightarrow> uint256 \<Rightarrow> nat \<Rightarrow> uint256 list" where
  "paid_ids C cur 0 = []"
| "paid_ids C cur (Suc k) =
    (if cur = 0 then []
     else case Get C cur of None \<Rightarrow> [] | Some e \<Rightarrow> cur # uncles_of e @ paid_ids C (parent_of e) k)"

text \<open>Behind a good share, a line of good shares: what is paid there is lower, or among the ancestors.\<close>

lemma paid_ids_behind:
  assumes nm: "named sh C"
  shows "\<forall>e \<in> set (back_line C cur k). uncles_good sh (share e) \<Longrightarrow> cur = 0 \<or> height_of (sh cur) = m \<Longrightarrow>
    x \<in> set (paid_ids C cur k) \<Longrightarrow>
      (\<exists>n. 0 \<le> n \<and> (x \<in> set (anc sh cur (nat n + 1)) \<and> height_of (sh x) = m - n \<or>
        (\<exists>y \<in> set (anc sh cur (nat n + 1)). x \<in> set (vUncles (sh_data (sh y)))) \<and> height_of (sh x) < m - n))"
proof (induction k arbitrary: cur m)
  case (Suc k)
  show ?case
  proof (cases "cur = 0 \<or> Get C cur = None")
    case True
    then show ?thesis using Suc.prems(3) by auto
  next
    case False
    then obtain e where e: "Get C cur = Some e" "cur \<noteq> 0" by auto
    have sh: "sh cur = share e" using nm e by (simp add: named_def)
    have good: "uncles_good sh (share e)" using Suc.prems(1) e by simp
    have m: "height_of (share e) = m" using Suc.prems(2) e sh by simp
    consider "x = cur" | "x \<in> set (uncles_of e)" | "x \<in> set (paid_ids C (parent_of e) k)"
      using Suc.prems(3) e by auto
    then show ?thesis
    proof cases
      case 1
      then show ?thesis using e sh m by (intro exI [of _ 0]) simp
    next
      case 2
      then have "height_of (sh x) < m" using good m by (simp add: uncles_good_def)
      then show ?thesis using 2 e sh by (intro exI [of _ 0]) simp
    next
      case 3
      have "parent_of e = 0 \<or> height_of (sh (parent_of e)) = m - 1" using good m by (auto simp: uncles_good_def)
      then obtain n where n: "0 \<le> n" "x \<in> set (anc sh (parent_of e) (nat n + 1)) \<and> height_of (sh x) = m - 1 - n \<or>
          (\<exists>y \<in> set (anc sh (parent_of e) (nat n + 1)). x \<in> set (vUncles (sh_data (sh y)))) \<and> height_of (sh x) < m - 1 - n"
        using Suc.IH [of "parent_of e" "m - 1"] Suc.prems(1) e 3 by auto
      have "nat (n + 1) + 1 = Suc (nat n + 1)" using n(1) by simp
      then show ?thesis using n e sh by (intro exI [of _ "n + 1"]) auto
    qed
  qed
qed simp


lemma anc_mono: "j \<le> k \<Longrightarrow> set (anc sh cur j) \<subseteq> set (anc sh cur k)"
proof (induction k arbitrary: cur j)
  case (Suc k)
  then show ?case by (cases j) auto
qed simp

lemma uncles_not_behind:
  assumes nm: "named sh C" and line: "\<forall>e \<in> set (back_line C (parent_of e) k). uncles_good sh (share e)"
    and good: "uncles_good sh (share e)" and x: "x \<in> set (paid_ids C (parent_of e) k)"
  shows "x \<notin> set (uncles_of e) \<and> height_of (sh x) < height_of (share e)"
proof -
  define H where "H = height_of (share e)"
  have "parent_of e = 0 \<or> height_of (sh (parent_of e)) = H - 1" using good by (auto simp: uncles_good_def H_def)
  from paid_ids_behind [OF nm line this x]
  obtain n where n: "0 \<le> n" "height_of (sh x) \<le> H - 1 - n"
    "x \<in> set (anc sh (parent_of e) (nat n + 1)) \<or> (\<exists>y \<in> set (anc sh (parent_of e) (nat n + 1)). x \<in> set (vUncles (sh_data (sh y))))"
    by (auto intro: less_imp_le)
  have "x \<notin> set (uncles_of e)"
  proof
    assume u: "x \<in> set (uncles_of e)"
    then have "H - 3 \<le> height_of (sh x)" using good by (simp add: uncles_good_def H_def)
    then have "nat n + 1 \<le> 4" using n by linarith
    from anc_mono [OF this, of sh "parent_of e"] n(3) u good show False
      by (auto simp: uncles_good_def)
  qed
  then show ?thesis using n by (simp add: H_def)
qed

lemma paid_once:
  assumes nm: "named sh C" and uncles: "\<And>h e. Get C h = Some e \<Longrightarrow> distinct (uncles_of e)"
  shows "\<forall>e \<in> set (back_line C cur k). uncles_good sh (share e) \<Longrightarrow> distinct (paid_ids C cur k)"
proof (induction k arbitrary: cur)
  case (Suc k)
  show ?case
  proof (cases "cur = 0 \<or> Get C cur = None")
    case False
    then obtain e where e: "Get C cur = Some e" "cur \<noteq> 0" by auto
    have sh: "sh cur = share e" using nm e by (simp add: named_def)
    have good: "uncles_good sh (share e)" and line: "\<forall>e \<in> set (back_line C (parent_of e) k). uncles_good sh (share e)"
      using Suc.prems e by simp_all
    have "cur \<notin> set (uncles_of e)" using good sh by (auto simp: uncles_good_def)
    moreover have "cur \<notin> set (paid_ids C (parent_of e) k)"
      using uncles_not_behind [OF nm line good, of cur] sh by auto
    moreover have "set (uncles_of e) \<inter> set (paid_ids C (parent_of e) k) = {}"
      using uncles_not_behind [OF nm line good] by blast
    moreover have "distinct (paid_ids C (parent_of e) k)" by (rule Suc.IH [OF line])
    ultimately show ?thesis using e uncles [OF e(1)] by simp
  qed auto
qed simp

context openssl_bn
begin

lemma chain_paid_once:
  assumes run: "chain_run E N A C" and ids: "inj_on (GetId E) A"
    and full: "\<forall>e \<in> set (back_line C h k). \<not> fTrusted e"
  shows "distinct (paid_ids C h k)"
proof -
  define sh where "sh = inv_into A (GetId E)"
  have sh: "\<forall>s \<in> A. sh (GetId E s) = s" using ids by (simp add: sh_def)
  note ok = chain_run_ok [OF run] and once = chain_run_once [OF run sh]
  have "e \<in> set (back_line C h k) \<Longrightarrow> \<exists>h. Get C h = Some e" for e
    by (induction k arbitrary: h) (auto split: if_split_asm option.split_asm)
  then have "\<forall>e \<in> set (back_line C h k). uncles_good sh (share e)"
    using once full by (fastforce simp: once_ok_def)
  moreover have "distinct (uncles_of e)" if "Get C h = Some e" for h e
    using ok that by (simp add: shares_ok_def entry_ok_def share_work_ok_def)
  ultimately show ?thesis by (rule paid_once [OF once_ok_named [OF ok once sh], rotated])
qed

end


section \<open>What a starting peer is sent\<close>

lemma history_uncles_held:
  "set (fst (foldl (\<lambda>(v, seen) u. case Get C u of None \<Rightarrow> (v, seen)
      | Some x \<Rightarrow> if u \<in> seen then (v, seen) else (v @ [x], insert u seen)) (v, seen) us))
    \<subseteq> set v \<union> {e. \<exists>h. Get C h = Some e}"
proof (induction us arbitrary: v seen)
  case (Cons u us)
  show ?case
  proof (cases "Get C u")
    case (Some x)
    show ?thesis
      using Cons.IH [of v seen] Cons.IH [of "v @ [x]" "insert u seen"] Some by auto
  qed (use Cons.IH in simp)
qed simp

lemma history_line_held: "set (history_line C cur k seen) \<subseteq> {e. \<exists>h. Get C h = Some e}"
proof (induction k arbitrary: cur seen)
  case (Suc k)
  show ?case
  proof (cases "cur = 0 \<or> Get C cur = None")
    case False
    then obtain e where e: "Get C cur = Some e" "cur \<noteq> 0" by auto
    define vs where "vs = (if cur \<in> seen then ([], seen) else ([e], insert cur seen))"
    define us where "us = foldl (\<lambda>(v, seen) u. case Get C u of None \<Rightarrow> (v, seen)
      | Some x \<Rightarrow> if u \<in> seen then (v, seen) else (v @ [x], insert u seen)) ([], snd vs) (uncles_of e)"
    have "history_line C cur (Suc k) seen = fst vs @ fst us @ history_line C (parent_of e) k (snd us)"
      using e by (simp add: vs_def us_def Let_def split: prod.split)
    moreover have "set (fst us) \<subseteq> {e. \<exists>h. Get C h = Some e}"
      using history_uncles_held [of C "[]" "snd vs" "uncles_of e"] by (simp add: us_def)
    moreover have "set (fst vs) \<subseteq> {e. \<exists>h. Get C h = Some e}" using e by (auto simp: vs_def)
    ultimately show ?thesis using Suc.IH by auto
  qed auto
qed simp

lemma in_height_order_sorted:
  "sorted (map (\<lambda>s. nShareHeight (sh_data s)) part) \<Longrightarrow> in_height_order part"
  by (induction part rule: in_height_order.induct) auto

lemma History_in_order:
  assumes "shares_ok E N C"
  shows "in_height_order (History C)"
proof -
  define es where "es = sort_key en_nHeight (history_line C (hashTip C) HISTORY_SHARES {})"
  have held: "\<exists>h. Get C h = Some e" if "e \<in> set es" for e
    using that history_line_held [of C "hashTip C" HISTORY_SHARES "{}"] by (auto simp: es_def)
  have eq: "en_nHeight e = int (unat (nShareHeight (sh_data (share e))))" if "e \<in> set es" for e
    using held [OF that] assms by (auto simp: shares_ok_def entry_ok_def)
  have "sorted (map en_nHeight es)" by (simp add: es_def)
  moreover have "map en_nHeight es = map (\<lambda>e. int (unat (nShareHeight (sh_data (share e))))) es"
    by (rule map_cong) (use eq in auto)
  ultimately have "sorted (map (\<lambda>e. int (unat (nShareHeight (sh_data (share e))))) es)" by simp
  then have "sorted (map (\<lambda>e. nShareHeight (sh_data (share e))) es)"
    by (simp add: sorted_map word_le_def)
  then show ?thesis by (simp add: History_def flip: es_def) (rule in_height_order_sorted, simp add: comp_def)
qed

end
