(* ===== verification/Share_Examples.thy ===== *)
theory Share_Examples
  imports ShareOnce Chain_Examples
begin

text \<open>
  A first share on an empty chain, checked in full with its work, and small chains by hand, for
  the witnesses.
\<close>

definition ex_script :: bytes where "ex_script = [0xa9, 0x14] @ replicate 20 7 @ [0x87]"

definition ex_floor :: int where "ex_floor = 0x123456"

definition ex_data :: ShareData where
  "ex_data = \<lparr>hashPrevShare = 0, vUncles = [], nShareHeight = 0, nShareBits = 0x03123456,
     sd_payoutScript = ex_script\<rparr>"

definition ex_share_coinbase :: CTransaction where
  "ex_share_coinbase = \<lparr>nVersion = 1,
     vin = [\<lparr>prevout = COutPoint_SetNull,
       scriptSig = push_vch [1] @ push_vch (CommitmentPush (ShareData_GetHash ref_ext ex_data)), nSequence = - 1\<rparr>],
     vout = [\<lparr>nValue = 50 * COIN, scriptPubKey = ex_script\<rparr>], nLockTime = 0\<rparr>"

definition ex_share :: Share where
  "ex_share = \<lparr>sh_nVersion = 1, sh_hashPrevBlock = 0,
     sh_hashMerkleRoot = SerializeHash_tx ref_ext ex_share_coinbase, sh_nTime = 1789992000,
     sh_nBits = 0x03123456, sh_nNonce = 0, coinbase = ex_share_coinbase, sh_vMerkleBranch = [],
     sh_data = ex_data\<rparr>"

definition ex_shares :: share_chain where "ex_shares = new_share_chain ex_floor True"

lemma ex_shares_sel [simp]: "Get ex_shares h = None" "bnFloor ex_shares = ex_floor" "fCheckPoW ex_shares"
  "hashTip ex_shares = 0" "mapShares ex_shares = fmempty" "nTrustedBytes ex_shares = 0"
  by (simp_all add: ex_shares_def new_share_chain_def)

lemma ex_share_sel [simp]: "coinbase ex_share = ex_share_coinbase" "sh_data ex_share = ex_data"
  "sh_nTime ex_share = 1789992000" "sh_vMerkleBranch ex_share = []"
  "sh_hashMerkleRoot ex_share = SerializeHash_tx ref_ext ex_share_coinbase"
  "vUncles ex_data = []" "hashPrevShare ex_data = 0" "nShareHeight ex_data = 0" "nShareBits ex_data = 0x03123456"
  "sd_payoutScript ex_data = ex_script" "vout ex_share_coinbase = [\<lparr>nValue = 50 * COIN, scriptPubKey = ex_script\<rparr>]"
  by (simp_all add: ex_share_def ex_data_def ex_share_coinbase_def)

lemma ex_payout_script [simp]: "IsPayoutScript ex_script"
  by (simp add: IsPayoutScript_def ex_script_def opcodes nth_append)

lemma ex_push_one: "push_vch [1] = [1, 1]" by (simp add: push_vch_def opcodes)

lemma ex_push_commitment: "length (push_vch (CommitmentPush h)) = 36"
  by (simp add: push_vch_def opcodes length_CommitmentPush)

lemma ex_share_vin: "vin ex_share_coinbase =
    [\<lparr>prevout = COutPoint_SetNull, scriptSig = push_vch [1] @ push_vch (CommitmentPush (ShareData_GetHash ref_ext ex_data)),
      nSequence = - 1\<rparr>]"
  by (simp add: ex_share_coinbase_def)

lemma ex_share_IsCoinBase [simp]: "IsCoinBase ex_share_coinbase"
  by (simp add: IsCoinBase_def ex_share_vin COutPoint_IsNull_def COutPoint_SetNull_def)

lemma ex_commitment: "FindCommitment ex_share_coinbase = Some (ShareData_GetHash ref_ext ex_data)"
  by (rule FindCommitment_pushes [where before = "[[1]]" and after = "[]"]) (simp_all add: ex_share_vin)

lemma ex_share_sane: "tx_sane ex_share_coinbase"
proof -
  have c: "length (scriptSig (vin ex_share_coinbase ! 0)) = 38"
    by (simp add: ex_share_vin ex_push_one ex_push_commitment)
  have s: "GetSerializeSize_CTransaction ex_share_coinbase < 1000"
    by (simp add: ex_share_vin GetSerializeSize_CTransaction_def GetSerializeSize_vector_def
      GetSerializeSize_CTxIn_def GetSerializeSize_CTxOut_def GetSerializeSize_vch_def
      GetSizeOfCompactSize_def ex_push_one ex_push_commitment ex_script_def)
  show ?thesis using c s
    by (simp add: tx_sane_def) (simp add: ex_share_vin MAX_MONEY_value COIN_def)
qed

lemma ex_share_height: "CoinbaseHeight ref_ext ex_share_coinbase = Some 1"
proof -
  have "GetOp (1 # [1] @ push_vch (CommitmentPush h)) = Some (1, [1], push_vch (CommitmentPush h))" for h
    using GetOp_direct_push [of "[1]" "push_vch (CommitmentPush h)"] by simp
  moreover have "mpi_body 1 = [1]" by code_simp
  then have "setvch ref_ext [1] = 1"
    using openssl_bn.setvch_getvch [OF openssl_bn_ref, of 1]
    by (simp add: openssl_bn.getvch [OF openssl_bn_ref])
  ultimately show ?thesis
    by (simp add: CoinbaseHeight_def ex_share_vin ex_push_one opcodes openssl_bn.getint [OF openssl_bn_ref] INT_MIN_def INT_MAX_def)
qed

lemma ex_share_pow: "GetPoWHash ex_net (Header ex_share) = 0"
  by (simp add: GetPoWHash_def PoWHashHeader_def PoWInputFromHeader_def Let_def RandomXPoWHash_def Header_def ex_share_def
      EnsureKey_def PoWVersionAt_def ex_net_def uint256_of_bytes_def numeral_eq_Suc le_nat_def)

lemma ex_branch: "CheckMerkleBranch E h [] 0 = h"
  by (simp add: CheckMerkleBranch_def)

lemma ex_bits_target: "SetCompact ref_ext 0x03123456 = 0x123456"
  by (simp add: openssl_bn.SetCompact [OF openssl_bn_ref])
    (simp add: compact_value_def compact_mag_def Let_def)

lemma ex_share_work_ok: "share_work_ok ref_ext ex_net ex_share ex_floor True"
  by (simp add: share_work_ok_def ex_share_pow ex_share_sane ex_commitment ex_branch ex_bits_target ex_floor_def openssl_bn.setuint256 [OF openssl_bn_ref])

lemma ex_share_WorkOf: "WorkOf ref_ext 0x03123456 = 2 ^ 64 - 1"
  using openssl_bn.WorkOf [OF openssl_bn_ref, of "0x03123456"] by (simp add: ex_bits_target)

lemma window_line_0 [simp]: "window_line C 0 k = Some []"
  by (cases k) simp_all

lemma ex_share_window: "WindowFor ex_shares ex_data (2 ^ 64 - 1) = Some [\<lparr>payoutScript = ex_script, ws_work = (2 ^ 64 - 1)\<rparr>]"
  by (simp add: WindowFor_def credit_share_def u64_def)

lemma ex_share_payout:
  "ComputePayouts [\<lparr>payoutScript = ex_script, ws_work = (2 ^ 64 - 1)\<rparr>] (50 * COIN) = Inr [\<lparr>pay_script = ex_script, pay_value = 50 * COIN\<rparr>]"
proof -
  have "sorted_list_of_fmap (fmupd k v fmempty) = [(k, v)]" for k :: bytes and v :: nat
    by (simp add: sorted_list_of_fmap_def sorted_list_of_fset.rep_eq)
  moreover have "ex_script \<noteq> []" by (simp add: ex_script_def)
  ultimately show ?thesis
    by (simp add: ComputePayouts_def u128_def share_of_def give_def COIN_def i64_id in_i64_def)
qed

lemma ex_CheckShare: "\<exists>fBlock. CheckShare ref_ext ex_net ex_share
    [\<lparr>payoutScript = ex_script, ws_work = (2 ^ 64 - 1)\<rparr>] 1 ex_floor True = Inr fBlock"
  using ex_share_payout by (simp add: CheckShare_iff ex_share_work_ok MAX_BLOCK_HEIGHT_def)

lemma ex_floor_bits: "GetCompact ref_ext ex_floor = 0x03123456"
proof -
  have "mpi_body ex_floor = [0x12, 0x34, 0x56]"
    by (simp add: mpi_body_def ex_floor_def le_min.simps [of 1193046] le_min.simps [of 4660] le_min.simps [of 18])
  then show ?thesis by (simp add: openssl_bn.GetCompact [OF openssl_bn_ref] pack4_def)
qed


lemma ex_add_checks: "\<exists>fBlock. add_checks ref_ext ex_net ex_shares ex_share 1789992000 = Inr fBlock"
proof -
  have "NextShareBits ref_ext ex_shares 0 = 0x03123456" using ex_floor_bits by (simp add: NextShareBits_def)
  moreover have "NextShareMinTime ex_shares 0 = 0"
    by (simp add: NextShareMinTime_def numeral_eq_Suc)
  moreover have "i32 0 = 0" by (simp add: i32_id in_i32_def)
  moreover obtain fBlock where "CheckShare ref_ext ex_net ex_share
      [\<lparr>payoutScript = ex_script, ws_work = 2 ^ 64 - 1\<rparr>] 1 ex_floor True = Inr fBlock"
    using ex_CheckShare by blast
  moreover note ex_share_window
  ultimately show ?thesis
    by (simp add: add_checks_def Let_def Has_def MAX_UNCLES_def missing_def new_height_def ex_share_height
        ex_share_WorkOf CheckUncles_def MAX_SHARE_FUTURE_def)
qed

text \<open>After that share: it is the tip, checked in full.\<close>

definition ex_shares1 :: share_chain where
  "ex_shares1 = ex_shares\<lparr>mapShares := fmupd (GetId ref_ext ex_share) (full_entry ref_ext ex_shares ex_share) fmempty,
     hashTip := GetId ref_ext ex_share\<rparr>"

lemma ex_Add: "\<exists>r. Add ref_ext ex_net ex_share 1789992000 ex_shares = Some (ex_shares1, r)"
proof -
  obtain fBlock where c: "add_checks ref_ext ex_net ex_shares ex_share 1789992000 = Inr fBlock"
    using ex_add_checks by blast
  define h e where "h = GetId ref_ext ex_share" and "e = full_entry ref_ext ex_shares ex_share"
  have e: "\<not> fTrusted e" "parent_of e = 0" "en_nHeight e = 0"
    by (simp_all add: e_def full_entry_def Let_def new_height_def)
  have "trusted_children (ex_shares\<lparr>mapShares := fmupd h e fmempty\<rparr>) h = []"
    using e by (auto simp: trusted_children_def in_sorted_list_of_fmap filter_empty_conv split: if_split_asm)
  then have a: "add_entry ref_ext ex_shares ex_share = ex_shares\<lparr>mapShares := fmupd h e fmempty\<rparr>"
    by (simp add: add_entry_def Let_def flip: h_def e_def)
  have "Heavier (ex_shares\<lparr>mapShares := fmupd h e fmempty\<rparr>) h 1789992000 = Some True \<or>
      h = 0 \<and> Heavier (ex_shares\<lparr>mapShares := fmupd h e fmempty\<rparr>) h 1789992000 = Some True"
    using e by (simp add: Heavier_def)
  moreover have "Prune ex_shares1 = Some ex_shares1"
    using e by (simp add: Prune_def ex_shares1_def Let_def flip: h_def e_def)
  moreover have "Evict 0 ex_shares1 = ex_shares1"
    by (simp add: Evict_def ex_shares1_def MAX_CHAIN_SHARES_def HISTORY_SHARES_def fcard_finsert_if fcard_fempty)
  ultimately show ?thesis
    by (simp add: Add_def c a ex_shares1_def flip: h_def e_def) (auto simp: Let_def)
qed

lemma ex_chain_run: "chain_run ref_ext ex_net {ex_share} ex_shares1"
  using ex_Add chain_run.add [OF chain_run.start [of ref_ext ex_net "{ex_share}" ex_floor True]]
  by (auto simp: ex_shares_def)


text \<open>A fork: shares 2 and 3 build on share 1, and the tip is 2, with less work; 4 builds on the tip and
  names 3 as an uncle.\<close>

definition ex_at :: "uint256 \<Rightarrow> uint256 list \<Rightarrow> u32 \<Rightarrow> nat \<Rightarrow> share_entry" where
  "ex_at prev us h w =
    \<lparr>share = ex_share\<lparr>sh_data := ex_data\<lparr>hashPrevShare := prev, vUncles := us, nShareHeight := h\<rparr>\<rparr>,
     en_nHeight = int (unat h), work = w, bnOwnWork = int w, bnChainWork = int w, fTrusted = False\<rparr>"

definition ex_fork :: share_chain where
  "ex_fork = ex_shares\<lparr>mapShares := fmupd 3 (ex_at 1 [] 1 7) (fmupd 2 (ex_at 1 [] 1 5) (fmupd 1 (ex_at 0 [] 0 10) fmempty)),
     hashTip := 2\<rparr>"

lemma ex_at_sel [simp]: "parent_of (ex_at p us h w) = p" "uncles_of (ex_at p us h w) = us"
  "en_nHeight (ex_at p us h w) = int (unat h)" "work (ex_at p us h w) = w" "bnOwnWork (ex_at p us h w) = int w"
  "\<not> fTrusted (ex_at p us h w)" "sh_nTime (share (ex_at p us h w)) = 1789992000"
  "sd_payoutScript (sh_data (share (ex_at p us h w))) = ex_script"
  "nShareBits (sh_data (share (ex_at p us h w))) = 0x03123456"
  by (simp_all add: ex_at_def)

lemma ex_fork_Get: "Get ex_fork h = (if h = 3 then Some (ex_at 1 [] 1 7) else if h = 2 then Some (ex_at 1 [] 1 5)
    else if h = 1 then Some (ex_at 0 [] 0 10) else None)"
  by (simp add: ex_fork_def)

lemma ex_fork_tip [simp]: "hashTip ex_fork = 2" "bnFloor ex_fork = ex_floor"
  by (simp_all add: ex_fork_def)

lemma ex_fork_grounded: "grounded ex_fork unat"
  by (auto simp: grounded_def ex_fork_Get Has_def split: if_split_asm)

lemma ex_fork_level: "level ex_fork"
  by (auto simp: level_def ex_fork_Get split: if_split_asm)

lemma ex_fork_heavier: "Heavier ex_fork 3 1789992000 = Some True"
proof -
  have "meet ex_fork 3 2 0 0 = Some (Some (7, 5))"
    by (subst meet.simps, simp add: ex_fork_Get, subst meet.simps, simp add: ex_fork_Get, subst meet.simps,
        simp add: ex_fork_Get)
  then show ?thesis by (simp add: Heavier_def LinesMeet_def ex_fork_Get)
qed

lemma ex_fork_window: "\<exists>v. WindowFor ex_fork (ex_data\<lparr>hashPrevShare := 2, vUncles := [3], nShareHeight := 2\<rparr>) 9 = Some v"
proof -
  have "WINDOW_SHARES - 1 = Suc (Suc (WINDOW_SHARES - 3))" by (simp add: WINDOW_SHARES_def)
  then show ?thesis
    by (simp add: WindowFor_def credit_share_def ex_fork_Get Let_def)
qed

lemma ex_fork_small: "small_works ex_fork"
  by (auto simp: small_works_def ex_fork_Get split: if_split_asm)


lemma ex_fork_targets: "\<forall>e \<in> set (line ex_fork h k). 0 \<le> SetCompact ref_ext (unat (nShareBits (sh_data (share e))))"
  by (induction k arbitrary: h) (auto simp: ex_fork_Get ex_bits_target)

lemma share_chain_ok_ex: "shares_ok ref_ext ex_net ex_shares1"
  by (rule openssl_bn.chain_run_ok [OF openssl_bn_ref ex_chain_run])

end
