(* ===== verification/WordList.thy ===== *)
theory WordList
  imports Main
begin

text \<open>
  The English words of a recovery phrase (\<^verbatim>\<open>bip39_english.h\<close>), 128 to a list, and what makes them
  words: none is empty, all are in small letters, and they stand in the order of a dictionary,
  so that no two are equal.
\<close>

section \<open>Words and their order\<close>

definition plain_char :: "char \<Rightarrow> bool" where
  "plain_char c \<longleftrightarrow> 97 \<le> (of_char c :: nat) \<and> (of_char c :: nat) \<le> 122"

definition plain_word :: "string \<Rightarrow> bool" where
  "plain_word w \<longleftrightarrow> w \<noteq> [] \<and> list_all plain_char w"

fun below :: "string \<Rightarrow> string \<Rightarrow> bool" where
  "below [] b \<longleftrightarrow> b \<noteq> []"
| "below (a # as) [] \<longleftrightarrow> False"
| "below (a # as) (b # bs) \<longleftrightarrow> (if a = b then below as bs else of_char a < (of_char b :: nat))"

fun ascending :: "string list \<Rightarrow> bool" where
  "ascending (a # b # r) \<longleftrightarrow> below a b \<and> ascending (b # r)"
| "ascending _ \<longleftrightarrow> True"

lemma below_irrefl: "\<not> below a a"
  by (induction a) simp_all

lemma below_trans: "below a b \<Longrightarrow> below b c \<Longrightarrow> below a c"
proof (induction a c arbitrary: b rule: below.induct)
  case (1 c)
  then show ?case by (cases b) (auto elim: below.elims)
next
  case (2 a as)
  then show ?case by (cases b) simp_all
next
  case (3 a as c cs)
  then show ?case by (cases b) (auto split: if_split_asm)
qed

lemma ascending_Cons: "ascending (a # r) \<longleftrightarrow> ascending r \<and> list_all (below a) r"
proof (induction r arbitrary: a)
  case (Cons b r)
  then show ?case using below_trans by (auto simp: list_all_iff)
qed simp

lemma ascending_append:
  assumes "ascending xs" "ascending (y # ys)" "xs \<noteq> []" "below (last xs) y"
  shows "ascending (xs @ y # ys)"
  using assms by (induction xs rule: ascending.induct) simp_all

lemma ascending_distinct: "ascending ws \<Longrightarrow> distinct ws"
  using below_irrefl by (induction ws) (auto simp: ascending_Cons list_all_iff)

section \<open>The words\<close>

definition words_0 :: "string list" where
  "words_0 =
    [''abandon'', ''ability'', ''able'', ''about'', ''above'', ''absent'', ''absorb'',
     ''abstract'', ''absurd'', ''abuse'', ''access'', ''accident'', ''account'', ''accuse'',
     ''achieve'', ''acid'', ''acoustic'', ''acquire'', ''across'', ''act'', ''action'',
     ''actor'', ''actress'', ''actual'', ''adapt'', ''add'', ''addict'', ''address'', ''adjust'',
     ''admit'', ''adult'', ''advance'', ''advice'', ''aerobic'', ''affair'', ''afford'',
     ''afraid'', ''again'', ''age'', ''agent'', ''agree'', ''ahead'', ''aim'', ''air'',
     ''airport'', ''aisle'', ''alarm'', ''album'', ''alcohol'', ''alert'', ''alien'', ''all'',
     ''alley'', ''allow'', ''almost'', ''alone'', ''alpha'', ''already'', ''also'', ''alter'',
     ''always'', ''amateur'', ''amazing'', ''among'', ''amount'', ''amused'', ''analyst'',
     ''anchor'', ''ancient'', ''anger'', ''angle'', ''angry'', ''animal'', ''ankle'',
     ''announce'', ''annual'', ''another'', ''answer'', ''antenna'', ''antique'', ''anxiety'',
     ''any'', ''apart'', ''apology'', ''appear'', ''apple'', ''approve'', ''april'', ''arch'',
     ''arctic'', ''area'', ''arena'', ''argue'', ''arm'', ''armed'', ''armor'', ''army'',
     ''around'', ''arrange'', ''arrest'', ''arrive'', ''arrow'', ''art'', ''artefact'',
     ''artist'', ''artwork'', ''ask'', ''aspect'', ''assault'', ''asset'', ''assist'',
     ''assume'', ''asthma'', ''athlete'', ''atom'', ''attack'', ''attend'', ''attitude'',
     ''attract'', ''auction'', ''audit'', ''august'', ''aunt'', ''author'', ''auto'', ''autumn'',
     ''average'', ''avocado'']"

definition words_1 :: "string list" where
  "words_1 =
    [''avoid'', ''awake'', ''aware'', ''away'', ''awesome'', ''awful'', ''awkward'', ''axis'',
     ''baby'', ''bachelor'', ''bacon'', ''badge'', ''bag'', ''balance'', ''balcony'', ''ball'',
     ''bamboo'', ''banana'', ''banner'', ''bar'', ''barely'', ''bargain'', ''barrel'', ''base'',
     ''basic'', ''basket'', ''battle'', ''beach'', ''bean'', ''beauty'', ''because'', ''become'',
     ''beef'', ''before'', ''begin'', ''behave'', ''behind'', ''believe'', ''below'', ''belt'',
     ''bench'', ''benefit'', ''best'', ''betray'', ''better'', ''between'', ''beyond'',
     ''bicycle'', ''bid'', ''bike'', ''bind'', ''biology'', ''bird'', ''birth'', ''bitter'',
     ''black'', ''blade'', ''blame'', ''blanket'', ''blast'', ''bleak'', ''bless'', ''blind'',
     ''blood'', ''blossom'', ''blouse'', ''blue'', ''blur'', ''blush'', ''board'', ''boat'',
     ''body'', ''boil'', ''bomb'', ''bone'', ''bonus'', ''book'', ''boost'', ''border'',
     ''boring'', ''borrow'', ''boss'', ''bottom'', ''bounce'', ''box'', ''boy'', ''bracket'',
     ''brain'', ''brand'', ''brass'', ''brave'', ''bread'', ''breeze'', ''brick'', ''bridge'',
     ''brief'', ''bright'', ''bring'', ''brisk'', ''broccoli'', ''broken'', ''bronze'',
     ''broom'', ''brother'', ''brown'', ''brush'', ''bubble'', ''buddy'', ''budget'',
     ''buffalo'', ''build'', ''bulb'', ''bulk'', ''bullet'', ''bundle'', ''bunker'', ''burden'',
     ''burger'', ''burst'', ''bus'', ''business'', ''busy'', ''butter'', ''buyer'', ''buzz'',
     ''cabbage'', ''cabin'', ''cable'']"

definition words_2 :: "string list" where
  "words_2 =
    [''cactus'', ''cage'', ''cake'', ''call'', ''calm'', ''camera'', ''camp'', ''can'',
     ''canal'', ''cancel'', ''candy'', ''cannon'', ''canoe'', ''canvas'', ''canyon'',
     ''capable'', ''capital'', ''captain'', ''car'', ''carbon'', ''card'', ''cargo'', ''carpet'',
     ''carry'', ''cart'', ''case'', ''cash'', ''casino'', ''castle'', ''casual'', ''cat'',
     ''catalog'', ''catch'', ''category'', ''cattle'', ''caught'', ''cause'', ''caution'',
     ''cave'', ''ceiling'', ''celery'', ''cement'', ''census'', ''century'', ''cereal'',
     ''certain'', ''chair'', ''chalk'', ''champion'', ''change'', ''chaos'', ''chapter'',
     ''charge'', ''chase'', ''chat'', ''cheap'', ''check'', ''cheese'', ''chef'', ''cherry'',
     ''chest'', ''chicken'', ''chief'', ''child'', ''chimney'', ''choice'', ''choose'',
     ''chronic'', ''chuckle'', ''chunk'', ''churn'', ''cigar'', ''cinnamon'', ''circle'',
     ''citizen'', ''city'', ''civil'', ''claim'', ''clap'', ''clarify'', ''claw'', ''clay'',
     ''clean'', ''clerk'', ''clever'', ''click'', ''client'', ''cliff'', ''climb'', ''clinic'',
     ''clip'', ''clock'', ''clog'', ''close'', ''cloth'', ''cloud'', ''clown'', ''club'',
     ''clump'', ''cluster'', ''clutch'', ''coach'', ''coast'', ''coconut'', ''code'', ''coffee'',
     ''coil'', ''coin'', ''collect'', ''color'', ''column'', ''combine'', ''come'', ''comfort'',
     ''comic'', ''common'', ''company'', ''concert'', ''conduct'', ''confirm'', ''congress'',
     ''connect'', ''consider'', ''control'', ''convince'', ''cook'', ''cool'', ''copper'']"

definition words_3 :: "string list" where
  "words_3 =
    [''copy'', ''coral'', ''core'', ''corn'', ''correct'', ''cost'', ''cotton'', ''couch'',
     ''country'', ''couple'', ''course'', ''cousin'', ''cover'', ''coyote'', ''crack'',
     ''cradle'', ''craft'', ''cram'', ''crane'', ''crash'', ''crater'', ''crawl'', ''crazy'',
     ''cream'', ''credit'', ''creek'', ''crew'', ''cricket'', ''crime'', ''crisp'', ''critic'',
     ''crop'', ''cross'', ''crouch'', ''crowd'', ''crucial'', ''cruel'', ''cruise'', ''crumble'',
     ''crunch'', ''crush'', ''cry'', ''crystal'', ''cube'', ''culture'', ''cup'', ''cupboard'',
     ''curious'', ''current'', ''curtain'', ''curve'', ''cushion'', ''custom'', ''cute'',
     ''cycle'', ''dad'', ''damage'', ''damp'', ''dance'', ''danger'', ''daring'', ''dash'',
     ''daughter'', ''dawn'', ''day'', ''deal'', ''debate'', ''debris'', ''decade'', ''december'',
     ''decide'', ''decline'', ''decorate'', ''decrease'', ''deer'', ''defense'', ''define'',
     ''defy'', ''degree'', ''delay'', ''deliver'', ''demand'', ''demise'', ''denial'',
     ''dentist'', ''deny'', ''depart'', ''depend'', ''deposit'', ''depth'', ''deputy'',
     ''derive'', ''describe'', ''desert'', ''design'', ''desk'', ''despair'', ''destroy'',
     ''detail'', ''detect'', ''develop'', ''device'', ''devote'', ''diagram'', ''dial'',
     ''diamond'', ''diary'', ''dice'', ''diesel'', ''diet'', ''differ'', ''digital'',
     ''dignity'', ''dilemma'', ''dinner'', ''dinosaur'', ''direct'', ''dirt'', ''disagree'',
     ''discover'', ''disease'', ''dish'', ''dismiss'', ''disorder'', ''display'', ''distance'',
     ''divert'', ''divide'']"

definition words_4 :: "string list" where
  "words_4 =
    [''divorce'', ''dizzy'', ''doctor'', ''document'', ''dog'', ''doll'', ''dolphin'',
     ''domain'', ''donate'', ''donkey'', ''donor'', ''door'', ''dose'', ''double'', ''dove'',
     ''draft'', ''dragon'', ''drama'', ''drastic'', ''draw'', ''dream'', ''dress'', ''drift'',
     ''drill'', ''drink'', ''drip'', ''drive'', ''drop'', ''drum'', ''dry'', ''duck'', ''dumb'',
     ''dune'', ''during'', ''dust'', ''dutch'', ''duty'', ''dwarf'', ''dynamic'', ''eager'',
     ''eagle'', ''early'', ''earn'', ''earth'', ''easily'', ''east'', ''easy'', ''echo'',
     ''ecology'', ''economy'', ''edge'', ''edit'', ''educate'', ''effort'', ''egg'', ''eight'',
     ''either'', ''elbow'', ''elder'', ''electric'', ''elegant'', ''element'', ''elephant'',
     ''elevator'', ''elite'', ''else'', ''embark'', ''embody'', ''embrace'', ''emerge'',
     ''emotion'', ''employ'', ''empower'', ''empty'', ''enable'', ''enact'', ''end'',
     ''endless'', ''endorse'', ''enemy'', ''energy'', ''enforce'', ''engage'', ''engine'',
     ''enhance'', ''enjoy'', ''enlist'', ''enough'', ''enrich'', ''enroll'', ''ensure'',
     ''enter'', ''entire'', ''entry'', ''envelope'', ''episode'', ''equal'', ''equip'', ''era'',
     ''erase'', ''erode'', ''erosion'', ''error'', ''erupt'', ''escape'', ''essay'', ''essence'',
     ''estate'', ''eternal'', ''ethics'', ''evidence'', ''evil'', ''evoke'', ''evolve'',
     ''exact'', ''example'', ''excess'', ''exchange'', ''excite'', ''exclude'', ''excuse'',
     ''execute'', ''exercise'', ''exhaust'', ''exhibit'', ''exile'', ''exist'', ''exit'']"

definition words_5 :: "string list" where
  "words_5 =
    [''exotic'', ''expand'', ''expect'', ''expire'', ''explain'', ''expose'', ''express'',
     ''extend'', ''extra'', ''eye'', ''eyebrow'', ''fabric'', ''face'', ''faculty'', ''fade'',
     ''faint'', ''faith'', ''fall'', ''false'', ''fame'', ''family'', ''famous'', ''fan'',
     ''fancy'', ''fantasy'', ''farm'', ''fashion'', ''fat'', ''fatal'', ''father'', ''fatigue'',
     ''fault'', ''favorite'', ''feature'', ''february'', ''federal'', ''fee'', ''feed'',
     ''feel'', ''female'', ''fence'', ''festival'', ''fetch'', ''fever'', ''few'', ''fiber'',
     ''fiction'', ''field'', ''figure'', ''file'', ''film'', ''filter'', ''final'', ''find'',
     ''fine'', ''finger'', ''finish'', ''fire'', ''firm'', ''first'', ''fiscal'', ''fish'',
     ''fit'', ''fitness'', ''fix'', ''flag'', ''flame'', ''flash'', ''flat'', ''flavor'',
     ''flee'', ''flight'', ''flip'', ''float'', ''flock'', ''floor'', ''flower'', ''fluid'',
     ''flush'', ''fly'', ''foam'', ''focus'', ''fog'', ''foil'', ''fold'', ''follow'', ''food'',
     ''foot'', ''force'', ''forest'', ''forget'', ''fork'', ''fortune'', ''forum'', ''forward'',
     ''fossil'', ''foster'', ''found'', ''fox'', ''fragile'', ''frame'', ''frequent'', ''fresh'',
     ''friend'', ''fringe'', ''frog'', ''front'', ''frost'', ''frown'', ''frozen'', ''fruit'',
     ''fuel'', ''fun'', ''funny'', ''furnace'', ''fury'', ''future'', ''gadget'', ''gain'',
     ''galaxy'', ''gallery'', ''game'', ''gap'', ''garage'', ''garbage'', ''garden'', ''garlic'',
     ''garment'']"

definition words_6 :: "string list" where
  "words_6 =
    [''gas'', ''gasp'', ''gate'', ''gather'', ''gauge'', ''gaze'', ''general'', ''genius'',
     ''genre'', ''gentle'', ''genuine'', ''gesture'', ''ghost'', ''giant'', ''gift'', ''giggle'',
     ''ginger'', ''giraffe'', ''girl'', ''give'', ''glad'', ''glance'', ''glare'', ''glass'',
     ''glide'', ''glimpse'', ''globe'', ''gloom'', ''glory'', ''glove'', ''glow'', ''glue'',
     ''goat'', ''goddess'', ''gold'', ''good'', ''goose'', ''gorilla'', ''gospel'', ''gossip'',
     ''govern'', ''gown'', ''grab'', ''grace'', ''grain'', ''grant'', ''grape'', ''grass'',
     ''gravity'', ''great'', ''green'', ''grid'', ''grief'', ''grit'', ''grocery'', ''group'',
     ''grow'', ''grunt'', ''guard'', ''guess'', ''guide'', ''guilt'', ''guitar'', ''gun'',
     ''gym'', ''habit'', ''hair'', ''half'', ''hammer'', ''hamster'', ''hand'', ''happy'',
     ''harbor'', ''hard'', ''harsh'', ''harvest'', ''hat'', ''have'', ''hawk'', ''hazard'',
     ''head'', ''health'', ''heart'', ''heavy'', ''hedgehog'', ''height'', ''hello'', ''helmet'',
     ''help'', ''hen'', ''hero'', ''hidden'', ''high'', ''hill'', ''hint'', ''hip'', ''hire'',
     ''history'', ''hobby'', ''hockey'', ''hold'', ''hole'', ''holiday'', ''hollow'', ''home'',
     ''honey'', ''hood'', ''hope'', ''horn'', ''horror'', ''horse'', ''hospital'', ''host'',
     ''hotel'', ''hour'', ''hover'', ''hub'', ''huge'', ''human'', ''humble'', ''humor'',
     ''hundred'', ''hungry'', ''hunt'', ''hurdle'', ''hurry'', ''hurt'', ''husband'']"

definition words_7 :: "string list" where
  "words_7 =
    [''hybrid'', ''ice'', ''icon'', ''idea'', ''identify'', ''idle'', ''ignore'', ''ill'',
     ''illegal'', ''illness'', ''image'', ''imitate'', ''immense'', ''immune'', ''impact'',
     ''impose'', ''improve'', ''impulse'', ''inch'', ''include'', ''income'', ''increase'',
     ''index'', ''indicate'', ''indoor'', ''industry'', ''infant'', ''inflict'', ''inform'',
     ''inhale'', ''inherit'', ''initial'', ''inject'', ''injury'', ''inmate'', ''inner'',
     ''innocent'', ''input'', ''inquiry'', ''insane'', ''insect'', ''inside'', ''inspire'',
     ''install'', ''intact'', ''interest'', ''into'', ''invest'', ''invite'', ''involve'',
     ''iron'', ''island'', ''isolate'', ''issue'', ''item'', ''ivory'', ''jacket'', ''jaguar'',
     ''jar'', ''jazz'', ''jealous'', ''jeans'', ''jelly'', ''jewel'', ''job'', ''join'',
     ''joke'', ''journey'', ''joy'', ''judge'', ''juice'', ''jump'', ''jungle'', ''junior'',
     ''junk'', ''just'', ''kangaroo'', ''keen'', ''keep'', ''ketchup'', ''key'', ''kick'',
     ''kid'', ''kidney'', ''kind'', ''kingdom'', ''kiss'', ''kit'', ''kitchen'', ''kite'',
     ''kitten'', ''kiwi'', ''knee'', ''knife'', ''knock'', ''know'', ''lab'', ''label'',
     ''labor'', ''ladder'', ''lady'', ''lake'', ''lamp'', ''language'', ''laptop'', ''large'',
     ''later'', ''latin'', ''laugh'', ''laundry'', ''lava'', ''law'', ''lawn'', ''lawsuit'',
     ''layer'', ''lazy'', ''leader'', ''leaf'', ''learn'', ''leave'', ''lecture'', ''left'',
     ''leg'', ''legal'', ''legend'', ''leisure'', ''lemon'', ''lend'']"

definition words_8 :: "string list" where
  "words_8 =
    [''length'', ''lens'', ''leopard'', ''lesson'', ''letter'', ''level'', ''liar'', ''liberty'',
     ''library'', ''license'', ''life'', ''lift'', ''light'', ''like'', ''limb'', ''limit'',
     ''link'', ''lion'', ''liquid'', ''list'', ''little'', ''live'', ''lizard'', ''load'',
     ''loan'', ''lobster'', ''local'', ''lock'', ''logic'', ''lonely'', ''long'', ''loop'',
     ''lottery'', ''loud'', ''lounge'', ''love'', ''loyal'', ''lucky'', ''luggage'', ''lumber'',
     ''lunar'', ''lunch'', ''luxury'', ''lyrics'', ''machine'', ''mad'', ''magic'', ''magnet'',
     ''maid'', ''mail'', ''main'', ''major'', ''make'', ''mammal'', ''man'', ''manage'',
     ''mandate'', ''mango'', ''mansion'', ''manual'', ''maple'', ''marble'', ''march'',
     ''margin'', ''marine'', ''market'', ''marriage'', ''mask'', ''mass'', ''master'', ''match'',
     ''material'', ''math'', ''matrix'', ''matter'', ''maximum'', ''maze'', ''meadow'', ''mean'',
     ''measure'', ''meat'', ''mechanic'', ''medal'', ''media'', ''melody'', ''melt'', ''member'',
     ''memory'', ''mention'', ''menu'', ''mercy'', ''merge'', ''merit'', ''merry'', ''mesh'',
     ''message'', ''metal'', ''method'', ''middle'', ''midnight'', ''milk'', ''million'',
     ''mimic'', ''mind'', ''minimum'', ''minor'', ''minute'', ''miracle'', ''mirror'',
     ''misery'', ''miss'', ''mistake'', ''mix'', ''mixed'', ''mixture'', ''mobile'', ''model'',
     ''modify'', ''mom'', ''moment'', ''monitor'', ''monkey'', ''monster'', ''month'', ''moon'',
     ''moral'', ''more'', ''morning'']"

definition words_9 :: "string list" where
  "words_9 =
    [''mosquito'', ''mother'', ''motion'', ''motor'', ''mountain'', ''mouse'', ''move'',
     ''movie'', ''much'', ''muffin'', ''mule'', ''multiply'', ''muscle'', ''museum'',
     ''mushroom'', ''music'', ''must'', ''mutual'', ''myself'', ''mystery'', ''myth'', ''naive'',
     ''name'', ''napkin'', ''narrow'', ''nasty'', ''nation'', ''nature'', ''near'', ''neck'',
     ''need'', ''negative'', ''neglect'', ''neither'', ''nephew'', ''nerve'', ''nest'', ''net'',
     ''network'', ''neutral'', ''never'', ''news'', ''next'', ''nice'', ''night'', ''noble'',
     ''noise'', ''nominee'', ''noodle'', ''normal'', ''north'', ''nose'', ''notable'', ''note'',
     ''nothing'', ''notice'', ''novel'', ''now'', ''nuclear'', ''number'', ''nurse'', ''nut'',
     ''oak'', ''obey'', ''object'', ''oblige'', ''obscure'', ''observe'', ''obtain'',
     ''obvious'', ''occur'', ''ocean'', ''october'', ''odor'', ''off'', ''offer'', ''office'',
     ''often'', ''oil'', ''okay'', ''old'', ''olive'', ''olympic'', ''omit'', ''once'', ''one'',
     ''onion'', ''online'', ''only'', ''open'', ''opera'', ''opinion'', ''oppose'', ''option'',
     ''orange'', ''orbit'', ''orchard'', ''order'', ''ordinary'', ''organ'', ''orient'',
     ''original'', ''orphan'', ''ostrich'', ''other'', ''outdoor'', ''outer'', ''output'',
     ''outside'', ''oval'', ''oven'', ''over'', ''own'', ''owner'', ''oxygen'', ''oyster'',
     ''ozone'', ''pact'', ''paddle'', ''page'', ''pair'', ''palace'', ''palm'', ''panda'',
     ''panel'', ''panic'', ''panther'', ''paper'']"

definition words_10 :: "string list" where
  "words_10 =
    [''parade'', ''parent'', ''park'', ''parrot'', ''party'', ''pass'', ''patch'', ''path'',
     ''patient'', ''patrol'', ''pattern'', ''pause'', ''pave'', ''payment'', ''peace'',
     ''peanut'', ''pear'', ''peasant'', ''pelican'', ''pen'', ''penalty'', ''pencil'',
     ''people'', ''pepper'', ''perfect'', ''permit'', ''person'', ''pet'', ''phone'', ''photo'',
     ''phrase'', ''physical'', ''piano'', ''picnic'', ''picture'', ''piece'', ''pig'',
     ''pigeon'', ''pill'', ''pilot'', ''pink'', ''pioneer'', ''pipe'', ''pistol'', ''pitch'',
     ''pizza'', ''place'', ''planet'', ''plastic'', ''plate'', ''play'', ''please'', ''pledge'',
     ''pluck'', ''plug'', ''plunge'', ''poem'', ''poet'', ''point'', ''polar'', ''pole'',
     ''police'', ''pond'', ''pony'', ''pool'', ''popular'', ''portion'', ''position'',
     ''possible'', ''post'', ''potato'', ''pottery'', ''poverty'', ''powder'', ''power'',
     ''practice'', ''praise'', ''predict'', ''prefer'', ''prepare'', ''present'', ''pretty'',
     ''prevent'', ''price'', ''pride'', ''primary'', ''print'', ''priority'', ''prison'',
     ''private'', ''prize'', ''problem'', ''process'', ''produce'', ''profit'', ''program'',
     ''project'', ''promote'', ''proof'', ''property'', ''prosper'', ''protect'', ''proud'',
     ''provide'', ''public'', ''pudding'', ''pull'', ''pulp'', ''pulse'', ''pumpkin'', ''punch'',
     ''pupil'', ''puppy'', ''purchase'', ''purity'', ''purpose'', ''purse'', ''push'', ''put'',
     ''puzzle'', ''pyramid'', ''quality'', ''quantum'', ''quarter'', ''question'', ''quick'',
     ''quit'', ''quiz'']"

definition words_11 :: "string list" where
  "words_11 =
    [''quote'', ''rabbit'', ''raccoon'', ''race'', ''rack'', ''radar'', ''radio'', ''rail'',
     ''rain'', ''raise'', ''rally'', ''ramp'', ''ranch'', ''random'', ''range'', ''rapid'',
     ''rare'', ''rate'', ''rather'', ''raven'', ''raw'', ''razor'', ''ready'', ''real'',
     ''reason'', ''rebel'', ''rebuild'', ''recall'', ''receive'', ''recipe'', ''record'',
     ''recycle'', ''reduce'', ''reflect'', ''reform'', ''refuse'', ''region'', ''regret'',
     ''regular'', ''reject'', ''relax'', ''release'', ''relief'', ''rely'', ''remain'',
     ''remember'', ''remind'', ''remove'', ''render'', ''renew'', ''rent'', ''reopen'',
     ''repair'', ''repeat'', ''replace'', ''report'', ''require'', ''rescue'', ''resemble'',
     ''resist'', ''resource'', ''response'', ''result'', ''retire'', ''retreat'', ''return'',
     ''reunion'', ''reveal'', ''review'', ''reward'', ''rhythm'', ''rib'', ''ribbon'', ''rice'',
     ''rich'', ''ride'', ''ridge'', ''rifle'', ''right'', ''rigid'', ''ring'', ''riot'',
     ''ripple'', ''risk'', ''ritual'', ''rival'', ''river'', ''road'', ''roast'', ''robot'',
     ''robust'', ''rocket'', ''romance'', ''roof'', ''rookie'', ''room'', ''rose'', ''rotate'',
     ''rough'', ''round'', ''route'', ''royal'', ''rubber'', ''rude'', ''rug'', ''rule'',
     ''run'', ''runway'', ''rural'', ''sad'', ''saddle'', ''sadness'', ''safe'', ''sail'',
     ''salad'', ''salmon'', ''salon'', ''salt'', ''salute'', ''same'', ''sample'', ''sand'',
     ''satisfy'', ''satoshi'', ''sauce'', ''sausage'', ''save'', ''say'']"

definition words_12 :: "string list" where
  "words_12 =
    [''scale'', ''scan'', ''scare'', ''scatter'', ''scene'', ''scheme'', ''school'', ''science'',
     ''scissors'', ''scorpion'', ''scout'', ''scrap'', ''screen'', ''script'', ''scrub'',
     ''sea'', ''search'', ''season'', ''seat'', ''second'', ''secret'', ''section'',
     ''security'', ''seed'', ''seek'', ''segment'', ''select'', ''sell'', ''seminar'',
     ''senior'', ''sense'', ''sentence'', ''series'', ''service'', ''session'', ''settle'',
     ''setup'', ''seven'', ''shadow'', ''shaft'', ''shallow'', ''share'', ''shed'', ''shell'',
     ''sheriff'', ''shield'', ''shift'', ''shine'', ''ship'', ''shiver'', ''shock'', ''shoe'',
     ''shoot'', ''shop'', ''short'', ''shoulder'', ''shove'', ''shrimp'', ''shrug'', ''shuffle'',
     ''shy'', ''sibling'', ''sick'', ''side'', ''siege'', ''sight'', ''sign'', ''silent'',
     ''silk'', ''silly'', ''silver'', ''similar'', ''simple'', ''since'', ''sing'', ''siren'',
     ''sister'', ''situate'', ''six'', ''size'', ''skate'', ''sketch'', ''ski'', ''skill'',
     ''skin'', ''skirt'', ''skull'', ''slab'', ''slam'', ''sleep'', ''slender'', ''slice'',
     ''slide'', ''slight'', ''slim'', ''slogan'', ''slot'', ''slow'', ''slush'', ''small'',
     ''smart'', ''smile'', ''smoke'', ''smooth'', ''snack'', ''snake'', ''snap'', ''sniff'',
     ''snow'', ''soap'', ''soccer'', ''social'', ''sock'', ''soda'', ''soft'', ''solar'',
     ''soldier'', ''solid'', ''solution'', ''solve'', ''someone'', ''song'', ''soon'', ''sorry'',
     ''sort'', ''soul'', ''sound'', ''soup'']"

definition words_13 :: "string list" where
  "words_13 =
    [''source'', ''south'', ''space'', ''spare'', ''spatial'', ''spawn'', ''speak'', ''special'',
     ''speed'', ''spell'', ''spend'', ''sphere'', ''spice'', ''spider'', ''spike'', ''spin'',
     ''spirit'', ''split'', ''spoil'', ''sponsor'', ''spoon'', ''sport'', ''spot'', ''spray'',
     ''spread'', ''spring'', ''spy'', ''square'', ''squeeze'', ''squirrel'', ''stable'',
     ''stadium'', ''staff'', ''stage'', ''stairs'', ''stamp'', ''stand'', ''start'', ''state'',
     ''stay'', ''steak'', ''steel'', ''stem'', ''step'', ''stereo'', ''stick'', ''still'',
     ''sting'', ''stock'', ''stomach'', ''stone'', ''stool'', ''story'', ''stove'', ''strategy'',
     ''street'', ''strike'', ''strong'', ''struggle'', ''student'', ''stuff'', ''stumble'',
     ''style'', ''subject'', ''submit'', ''subway'', ''success'', ''such'', ''sudden'',
     ''suffer'', ''sugar'', ''suggest'', ''suit'', ''summer'', ''sun'', ''sunny'', ''sunset'',
     ''super'', ''supply'', ''supreme'', ''sure'', ''surface'', ''surge'', ''surprise'',
     ''surround'', ''survey'', ''suspect'', ''sustain'', ''swallow'', ''swamp'', ''swap'',
     ''swarm'', ''swear'', ''sweet'', ''swift'', ''swim'', ''swing'', ''switch'', ''sword'',
     ''symbol'', ''symptom'', ''syrup'', ''system'', ''table'', ''tackle'', ''tag'', ''tail'',
     ''talent'', ''talk'', ''tank'', ''tape'', ''target'', ''task'', ''taste'', ''tattoo'',
     ''taxi'', ''teach'', ''team'', ''tell'', ''ten'', ''tenant'', ''tennis'', ''tent'',
     ''term'', ''test'', ''text'', ''thank'', ''that'']"

definition words_14 :: "string list" where
  "words_14 =
    [''theme'', ''then'', ''theory'', ''there'', ''they'', ''thing'', ''this'', ''thought'',
     ''three'', ''thrive'', ''throw'', ''thumb'', ''thunder'', ''ticket'', ''tide'', ''tiger'',
     ''tilt'', ''timber'', ''time'', ''tiny'', ''tip'', ''tired'', ''tissue'', ''title'',
     ''toast'', ''tobacco'', ''today'', ''toddler'', ''toe'', ''together'', ''toilet'',
     ''token'', ''tomato'', ''tomorrow'', ''tone'', ''tongue'', ''tonight'', ''tool'', ''tooth'',
     ''top'', ''topic'', ''topple'', ''torch'', ''tornado'', ''tortoise'', ''toss'', ''total'',
     ''tourist'', ''toward'', ''tower'', ''town'', ''toy'', ''track'', ''trade'', ''traffic'',
     ''tragic'', ''train'', ''transfer'', ''trap'', ''trash'', ''travel'', ''tray'', ''treat'',
     ''tree'', ''trend'', ''trial'', ''tribe'', ''trick'', ''trigger'', ''trim'', ''trip'',
     ''trophy'', ''trouble'', ''truck'', ''true'', ''truly'', ''trumpet'', ''trust'', ''truth'',
     ''try'', ''tube'', ''tuition'', ''tumble'', ''tuna'', ''tunnel'', ''turkey'', ''turn'',
     ''turtle'', ''twelve'', ''twenty'', ''twice'', ''twin'', ''twist'', ''two'', ''type'',
     ''typical'', ''ugly'', ''umbrella'', ''unable'', ''unaware'', ''uncle'', ''uncover'',
     ''under'', ''undo'', ''unfair'', ''unfold'', ''unhappy'', ''uniform'', ''unique'', ''unit'',
     ''universe'', ''unknown'', ''unlock'', ''until'', ''unusual'', ''unveil'', ''update'',
     ''upgrade'', ''uphold'', ''upon'', ''upper'', ''upset'', ''urban'', ''urge'', ''usage'',
     ''use'', ''used'', ''useful'']"

definition words_15 :: "string list" where
  "words_15 =
    [''useless'', ''usual'', ''utility'', ''vacant'', ''vacuum'', ''vague'', ''valid'',
     ''valley'', ''valve'', ''van'', ''vanish'', ''vapor'', ''various'', ''vast'', ''vault'',
     ''vehicle'', ''velvet'', ''vendor'', ''venture'', ''venue'', ''verb'', ''verify'',
     ''version'', ''very'', ''vessel'', ''veteran'', ''viable'', ''vibrant'', ''vicious'',
     ''victory'', ''video'', ''view'', ''village'', ''vintage'', ''violin'', ''virtual'',
     ''virus'', ''visa'', ''visit'', ''visual'', ''vital'', ''vivid'', ''vocal'', ''voice'',
     ''void'', ''volcano'', ''volume'', ''vote'', ''voyage'', ''wage'', ''wagon'', ''wait'',
     ''walk'', ''wall'', ''walnut'', ''want'', ''warfare'', ''warm'', ''warrior'', ''wash'',
     ''wasp'', ''waste'', ''water'', ''wave'', ''way'', ''wealth'', ''weapon'', ''wear'',
     ''weasel'', ''weather'', ''web'', ''wedding'', ''weekend'', ''weird'', ''welcome'',
     ''west'', ''wet'', ''whale'', ''what'', ''wheat'', ''wheel'', ''when'', ''where'', ''whip'',
     ''whisper'', ''wide'', ''width'', ''wife'', ''wild'', ''will'', ''win'', ''window'',
     ''wine'', ''wing'', ''wink'', ''winner'', ''winter'', ''wire'', ''wisdom'', ''wise'',
     ''wish'', ''witness'', ''wolf'', ''woman'', ''wonder'', ''wood'', ''wool'', ''word'',
     ''work'', ''world'', ''worry'', ''worth'', ''wrap'', ''wreck'', ''wrestle'', ''wrist'',
     ''write'', ''wrong'', ''yard'', ''year'', ''yellow'', ''you'', ''young'', ''youth'',
     ''zebra'', ''zero'', ''zone'', ''zoo'']"

definition BIP39_ENGLISH_WORDS :: "string list" where
  "BIP39_ENGLISH_WORDS =
    words_0 @ words_1 @ words_2 @ words_3 @ words_4 @ words_5 @ words_6 @ words_7 @
    words_8 @ words_9 @ words_10 @ words_11 @ words_12 @ words_13 @ words_14 @ words_15"

section \<open>What makes them words\<close>

text \<open>A list of the given length, in order and of plain words, from its first word to its last.\<close>

definition word_run :: "nat \<Rightarrow> string \<Rightarrow> string \<Rightarrow> string list \<Rightarrow> bool" where
  "word_run n first final ws \<longleftrightarrow>
    length ws = n \<and> ws \<noteq> [] \<and> hd ws = first \<and> last ws = final \<and> ascending ws \<and> list_all plain_word ws"

lemma word_run_append:
  assumes "word_run m a b xs" "word_run n c d ys" "below b c"
  shows "word_run (m + n) a d (xs @ ys)"
proof -
  obtain y ys' where ys: "ys = y # ys'" using assms(2) by (cases ys) (simp_all add: word_run_def)
  have "ascending (xs @ ys)"
    using assms unfolding ys by (intro ascending_append) (auto simp: word_run_def)
  then show ?thesis using assms by (auto simp: word_run_def)
qed

lemma words_0_run: "word_run 128 ''abandon'' ''avocado'' words_0"
  unfolding word_run_def words_0_def by (intro conjI) (simp_all add: plain_word_def plain_char_def)

lemma words_1_run: "word_run 128 ''avoid'' ''cable'' words_1"
  unfolding word_run_def words_1_def by (intro conjI) (simp_all add: plain_word_def plain_char_def)

lemma words_2_run: "word_run 128 ''cactus'' ''copper'' words_2"
  unfolding word_run_def words_2_def by (intro conjI) (simp_all add: plain_word_def plain_char_def)

lemma words_3_run: "word_run 128 ''copy'' ''divide'' words_3"
  unfolding word_run_def words_3_def by (intro conjI) (simp_all add: plain_word_def plain_char_def)

lemma words_4_run: "word_run 128 ''divorce'' ''exit'' words_4"
  unfolding word_run_def words_4_def by (intro conjI) (simp_all add: plain_word_def plain_char_def)

lemma words_5_run: "word_run 128 ''exotic'' ''garment'' words_5"
  unfolding word_run_def words_5_def by (intro conjI) (simp_all add: plain_word_def plain_char_def)

lemma words_6_run: "word_run 128 ''gas'' ''husband'' words_6"
  unfolding word_run_def words_6_def by (intro conjI) (simp_all add: plain_word_def plain_char_def)

lemma words_7_run: "word_run 128 ''hybrid'' ''lend'' words_7"
  unfolding word_run_def words_7_def by (intro conjI) (simp_all add: plain_word_def plain_char_def)

lemma words_8_run: "word_run 128 ''length'' ''morning'' words_8"
  unfolding word_run_def words_8_def by (intro conjI) (simp_all add: plain_word_def plain_char_def)

lemma words_9_run: "word_run 128 ''mosquito'' ''paper'' words_9"
  unfolding word_run_def words_9_def by (intro conjI) (simp_all add: plain_word_def plain_char_def)

lemma words_10_run: "word_run 128 ''parade'' ''quiz'' words_10"
  unfolding word_run_def words_10_def by (intro conjI) (simp_all add: plain_word_def plain_char_def)

lemma words_11_run: "word_run 128 ''quote'' ''say'' words_11"
  unfolding word_run_def words_11_def by (intro conjI) (simp_all add: plain_word_def plain_char_def)

lemma words_12_run: "word_run 128 ''scale'' ''soup'' words_12"
  unfolding word_run_def words_12_def by (intro conjI) (simp_all add: plain_word_def plain_char_def)

lemma words_13_run: "word_run 128 ''source'' ''that'' words_13"
  unfolding word_run_def words_13_def by (intro conjI) (simp_all add: plain_word_def plain_char_def)

lemma words_14_run: "word_run 128 ''theme'' ''useful'' words_14"
  unfolding word_run_def words_14_def by (intro conjI) (simp_all add: plain_word_def plain_char_def)

lemma words_15_run: "word_run 128 ''useless'' ''zoo'' words_15"
  unfolding word_run_def words_15_def by (intro conjI) (simp_all add: plain_word_def plain_char_def)

lemmas word_runs =
  words_0_run words_1_run words_2_run words_3_run words_4_run words_5_run words_6_run words_7_run words_8_run words_9_run words_10_run words_11_run words_12_run words_13_run words_14_run words_15_run

lemma words_run: "word_run 2048 ''abandon'' ''zoo'' BIP39_ENGLISH_WORDS"
proof -
  have r14: "word_run 256 ''theme'' ''zoo'' (words_14 @ words_15)"
    using word_run_append [OF words_14_run words_15_run] by simp
  have r13: "word_run 384 ''source'' ''zoo'' (words_13 @ words_14 @ words_15)"
    using word_run_append [OF words_13_run r14] by simp
  have r12: "word_run 512 ''scale'' ''zoo'' (words_12 @ words_13 @ words_14 @ words_15)"
    using word_run_append [OF words_12_run r13] by simp
  have r11: "word_run 640 ''quote'' ''zoo'' (words_11 @ words_12 @ words_13 @ words_14 @ words_15)"
    using word_run_append [OF words_11_run r12] by simp
  have r10: "word_run 768 ''parade'' ''zoo'' (words_10 @ words_11 @ words_12 @ words_13 @ words_14 @ words_15)"
    using word_run_append [OF words_10_run r11] by simp
  have r9: "word_run 896 ''mosquito'' ''zoo'' (words_9 @ words_10 @ words_11 @ words_12 @ words_13 @ words_14 @ words_15)"
    using word_run_append [OF words_9_run r10] by simp
  have r8: "word_run 1024 ''length'' ''zoo'' (words_8 @ words_9 @ words_10 @ words_11 @ words_12 @ words_13 @ words_14 @ words_15)"
    using word_run_append [OF words_8_run r9] by simp
  have r7: "word_run 1152 ''hybrid'' ''zoo'' (words_7 @ words_8 @ words_9 @ words_10 @ words_11 @ words_12 @ words_13 @ words_14 @ words_15)"
    using word_run_append [OF words_7_run r8] by simp
  have r6: "word_run 1280 ''gas'' ''zoo'' (words_6 @ words_7 @ words_8 @ words_9 @ words_10 @ words_11 @ words_12 @ words_13 @ words_14 @ words_15)"
    using word_run_append [OF words_6_run r7] by simp
  have r5: "word_run 1408 ''exotic'' ''zoo'' (words_5 @ words_6 @ words_7 @ words_8 @ words_9 @ words_10 @ words_11 @ words_12 @ words_13 @ words_14 @ words_15)"
    using word_run_append [OF words_5_run r6] by simp
  have r4: "word_run 1536 ''divorce'' ''zoo'' (words_4 @ words_5 @ words_6 @ words_7 @ words_8 @ words_9 @ words_10 @ words_11 @ words_12 @ words_13 @ words_14 @ words_15)"
    using word_run_append [OF words_4_run r5] by simp
  have r3: "word_run 1664 ''copy'' ''zoo'' (words_3 @ words_4 @ words_5 @ words_6 @ words_7 @ words_8 @ words_9 @ words_10 @ words_11 @ words_12 @ words_13 @ words_14 @ words_15)"
    using word_run_append [OF words_3_run r4] by simp
  have r2: "word_run 1792 ''cactus'' ''zoo'' (words_2 @ words_3 @ words_4 @ words_5 @ words_6 @ words_7 @ words_8 @ words_9 @ words_10 @ words_11 @ words_12 @ words_13 @ words_14 @ words_15)"
    using word_run_append [OF words_2_run r3] by simp
  have r1: "word_run 1920 ''avoid'' ''zoo'' (words_1 @ words_2 @ words_3 @ words_4 @ words_5 @ words_6 @ words_7 @ words_8 @ words_9 @ words_10 @ words_11 @ words_12 @ words_13 @ words_14 @ words_15)"
    using word_run_append [OF words_1_run r2] by simp
  have r0: "word_run 2048 ''abandon'' ''zoo'' (words_0 @ words_1 @ words_2 @ words_3 @ words_4 @ words_5 @ words_6 @ words_7 @ words_8 @ words_9 @ words_10 @ words_11 @ words_12 @ words_13 @ words_14 @ words_15)"
    using word_run_append [OF words_0_run r1] by simp
  show ?thesis using r0 by (simp add: BIP39_ENGLISH_WORDS_def)
qed

lemma length_words: "length BIP39_ENGLISH_WORDS = 2048"
  using words_run by (simp add: word_run_def)

lemma distinct_words: "distinct BIP39_ENGLISH_WORDS"
  using words_run by (simp add: word_run_def ascending_distinct)

lemma plain_words: "w \<in> set BIP39_ENGLISH_WORDS \<Longrightarrow> plain_word w"
  using words_run by (simp add: word_run_def list_all_iff)

end
