(* ===== verification/Bip39.thy ===== *)
theory Bip39
  imports WordList Crypto
begin

text \<open>
  Recovery phrases (\<^verbatim>\<open>bip32.cpp\<close>): the words of an entropy and its checksum, and the check of a
  phrase that somebody typed.  A phrase the check takes is the phrase of exactly one entropy, so
  writing the words down loses nothing and nothing else passes for them.
\<close>

unbundle bit_operations_syntax

section \<open>The code\<close>

definition IsSupportedEntropySize :: "nat \<Rightarrow> bool" where
  "IsSupportedEntropySize n \<longleftrightarrow> n = 16 \<or> n = 20 \<or> n = 24 \<or> n = 28 \<or> n = 32"

definition GetBit :: "bytes \<Rightarrow> nat \<Rightarrow> bool" where
  "GetBit data i = bit (data ! (i div 8)) (7 - i mod 8)"

definition AppendBits :: "bool list \<Rightarrow> bytes \<Rightarrow> nat \<Rightarrow> bool list" where
  "AppendBits out data nBits = out @ map (GetBit data) [0 ..< nBits]"

text \<open>\<^verbatim>\<open>isspace\<close> and \<^verbatim>\<open>tolower\<close> of the C locale.\<close>

definition isspace :: "char \<Rightarrow> bool" where
  "isspace c \<longleftrightarrow> of_char c = (32 :: nat) \<or> 9 \<le> (of_char c :: nat) \<and> (of_char c :: nat) \<le> 13"

definition tolower :: "char \<Rightarrow> char" where
  "tolower c = (if 65 \<le> (of_char c :: nat) \<and> (of_char c :: nat) \<le> 90 then char_of (of_char c + 32 :: nat) else c)"

fun normalize_loop :: "string \<Rightarrow> bool \<Rightarrow> string \<Rightarrow> string" where
  "normalize_loop [] inSpace out = out"
| "normalize_loop (c # cs) inSpace out =
    (if isspace c then normalize_loop cs True (if inSpace then out else out @ '' '')
     else normalize_loop cs False (out @ [tolower c]))"

definition NormalizeMnemonic :: "string \<Rightarrow> string" where
  "NormalizeMnemonic s =
    (let out = normalize_loop s True [] in if out \<noteq> [] \<and> last out = CHR '' '' then butlast out else out)"

fun split_loop :: "string \<Rightarrow> string \<Rightarrow> string list" where
  "split_loop [] w = (if w = [] then [] else [w])"
| "split_loop (c # cs) w =
    (if isspace c then (if w = [] then split_loop cs [] else w # split_loop cs []) else split_loop cs (w @ [c]))"

definition SplitWords :: "string \<Rightarrow> string list" where
  "SplitWords phrase = split_loop phrase []"

definition WordIndex :: "string \<rightharpoonup> nat" where
  "WordIndex = map_of (zip BIP39_ENGLISH_WORDS [0 ..< 2048])"

text \<open>Eleven bits, the highest first.\<close>

definition word_value :: "bool list \<Rightarrow> nat" where
  "word_value bits = foldl (\<lambda>idx b. idx * 2 + of_bool b) 0 bits"

definition mnemonic_words :: "bool list \<Rightarrow> string list" where
  "mnemonic_words bits =
    map (\<lambda>i. BIP39_ENGLISH_WORDS ! word_value (take 11 (drop (i * 11) bits))) [0 ..< length bits div 11]"

fun join_words :: "string list \<Rightarrow> string" where
  "join_words [] = ''''"
| "join_words [w] = w"
| "join_words (w # ws) = w @ '' '' @ join_words ws"

datatype bip39_error = BadEntropySize | NoRandomEntropy | BadWordCount | UnknownWord | ChecksumFailed

definition BIP39EntropyToMnemonic :: "ext \<Rightarrow> bytes \<Rightarrow> bip39_error + string" where
  "BIP39EntropyToMnemonic E entropy =
    (if \<not> IsSupportedEntropySize (length entropy) then Inl BadEntropySize
     else
       let entropyBits = length entropy * 8; checksumBits = entropyBits div 32;
           bits = AppendBits (AppendBits [] entropy entropyBits) (SHA256 E entropy) checksumBits
       in Inr (join_words (mnemonic_words bits)))"

text \<open>What \<^verbatim>\<open>RAND_bytes\<close> answers is the argument.\<close>

definition BIP39GenerateMnemonic :: "ext \<Rightarrow> (nat \<Rightarrow> bytes option) \<Rightarrow> nat \<Rightarrow> bip39_error + string" where
  "BIP39GenerateMnemonic E rand entropyBytes =
    (if \<not> IsSupportedEntropySize entropyBytes then Inl BadEntropySize
     else case rand entropyBytes of None \<Rightarrow> Inl NoRandomEntropy | Some entropy \<Rightarrow> BIP39EntropyToMnemonic E entropy)"

definition value_bits :: "nat \<Rightarrow> bool list" where
  "value_bits v = map (bit v) (rev [0 ..< 11])"

fun word_bits :: "string list \<Rightarrow> bool list option" where
  "word_bits [] = Some []"
| "word_bits (w # ws) =
    (case WordIndex w of None \<Rightarrow> None | Some v \<Rightarrow> map_option ((@) (value_bits v)) (word_bits ws))"

definition entropy_of :: "bool list \<Rightarrow> nat \<Rightarrow> bytes" where
  "entropy_of bits entropyBits =
    foldl (\<lambda>e i. if bits ! i then e[i div 8 := e ! (i div 8) OR push_bit (7 - i mod 8) 1] else e)
      (replicate (entropyBits div 8) 0) [0 ..< entropyBits]"

text \<open>The normalized phrase, and the error if there is one.\<close>

definition BIP39ValidateMnemonic :: "ext \<Rightarrow> string \<Rightarrow> string \<times> bip39_error option" where
  "BIP39ValidateMnemonic E mnemonic =
    (let normalized = NormalizeMnemonic mnemonic; ws = SplitWords normalized; nWords = length ws
     in (normalized,
         if nWords \<noteq> 12 \<and> nWords \<noteq> 15 \<and> nWords \<noteq> 18 \<and> nWords \<noteq> 21 \<and> nWords \<noteq> 24 then Some BadWordCount
         else case word_bits ws of
           None \<Rightarrow> Some UnknownWord
         | Some bits \<Rightarrow>
             let totalBits = length bits; entropyBits = totalBits * 32 div 33;
                 checksumBits = totalBits - entropyBits; checksum = SHA256 E (entropy_of bits entropyBits)
             in if \<exists>i \<in> set [0 ..< checksumBits]. bits ! (entropyBits + i) \<noteq> GetBit checksum i
                then Some ChecksumFailed else None))"

section \<open>Words and spaces\<close>

lemma isspace_tolower [simp]: "isspace (tolower c) = isspace c"
proof -
  have "of_char c < (256 :: nat)" by simp
  then show ?thesis by (auto simp: tolower_def isspace_def)
qed

lemma isspace_blank [simp]: "isspace CHR '' ''"
  by (simp add: isspace_def)

definition word_like :: "string \<Rightarrow> bool" where
  "word_like w \<longleftrightarrow> w \<noteq> [] \<and> list_all (\<lambda>c. \<not> isspace c) w"

lemma plain_char_props: "plain_char c \<Longrightarrow> \<not> isspace c \<and> tolower c = c"
  by (auto simp: plain_char_def isspace_def tolower_def)

lemma plain_word_like: "plain_word w \<Longrightarrow> word_like w \<and> map tolower w = w"
  by (auto simp: plain_word_def word_like_def list_all_iff plain_char_props intro: map_idI)

lemma split_loop_word: "list_all (\<lambda>c. \<not> isspace c) w \<Longrightarrow> split_loop (w @ r) v = split_loop r (v @ w)"
  by (induction w arbitrary: v) simp_all

lemma SplitWords_join: "list_all word_like ws \<Longrightarrow> SplitWords (join_words ws) = ws"
proof (induction ws rule: join_words.induct)
  case (2 w)
  then show ?case using split_loop_word [of w "[]" "[]"] by (auto simp: SplitWords_def word_like_def)
next
  case (3 w v vs)
  then show ?case
    using split_loop_word [of w "CHR '' '' # join_words (v # vs)" "[]"] by (simp add: SplitWords_def word_like_def)
qed (simp add: SplitWords_def)

lemma split_loop_like: "list_all (\<lambda>c. \<not> isspace c) v \<Longrightarrow> list_all word_like (split_loop s v)"
  by (induction s v rule: split_loop.induct) (auto simp: word_like_def)

lemma split_loop_nonempty: "w \<noteq> [] \<Longrightarrow> split_loop s w \<noteq> []"
  by (induction s w rule: split_loop.induct) auto

lemma split_loop_pending [simp]: "split_loop s (c # w) \<noteq> []"
  by (simp add: split_loop_nonempty)

lemma split_loop_blank: "split_loop (map tolower cs) [] = [] \<Longrightarrow> cs \<noteq> [] \<Longrightarrow> isspace (last cs)"
  by (induction cs) (auto split: if_split_asm)

text \<open>What the check works on: the words between the spaces, in small letters.\<close>

lemma normalize_loop_split:
  "normalize_loop cs True out =
     out @ (case split_loop (map tolower cs) [] of [] \<Rightarrow> [] |
       ws \<Rightarrow> join_words ws @ (if isspace (last cs) then '' '' else []))"
  "w \<noteq> [] \<Longrightarrow> list_all (\<lambda>c. \<not> isspace c) w \<Longrightarrow>
     normalize_loop cs False (out @ w) =
     out @ join_words (split_loop (map tolower cs) w) @ (if cs \<noteq> [] \<and> isspace (last cs) then '' '' else [])"
proof (induction cs arbitrary: out w)
  case (Cons c cs)
  { case 1
    show ?case
      using Cons.IH(1) [of out] Cons.IH(2) [of "[tolower c]" out]
      by (cases cs) (auto split: list.split) }
  { case 2
    show ?case
      using 2 Cons.IH(1) [of "out @ w @ '' ''"] Cons.IH(2) [of "w @ [tolower c]" out]
      by (cases cs) (auto split: list.split dest: split_loop_blank) }
qed auto

lemma join_words_last: "list_all word_like ws \<Longrightarrow> ws \<noteq> [] \<Longrightarrow> join_words ws \<noteq> [] \<and> \<not> isspace (last (join_words ws))"
proof (induction ws rule: join_words.induct)
  case (2 w)
  then show ?case by (auto simp: word_like_def list_all_iff)
qed auto

lemma NormalizeMnemonic_split: "NormalizeMnemonic s = join_words (SplitWords (map tolower s))"
proof -
  let ?ws = "split_loop (map tolower s) []"
  have like: "list_all word_like ?ws" by (intro split_loop_like) simp
  show ?thesis
  proof (cases ?ws)
    case Nil
    then show ?thesis by (simp add: NormalizeMnemonic_def SplitWords_def normalize_loop_split)
  next
    case (Cons w ws)
    have "join_words ?ws \<noteq> []" "\<not> isspace (last (join_words ?ws))" using join_words_last [OF like] Cons by auto
    moreover have "last (join_words ?ws) \<noteq> CHR '' ''" using calculation(2) isspace_blank by metis
    ultimately show ?thesis
      using Cons by (auto simp: NormalizeMnemonic_def SplitWords_def normalize_loop_split Let_def)
  qed
qed

lemma SplitWords_like: "list_all word_like (SplitWords s)"
  unfolding SplitWords_def by (intro split_loop_like) simp

lemma SplitWords_normal: "SplitWords (NormalizeMnemonic s) = SplitWords (map tolower s)"
  by (simp add: NormalizeMnemonic_split SplitWords_join SplitWords_like)

lemma SplitWords_tolower: "SplitWords (map tolower s) = map (map tolower) (SplitWords s)"
proof -
  have "split_loop (map tolower s) (map tolower w) = map (map tolower) (split_loop s w)" for w
    by (induction s w rule: split_loop.induct) simp_all
  from this [of "[]"] show ?thesis by (simp add: SplitWords_def)
qed

lemma tolower_idem [simp]: "tolower (tolower c) = tolower c"
proof -
  have "of_char c < (256 :: nat)" by simp
  then show ?thesis by (auto simp: tolower_def)
qed

lemma NormalizeMnemonic_idem [simp]: "NormalizeMnemonic (NormalizeMnemonic m) = NormalizeMnemonic m"
proof -
  have "map (map tolower) (SplitWords (map tolower m)) = SplitWords (map tolower m)"
    by (simp add: SplitWords_tolower)
  then have "SplitWords (map tolower (join_words (SplitWords (map tolower m)))) = SplitWords (map tolower m)"
    by (simp only: SplitWords_tolower [of "join_words _"] SplitWords_join [OF SplitWords_like])
  then show ?thesis by (simp only: NormalizeMnemonic_split)
qed

lemma map_tolower_join: "\<forall>w \<in> set ws. map tolower w = w \<Longrightarrow> map tolower (join_words ws) = join_words ws"
  by (induction ws rule: join_words.induct) (simp_all add: tolower_def)

lemma NormalizeMnemonic_join:
  assumes "list_all plain_word ws"
  shows "NormalizeMnemonic (join_words ws) = join_words ws" "SplitWords (join_words ws) = ws"
proof -
  have "list_all word_like ws" "\<forall>w \<in> set ws. map tolower w = w"
    using assms plain_word_like by (auto simp: list_all_iff)
  then show "NormalizeMnemonic (join_words ws) = join_words ws" "SplitWords (join_words ws) = ws"
    by (simp_all add: NormalizeMnemonic_split map_tolower_join SplitWords_join)
qed

section \<open>Words and bits\<close>

lemma word_value_snoc: "word_value (bits @ [b]) = 2 * word_value bits + of_bool b"
  by (simp add: word_value_def)

lemma word_value_bound: "word_value bits < 2 ^ length bits"
proof (induction bits rule: rev_induct)
  case (snoc b bits)
  then show ?case by (auto simp: word_value_snoc split: if_splits)
qed (simp add: word_value_def)

lemma bits_step: "map (bit v) (rev [0 ..< Suc n]) = map (bit (v div 2)) (rev [0 ..< n]) @ [bit v 0]"
  by (simp add: upt_conv_Cons rev_map [symmetric] map_Suc_upt [symmetric] bit_Suc comp_def del: upt_Suc)

lemma bits_of_word_value: "map (bit (word_value bits)) (rev [0 ..< length bits]) = bits"
proof (induction bits rule: rev_induct)
  case (snoc b bits)
  have "(2 * word_value bits + of_bool b) div 2 = word_value bits" by simp
  then show ?case using snoc by (simp only: word_value_snoc length_append_singleton bits_step) (simp add: bit_0)
qed simp

lemma word_value_of_bits: "v < 2 ^ n \<Longrightarrow> word_value (map (bit v) (rev [0 ..< n])) = v"
proof (induction n arbitrary: v)
  case (Suc n)
  then show ?case using Suc.IH [of "v div 2"]
    by (simp only: bits_step word_value_snoc) (simp add: bit_0)
qed (simp add: word_value_def)

lemma chunks_concat:
  "length bits = k * 11 \<Longrightarrow> concat (map (\<lambda>i. take 11 (drop (i * 11) bits)) [0 ..< k]) = bits"
proof (induction k arbitrary: bits)
  case (Suc k)
  have "map (\<lambda>i. take 11 (drop (i * 11) bits)) [0 ..< Suc k] =
      take 11 bits # map (\<lambda>i. take 11 (drop (i * 11) (drop 11 bits))) [0 ..< k]"
    by (simp add: upt_conv_Cons map_Suc_upt [symmetric] comp_def add.commute del: upt_Suc)
  then show ?case using Suc.IH [of "drop 11 bits"] Suc.prems by simp
qed simp

lemma WordIndex_nth: "i < 2048 \<Longrightarrow> WordIndex (BIP39_ENGLISH_WORDS ! i) = Some i"
  unfolding WordIndex_def using distinct_words length_words by (subst map_of_zip_nth) simp_all

lemma WordIndex_Some: "WordIndex w = Some v \<Longrightarrow> v < 2048 \<and> BIP39_ENGLISH_WORDS ! v = w"
  unfolding WordIndex_def using length_words by (auto dest!: map_of_SomeD simp: set_zip)

lemma word_bits_map:
  "\<forall>v \<in> set vs. v < 2048 \<Longrightarrow> word_bits (map ((!) BIP39_ENGLISH_WORDS) vs) = Some (concat (map value_bits vs))"
  by (induction vs) (simp_all add: WordIndex_nth)

lemma chunk_value:
  assumes "length c = 11"
  shows "word_value c < 2048" "value_bits (word_value c) = c"
  using word_value_bound [of c] bits_of_word_value [of c] assms by (simp_all add: value_bits_def)

lemma word_bits_mnemonic:
  assumes "length bits = k * 11"
  shows "word_bits (mnemonic_words bits) = Some bits" "length (mnemonic_words bits) = k"
    "list_all plain_word (mnemonic_words bits)"
proof -
  let ?chunk = "\<lambda>i. take 11 (drop (i * 11) bits)"
  have len: "length (?chunk i) = 11" if "i < k" for i
  proof -
    have "i * 11 + 11 \<le> k * 11" using that by simp
    then show ?thesis using assms by simp
  qed
  have words: "mnemonic_words bits = map ((!) BIP39_ENGLISH_WORDS) (map (\<lambda>i. word_value (?chunk i)) [0 ..< k])"
    using assms by (simp add: mnemonic_words_def)
  let ?vs = "map (\<lambda>i. word_value (?chunk i)) [0 ..< k]"
  have "map value_bits ?vs = map ?chunk [0 ..< k]"
    unfolding map_map comp_def using len by (intro map_cong refl chunk_value(2)) simp
  then have "concat (map value_bits ?vs) = bits" using chunks_concat [OF assms] by (simp only:)
  moreover have "\<forall>v \<in> set ?vs. v < 2048" using len chunk_value(1) by auto
  ultimately show "word_bits (mnemonic_words bits) = Some bits"
    using word_bits_map [of ?vs] by (simp only: words)
  show "length (mnemonic_words bits) = k" by (simp add: words)
  show "list_all plain_word (mnemonic_words bits)"
    using len chunk_value(1) by (auto simp: words list_all_iff length_words intro!: plain_words)
qed

lemma take_value_bits: "length (value_bits v) = 11"
  by (simp add: value_bits_def)

lemma word_bits_Some:
  "word_bits ws = Some bits \<Longrightarrow> length bits = length ws * 11 \<and> mnemonic_words bits = ws"
proof (induction ws arbitrary: bits)
  case (Cons w ws)
  obtain v rest where v: "WordIndex w = Some v" "word_bits ws = Some rest" "bits = value_bits v @ rest"
    using Cons.prems by (auto split: option.split_asm)
  have IH: "length rest = length ws * 11" "mnemonic_words rest = ws" using Cons.IH [OF v(2)] by simp_all
  have "word_value (value_bits v) = v"
    using WordIndex_Some [OF v(1)] word_value_of_bits [of v 11] by (simp add: value_bits_def)
  moreover have "map (\<lambda>i. BIP39_ENGLISH_WORDS ! word_value (take 11 (drop (i * 11) bits))) [0 ..< Suc (length ws)] =
      BIP39_ENGLISH_WORDS ! word_value (value_bits v) #
      map (\<lambda>i. BIP39_ENGLISH_WORDS ! word_value (take 11 (drop (i * 11) rest))) [0 ..< length ws]"
    by (simp add: upt_conv_Cons map_Suc_upt [symmetric] comp_def v(3) take_value_bits add.commute del: upt_Suc)
  ultimately show ?case
    using IH WordIndex_Some [OF v(1)] by (simp add: mnemonic_words_def v(3) take_value_bits)
qed (simp add: mnemonic_words_def)

section \<open>Bytes and bits\<close>

lemma GetBit_update:
  assumes "j div 8 < length e"
  shows "GetBit (e[j div 8 := e ! (j div 8) OR push_bit (7 - j mod 8) 1]) i \<longleftrightarrow> GetBit e i \<or> i = j"
proof (cases "i div 8 = j div 8")
  case True
  have "i mod 8 < 8" "j mod 8 < 8" by simp_all
  then have "7 - i mod 8 = 7 - j mod 8 \<longleftrightarrow> i mod 8 = j mod 8" by linarith
  moreover have "i mod 8 = j mod 8 \<longleftrightarrow> i = j" using True by (metis div_mult_mod_eq)
  moreover have "7 - i mod 8 < 8" by simp
  ultimately show ?thesis
    using True assms by (auto simp: GetBit_def bit_or_iff bit_exp_iff possible_bit_word)
next
  case False
  then show ?thesis using assms by (auto simp: GetBit_def)
qed

lemma GetBit_zero: "i < n * 8 \<Longrightarrow> \<not> GetBit (replicate n 0) i"
  by (simp add: GetBit_def less_mult_imp_div_less)

definition set_bits_of :: "bool list \<Rightarrow> nat \<Rightarrow> nat \<Rightarrow> bytes" where
  "set_bits_of bits n k =
    foldl (\<lambda>e i. if bits ! i then e[i div 8 := e ! (i div 8) OR push_bit (7 - i mod 8) 1] else e)
      (replicate n 0) [0 ..< k]"

lemma set_bits_of_prefix:
  "k \<le> n * 8 \<Longrightarrow> length (set_bits_of bits n k) = n \<and>
    (\<forall>i < n * 8. GetBit (set_bits_of bits n k) i \<longleftrightarrow> i < k \<and> bits ! i)"
proof (induction k)
  case (Suc k)
  let ?e = "set_bits_of bits n k"
  have IH: "length ?e = n" "\<forall>i < n * 8. GetBit ?e i \<longleftrightarrow> i < k \<and> bits ! i" using Suc by simp_all
  have step: "set_bits_of bits n (Suc k) =
      (if bits ! k then ?e[k div 8 := ?e ! (k div 8) OR push_bit (7 - k mod 8) 1] else ?e)"
    by (simp add: set_bits_of_def)
  have "k div 8 < length ?e" using Suc.prems IH(1) by (simp add: less_mult_imp_div_less)
  note upd = GetBit_update [OF this]
  show ?case
  proof (cases "bits ! k")
    case True
    then show ?thesis using IH by (auto simp only: step if_True length_list_update upd less_Suc_eq)
  next
    case False
    then show ?thesis using IH by (auto simp only: step if_False less_Suc_eq)
  qed
qed (simp add: GetBit_zero set_bits_of_def)

lemma entropy_of_bits:
  assumes "n = m * 8"
  shows "length (entropy_of bits n) = m" "i < n \<Longrightarrow> GetBit (entropy_of bits n) i = bits ! i"
  using set_bits_of_prefix [of n m bits] assms by (simp_all add: entropy_of_def set_bits_of_def)

lemma bytes_eqI:
  assumes "length xs = length ys" "\<And>i. i < length xs * 8 \<Longrightarrow> GetBit xs i = GetBit ys i"
  shows "xs = ys"
proof (rule nth_equalityI [OF assms(1)])
  fix j assume j: "j < length xs"
  show "xs ! j = ys ! j"
  proof (rule bit_word_eqI)
    fix n assume "n < LENGTH(8)"
    then have "n < 8" by simp
    have div: "(j * 8 + (7 - n)) div 8 = j" by simp
    have "(j * 8 + (7 - n)) mod 8 = 7 - n" by simp
    then have mod: "7 - (j * 8 + (7 - n)) mod 8 = n" using \<open>n < 8\<close> by simp
    have "j * 8 + (7 - n) < length xs * 8" using j by simp
    then have "GetBit xs (j * 8 + (7 - n)) = GetBit ys (j * 8 + (7 - n))" by (rule assms(2))
    then show "bit (xs ! j) n = bit (ys ! j) n" by (simp only: GetBit_def div mod)
  qed
qed

section \<open>A phrase and its entropy\<close>

definition mnemonic_bits :: "ext \<Rightarrow> bytes \<Rightarrow> bool list" where
  "mnemonic_bits E entropy =
    map (GetBit entropy) [0 ..< length entropy * 8] @
    map (GetBit (SHA256 E entropy)) [0 ..< length entropy * 8 div 32]"

lemma EntropyToMnemonic_bits:
  "BIP39EntropyToMnemonic E e = Inr m \<longleftrightarrow>
    IsSupportedEntropySize (length e) \<and> m = join_words (mnemonic_words (mnemonic_bits E e))"
  by (auto simp: BIP39EntropyToMnemonic_def AppendBits_def mnemonic_bits_def)

text \<open>The sizes: for every number of words the entropy fills whole bytes and the rest is the checksum.\<close>

lemma supported_sizes:
  assumes "IsSupportedEntropySize n"
  obtains k where "k = 12 \<or> k = 15 \<or> k = 18 \<or> k = 21 \<or> k = 24" "n * 8 + n * 8 div 32 = k * 11"
    "k * 11 * 32 div 33 = n * 8"
  using assms unfolding IsSupportedEntropySize_def by (elim disjE) (auto simp: that [of 12] that [of 15] that [of 18] that [of 21] that [of 24])

lemma word_count_sizes:
  assumes "k = 12 \<or> k = 15 \<or> k = 18 \<or> k = 21 \<or> (k :: nat) = 24"
  obtains n where "IsSupportedEntropySize n" "k * 11 * 32 div 33 = n * 8" "k * 11 - n * 8 = n * 8 div 32" "n * 8 \<le> k * 11"
  using assms unfolding IsSupportedEntropySize_def by (elim disjE) (auto simp: that [of 16] that [of 20] that [of 24] that [of 28] that [of 32])

lemma length_mnemonic_bits: "length (mnemonic_bits E e) = length e * 8 + length e * 8 div 32"
  by (simp add: mnemonic_bits_def)

lemma mnemonic_bits_nth:
  "i < length e * 8 \<Longrightarrow> mnemonic_bits E e ! i = GetBit e i"
  "i < length e * 8 div 32 \<Longrightarrow> mnemonic_bits E e ! (length e * 8 + i) = GetBit (SHA256 E e) i"
  by (simp_all add: mnemonic_bits_def nth_append)

lemma entropy_of_mnemonic_bits: "entropy_of (mnemonic_bits E e) (length e * 8) = e"
  by (intro bytes_eqI) (simp_all add: entropy_of_bits mnemonic_bits_nth)

lemma mnemonic_accepted:
  assumes "BIP39EntropyToMnemonic E e = Inr m"
  shows "BIP39ValidateMnemonic E m = (m, None)"
proof -
  have size: "IsSupportedEntropySize (length e)" and m: "m = join_words (mnemonic_words (mnemonic_bits E e))"
    using assms by (simp_all add: EntropyToMnemonic_bits)
  obtain k where k: "k = 12 \<or> k = 15 \<or> k = 18 \<or> k = 21 \<or> k = 24" "length e * 8 + length e * 8 div 32 = k * 11"
    "k * 11 * 32 div 33 = length e * 8"
    using supported_sizes [OF size] .
  have len: "length (mnemonic_bits E e) = k * 11" using k(2) by (simp add: length_mnemonic_bits)
  note words = word_bits_mnemonic [OF len]
  have "k * 11 - length e * 8 = length e * 8 div 32" using k(2) by simp
  then show ?thesis
    using k(1,3) NormalizeMnemonic_join [OF words(3)] words(1,2) len
    by (auto simp: BIP39ValidateMnemonic_def Let_def m entropy_of_mnemonic_bits mnemonic_bits_nth)
qed

lemma mnemonic_bits_inject: "mnemonic_bits E e = mnemonic_bits E e' \<Longrightarrow> length e = length e' \<Longrightarrow> e = e'"
  by (metis entropy_of_mnemonic_bits)

lemma accepted_mnemonic:
  assumes "BIP39ValidateMnemonic E s = (m, None)"
  shows "\<exists>!e. BIP39EntropyToMnemonic E e = Inr m"
proof -
  let ?ws = "SplitWords (NormalizeMnemonic s)"
  define k where "k = length ?ws"
  have m: "m = NormalizeMnemonic s" and k: "k = 12 \<or> k = 15 \<or> k = 18 \<or> k = 21 \<or> k = 24"
    using assms by (auto simp: BIP39ValidateMnemonic_def Let_def k_def split: if_split_asm)
  obtain bits where bits: "word_bits ?ws = Some bits"
    using assms k by (auto simp: BIP39ValidateMnemonic_def Let_def k_def split: option.split_asm)
  have len: "length bits = k * 11" and ws: "mnemonic_words bits = ?ws"
    using word_bits_Some [OF bits] by (simp_all add: k_def)
  obtain n where n: "IsSupportedEntropySize n" "k * 11 * 32 div 33 = n * 8" "k * 11 - n * 8 = n * 8 div 32" "n * 8 \<le> k * 11"
    using word_count_sizes [OF k] .
  define e where "e = entropy_of bits (n * 8)"
  have e: "length e = n" "\<And>i. i < n * 8 \<Longrightarrow> GetBit e i = bits ! i" by (simp_all add: e_def entropy_of_bits)
  have check: "\<forall>i < n * 8 div 32. bits ! (n * 8 + i) = GetBit (SHA256 E e) i"
    using assms bits k n len by (auto simp: BIP39ValidateMnemonic_def Let_def k_def e_def split: if_split_asm)
  have same: "mnemonic_bits E e = bits"
  proof (rule nth_equalityI)
    show "length (mnemonic_bits E e) = length bits" using e(1) len n(3,4) by (simp add: length_mnemonic_bits)
    fix i assume i: "i < length (mnemonic_bits E e)"
    show "mnemonic_bits E e ! i = bits ! i"
    proof (cases "i < n * 8")
      case True
      then show ?thesis using e by (simp add: mnemonic_bits_nth)
    next
      case False
      then have "i - n * 8 < n * 8 div 32" using i e(1) by (simp add: length_mnemonic_bits)
      then show ?thesis using False mnemonic_bits_nth(2) [of "i - n * 8" e E] check [rule_format, of "i - n * 8"] e(1) by simp
    qed
  qed
  have "m = join_words ?ws" by (simp only: m SplitWords_normal) (simp add: NormalizeMnemonic_split)
  then have "BIP39EntropyToMnemonic E e = Inr m" using n(1) e(1) same ws by (simp add: EntropyToMnemonic_bits)
  moreover have "e' = e" if other: "BIP39EntropyToMnemonic E e' = Inr m" for e'
  proof -
    have size: "IsSupportedEntropySize (length e')" and m': "m = join_words (mnemonic_words (mnemonic_bits E e'))"
      using other by (simp_all add: EntropyToMnemonic_bits)
    obtain k' where k': "length e' * 8 + length e' * 8 div 32 = k' * 11" using supported_sizes [OF size] .
    have len': "length (mnemonic_bits E e') = k' * 11" using k' by (simp add: length_mnemonic_bits)
    note words = word_bits_mnemonic [OF len']
    have "?ws = mnemonic_words (mnemonic_bits E e')"
      using NormalizeMnemonic_join(2) [OF words(3)] m m' by simp
    then have eq: "mnemonic_bits E e' = bits" using bits words(1) by simp
    then have "length e' * 8 + length e' * 8 div 32 = n * 8 + n * 8 div 32"
      using len n(3,4) length_mnemonic_bits [of E e'] by simp
    then have "length e' = n" using size n(1) unfolding IsSupportedEntropySize_def by auto
    then show ?thesis using mnemonic_bits_inject [of E e' e] eq same e(1) by simp
  qed
  ultimately show ?thesis by blast
qed

lemma Validate_normal: "BIP39ValidateMnemonic E (NormalizeMnemonic s) = BIP39ValidateMnemonic E s"
  by (simp add: BIP39ValidateMnemonic_def)

lemma phrase_check:
  "BIP39ValidateMnemonic E s = (m, None) \<longleftrightarrow>
    m = NormalizeMnemonic s \<and> (\<exists>!e. BIP39EntropyToMnemonic E e = Inr m)"
proof
  assume ok: "BIP39ValidateMnemonic E s = (m, None)"
  then have "m = NormalizeMnemonic s" by (auto simp: BIP39ValidateMnemonic_def Let_def)
  then show "m = NormalizeMnemonic s \<and> (\<exists>!e. BIP39EntropyToMnemonic E e = Inr m)"
    using accepted_mnemonic [OF ok] by simp
next
  assume m: "m = NormalizeMnemonic s \<and> (\<exists>!e. BIP39EntropyToMnemonic E e = Inr m)"
  then obtain e where "BIP39EntropyToMnemonic E e = Inr m" by blast
  from mnemonic_accepted [OF this] show "BIP39ValidateMnemonic E s = (m, None)"
    using m Validate_normal [of E s] by simp
qed

end
