(* ===== verification/Keys.thy ===== *)
theory Keys
  imports Spend "HOL-Library.Finite_Map" "HOL-Library.List_Lexorder"
begin

text \<open>
  The key store of the wallet (\<^verbatim>\<open>main.cpp\<close>, \<^verbatim>\<open>key.h\<close>) and signing (\<^verbatim>\<open>script.cpp\<close>).  What OpenSSL
  does with a private key is the record \<open>key_lib\<close>; its documented behaviour is the locale
  \<open>key_library\<close>.  \<open>IsMine\<close> follows script hashes from redeem script to redeem script with
  nothing that bounds it but the hashes: it is partial, and \<open>None\<close> is not returning.
\<close>

section \<open>The entries of a map in the order of its keys\<close>

lemma entries_lookup: "(h, w) \<in> set (sorted_list_of_fmap W) \<longleftrightarrow> fmlookup W h = Some w"
proof -
  have "distinct (map fst (sorted_list_of_fmap W))"
    by (simp add: sorted_list_of_fmap_def comp_def sorted_list_of_fset.rep_eq)
  then show ?thesis by (metis map_of_eq_Some_iff map_of_sorted_list)
qed

lemma entries_distinct: "distinct (map fst (sorted_list_of_fmap W))"
  by (simp add: sorted_list_of_fmap_def comp_def sorted_list_of_fset.rep_eq)

section \<open>The libraries\<close>

record key_lib =
  ecdsa_do_sign :: "bytes \<Rightarrow> uint256 \<Rightarrow> (nat \<times> nat) option"
  i2d_ECDSA_SIG :: "nat \<times> nat \<Rightarrow> bytes"
  priv_to_pub :: "bytes \<Rightarrow> bytes option"
  evp_bytes_to_key :: "bytes \<Rightarrow> bytes \<Rightarrow> nat \<Rightarrow> (bytes \<times> bytes) option"
  evp_encrypt :: "bytes \<Rightarrow> bytes \<Rightarrow> bytes \<Rightarrow> bytes option"
  evp_decrypt :: "bytes \<Rightarrow> bytes \<Rightarrow> bytes \<Rightarrow> bytes option"

text \<open>The order of the group of secp256k1.\<close>

definition group_order :: nat where
  "group_order = 0xFFFFFFFFFFFFFFFFFFFFFFFFFFFFFFFEBAAEDCE6AF48A03BBFD25E8CD0364141"

definition CKey_Sign :: "key_lib \<Rightarrow> bytes \<Rightarrow> uint256 \<Rightarrow> bytes option" where
  "CKey_Sign L vchPrivKey hash =
    (case ecdsa_do_sign L vchPrivKey hash of
       None \<Rightarrow> None
     | Some (r, s) \<Rightarrow>
         let s' = (if group_order div 2 < s then group_order - s else s);
             sig = i2d_ECDSA_SIG L (r, s')
         in if sig = [] then None else Some sig)"

definition EncryptSecret :: "key_lib \<Rightarrow> bytes \<Rightarrow> bytes \<Rightarrow> bytes \<Rightarrow> bytes option" where
  "EncryptSecret L vchKey vchPlaintext vchIV =
    (if length vchKey \<noteq> 32 \<or> length vchIV \<noteq> 16 then None else evp_encrypt L vchKey vchIV vchPlaintext)"

definition DecryptSecret :: "key_lib \<Rightarrow> bytes \<Rightarrow> bytes \<Rightarrow> bytes \<Rightarrow> bytes option" where
  "DecryptSecret L vchKey vchCiphertext vchIV =
    (if length vchKey \<noteq> 32 \<or> length vchIV \<noteq> 16 \<or> vchCiphertext = [] then None
     else evp_decrypt L vchKey vchIV vchCiphertext)"

text \<open>A DER integer is the shortest big endian body with a clear top bit, as an MPI's is.\<close>

locale key_library =
  fixes E :: ext and L :: key_lib
  assumes sign_range: "ecdsa_do_sign L sk h = Some (r, s) \<Longrightarrow>
      0 < r \<and> r < group_order \<and> 0 < s \<and> s < group_order"
    and sign_der: "i2d_ECDSA_SIG L (r, s) = butlast (der_sig (mpi_body (int r)) (mpi_body (int s)) 0)"
    and sign_verifies: "priv_to_pub L sk = Some pk \<Longrightarrow> ecdsa_do_sign L sk h = Some (r, s) \<Longrightarrow>
      s' = s \<or> s' = group_order - s \<Longrightarrow> SigCheckEcdsa E (bytes_of_uint256 h) (i2d_ECDSA_SIG L (r, s')) pk"
    and key_sizes: "evp_bytes_to_key L pass salt n = Some (k, iv) \<Longrightarrow> length k = 32 \<and> length iv = 16"
    and encrypt: "evp_encrypt L k iv p = Some c \<Longrightarrow> c \<noteq> [] \<and> evp_decrypt L k iv c = Some p"

text \<open>An instance for witnesses: a private key is its public key, and one signature is good for all.\<close>

definition sign_ext :: ext where
  "sign_ext = ext_with (toy_hash 32) (toy_hash 20) (\<lambda>sig h pk. True)"

definition ref_keys :: key_lib where
  "ref_keys = \<lparr>ecdsa_do_sign = (\<lambda>sk h. Some (1, 1)),
     i2d_ECDSA_SIG = (\<lambda>(r, s). butlast (der_sig (mpi_body (int r)) (mpi_body (int s)) 0)),
     priv_to_pub = (\<lambda>sk. if sk = [] then None else Some sk), 
     evp_bytes_to_key = (\<lambda>p s n. Some (take 32 (p @ replicate 32 0), replicate 16 0)),
     evp_encrypt = (\<lambda>k iv p. Some (0 # p)), evp_decrypt = (\<lambda>k iv c. Some (tl c))\<rparr>"

interpretation ref_keys: key_library sign_ext ref_keys
  by unfold_locales
    (auto simp: ref_keys_def group_order_def sign_ext_def ext_with_def SigCheckEcdsa_def der_sig_def split: if_split_asm)

lemma openssl_bn_sign: "openssl_bn sign_ext"
  unfolding sign_ext_def by (rule ext_with.openssl_bn_axioms)

lemma ref_keys_sign: "CKey_Sign ref_keys sk h = Some [0x30, 6, 2, 1, 1, 2, 1, 1]"
proof -
  have "le_min (Suc 0) = [1]" by (simp add: le_min.simps)
  then show ?thesis by (simp add: CKey_Sign_def ref_keys_def group_order_def der_sig_def mpi_body_def)
qed

section \<open>The key store\<close>

record key_store =
  mapKeys :: "(bytes, bytes) fmap"
  mapCryptedKeys :: "(bytes, bytes) fmap"
  mapPubKeys :: "uint160 \<rightharpoonup> bytes"
  mapScripts :: "uint160 \<rightharpoonup> bytes"
  vWalletMasterKey :: bytes
  fWalletEncrypted :: bool
  fWalletLocked :: bool

definition empty_keys :: key_store where
  "empty_keys = \<lparr>mapKeys = fmempty, mapCryptedKeys = fmempty, mapPubKeys = Map.empty,
     mapScripts = Map.empty, vWalletMasterKey = [], fWalletEncrypted = False, fWalletLocked = True\<rparr>"

definition IsWalletLocked :: "key_store \<Rightarrow> bool" where
  "IsWalletLocked K \<longleftrightarrow> fWalletEncrypted K \<and> fWalletLocked K"

definition lock_keys :: "key_store \<Rightarrow> key_store" where
  "lock_keys K = (if \<not> fWalletEncrypted K then K else K\<lparr>vWalletMasterKey := [], fWalletLocked := True\<rparr>)"

definition WalletKeyIV :: "ext \<Rightarrow> bytes \<Rightarrow> bytes" where
  "WalletKeyIV E vchPubKey = take 16 (bytes_of_uint256 (Hash E vchPubKey))"

definition AddCryptedKey :: "ext \<Rightarrow> bytes \<Rightarrow> bytes \<Rightarrow> key_store \<Rightarrow> key_store \<times> bool" where
  "AddCryptedKey E vchPubKey vchCryptedSecret K =
    (if vchPubKey = [] \<or> vchCryptedSecret = [] then (K, False)
     else (K\<lparr>fWalletEncrypted := True,
             mapCryptedKeys := fmupd vchPubKey vchCryptedSecret (mapCryptedKeys K),
             mapPubKeys := (mapPubKeys K)(Hash160 E vchPubKey \<mapsto> vchPubKey)\<rparr>, True))"

text \<open>\<open>written\<close> is what the wallet database answers.\<close>

definition AddKey ::
    "ext \<Rightarrow> key_lib \<Rightarrow> bytes \<Rightarrow> bytes \<Rightarrow> bool \<Rightarrow> key_store \<Rightarrow> key_store \<times> bool" where
  "AddKey E L pub priv written K =
    (if fWalletEncrypted K then
       (if IsWalletLocked K then (K, False)
        else case EncryptSecret L (vWalletMasterKey K) priv (WalletKeyIV E pub) of
          None \<Rightarrow> (K, False)
        | Some vchCryptedSecret \<Rightarrow>
            (case AddCryptedKey E pub vchCryptedSecret K of
               (K', False) \<Rightarrow> (K', False) | (K', True) \<Rightarrow> (K', written)))
     else (K\<lparr>mapKeys := fmupd pub priv (mapKeys K),
             mapPubKeys := (mapPubKeys K)(Hash160 E pub \<mapsto> pub)\<rparr>, written))"

definition AddCScript :: "ext \<Rightarrow> bytes \<Rightarrow> bool \<Rightarrow> key_store \<Rightarrow> key_store \<times> bool" where
  "AddCScript E redeemScript written K =
    (K\<lparr>mapScripts := (mapScripts K)(Hash160 E redeemScript \<mapsto> redeemScript)\<rparr>, written)"

definition HaveCScript :: "key_store \<Rightarrow> uint160 \<Rightarrow> bool" where
  "HaveCScript K h \<longleftrightarrow> mapScripts K h \<noteq> None"

definition GetWalletCScript :: "key_store \<Rightarrow> uint160 \<Rightarrow> bytes option" where
  "GetWalletCScript K h = mapScripts K h"

definition WalletCanSpendKey :: "key_store \<Rightarrow> bytes \<Rightarrow> bool" where
  "WalletCanSpendKey K pk \<longleftrightarrow> fmlookup (mapKeys K) pk \<noteq> None \<or> fmlookup (mapCryptedKeys K) pk \<noteq> None"

definition AddKeyIfMissing ::
    "ext \<Rightarrow> key_lib \<Rightarrow> bytes \<Rightarrow> bytes \<Rightarrow> bool \<Rightarrow> key_store \<Rightarrow> key_store \<times> bool" where
  "AddKeyIfMissing E L pub priv written K =
    (if WalletCanSpendKey K pub then (K, True) else AddKey E L pub priv written K)"

definition GetWalletPrivKey :: "ext \<Rightarrow> key_lib \<Rightarrow> key_store \<Rightarrow> bytes \<Rightarrow> bytes option" where
  "GetWalletPrivKey E L K pk =
    (case fmlookup (mapKeys K) pk of
       Some priv \<Rightarrow> Some priv
     | None \<Rightarrow>
        (case fmlookup (mapCryptedKeys K) pk of
           None \<Rightarrow> None
         | Some c \<Rightarrow>
             if IsWalletLocked K then None
             else (case DecryptSecret L (vWalletMasterKey K) c (WalletKeyIV E pk) of
               None \<Rightarrow> None
             | Some priv \<Rightarrow> if priv_to_pub L priv = Some pk then Some priv else None)))"

section \<open>What is ours\<close>

text \<open>The loop over a solution with no hash to sign.\<close>

fun can_spend_items :: "key_store \<Rightarrow> (nat \<times> bytes) list \<Rightarrow> bool" where
  "can_spend_items K [] = True"
| "can_spend_items K ((opc, v) # items) =
    (if opc = OP_PUBKEY then (if WalletCanSpendKey K v then can_spend_items K items else False)
     else if opc = OP_PUBKEYHASH then
       (case mapPubKeys K (uint160_of_bytes v) of
          None \<Rightarrow> False
        | Some pk \<Rightarrow> if WalletCanSpendKey K pk then can_spend_items K items else False)
     else can_spend_items K items)"

definition can_spend_plain :: "key_store \<Rightarrow> bytes \<Rightarrow> bool" where
  "can_spend_plain K spk = (case Solver spk of None \<Rightarrow> False | Some items \<Rightarrow> can_spend_items K items)"

definition can_spend_multisig :: "key_store \<Rightarrow> bytes list \<Rightarrow> bool" where
  "can_spend_multisig K vSolutions = list_all (WalletCanSpendKey K) (take (length vSolutions - 2) (tl vSolutions))"

partial_function (option) IsMine :: "key_store \<Rightarrow> bytes \<Rightarrow> bool option" where
  "IsMine K spk =
    (case SolverTyped spk of
       None \<Rightarrow> Some (can_spend_plain K spk)
     | Some (whichType, vSolutions) \<Rightarrow>
         if whichType = TX_MULTISIG then Some (can_spend_multisig K vSolutions)
         else if whichType = TX_SCRIPTHASH then
           (case GetWalletCScript K (uint160_of_bytes (vSolutions ! 0)) of
              None \<Rightarrow> Some False
            | Some subscript \<Rightarrow> IsMine K subscript)
         else Some (can_spend_plain K spk))"

fun extract_items :: "key_store \<Rightarrow> bool \<Rightarrow> (nat \<times> bytes) list \<Rightarrow> bytes option" where
  "extract_items K fMineOnly [] = None"
| "extract_items K fMineOnly ((opc, v) # items) =
    (if opc = OP_PUBKEYHASH \<and> mapPubKeys K (uint160_of_bytes v) = None then extract_items K fMineOnly items
     else
       let vchPubKey = (if opc = OP_PUBKEY then v
                        else if opc = OP_PUBKEYHASH then the (mapPubKeys K (uint160_of_bytes v)) else [])
       in if \<not> fMineOnly \<or> WalletCanSpendKey K vchPubKey then Some vchPubKey
          else extract_items K fMineOnly items)"

definition ExtractPubKey :: "key_store \<Rightarrow> bytes \<Rightarrow> bool \<Rightarrow> bytes option" where
  "ExtractPubKey K spk fMineOnly =
    (case Solver spk of None \<Rightarrow> None | Some items \<Rightarrow> extract_items K fMineOnly items)"

section \<open>Signing\<close>

text \<open>The result is the scriptSig built so far and whether it is complete.\<close>

definition SignOne ::
    "ext \<Rightarrow> key_lib \<Rightarrow> key_store \<Rightarrow> bytes \<Rightarrow> uint256 \<Rightarrow> byte \<Rightarrow> bytes \<Rightarrow> bytes \<times> bool" where
  "SignOne E L K pk hash t sig =
    (if \<not> WalletCanSpendKey K pk then (sig, False)
     else if hash = 0 then (sig, True)
     else case GetWalletPrivKey E L K pk of
       None \<Rightarrow> (sig, False)
     | Some priv \<Rightarrow>
        (case CKey_Sign L priv hash of
           None \<Rightarrow> (sig, False)
         | Some s \<Rightarrow> (sig @ push_vch (s @ [t]), True)))"

fun sign_keys ::
    "ext \<Rightarrow> key_lib \<Rightarrow> key_store \<Rightarrow> uint256 \<Rightarrow> byte \<Rightarrow> nat \<Rightarrow> bytes list \<Rightarrow> nat \<Rightarrow> bytes \<Rightarrow> bytes \<times> nat" where
  "sign_keys E L K hash t nRequired [] nSigned sig = (sig, nSigned)"
| "sign_keys E L K hash t nRequired (pk # keys) nSigned sig =
    (if nSigned < nRequired then
       (case SignOne E L K pk hash t sig of
          (sig', True) \<Rightarrow> sign_keys E L K hash t nRequired keys (nSigned + 1) sig'
        | (sig', False) \<Rightarrow> sign_keys E L K hash t nRequired keys nSigned sig')
     else (sig, nSigned))"

definition SolverMultisig ::
    "ext \<Rightarrow> key_lib \<Rightarrow> key_store \<Rightarrow> bytes list \<Rightarrow> uint256 \<Rightarrow> byte \<Rightarrow> bytes \<Rightarrow> bytes \<times> bool" where
  "SolverMultisig E L K vSolutions hash t sig =
    (if hash = 0 then (sig, can_spend_multisig K vSolutions)
     else
       let nRequired = unat (hd vSolutions ! 0);
           keys = take (length vSolutions - 2) (tl vSolutions);
           (sig', nSigned) = sign_keys E L K hash t nRequired keys 0 (sig @ push_opcode OP_0)
       in (sig', nSigned = nRequired))"

fun sign_items ::
    "ext \<Rightarrow> key_lib \<Rightarrow> key_store \<Rightarrow> uint256 \<Rightarrow> byte \<Rightarrow> (nat \<times> bytes) list \<Rightarrow> bytes \<Rightarrow> bytes \<times> bool" where
  "sign_items E L K hash t [] sig = (sig, True)"
| "sign_items E L K hash t ((opc, v) # items) sig =
    (if opc = OP_PUBKEY then
       (case SignOne E L K v hash t sig of
          (sig', False) \<Rightarrow> (sig', False)
        | (sig', True) \<Rightarrow> sign_items E L K hash t items sig')
     else if opc = OP_PUBKEYHASH then
       (case mapPubKeys K (uint160_of_bytes v) of
          None \<Rightarrow> (sig, False)
        | Some pk \<Rightarrow>
           (case SignOne E L K pk hash t sig of
              (sig', False) \<Rightarrow> (sig', False)
            | (sig', True) \<Rightarrow>
                sign_items E L K hash t items (if hash = 0 then sig' else sig' @ push_vch pk)))
     else sign_items E L K hash t items sig)"

text \<open>\<^verbatim>\<open>Solver\<close> with a hash to sign.\<close>

definition Solver_sign ::
    "ext \<Rightarrow> key_lib \<Rightarrow> key_store \<Rightarrow> bytes \<Rightarrow> uint256 \<Rightarrow> byte \<Rightarrow> (bytes \<times> bool) option" where
  "Solver_sign E L K spk hash t =
    (let plain = (case Solver spk of None \<Rightarrow> ([], False) | Some items \<Rightarrow> sign_items E L K hash t items [])
     in case SolverTyped spk of
          None \<Rightarrow> Some plain
        | Some (whichType, vSolutions) \<Rightarrow>
            if whichType = TX_MULTISIG then Some (SolverMultisig E L K vSolutions hash t [])
            else if whichType = TX_SCRIPTHASH then
              (case GetWalletCScript K (uint160_of_bytes (vSolutions ! 0)) of
                 None \<Rightarrow> Some ([], False)
               | Some subscript \<Rightarrow>
                   if hash \<noteq> 0 then Some ([], False) else map_option (Pair []) (IsMine K subscript))
            else Some plain)"

abbreviation set_scriptSig :: "CTransaction \<Rightarrow> nat \<Rightarrow> bytes \<Rightarrow> CTransaction" where
  "set_scriptSig tx n sig \<equiv> tx\<lparr>vin := (vin tx)[n := (vin tx ! n)\<lparr>scriptSig := sig\<rparr>]\<rparr>"

text \<open>
  The transaction it leaves, signed or not, and its answer.  \<open>None\<close>: an assertion fails, or
  \<open>IsMine\<close> does not return.  The last step runs the script with none of the later rules.
\<close>

definition SignSignature ::
    "ext \<Rightarrow> key_lib \<Rightarrow> key_store \<Rightarrow> CTransaction \<Rightarrow> CTransaction \<Rightarrow> nat \<Rightarrow> int \<Rightarrow> bytes \<Rightarrow>
      (CTransaction \<times> bool) option" where
  "SignSignature E L K txFrom tx n nType scriptPrereq =
    (if length (vin tx) \<le> n \<or> length (vout txFrom) \<le> unat (out_n (prevout (vin tx ! n))) then None
     else
       let spk = scriptPubKey (vout txFrom ! unat (out_n (prevout (vin tx ! n))));
           t = word_of_int nType
       in if IsPayToScriptHash spk then
            (case GetWalletCScript K (uint160_of_bytes (take 20 (drop 2 spk))) of
               None \<Rightarrow> Some (tx, False)
             | Some subscript \<Rightarrow>
                (case Solver_sign E L K subscript (SignatureHash E subscript tx n nType) t of
                   None \<Rightarrow> None
                 | Some (sig, False) \<Rightarrow> Some (set_scriptSig tx n sig, False)
                 | Some (sig, True) \<Rightarrow> Some (set_scriptSig tx n (sig @ push_vch subscript), True)))
          else
            (case Solver_sign E L K spk (SignatureHash E (scriptPrereq @ spk) tx n nType) t of
               None \<Rightarrow> None
             | Some (sig, False) \<Rightarrow> Some (set_scriptSig tx n sig, False)
             | Some (sig, True) \<Rightarrow>
                 let tx' = set_scriptSig tx n (scriptPrereq @ sig)
                 in if scriptPrereq = [] \<and>
                       \<not> EvalScript E (script_ctx_of tx' n 0 False False False)
                         (sig @ push_opcode OP_CODESEPARATOR @ spk)
                    then Some (tx', False) else Some (tx', True)))"

end
