(* ===== verification/Bip32.thy ===== *)
theory Bip32
  imports Bip39 Keys
begin

text \<open>
  Deriving keys from a recovery phrase (\<^verbatim>\<open>bip32.cpp\<close>): the seed of a phrase, the master node, a
  child, and a path of children.  The HMAC, the password hash and the arithmetic on the curve
  are the linked OpenSSL, the record \<open>hd_lib\<close>; a big number is the number it denotes.
\<close>

unbundle bit_operations_syntax

record hd_lib =
  hmac_sha512 :: "bytes \<Rightarrow> bytes \<Rightarrow> bytes option"
  pbkdf2_sha512 :: "bytes \<Rightarrow> bytes \<Rightarrow> bytes option"
  ec_point_oct :: "bytes \<Rightarrow> bytes option"
  ec_set_private :: "bytes \<Rightarrow> (bytes \<times> bytes) option"
  MakeNewKey :: "nat \<Rightarrow> bytes \<times> bytes"

definition SetSecret :: "hd_lib \<Rightarrow> bytes \<Rightarrow> (bytes \<times> bytes) option" where
  "SetSecret D vchSecret = (if length vchSecret \<noteq> 32 then None else ec_set_private D vchSecret)"

definition string_bytes :: "string \<Rightarrow> bytes" where
  "string_bytes s = map of_char s"

definition BIP32_HARDENED :: u32 where "BIP32_HARDENED = 0x80000000"

record BIP32PrivateNode =
  privateKey :: bytes
  chainCode :: bytes

datatype bip32_error =
    BadSeedSize | HmacFailed | MasterInvalid | ParentInvalid | PrivateKeyInvalid | PubKeyNotSerialized
  | ChildInvalid | RootInvalid | IndexHardened

definition IsValidPrivateKey :: "bytes \<Rightarrow> bool" where
  "IsValidPrivateKey key \<longleftrightarrow> length key = 32 \<and> list_ex (\<lambda>c. c \<noteq> 0) key \<and> be_nat key < group_order"

definition HmacSha512 :: "hd_lib \<Rightarrow> bytes \<Rightarrow> bytes \<Rightarrow> bytes option" where
  "HmacSha512 D key data =
    (case hmac_sha512 D key data of None \<Rightarrow> None | Some I \<Rightarrow> if length I = 64 then Some I else None)"

definition PrivateKeyToCompressedPubKey :: "hd_lib \<Rightarrow> bytes \<Rightarrow> bip32_error + bytes" where
  "PrivateKeyToCompressedPubKey D key =
    (if \<not> IsValidPrivateKey key then Inl PrivateKeyInvalid
     else case ec_point_oct D key of
       None \<Rightarrow> Inl PubKeyNotSerialized
     | Some p \<Rightarrow> if length p = 33 then Inr p else Inl PubKeyNotSerialized)"

definition BIP39MnemonicToSeed :: "ext \<Rightarrow> hd_lib \<Rightarrow> string \<Rightarrow> bytes \<Rightarrow> bip39_error option + bytes" where
  "BIP39MnemonicToSeed E D mnemonic passphrase =
    (case BIP39ValidateMnemonic E mnemonic of
       (_, Some e) \<Rightarrow> Inl (Some e)
     | (normalized, None) \<Rightarrow>
        (case pbkdf2_sha512 D (string_bytes normalized) (string_bytes ''mnemonic'' @ passphrase) of
           None \<Rightarrow> Inl None | Some seed \<Rightarrow> Inr seed))"

definition BIP32MasterFromSeed :: "hd_lib \<Rightarrow> bytes \<Rightarrow> bip32_error + BIP32PrivateNode" where
  "BIP32MasterFromSeed D seed =
    (if length seed < 16 \<or> 64 < length seed then Inl BadSeedSize
     else case HmacSha512 D (string_bytes ''Bitcoin seed'') seed of
       None \<Rightarrow> Inl HmacFailed
     | Some I \<Rightarrow>
        if \<not> IsValidPrivateKey (take 32 I) then Inl MasterInvalid
        else Inr \<lparr>privateKey = take 32 I, chainCode = drop 32 I\<rparr>)"

definition child_data :: "hd_lib \<Rightarrow> bytes \<Rightarrow> u32 \<Rightarrow> bip32_error + bytes" where
  "child_data D parentKey childNumber =
    (case (if childNumber AND BIP32_HARDENED \<noteq> 0 then Inr (0 # parentKey)
           else PrivateKeyToCompressedPubKey D parentKey) of
       Inl e \<Rightarrow> Inl e | Inr d \<Rightarrow> Inr (d @ be_bytes 4 (unat childNumber)))"

definition BIP32DeriveChild :: "hd_lib \<Rightarrow> BIP32PrivateNode \<Rightarrow> u32 \<Rightarrow> bip32_error + BIP32PrivateNode" where
  "BIP32DeriveChild D parent childNumber =
    (if \<not> IsValidPrivateKey (privateKey parent) \<or> length (chainCode parent) \<noteq> 32 then Inl ParentInvalid
     else case child_data D (privateKey parent) childNumber of
       Inl e \<Rightarrow> Inl e
     | Inr data \<Rightarrow>
        (case HmacSha512 D (chainCode parent) data of
           None \<Rightarrow> Inl HmacFailed
         | Some I \<Rightarrow>
             let bnIL = be_nat (take 32 I); bnChild = (bnIL + be_nat (privateKey parent)) mod group_order
             in if bnIL < group_order \<and> bnChild \<noteq> 0
                then Inr \<lparr>privateKey = be_bytes 32 bnChild, chainCode = drop 32 I\<rparr> else Inl ChildInvalid))"

fun derive_loop :: "hd_lib \<Rightarrow> BIP32PrivateNode \<Rightarrow> u32 list \<Rightarrow> bip32_error + BIP32PrivateNode" where
  "derive_loop D cur [] = Inr cur"
| "derive_loop D cur (n # path) =
    (case BIP32DeriveChild D cur n of Inl e \<Rightarrow> Inl e | Inr next \<Rightarrow> derive_loop D next path)"

definition BIP32DerivePath :: "hd_lib \<Rightarrow> BIP32PrivateNode \<Rightarrow> u32 list \<Rightarrow> bip32_error + BIP32PrivateNode" where
  "BIP32DerivePath D root path =
    (if \<not> IsValidPrivateKey (privateKey root) \<or> length (chainCode root) \<noteq> 32 then Inl RootInvalid
     else derive_loop D root path)"

definition BIP32DeriveHardenedChild :: "hd_lib \<Rightarrow> BIP32PrivateNode \<Rightarrow> u32 \<Rightarrow> bip32_error + BIP32PrivateNode" where
  "BIP32DeriveHardenedChild D parent childIndex =
    (if BIP32_HARDENED \<le> childIndex then Inl IndexHardened
     else BIP32DeriveChild D parent (childIndex OR BIP32_HARDENED))"

section \<open>Every node is a key\<close>

definition node_valid :: "BIP32PrivateNode \<Rightarrow> bool" where
  "node_valid n \<longleftrightarrow> IsValidPrivateKey (privateKey n) \<and> length (chainCode n) = 32"

lemma be_nat_zeros': "be_nat bs = 0 \<longleftrightarrow> list_all (\<lambda>c. c = 0) bs"
proof -
  have "le_nat bs = 0 \<longleftrightarrow> list_all (\<lambda>c. c = 0) bs" for bs
    by (induction bs) (auto simp: unat_eq_zero)
  then show ?thesis by (auto simp: be_nat_def list_all_iff)
qed

lemma key_of_number:
  assumes "0 < n" "n < group_order"
  shows "IsValidPrivateKey (be_bytes 32 n)" "be_nat (be_bytes 32 n) = n"
proof -
  have "n < 256 ^ 32" using assms(2) by (simp add: group_order_def)
  then show num: "be_nat (be_bytes 32 n) = n" by simp
  have "\<not> list_all (\<lambda>c. c = 0) (be_bytes 32 n)" using assms(1) num be_nat_zeros' [of "be_bytes 32 n"] by simp
  then show "IsValidPrivateKey (be_bytes 32 n)" using assms num by (simp add: IsValidPrivateKey_def list_ex_iff list_all_iff)
qed

lemma valid_key_number: "IsValidPrivateKey k \<longleftrightarrow> length k = 32 \<and> 0 < be_nat k \<and> be_nat k < group_order"
  using be_nat_zeros' [of k] by (auto simp: IsValidPrivateKey_def list_ex_iff list_all_iff)

lemma HmacSha512_length: "HmacSha512 D k d = Some I \<Longrightarrow> length I = 64"
  by (auto simp: HmacSha512_def split: option.split_asm if_split_asm)

lemma MasterFromSeed_valid: "BIP32MasterFromSeed D seed = Inr n \<Longrightarrow> node_valid n"
  by (auto simp: BIP32MasterFromSeed_def node_valid_def dest: HmacSha512_length split: if_split_asm option.split_asm)

lemma DeriveChild_number:
  assumes "BIP32DeriveChild D p i = Inr c"
  shows "node_valid c" "node_valid p"
    "\<exists>data I. child_data D (privateKey p) i = Inr data \<and> HmacSha512 D (chainCode p) data = Some I \<and>
      be_nat (privateKey c) = (be_nat (take 32 I) + be_nat (privateKey p)) mod group_order \<and> chainCode c = drop 32 I"
proof -
  obtain data I where data: "child_data D (privateKey p) i = Inr data" "HmacSha512 D (chainCode p) data = Some I"
    and p: "node_valid p" and n: "(be_nat (take 32 I) + be_nat (privateKey p)) mod group_order \<noteq> 0"
    and c: "c = \<lparr>privateKey = be_bytes 32 ((be_nat (take 32 I) + be_nat (privateKey p)) mod group_order), chainCode = drop 32 I\<rparr>"
    using assms by (auto simp: BIP32DeriveChild_def Let_def node_valid_def split: if_split_asm sum.split_asm option.split_asm)
  let ?n = "(be_nat (take 32 I) + be_nat (privateKey p)) mod group_order"
  have "0 < ?n" "?n < group_order" using n by (simp_all add: group_order_def)
  note k = key_of_number [OF this]
  show "node_valid c" using k(1) HmacSha512_length [OF data(2)] by (simp add: node_valid_def c)
  show "node_valid p" by (rule p)
  show "\<exists>data I. child_data D (privateKey p) i = Inr data \<and> HmacSha512 D (chainCode p) data = Some I \<and>
      be_nat (privateKey c) = (be_nat (take 32 I) + be_nat (privateKey p)) mod group_order \<and> chainCode c = drop 32 I"
    using data k(2) c by auto
qed

lemma derive_loop_valid: "derive_loop D n path = Inr c \<Longrightarrow> node_valid n \<Longrightarrow> node_valid c"
  by (induction path arbitrary: n) (auto split: sum.split_asm dest: DeriveChild_number(1))

lemma derive_loop_append:
  "derive_loop D n (p @ q) = (case derive_loop D n p of Inl e \<Rightarrow> Inl e | Inr m \<Rightarrow> derive_loop D m q)"
  by (induction p arbitrary: n) (auto split: sum.split)

lemma DerivePath_valid: "BIP32DerivePath D r path = Inr n \<Longrightarrow> node_valid r \<and> node_valid n"
  by (auto simp: BIP32DerivePath_def node_valid_def [symmetric] dest: derive_loop_valid split: if_split_asm)

lemma DerivePath_append:
  "BIP32DerivePath D r (p @ q) = (case BIP32DerivePath D r p of Inl e \<Rightarrow> Inl e | Inr m \<Rightarrow> BIP32DerivePath D m q)"
proof (cases "node_valid r")
  case True
  then show ?thesis
    using derive_loop_valid [of D r p]
    by (auto simp: BIP32DerivePath_def node_valid_def derive_loop_append split: sum.split)
next
  case False
  then show ?thesis by (auto simp: BIP32DerivePath_def node_valid_def)
qed

end
