(* ===== verification/KeyPool.thy ===== *)
theory KeyPool
  imports Bip32
begin

text \<open>
  The keys of a wallet with a recovery phrase, and the pool of keys made in advance
  (\<^verbatim>\<open>main.cpp\<close>).  The key pair of a secret and the random keys of OpenSSL are in the record
  \<open>hd_lib\<close> of \<^verbatim>\<open>Bip32\<close>.  \<open>written\<close> is what the wallet database answers: it takes all writes of an
  operation or none.
\<close>

definition HD_SCHEMA_NONE :: int where "HD_SCHEMA_NONE = 0"
definition HD_SCHEMA_LEGACY :: int where "HD_SCHEMA_LEGACY = 1"
definition HD_SCHEMA_BIP44 :: int where "HD_SCHEMA_BIP44 = 2"
definition KEYPOOL_SIZE :: nat where "KEYPOOL_SIZE = 100"

record hd_state =
  hd_keys :: key_store
  vchHDMaster :: bytes
  vchHDChainCode :: bytes
  nHDNext :: u32
  nHDReceiveNext :: u32
  nHDChangeNext :: u32
  nHDKeySchema :: int
  nHDCoinType :: u32
  mapKeyPool :: "(int, bytes) fmap"
  nKeysMade :: nat

definition HaveHDSeed :: "hd_state \<Rightarrow> bool" where
  "HaveHDSeed S \<longleftrightarrow> length (vchHDMaster S) = 32 \<and> length (vchHDChainCode S) = 32"

definition HDLegacyPath :: "u32 \<Rightarrow> u32 list" where
  "HDLegacyPath nIndex = [nIndex OR BIP32_HARDENED]"

definition HDBIP44Path :: "u32 \<Rightarrow> u32 \<Rightarrow> u32 \<Rightarrow> u32 \<Rightarrow> u32 list" where
  "HDBIP44Path nCoinType nAccount nChain nIndex =
    [44 OR BIP32_HARDENED, nCoinType OR BIP32_HARDENED, nAccount OR BIP32_HARDENED, nChain, nIndex]"

definition derive_path :: "hd_lib \<Rightarrow> hd_state \<Rightarrow> u32 list \<Rightarrow> (bytes \<times> bytes) option" where
  "derive_path D S path =
    (case BIP32DerivePath D \<lparr>privateKey = vchHDMaster S, chainCode = vchHDChainCode S\<rparr> path of
       Inl _ \<Rightarrow> None | Inr child \<Rightarrow> SetSecret D (privateKey child))"

definition DeriveHDKey :: "hd_lib \<Rightarrow> hd_state \<Rightarrow> u32 \<Rightarrow> (bytes \<times> bytes) option" where
  "DeriveHDKey D S nIndex =
    (if \<not> HaveHDSeed S then None
     else if BIP32_HARDENED \<le> nIndex then None
     else derive_path D S (if nHDKeySchema S = HD_SCHEMA_BIP44 then HDBIP44Path (nHDCoinType S) 0 0 nIndex
                           else HDLegacyPath nIndex))"

definition DeriveHDChangeKey :: "hd_lib \<Rightarrow> hd_state \<Rightarrow> u32 \<Rightarrow> (bytes \<times> bytes) option" where
  "DeriveHDChangeKey D S nIndex =
    (if \<not> HaveHDSeed S then None
     else if BIP32_HARDENED \<le> nIndex then None
     else if nHDKeySchema S \<noteq> HD_SCHEMA_BIP44 then DeriveHDKey D S nIndex
     else derive_path D S (HDBIP44Path (nHDCoinType S) 0 1 nIndex))"

text \<open>A derived key into the store, and its counter advanced: \<open>set_next\<close> is the counter.\<close>

definition take_derived ::
    "ext \<Rightarrow> key_lib \<Rightarrow> bool \<Rightarrow> (bytes \<times> bytes) option \<Rightarrow> (hd_state \<Rightarrow> hd_state) \<Rightarrow> hd_state \<Rightarrow>
      hd_state \<times> bytes option" where
  "take_derived E L written key set_next S =
    (case key of
       None \<Rightarrow> (S, None)
     | Some (pub, priv) \<Rightarrow>
         let (K', ok) = AddKeyIfMissing E L pub priv written (hd_keys S); S' = S\<lparr>hd_keys := K'\<rparr>
         in if \<not> ok then (S', None)
            else if \<not> written then (S', None)
            else (set_next S', Some pub))"

definition DeriveNextHDReceiveKey ::
    "ext \<Rightarrow> key_lib \<Rightarrow> hd_lib \<Rightarrow> bool \<Rightarrow> hd_state \<Rightarrow> hd_state \<times> bytes option" where
  "DeriveNextHDReceiveKey E L D written S =
    (if \<not> HaveHDSeed S then (S, None)
     else if nHDKeySchema S = HD_SCHEMA_BIP44
     then take_derived E L written (DeriveHDKey D S (nHDReceiveNext S))
       (\<lambda>S. S\<lparr>nHDReceiveNext := nHDReceiveNext S + 1\<rparr>) S
     else take_derived E L written (DeriveHDKey D S (nHDNext S)) (\<lambda>S. S\<lparr>nHDNext := nHDNext S + 1\<rparr>) S)"

definition DeriveNextHDChangeKey ::
    "ext \<Rightarrow> key_lib \<Rightarrow> hd_lib \<Rightarrow> bool \<Rightarrow> hd_state \<Rightarrow> hd_state \<times> bytes option" where
  "DeriveNextHDChangeKey E L D written S =
    (if \<not> HaveHDSeed S then (S, None)
     else if nHDKeySchema S = HD_SCHEMA_BIP44
     then take_derived E L written (DeriveHDChangeKey D S (nHDChangeNext S))
       (\<lambda>S. S\<lparr>nHDChangeNext := nHDChangeNext S + 1\<rparr>) S
     else take_derived E L written (DeriveHDKey D S (nHDNext S)) (\<lambda>S. S\<lparr>nHDNext := nHDNext S + 1\<rparr>) S)"

section \<open>The pool\<close>

definition next_index :: "(int, bytes) fmap \<Rightarrow> int" where
  "next_index pool = (if pool = fmempty then 1 else Max (fset (fmdom pool)) + 1)"

text \<open>A random key into the store and the pool; false: the loop returns.\<close>

definition pool_random :: "ext \<Rightarrow> key_lib \<Rightarrow> hd_lib \<Rightarrow> bool \<Rightarrow> int \<Rightarrow> hd_state \<Rightarrow> hd_state \<times> bool" where
  "pool_random E L D written nIndex S =
    (let (pub, priv) = MakeNewKey D (nKeysMade S);
         (K', ok) = AddKeyIfMissing E L pub priv written (hd_keys S);
         S' = S\<lparr>nKeysMade := nKeysMade S + 1, hd_keys := K'\<rparr>
     in if \<not> ok then (S', False)
        else if \<not> written then (S', False)
        else (S'\<lparr>mapKeyPool := fmupd nIndex pub (mapKeyPool S')\<rparr>, True))"

definition pool_add :: "ext \<Rightarrow> key_lib \<Rightarrow> hd_lib \<Rightarrow> bool \<Rightarrow> hd_state \<Rightarrow> hd_state \<times> bool" where
  "pool_add E L D written S =
    (let nIndex = next_index (mapKeyPool S)
     in if HaveHDSeed S then
          (case DeriveNextHDReceiveKey E L D written S of
             (S', Some pub) \<Rightarrow>
               if \<not> written then (S', False)
               else (S'\<lparr>mapKeyPool := fmupd nIndex pub (mapKeyPool S')\<rparr>, True)
           | (S', None) \<Rightarrow> pool_random E L D written nIndex S')
        else pool_random E L D written nIndex S)"

lemma next_index_new: "fmlookup pool (next_index pool) = None"
proof (cases "pool = fmempty")
  case False
  have "next_index pool \<notin> fset (fmdom pool)"
  proof
    assume "next_index pool \<in> fset (fmdom pool)"
    then have "next_index pool \<le> Max (fset (fmdom pool))" by (intro Max_ge) auto
    then show False using False by (simp add: next_index_def)
  qed
  then show ?thesis by (simp add: fmdom_notD)
qed simp

lemma take_derived_pool: "take_derived E L written key set_next S = (S', r) \<Longrightarrow>
    (\<And>S. mapKeyPool (set_next S) = mapKeyPool S) \<Longrightarrow> mapKeyPool S' = mapKeyPool S"
  by (auto simp: take_derived_def Let_def split: option.split_asm prod.split_asm if_split_asm)

lemma DeriveNext_pool: "DeriveNextHDReceiveKey E L D written S = (S', r) \<Longrightarrow> mapKeyPool S' = mapKeyPool S"
  by (auto simp: DeriveNextHDReceiveKey_def dest: take_derived_pool split: if_split_asm)

lemma pool_add_grows:
  assumes "pool_add E L D written S = (S', True)"
  shows "\<exists>pub. mapKeyPool S' = fmupd (next_index (mapKeyPool S)) pub (mapKeyPool S)"
  using assms DeriveNext_pool [of E L D written S]
  by (auto simp: pool_add_def pool_random_def Let_def split: if_split_asm prod.split_asm option.split_asm)

function topup_loop :: "ext \<Rightarrow> key_lib \<Rightarrow> hd_lib \<Rightarrow> bool \<Rightarrow> hd_state \<Rightarrow> hd_state" where
  "topup_loop E L D written S =
    (if KEYPOOL_SIZE \<le> fcard (fmdom (mapKeyPool S)) then S
     else (case pool_add E L D written S of
       (S', False) \<Rightarrow> S' | (S', True) \<Rightarrow> topup_loop E L D written S'))"
  by pat_completeness auto
termination
proof (relation "measure (\<lambda>(E, L, D, w, S). KEYPOOL_SIZE - fcard (fmdom (mapKeyPool S)))", goal_cases)
  case (2 E L D written S S')
  then obtain pub where "mapKeyPool S' = fmupd (next_index (mapKeyPool S)) pub (mapKeyPool S)"
    using pool_add_grows [of E L D written S S'] by auto
  moreover have "next_index (mapKeyPool S) |\<notin>| fmdom (mapKeyPool S)"
    using next_index_new [of "mapKeyPool S"] by (simp add: fmlookup_dom_iff)
  ultimately show ?case using 2 by (simp add: fcard_finsert_disjoint)
qed simp

declare topup_loop.simps [simp del]

definition TopUpKeyPool :: "ext \<Rightarrow> key_lib \<Rightarrow> hd_lib \<Rightarrow> bool \<Rightarrow> hd_state \<Rightarrow> hd_state" where
  "TopUpKeyPool E L D written S =
    (if IsWalletLocked (hd_keys S) then S else topup_loop E L D written S)"

text \<open>The key drawn; empty when there is none.\<close>

definition GetKeyFromPool :: "ext \<Rightarrow> key_lib \<Rightarrow> hd_lib \<Rightarrow> bool \<Rightarrow> hd_state \<Rightarrow> hd_state \<times> bytes" where
  "GetKeyFromPool E L D written S =
    (if IsWalletLocked (hd_keys S) then (S, [])
     else
       let S1 = TopUpKeyPool E L D written S
       in case sorted_list_of_fmap (mapKeyPool S1) of
            (nIndex, pub) # _ \<Rightarrow>
              (TopUpKeyPool E L D written (S1\<lparr>mapKeyPool := fmdrop nIndex (mapKeyPool S1)\<rparr>), pub)
          | [] \<Rightarrow>
              let (pub, priv) = MakeNewKey D (nKeysMade S1);
                  (K', ok) = AddKey E L pub priv written (hd_keys S1);
                  S2 = S1\<lparr>nKeysMade := nKeysMade S1 + 1, hd_keys := K'\<rparr>
              in (S2, if ok then pub else []))"

section \<open>What the pool promises\<close>

text \<open>Every key of the pool is in the store, and the pool is not too big.\<close>

definition keypool_ok :: "hd_state \<Rightarrow> bool" where
  "keypool_ok S \<longleftrightarrow> (\<forall>n pk. fmlookup (mapKeyPool S) n = Some pk \<longrightarrow> WalletCanSpendKey (hd_keys S) pk) \<and>
    fcard (fmdom (mapKeyPool S)) \<le> KEYPOOL_SIZE"

text \<open>A store that only gains keys.\<close>

definition more_keys :: "key_store \<Rightarrow> key_store \<Rightarrow> bool" where
  "more_keys K K' \<longleftrightarrow> (\<forall>pk. WalletCanSpendKey K pk \<longrightarrow> WalletCanSpendKey K' pk)"

lemma more_keys_refl [simp]: "more_keys K K"
  by (simp add: more_keys_def)

lemma more_keys_trans: "more_keys K K' \<Longrightarrow> more_keys K' K'' \<Longrightarrow> more_keys K K''"
  by (simp add: more_keys_def)

lemma AddKey_more: "AddKey E L pub priv written K = (K', ok) \<Longrightarrow> more_keys K K' \<and> (ok \<longrightarrow> WalletCanSpendKey K' pub)"
  by (auto simp: AddKey_def AddCryptedKey_def more_keys_def WalletCanSpendKey_def
      split: if_split_asm option.split_asm)

lemma AddKeyIfMissing_more:
  "AddKeyIfMissing E L pub priv written K = (K', ok) \<Longrightarrow> more_keys K K' \<and> (ok \<longrightarrow> WalletCanSpendKey K' pub)"
  using AddKey_more [of E L pub priv written K K' ok] by (auto simp: AddKeyIfMissing_def split: if_split_asm)

lemma take_derived_more:
  assumes "take_derived E L written key set_next S = (S', r)" "\<And>S. hd_keys (set_next S) = hd_keys S"
  shows "more_keys (hd_keys S) (hd_keys S') \<and> (\<forall>pub. r = Some pub \<longrightarrow> WalletCanSpendKey (hd_keys S') pub)"
  using assms AddKeyIfMissing_more [of E L _ _ written "hd_keys S"]
  by (fastforce simp: take_derived_def Let_def split: option.split_asm prod.split_asm if_split_asm)

lemma DeriveNext_more:
  "DeriveNextHDReceiveKey E L D written S = (S', r) \<Longrightarrow>
    more_keys (hd_keys S) (hd_keys S') \<and> (\<forall>pub. r = Some pub \<longrightarrow> WalletCanSpendKey (hd_keys S') pub)"
  "DeriveNextHDChangeKey E L D written S = (S', r) \<Longrightarrow>
    more_keys (hd_keys S) (hd_keys S') \<and> (\<forall>pub. r = Some pub \<longrightarrow> WalletCanSpendKey (hd_keys S') pub)"
  by (auto simp: DeriveNextHDReceiveKey_def DeriveNextHDChangeKey_def dest!: take_derived_more split: if_split_asm)


lemma keypool_ok_keys:
  assumes "keypool_ok S" "mapKeyPool S' = mapKeyPool S" "more_keys (hd_keys S) (hd_keys S')"
  shows "keypool_ok S'"
  using assms by (auto simp: keypool_ok_def more_keys_def)

lemma keypool_ok_insert:
  assumes "keypool_ok S" "fcard (fmdom (mapKeyPool S)) < KEYPOOL_SIZE"
    and "mapKeyPool S' = fmupd n pub (mapKeyPool S)" "more_keys (hd_keys S) (hd_keys S')" "WalletCanSpendKey (hd_keys S') pub"
  shows "keypool_ok S'"
  using assms by (auto simp: keypool_ok_def more_keys_def fcard_finsert_if)

lemma pool_random_ok:
  assumes ok: "keypool_ok S" "fcard (fmdom (mapKeyPool S)) < KEYPOOL_SIZE" and run: "pool_random E L D written n S = (S', b)"
  shows "keypool_ok S' \<and> more_keys (hd_keys S) (hd_keys S')"
proof -
  obtain pub priv K' k where k: "MakeNewKey D (nKeysMade S) = (pub, priv)"
    "AddKeyIfMissing E L pub priv written (hd_keys S) = (K', k)" by (metis surj_pair)
  note M = AddKeyIfMissing_more [OF k(2)]
  have "hd_keys S' = K'" using run k by (auto simp: pool_random_def Let_def split: if_split_asm)
  moreover have "mapKeyPool S' = mapKeyPool S \<or> mapKeyPool S' = fmupd n pub (mapKeyPool S) \<and> k"
    using run k by (auto simp: pool_random_def Let_def split: if_split_asm)
  ultimately show ?thesis using keypool_ok_keys [OF ok(1), of S'] keypool_ok_insert [OF ok, of S' n pub] M by auto
qed

lemma pool_add_ok:
  assumes ok: "keypool_ok S" "fcard (fmdom (mapKeyPool S)) < KEYPOOL_SIZE" and run: "pool_add E L D written S = (S', b)"
  shows "keypool_ok S' \<and> more_keys (hd_keys S) (hd_keys S')"
proof (cases "HaveHDSeed S")
  case False
  then show ?thesis using pool_random_ok [OF ok] run by (simp add: pool_add_def)
next
  case True
  obtain S1 r where d: "DeriveNextHDReceiveKey E L D written S = (S1, r)" by (metis surj_pair)
  note M = DeriveNext_more(1) [OF d] and P = DeriveNext_pool [OF d]
  have ok1: "keypool_ok S1" "fcard (fmdom (mapKeyPool S1)) < KEYPOOL_SIZE"
    using keypool_ok_keys [OF ok(1) P] M ok(2) P by simp_all
  show ?thesis
  proof (cases r)
    case None
    then show ?thesis
      using run True d pool_random_ok [OF ok1, of E L D written "next_index (mapKeyPool S)" S' b] M
      by (auto simp: pool_add_def Let_def intro: more_keys_trans)
  next
    case (Some pub)
    then show ?thesis
      using run True d M ok1(1) keypool_ok_insert [OF ok1, of S' "next_index (mapKeyPool S)" pub]
      by (auto simp: pool_add_def Let_def split: if_split_asm)
  qed
qed

lemma topup_loop_ok: "keypool_ok S \<Longrightarrow> keypool_ok (topup_loop E L D written S) \<and> more_keys (hd_keys S) (hd_keys (topup_loop E L D written S))"
proof (induction E L D written S rule: topup_loop.induct)
  case (1 E L D written S)
  show ?case
  proof (cases "KEYPOOL_SIZE \<le> fcard (fmdom (mapKeyPool S))")
    case True
    then show ?thesis using 1(2) by (subst (1 2) topup_loop.simps) simp
  next
    case False
    obtain S' b where add: "pool_add E L D written S = (S', b)" by (metis surj_pair)
    have ok: "keypool_ok S' \<and> more_keys (hd_keys S) (hd_keys S')" by (rule pool_add_ok [OF 1(2) _ add]) (use False in simp)
    show ?thesis
    proof (cases b)
      case True
      then show ?thesis
        using 1(1) [OF False add [symmetric]] ok False add
        by (subst (1 2) topup_loop.simps) (auto intro: more_keys_trans)
    next
      case no: False
      then show ?thesis using ok False add by (subst (1 2) topup_loop.simps) simp
    qed
  qed
qed

lemma TopUpKeyPool_ok:
  "keypool_ok S \<Longrightarrow> keypool_ok (TopUpKeyPool E L D written S) \<and> more_keys (hd_keys S) (hd_keys (TopUpKeyPool E L D written S))"
  by (simp add: TopUpKeyPool_def topup_loop_ok)

text \<open>A key that is drawn can be spent with, and it is not drawn from that place again.\<close>

lemma GetKeyFromPool_ok:
  assumes ok: "keypool_ok S" and run: "GetKeyFromPool E L D written S = (S', pub)"
  shows "keypool_ok S' \<and> more_keys (hd_keys S) (hd_keys S') \<and> (pub \<noteq> [] \<longrightarrow> WalletCanSpendKey (hd_keys S') pub)"
proof (cases "IsWalletLocked (hd_keys S)")
  case True
  then show ?thesis using run ok by (simp add: GetKeyFromPool_def)
next
  case False
  define S1 where "S1 = TopUpKeyPool E L D written S"
  have ok1: "keypool_ok S1" "more_keys (hd_keys S) (hd_keys S1)" using TopUpKeyPool_ok [OF ok] by (simp_all add: S1_def)
  show ?thesis
  proof (cases "sorted_list_of_fmap (mapKeyPool S1)")
    case Nil
    obtain pk priv K' k where k: "MakeNewKey D (nKeysMade S1) = (pk, priv)" "AddKey E L pk priv written (hd_keys S1) = (K', k)"
      by (metis surj_pair)
    have S': "S' = S1\<lparr>nKeysMade := nKeysMade S1 + 1, hd_keys := K'\<rparr>" "pub = (if k then pk else [])"
      using run False Nil k by (simp_all add: GetKeyFromPool_def Let_def flip: S1_def)
    note M = AddKey_more [OF k(2)]
    have "keypool_ok S'" by (rule keypool_ok_keys [OF ok1(1)]) (use M in \<open>simp_all add: S'\<close>)
    then show ?thesis using M ok1(2) by (auto simp: S' intro: more_keys_trans)
  next
    case (Cons x xs)
    obtain n pk where x: "x = (n, pk)" by (cases x)
    define S2 where "S2 = S1\<lparr>mapKeyPool := fmdrop n (mapKeyPool S1)\<rparr>"
    have S': "S' = TopUpKeyPool E L D written S2" "pub = pk"
      using run False Cons x by (simp_all add: GetKeyFromPool_def Let_def S2_def flip: S1_def)
    have "(n, pk) \<in> set (sorted_list_of_fmap (mapKeyPool S1))" by (simp add: Cons x)
    then have "fmlookup (mapKeyPool S1) n = Some pk" by (auto simp: sorted_list_of_fmap_def fmlookup_dom_iff)
    then have can: "WalletCanSpendKey (hd_keys S1) pk" using ok1(1) by (auto simp: keypool_ok_def)
    have "fcard (fmdom (fmdrop n (mapKeyPool S1))) \<le> fcard (fmdom (mapKeyPool S1))" by (auto intro: fcard_mono)
    then have "keypool_ok S2" using ok1(1) by (auto simp: keypool_ok_def S2_def)
    note T = TopUpKeyPool_ok [OF this, of E L D written]
    have "hd_keys S2 = hd_keys S1" by (simp add: S2_def)
    then show ?thesis using T can ok1(2) by (auto simp: S' more_keys_def)
  qed
qed

end
