(* ===== verification/Wallet.thy ===== *)
theory Wallet
  imports Node KeyPool "HOL-Library.Product_Lexorder"
begin

text \<open>
  The wallet's transactions (\<^verbatim>\<open>main.h\<close>, \<^verbatim>\<open>main.cpp\<close>): what they are worth to us and how the coins
  for a payment are chosen.  A pointer to a wallet transaction is its hash; \<open>addr\<close> tells where
  each lies in memory, the order of a \<^verbatim>\<open>set<CWalletTx*>\<close>.  \<open>rnd\<close> is what the calls of
  \<^verbatim>\<open>rand() % 2\<close> give, by number.  The depth of a transaction is worked out anew each time: the
  memo \<^verbatim>\<open>fMerkleVerified\<close> a query leaves in the wallet is not kept.
\<close>

definition I64_MAX :: int where "I64_MAX = 0x7fffffffffffffff"

record CWalletTx = CMerkleTx +
  vtxPrev :: "CMerkleTx list"
  mapValue :: "(bytes \<times> bytes) list"
  vOrderForm :: "(bytes \<times> bytes) list"
  fTimeReceivedIsTxTime :: bool
  nTimeReceived :: u32
  fFromMe :: bool
  fSpent :: bool

type_synonym wallet = "(uint256, CWalletTx) fmap"

definition new_CMerkleTx :: "CTransaction \<Rightarrow> CMerkleTx" where
  "new_CMerkleTx tx = \<lparr>mtx = tx, hashBlock = 0, vMerkleBranch = [], nIndex = - 1, fMerkleVerified = False\<rparr>"

definition new_CWalletTx :: "CTransaction \<Rightarrow> CWalletTx" where
  "new_CWalletTx tx = \<lparr>mtx = tx, hashBlock = 0, vMerkleBranch = [], nIndex = - 1, fMerkleVerified = False,
     vtxPrev = [], mapValue = [], vOrderForm = [], fTimeReceivedIsTxTime = False, nTimeReceived = 0,
     fFromMe = False, fSpent = False\<rparr>"

definition ser_CMerkleTx :: "CMerkleTx \<Rightarrow> bytes" where
  "ser_CMerkleTx w = ser_CTransaction (mtx w) @ ser_uint256 (hashBlock w) @
    Serialize_vector ser_uint256 (vMerkleBranch w) @ ser_int32 (nIndex w)"

definition ser_pair :: "bytes \<times> bytes \<Rightarrow> bytes" where
  "ser_pair p = Serialize_vch (fst p) @ Serialize_vch (snd p)"

definition ser_flag :: "bool \<Rightarrow> byte" where
  "ser_flag b = (if b then 1 else 0)"

definition ser_CWalletTx :: "CWalletTx \<Rightarrow> bytes" where
  "ser_CWalletTx w = ser_CMerkleTx (CMerkleTx.truncate w) @ Serialize_vector ser_CMerkleTx (vtxPrev w) @
    Serialize_vector ser_pair (mapValue w) @ Serialize_vector ser_pair (vOrderForm w) @
    ser_u32 (if fTimeReceivedIsTxTime w then 1 else 0) @ ser_u32 (nTimeReceived w) @
    [ser_flag (fFromMe w), ser_flag (fSpent w)]"

definition GetSerializeSize_CWalletTx :: "CWalletTx \<Rightarrow> nat" where
  "GetSerializeSize_CWalletTx w = length (ser_CWalletTx w)"

section \<open>What is ours\<close>

definition Mine :: "key_store \<Rightarrow> CTxOut \<Rightarrow> bool" where
  "Mine K o1 \<longleftrightarrow> IsMine K (scriptPubKey o1) = Some True"

definition CTxOut_GetCredit :: "key_store \<Rightarrow> CTxOut \<Rightarrow> int" where
  "CTxOut_GetCredit K o1 = (if Mine K o1 then nValue o1 else 0)"

definition tx_IsMine :: "key_store \<Rightarrow> CTransaction \<Rightarrow> bool" where
  "tx_IsMine K tx = list_ex (Mine K) (vout tx)"

definition tx_GetCredit :: "key_store \<Rightarrow> CTransaction \<Rightarrow> int" where
  "tx_GetCredit K tx = foldl (\<lambda>n o1. i64 (n + CTxOut_GetCredit K o1)) 0 (vout tx)"

text \<open>The output of ours an input spends, as far as the wallet knows.\<close>

definition prev_mine :: "key_store \<Rightarrow> wallet \<Rightarrow> CTxIn \<Rightarrow> CTxOut option" where
  "prev_mine K W txin =
    (case fmlookup W (out_hash (prevout txin)) of
       None \<Rightarrow> None
     | Some prev \<Rightarrow>
         let n = unat (out_n (prevout txin))
         in if n < length (vout (mtx prev)) \<and> Mine K (vout (mtx prev) ! n) then Some (vout (mtx prev) ! n) else None)"

definition CTxIn_IsMine :: "key_store \<Rightarrow> wallet \<Rightarrow> CTxIn \<Rightarrow> bool" where
  "CTxIn_IsMine K W txin \<longleftrightarrow> prev_mine K W txin \<noteq> None"

definition CTxIn_GetDebit :: "key_store \<Rightarrow> wallet \<Rightarrow> CTxIn \<Rightarrow> int" where
  "CTxIn_GetDebit K W txin = (case prev_mine K W txin of None \<Rightarrow> 0 | Some o1 \<Rightarrow> nValue o1)"

definition tx_GetDebit :: "key_store \<Rightarrow> wallet \<Rightarrow> CTransaction \<Rightarrow> int" where
  "tx_GetDebit K W tx = foldl (\<lambda>n i. i64 (n + CTxIn_GetDebit K W i)) 0 (vin tx)"

definition wtx_GetCredit :: "ext \<Rightarrow> node \<Rightarrow> key_store \<Rightarrow> CWalletTx \<Rightarrow> int" where
  "wtx_GetCredit E nd K w =
    (if IsCoinBase (mtx w) \<and> 0 < GetBlocksToMaturity E nd (CMerkleTx.truncate w) then 0 else tx_GetCredit K (mtx w))"

definition wtx_depth :: "ext \<Rightarrow> node \<Rightarrow> CWalletTx \<Rightarrow> int" where
  "wtx_depth E nd w = fst (GetDepthInMainChain E nd (CMerkleTx.truncate w))"

definition GetBalance :: "ext \<Rightarrow> node \<Rightarrow> key_store \<Rightarrow> wallet \<Rightarrow> int" where
  "GetBalance E nd K W =
    foldl (\<lambda>n (h, w). if \<not> IsFinal (nBestHeight nd) (mtx w) \<or> fSpent w then n else i64 (n + wtx_GetCredit E nd K w))
      0 (sorted_list_of_fmap W)"

section \<open>Choosing coins\<close>

text \<open>What a coin counts for, if it may be spent.\<close>

definition usable_value :: "ext \<Rightarrow> node \<Rightarrow> key_store \<Rightarrow> wallet \<Rightarrow> int \<Rightarrow> int \<Rightarrow> CWalletTx \<Rightarrow> int option" where
  "usable_value E nd K W nConfMine nConfTheirs w =
    (if \<not> IsFinal (nBestHeight nd) (mtx w) \<or> fSpent w then None
     else if wtx_depth E nd w < (if 0 < tx_GetDebit K W (mtx w) then nConfMine else nConfTheirs) then None
     else let n = wtx_GetCredit E nd K w in if n \<le> 0 then None else Some n)"

text \<open>The loop over the wallet: a coin of exactly the value, or what is below it and the least above.\<close>

fun scan_coins ::
    "(CWalletTx \<Rightarrow> int option) \<Rightarrow> int \<Rightarrow> (uint256 \<times> CWalletTx) list \<Rightarrow> (int \<times> uint256) list \<Rightarrow> int \<Rightarrow>
      int \<times> uint256 option \<Rightarrow> uint256 + ((int \<times> uint256) list \<times> int \<times> int \<times> uint256 option)" where
  "scan_coins val nTargetValue [] vValue nTotalLower larger = Inr (vValue, nTotalLower, larger)"
| "scan_coins val nTargetValue ((h, w) # rest) vValue nTotalLower larger =
    (case val w of
       None \<Rightarrow> scan_coins val nTargetValue rest vValue nTotalLower larger
     | Some n \<Rightarrow>
         if n < nTargetValue then
           scan_coins val nTargetValue rest (vValue @ [(n, h)]) (i64 (nTotalLower + n)) larger
         else if n = nTargetValue then Inl h
         else if n < fst larger then scan_coins val nTargetValue rest vValue nTotalLower (n, Some h)
         else scan_coins val nTargetValue rest vValue nTotalLower larger)"

record approx =
  vfIncluded :: "bool list"
  nTotal :: int
  fReachedTarget :: bool
  vfBest :: "bool list"
  nBest :: int
  nDraws :: nat

definition approx_step :: "(nat \<Rightarrow> bool) \<Rightarrow> nat \<Rightarrow> int \<Rightarrow> int list \<Rightarrow> nat \<Rightarrow> approx \<Rightarrow> approx" where
  "approx_step rnd nPass nTargetValue vs i a =
    (let (take_it, a) = (if nPass = 0 then (rnd (nDraws a), a\<lparr>nDraws := nDraws a + 1\<rparr>) else (\<not> vfIncluded a ! i, a))
     in if take_it then
          let a1 = a\<lparr>nTotal := i64 (nTotal a + vs ! i), vfIncluded := (vfIncluded a)[i := True]\<rparr>
          in if nTargetValue \<le> nTotal a1 then
               let a2 = (if nTotal a1 < nBest a1 then a1\<lparr>nBest := nTotal a1, vfBest := vfIncluded a1\<rparr> else a1)
               in a2\<lparr>fReachedTarget := True, nTotal := i64 (nTotal a2 - vs ! i), vfIncluded := (vfIncluded a2)[i := False]\<rparr>
             else a1
        else a)"

definition approx_pass :: "(nat \<Rightarrow> bool) \<Rightarrow> nat \<Rightarrow> int \<Rightarrow> int list \<Rightarrow> approx \<Rightarrow> approx" where
  "approx_pass rnd nPass nTargetValue vs a =
    fold (approx_step rnd nPass nTargetValue vs) [0 ..< length vs] a"

definition approx_rep :: "(nat \<Rightarrow> bool) \<Rightarrow> int \<Rightarrow> int list \<Rightarrow> approx \<Rightarrow> approx" where
  "approx_rep rnd nTargetValue vs a =
    (let a0 = a\<lparr>vfIncluded := replicate (length vs) False, nTotal := 0, fReachedTarget := False\<rparr>;
         a1 = approx_pass rnd 0 nTargetValue vs a0
     in if fReachedTarget a1 then a1 else approx_pass rnd 1 nTargetValue vs a1)"

primrec approx_reps :: "(nat \<Rightarrow> bool) \<Rightarrow> int \<Rightarrow> int list \<Rightarrow> nat \<Rightarrow> approx \<Rightarrow> approx" where
  "approx_reps rnd nTargetValue vs 0 a = a"
| "approx_reps rnd nTargetValue vs (Suc n) a =
    (if nBest a = nTargetValue then a else approx_reps rnd nTargetValue vs n (approx_rep rnd nTargetValue vs a))"

text \<open>The coins chosen, and the number of the next random bit.\<close>

definition SelectCoinsMinConf ::
    "ext \<Rightarrow> node \<Rightarrow> key_store \<Rightarrow> wallet \<Rightarrow> (uint256 \<Rightarrow> nat) \<Rightarrow> (nat \<Rightarrow> bool) \<Rightarrow> int \<Rightarrow> int \<Rightarrow> int \<Rightarrow> nat \<Rightarrow>
      uint256 list option \<times> nat" where
  "SelectCoinsMinConf E nd K W addr rnd nTargetValue nConfMine nConfTheirs k =
    (case scan_coins (usable_value E nd K W nConfMine nConfTheirs) nTargetValue (sorted_list_of_fmap W) [] 0
        (I64_MAX, None) of
       Inl h \<Rightarrow> (Some [h], k)
     | Inr (vValue, nTotalLower, nLowestLarger, pcoinLowestLarger) \<Rightarrow>
         if nTotalLower < nTargetValue then (map_option (\<lambda>h. [h]) pcoinLowestLarger, k)
         else
           let vValue = rev (sort_key (\<lambda>(n, h). (n, addr h)) vValue);
               a = approx_reps rnd nTargetValue (map fst vValue) 1000
                 \<lparr>vfIncluded = [], nTotal = 0, fReachedTarget = False, vfBest = replicate (length vValue) True,
                  nBest = nTotalLower, nDraws = k\<rparr>
           in if pcoinLowestLarger \<noteq> None \<and> i64 (nLowestLarger - nTargetValue) \<le> i64 (nBest a - nTargetValue)
              then (map_option (\<lambda>h. [h]) pcoinLowestLarger, nDraws a)
              else (Some (map snd (map fst (filter snd (zip vValue (vfBest a))))), nDraws a))"

definition SelectCoins ::
    "ext \<Rightarrow> node \<Rightarrow> key_store \<Rightarrow> wallet \<Rightarrow> (uint256 \<Rightarrow> nat) \<Rightarrow> (nat \<Rightarrow> bool) \<Rightarrow> int \<Rightarrow> nat \<Rightarrow> uint256 list option \<times> nat" where
  "SelectCoins E nd K W addr rnd nTargetValue k =
    (case SelectCoinsMinConf E nd K W addr rnd nTargetValue 1 6 k of
       (Some cs, k) \<Rightarrow> (Some cs, k)
     | (None, k) \<Rightarrow>
        (case SelectCoinsMinConf E nd K W addr rnd nTargetValue 1 1 k of
           (Some cs, k) \<Rightarrow> (Some cs, k)
         | (None, k) \<Rightarrow> SelectCoinsMinConf E nd K W addr rnd nTargetValue 0 1 k))"

end
