(* ===== verification/WalletTx.thy ===== *)
theory WalletTx
  imports Wallet
begin

text \<open>
  What happens to the wallet's transactions (\<^verbatim>\<open>main.cpp\<close>): a transaction is added, merged with
  what is known of it, linked to its block, committed as a payment or rolled back, and the
  flags of what is spent are corrected from the chain.  The answers of the wallet database are
  the arguments \<open>written\<close>; messages to the user interface are left out.  \<^verbatim>\<open>fClient\<close> is false.
\<close>

section \<open>The block of a transaction\<close>

definition tx_hash :: "ext \<Rightarrow> CWalletTx \<Rightarrow> uint256" where
  "tx_hash E w = SerializeHash_tx E (mtx w)"

fun find_tx :: "CTransaction \<Rightarrow> CTransaction list \<Rightarrow> nat" where
  "find_tx tx [] = 0"
| "find_tx tx (t # ts) = (if t = tx then 0 else Suc (find_tx tx ts))"

text \<open>The block, given or read from disk; the depth it answers, and the transaction it leaves.\<close>

definition block_of_tx :: "ext \<Rightarrow> node \<Rightarrow> CBlock option \<Rightarrow> uint256 \<Rightarrow> CBlock option" where
  "block_of_tx E nd pblock hash =
    (case pblock of
       Some b \<Rightarrow> Some b
     | None \<Rightarrow>
        (case ReadTxIndex (nd_txdb nd) hash of
           None \<Rightarrow> None
         | Some e \<Rightarrow>
            (case ReadFromDisk E (nd_files nd) (pos_nFile (pos e)) (pos_nBlockPos (pos e)) of
               Inl _ \<Rightarrow> None | Inr b \<Rightarrow> Some b)))"

definition chain_depth :: "node \<Rightarrow> uint256 \<Rightarrow> int" where
  "chain_depth nd h =
    (case fmlookup (mapBlockIndex nd) h of
       None \<Rightarrow> 0
     | Some pindex \<Rightarrow>
         if pindex = [] \<or> \<not> IsInMainChain nd pindex then 0
         else nHeight (hd (pindexBest nd)) - nHeight (hd pindex) + 1)"

definition SetMerkleBranch :: "ext \<Rightarrow> node \<Rightarrow> CBlock option \<Rightarrow> CMerkleTx \<Rightarrow> int \<times> CMerkleTx" where
  "SetMerkleBranch E nd pblock w =
    (case block_of_tx E nd pblock (SerializeHash_tx E (mtx w)) of
       None \<Rightarrow> (0, w)
     | Some b \<Rightarrow>
         let w1 = w\<lparr>hashBlock := GetHash E b\<rparr>; i = find_tx (mtx w) (vtx b)
         in if i = length (vtx b) then (0, w1\<lparr>vMerkleBranch := [], nIndex := - 1\<rparr>)
            else (chain_depth nd (hashBlock w1),
                  w1\<lparr>vMerkleBranch := GetMerkleBranch E [] (tx_hashes E b) i, nIndex := int i\<rparr>))"

definition set_merkle :: "CMerkleTx \<Rightarrow> CWalletTx \<Rightarrow> CWalletTx" where
  "set_merkle m w = w\<lparr>hashBlock := hashBlock m, vMerkleBranch := vMerkleBranch m, nIndex := nIndex m\<rparr>"

section \<open>Adding and erasing\<close>

text \<open>What is known already takes over what the new copy knows better; the flag: anything changed.\<close>

definition merge_block :: "CWalletTx \<Rightarrow> CWalletTx \<Rightarrow> CWalletTx" where
  "merge_block wIn w = (if hashBlock wIn \<noteq> 0 \<and> hashBlock wIn \<noteq> hashBlock w then w\<lparr>hashBlock := hashBlock wIn\<rparr> else w)"

definition merge_branch :: "CWalletTx \<Rightarrow> CWalletTx \<Rightarrow> CWalletTx" where
  "merge_branch wIn w =
    (if nIndex wIn \<noteq> - 1 \<and> (vMerkleBranch wIn \<noteq> vMerkleBranch w \<or> nIndex wIn \<noteq> nIndex w)
     then w\<lparr>vMerkleBranch := vMerkleBranch wIn, nIndex := nIndex wIn\<rparr> else w)"

definition merge_flags :: "CWalletTx \<Rightarrow> CWalletTx \<Rightarrow> CWalletTx" where
  "merge_flags wIn w =
    (let w1 = (if fFromMe wIn \<and> \<not> fFromMe w then w\<lparr>fFromMe := True\<rparr> else w)
     in if fSpent wIn \<and> \<not> fSpent w1 then w1\<lparr>fSpent := True\<rparr> else w1)"

definition merge_wtx :: "CWalletTx \<Rightarrow> CWalletTx \<Rightarrow> CWalletTx" where
  "merge_wtx wIn w = merge_flags wIn (merge_branch wIn (merge_block wIn w))"

text \<open>Whatever the transaction spends of ours is spent now.\<close>

definition mark_prev :: "key_store \<Rightarrow> CTxIn \<Rightarrow> wallet \<Rightarrow> wallet" where
  "mark_prev K txin W =
    (case fmlookup W (out_hash (prevout txin)) of
       None \<Rightarrow> W
     | Some prev \<Rightarrow>
         if fSpent prev then W
         else let n = unat (out_n (prevout txin))
              in if n < length (vout (mtx prev)) \<and> Mine K (vout (mtx prev) ! n)
                 then fmupd (out_hash (prevout txin)) (prev\<lparr>fSpent := True\<rparr>) W else W)"

definition AddToWallet :: "ext \<Rightarrow> key_store \<Rightarrow> u32 \<Rightarrow> bool \<Rightarrow> CWalletTx \<Rightarrow> wallet \<Rightarrow> wallet \<times> bool" where
  "AddToWallet E K t written wIn W =
    (let hash = tx_hash E wIn;
         wtx = (case fmlookup W hash of None \<Rightarrow> wIn\<lparr>nTimeReceived := t\<rparr> | Some w \<Rightarrow> merge_wtx wIn w)
     in if fmlookup W hash = Some wtx then (W, True)
        else
          let W1 = fmupd hash wtx W
          in if \<not> written then (W1, False)
             else (fold (mark_prev K) (vin (mtx wtx)) W1, True))"

definition AddToWalletIfMine ::
    "ext \<Rightarrow> node \<Rightarrow> key_store \<Rightarrow> u32 \<Rightarrow> bool \<Rightarrow> CTransaction \<Rightarrow> CBlock option \<Rightarrow> wallet \<Rightarrow> wallet \<times> bool" where
  "AddToWalletIfMine E nd K t written tx pblock W =
    (let fSpendsMine = (\<not> IsCoinBase tx \<and> list_ex (CTxIn_IsMine K W) (vin tx))
     in if tx_IsMine K tx \<or> fSpendsMine \<or> fmlookup W (SerializeHash_tx E tx) \<noteq> None then
          let w0 = new_CWalletTx tx;
              w1 = (if fSpendsMine then w0\<lparr>fFromMe := True\<rparr> else w0);
              w2 = (if pblock \<noteq> None
                    then set_merkle (snd (SetMerkleBranch E nd pblock (CMerkleTx.truncate w1))) w1 else w1)
          in AddToWallet E K t written w2 W
        else (W, True))"

definition EraseFromWallet :: "uint256 \<Rightarrow> wallet \<Rightarrow> wallet" where
  "EraseFromWallet hash W = fmdrop hash W"

text \<open>A block's transactions, and the blocks from \<open>pindex\<close> on along \<^verbatim>\<open>pnext\<close>; the count of those added.\<close>

fun scan_txs ::
    "ext \<Rightarrow> node \<Rightarrow> key_store \<Rightarrow> u32 \<Rightarrow> CBlock \<Rightarrow> CTransaction list \<Rightarrow> wallet \<times> nat \<Rightarrow> wallet \<times> nat" where
  "scan_txs E nd K t b [] Wn = Wn"
| "scan_txs E nd K t b (tx # txs) (W, n) =
    scan_txs E nd K t b txs
      (if tx_IsMine K tx then
         (case AddToWalletIfMine E nd K t True tx (Some b) W of (W', ok) \<Rightarrow> (W', if ok then n + 1 else n))
       else (W, n))"

definition next_block :: "node \<Rightarrow> chain \<Rightarrow> chain" where
  "next_block nd pindex =
    (case pnext nd (phashBlock (hd pindex)) of
       None \<Rightarrow> [] | Some h \<Rightarrow> (case fmlookup (mapBlockIndex nd) h of None \<Rightarrow> [] | Some c \<Rightarrow> c))"

definition scan_block :: "ext \<Rightarrow> node \<Rightarrow> key_store \<Rightarrow> u32 \<Rightarrow> chain \<Rightarrow> wallet \<times> nat \<Rightarrow> wallet \<times> nat" where
  "scan_block E nd K t pindex Wn =
    (case ReadFromDisk E (nd_files nd) (nFile (hd pindex)) (nBlockPos (hd pindex)) of
       Inl _ \<Rightarrow> Wn | Inr b \<Rightarrow> scan_txs E nd K t b (vtx b) Wn)"

partial_function (option) ScanForWalletTransactions ::
    "ext \<Rightarrow> node \<Rightarrow> key_store \<Rightarrow> u32 \<Rightarrow> chain \<Rightarrow> wallet \<times> nat \<Rightarrow> (wallet \<times> nat) option" where
  "ScanForWalletTransactions E nd K t pindex Wn =
    (if pindex = [] then Some Wn
     else ScanForWalletTransactions E nd K t (next_block nd pindex) (scan_block E nd K t pindex Wn))"

datatype scan_error = IndexNotLoaded | OnlyGenesis

definition CanScanWalletTransactions :: "node \<Rightarrow> scan_error option" where
  "CanScanWalletTransactions nd =
    (if pindexGenesisBlock nd = [] \<or> pindexBest nd = [] \<or> hashBestChain nd = 0 \<or> nBestHeight nd < 0
     then Some IndexNotLoaded
     else if nBestHeight nd = 0 then Some OnlyGenesis else None)"

section \<open>Committing and rolling back\<close>

definition set_spent :: "bool \<Rightarrow> uint256 \<Rightarrow> wallet \<Rightarrow> wallet" where
  "set_spent f h W = (case fmlookup W h of None \<Rightarrow> W | Some w \<Rightarrow> fmupd h (w\<lparr>fSpent := f\<rparr>) W)"

text \<open>Looking a coin up with \<^verbatim>\<open>mapWallet[hash]\<close> makes an empty entry where there is none.\<close>

definition touch :: "uint256 \<Rightarrow> wallet \<Rightarrow> wallet" where
  "touch h W = (if fmlookup W h = None then fmupd h (new_CWalletTx CTransaction_SetNull) W else W)"

definition prev_hashes :: "CWalletTx \<Rightarrow> uint256 list" where
  "prev_hashes w = map (\<lambda>i. out_hash (prevout i)) (vin (mtx w))"

definition CommitTransactionSpent :: "ext \<Rightarrow> key_store \<Rightarrow> u32 \<Rightarrow> bool \<Rightarrow> CWalletTx \<Rightarrow> wallet \<Rightarrow> wallet" where
  "CommitTransactionSpent E K t written wNew W =
    fold (set_spent True) (prev_hashes wNew)
      (fold touch (prev_hashes wNew) (fst (AddToWallet E K t written wNew W)))"

definition RollbackTransactionSpent :: "ext \<Rightarrow> CWalletTx \<Rightarrow> wallet \<Rightarrow> wallet" where
  "RollbackTransactionSpent E wNew W =
    EraseFromWallet (tx_hash E wNew) (fold (set_spent False) (prev_hashes wNew) W)"

section \<open>What the chain says is spent\<close>

fun seen_spent :: "key_store \<Rightarrow> CDiskTxPos list \<Rightarrow> CTxOut list \<Rightarrow> bool" where
  "seen_spent K (p # ps) (o1 # os) \<longleftrightarrow> (\<not> CDiskTxPos_IsNull p \<and> Mine K o1) \<or> seen_spent K ps os"
| "seen_spent K _ _ \<longleftrightarrow> False"

definition rescan_entry :: "ext \<Rightarrow> key_store \<Rightarrow> txdb \<Rightarrow> CWalletTx \<Rightarrow> CWalletTx" where
  "rescan_entry E K db w =
    (if fSpent w then w
     else case ReadTxIndex db (tx_hash E w) of
       None \<Rightarrow> w
     | Some e \<Rightarrow> if seen_spent K (vSpent e) (vout (mtx w)) then w\<lparr>fSpent := True\<rparr> else w)"

definition RescanSpentFlags :: "ext \<Rightarrow> key_store \<Rightarrow> txdb \<Rightarrow> wallet \<Rightarrow> wallet \<times> nat" where
  "RescanSpentFlags E K db W =
    (fmmap (rescan_entry E K db) W,
     length (filter (\<lambda>(h, w). rescan_entry E K db w \<noteq> w) (sorted_list_of_fmap W)))"

section \<open>The transactions a payment brings along\<close>

text \<open>
  The loop over the growing work queue: each hash once, the transaction from the wallet, from
  what a wallet transaction brought along, or from disk.
\<close>

definition COPY_DEPTH :: int where "COPY_DEPTH = 3"

definition ReadDiskTx :: "node \<Rightarrow> uint256 \<Rightarrow> CTransaction option" where
  "ReadDiskTx nd h = (case ReadTxIndex (nd_txdb nd) h of None \<Rightarrow> None | Some e \<Rightarrow> tx_ReadFromDisk (nd_files nd) (pos e))"

definition prev_map :: "ext \<Rightarrow> CMerkleTx list \<Rightarrow> (uint256 \<rightharpoonup> CMerkleTx) \<Rightarrow> uint256 \<rightharpoonup> CMerkleTx" where
  "prev_map E vs m = fold (\<lambda>v m. m(SerializeHash_tx E (mtx v) \<mapsto> v)) vs m"

definition supporting ::
    "ext \<Rightarrow> node \<Rightarrow> wallet \<Rightarrow> (uint256 \<rightharpoonup> CMerkleTx) \<Rightarrow> uint256 \<Rightarrow> CMerkleTx option \<times> (uint256 \<rightharpoonup> CMerkleTx)" where
  "supporting E nd W mapWalletPrev hash =
    (case fmlookup W hash of
       Some w \<Rightarrow> (Some (CMerkleTx.truncate w), prev_map E (vtxPrev w) mapWalletPrev)
     | None \<Rightarrow>
        (case mapWalletPrev hash of
           Some w \<Rightarrow> (Some w, mapWalletPrev)
         | None \<Rightarrow> (map_option new_CMerkleTx (ReadDiskTx nd hash), mapWalletPrev)))"

function supporting_loop ::
    "ext \<Rightarrow> node \<Rightarrow> wallet \<Rightarrow> uint256 set \<Rightarrow> (uint256 \<rightharpoonup> CMerkleTx) \<Rightarrow> uint256 list \<Rightarrow> CMerkleTx list \<Rightarrow> CMerkleTx list" where
  "supporting_loop E nd W setAlreadyDone mapWalletPrev [] vPrev = vPrev"
| "supporting_loop E nd W setAlreadyDone mapWalletPrev (hash # vWorkQueue) vPrev =
    (if hash \<in> setAlreadyDone then supporting_loop E nd W setAlreadyDone mapWalletPrev vWorkQueue vPrev
     else case supporting E nd W mapWalletPrev hash of
       (None, m) \<Rightarrow> supporting_loop E nd W (insert hash setAlreadyDone) m vWorkQueue vPrev
     | (Some tx, m) \<Rightarrow>
         (case SetMerkleBranch E nd None tx of (nDepth, tx') \<Rightarrow>
           supporting_loop E nd W (insert hash setAlreadyDone) m
             (if nDepth < COPY_DEPTH then vWorkQueue @ map (\<lambda>i. out_hash (prevout i)) (vin (mtx tx')) else vWorkQueue)
             (vPrev @ [tx'])))"
  by pat_completeness auto
termination
proof (relation "measures [\<lambda>(E, nd, W, S, m, q, v). card (- S), \<lambda>(E, nd, W, S, m, q, v). length q]", goal_cases)
  have less: "card (- insert h S) < card (- S)" if "h \<notin> S" for h :: uint256 and S
    using that by (intro psubset_card_mono) auto
  {
    case 3
    then show ?case using less by simp
  next
    case 4
    then show ?case using less by simp
  }
qed simp_all

definition AddSupportingTransactions :: "ext \<Rightarrow> node \<Rightarrow> wallet \<Rightarrow> CWalletTx \<Rightarrow> CWalletTx" where
  "AddSupportingTransactions E nd W w =
    (case SetMerkleBranch E nd None (CMerkleTx.truncate w) of (nDepth, m) \<Rightarrow>
       set_merkle m w\<lparr>vtxPrev :=
         (if nDepth < COPY_DEPTH then rev (supporting_loop E nd W {} Map.empty (prev_hashes w) []) else [])\<rparr>)"

end
