(* ===== verification/Send.thy ===== *)
theory Send
  imports WalletTx
begin

text \<open>
  Paying (\<^verbatim>\<open>CreateTransaction\<close>, \<^verbatim>\<open>SendMoney\<close> and \<^verbatim>\<open>BumpFee\<close> of \<^verbatim>\<open>main.cpp\<close>).  The state is the node,
  the keys, the wallet and the number of the next random bit; the environment holds the
  libraries, the clock, where the wallet's transactions lie in memory and the two fee settings.
  An outer \<open>None\<close> is an assertion that fails or a search for keys that does not return; relaying
  the transaction to the peers is left out.
\<close>

definition SEQUENCE_REPLACEABLE :: u32 where "SEQUENCE_REPLACEABLE = 0xfffffffd"

record wallet_env =
  wE :: ext
  wN :: net_params
  wL :: key_lib
  wD :: hd_lib
  wWritten :: bool
  wTime :: u32
  wAddr :: "uint256 \<Rightarrow> nat"
  wRnd :: "nat \<Rightarrow> bool"
  nTransactionFee :: int
  nPayTxFeePerKB :: int

record wallet_state =
  ws_node :: node
  ws_hd :: hd_state
  ws_wallet :: wallet
  ws_rnd :: nat

abbreviation ws_keys :: "wallet_state \<Rightarrow> key_store" where
  "ws_keys S \<equiv> hd_keys (ws_hd S)"

section \<open>Building a payment\<close>

definition own_outputs :: "key_store \<Rightarrow> CTransaction \<Rightarrow> nat list" where
  "own_outputs K tx = filter (\<lambda>n. Mine K (vout tx ! n)) [0 ..< length (vout tx)]"

text \<open>The coins in the order of their addresses, as the loops meet them.\<close>

definition coin_list :: "(uint256 \<Rightarrow> nat) \<Rightarrow> wallet \<Rightarrow> uint256 list \<Rightarrow> CWalletTx list" where
  "coin_list addr W setCoins = map (\<lambda>h. the (fmlookup W h)) (sort_key addr setCoins)"

definition coins_value :: "ext \<Rightarrow> node \<Rightarrow> key_store \<Rightarrow> CWalletTx list \<Rightarrow> int" where
  "coins_value E nd K cs = foldl (\<lambda>n w. i64 (n + wtx_GetCredit E nd K w)) 0 cs"

text \<open>An input for each output of ours, with the transaction it spends.\<close>

definition coin_inputs :: "ext \<Rightarrow> key_store \<Rightarrow> CWalletTx list \<Rightarrow> (CTransaction \<times> CTxIn) list" where
  "coin_inputs E K cs =
    concat (map (\<lambda>w. map (\<lambda>n. (mtx w, \<lparr>prevout = \<lparr>out_hash = tx_hash E w, out_n = word_of_nat n\<rparr>,
      scriptSig = [], nSequence = SEQUENCE_REPLACEABLE\<rparr>)) (own_outputs K (mtx w))) cs)"

fun first_pubkey :: "key_store \<Rightarrow> CTxOut list \<Rightarrow> bytes" where
  "first_pubkey K [] = []"
| "first_pubkey K (o1 # os) =
    (if Mine K o1 then (case ExtractPubKey K (scriptPubKey o1) True of Some pk \<Rightarrow> pk | None \<Rightarrow> first_pubkey K os)
     else first_pubkey K os)"

text \<open>The key for the change; empty when there is none.\<close>

definition change_key :: "wallet_env \<Rightarrow> wallet_state \<Rightarrow> CWalletTx list \<Rightarrow> wallet_state \<times> bytes" where
  "change_key Env S cs =
    (if HaveHDSeed (ws_hd S) then
       (case DeriveNextHDChangeKey (wE Env) (wL Env) (wD Env) (wWritten Env) (ws_hd S) of
          (H, Some pk) \<Rightarrow> (S\<lparr>ws_hd := H\<rparr>, pk) | (H, None) \<Rightarrow> (S\<lparr>ws_hd := H\<rparr>, []))
     else (S, case cs of [] \<Rightarrow> [] | w # _ \<Rightarrow> first_pubkey (ws_keys S) (vout (mtx w))))"

text \<open>Every input in turn; what \<open>SignSignature\<close> answers is not looked at.\<close>

fun sign_inputs ::
    "ext \<Rightarrow> key_lib \<Rightarrow> key_store \<Rightarrow> CTransaction list \<Rightarrow> nat \<Rightarrow> CTransaction \<Rightarrow> CTransaction option" where
  "sign_inputs E L K [] k tx = Some tx"
| "sign_inputs E L K (txFrom # rest) k tx =
    (case SignSignature E L K txFrom tx k SIGHASH_ALL [] of
       None \<Rightarrow> None | Some (tx', _) \<Rightarrow> sign_inputs E L K rest (k + 1) tx')"

definition fill_outputs ::
    "wallet_env \<Rightarrow> wallet_state \<Rightarrow> bytes \<Rightarrow> int \<Rightarrow> int \<Rightarrow> int \<Rightarrow> CWalletTx list \<Rightarrow> wallet_state \<times> CTxOut list option" where
  "fill_outputs Env S spk nPay nTotalValue nValueIn cs =
    (let payee = \<lparr>nValue = nPay, scriptPubKey = spk\<rparr>
     in if nTotalValue < nValueIn then
          (case change_key Env S cs of
             (S', pk) \<Rightarrow>
               if pk = [] then (S', None)
               else (S', Some [payee, \<lparr>nValue = i64 (nValueIn - nTotalValue),
                                scriptPubKey = push_vch pk @ push_opcode OP_CHECKSIG\<rparr>]))
        else (S, Some [payee]))"

text \<open>One round: the transaction at the fee guessed, or false.\<close>

definition create_pass ::
    "wallet_env \<Rightarrow> bytes \<Rightarrow> int \<Rightarrow> CWalletTx \<Rightarrow> int \<Rightarrow> wallet_state \<Rightarrow> (wallet_state \<times> CWalletTx option) option" where
  "create_pass Env spk nPay wNew nFee S =
    (let nTotalValue = i64 (nPay + nFee)
     in case SelectCoins (wE Env) (ws_node S) (ws_keys S) (ws_wallet S) (wAddr Env) (wRnd Env) nTotalValue (ws_rnd S) of
          (None, k) \<Rightarrow> Some (S\<lparr>ws_rnd := k\<rparr>, None)
        | (Some setCoins, k) \<Rightarrow>
            let S1 = S\<lparr>ws_rnd := k\<rparr>; cs = coin_list (wAddr Env) (ws_wallet S) setCoins;
                nValueIn = coins_value (wE Env) (ws_node S) (ws_keys S) cs
            in case fill_outputs Env S1 spk nPay nTotalValue nValueIn cs of
                 (S2, None) \<Rightarrow> Some (S2, None)
               | (S2, Some outs) \<Rightarrow>
                   let ins = coin_inputs (wE Env) (ws_keys S2) cs
                   in case sign_inputs (wE Env) (wL Env) (ws_keys S2) (map fst ins) 0
                             ((mtx wNew)\<lparr>vin := map snd ins, vout := outs\<rparr>) of
                        None \<Rightarrow> None
                      | Some tx \<Rightarrow> Some (S2, Some (wNew\<lparr>mtx := tx\<rparr>)))"

definition fee_needed :: "wallet_env \<Rightarrow> CWalletTx \<Rightarrow> int" where
  "fee_needed Env w =
    max (GetMinFee True (mtx w)) (FeeForSize (nPayTxFeePerKB Env) (GetSerializeSize_CWalletTx w))"

text \<open>The rounds, each at the fee the last one needed; the fee reported and the payment.\<close>

partial_function (option) create_loop ::
    "wallet_env \<Rightarrow> bytes \<Rightarrow> int \<Rightarrow> CWalletTx \<Rightarrow> int \<Rightarrow> int \<Rightarrow> wallet_state \<Rightarrow>
      (wallet_state \<times> int \<times> CWalletTx option) option" where
  "create_loop Env spk nPay wNew nFee nFeeRequired S =
    (if nPay < 0 then Some (S, nFeeRequired, None)
     else case create_pass Env spk nPay wNew nFee S of
       None \<Rightarrow> None
     | Some (S', r) \<Rightarrow>
         if r = None then Some (S', nFeeRequired, None)
         else
           let w = the r; nNeed = fee_needed Env w
           in if nFee < nNeed then create_loop Env spk nPay wNew nNeed nNeed S'
              else Some (S', nFeeRequired,
                     Some (AddSupportingTransactions (wE Env) (ws_node S') (ws_wallet S') w
                       \<lparr>fTimeReceivedIsTxTime := True\<rparr>)))"

definition CreateTransaction ::
    "wallet_env \<Rightarrow> bytes \<Rightarrow> int \<Rightarrow> CWalletTx \<Rightarrow> wallet_state \<Rightarrow> (wallet_state \<times> int \<times> CWalletTx option) option" where
  "CreateTransaction Env spk nPay wNew S = create_loop Env spk nPay wNew (nTransactionFee Env) 0 S"

section \<open>Sending\<close>

text \<open>The pool's answer; what the payment replaces leaves the wallet too.\<close>

definition accept_payment :: "wallet_env \<Rightarrow> CTransaction \<Rightarrow> wallet_state \<Rightarrow> wallet_state \<times> bool" where
  "accept_payment Env tx S =
    (let nd = ws_node S
     in case AcceptTransaction (wE Env) (wN Env) (node_accept_view (int (unat (wTime Env))) nd) (nd_txdb nd) True tx (nd_pool nd) of
          Inl _ \<Rightarrow> (S, False)
        | Inr (M, replaced) \<Rightarrow>
            (S\<lparr>ws_node := nd\<lparr>nd_pool := M\<rparr>, ws_wallet := fold EraseFromWallet replaced (ws_wallet S)\<rparr>, True))"

datatype send_error = OversizedNeedsFee int | CreationFailed | NotAccepted

definition SendMoney ::
    "wallet_env \<Rightarrow> bytes \<Rightarrow> int \<Rightarrow> CWalletTx \<Rightarrow> wallet_state \<Rightarrow> (wallet_state \<times> (send_error + CWalletTx)) option" where
  "SendMoney Env spk nPay wNew S =
    (case CreateTransaction Env spk nPay wNew S of
       None \<Rightarrow> None
     | Some (S1, nFeeRequired, None) \<Rightarrow>
         Some (S1, Inl (if GetBalance (wE Env) (ws_node S1) (ws_keys S1) (ws_wallet S1) < i64 (nPay + nFeeRequired)
                        then OversizedNeedsFee nFeeRequired else CreationFailed))
     | Some (S1, _, Some w) \<Rightarrow>
         let S2 = S1\<lparr>ws_wallet := CommitTransactionSpent (wE Env) (ws_keys S1) (wTime Env) (wWritten Env) w (ws_wallet S1)\<rparr>
         in case accept_payment Env (mtx w) S2 of
              (S3, True) \<Rightarrow> Some (S3, Inr w)
            | (S3, False) \<Rightarrow> Some (S3\<lparr>ws_wallet := RollbackTransactionSpent (wE Env) w (ws_wallet S3)\<rparr>, Inl NotAccepted))"

section \<open>Speeding up\<close>

datatype bump_error =
    NotInWallet | NotWaiting | FeeUnknown | FeeThrows tx_error | SentAsFinal | NotAllOurs | NoChange
  | ChangeTooSmall int | SigningFailed | NotSettled | ReplacementRefused

definition find_change :: "key_store \<Rightarrow> CTransaction \<Rightarrow> nat option" where
  "find_change K tx = (case rev (own_outputs K tx) of [] \<Rightarrow> None | n # _ \<Rightarrow> Some n)"

text \<open>Sign everything anew, as long as it works.\<close>

fun resign ::
    "ext \<Rightarrow> key_lib \<Rightarrow> key_store \<Rightarrow> wallet \<Rightarrow> nat list \<Rightarrow> CTransaction \<Rightarrow> (CTransaction \<times> bool) option" where
  "resign E L K W [] tx = Some (tx, True)"
| "resign E L K W (i # is) tx =
    (case SignSignature E L K (mtx (the (fmlookup W (out_hash (prevout (vin tx ! i)))))) tx i SIGHASH_ALL [] of
       None \<Rightarrow> None
     | Some (tx', False) \<Rightarrow> Some (tx', False)
     | Some (tx', True) \<Rightarrow> resign E L K W is tx')"

definition bump_need :: "int \<Rightarrow> int \<Rightarrow> nat \<Rightarrow> nat \<Rightarrow> int" where
  "bump_need nNewRatePerKB nOldFee nOldSize nSize =
    (let x = i64 (nOldFee * int nSize); y = int (max 1 nOldSize)
     in max (max (FeeForSize nNewRatePerKB nSize) (i64 (nOldFee + FeeForSize MIN_RELAY_FEE_PER_KB nSize)))
          (i64 (sgn x * (\<bar>x\<bar> div y) + 1)))"

text \<open>\<open>n\<close> more rounds after this one.\<close>

primrec bump_loop ::
    "wallet_env \<Rightarrow> key_store \<Rightarrow> wallet \<Rightarrow> int \<Rightarrow> int \<Rightarrow> CTransaction \<Rightarrow> nat \<Rightarrow> nat \<Rightarrow> CTransaction \<Rightarrow> int \<Rightarrow>
      (bump_error + CTransaction \<times> int) option" where
  "bump_loop Env K W nNewRatePerKB nOldFee txOld nChange 0 txNew nFee = Some (Inl NotSettled)"
| "bump_loop Env K W nNewRatePerKB nOldFee txOld nChange (Suc n) txNew nFee =
    (let nLeft = i64 (nValue (vout txOld ! nChange) - i64 (nFee - nOldFee));
         tx1 = txNew\<lparr>vout := (vout txNew)[nChange := (vout txNew ! nChange)\<lparr>nValue := nLeft\<rparr>],
                     vin := map (\<lambda>i. i\<lparr>scriptSig := []\<rparr>) (vin txNew)\<rparr>
     in if nLeft < CENT div 100 then Some (Inl (ChangeTooSmall nFee))
        else case resign (wE Env) (wL Env) K W [0 ..< length (vin tx1)] tx1 of
          None \<Rightarrow> None
        | Some (_, False) \<Rightarrow> Some (Inl SigningFailed)
        | Some (tx2, True) \<Rightarrow>
            let nNeed = bump_need nNewRatePerKB nOldFee (GetSerializeSize_CTransaction txOld) (GetSerializeSize_CTransaction tx2)
            in if nNeed \<le> nFee \<and> nOldFee < nFee then Some (Inr (tx2, nFee))
               else bump_loop Env K W nNewRatePerKB nOldFee txOld nChange n tx2 (max nNeed (i64 (nOldFee + 1))))"

definition bump_checks :: "wallet_env \<Rightarrow> uint256 \<Rightarrow> wallet_state \<Rightarrow> bump_error + CWalletTx \<times> int \<times> nat" where
  "bump_checks Env txid S =
    (let nd = ws_node S; K = ws_keys S; W = ws_wallet S
     in case fmlookup W txid of
          None \<Rightarrow> Inl NotInWallet
        | Some wtxOld \<Rightarrow>
            if fmlookup (pool (nd_pool nd)) txid = None then Inl NotWaiting
            else case GetMempoolTxFee (nd_pool nd) (nd_txdb nd) (nd_files nd) (mtx wtxOld) of
              Inl e \<Rightarrow> Inl (FeeThrows e)
            | Inr None \<Rightarrow> Inl FeeUnknown
            | Inr (Some nOldFee) \<Rightarrow>
                if \<not> SignalsReplacement (mtx wtxOld) then Inl SentAsFinal
                else if \<not> list_all (CTxIn_IsMine K W) (vin (mtx wtxOld)) then Inl NotAllOurs
                else (case find_change K (mtx wtxOld) of
                  None \<Rightarrow> Inl NoChange
                | Some nChange \<Rightarrow>
                    if length (vout (mtx wtxOld)) < 2 then Inl NoChange else Inr (wtxOld, nOldFee, nChange)))"

definition BumpFee ::
    "wallet_env \<Rightarrow> uint256 \<Rightarrow> int \<Rightarrow> wallet_state \<Rightarrow> (wallet_state \<times> (bump_error + uint256 \<times> int \<times> int)) option" where
  "BumpFee Env txid nNewRatePerKB S =
    (case bump_checks Env txid S of
       Inl e \<Rightarrow> Some (S, Inl e)
     | Inr (wtxOld, nOldFee, nChange) \<Rightarrow>
        (case bump_loop Env (ws_keys S) (ws_wallet S) nNewRatePerKB nOldFee (mtx wtxOld) nChange 16 (mtx wtxOld) nOldFee of
           None \<Rightarrow> None
         | Some (Inl e) \<Rightarrow> Some (S, Inl e)
         | Some (Inr (txNew, nFee)) \<Rightarrow>
             let wNew = AddSupportingTransactions (wE Env) (ws_node S) (ws_wallet S)
                          ((new_CWalletTx txNew)\<lparr>mapValue := mapValue wtxOld, fFromMe := True\<rparr>)
                          \<lparr>fTimeReceivedIsTxTime := True\<rparr>
             in case accept_payment Env (mtx wNew) S of
                  (S1, False) \<Rightarrow> Some (S1, Inl ReplacementRefused)
                | (S1, True) \<Rightarrow>
                    Some (S1\<lparr>ws_wallet := fst (AddToWallet (wE Env) (ws_keys S1) (wTime Env) (wWritten Env) wNew (ws_wallet S1))\<rparr>,
                          Inr (tx_hash (wE Env) wNew, nOldFee, nFee))))"

end
