(* ===== verification/KeyProps.thy ===== *)
theory KeyProps
  imports Keys
begin

text \<open>
  What the key store and signing give: signatures are strictly encoded with a low S, keys come
  back from an encrypted store while it is unlocked, and an input signed for an output to one of
  our keys is one that every node accepts, under all rules.
\<close>

section \<open>The signature itself\<close>

lemma half_order: "be_nat halfOrder = group_order div 2"
  by (simp add: halfOrder_def group_order_def be_nat_def le_nat_def)

lemma le_min_top: "0 < n \<Longrightarrow> le_min n \<noteq> [] \<and> last (le_min n) \<noteq> 0"
proof (induction n rule: less_induct)
  case (less n)
  have eq: "le_min n = word_of_nat (n mod 256) # le_min (n div 256)" by (rule le_min_pos [OF less.prems])
  show ?case
  proof (cases "n div 256 = 0")
    case True
    then have "n < 256" by simp
    then have "(word_of_nat n :: byte) \<noteq> 0" using less.prems by (simp add: word_of_nat_eq_0_iff nat_dvd_not_less)
    then show ?thesis using True eq \<open>n < 256\<close> by simp
  next
    case False
    then have "le_min (n div 256) \<noteq> [] \<and> last (le_min (n div 256)) \<noteq> 0"
      using less.IH [of "n div 256"] less.prems by simp
    then show ?thesis by (simp add: eq)
  qed
qed

lemma der_int_body:
  assumes "0 < n"
  shows "der_int (mpi_body (int n))"
proof -
  have ne: "mpi_body (int n) \<noteq> []"
  proof
    assume "mpi_body (int n) = []"
    then have "be_nat (mpi_body (int n)) = 0" by (simp add: be_nat_def)
    then show False using be_nat_mpi_body [of "int n"] assms by simp
  qed
  then obtain b bs where b: "mpi_body (int n) = b # bs" by (cases "mpi_body (int n)") auto
  have "unat b < 128" by (rule mpi_body_top_clear [OF _ b]) simp
  moreover have "128 \<le> unat (bs ! 0)" if "b = 0" "bs \<noteq> []"
  proof -
    obtain c cs where c: "rev (le_min n) = c # cs" using le_min_top [OF assms] by (cases "rev (le_min n)") auto
    then have "c \<noteq> 0" using le_min_top [OF assms] by (metis last_rev list.sel(1) rev_rev_ident)
    then show ?thesis using b that c by (auto simp: mpi_body_def split: if_split_asm)
  qed
  ultimately show ?thesis by (auto simp: der_int_def b)
qed

lemma body_length:
  assumes "n < 256 ^ 32"
  shows "length (mpi_body (int n)) \<le> 33"
  using length_mpi_body_le [of "int n" 32] assms by simp

context key_library
begin

lemma CKey_Sign_good:
  assumes "CKey_Sign L sk h = Some sig"
  shows "IsStrictDERSignature (sig @ [t]) \<and> IsLowSSignature (sig @ [t]) \<and>
    (priv_to_pub L sk = Some pk \<longrightarrow> SigCheckEcdsa E (bytes_of_uint256 h) sig pk)"
proof -
  obtain r s s' where rs: "ecdsa_do_sign L sk h = Some (r, s)"
    "s' = (if group_order div 2 < s then group_order - s else s)" "sig = i2d_ECDSA_SIG L (r, s')"
    using assms by (auto simp: CKey_Sign_def Let_def split: option.split_asm if_split_asm)
  have range: "0 < r" "r < group_order" "0 < s" "s < group_order" using sign_range [OF rs(1)] by auto
  then have s': "0 < s'" "s' \<le> group_order div 2" using rs(2) by auto
  have big: "group_order < 256 ^ 32" by (simp add: group_order_def)
  let ?R = "mpi_body (int r)" and ?S = "mpi_body (int s')"
  have d: "der_int ?R" "der_int ?S" using der_int_body range s' by auto
  have "r < 256 ^ 32" "s' < 256 ^ 32" using big range s' by (auto simp: less_le_trans)
  then have len: "length ?R + length ?S \<le> 66" using body_length [of r] body_length [of s'] by simp
  have "sig @ [t] = der_sig ?R ?S t"
    by (simp add: rs(3) sign_der) (simp add: der_sig_def butlast_append)
  moreover have "IsStrictDERSignature (der_sig ?R ?S t)" by (rule strict_der_sig [OF d len])
  moreover have "IsLowSSignature (der_sig ?R ?S t)"
    using s' be_nat_mpi_body [of "int s'"] by (simp add: IsLowS_iff [OF d len] half_order)
  moreover have "priv_to_pub L sk = Some pk \<longrightarrow> SigCheckEcdsa E (bytes_of_uint256 h) sig pk"
    using sign_verifies [OF _ rs(1), of pk s'] rs by auto
  ultimately show ?thesis by simp
qed

text \<open>A key put into the store comes back from it, encrypted or not, while it is not locked.\<close>

lemma AddKey_get:
  assumes add: "AddKey E L pub priv written K = (K', True)" and pub: "priv_to_pub L priv = Some pub"
    and plain: "fWalletEncrypted K \<Longrightarrow> fmlookup (mapKeys K) pub = None"
  shows "GetWalletPrivKey E L K' pub = Some priv \<and> WalletCanSpendKey K' pub \<and>
    mapPubKeys K' (Hash160 E pub) = Some pub"
proof (cases "fWalletEncrypted K")
  case False
  then have "K' = K\<lparr>mapKeys := fmupd pub priv (mapKeys K), mapPubKeys := (mapPubKeys K)(Hash160 E pub \<mapsto> pub)\<rparr>"
    using add by (auto simp: AddKey_def)
  then show ?thesis by (simp add: GetWalletPrivKey_def WalletCanSpendKey_def)
next
  case True
  then obtain c where c: "EncryptSecret L (vWalletMasterKey K) priv (WalletKeyIV E pub) = Some c"
    "\<not> IsWalletLocked K" "pub \<noteq> []"
    and K': "K' = K\<lparr>fWalletEncrypted := True, mapCryptedKeys := fmupd pub c (mapCryptedKeys K),
      mapPubKeys := (mapPubKeys K)(Hash160 E pub \<mapsto> pub)\<rparr>"
    using add by (auto simp: AddKey_def AddCryptedKey_def split: if_split_asm option.split_asm)
  have e: "length (vWalletMasterKey K) = 32" "length (WalletKeyIV E pub) = 16"
    "evp_encrypt L (vWalletMasterKey K) (WalletKeyIV E pub) priv = Some c"
    using c(1) by (auto simp: EncryptSecret_def split: if_split_asm)
  have "DecryptSecret L (vWalletMasterKey K) c (WalletKeyIV E pub) = Some priv"
    using e encrypt [OF e(3)] by (simp add: DecryptSecret_def)
  then show ?thesis
    using c(2) pub plain [OF True] True
    by (simp add: K' GetWalletPrivKey_def WalletCanSpendKey_def IsWalletLocked_def)
qed

end

text \<open>Locked, an encrypted store gives no key it does not also hold in the clear.\<close>

lemma locked_no_key: "fWalletEncrypted K \<Longrightarrow> fmlookup (mapKeys K) pk = None \<Longrightarrow> GetWalletPrivKey E L (lock_keys K) pk = None"
  by (simp add: GetWalletPrivKey_def lock_keys_def IsWalletLocked_def split: option.split)


section \<open>Signing for a key hash\<close>

lemma match_step:
  "GetOp p1 = Some (opc, v1, r1) \<Longrightarrow> GetOp p2 = Some (opc, v2, r2) \<Longrightarrow> opc \<noteq> OP_PUBKEY \<Longrightarrow> opc \<noteq> OP_PUBKEYHASH \<Longrightarrow>
    match_template p1 p2 vs = match_template r1 r2 vs"
  "GetOp p1 = Some (o1, v1, r1) \<Longrightarrow> GetOp p2 = Some (OP_PUBKEYHASH, v2, r2) \<Longrightarrow> length v1 = 20 \<Longrightarrow>
    match_template p1 p2 vs = match_template r1 r2 (vs @ [(OP_PUBKEYHASH, v1)])"
  "GetOp p1 = Some (o1, v1, r1) \<Longrightarrow> GetOp p2 = Some (OP_PUBKEY, v2, r2) \<Longrightarrow>
    match_template p1 p2 vs = (if length v1 \<le> 32 then None else match_template r1 r2 (vs @ [(OP_PUBKEY, v1)]))"
  "match_template [] [] vs = Some (rev vs)"
  by (subst match_template.simps, simp add: opcodes)+

lemma GetOp_templates:
  "GetOp (push_opcode OP_PUBKEYHASH @ r) = Some (OP_PUBKEYHASH, [], r)"
  "GetOp (push_opcode OP_PUBKEY @ r) = Some (OP_PUBKEY, [], r)"
  by (simp_all add: GetOp_def push_opcode_def opcodes)

lemma match_p2pkh: "match_template (p2pkh h) (vTemplates ! 1) [] = Some [(OP_PUBKEYHASH, bytes_of_uint160 h)]"
  and no_match_p2pkh: "match_template (p2pkh h) (vTemplates ! 0) [] = None"
proof -
  have T: "vTemplates ! 1 = push_opcode OP_DUP @ push_opcode OP_HASH160 @ push_opcode OP_PUBKEYHASH @
      push_opcode OP_EQUALVERIFY @ push_opcode OP_CHECKSIG"
    "vTemplates ! 0 = push_opcode OP_PUBKEY @ push_opcode OP_CHECKSIG"
    by (simp_all add: vTemplates_def)
  have ne: "OP_DUP \<noteq> OP_PUBKEY" "OP_DUP \<noteq> OP_PUBKEYHASH" "OP_HASH160 \<noteq> OP_PUBKEY" "OP_HASH160 \<noteq> OP_PUBKEYHASH"
    "OP_EQUALVERIFY \<noteq> OP_PUBKEY" "OP_EQUALVERIFY \<noteq> OP_PUBKEYHASH" "OP_CHECKSIG \<noteq> OP_PUBKEY" "OP_CHECKSIG \<noteq> OP_PUBKEYHASH"
    by (simp_all add: opcodes)
  show "match_template (p2pkh h) (vTemplates ! 1) [] = Some [(OP_PUBKEYHASH, bytes_of_uint160 h)]"
    unfolding T p2pkh_def
    by (simp only: match_step(1) [OF GetOp_std(1) GetOp_std(1) ne(1,2)] match_step(1) [OF GetOp_std(2) GetOp_std(2) ne(3,4)]
        match_step(2) [OF GetOp_uint160 GetOp_templates(1) length_bytes_of_uint160]
        match_step(1) [OF GetOp_std(3) GetOp_std(3) ne(5,6)]
        match_step(1) [OF GetOp_checksig_end(1) GetOp_checksig_end(1) ne(7,8)] match_step(4)) simp
  show "match_template (p2pkh h) (vTemplates ! 0) [] = None"
    unfolding T p2pkh_def by (simp only: match_step(3) [OF GetOp_std(1) GetOp_templates(2)]) simp
qed

lemma Solver_p2pkh: "Solver (p2pkh h) = Some [(OP_PUBKEYHASH, bytes_of_uint160 h)]"
  using match_p2pkh [of h] no_match_p2pkh [of h] by (simp add: Solver_def vTemplates_def)


lemma SolverTyped_p2pkh: "SolverTyped (p2pkh h) = Some (TX_PUBKEYHASH, [bytes_of_uint160 h])"
proof -
  have "\<not> IsNullData (p2pkh h)"
    by (simp add: IsNullData_def p2pkh_def push_opcode_def opcodes)
  then show ?thesis by (simp add: SolverTyped_def Solver_p2pkh opcodes)
qed

lemma FindAndDelete_p2pkh:
  assumes "0 < length v" "length v < 76" "length v \<noteq> 20"
  shows "FindAndDelete (push_vch v) (p2pkh h) = p2pkh h"
proof -
  have b: "push_vch v = word_of_nat (length v) # v" using assms by (simp add: push_vch_def opcodes)
  have "unat (word_of_nat (length v) :: byte) = length v" using assms by (simp add: unat_of_nat)
  then have ne: "(word_of_nat (length v) :: byte) \<noteq> c" if "unat c \<noteq> length v" for c using that by auto
  note keep = FindAndDelete_keep [where b = "push_vch v"]
  have last: "FindAndDelete (push_vch v) [] = []"
  proof -
    have "skip_copies (push_vch v) [] = []" by (rule skip_copies_stop) (simp add: b)
    then show ?thesis by (subst FindAndDelete.simps) (simp add: GetOp_def)
  qed
  have cs: "FindAndDelete (push_vch v) (push_opcode OP_CHECKSIG) = push_opcode OP_CHECKSIG"
    using keep [of "push_opcode OP_CHECKSIG" OP_CHECKSIG "[]" "[]"] GetOp_std(6) last assms ne [of 172]
    by (simp add: b push_opcode_def opcodes)
  have ev: "FindAndDelete (push_vch v) (push_opcode OP_EQUALVERIFY @ push_opcode OP_CHECKSIG) =
      push_opcode OP_EQUALVERIFY @ push_opcode OP_CHECKSIG"
    using keep [of "push_opcode OP_EQUALVERIFY" OP_EQUALVERIFY "[]" "push_opcode OP_CHECKSIG"] GetOp_std(3) cs assms ne [of 136]
    by (simp add: b push_opcode_def opcodes)
  have h: "FindAndDelete (push_vch v) (push_uint160 h @ push_opcode OP_EQUALVERIFY @ push_opcode OP_CHECKSIG) =
      push_uint160 h @ push_opcode OP_EQUALVERIFY @ push_opcode OP_CHECKSIG"
    using keep [of "push_uint160 h" 20 "bytes_of_uint160 h" "push_opcode OP_EQUALVERIFY @ push_opcode OP_CHECKSIG"]
      GetOp_uint160 ev assms ne [of 20]
    by (simp add: b push_uint160_def)
  have hs: "FindAndDelete (push_vch v) (push_opcode OP_HASH160 @ push_uint160 h @ push_opcode OP_EQUALVERIFY @ push_opcode OP_CHECKSIG) =
      push_opcode OP_HASH160 @ push_uint160 h @ push_opcode OP_EQUALVERIFY @ push_opcode OP_CHECKSIG"
    using keep [of "push_opcode OP_HASH160" OP_HASH160 "[]" "push_uint160 h @ push_opcode OP_EQUALVERIFY @ push_opcode OP_CHECKSIG"]
      GetOp_std(2) h assms ne [of 169]
    by (simp add: b push_opcode_def opcodes)
  show ?thesis
    using keep [of "push_opcode OP_DUP" OP_DUP "[]"
        "push_opcode OP_HASH160 @ push_uint160 h @ push_opcode OP_EQUALVERIFY @ push_opcode OP_CHECKSIG"]
      GetOp_std(1) hs assms ne [of 118]
    by (simp add: b push_opcode_def opcodes p2pkh_def)
qed

text \<open>A signature hash does not depend on any scriptSig.\<close>

definition same_but_sigs :: "CTransaction \<Rightarrow> CTransaction \<Rightarrow> bool" where
  "same_but_sigs a b \<longleftrightarrow> a\<lparr>vin := map (\<lambda>x. x\<lparr>scriptSig := []\<rparr>) (vin a)\<rparr> = b\<lparr>vin := map (\<lambda>x. x\<lparr>scriptSig := []\<rparr>) (vin b)\<rparr>"

lemma same_but_sigs_parts:
  assumes "same_but_sigs a b"
  shows "map (\<lambda>x. x\<lparr>scriptSig := []\<rparr>) (vin a) = map (\<lambda>x. x\<lparr>scriptSig := []\<rparr>) (vin b) \<and> vout a = vout b \<and>
    nVersion a = nVersion b \<and> nLockTime a = nLockTime b \<and> length (vin a) = length (vin b)"
proof -
  have "map (\<lambda>x. x\<lparr>scriptSig := []\<rparr>) (vin a) = map (\<lambda>x. x\<lparr>scriptSig := []\<rparr>) (vin b)"
    using assms arg_cong [of _ _ vin] unfolding same_but_sigs_def by (metis CTransaction.select_convs(2) CTransaction.surjective CTransaction.update_convs(2))
  then show ?thesis
    using assms map_eq_imp_length_eq [of _ "vin a" _ "vin b"]
    by (cases a; cases b) (auto simp: same_but_sigs_def)
qed

lemma SignatureHash_sigs:
  assumes "same_but_sigs a b"
  shows "SignatureHash E code a n t = SignatureHash E code b n t"
proof -
  note P = same_but_sigs_parts [OF assms]
  have bl: "blank_inputs c n (vin a) = blank_inputs c n (vin b)" for c using P by (simp add: blank_inputs_def)
  have "a\<lparr>vin := blank_inputs c n (vin a)\<rparr> = b\<lparr>vin := blank_inputs c n (vin b)\<rparr>" for c
    using P bl [of c] by (cases a; cases b) simp
  then have "sighash_tx code a n t = sighash_tx code b n t"
    using P by (simp only: sighash_tx_def Let_def)
  then show ?thesis by (simp only: SignatureHash_def)
qed

lemma same_but_sigs_set: "same_but_sigs (set_scriptSig tx n sig) tx"
proof -
  have "map (\<lambda>x. x\<lparr>scriptSig := []\<rparr>) ((vin tx)[n := (vin tx ! n)\<lparr>scriptSig := sig\<rparr>]) = map (\<lambda>x. x\<lparr>scriptSig := []\<rparr>) (vin tx)"
    by (cases "n < length (vin tx)") (auto intro!: nth_equalityI simp: nth_list_update)
  then show ?thesis by (simp add: same_but_sigs_def)
qed

lemma same_but_sigs_trans: "same_but_sigs a b \<Longrightarrow> same_but_sigs b c \<Longrightarrow> same_but_sigs a c"
  and same_but_sigs_sym: "same_but_sigs a b \<Longrightarrow> same_but_sigs b a"
  and same_but_sigs_refl [simp]: "same_but_sigs a a"
  by (simp_all add: same_but_sigs_def)


section \<open>An input we sign is accepted\<close>

text \<open>What our store has for an output to a key hash.\<close>

definition holds_key :: "ext \<Rightarrow> key_lib \<Rightarrow> key_store \<Rightarrow> uint160 \<Rightarrow> bytes \<Rightarrow> bytes \<Rightarrow> bool" where
  "holds_key E L K h pk sk \<longleftrightarrow> mapPubKeys K h = Some pk \<and> Hash160 E pk = h \<and> WalletCanSpendKey K pk \<and>
    GetWalletPrivKey E L K pk = Some sk \<and> priv_to_pub L sk = Some pk \<and> length pk \<le> MAX_SCRIPT_ELEMENT_SIZE"

lemma uint160_of_bytes_back [simp]: "uint160_of_bytes (bytes_of_uint160 h) = h"
  by (rule uint160_bytes_inverse)

lemma Solver_sign_p2pkh:
  assumes "holds_key E L K h pk sk" "CKey_Sign L sk hash = Some sig" "hash \<noteq> 0"
  shows "Solver_sign E L K (p2pkh h) hash t = Some (push_vch (sig @ [t]) @ push_vch pk, True)"
  using assms by (simp add: Solver_sign_def SolverTyped_p2pkh Solver_p2pkh SignOne_def holds_key_def opcodes)

lemma verify_p2pkh:
  assumes E: "openssl_bn E"
    and spk: "scriptPubKey (vout txFrom ! unat (out_n (prevout (vin tx ! n)))) = p2pkh h"
    and sig: "scriptSig (vin tx ! n) = push_vch s @ push_vch pk"
    and len: "length s \<le> MAX_SCRIPT_ELEMENT_SIZE" "length pk \<le> MAX_SCRIPT_ELEMENT_SIZE"
    and prev: "unat (out_n (prevout (vin tx ! n))) < length (vout txFrom)"
      "out_hash (prevout (vin tx ! n)) = SerializeHash_tx E txFrom"
    and ok: "Hash160 E pk = h" "CheckSig E s pk (FindAndDelete (push_vch s) (p2pkh h)) tx n nType strict"
  shows "VerifySignature E txFrom tx n nType strict v3 v4"
    and "EvalScript E (script_ctx_of tx n nType strict v3 v4)
      (scriptSig (vin tx ! n) @ push_opcode OP_CODESEPARATOR @ p2pkh h)"
proof -
  have push: "push_run E (ops_of (push_vch s @ push_vch pk)) [] = Some [pk, s]"
    using push_run_push_vch [of pk "[s]" E "[]"] len by (simp add: MAX_SCRIPT_ELEMENT_SIZE_def MAX_STACK_SIZE_def)
  have only: "IsPushOnly (push_vch s @ push_vch pk)"
    using IsPushOnly_push_vch [of pk "[]"] len by (simp add: MAX_SCRIPT_ELEMENT_SIZE_def)
  show eval: "EvalScript E (script_ctx_of tx n nType strict v3 v4)
      (scriptSig (vin tx ! n) @ push_opcode OP_CODESEPARATOR @ p2pkh h)"
    unfolding sig EvalScript_sig_then [OF only]
    using push ok by (simp add: accepts_p2pkh [OF E] cx_CheckSig_def script_ctx_of_def MAX_STACK_SIZE_def)
  show "VerifySignature E txFrom tx n nType strict v3 v4"
    using eval prev only by (simp add: VerifySignature_def Let_def spk p2pkh_not_p2sh sig)
qed

context key_library
begin

lemma CheckSig_of_sign:
  assumes "CKey_Sign L sk (SignatureHash E code tx n (uint t)) = Some sig" "priv_to_pub L sk = Some pk" "t \<noteq> 0"
  shows "CheckSig E (sig @ [t]) pk code tx n 0 strict"
  using CKey_Sign_good [OF assms(1), of t pk] assms by (simp add: CheckSig_def Let_def)

text \<open>Every node accepts the input, whatever rules are active, and later signatures leave it so.\<close>

lemma SignSignature_p2pkh:
  assumes E: "openssl_bn E" and n: "n < length (vin tx)"
    and prev: "unat (out_n (prevout (vin tx ! n))) < length (vout txFrom)"
      "out_hash (prevout (vin tx ! n)) = SerializeHash_tx E txFrom"
      "scriptPubKey (vout txFrom ! unat (out_n (prevout (vin tx ! n)))) = p2pkh h"
    and key: "holds_key E L K h pk sk"
    and sig: "CKey_Sign L sk (SignatureHash E (p2pkh h) tx n SIGHASH_ALL) = Some sig"
      "SignatureHash E (p2pkh h) tx n SIGHASH_ALL \<noteq> 0" "length sig \<noteq> 19"
  shows "\<exists>tx'. SignSignature E L K txFrom tx n SIGHASH_ALL [] = Some (tx', True) \<and> same_but_sigs tx' tx \<and>
    (\<forall>tx'' strict v3 v4. same_but_sigs tx'' tx' \<longrightarrow> scriptSig (vin tx'' ! n) = scriptSig (vin tx' ! n) \<longrightarrow>
      VerifySignature E txFrom tx'' n 0 strict v3 v4)"
proof -
  define t :: byte where "t = 1"
  define s where "s = sig @ [t]"
  define tx' where "tx' = set_scriptSig tx n (push_vch s @ push_vch pk)"
  have t: "t \<noteq> 0" "uint t = SIGHASH_ALL" "word_of_int SIGHASH_ALL = t" by (simp_all add: t_def SIGHASH_ALL_def)
  have good: "IsStrictDERSignature s" using CKey_Sign_good [OF sig(1), of t] by (simp add: s_def)
  then have slen: "9 \<le> length s" "length s \<le> 73" by (auto simp: IsStrictDERSignature_def split: if_split_asm)
  have "length s \<noteq> 20" using sig(3) by (simp add: s_def)
  then have fad: "FindAndDelete (push_vch s) (p2pkh h) = p2pkh h" using slen by (intro FindAndDelete_p2pkh) auto
  have pub: "priv_to_pub L sk = Some pk" "length pk \<le> MAX_SCRIPT_ELEMENT_SIZE" "Hash160 E pk = h"
    using key by (simp_all add: holds_key_def)
  have check: "CheckSig E s pk (FindAndDelete (push_vch s) (p2pkh h)) tx'' n 0 strict"
    if "same_but_sigs tx'' tx" for tx'' strict
    unfolding fad unfolding s_def
    by (rule CheckSig_of_sign [OF _ pub(1) t(1)]) (simp add: t sig(1) SignatureHash_sigs [OF that])
  have verify: "VerifySignature E txFrom tx'' n 0 strict v3 v4 \<and>
      EvalScript E (script_ctx_of tx'' n 0 strict v3 v4) (scriptSig (vin tx'' ! n) @ push_opcode OP_CODESEPARATOR @ p2pkh h)"
    if same: "same_but_sigs tx'' tx" and sc: "scriptSig (vin tx'' ! n) = push_vch s @ push_vch pk" for tx'' strict v3 v4
  proof -
    note P = same_but_sigs_parts [OF same]
    have len: "n < length (vin tx'')" using P n by simp
    have po: "prevout (vin tx'' ! n) = prevout (vin tx ! n)"
      using arg_cong [OF conjunct1 [OF P], of "\<lambda>l. prevout (l ! n)"] n len by simp
    show ?thesis
      using verify_p2pkh [OF E _ sc _ pub(2) _ _ pub(3) check [OF same]] slen prev
      by (simp add: po MAX_SCRIPT_ELEMENT_SIZE_def)
  qed
  have same': "same_but_sigs tx' tx" unfolding tx'_def by (rule same_but_sigs_set)
  have sc': "scriptSig (vin tx' ! n) = push_vch s @ push_vch pk" using n by (simp add: tx'_def)
  have "SignSignature E L K txFrom tx n SIGHASH_ALL [] = Some (tx', True)"
    using n prev verify [OF same' sc', of False False False] Solver_sign_p2pkh [OF key sig(1,2), of t]
    by (simp add: SignSignature_def Let_def t(3) tx'_def s_def p2pkh_not_p2sh)
  moreover have "VerifySignature E txFrom tx'' n 0 strict v3 v4"
    if "same_but_sigs tx'' tx'" "scriptSig (vin tx'' ! n) = scriptSig (vin tx' ! n)" for tx'' strict v3 v4
    using verify [OF same_but_sigs_trans [OF that(1) same']] that(2) sc' by simp
  ultimately show ?thesis using same' by blast
qed

end

end
