(* ===== verification/Signing.thy ===== *)
theory Signing
  imports Send KeyProps
begin

text \<open>
  Signing every input of a payment: it returns when the redeem scripts of the wallet do not
  run in a circle, and it changes nothing of the transaction but the scriptSigs.
\<close>

section \<open>Finding what is ours returns\<close>

text \<open>
  A redeem script leads on to another when it pays to a script hash itself; \<open>r\<close> falls along
  the way.  A circle would take scripts that contain each other's hashes.
\<close>

definition scripts_end :: "key_store \<Rightarrow> (bytes \<Rightarrow> nat) \<Rightarrow> bool" where
  "scripts_end K r \<longleftrightarrow> (\<forall>h s vs s'. mapScripts K h = Some s \<longrightarrow> SolverTyped s = Some (TX_SCRIPTHASH, vs) \<longrightarrow>
    mapScripts K (uint160_of_bytes (vs ! 0)) = Some s' \<longrightarrow> r s' < r s)"

lemma IsMine_sub:
  assumes "scripts_end K r" "mapScripts K h = Some s"
  shows "\<exists>b. IsMine K s = Some b"
  using assms(2)
proof (induction "r s" arbitrary: h s rule: less_induct)
  case less
  show ?case
  proof (cases "\<exists>vs s'. SolverTyped s = Some (TX_SCRIPTHASH, vs) \<and> mapScripts K (uint160_of_bytes (vs ! 0)) = Some s'")
    case True
    then obtain vs s' where sub: "SolverTyped s = Some (TX_SCRIPTHASH, vs)" "mapScripts K (uint160_of_bytes (vs ! 0)) = Some s'"
      by blast
    have "r s' < r s" using assms(1) less.prems sub unfolding scripts_end_def by blast
    from less.hyps [OF this sub(2)] show ?thesis
      using sub by (subst IsMine.simps) (simp add: GetWalletCScript_def)
  next
    case False
    then show ?thesis by (subst IsMine.simps) (auto simp: GetWalletCScript_def split: option.split)
  qed
qed

lemma IsMine_returns: "scripts_end K r \<Longrightarrow> \<exists>b. IsMine K s = Some b"
  using IsMine_sub [of K r] by (subst IsMine.simps) (auto simp: GetWalletCScript_def split: option.split)

section \<open>Signing\<close>

lemma Solver_sign_returns: "scripts_end K r \<Longrightarrow> \<exists>x. Solver_sign E L K s hash t = Some x"
  using IsMine_returns [of K r] by (auto simp: Solver_sign_def Let_def split: option.split)

lemma SignSignature_returns:
  assumes "scripts_end K r" "n < length (vin tx)" "unat (out_n (prevout (vin tx ! n))) < length (vout txFrom)"
  shows "SignSignature E L K txFrom tx n nType pre \<noteq> None"
proof -
  have ret: "Solver_sign E L K s hash t \<noteq> None" for s hash t using Solver_sign_returns [OF assms(1)] by simp
  show ?thesis
  proof
    assume "SignSignature E L K txFrom tx n nType pre = None"
    then show False using assms(2,3)
      by (simp add: SignSignature_def Let_def ret split: if_split_asm option.split_asm prod.split_asm bool.split_asm)
  qed
qed

lemma SignSignature_same:
  "SignSignature E L K txFrom tx n nType pre = Some (tx', ok) \<Longrightarrow> same_but_sigs tx' tx"
  by (auto simp: SignSignature_def Let_def same_but_sigs_set
      split: if_split_asm option.split_asm prod.split_asm bool.split_asm)

lemma same_prevouts: "same_but_sigs a b \<Longrightarrow> map prevout (vin a) = map prevout (vin b)"
proof -
  have strip: "map prevout (vin a) = map prevout (map (\<lambda>x. x\<lparr>scriptSig := []\<rparr>) (vin a))" for a by simp
  assume "same_but_sigs a b"
  then show ?thesis using same_but_sigs_parts [of a b] by (simp only: strip)
qed

lemma sign_inputs_same: "sign_inputs E L K froms k tx = Some tx' \<Longrightarrow> same_but_sigs tx' tx"
proof (induction froms arbitrary: k tx)
  case (Cons f froms)
  then obtain t1 ok where "SignSignature E L K f tx k SIGHASH_ALL [] = Some (t1, ok)" "sign_inputs E L K froms (k + 1) t1 = Some tx'"
    by (auto split: option.split_asm)
  then show ?case using Cons.IH SignSignature_same same_but_sigs_trans by blast
qed simp

text \<open>Input \<open>k + j\<close> spends an output of the \<open>j\<close>-th transaction given.\<close>

lemma sign_inputs_returns:
  assumes "scripts_end K r"
    "\<forall>j < length froms. k + j < length (vin tx) \<and>
      unat (out_n (map prevout (vin tx) ! (k + j))) < length (vout (froms ! j))"
  shows "\<exists>tx'. sign_inputs E L K froms k tx = Some tx'"
  using assms(2)
proof (induction froms arbitrary: k tx)
  case (Cons f froms)
  have k: "k < length (vin tx)" "unat (out_n (prevout (vin tx ! k))) < length (vout f)"
    using spec [OF Cons.prems, of 0] by (simp_all cong: conj_cong)
  obtain t1 ok where s: "SignSignature E L K f tx k SIGHASH_ALL [] = Some (t1, ok)"
    using SignSignature_returns [OF assms(1) k] by force
  have same: "map prevout (vin t1) = map prevout (vin tx)" "length (vin t1) = length (vin tx)"
    using same_prevouts [OF SignSignature_same [OF s]] by (simp, metis length_map)
  have "\<forall>j < length froms. k + 1 + j < length (vin t1) \<and>
      unat (out_n (map prevout (vin t1) ! (k + 1 + j))) < length (vout (froms ! j))"
  proof (intro allI impI)
    fix j assume "j < length froms"
    then show "k + 1 + j < length (vin t1) \<and> unat (out_n (map prevout (vin t1) ! (k + 1 + j))) < length (vout (froms ! j))"
      using spec [OF Cons.prems, of "Suc j"] by (simp only: same) (simp cong: conj_cong)
  qed
  from Cons.IH [OF this] show ?case using s by simp
qed simp

end
