(* ===== verification/WalletSelect.thy ===== *)
theory WalletSelect
  imports Wallet "HOL-Library.Multiset"
begin

text \<open>
  What the choice of coins promises: the coins chosen are distinct coins the wallet may spend
  and worth the target, and the choice fails exactly when all of them together are worth less.
  The random bits only decide which of the good choices is made.
\<close>

section \<open>Sums that do not wrap\<close>

lemma i64_pos: "0 \<le> n \<Longrightarrow> n < 2 ^ 63 \<Longrightarrow> i64 n = n"
  by (intro i64_id) (simp add: in_i64_def)

lemma sum_list_pos: "(\<And>x. x \<in> set xs \<Longrightarrow> (0::int) \<le> f x) \<Longrightarrow> 0 \<le> sum_list (map f xs)"
  by (induction xs) auto

lemma foldl_i64:
  assumes "\<And>x. x \<in> set xs \<Longrightarrow> 0 \<le> f x" "0 \<le> n" "n + sum_list (map f xs) < 2 ^ 63"
  shows "foldl (\<lambda>n x. i64 (n + f x)) n xs = n + sum_list (map f xs)"
  using assms
proof (induction xs arbitrary: n)
  case (Cons x xs)
  have "0 \<le> f x" "0 \<le> sum_list (map f xs)" using Cons.prems(1) by (auto intro: sum_list_pos)
  then show ?case using Cons.IH [of "n + f x"] Cons.prems by (simp add: i64_pos)
qed simp

section \<open>What the wallet holds\<close>

definition own_value :: "key_store \<Rightarrow> CTransaction \<Rightarrow> int" where
  "own_value K tx = sum_list (map (CTxOut_GetCredit K) (vout tx))"

text \<open>No output of ours is negative, and together they stay within an \<^verbatim>\<open>int64\<close>.\<close>

definition wallet_money :: "key_store \<Rightarrow> wallet \<Rightarrow> bool" where
  "wallet_money K W \<longleftrightarrow>
    (\<forall>h w. fmlookup W h = Some w \<longrightarrow> list_all (\<lambda>o1. 0 \<le> CTxOut_GetCredit K o1) (vout (mtx w))) \<and>
    (\<Sum>(h, w)\<leftarrow>sorted_list_of_fmap W. own_value K (mtx w)) < I64_MAX"

lemma own_value_pos: "wallet_money K W \<Longrightarrow> fmlookup W h = Some w \<Longrightarrow> 0 \<le> own_value K (mtx w)"
  unfolding own_value_def wallet_money_def by (intro sum_list_pos) (auto simp: list_all_iff)

lemma sum_list_member: "x \<in> set xs \<Longrightarrow> (\<And>y. y \<in> set xs \<Longrightarrow> (0::int) \<le> f y) \<Longrightarrow> f x \<le> sum_list (map f xs)"
proof (induction xs)
  case (Cons y ys)
  have "0 \<le> sum_list (map f ys)" "0 \<le> f y" using Cons.prems by (auto intro: sum_list_pos)
  then show ?case using Cons by (cases "x = y") force+
qed simp

lemma own_value_bound:
  assumes "wallet_money K W" "fmlookup W h = Some w"
  shows "own_value K (mtx w) < I64_MAX"
proof -
  have "(case (h, w) of (h, w) \<Rightarrow> own_value K (mtx w)) \<le> (\<Sum>(h, w)\<leftarrow>sorted_list_of_fmap W. own_value K (mtx w))"
    using assms own_value_pos [OF assms(1)] by (intro sum_list_member) (auto simp: entries_lookup)
  then show ?thesis using assms(1) by (simp add: wallet_money_def)
qed

lemma tx_GetCredit_own:
  assumes "wallet_money K W" "fmlookup W h = Some w"
  shows "tx_GetCredit K (mtx w) = own_value K (mtx w)"
  using assms own_value_bound [OF assms]
  by (auto simp: tx_GetCredit_def own_value_def I64_MAX_def wallet_money_def list_all_iff foldl_i64)

lemma usable_value_own:
  assumes "wallet_money K W" "fmlookup W h = Some w" "usable_value E nd K W m t w = Some n"
  shows "0 < n" "n = own_value K (mtx w)" "n = wtx_GetCredit E nd K w"
  using assms tx_GetCredit_own [OF assms(1,2)]
  by (auto simp: usable_value_def wtx_GetCredit_def Let_def split: if_split_asm)

section \<open>The scan\<close>

definition usable :: "(CWalletTx \<Rightarrow> int option) \<Rightarrow> (uint256 \<times> CWalletTx) list \<Rightarrow> (int \<times> uint256) list" where
  "usable val es = concat (map (\<lambda>(h, w). case val w of None \<Rightarrow> [] | Some n \<Rightarrow> [(n, h)]) es)"

lemma usable_simps [simp]:
  "usable val [] = []"
  "usable val ((h, w) # es) = (case val w of None \<Rightarrow> [] | Some n \<Rightarrow> [(n, h)]) @ usable val es"
  by (simp_all add: usable_def)

lemma set_usable: "(n, h) \<in> set (usable val es) \<longleftrightarrow> (\<exists>w. (h, w) \<in> set es \<and> val w = Some n)"
  by (induction es) (auto split: option.split)

lemma usable_distinct: "distinct (map fst es) \<Longrightarrow> distinct (map snd (usable val es))"
proof (induction es)
  case (Cons e es)
  then show ?case by (cases e) (force simp: set_usable split: option.split)
qed simp

definition total_of :: "(int \<times> uint256) list \<Rightarrow> int" where
  "total_of us = sum_list (map fst us)"

lemma total_of_simps [simp]: "total_of [] = 0" "total_of (u # us) = fst u + total_of us" "total_of (us @ vs) = total_of us + total_of vs"
  by (simp_all add: total_of_def)

lemma total_of_pos: "(\<And>u. u \<in> set us \<Longrightarrow> 0 < fst u) \<Longrightarrow> 0 \<le> total_of us"
  unfolding total_of_def by (intro sum_list_pos) (auto intro: less_imp_le)

lemma total_of_filter_le: "(\<And>u. u \<in> set us \<Longrightarrow> 0 < fst u) \<Longrightarrow> total_of (filter P us) \<le> total_of us"
proof (induction us)
  case (Cons u us)
  then have "0 < fst u" "total_of (filter P us) \<le> total_of us" by auto
  then show ?case by simp
qed simp

lemma usable_total:
  assumes "\<And>h w. (h, w) \<in> set es \<Longrightarrow> 0 \<le> f w" "\<And>h w n. (h, w) \<in> set es \<Longrightarrow> val w = Some n \<Longrightarrow> n = f w"
  shows "total_of (usable val es) \<le> (\<Sum>(h, w)\<leftarrow>es. f w)"
  using assms
proof (induction es)
  case (Cons e es)
  obtain h w where e: "e = (h, w)" by (cases e)
  have w: "0 \<le> f w" "val w = Some n \<Longrightarrow> n = f w" for n using Cons.prems e by (auto, blast)
  have "total_of (usable val es) \<le> (\<Sum>(h, w)\<leftarrow>es. f w)" using Cons.IH Cons.prems by (meson list.set_intros(2))
  then show ?case using e w by (auto split: option.split)
qed simp

text \<open>Either a coin of just the value, or all coins below it and the least above.\<close>

lemma scan_coins_exact: "scan_coins val T es vV tot lg = Inl h \<Longrightarrow> (T, h) \<in> set (usable val es)"
proof (induction es arbitrary: vV tot lg)
  case (Cons e es)
  then show ?case by (cases e) (auto split: option.split_asm if_split_asm)
qed simp

lemma scan_coins_rest:
  assumes "scan_coins val T es vV tot lg = Inr (vV', tot', lg')"
    "0 \<le> tot" "tot + total_of (usable val es) < 2 ^ 63" "\<forall>u \<in> set (usable val es). 0 < fst u"
  shows "vV' = vV @ filter (\<lambda>u. fst u < T) (usable val es) \<and>
    tot' = tot + total_of (filter (\<lambda>u. fst u < T) (usable val es)) \<and>
    (\<forall>u \<in> set (usable val es). fst u \<noteq> T)"
  using assms
proof (induction es arbitrary: vV tot lg)
  case (Cons e es)
  obtain h w where e: "e = (h, w)" by (cases e)
  have t: "0 \<le> total_of (usable val es)" using Cons.prems(4) e by (intro total_of_pos) auto
  show ?case
  proof (cases "val w")
    case (Some n)
    have n: "0 < n" "tot + n + total_of (usable val es) < 2 ^ 63" using Cons.prems e Some by auto
    have "i64 (tot + n) = tot + n" using Cons.prems(2) n t by (intro i64_pos) auto
    then show ?thesis
      using Cons.IH [of "vV @ [(n, h)]" "tot + n" lg] Cons.IH [of vV tot lg] Cons.IH [of vV tot "(n, Some h)"]
        Cons.prems e Some n t
      by (auto split: if_split_asm)
  qed (use Cons e in simp)
qed simp

lemma scan_coins_larger:
  assumes "scan_coins val T es vV tot lg = Inr (vV', tot', lg')"
  shows "(lg' = lg \<or> (\<exists>h. snd lg' = Some h \<and> (fst lg', h) \<in> set (usable val es) \<and> T < fst lg')) \<and>
    (\<forall>u \<in> set (usable val es). T < fst u \<longrightarrow> fst lg' \<le> fst u) \<and> fst lg' \<le> fst lg"
  using assms
proof (induction es arbitrary: vV tot lg)
  case (Cons e es)
  obtain h w where e: "e = (h, w)" by (cases e)
  show ?case
  proof (cases "val w")
    case (Some n)
    then show ?thesis
      using Cons.IH [of "vV @ [(n, h)]" "i64 (tot + n)" lg] Cons.IH [of vV tot lg] Cons.IH [of vV tot "(n, Some h)"]
        Cons.prems e
      by (force split: if_split_asm)
  qed (use Cons e in simp)
qed simp

section \<open>The approximation\<close>

text \<open>What a choice of some of the values is worth.\<close>

definition picked :: "int list \<Rightarrow> bool list \<Rightarrow> int" where
  "picked vs f = sum_list (map fst (filter snd (zip vs f)))"

lemma picked_simps [simp]: "picked [] f = 0" "picked vs [] = 0" "picked (v # vs) (b # f) = (if b then v else 0) + picked vs f"
  by (simp_all add: picked_def)

lemma picked_update:
  "length f = length vs \<Longrightarrow> i < length vs \<Longrightarrow> \<not> f ! i \<Longrightarrow> picked vs (f[i := True]) = picked vs f + vs ! i"
proof (induction vs arbitrary: f i)
  case (Cons v vs)
  then show ?case by (cases f; cases i) auto
qed simp

lemma picked_bounds:
  "length f = length vs \<Longrightarrow> \<forall>v \<in> set vs. 0 < v \<Longrightarrow> 0 \<le> picked vs f \<and> picked vs f \<le> sum_list vs"
proof (induction vs arbitrary: f)
  case (Cons v vs)
  then show ?case by (cases f) force+
qed simp

lemma picked_all: "picked vs (replicate (length vs) True) = sum_list vs"
  by (induction vs) simp_all

lemma picked_none: "picked vs (replicate (length vs) False) = 0"
  by (induction vs) simp_all

definition approx_ok :: "int \<Rightarrow> int list \<Rightarrow> approx \<Rightarrow> bool" where
  "approx_ok T vs a \<longleftrightarrow>
    length (vfIncluded a) = length vs \<and> nTotal a = picked vs (vfIncluded a) \<and> nTotal a < T \<and>
    length (vfBest a) = length vs \<and> nBest a = picked vs (vfBest a) \<and> T \<le> nBest a"

lemma approx_step_ok:
  assumes ok: "approx_ok T vs a" and i: "i < length vs" and free: "nPass = 0 \<longrightarrow> \<not> vfIncluded a ! i"
    and vs: "\<forall>v \<in> set vs. 0 < v" "sum_list vs < 2 ^ 63"
  shows "approx_ok T vs (approx_step rnd nPass T vs i a)"
    "\<forall>j. i < j \<longrightarrow> vfIncluded (approx_step rnd nPass T vs i a) ! j = vfIncluded a ! j"
proof -
  have len: "length (vfIncluded a) = length vs" using ok by (simp add: approx_ok_def)
  have up: "picked vs ((vfIncluded a)[i := True]) = nTotal a + vs ! i" if "\<not> vfIncluded a ! i"
    using picked_update [OF len i that] ok by (simp add: approx_ok_def)
  have w1: "i64 (nTotal a + vs ! i) = nTotal a + vs ! i" if "\<not> vfIncluded a ! i"
    using picked_bounds [of "(vfIncluded a)[i := True]" vs] up [OF that] len vs by (intro i64_pos) auto
  have w2: "i64 (nTotal a) = nTotal a"
    using picked_bounds [OF len vs(1)] ok vs(2) by (intro i64_pos) (auto simp: approx_ok_def)
  have undo: "(vfIncluded a)[i := True, i := False] = vfIncluded a" if "\<not> vfIncluded a ! i"
    using that i len by (metis (full_types) list_update_id list_update_overwrite)
  show "approx_ok T vs (approx_step rnd nPass T vs i a)"
    using ok free w1 w2 up undo by (auto simp: approx_ok_def approx_step_def Let_def)
  show "\<forall>j. i < j \<longrightarrow> vfIncluded (approx_step rnd nPass T vs i a) ! j = vfIncluded a ! j"
    by (auto simp: approx_step_def Let_def)
qed

lemma approx_pass_ok:
  assumes "approx_ok T vs a" "nPass = 0 \<longrightarrow> (\<forall>j < length vs. \<not> vfIncluded a ! j)"
    "\<forall>v \<in> set vs. 0 < v" "sum_list vs < 2 ^ 63"
  shows "approx_ok T vs (approx_pass rnd nPass T vs a)"
proof -
  have "approx_ok T vs (fold (approx_step rnd nPass T vs) [m ..< length vs] a)"
    if "m \<le> length vs" "approx_ok T vs a" "nPass = 0 \<longrightarrow> (\<forall>j. m \<le> j \<longrightarrow> j < length vs \<longrightarrow> \<not> vfIncluded a ! j)" for m a
    using that
  proof (induction "length vs - m" arbitrary: m a)
    case (Suc d)
    then have m: "m < length vs" by simp
    have free: "nPass = 0 \<longrightarrow> \<not> vfIncluded a ! m" using Suc.prems m by simp
    note step = approx_step_ok [OF Suc.prems(2) m free assms(3,4), of rnd]
    have "nPass = 0 \<longrightarrow> (\<forall>j. Suc m \<le> j \<longrightarrow> j < length vs \<longrightarrow> \<not> vfIncluded (approx_step rnd nPass T vs m a) ! j)"
      using step(2) Suc.prems(3) by (metis Suc_le_eq less_imp_le)
    then have "approx_ok T vs (fold (approx_step rnd nPass T vs) [Suc m ..< length vs] (approx_step rnd nPass T vs m a))"
      using Suc.hyps(1) [of "Suc m"] Suc.hyps(2) step(1) m by simp
    then show ?case using m by (simp add: upt_conv_Cons)
  qed simp
  then show ?thesis using assms by (simp add: approx_pass_def)
qed

lemma approx_reps_ok:
  assumes vs: "\<forall>v \<in> set vs. 0 < v" "sum_list vs < 2 ^ 63" and T: "0 < T"
    and best: "length (vfBest a) = length vs" "nBest a = picked vs (vfBest a)" "T \<le> nBest a"
  shows "length (vfBest (approx_reps rnd T vs n a)) = length vs \<and>
    nBest (approx_reps rnd T vs n a) = picked vs (vfBest (approx_reps rnd T vs n a)) \<and>
    T \<le> nBest (approx_reps rnd T vs n a)"
  using best
proof (induction n arbitrary: a)
  case (Suc n)
  let ?a0 = "a\<lparr>vfIncluded := replicate (length vs) False, nTotal := 0, fReachedTarget := False\<rparr>"
  have "approx_ok T vs ?a0" using Suc.prems T by (simp add: approx_ok_def picked_none)
  then have "approx_ok T vs (approx_pass rnd 0 T vs ?a0)" by (intro approx_pass_ok vs) auto
  then have "approx_ok T vs (approx_rep rnd T vs a)"
    by (auto simp: approx_rep_def Let_def intro!: approx_pass_ok vs)
  then show ?case using Suc.IH [of "approx_rep rnd T vs a"] Suc.prems by (auto simp: approx_ok_def)
qed simp

section \<open>The choice\<close>

lemma picked_coins:
  "length f = length us \<Longrightarrow> total_of (map fst (filter snd (zip us f))) = picked (map fst us) f"
proof (induction us arbitrary: f)
  case (Cons u us)
  then show ?case by (cases f) (auto simp: total_of_def)
qed simp

lemma picked_mset: "mset (map fst (filter snd (zip us f))) \<subseteq># mset us"
proof (induction us arbitrary: f)
  case (Cons u us)
  show ?case
  proof (cases f)
    case f: (Cons b g)
    have "mset (map fst (filter snd (zip us g))) \<subseteq># add_mset u (mset us)"
      using Cons.IH [of g] by (metis mset_subset_eq_add_right subset_mset.order_trans add_mset_add_single mset_subset_eq_add_left)
    then show ?thesis using Cons.IH [of g] f by simp
  qed simp
qed simp

lemma total_of_mset: "mset us = mset vs \<Longrightarrow> total_of us = total_of vs"
  unfolding total_of_def by (metis mset_map sum_mset_sum_list)

definition spendable :: "ext \<Rightarrow> node \<Rightarrow> key_store \<Rightarrow> wallet \<Rightarrow> int \<Rightarrow> int \<Rightarrow> (int \<times> uint256) list" where
  "spendable E nd K W nConfMine nConfTheirs =
    usable (usable_value E nd K W nConfMine nConfTheirs) (sorted_list_of_fmap W)"

lemma spendable_iff:
  "(n, h) \<in> set (spendable E nd K W m t) \<longleftrightarrow> (\<exists>w. fmlookup W h = Some w \<and> usable_value E nd K W m t w = Some n)"
  by (simp add: spendable_def set_usable entries_lookup)

lemma spendable_distinct: "distinct (map snd (spendable E nd K W m t))"
  by (simp add: spendable_def usable_distinct entries_distinct)

lemma spendable_pos: "wallet_money K W \<Longrightarrow> u \<in> set (spendable E nd K W m t) \<Longrightarrow> 0 < fst u \<and> fst u < I64_MAX"
  using usable_value_own own_value_bound by (cases u) (fastforce simp: spendable_iff)

lemma spendable_total:
  assumes "wallet_money K W"
  shows "0 \<le> total_of (spendable E nd K W m t)" "total_of (spendable E nd K W m t) < I64_MAX"
proof -
  show "0 \<le> total_of (spendable E nd K W m t)" using spendable_pos [OF assms] by (intro total_of_pos) blast
  have "total_of (spendable E nd K W m t) \<le> (\<Sum>(h, w)\<leftarrow>sorted_list_of_fmap W. own_value K (mtx w))"
    unfolding spendable_def using own_value_pos [OF assms] usable_value_own(2) [OF assms]
    by (intro usable_total) (auto simp: entries_lookup)
  then show "total_of (spendable E nd K W m t) < I64_MAX" using assms by (simp add: wallet_money_def)
qed

text \<open>A choice: distinct coins among those given, worth the target.\<close>

definition good_choice :: "int \<Rightarrow> (int \<times> uint256) list \<Rightarrow> uint256 list \<Rightarrow> bool" where
  "good_choice T us cs \<longleftrightarrow> (\<exists>vs. mset vs \<subseteq># mset us \<and> cs = map snd vs \<and> T \<le> total_of vs)"

lemma good_one: "u \<in> set us \<Longrightarrow> T \<le> fst u \<Longrightarrow> good_choice T us [snd u]"
  unfolding good_choice_def by (rule exI [of _ "[u]"]) simp

lemma approx_choice:
  fixes rnd :: "nat \<Rightarrow> bool" and n k :: nat
  assumes us: "\<And>u. u \<in> set us \<Longrightarrow> 0 < fst u" "total_of us < 2 ^ 63" and T: "0 < T" "T \<le> total_of us"
  defines "a \<equiv> approx_reps rnd T (map fst us) n
    \<lparr>vfIncluded = [], nTotal = 0, fReachedTarget = False, vfBest = replicate (length us) True, nBest = total_of us, nDraws = k\<rparr>"
  shows "good_choice T us (map snd (map fst (filter snd (zip us (vfBest a)))))"
proof -
  have "length (vfBest a) = length (map fst us) \<and> nBest a = picked (map fst us) (vfBest a) \<and> T \<le> nBest a"
    unfolding a_def using us T picked_all [of "map fst us"] by (intro approx_reps_ok) (auto simp: total_of_def)
  then have "T \<le> total_of (map fst (filter snd (zip us (vfBest a))))" by (simp add: picked_coins)
  moreover have "mset (map fst (filter snd (zip us (vfBest a)))) \<subseteq># mset us"
    by (rule picked_mset)
  ultimately show ?thesis unfolding good_choice_def by blast
qed

lemma SelectCoinsMinConf_ok:
  assumes W: "wallet_money K W" and T: "0 < T"
  shows "case fst (SelectCoinsMinConf E nd K W addr rnd T m t k) of
      None \<Rightarrow> total_of (spendable E nd K W m t) < T
    | Some cs \<Rightarrow> good_choice T (spendable E nd K W m t) cs"
proof -
  let ?U = "spendable E nd K W m t"
  note pos = spendable_pos [OF W] and tot = spendable_total [OF W]
  have sum: "0 + total_of ?U < 2 ^ 63" using tot(2) [of E nd m t] by (simp add: I64_MAX_def)
  show ?thesis
  proof (cases "scan_coins (usable_value E nd K W m t) T (sorted_list_of_fmap W) [] 0 (I64_MAX, None)")
    case (Inl h)
    then have "(T, h) \<in> set ?U" unfolding spendable_def by (rule scan_coins_exact)
    then show ?thesis using good_one [of "(T, h)" ?U T] Inl by (simp add: SelectCoinsMinConf_def)
  next
    case (Inr r)
    obtain vV tt nl p where r: "r = (vV, tt, nl, p)" by (metis prod.exhaust)
    note scan = Inr [unfolded r]
    let ?low = "filter (\<lambda>u. fst u < T) ?U"
    have low: "vV = ?low" "tt = total_of ?low" "\<forall>u \<in> set ?U. fst u \<noteq> T"
      using scan_coins_rest [OF scan order_refl sum [unfolded spendable_def]] pos unfolding spendable_def by auto
    have big: "(nl, p) = (I64_MAX, None) \<or> (\<exists>h. p = Some h \<and> (nl, h) \<in> set ?U \<and> T < nl)"
        "\<forall>u \<in> set ?U. T < fst u \<longrightarrow> nl \<le> fst u"
      using scan_coins_larger [OF scan] unfolding spendable_def by auto
    have larger: "good_choice T ?U [h]" if "p = Some h" for h
      using big(1) that good_one [of "(nl, h)" ?U T] by auto
    show ?thesis
    proof (cases "tt < T")
      case True
      have "total_of ?U < T" if "p = None"
      proof -
        have "\<forall>u \<in> set ?U. fst u < T" using that big low(3) pos by (metis linorder_neqE not_less option.distinct(1) prod.inject)
        then have "?low = ?U" by simp
        then show ?thesis using low(2) True by simp
      qed
      then show ?thesis using scan True larger
        by (cases p) (simp_all add: SelectCoinsMinConf_def)
    next
      case False
      define us where "us = rev (sort_key (\<lambda>(n, h). (n, addr h)) vV)"
      have us: "mset us = mset ?low" by (simp add: us_def low)
      have total: "total_of us = tt" using total_of_mset [OF us] low by simp
      have len: "length vV = length us" by (simp add: us_def)
      have le: "tt \<le> total_of ?U" unfolding low(2) using pos by (intro total_of_filter_le) blast
      have mem: "u \<in> set us \<Longrightarrow> u \<in> set ?U" for u using mset_eq_setD [OF us] by auto
      have us_pos: "u \<in> set us \<Longrightarrow> 0 < fst u" for u using mem pos by blast
      let ?a = "approx_reps rnd T (map fst us) 1000
        \<lparr>vfIncluded = [], nTotal = 0, fReachedTarget = False, vfBest = replicate (length us) True, nBest = total_of us, nDraws = k\<rparr>"
      have "good_choice T us (map snd (map fst (filter snd (zip us (vfBest ?a)))))"
        using us_pos T False total le sum by (intro approx_choice) auto
      moreover have "mset us \<subseteq># mset ?U" using us by (simp add: multiset_filter_subset)
      ultimately have "good_choice T ?U (map snd (map fst (filter snd (zip us (vfBest ?a)))))"
        unfolding good_choice_def by (meson subset_mset.order_trans)
      then show ?thesis using scan False larger
        by (auto simp: SelectCoinsMinConf_def Let_def us_def [symmetric] total len split: option.split)
    qed
  qed
qed

lemma total_of_sub:
  assumes "mset vs \<subseteq># mset us" "\<And>u. u \<in> set us \<Longrightarrow> 0 < fst u"
  shows "total_of vs \<le> total_of us"
proof -
  obtain rest where rest: "mset (vs @ rest) = mset us" using assms(1) by (metis mset_append ex_mset subset_mset.le_iff_add)
  have "set rest \<subseteq> set us" using mset_eq_setD [OF rest] by auto
  then have "0 \<le> total_of rest" using assms(2) by (intro total_of_pos) blast
  then show ?thesis using total_of_mset [OF rest] by simp
qed

lemma good_choice_total: "good_choice T us cs \<Longrightarrow> (\<And>u. u \<in> set us \<Longrightarrow> 0 < fst u) \<Longrightarrow> T \<le> total_of us"
  using total_of_sub by (fastforce simp: good_choice_def)

lemma good_choice_mono:
  "set (us :: (int \<times> uint256) list) \<subseteq> set us' \<Longrightarrow> distinct us \<Longrightarrow> distinct us' \<Longrightarrow> good_choice T us cs \<Longrightarrow> good_choice T us' cs"
  using subset_imp_msubset_mset_set [of "set us" "set us'"]
  by (auto simp: good_choice_def mset_set_set intro: subset_mset.order_trans)

lemma usable_value_relaxed:
  "usable_value E nd K W m t w = Some n \<Longrightarrow> m' \<le> m \<Longrightarrow> t' \<le> t \<Longrightarrow> usable_value E nd K W m' t' w = Some n"
  by (auto simp: usable_value_def Let_def split: if_split_asm)

lemma spendable_relaxed:
  "m' \<le> m \<Longrightarrow> t' \<le> t \<Longrightarrow> set (spendable E nd K W m t) \<subseteq> set (spendable E nd K W m' t')"
proof (rule subsetI)
  fix u assume le: "m' \<le> m" "t' \<le> t" and u: "u \<in> set (spendable E nd K W m t)"
  obtain n h where nh: "u = (n, h)" by (cases u)
  then obtain w where "fmlookup W h = Some w" "usable_value E nd K W m t w = Some n" using u by (auto simp: spendable_iff)
  then show "u \<in> set (spendable E nd K W m' t')" using usable_value_relaxed [OF _ le] nh by (auto simp: spendable_iff)
qed

text \<open>
  The rules are relaxed only as far as the target needs: the coins come from those of six
  confirmations (one, of our own) if they suffice.
\<close>

lemma SelectCoins_ok:
  assumes W: "wallet_money K W" and T: "0 < T"
  shows "case fst (SelectCoins E nd K W addr rnd T k) of
      None \<Rightarrow> total_of (spendable E nd K W 0 1) < T
    | Some cs \<Rightarrow> good_choice T (spendable E nd K W 0 1) cs \<and>
        (T \<le> total_of (spendable E nd K W 1 6) \<longrightarrow> good_choice T (spendable E nd K W 1 6) cs)"
proof -
  have dist: "distinct (spendable E nd K W m t)" for m t using spendable_distinct by (metis distinct_map)
  have relax: "good_choice T (spendable E nd K W 0 1) cs" if "good_choice T (spendable E nd K W m t) cs" "0 \<le> m" "1 \<le> t" for m t cs
    by (rule good_choice_mono [OF spendable_relaxed dist dist that(1)]) (use that in auto)
  note one = SelectCoinsMinConf_ok [OF W T, of E nd _ _ addr rnd]
  obtain r1 k1 where 1: "SelectCoinsMinConf E nd K W addr rnd T 1 6 k = (r1, k1)" by fastforce
  obtain r2 k2 where 2: "SelectCoinsMinConf E nd K W addr rnd T 1 1 k1 = (r2, k2)" by fastforce
  obtain r3 k3 where 3: "SelectCoinsMinConf E nd K W addr rnd T 0 1 k2 = (r3, k3)" by fastforce
  show ?thesis
  proof (cases r1)
    case (Some cs)
    then show ?thesis using one [of 1 6 k] relax [of 1 6 cs] 1 by (simp add: SelectCoins_def)
  next
    case strict: None
    then have strict': "total_of (spendable E nd K W 1 6) < T" using one [of 1 6 k] 1 by simp
    show ?thesis
    proof (cases r2)
      case (Some cs)
      then show ?thesis using one [of 1 1 k1] relax [of 1 1 cs] 1 2 strict strict' by (simp add: SelectCoins_def)
    next
      case None
      then show ?thesis using one [of 0 1 k2] 1 2 3 strict strict' by (cases r3) (simp_all add: SelectCoins_def)
    qed
  qed
qed

end
