(* ===== verification/SendProps.thy ===== *)
theory SendProps
  imports Signing WalletSelect
begin

text \<open>
  What building a payment promises: the payee gets what was asked for, what the inputs are worth
  beyond that is the change and the fee, the fee is what the rules and the setting ask for, and
  the retries come to an end.
\<close>

section \<open>What the inputs are worth\<close>

text \<open>Entries stand under their hashes, and an output's number fits its field.\<close>

definition wallet_keyed :: "ext \<Rightarrow> wallet \<Rightarrow> bool" where
  "wallet_keyed E W \<longleftrightarrow> (\<forall>h w. fmlookup W h = Some w \<longrightarrow> tx_hash E w = h \<and> length (vout (mtx w)) < 2 ^ 32)"

definition spent_value :: "wallet \<Rightarrow> COutPoint \<Rightarrow> int" where
  "spent_value W op =
    (case fmlookup W (out_hash op) of None \<Rightarrow> 0 | Some w \<Rightarrow> nValue (vout (mtx w) ! unat (out_n op)))"

definition input_value :: "wallet \<Rightarrow> CTransaction \<Rightarrow> int" where
  "input_value W tx = sum_list (map (spent_value W) (prevouts tx))"

definition output_value :: "CTransaction \<Rightarrow> int" where
  "output_value tx = sum_list (map nValue (vout tx))"

lemma own_outputs_less: "n \<in> set (own_outputs K tx) \<Longrightarrow> n < length (vout tx)"
  by (simp add: own_outputs_def)

lemma own_outputs_value: "(\<Sum>n\<leftarrow>own_outputs K tx. nValue (vout tx ! n)) = own_value K tx"
proof -
  have "(\<Sum>n\<leftarrow>filter (\<lambda>n. Mine K (os ! n)) [0 ..< length os]. nValue (os ! n)) = sum_list (map (CTxOut_GetCredit K) os)" for os
  proof (induction os rule: rev_induct)
    case (snoc x xs)
    have "filter (\<lambda>n. Mine K ((xs @ [x]) ! n)) [0 ..< length xs] = filter (\<lambda>n. Mine K (xs ! n)) [0 ..< length xs]"
      by (rule filter_cong) (auto simp: nth_append)
    moreover have "(\<Sum>n\<leftarrow>filter (\<lambda>n. Mine K (xs ! n)) [0 ..< length xs]. nValue ((xs @ [x]) ! n)) =
        (\<Sum>n\<leftarrow>filter (\<lambda>n. Mine K (xs ! n)) [0 ..< length xs]. nValue (xs ! n))"
      by (rule arg_cong [of _ _ sum_list], rule map_cong) (auto simp: nth_append)
    ultimately show ?case using snoc by (simp add: CTxOut_GetCredit_def)
  qed simp
  then show ?thesis by (simp add: own_outputs_def own_value_def)
qed

lemma coin_inputs_value:
  assumes "wallet_keyed E W" "\<forall>w \<in> set cs. fmlookup W (tx_hash E w) = Some w"
  shows "sum_list (map (spent_value W) (map (\<lambda>(t, i). prevout i) (coin_inputs E K cs))) =
    (\<Sum>w\<leftarrow>cs. own_value K (mtx w))"
  using assms(2)
proof (induction cs)
  case (Cons w cs)
  have "sum_list (map (\<lambda>n. spent_value W \<lparr>out_hash = tx_hash E w, out_n = word_of_nat n\<rparr>) (own_outputs K (mtx w))) =
      (\<Sum>n\<leftarrow>own_outputs K (mtx w). nValue (vout (mtx w) ! n))"
  proof (rule arg_cong [of _ _ sum_list], rule map_cong)
    fix n assume n: "n \<in> set (own_outputs K (mtx w))"
    have "length (vout (mtx w)) < 2 ^ 32" using assms(1) Cons.prems by (auto simp: wallet_keyed_def)
    then have "unat (word_of_nat n :: u32) = n" using own_outputs_less [OF n] by (simp add: unat_of_nat)
    then show "spent_value W \<lparr>out_hash = tx_hash E w, out_n = word_of_nat n\<rparr> = nValue (vout (mtx w) ! n)"
      using Cons.prems by (simp add: spent_value_def)
  qed simp
  then show ?case using Cons by (simp add: coin_inputs_def comp_def own_outputs_value)
qed (simp add: coin_inputs_def)

text \<open>Each input spends an output of ours, unspent as far as the wallet knows, and no two the same.\<close>

definition spends_ours :: "key_store \<Rightarrow> wallet \<Rightarrow> CTransaction \<Rightarrow> bool" where
  "spends_ours K W tx \<longleftrightarrow> distinct (prevouts tx) \<and>
    (\<forall>op \<in> set (prevouts tx). \<exists>w. fmlookup W (out_hash op) = Some w \<and> \<not> fSpent w \<and>
      unat (out_n op) < length (vout (mtx w)) \<and> Mine K (vout (mtx w) ! unat (out_n op)))"

lemma coin_inputs_ours:
  assumes "distinct (map (tx_hash E) cs)" "\<forall>w \<in> set cs. length (vout (mtx w)) < 2 ^ 32"
  shows "distinct (map (\<lambda>(t, i). prevout i) (coin_inputs E K cs)) \<and>
    (\<forall>op \<in> set (map (\<lambda>(t, i). prevout i) (coin_inputs E K cs)). \<exists>w \<in> set cs. out_hash op = tx_hash E w \<and>
      unat (out_n op) < length (vout (mtx w)) \<and> Mine K (vout (mtx w) ! unat (out_n op)))"
  using assms
proof (induction cs)
  case (Cons w cs)
  have id: "unat (word_of_nat n :: u32) = n" if "n \<in> set (own_outputs K (mtx w))" for n
  proof -
    have "n < length (vout (mtx w))" using own_outputs_less [OF that] .
    then have "n < 2 ^ 32" using Cons.prems(2) by (meson list.set_intros(1) less_trans)
    then show ?thesis by (simp add: unat_of_nat)
  qed
  have "inj_on (\<lambda>n. word_of_nat n :: u32) (set (own_outputs K (mtx w)))" by (rule inj_onI) (metis id)
  moreover have "distinct (own_outputs K (mtx w))" by (simp add: own_outputs_def)
  ultimately have "distinct (map (\<lambda>n. \<lparr>out_hash = tx_hash E w, out_n = word_of_nat n\<rparr>) (own_outputs K (mtx w)))"
    by (auto simp: distinct_map inj_on_def)
  moreover have "unat (word_of_nat n :: u32) < length (vout (mtx w)) \<and> Mine K (vout (mtx w) ! unat (word_of_nat n :: u32))"
    if "n \<in> set (own_outputs K (mtx w))" for n
    using that id [OF that] by (simp add: own_outputs_def)
  moreover have "prevout b \<noteq> \<lparr>out_hash = tx_hash E w, out_n = m\<rparr>" "\<lparr>out_hash = tx_hash E w, out_n = m\<rparr> \<noteq> prevout b"
    if "(a, b) \<in> set (coin_inputs E K cs)" for a b m
  proof -
    obtain v where "v \<in> set cs" "out_hash (prevout b) = tx_hash E v" using Cons \<open>(a, b) \<in> _\<close> by fastforce
    then have "out_hash (prevout b) \<noteq> tx_hash E w"
      using Cons.prems(1) by (metis distinct.simps(2) image_eqI list.set_map list.simps(9))
    then show "prevout b \<noteq> \<lparr>out_hash = tx_hash E w, out_n = m\<rparr>" "\<lparr>out_hash = tx_hash E w, out_n = m\<rparr> \<noteq> prevout b"
      by (metis COutPoint.select_convs(1))+
  qed
  moreover have "coin_inputs E K (w # cs) = map (\<lambda>n. (mtx w, \<lparr>prevout = \<lparr>out_hash = tx_hash E w, out_n = word_of_nat n\<rparr>,
      scriptSig = [], nSequence = SEQUENCE_REPLACEABLE\<rparr>)) (own_outputs K (mtx w)) @ coin_inputs E K cs"
    by (simp add: coin_inputs_def)
  ultimately show ?case using Cons.IH Cons.prems by (auto simp: comp_def)
qed (simp add: coin_inputs_def)

section \<open>The coins chosen\<close>

lemma coin_list_ok:
  assumes W: "wallet_money K W" "wallet_keyed E W" and vs: "mset vs \<subseteq># mset (spendable E nd K W m t)"
  shows "\<forall>w \<in> set (coin_list addr W (map snd vs)). fmlookup W (tx_hash E w) = Some w"
    "coins_value E nd K (coin_list addr W (map snd vs)) = total_of vs"
    "(\<Sum>w\<leftarrow>coin_list addr W (map snd vs). own_value K (mtx w)) = total_of vs"
proof -
  let ?w = "\<lambda>h. the (fmlookup W h)"
  have mem: "\<exists>w. fmlookup W h = Some w \<and> usable_value E nd K W m t w = Some n" if "(n, h) \<in> set vs" for n h
    using mset_subset_eqD [OF vs, of "(n, h)"] that by (simp add: spendable_iff)
  have val: "own_value K (mtx (?w (snd u))) = fst u" "wtx_GetCredit E nd K (?w (snd u)) = fst u" "0 < fst u" if "u \<in> set vs" for u
    using mem [of "fst u" "snd u"] that usable_value_own [OF W(1)] by auto
  show "\<forall>w \<in> set (coin_list addr W (map snd vs)). fmlookup W (tx_hash E w) = Some w"
  proof
    fix w assume "w \<in> set (coin_list addr W (map snd vs))"
    then obtain n h where nh: "(n, h) \<in> set vs" "w = ?w h" by (auto simp: coin_list_def)
    then obtain w' where "fmlookup W h = Some w'" using mem by blast
    then show "fmlookup W (tx_hash E w) = Some w" using nh W(2) by (simp add: wallet_keyed_def)
  qed
  have perm: "sum_list (map f (coin_list addr W (map snd vs))) = (\<Sum>u\<leftarrow>vs. f (?w (snd u)))" for f :: "CWalletTx \<Rightarrow> int"
  proof -
    have "mset (map f (coin_list addr W (map snd vs))) = mset (map (\<lambda>u. f (?w (snd u))) vs)"
      by (simp add: coin_list_def multiset.map_comp comp_def)
    then show ?thesis by (metis sum_mset_sum_list)
  qed
  show own: "(\<Sum>w\<leftarrow>coin_list addr W (map snd vs). own_value K (mtx w)) = total_of vs"
    unfolding perm total_of_def using val by (intro arg_cong [of _ _ sum_list] map_cong) auto
  have credit: "(\<Sum>w\<leftarrow>coin_list addr W (map snd vs). wtx_GetCredit E nd K w) = total_of vs"
    unfolding perm total_of_def using val by (intro arg_cong [of _ _ sum_list] map_cong) auto
  have "total_of vs < I64_MAX"
    using total_of_sub [OF vs] spendable_pos [OF W(1)] spendable_total(2) [OF W(1), of E nd m t] by fastforce
  moreover have "0 \<le> wtx_GetCredit E nd K w" if "w \<in> set (coin_list addr W (map snd vs))" for w
    using that val(2,3) by (force simp: coin_list_def)
  ultimately show "coins_value E nd K (coin_list addr W (map snd vs)) = total_of vs"
    unfolding coins_value_def using foldl_i64 [of "coin_list addr W (map snd vs)" "wtx_GetCredit E nd K" 0] credit
    by (simp add: I64_MAX_def)
qed

lemma coin_list_unspent:
  assumes W: "wallet_keyed E W" and vs: "mset vs \<subseteq># mset (spendable E nd K W m t)"
  shows "distinct (map (tx_hash E) (coin_list addr W (map snd vs)))"
    "\<forall>w \<in> set (coin_list addr W (map snd vs)). \<not> fSpent w"
proof -
  have mem: "\<exists>w. fmlookup W h = Some w \<and> usable_value E nd K W m t w = Some n" if "(n, h) \<in> set vs" for n h
    using mset_subset_eqD [OF vs, of "(n, h)"] that by (simp add: spendable_iff)
  obtain rest where "mset (vs @ rest) = mset (spendable E nd K W m t)" using vs by (metis mset_append ex_mset subset_mset.le_iff_add)
  then have "mset (map snd (vs @ rest)) = mset (map snd (spendable E nd K W m t))" by (metis mset_map)
  then have "distinct (map snd vs)" using mset_eq_imp_distinct_iff spendable_distinct by (metis distinct_append map_append)
  moreover have "map (tx_hash E) (coin_list addr W (map snd vs)) = sort_key addr (map snd vs)"
  proof -
    have "tx_hash E (the (fmlookup W h)) = h" if "h \<in> set (map snd vs)" for h
      using mem that W by (fastforce simp: wallet_keyed_def)
    then have "map (tx_hash E \<circ> (\<lambda>h. the (fmlookup W h))) (sort_key addr (map snd vs)) = sort_key addr (map snd vs)"
      by (intro map_idI) simp
    then show ?thesis by (simp add: coin_list_def)
  qed
  ultimately show "distinct (map (tx_hash E) (coin_list addr W (map snd vs)))" by simp
  show "\<forall>w \<in> set (coin_list addr W (map snd vs)). \<not> fSpent w"
    using mem by (fastforce simp: coin_list_def usable_value_def split: if_split_asm)
qed

section \<open>One round\<close>

definition next_hd :: "wallet_env \<Rightarrow> hd_state \<Rightarrow> hd_state" where
  "next_hd Env H = fst (DeriveNextHDChangeKey (wE Env) (wL Env) (wD Env) (wWritten Env) H)"

lemma AddKeyIfMissing_scripts: "AddKeyIfMissing E L pub priv written K = (K', ok) \<Longrightarrow> mapScripts K' = mapScripts K"
  by (auto simp: AddKeyIfMissing_def AddKey_def AddCryptedKey_def split: if_split_asm option.split_asm)

lemma next_hd_scripts: "mapScripts (hd_keys (next_hd Env H)) = mapScripts (hd_keys H)"
  by (auto simp: next_hd_def DeriveNextHDChangeKey_def take_derived_def Let_def
      dest: AddKeyIfMissing_scripts split: option.split prod.split)

lemma next_hd_none: "\<not> HaveHDSeed H \<Longrightarrow> next_hd Env H = H"
  by (simp add: next_hd_def DeriveNextHDChangeKey_def)

lemma fill_outputs_keeps:
  "fill_outputs Env S spk nPay T val cs = (S', r) \<Longrightarrow> \<exists>n. S' = S\<lparr>ws_hd := (next_hd Env ^^ n) (ws_hd S)\<rparr>"
proof -
  assume f: "fill_outputs Env S spk nPay T val cs = (S', r)"
  have "S' = S \<or> S' = S\<lparr>ws_hd := next_hd Env (ws_hd S)\<rparr>"
    using f by (auto simp: fill_outputs_def change_key_def next_hd_def Let_def
        split: if_split_asm prod.split_asm option.split_asm)
  then show ?thesis
  proof
    assume "S' = S"
    then show ?thesis by (intro exI [of _ 0]) simp
  next
    assume "S' = S\<lparr>ws_hd := next_hd Env (ws_hd S)\<rparr>"
    then show ?thesis by (intro exI [of _ 1]) simp
  qed
qed

text \<open>
  No change key still to be derived owns an output of the wallet's transactions: the next ones
  do not make more of the coins ours.
\<close>

definition keys_settled :: "wallet_env \<Rightarrow> wallet_state \<Rightarrow> bool" where
  "keys_settled Env S \<longleftrightarrow> (\<forall>n h w. fmlookup (ws_wallet S) h = Some w \<longrightarrow>
    list_all (\<lambda>o1. Mine (hd_keys ((next_hd Env ^^ n) (ws_hd S))) o1 = Mine (ws_keys S) o1) (vout (mtx w)))"

lemma settled_no_seed: "\<not> HaveHDSeed (ws_hd S) \<Longrightarrow> keys_settled Env S"
proof -
  assume "\<not> HaveHDSeed (ws_hd S)"
  then have "(next_hd Env ^^ n) (ws_hd S) = ws_hd S" for n by (induction n) (simp_all add: next_hd_none)
  then show ?thesis by (simp add: keys_settled_def list_all_iff)
qed

lemma settled_later:
  assumes "keys_settled Env S" "S' = S\<lparr>ws_rnd := k, ws_hd := (next_hd Env ^^ n) (ws_hd S)\<rparr>"
  shows "keys_settled Env S'"
proof -
  have "(next_hd Env ^^ j) (ws_hd S') = (next_hd Env ^^ (j + n)) (ws_hd S)" for j
    using assms(2) by (simp add: funpow_add)
  then show ?thesis using assms unfolding keys_settled_def by (simp add: list_all_iff)
qed

lemma money_settled:
  assumes "\<forall>h w. fmlookup W h = Some w \<longrightarrow> list_all (\<lambda>o1. Mine K' o1 = Mine K o1) (vout (mtx w))"
  shows "wallet_money K W = wallet_money K' W"
    "fmlookup W h = Some w \<Longrightarrow> own_outputs K (mtx w) = own_outputs K' (mtx w)"
proof -
  have credit: "CTxOut_GetCredit K' o1 = CTxOut_GetCredit K o1" if "fmlookup W h = Some w" "o1 \<in> set (vout (mtx w))" for h w o1
    using assms that by (auto simp: CTxOut_GetCredit_def list_all_iff)
  have own: "own_value K' (mtx w) = own_value K (mtx w)" if "fmlookup W h = Some w" for h w
    unfolding own_value_def using credit [OF that] by (intro arg_cong [of _ _ sum_list] map_cong) auto
  have "(\<Sum>(h, w)\<leftarrow>sorted_list_of_fmap W. own_value K' (mtx w)) = (\<Sum>(h, w)\<leftarrow>sorted_list_of_fmap W. own_value K (mtx w))"
    using own by (intro arg_cong [of _ _ sum_list] map_cong) (auto simp: entries_lookup)
  moreover have "list_all (\<lambda>o1. 0 \<le> CTxOut_GetCredit K' o1) (vout (mtx w)) = list_all (\<lambda>o1. 0 \<le> CTxOut_GetCredit K o1) (vout (mtx w))"
    if "fmlookup W h = Some w" for h w
    using credit [OF that] by (auto simp: list_all_iff)
  ultimately show "wallet_money K W = wallet_money K' W" by (simp add: wallet_money_def)
  show "own_outputs K (mtx w) = own_outputs K' (mtx w)" if "fmlookup W h = Some w"
    unfolding own_outputs_def using assms that by (intro filter_cong) (auto simp: list_all_iff)
qed

lemma coin_inputs_same:
  "(\<And>w. w \<in> set cs \<Longrightarrow> own_outputs K (mtx w) = own_outputs K' (mtx w)) \<Longrightarrow> coin_inputs E K cs = coin_inputs E K' cs"
  unfolding coin_inputs_def by (intro arg_cong [of _ _ concat] map_cong) auto

text \<open>What a wallet must be like for sums not to wrap and outputs to be found.\<close>

definition wallet_sound :: "wallet_env \<Rightarrow> wallet_state \<Rightarrow> bool" where
  "wallet_sound Env S \<longleftrightarrow> wallet_keyed (wE Env) (ws_wallet S) \<and> wallet_money (ws_keys S) (ws_wallet S) \<and> keys_settled Env S"

lemma settledD:
  assumes "keys_settled Env S"
  shows "\<forall>h w. fmlookup (ws_wallet S) h = Some w \<longrightarrow>
    list_all (\<lambda>o1. Mine (hd_keys ((next_hd Env ^^ n) (ws_hd S))) o1 = Mine (ws_keys S) o1) (vout (mtx w))"
  using assms by (simp add: keys_settled_def)

lemma sound_later:
  assumes "wallet_sound Env S" "S' = S\<lparr>ws_rnd := k, ws_hd := (next_hd Env ^^ n) (ws_hd S)\<rparr>"
  shows "wallet_sound Env S'"
  using assms settled_later [OF _ assms(2)] money_settled(1) [OF settledD, of Env S n] by (simp add: wallet_sound_def)

text \<open>The payment: the payee first, then perhaps the change, and every input may be replaced.\<close>

definition payment_form :: "bytes \<Rightarrow> int \<Rightarrow> CTransaction \<Rightarrow> bool" where
  "payment_form spk nPay tx \<longleftrightarrow>
    (vout tx = [\<lparr>nValue = nPay, scriptPubKey = spk\<rparr>] \<or>
     (\<exists>c. vout tx = [\<lparr>nValue = nPay, scriptPubKey = spk\<rparr>, c] \<and> 0 < nValue c)) \<and>
    list_all (\<lambda>i. nSequence i = SEQUENCE_REPLACEABLE) (vin tx)"

lemma same_sequences: "same_but_sigs a b \<Longrightarrow> map nSequence (vin a) = map nSequence (vin b)"
proof -
  have strip: "map nSequence (vin a) = map nSequence (map (\<lambda>x. x\<lparr>scriptSig := []\<rparr>) (vin a))" for a by simp
  assume "same_but_sigs a b"
  then show ?thesis using same_but_sigs_parts [of a b] by (simp only: strip)
qed

lemma fill_outputs_ok:
  assumes "fill_outputs Env S spk nPay T val cs = (S', Some outs)" "nPay \<le> T" "T \<le> val" "val < 2 ^ 63" "0 \<le> nPay"
  shows "sum_list (map nValue outs) = nPay + (val - T)"
    "outs = [\<lparr>nValue = nPay, scriptPubKey = spk\<rparr>] \<or> (\<exists>c. outs = [\<lparr>nValue = nPay, scriptPubKey = spk\<rparr>, c] \<and> 0 < nValue c)"
  using assms i64_pos [of "val - T"] by (auto simp: fill_outputs_def Let_def split: if_split_asm prod.split_asm)

lemma funpow_later: "(f ^^ m) ((f ^^ n) x) = (f ^^ (m + n)) x"
  by (simp add: funpow_add)

lemma spendable_settled:
  assumes "\<forall>h w. fmlookup W h = Some w \<longrightarrow> list_all (\<lambda>o1. Mine K' o1 = Mine K o1) (vout (mtx w))"
  shows "spendable E nd K' W m t = spendable E nd K W m t"
proof -
  have prev: "prev_mine K' W i = prev_mine K W i" for i
    using assms by (auto simp: prev_mine_def Let_def list_all_iff split: option.split)
  have credit: "tx_GetCredit K' (mtx w) = tx_GetCredit K (mtx w)" if "fmlookup W h = Some w" for h w
    unfolding tx_GetCredit_def CTxOut_GetCredit_def
    by (rule foldl_cong) (use assms that in \<open>auto simp: list_all_iff\<close>)
  have "usable_value E nd K' W m t w = usable_value E nd K W m t w" if "fmlookup W h = Some w" for h w
    using credit [OF that] by (simp add: usable_value_def tx_GetDebit_def CTxIn_GetDebit_def prev wtx_GetCredit_def)
  then show ?thesis unfolding spendable_def usable_def
    by (intro arg_cong [of _ _ concat] map_cong) (auto simp: entries_lookup)
qed

text \<open>No key for the change can be had: the phrase's next one, or one of a coin's outputs.\<close>

definition change_fails :: "wallet_env \<Rightarrow> wallet_state \<Rightarrow> bool" where
  "change_fails Env S \<longleftrightarrow> (\<exists>k n cs. cs \<noteq> [] \<and> set cs \<subseteq> fmran' (ws_wallet S) \<and>
    snd (change_key Env (S\<lparr>ws_rnd := k, ws_hd := (next_hd Env ^^ n) (ws_hd S)\<rparr>) cs) = [])"

lemma change_fails_later:
  "change_fails Env (S\<lparr>ws_rnd := k, ws_hd := (next_hd Env ^^ n) (ws_hd S)\<rparr>) \<Longrightarrow> change_fails Env S"
  by (auto simp: change_fails_def funpow_later)

lemma create_pass_ok:
  assumes S: "wallet_sound Env S" and amount: "0 \<le> nPay" "0 \<le> nFee" "0 < nPay + nFee" "nPay + nFee < 2 ^ 63"
    and pass: "create_pass Env spk nPay wNew nFee S = Some (S', r)"
  shows "\<exists>k n. S' = S\<lparr>ws_rnd := k, ws_hd := (next_hd Env ^^ n) (ws_hd S)\<rparr>"
    "r = Some w \<Longrightarrow> input_value (ws_wallet S) (mtx w) = output_value (mtx w) + nFee \<and>
      payment_form spk nPay (mtx w) \<and> spends_ours (ws_keys S) (ws_wallet S) (mtx w) \<and> nFee < I64_MAX \<and> w\<lparr>mtx := mtx wNew\<rparr> = wNew"
    "r = None \<Longrightarrow> total_of (spendable (wE Env) (ws_node S) (ws_keys S) (ws_wallet S) 0 1) < nPay + nFee \<or> change_fails Env S"
proof -
  let ?E = "wE Env" and ?W = "ws_wallet S" and ?K = "ws_keys S" and ?T = "nPay + nFee"
  let ?less = "total_of (spendable ?E (ws_node S) ?K ?W 0 1) < ?T"
  have ok: "wallet_keyed ?E ?W" "wallet_money ?K ?W" "keys_settled Env S" using S by (simp_all add: wallet_sound_def)
  have T: "i64 ?T = ?T" using amount by (intro i64_pos) auto
  obtain c k where sel: "SelectCoins ?E (ws_node S) ?K ?W (wAddr Env) (wRnd Env) ?T (ws_rnd S) = (c, k)" by fastforce
  have sel_ok: "case c of None \<Rightarrow> ?less | Some cs \<Rightarrow> good_choice ?T (spendable ?E (ws_node S) ?K ?W 0 1) cs"
    using SelectCoins_ok [OF ok(2) amount(3), of ?E "ws_node S" "wAddr Env" "wRnd Env" "ws_rnd S"] sel
    by (auto split: option.split)
  have "(r = None \<longrightarrow> ?less \<or> change_fails Env S) \<and> (\<exists>k n. S' = S\<lparr>ws_rnd := k, ws_hd := (next_hd Env ^^ n) (ws_hd S)\<rparr>) \<and>
    (r = Some w \<longrightarrow> input_value ?W (mtx w) = output_value (mtx w) + nFee \<and>
      payment_form spk nPay (mtx w) \<and> spends_ours ?K ?W (mtx w) \<and> nFee < I64_MAX \<and> w\<lparr>mtx := mtx wNew\<rparr> = wNew)" for w
  proof (cases c)
    case None
    then have "S' = S\<lparr>ws_rnd := k\<rparr> \<and> r = None" using pass sel by (simp add: create_pass_def Let_def T)
    moreover have "S\<lparr>ws_rnd := k\<rparr> = S\<lparr>ws_rnd := k, ws_hd := (next_hd Env ^^ 0) (ws_hd S)\<rparr>" by (cases S) simp
    ultimately show ?thesis using sel_ok None by (metis option.case(1) option.distinct(1))
  next
    case (Some cs)
    then obtain vs where vs: "mset vs \<subseteq># mset (spendable ?E (ws_node S) ?K ?W 0 1)" "cs = map snd vs" "?T \<le> total_of vs"
      using sel_ok by (auto simp: good_choice_def)
    let ?cs = "coin_list (wAddr Env) ?W cs"
    note cl = coin_list_ok [OF ok(2,1) vs(1), of "wAddr Env", folded vs(2)]
    have small: "total_of vs < I64_MAX"
      using total_of_sub [OF vs(1)] spendable_pos [OF ok(2)] spendable_total(2) [OF ok(2), of ?E "ws_node S" 0 1] by fastforce
    obtain S2 o1 where fill: "fill_outputs Env (S\<lparr>ws_rnd := k\<rparr>) spk nPay ?T (total_of vs) ?cs = (S2, o1)" by fastforce
    obtain n where S2: "S2 = S\<lparr>ws_rnd := k, ws_hd := (next_hd Env ^^ n) (ws_hd S)\<rparr>"
      using fill_outputs_keeps [OF fill] by auto
    have pass': "(case o1 of None \<Rightarrow> Some (S2, None) | Some outs \<Rightarrow>
        (case sign_inputs ?E (wL Env) (ws_keys S2) (map fst (coin_inputs ?E (ws_keys S2) ?cs)) 0
            ((mtx wNew)\<lparr>vin := map snd (coin_inputs ?E (ws_keys S2) ?cs), vout := outs\<rparr>) of
          None \<Rightarrow> None | Some tx \<Rightarrow> Some (S2, Some (wNew\<lparr>mtx := tx\<rparr>)))) = Some (S', r)"
      using pass sel Some cl(2) fill by (simp add: create_pass_def Let_def T)
    have "S' = S2" using pass' by (auto split: option.split_asm)
    moreover have "input_value ?W (mtx w) = output_value (mtx w) + nFee \<and>
      payment_form spk nPay (mtx w) \<and> spends_ours ?K ?W (mtx w) \<and> nFee < I64_MAX \<and> w\<lparr>mtx := mtx wNew\<rparr> = wNew" if r: "r = Some w"
    proof -
      obtain outs where o1: "o1 = Some outs" using pass' r by (cases o1) auto
      obtain tx where tx: "sign_inputs ?E (wL Env) (ws_keys S2) (map fst (coin_inputs ?E (ws_keys S2) ?cs)) 0
          ((mtx wNew)\<lparr>vin := map snd (coin_inputs ?E (ws_keys S2) ?cs), vout := outs\<rparr>) = Some tx"
        and w: "w = wNew\<lparr>mtx := tx\<rparr>"
        using pass' r unfolding o1 by (auto split: option.split_asm)
      note same = sign_inputs_same [OF tx]
      have fo: "sum_list (map nValue outs) = nPay + (total_of vs - ?T)"
        "outs = [\<lparr>nValue = nPay, scriptPubKey = spk\<rparr>] \<or> (\<exists>c. outs = [\<lparr>nValue = nPay, scriptPubKey = spk\<rparr>, c] \<and> 0 < nValue c)"
        using fill_outputs_ok [OF fill [unfolded o1]] amount vs(3) small by (simp_all add: I64_MAX_def)
      have outs: "vout tx = outs" using same_but_sigs_parts [OF same] by simp
      have ins: "prevouts tx = map (\<lambda>(t, i). prevout i) (coin_inputs ?E (ws_keys S2) ?cs)"
        using same_prevouts [OF same] by (simp add: prevouts_def comp_def case_prod_unfold)
      have "coin_inputs ?E (ws_keys S2) ?cs = coin_inputs ?E ?K ?cs"
        using money_settled(2) [OF settledD [OF ok(3), of n]] cl(1) S2 by (intro coin_inputs_same) force
      then have ins': "prevouts tx = map (\<lambda>(t, i). prevout i) (coin_inputs ?E ?K ?cs)" using ins by simp
      then have "input_value ?W tx = total_of vs"
        using coin_inputs_value [OF ok(1) cl(1)] cl(3) by (simp add: input_value_def)
      moreover have "spends_ours ?K ?W tx"
      proof -
        have d: "distinct (map (tx_hash ?E) ?cs)" and u: "\<forall>w \<in> set ?cs. \<not> fSpent w"
          using coin_list_unspent [OF ok(1) vs(1), of "wAddr Env"] vs(2) by simp_all
        have l: "\<forall>w \<in> set ?cs. length (vout (mtx w)) < 2 ^ 32" using cl(1) ok(1) by (auto simp: wallet_keyed_def)
        show ?thesis using coin_inputs_ours [OF d l, of ?K] cl(1) u unfolding spends_ours_def ins' by metis
      qed
      moreover have "list_all (\<lambda>i. nSequence i = SEQUENCE_REPLACEABLE) (vin tx)"
      proof -
        have "nSequence ` set (vin tx) \<subseteq> {SEQUENCE_REPLACEABLE}"
          using arg_cong [OF same_sequences [OF same], of set] by (auto simp: coin_inputs_def)
        then show ?thesis by (auto simp: list_all_iff)
      qed
      ultimately show ?thesis using w outs fo amount vs(3) small by (simp add: output_value_def payment_form_def)
    qed
    moreover have "change_fails Env S" if r: "r = None"
    proof -
      have "o1 = None" using pass' r by (cases o1) (auto split: option.split_asm)
      then obtain S3 where key: "change_key Env (S\<lparr>ws_rnd := k\<rparr>) ?cs = (S3, [])"
        using fill by (auto simp: fill_outputs_def Let_def split: if_split_asm prod.split_asm)
      have "vs \<noteq> []" using vs(3) amount(3) by auto
      then have "?cs \<noteq> []" using vs(2) by (simp add: coin_list_def) (metis length_0_conv length_map length_sort)
      moreover have "set ?cs \<subseteq> fmran' ?W" using cl(1) by (auto intro: fmran'I)
      moreover have "S\<lparr>ws_rnd := k\<rparr> = S\<lparr>ws_rnd := k, ws_hd := (next_hd Env ^^ 0) (ws_hd S)\<rparr>" by (cases S) simp
      ultimately show ?thesis using key unfolding change_fails_def by (metis snd_conv)
    qed
    ultimately show ?thesis using S2 by blast
  qed
  then show "r = None \<Longrightarrow> ?less \<or> change_fails Env S" "\<exists>k n. S' = S\<lparr>ws_rnd := k, ws_hd := (next_hd Env ^^ n) (ws_hd S)\<rparr>"
    "r = Some w \<Longrightarrow> input_value ?W (mtx w) = output_value (mtx w) + nFee \<and>
      payment_form spk nPay (mtx w) \<and> spends_ours ?K ?W (mtx w) \<and> nFee < I64_MAX \<and> w\<lparr>mtx := mtx wNew\<rparr> = wNew" by blast+
qed

section \<open>The rounds end\<close>

lemma coin_inputs_range:
  assumes "\<forall>w \<in> set cs. length (vout (mtx w)) < 2 ^ 32" "(t, i) \<in> set (coin_inputs E K cs)"
  shows "unat (out_n (prevout i)) < length (vout t)"
proof -
  obtain w n where w: "w \<in> set cs" "n \<in> set (own_outputs K (mtx w))" "t = mtx w" "out_n (prevout i) = word_of_nat n"
    using assms(2) by (auto simp: coin_inputs_def)
  then have n: "n < length (vout t)" using own_outputs_less by simp
  then have "unat (word_of_nat n :: u32) = n" using assms(1) w by (simp add: unat_of_nat) (metis less_trans mod_less)
  then show ?thesis using n w(4) by simp
qed

lemma create_pass_returns:
  assumes S: "wallet_sound Env S" and r: "scripts_end (ws_keys S) r"
    and amount: "0 \<le> nPay" "0 \<le> nFee" "0 < nPay + nFee" "nPay + nFee < 2 ^ 63"
  shows "create_pass Env spk nPay wNew nFee S \<noteq> None"
proof
  let ?E = "wE Env" and ?W = "ws_wallet S" and ?K = "ws_keys S" and ?T = "nPay + nFee"
  assume none: "create_pass Env spk nPay wNew nFee S = None"
  have ok: "wallet_keyed ?E ?W" "wallet_money ?K ?W" using S by (simp_all add: wallet_sound_def)
  have T: "i64 ?T = ?T" using amount by (intro i64_pos) auto
  obtain c k where sel: "SelectCoins ?E (ws_node S) ?K ?W (wAddr Env) (wRnd Env) ?T (ws_rnd S) = (c, k)" by fastforce
  have sel_ok: "case c of None \<Rightarrow> True | Some cs \<Rightarrow> good_choice ?T (spendable ?E (ws_node S) ?K ?W 0 1) cs"
    using SelectCoins_ok [OF ok(2) amount(3), of ?E "ws_node S" "wAddr Env" "wRnd Env" "ws_rnd S"] sel
    by (auto split: option.split)
  obtain cs where c: "c = Some cs" using none sel by (cases c) (simp_all add: create_pass_def Let_def T)
  then obtain vs where vs: "mset vs \<subseteq># mset (spendable ?E (ws_node S) ?K ?W 0 1)" "cs = map snd vs"
    using sel_ok by (auto simp: good_choice_def)
  let ?cs = "coin_list (wAddr Env) ?W cs"
  note cl = coin_list_ok(1) [OF ok(2,1) vs(1), of "wAddr Env", folded vs(2)]
  obtain S2 o1 where fill: "fill_outputs Env (S\<lparr>ws_rnd := k\<rparr>) spk nPay ?T (coins_value ?E (ws_node S) ?K ?cs) ?cs = (S2, o1)"
    by fastforce
  obtain n where S2: "S2 = S\<lparr>ws_rnd := k, ws_hd := (next_hd Env ^^ n) (ws_hd S)\<rparr>"
    using fill_outputs_keeps [OF fill] by auto
  have "mapScripts (hd_keys ((next_hd Env ^^ n) H)) = mapScripts (hd_keys H)" for H
    by (induction n) (simp_all add: next_hd_scripts)
  then have r2: "scripts_end (ws_keys S2) r" using r S2 by (simp add: scripts_end_def)
  let ?ins = "coin_inputs ?E (ws_keys S2) ?cs"
  have range: "unat (out_n (prevout i)) < length (vout t)" if "(t, i) \<in> set ?ins" for t i
    by (rule coin_inputs_range [OF _ that]) (use cl ok(1) in \<open>auto simp: wallet_keyed_def\<close>)
  have "\<exists>tx'. sign_inputs ?E (wL Env) (ws_keys S2) (map fst ?ins) 0 (t\<lparr>vin := map snd ?ins, vout := outs\<rparr>) = Some tx'" for t outs
    by (rule sign_inputs_returns [OF r2]) (auto intro!: range simp: prod_eq_iff)
  then show False using none sel c fill
    by (auto simp: create_pass_def Let_def T split: option.split_asm) (metis option.distinct(1))
qed

lemma fee_needed_bounds:
  assumes "0 \<le> nPayTxFeePerKB Env" "nPayTxFeePerKB Env \<le> COIN"
  shows "0 \<le> fee_needed Env w" "fee_needed Env w \<le> MAX_MONEY"
proof -
  have size: "int (n mod 2 ^ 32) < 2 ^ 32" for n :: nat by (simp add: of_nat_less_iff flip: of_nat_power)
  have min: "0 \<le> GetMinFee True (mtx w) \<and> GetMinFee True (mtx w) \<le> MAX_MONEY"
  proof -
    have "GetSerializeSize_CTransaction (mtx w) mod 2 ^ 32 div 1000 \<le> 4294967"
      by (rule order_trans [OF div_le_mono [of _ "2 ^ 32 - 1"]]) (simp_all add: less_Suc_eq_le [symmetric])
    then show ?thesis by (simp add: GetMinFee_def Let_def MAX_MONEY_def COIN_def CENT_def)
  qed
  let ?n = "int (GetSerializeSize_CWalletTx w mod 2 ^ 32)"
  have "nPayTxFeePerKB Env * ?n \<le> COIN * 2 ^ 32" "0 \<le> nPayTxFeePerKB Env * ?n"
    using assms size [of "GetSerializeSize_CWalletTx w"] by (intro mult_mono mult_nonneg_nonneg; simp add: COIN_def)+
  moreover from this have "i64 (i64 (nPayTxFeePerKB Env * ?n) + 999) = nPayTxFeePerKB Env * ?n + 999"
    by (simp add: i64_pos COIN_def)
  ultimately have "0 \<le> FeeForSize (nPayTxFeePerKB Env) (GetSerializeSize_CWalletTx w)"
    "FeeForSize (nPayTxFeePerKB Env) (GetSerializeSize_CWalletTx w) \<le> MAX_MONEY"
    by (simp_all add: FeeForSize_def Let_def MAX_MONEY_def COIN_def)
  then show "0 \<le> fee_needed Env w" "fee_needed Env w \<le> MAX_MONEY" using min by (simp_all add: fee_needed_def)
qed

lemma spends_ours_settled:
  assumes "\<forall>h w. fmlookup W h = Some w \<longrightarrow> list_all (\<lambda>o1. Mine K' o1 = Mine K o1) (vout (mtx w))"
  shows "spends_ours K' W tx = spends_ours K W tx"
  using assms unfolding spends_ours_def list_all_iff by (metis nth_mem)

text \<open>What is promised of a payment \<open>w\<close> from a fee of \<open>nFee\<close> on.\<close>

definition good_payment :: "wallet_env \<Rightarrow> bytes \<Rightarrow> int \<Rightarrow> CWalletTx \<Rightarrow> key_store \<Rightarrow> wallet \<Rightarrow> int \<Rightarrow> CWalletTx \<Rightarrow> bool" where
  "good_payment Env spk nPay wNew K W nFee w \<longleftrightarrow>
    payment_form spk nPay (mtx w) \<and> spends_ours K W (mtx w) \<and>
    (let paid = input_value W (mtx w) - output_value (mtx w)
     in nFee \<le> paid \<and> fee_needed Env (wNew\<lparr>mtx := mtx w\<rparr>) \<le> paid)"

lemma set_merkle_mtx [simp]: "mtx (AddSupportingTransactions E nd W w) = mtx w"
  by (simp add: AddSupportingTransactions_def set_merkle_def split: prod.split)

lemma scripts_later: "mapScripts (hd_keys ((next_hd Env ^^ n) H)) = mapScripts (hd_keys H)"
  by (induction n) (simp_all add: next_hd_scripts)

text \<open>A fee that a round finds to be needed: that of a payment of this form from these coins.\<close>

definition round_fee :: "wallet_env \<Rightarrow> bytes \<Rightarrow> int \<Rightarrow> CWalletTx \<Rightarrow> key_store \<Rightarrow> wallet \<Rightarrow> int \<Rightarrow> bool" where
  "round_fee Env spk nPay wNew K W nF \<longleftrightarrow>
    (\<exists>tx. payment_form spk nPay tx \<and> spends_ours K W tx \<and> nF = fee_needed Env (wNew\<lparr>mtx := tx\<rparr>))"

text \<open>Why there is no payment: the coins do not cover it with the fee, or no key takes the change.\<close>

definition cannot_pay :: "wallet_env \<Rightarrow> bytes \<Rightarrow> int \<Rightarrow> CWalletTx \<Rightarrow> wallet_state \<Rightarrow> int \<Rightarrow> bool" where
  "cannot_pay Env spk nPay wNew S nFee \<longleftrightarrow> change_fails Env S \<or>
    (\<exists>nF. (nF = nFee \<or> round_fee Env spk nPay wNew (ws_keys S) (ws_wallet S) nF) \<and>
      total_of (spendable (wE Env) (ws_node S) (ws_keys S) (ws_wallet S) 0 1) < nPay + nF)"

lemma create_loop_ok:
  assumes "wallet_sound Env S" "scripts_end (ws_keys S) r"
    and pay: "0 < nPay" "nPay \<le> MAX_MONEY" and rate: "0 \<le> nPayTxFeePerKB Env" "nPayTxFeePerKB Env \<le> COIN"
    and "0 \<le> nFee" "nFee \<le> MAX_MONEY"
  shows "\<exists>k n f res. create_loop Env spk nPay wNew nFee req S =
      Some (S\<lparr>ws_rnd := k, ws_hd := (next_hd Env ^^ n) (ws_hd S)\<rparr>, f, res) \<and>
    (\<forall>w. res = Some w \<longrightarrow> good_payment Env spk nPay wNew (ws_keys S) (ws_wallet S) nFee w) \<and>
    (res = None \<longrightarrow> cannot_pay Env spk nPay wNew S nFee)"
  using assms(1,2,7,8)
proof (induction "nat (I64_MAX - nFee)" arbitrary: nFee req S rule: less_induct)
  case less
  note S = less.prems(1) and r = less.prems(2) and fee = less.prems(3,4)
  have amount: "0 \<le> nPay" "0 \<le> nFee" "0 < nPay + nFee" "nPay + nFee < 2 ^ 63"
    using pay fee by (simp_all add: MAX_MONEY_value)
  obtain S1 x where pass: "create_pass Env spk nPay wNew nFee S = Some (S1, x)"
    using create_pass_returns [OF S r amount] by fastforce
  note ok = create_pass_ok [OF S amount pass]
  obtain k n where S1: "S1 = S\<lparr>ws_rnd := k, ws_hd := (next_hd Env ^^ n) (ws_hd S)\<rparr>" using ok(1) by blast
  note unfold = create_loop.simps [of Env spk nPay wNew nFee req S]
  show ?case
  proof (cases x)
    case None
    then have "create_loop Env spk nPay wNew nFee req S = Some (S1, req, None)"
      using pass pay by (simp add: unfold)
    moreover have "cannot_pay Env spk nPay wNew S nFee"
      using ok(3) [OF None] by (auto simp: cannot_pay_def)
    ultimately show ?thesis using S1 by blast
  next
    case (Some w)
    note w = ok(2) [OF Some]
    let ?need = "fee_needed Env w"
    have w0: "wNew\<lparr>mtx := mtx w\<rparr> = w" using w by (cases w; cases wNew) auto
    show ?thesis
    proof (cases "nFee < ?need")
      case True
      have fee': "0 \<le> ?need" "?need \<le> MAX_MONEY" using fee_needed_bounds [OF rate] by auto
      have less': "nat (I64_MAX - ?need) < nat (I64_MAX - nFee)" using True w by simp
      have r1: "scripts_end (ws_keys S1) r" using r S1 by (simp add: scripts_end_def scripts_later)
      obtain k' n' f res where IH: "create_loop Env spk nPay wNew ?need ?need S1 =
          Some (S1\<lparr>ws_rnd := k', ws_hd := (next_hd Env ^^ n') (ws_hd S1)\<rparr>, f, res)"
        "\<forall>w'. res = Some w' \<longrightarrow> good_payment Env spk nPay wNew (ws_keys S1) (ws_wallet S1) ?need w'"
        "res = None \<longrightarrow> cannot_pay Env spk nPay wNew S1 ?need"
        using less.hyps [OF less' sound_later [OF S S1] r1 fee', of ?need] by blast
      have "create_loop Env spk nPay wNew nFee req S =
          Some (S\<lparr>ws_rnd := k', ws_hd := (next_hd Env ^^ (n' + n)) (ws_hd S)\<rparr>, f, res)"
        using pass pay Some True IH(1) S1 by (simp add: unfold funpow_later)
      moreover have "\<forall>w'. res = Some w' \<longrightarrow> good_payment Env spk nPay wNew (ws_keys S) (ws_wallet S) nFee w'"
        using IH(2) S1 True spends_ours_settled [OF settledD, of Env S n] S by (auto simp: good_payment_def wallet_sound_def Let_def)
      moreover have "cannot_pay Env spk nPay wNew S nFee" if "cannot_pay Env spk nPay wNew S1 ?need"
      proof -
        note later = settledD [of Env S n]
        have ks: "keys_settled Env S" using S by (simp add: wallet_sound_def)
        have "round_fee Env spk nPay wNew (ws_keys S) (ws_wallet S) ?need"
          using w w0 unfolding round_fee_def by metis
        then show ?thesis
          using that change_fails_later [of Env n S k] spendable_settled [OF later [OF ks]] spends_ours_settled [OF later [OF ks]] S1
          by (auto simp: cannot_pay_def round_fee_def)
      qed
      ultimately show ?thesis using IH(3) by blast
    next
      case False
      then have "create_loop Env spk nPay wNew nFee req S = Some (S1, req,
          Some (AddSupportingTransactions (wE Env) (ws_node S1) (ws_wallet S1) w\<lparr>fTimeReceivedIsTxTime := True\<rparr>))"
        using pass pay Some by (simp add: unfold)
      moreover have "good_payment Env spk nPay wNew (ws_keys S) (ws_wallet S) nFee
          (AddSupportingTransactions (wE Env) (ws_node S1) (ws_wallet S1) w\<lparr>fTimeReceivedIsTxTime := True\<rparr>)"
        using w w0 False by (simp add: good_payment_def Let_def)
      ultimately show ?thesis using S1 by blast
    qed
  qed
qed

end
