(* ===== verification/WalletProps.thy ===== *)
theory WalletProps
  imports SendProps NodeProps
begin

text \<open>
  What the wallet keeps: a payment rolled back leaves it as it was, a refused one too, the scan
  of the chain meets every block once and returns, and the correction from the chain only ever
  marks coins spent.
\<close>

section \<open>Commit and roll back\<close>

lemma lookup_set_spent:
  "fmlookup (fold (set_spent f) hs W) k =
    map_option (\<lambda>w. if k \<in> set hs then w\<lparr>fSpent := f\<rparr> else w) (fmlookup W k)"
proof (induction hs arbitrary: W)
  case (Cons h hs)
  have "fmlookup (set_spent f h W) k = map_option (\<lambda>w. if k = h then w\<lparr>fSpent := f\<rparr> else w) (fmlookup W k)"
    by (cases "fmlookup W h"; cases "fmlookup W k") (auto simp: set_spent_def)
  then show ?case using Cons by (auto simp: option.map_comp comp_def intro!: option.map_cong)
qed (simp add: option.map_ident)

lemma lookup_mark_prev:
  "fmlookup (fold (mark_prev K) is W) k = fmlookup W k \<or>
    k \<in> set (map (\<lambda>i. out_hash (prevout i)) is) \<and>
    (\<exists>w. fmlookup W k = Some w \<and> fmlookup (fold (mark_prev K) is W) k = Some (w\<lparr>fSpent := True\<rparr>))"
proof (induction "is" arbitrary: W)
  case (Cons i "is")
  have one: "fmlookup (mark_prev K i W) k = fmlookup W k \<or>
      k = out_hash (prevout i) \<and> (\<exists>w. fmlookup W k = Some w \<and> fmlookup (mark_prev K i W) k = Some (w\<lparr>fSpent := True\<rparr>))"
    by (auto simp: mark_prev_def Let_def split: option.split)
  from Cons.IH [of "mark_prev K i W"] show ?case
  proof
    assume "fmlookup (fold (mark_prev K) is (mark_prev K i W)) k = fmlookup (mark_prev K i W) k"
    then show ?thesis using one by auto
  next
    assume later: "k \<in> set (map (\<lambda>i. out_hash (prevout i)) is) \<and>
      (\<exists>w. fmlookup (mark_prev K i W) k = Some w \<and> fmlookup (fold (mark_prev K) is (mark_prev K i W)) k = Some (w\<lparr>fSpent := True\<rparr>))"
    show ?thesis
    proof (cases "fmlookup (mark_prev K i W) k = fmlookup W k")
      case True
      then show ?thesis using later by simp
    next
      case False
      then obtain w where "fmlookup W k = Some w" "fmlookup (mark_prev K i W) k = Some (w\<lparr>fSpent := True\<rparr>)" using one by blast
      then show ?thesis using later by simp
    qed
  qed
qed simp

lemma fold_touch: "\<forall>h \<in> set hs. fmlookup W h \<noteq> None \<Longrightarrow> fold touch hs W = W"
  by (induction hs) (auto simp: touch_def)

lemma commit_rollback:
  assumes new: "fmlookup W (tx_hash E w) = None"
    and prevs: "\<forall>h \<in> set (prev_hashes w). \<exists>v. fmlookup W h = Some v \<and> \<not> fSpent v"
  shows "RollbackTransactionSpent E w (CommitTransactionSpent E K t written w W) = W"
proof -
  let ?h = "tx_hash E w" and ?w = "w\<lparr>nTimeReceived := t\<rparr>"
  define W1 where "W1 = fst (AddToWallet E K t written w W)"
  have W1: "W1 = fmupd ?h ?w W \<or> W1 = fold (mark_prev K) (vin (mtx w)) (fmupd ?h ?w W)"
    using new by (simp add: W1_def AddToWallet_def Let_def)
  have look: "fmlookup W1 k = fmlookup W k \<or>
      k \<in> set (prev_hashes w) \<and> (\<exists>v. fmlookup W k = Some v \<and> fmlookup W1 k = Some (v\<lparr>fSpent := True\<rparr>))" if "k \<noteq> ?h" for k
    using W1 lookup_mark_prev [of K "vin (mtx w)" "fmupd ?h ?w W" k] that by (auto simp: prev_hashes_def)
  have there: "fmlookup W1 h \<noteq> None" if "h \<in> set (prev_hashes w)" for h
    using look [of h] prevs that new by fastforce
  have "fmlookup (RollbackTransactionSpent E w (CommitTransactionSpent E K t written w W)) k = fmlookup W k" for k
  proof (cases "k = ?h")
    case False
    show ?thesis
    proof (cases "k \<in> set (prev_hashes w)")
      case True
      then obtain v where v: "fmlookup W k = Some v" "\<not> fSpent v" using prevs by blast
      then have "v\<lparr>fSpent := False\<rparr> = v" by (cases v) simp
      then show ?thesis using look [OF False] v True False there
        by (auto simp: RollbackTransactionSpent_def EraseFromWallet_def CommitTransactionSpent_def W1_def [symmetric]
            lookup_set_spent fold_touch)
    next
      case no: False
      then show ?thesis using look [OF False] False there
        by (auto simp: RollbackTransactionSpent_def EraseFromWallet_def CommitTransactionSpent_def W1_def [symmetric]
            lookup_set_spent fold_touch option.map_ident)
    qed
  qed (simp add: RollbackTransactionSpent_def EraseFromWallet_def new)
  then show ?thesis by (rule fmap_ext)
qed

section \<open>The correction from the chain\<close>

lemma rescan_lookup: "fmlookup (fst (RescanSpentFlags E K db W)) h = map_option (rescan_entry E K db) (fmlookup W h)"
  by (simp add: RescanSpentFlags_def)

lemma rescan_idem: "rescan_entry E K db (rescan_entry E K db w) = rescan_entry E K db w"
  by (auto simp: rescan_entry_def tx_hash_def split: option.split)

lemma seen_spent_iff:
  "seen_spent K ps os \<longleftrightarrow> (\<exists>i < length ps. i < length os \<and> \<not> CDiskTxPos_IsNull (ps ! i) \<and> Mine K (os ! i))"
proof (induction K ps os rule: seen_spent.induct)
  case (1 K p ps o1 os)
  show ?case
  proof
    assume "seen_spent K (p # ps) (o1 # os)"
    then consider "\<not> CDiskTxPos_IsNull p \<and> Mine K o1" | "seen_spent K ps os" by auto
    then show "\<exists>i < length (p # ps). i < length (o1 # os) \<and> \<not> CDiskTxPos_IsNull ((p # ps) ! i) \<and> Mine K ((o1 # os) ! i)"
    proof cases
      case 2
      then obtain i where "i < length ps" "i < length os" "\<not> CDiskTxPos_IsNull (ps ! i) \<and> Mine K (os ! i)" using 1 by auto
      then show ?thesis by (intro exI [of _ "Suc i"]) simp
    qed (auto intro: exI [of _ 0])
  next
    assume "\<exists>i < length (p # ps). i < length (o1 # os) \<and> \<not> CDiskTxPos_IsNull ((p # ps) ! i) \<and> Mine K ((o1 # os) ! i)"
    then obtain i where "i < length (p # ps)" "i < length (o1 # os)" "\<not> CDiskTxPos_IsNull ((p # ps) ! i)" "Mine K ((o1 # os) ! i)"
      by blast
    then show "seen_spent K (p # ps) (o1 # os)" using 1 by (cases i) auto
  qed
qed simp_all

lemma RescanSpentFlags_ok:
  assumes "fmlookup W h = Some w"
  shows "\<exists>w'. fmlookup (fst (RescanSpentFlags E K db W)) h = Some w' \<and> w'\<lparr>fSpent := fSpent w\<rparr> = w \<and>
    (fSpent w' \<longleftrightarrow> fSpent w \<or> (\<exists>e. ReadTxIndex db (tx_hash E w) = Some e \<and>
      (\<exists>i < length (vSpent e). i < length (vout (mtx w)) \<and> \<not> CDiskTxPos_IsNull (vSpent e ! i) \<and> Mine K (vout (mtx w) ! i))))"
  using assms by (cases w) (auto simp: rescan_lookup rescan_entry_def seen_spent_iff split: option.split)

lemma RescanSpentFlags_twice:
  "RescanSpentFlags E K db (fst (RescanSpentFlags E K db W)) = (fst (RescanSpentFlags E K db W), 0)"
proof -
  let ?W = "fst (RescanSpentFlags E K db W)"
  have id: "rescan_entry E K db w = w" if "fmlookup ?W h = Some w" for h w
    using that rescan_idem by (auto simp: rescan_lookup)
  have "fmmap (rescan_entry E K db) ?W = ?W"
    by (rule fmap_ext) (use id in \<open>auto simp: map_option_case split: option.split\<close>)
  moreover have "filter (\<lambda>(h, w). rescan_entry E K db w \<noteq> w) (sorted_list_of_fmap ?W) = []"
    using id by (auto simp: filter_empty_conv entries_lookup)
  ultimately show ?thesis unfolding RescanSpentFlags_def by simp
qed

section \<open>The scan of the chain\<close>

lemma chain_links_at:
  "distinct (map phashBlock (d @ e # c)) \<Longrightarrow> c \<noteq> [] \<Longrightarrow> chain_links (d @ e # c) (phashBlock (hd c)) = Some (phashBlock e)"
proof (induction d)
  case Nil
  then show ?case by (cases c) auto
next
  case (Cons x d)
  have "phashBlock (hd c) \<noteq> phashBlock (hd (d @ e # c))" using Cons.prems by (cases d; cases c) auto
  moreover have "chain_links ((x # d) @ e # c) = (chain_links (d @ e # c))(phashBlock (hd (d @ e # c)) \<mapsto> phashBlock x)"
    by (cases d) simp_all
  ultimately show ?case using Cons by simp
qed

lemma next_block_main:
  assumes ok: "node_ok E N nd" and best: "pindexBest nd = d @ c" and c: "c \<noteq> []"
  shows "next_block nd c = (if d = [] then [] else last d # c)"
proof -
  note I = node_okD(3,4) [OF ok]
  have top: "idx_of nd (hashBestChain nd) = Some (d @ c)"
    using node_okD(5) [OF ok] best by (simp add: best_in_index_def)
  have links: "pnext nd = chain_links (d @ c)" using node_okD(6) [OF ok] best by (simp add: best_connected_def)
  have dist: "distinct (map phashBlock (d @ c))" by (rule index_distinct [OF I(2,1) top])
  show ?thesis
  proof (cases "d = []")
    case True
    have "phashBlock (hd c) \<notin> phashBlock ` set (tl c)" using dist True c by (cases c) auto
    then have "chain_links c (phashBlock (hd c)) = None" using dom_chain_links [of c] by auto
    then show ?thesis using True by (simp add: next_block_def links)
  next
    case False
    then obtain d' e where d: "d = d' @ [e]" by (cases d rule: rev_cases) auto
    have "chain_links (d' @ e # c) (phashBlock (hd c)) = Some (phashBlock e)"
      by (rule chain_links_at) (use dist d c in auto)
    moreover have "idx_of nd (phashBlock e) = Some (e # c)"
      using index_suffix [OF I(2,1), of _ d' "e # c"] top d by simp
    ultimately show ?thesis using d by (simp add: next_block_def links)
  qed
qed

text \<open>Each block from the start to the tip is met once, in the order of the heights.\<close>

lemma ScanForWalletTransactions_main:
  assumes ok: "node_ok E N nd"
  shows "pindexBest nd = d @ c \<Longrightarrow> c \<noteq> [] \<Longrightarrow>
    ScanForWalletTransactions E nd K t c Wn =
      Some (fold (scan_block E nd K t) (map (\<lambda>i. drop i (pindexBest nd)) (rev [0 ..< Suc (length d)])) Wn)"
proof (induction d arbitrary: c Wn rule: rev_induct)
  case Nil
  then show ?case using next_block_main [OF ok Nil]
    by (subst ScanForWalletTransactions.simps) (simp add: ScanForWalletTransactions.simps [of _ _ _ _ "[]"])
next
  case (snoc e d)
  have "next_block nd c = e # c" using next_block_main [OF ok snoc.prems] by simp
  then show ?case using snoc.IH [of "e # c" "scan_block E nd K t c Wn"] snoc.prems
    by (subst ScanForWalletTransactions.simps) simp
qed

section \<open>Sending\<close>

text \<open>The bounds under which no sum of a payment leaves an \<^verbatim>\<open>int64\<close>.\<close>

definition amounts_ok :: "wallet_env \<Rightarrow> int \<Rightarrow> bool" where
  "amounts_ok Env nPay \<longleftrightarrow> 0 < nPay \<and> nPay \<le> MAX_MONEY \<and> 0 \<le> nPayTxFeePerKB Env \<and> nPayTxFeePerKB Env \<le> COIN \<and>
    0 \<le> nTransactionFee Env \<and> nTransactionFee Env \<le> MAX_MONEY"

lemma CreateTransaction_ok:
  assumes "wallet_sound Env S" "scripts_end (ws_keys S) r" "amounts_ok Env nPay"
  shows "\<exists>k n f res. CreateTransaction Env spk nPay wNew S =
      Some (S\<lparr>ws_rnd := k, ws_hd := (next_hd Env ^^ n) (ws_hd S)\<rparr>, f, res) \<and>
    (\<forall>w. res = Some w \<longrightarrow> good_payment Env spk nPay wNew (ws_keys S) (ws_wallet S) (nTransactionFee Env) w) \<and>
    (res = None \<longrightarrow> cannot_pay Env spk nPay wNew S (nTransactionFee Env))"
  using create_loop_ok [OF assms(1,2)] assms(3) by (simp add: CreateTransaction_def amounts_ok_def)

text \<open>The coins a payment spends are in the wallet and not marked.\<close>

lemma payment_prevs:
  "spends_ours K W (mtx w) \<Longrightarrow> h \<in> set (prev_hashes w) \<Longrightarrow> \<exists>v. fmlookup W h = Some v \<and> \<not> fSpent v"
  by (fastforce simp: spends_ours_def prev_hashes_def prevouts_def)

lemma accept_payment_cases:
  assumes "accept_payment Env tx S = (S', ok)"
  shows "ok = False \<Longrightarrow> S' = S"
    "ok = True \<Longrightarrow> Mempool.pool_ok (wE Env) (nd_pool (ws_node S)) \<Longrightarrow>
      fmlookup (pool (nd_pool (ws_node S'))) (SerializeHash_tx (wE Env) tx) = Some tx"
  using assms AcceptTransaction_pool(2)
  by (fastforce simp: accept_payment_def Let_def split: sum.split_asm prod.split_asm)+

lemma SendMoney_ok:
  assumes S: "wallet_sound Env S" "scripts_end (ws_keys S) r" "amounts_ok Env nPay"
    and pool: "Mempool.pool_ok (wE Env) (nd_pool (ws_node S))"
  shows "\<exists>S' res. SendMoney Env spk nPay wNew S = Some (S', res) \<and>
    (case res of
       Inr w \<Rightarrow> good_payment Env spk nPay wNew (ws_keys S) (ws_wallet S) (nTransactionFee Env) w \<and>
         fmlookup (Mempool.pool (nd_pool (ws_node S'))) (tx_hash (wE Env) w) = Some (mtx w)
     | Inl e \<Rightarrow> ws_node S' = ws_node S \<and>
         (e \<noteq> NotAccepted \<or> (\<forall>S1 f w. CreateTransaction Env spk nPay wNew S = Some (S1, f, Some w) \<longrightarrow>
            fmlookup (ws_wallet S) (tx_hash (wE Env) w) = None) \<longrightarrow> ws_wallet S' = ws_wallet S))"
proof -
  obtain k n f res where c: "CreateTransaction Env spk nPay wNew S =
      Some (S\<lparr>ws_rnd := k, ws_hd := (next_hd Env ^^ n) (ws_hd S)\<rparr>, f, res)" (is "_ = Some (?S1, _, _)")
    and good: "\<forall>w. res = Some w \<longrightarrow> good_payment Env spk nPay wNew (ws_keys S) (ws_wallet S) (nTransactionFee Env) w"
    using CreateTransaction_ok [OF S] by blast
  show ?thesis
  proof (cases res)
    case None
    then show ?thesis using c by (simp add: SendMoney_def)
  next
    case (Some w)
    have g: "good_payment Env spk nPay wNew (ws_keys S) (ws_wallet S) (nTransactionFee Env) w" using good Some by blast
    let ?S2 = "?S1\<lparr>ws_wallet := CommitTransactionSpent (wE Env) (ws_keys ?S1) (wTime Env) (wWritten Env) w (ws_wallet ?S1)\<rparr>"
    obtain S3 ok where acc: "accept_payment Env (mtx w) ?S2 = (S3, ok)" by fastforce
    show ?thesis
    proof (cases ok)
      case True
      have "SendMoney Env spk nPay wNew S = Some (S3, Inr w)" using c Some acc True by (simp add: SendMoney_def Let_def)
      moreover have "fmlookup (Mempool.pool (nd_pool (ws_node S3))) (tx_hash (wE Env) w) = Some (mtx w)"
        using accept_payment_cases(2) [OF acc] True pool by (simp add: tx_hash_def)
      ultimately show ?thesis using g by simp
    next
      case False
      have S3: "S3 = ?S2" using accept_payment_cases(1) [OF acc] False by simp
      have "SendMoney Env spk nPay wNew S =
          Some (S3\<lparr>ws_wallet := RollbackTransactionSpent (wE Env) w (ws_wallet S3)\<rparr>, Inl NotAccepted)"
        using c Some acc False by (simp add: SendMoney_def Let_def)
      moreover have "RollbackTransactionSpent (wE Env) w (ws_wallet S3) = ws_wallet S"
        if "fmlookup (ws_wallet S) (tx_hash (wE Env) w) = None"
      proof -
        have "\<forall>h \<in> set (prev_hashes w). \<exists>v. fmlookup (ws_wallet S) h = Some v \<and> \<not> fSpent v"
          using g payment_prevs [of "ws_keys S"] by (auto simp: good_payment_def)
        then show ?thesis using commit_rollback [OF that] S3 by simp
      qed
      ultimately show ?thesis using c Some S3 by auto
    qed
  qed
qed

section \<open>Speeding up\<close>

text \<open>Only the change and the signatures differ, and the new fee is at least what is asked.\<close>

lemma resign_same: "resign E L K W is tx = Some (tx', ok) \<Longrightarrow> same_but_sigs tx' tx"
proof (induction "is" arbitrary: tx)
  case (Cons i "is")
  then obtain t1 ok1 where s: "SignSignature E L K (mtx (the (fmlookup W (out_hash (prevout (vin tx ! i)))))) tx i SIGHASH_ALL [] = Some (t1, ok1)"
    by (auto split: option.split_asm)
  note same = SignSignature_same [OF s]
  show ?case
  proof (cases ok1)
    case True
    then have "resign E L K W is t1 = Some (tx', ok)" using Cons.prems s by simp
    then show ?thesis using Cons.IH same same_but_sigs_trans by blast
  next
    case False
    then show ?thesis using Cons.prems s same by simp
  qed
qed simp

definition with_change :: "CTransaction \<Rightarrow> nat \<Rightarrow> int \<Rightarrow> CTransaction" where
  "with_change tx n v = tx\<lparr>vout := (vout tx)[n := (vout tx ! n)\<lparr>nValue := v\<rparr>]\<rparr>"

lemma bump_loop_ok:
  assumes "bump_loop Env K W rate nOldFee txOld n rounds txNew nFee = Some (Inr (tx, fee))"
    "\<exists>v. same_but_sigs txNew (with_change txOld n v)" "n < length (vout txOld)"
  shows "\<exists>v. same_but_sigs tx (with_change txOld n v) \<and> v = i64 (nValue (vout txOld ! n) - i64 (fee - nOldFee)) \<and>
    CENT div 100 \<le> v \<and> nOldFee < fee \<and>
    bump_need rate nOldFee (GetSerializeSize_CTransaction txOld) (GetSerializeSize_CTransaction tx) \<le> fee"
  using assms(1,2)
proof (induction rounds arbitrary: txNew nFee)
  case (Suc rounds)
  let ?v = "i64 (nValue (vout txOld ! n) - i64 (nFee - nOldFee))"
  define tx1 where "tx1 = txNew\<lparr>vout := (vout txNew)[n := (vout txNew ! n)\<lparr>nValue := ?v\<rparr>],
    vin := map (\<lambda>i. i\<lparr>scriptSig := []\<rparr>) (vin txNew)\<rparr>"
  obtain v where "same_but_sigs txNew (with_change txOld n v)" using Suc.prems(2) by blast
  note parts = same_but_sigs_parts [OF this]
  have same1: "same_but_sigs tx1 (with_change txOld n ?v)"
    using parts assms(3) by (cases txNew; cases txOld) (simp add: tx1_def same_but_sigs_def with_change_def comp_def)
  have enough: "\<not> ?v < CENT div 100" using Suc.prems(1) by (auto simp: Let_def)
  obtain tx2 where r: "resign (wE Env) (wL Env) K W [0 ..< length (vin tx1)] tx1 = Some (tx2, True)"
    using Suc.prems(1) enough
    by (cases "resign (wE Env) (wL Env) K W [0 ..< length (vin tx1)] tx1")
      (auto simp: Let_def tx1_def [symmetric] simp del: upt_Suc split: bool.split_asm)
  have same2: "same_but_sigs tx2 (with_change txOld n ?v)"
    by (rule same_but_sigs_trans [OF resign_same [OF r] same1])
  let ?need = "bump_need rate nOldFee (GetSerializeSize_CTransaction txOld) (GetSerializeSize_CTransaction tx2)"
  have step: "(if ?need \<le> nFee \<and> nOldFee < nFee then Some (Inr (tx2, nFee))
      else bump_loop Env K W rate nOldFee txOld n rounds tx2 (max ?need (i64 (nOldFee + 1)))) = Some (Inr (tx, fee))"
    using Suc.prems(1) enough r by (simp add: Let_def tx1_def [symmetric])
  show ?case
  proof (cases "?need \<le> nFee \<and> nOldFee < nFee")
    case True
    then show ?thesis using step same2 enough by auto
  next
    case False
    then have "bump_loop Env K W rate nOldFee txOld n rounds tx2 (max ?need (i64 (nOldFee + 1))) = Some (Inr (tx, fee))"
      using step by (simp split: if_split_asm)
    then show ?thesis using same2 by (intro Suc.IH) blast+
  qed
qed simp

end
