(* ===== verification/Encrypt.thy ===== *)
theory Encrypt
  imports KeyPool KeyProps
begin

text \<open>
  Encrypting the wallet, locking and unlocking it (\<^verbatim>\<open>EncryptWallet\<close> of \<^verbatim>\<open>db.cpp\<close>, \<^verbatim>\<open>LockWallet\<close> and
  \<^verbatim>\<open>UnlockWallet\<close> of \<^verbatim>\<open>main.cpp\<close>).  The bytes of \<^verbatim>\<open>RAND_bytes\<close> are arguments.  \<open>EncryptWallet\<close> is the
  part that works out every ciphertext, up to where the store is touched; writing the new file
  and restarting is what \<open>LoadEncrypted\<close> stands for: the records, read back in.
\<close>

record CWalletMasterKey =
  vchCryptedKey :: bytes
  vchSalt :: bytes
  nDeriveIterations :: nat

record crypt_state =
  cs_hd :: hd_state
  vchCryptedHDMaster :: bytes
  vchCryptedHDChainCode :: bytes
  mapMasterKeys :: "(u32, CWalletMasterKey) fmap"
  nWalletMasterKeyMaxID :: u32

abbreviation cs_keys :: "crypt_state \<Rightarrow> key_store" where
  "cs_keys S \<equiv> hd_keys (cs_hd S)"

abbreviation set_keys :: "key_store \<Rightarrow> crypt_state \<Rightarrow> crypt_state" where
  "set_keys K S \<equiv> S\<lparr>cs_hd := (cs_hd S)\<lparr>hd_keys := K\<rparr>\<rparr>"

abbreviation set_master :: "bytes \<Rightarrow> crypt_state \<Rightarrow> crypt_state" where
  "set_master b S \<equiv> S\<lparr>cs_hd := (cs_hd S)\<lparr>vchHDMaster := b\<rparr>\<rparr>"

abbreviation set_chain :: "bytes \<Rightarrow> crypt_state \<Rightarrow> crypt_state" where
  "set_chain b S \<equiv> S\<lparr>cs_hd := (cs_hd S)\<lparr>vchHDChainCode := b\<rparr>\<rparr>"

definition WalletSecretIV :: "ext \<Rightarrow> string \<Rightarrow> bytes" where
  "WalletSecretIV E strLabel = take 16 (bytes_of_uint256 (Hash E (string_bytes strLabel)))"

definition DeriveWalletPassphraseKey :: "key_lib \<Rightarrow> bytes \<Rightarrow> bytes \<Rightarrow> nat \<Rightarrow> (bytes \<times> bytes) option" where
  "DeriveWalletPassphraseKey L strPassphrase salt n =
    (if length salt \<noteq> 8 \<or> n < 1 then None else evp_bytes_to_key L strPassphrase salt n)"

section \<open>Locking and unlocking\<close>

definition LockWallet :: "crypt_state \<Rightarrow> crypt_state" where
  "LockWallet S =
    (if \<not> fWalletEncrypted (cs_keys S) then S
     else
       let S1 = (if vchCryptedHDMaster S \<noteq> [] then set_master [] S else S);
           S2 = (if vchCryptedHDChainCode S \<noteq> [] then set_chain [] S1 else S1)
       in set_keys (lock_keys (cs_keys S2)) S2)"

text \<open>The first encrypted key decides whether a candidate opens the wallet.\<close>

definition candidate_valid :: "ext \<Rightarrow> key_lib \<Rightarrow> key_store \<Rightarrow> bytes \<Rightarrow> bool" where
  "candidate_valid E L K vchCandidate =
    (case sorted_list_of_fmap (mapCryptedKeys K) of
       [] \<Rightarrow> True
     | (pub, c) # _ \<Rightarrow>
        (case DecryptSecret L vchCandidate c (WalletKeyIV E pub) of
           None \<Rightarrow> False | Some priv \<Rightarrow> priv_to_pub L priv = Some pub))"

definition unlock_candidate :: "ext \<Rightarrow> key_lib \<Rightarrow> key_store \<Rightarrow> bytes \<Rightarrow> CWalletMasterKey \<Rightarrow> bytes option" where
  "unlock_candidate E L K strPassphrase mk =
    (case DeriveWalletPassphraseKey L strPassphrase (vchSalt mk) (nDeriveIterations mk) of
       None \<Rightarrow> None
     | Some (vchPassKey, vchPassIV) \<Rightarrow>
        (case DecryptSecret L vchPassKey (vchCryptedKey mk) vchPassIV of
           None \<Rightarrow> None
         | Some plain \<Rightarrow>
             if length plain \<noteq> 32 then None else if candidate_valid E L K plain then Some plain else None))"

datatype unlock_error = HDMasterNotDecrypted | HDChainCodeNotDecrypted | PassphraseDidNotUnlock

definition open_secret :: "ext \<Rightarrow> key_lib \<Rightarrow> bytes \<Rightarrow> bytes \<Rightarrow> string \<Rightarrow> bytes option" where
  "open_secret E L key c label =
    (case DecryptSecret L key c (WalletSecretIV E label) of
       None \<Rightarrow> None | Some p \<Rightarrow> if length p \<noteq> 32 then None else Some p)"

definition open_wallet :: "ext \<Rightarrow> key_lib \<Rightarrow> bytes \<Rightarrow> crypt_state \<Rightarrow> crypt_state \<times> unlock_error option" where
  "open_wallet E L vchCandidate S =
    (let S1 = set_keys ((cs_keys S)\<lparr>vWalletMasterKey := vchCandidate\<rparr>) S
     in case (if vchCryptedHDMaster S = [] then Some S1
              else map_option (\<lambda>p. set_master p S1) (open_secret E L vchCandidate (vchCryptedHDMaster S) ''hdmaster'')) of
          None \<Rightarrow> (S1, Some HDMasterNotDecrypted)
        | Some S2 \<Rightarrow>
           (case (if vchCryptedHDChainCode S = [] then Some S2
                  else map_option (\<lambda>p. set_chain p S2) (open_secret E L vchCandidate (vchCryptedHDChainCode S) ''hdchaincode'')) of
              None \<Rightarrow> (S2, Some HDChainCodeNotDecrypted)
            | Some S3 \<Rightarrow> (set_keys ((cs_keys S3)\<lparr>fWalletLocked := False\<rparr>) S3, None)))"

fun unlock_loop :: "ext \<Rightarrow> key_lib \<Rightarrow> bytes \<Rightarrow> CWalletMasterKey list \<Rightarrow> crypt_state \<Rightarrow> crypt_state \<times> unlock_error option" where
  "unlock_loop E L strPassphrase [] S = (S, Some PassphraseDidNotUnlock)"
| "unlock_loop E L strPassphrase (mk # mks) S =
    (case unlock_candidate E L (cs_keys S) strPassphrase mk of
       None \<Rightarrow> unlock_loop E L strPassphrase mks S
     | Some vchCandidate \<Rightarrow> open_wallet E L vchCandidate S)"

definition UnlockWallet :: "ext \<Rightarrow> key_lib \<Rightarrow> bytes \<Rightarrow> crypt_state \<Rightarrow> crypt_state \<times> unlock_error option" where
  "UnlockWallet E L strPassphrase S =
    (if \<not> fWalletEncrypted (cs_keys S) then (S, None)
     else unlock_loop E L strPassphrase (map snd (sorted_list_of_fmap (mapMasterKeys S))) S)"

section \<open>Encrypting\<close>

datatype encrypt_error =
    AlreadyEncrypted | PassphraseTooShort | NoPrivateKeys | NoRandomMasterKey | NoRandomSalt
  | MasterKeyNotEncrypted | PrivateKeyNotEncrypted | IncompleteSeed | SeedNotEncrypted
  | PoolKeyNotDerived u32

record enc_plan =
  ep_master :: CWalletMasterKey
  ep_keys :: "(bytes \<times> bytes) list"
  ep_hd_master :: bytes
  ep_hd_chain :: bytes
  ep_pool_keys :: "(bytes \<times> bytes) list"
  ep_pool :: "(int \<times> bytes) list"
  ep_next :: u32

definition EncryptPrivateKeyForWallet :: "ext \<Rightarrow> key_lib \<Rightarrow> bytes \<Rightarrow> bytes \<Rightarrow> bytes \<Rightarrow> bytes option" where
  "EncryptPrivateKeyForWallet E L vchMasterKey pub priv = EncryptSecret L vchMasterKey priv (WalletKeyIV E pub)"

fun encrypt_keys :: "ext \<Rightarrow> key_lib \<Rightarrow> bytes \<Rightarrow> (bytes \<times> bytes) list \<Rightarrow> (bytes \<times> bytes) list option" where
  "encrypt_keys E L mk [] = Some []"
| "encrypt_keys E L mk ((pub, priv) # rest) =
    (case EncryptPrivateKeyForWallet E L mk pub priv of
       None \<Rightarrow> None
     | Some c \<Rightarrow> map_option ((#) (pub, c)) (encrypt_keys E L mk rest))"

text \<open>The replacement pool: \<open>n\<close> more keys, the next numbered \<open>i\<close>, from child index \<open>nNext\<close> on.\<close>

fun encrypt_pool ::
    "ext \<Rightarrow> key_lib \<Rightarrow> hd_lib \<Rightarrow> bytes \<Rightarrow> hd_state \<Rightarrow> nat \<Rightarrow> int \<Rightarrow> u32 \<Rightarrow> nat \<Rightarrow>
      encrypt_error + (bytes \<times> bytes) list \<times> (int \<times> bytes) list \<times> u32" where
  "encrypt_pool E L D mk S 0 i nNext made = Inr ([], [], nNext)"
| "encrypt_pool E L D mk S (Suc n) i nNext made =
    (let seed = (vchHDMaster S \<noteq> [] \<or> vchHDChainCode S \<noteq> []);
         key = (if seed then DeriveHDKey D S nNext else Some (MakeNewKey D made));
         nNext' = (if seed then nNext + 1 else nNext); made' = (if seed then made else made + 1)
     in case key of
          None \<Rightarrow> Inl (PoolKeyNotDerived nNext)
        | Some (pub, priv) \<Rightarrow>
           (case (if fmlookup (mapKeys (hd_keys S)) pub \<noteq> None then Some []
                  else map_option (\<lambda>c. [(pub, c)]) (EncryptPrivateKeyForWallet E L mk pub priv)) of
              None \<Rightarrow> Inl PrivateKeyNotEncrypted
            | Some ks \<Rightarrow>
               (case encrypt_pool E L D mk S n (i + 1) nNext' made' of
                  Inl e \<Rightarrow> Inl e
                | Inr (keys, entries, nNext'') \<Rightarrow> Inr (ks @ keys, (i, pub) # entries, nNext''))))"

definition encrypt_seed :: "ext \<Rightarrow> key_lib \<Rightarrow> bytes \<Rightarrow> hd_state \<Rightarrow> encrypt_error + bytes \<times> bytes" where
  "encrypt_seed E L mk S =
    (if vchHDMaster S = [] \<and> vchHDChainCode S = [] then Inr ([], [])
     else if length (vchHDMaster S) \<noteq> 32 \<or> length (vchHDChainCode S) \<noteq> 32 then Inl IncompleteSeed
     else case EncryptSecret L mk (vchHDMaster S) (WalletSecretIV E ''hdmaster'') of
       None \<Rightarrow> Inl SeedNotEncrypted
     | Some m \<Rightarrow>
        (case EncryptSecret L mk (vchHDChainCode S) (WalletSecretIV E ''hdchaincode'') of
           None \<Rightarrow> Inl SeedNotEncrypted | Some c \<Rightarrow> Inr (m, c)))"

definition encrypt_master :: "key_lib \<Rightarrow> bytes \<Rightarrow> bytes \<Rightarrow> bytes \<Rightarrow> CWalletMasterKey option" where
  "encrypt_master L strPassphrase mk salt =
    (case DeriveWalletPassphraseKey L strPassphrase salt 25000 of
       None \<Rightarrow> None
     | Some (vchPassKey, vchPassIV) \<Rightarrow>
        map_option (\<lambda>c. \<lparr>vchCryptedKey = c, vchSalt = salt, nDeriveIterations = 25000\<rparr>)
          (EncryptSecret L vchPassKey mk vchPassIV))"

definition EncryptWallet ::
    "ext \<Rightarrow> key_lib \<Rightarrow> hd_lib \<Rightarrow> bytes \<Rightarrow> bytes option \<Rightarrow> bytes option \<Rightarrow> hd_state \<Rightarrow> encrypt_error + enc_plan" where
  "EncryptWallet E L D strPassphrase rand_key rand_salt S =
    (if fWalletEncrypted (hd_keys S) then Inl AlreadyEncrypted
     else if length strPassphrase < 8 then Inl PassphraseTooShort
     else if mapKeys (hd_keys S) = fmempty then Inl NoPrivateKeys
     else case rand_key of None \<Rightarrow> Inl NoRandomMasterKey
     | Some mk \<Rightarrow>
       (case rand_salt of None \<Rightarrow> Inl NoRandomSalt
        | Some salt \<Rightarrow>
          (case encrypt_master L strPassphrase mk salt of None \<Rightarrow> Inl MasterKeyNotEncrypted
           | Some kMasterKey \<Rightarrow>
             (case encrypt_keys E L mk (sorted_list_of_fmap (mapKeys (hd_keys S))) of None \<Rightarrow> Inl PrivateKeyNotEncrypted
              | Some vCryptedKeys \<Rightarrow>
                (case encrypt_seed E L mk S of Inl e \<Rightarrow> Inl e
                 | Inr (m, c) \<Rightarrow>
                   (case encrypt_pool E L D mk S KEYPOOL_SIZE 1 (nHDNext S) (nKeysMade S) of Inl e \<Rightarrow> Inl e
                    | Inr (pool_keys, entries, nNext) \<Rightarrow>
                        Inr \<lparr>ep_master = kMasterKey, ep_keys = vCryptedKeys, ep_hd_master = m, ep_hd_chain = c,
                             ep_pool_keys = pool_keys, ep_pool = entries, ep_next = nNext\<rparr>))))))"

text \<open>The records of the new file, read into the globals of a node that starts: no key in the clear.\<close>

definition load_ckeys :: "ext \<Rightarrow> (bytes \<times> bytes) list \<Rightarrow> key_store \<Rightarrow> key_store" where
  "load_ckeys E cks K = fold (\<lambda>(pub, c) K. fst (AddCryptedKey E pub c K)) cks K"

definition LoadEncrypted :: "ext \<Rightarrow> enc_plan \<Rightarrow> crypt_state \<Rightarrow> crypt_state" where
  "LoadEncrypted E p S =
    \<lparr>cs_hd = (cs_hd S)\<lparr>
       hd_keys := load_ckeys E (ep_keys p @ ep_pool_keys p)
         (empty_keys\<lparr>mapScripts := mapScripts (cs_keys S), fWalletEncrypted := True\<rparr>),
       vchHDMaster := [], vchHDChainCode := [], nHDNext := ep_next p, mapKeyPool := fmap_of_list (ep_pool p)\<rparr>,
     vchCryptedHDMaster = ep_hd_master p, vchCryptedHDChainCode = ep_hd_chain p,
     mapMasterKeys = fmupd (nWalletMasterKeyMaxID S + 1) (ep_master p) fmempty,
     nWalletMasterKeyMaxID = nWalletMasterKeyMaxID S + 1\<rparr>"

section \<open>What was encrypted opens again\<close>

text \<open>The key pairs the libraries make belong together.\<close>

definition hd_good :: "key_lib \<Rightarrow> hd_lib \<Rightarrow> bool" where
  "hd_good L D \<longleftrightarrow>
    (\<forall>s pub priv. SetSecret D s = Some (pub, priv) \<longrightarrow> pub \<noteq> [] \<and> priv_to_pub L priv = Some pub) \<and>
    (\<forall>n. fst (MakeNewKey D n) \<noteq> [] \<and> priv_to_pub L (snd (MakeNewKey D n)) = Some (fst (MakeNewKey D n)))"

definition pairs_good :: "key_lib \<Rightarrow> key_store \<Rightarrow> bool" where
  "pairs_good L K \<longleftrightarrow> (\<forall>pub priv. fmlookup (mapKeys K) pub = Some priv \<longrightarrow> pub \<noteq> [] \<and> priv_to_pub L priv = Some pub)"

text \<open>An encrypted key of a plan: the ciphertext of a private key of that public key.\<close>

definition ckey_good :: "ext \<Rightarrow> key_lib \<Rightarrow> bytes \<Rightarrow> bytes \<times> bytes \<Rightarrow> bool" where
  "ckey_good E L mk pc \<longleftrightarrow> fst pc \<noteq> [] \<and> (\<exists>priv. priv_to_pub L priv = Some (fst pc) \<and>
    EncryptSecret L mk priv (WalletKeyIV E (fst pc)) = Some (snd pc))"

lemma encrypt_keys_ok:
  assumes "encrypt_keys E L mk ks = Some cs" "\<forall>(pub, priv) \<in> set ks. pub \<noteq> [] \<and> priv_to_pub L priv = Some pub"
  shows "list_all (ckey_good E L mk) cs \<and> map fst cs = map fst ks \<and>
    (\<forall>(pub, priv) \<in> set ks. \<exists>c. (pub, c) \<in> set cs \<and> EncryptSecret L mk priv (WalletKeyIV E pub) = Some c)"
  using assms
proof (induction ks arbitrary: cs)
  case (Cons k ks)
  obtain pub priv where k: "k = (pub, priv)" by (cases k)
  obtain c cs' where c: "EncryptSecret L mk priv (WalletKeyIV E pub) = Some c" "encrypt_keys E L mk ks = Some cs'"
    "cs = (pub, c) # cs'"
    using Cons.prems(1) k by (auto simp: EncryptPrivateKeyForWallet_def split: option.split_asm)
  note IH = Cons.IH [OF c(2)]
  have pub: "pub \<noteq> []" "priv_to_pub L priv = Some pub" and rest: "\<forall>(pub, priv) \<in> set ks. pub \<noteq> [] \<and> priv_to_pub L priv = Some pub"
    using Cons.prems(2) k by auto
  have "ckey_good E L mk (pub, c)" using pub c(1) by (auto simp: ckey_good_def)
  then show ?case using IH [OF rest] c k by auto
qed simp

lemma DeriveHDKey_good:
  "hd_good L D \<Longrightarrow> DeriveHDKey D S n = Some (pub, priv) \<Longrightarrow> pub \<noteq> [] \<and> priv_to_pub L priv = Some pub"
  by (auto simp: hd_good_def DeriveHDKey_def derive_path_def split: if_split_asm option.split_asm sum.split_asm)

lemma encrypt_pool_ok:
  assumes "encrypt_pool E L D mk S n i nNext made = Inr (keys, entries, nNext')" "hd_good L D"
  shows "list_all (ckey_good E L mk) keys \<and> (\<forall>(pub, c) \<in> set keys. fmlookup (mapKeys (hd_keys S)) pub = None) \<and>
    length entries = n"
  using assms(1)
proof (induction n arbitrary: i nNext made keys entries)
  case (Suc n)
  let ?seed = "vchHDMaster S \<noteq> [] \<or> vchHDChainCode S \<noteq> []"
  let ?key = "if ?seed then DeriveHDKey D S nNext else Some (MakeNewKey D made)"
  obtain pub priv where key: "?key = Some (pub, priv)" using Suc.prems by (cases ?key) (auto simp: Let_def)
  have pair: "pub \<noteq> []" "priv_to_pub L priv = Some pub"
    using key assms(2) DeriveHDKey_good [OF assms(2)] by (auto simp: hd_good_def split: if_split_asm) (metis fst_conv, metis fst_conv snd_conv)
  let ?ks = "if fmlookup (mapKeys (hd_keys S)) pub \<noteq> None then Some []
    else map_option (\<lambda>c. [(pub, c)]) (EncryptPrivateKeyForWallet E L mk pub priv)"
  obtain ks where ks: "?ks = Some ks" using Suc.prems key by (cases ?ks) (auto simp: Let_def)
  obtain keys' entries' where rest: "encrypt_pool E L D mk S n (i + 1) (if ?seed then nNext + 1 else nNext) (if ?seed then made else made + 1) =
      Inr (keys', entries', nNext')" "keys = ks @ keys'" "entries = (i, pub) # entries'"
    using Suc.prems [unfolded encrypt_pool.simps Let_def key option.case prod.case ks] by (auto split: sum.split_asm)
  have "list_all (ckey_good E L mk) ks \<and> (\<forall>(pub, c) \<in> set ks. fmlookup (mapKeys (hd_keys S)) pub = None)"
    using ks pair by (auto simp: ckey_good_def EncryptPrivateKeyForWallet_def split: if_split_asm)
  then show ?case using Suc.IH [OF rest(1)] rest(2,3) by auto
qed simp

lemma map_of_rev_mem: "map_of (rev xs) k = Some v \<Longrightarrow> (k, v) \<in> set xs"
  using map_of_SomeD [of "rev xs" k v] by simp

context key_library
begin

lemma EncryptSecret_opens:
  "EncryptSecret L k p iv = Some c \<Longrightarrow> c \<noteq> [] \<and> DecryptSecret L k c iv = Some p"
  using encrypt by (auto simp: EncryptSecret_def DecryptSecret_def split: if_split_asm)

lemma load_ckeys_ok:
  assumes "list_all (ckey_good E L mk) cks"
  shows "fmlookup (mapCryptedKeys (load_ckeys E cks K)) pub =
      (case map_of (rev cks) pub of None \<Rightarrow> fmlookup (mapCryptedKeys K) pub | Some c \<Rightarrow> Some c) \<and>
    mapKeys (load_ckeys E cks K) = mapKeys K \<and> mapScripts (load_ckeys E cks K) = mapScripts K \<and>
    (fWalletEncrypted K \<longrightarrow> fWalletEncrypted (load_ckeys E cks K)) \<and>
    fWalletLocked (load_ckeys E cks K) = fWalletLocked K \<and> vWalletMasterKey (load_ckeys E cks K) = vWalletMasterKey K"
  using assms
proof (induction cks arbitrary: K)
  case (Cons pc cks)
  obtain p c where pc: "pc = (p, c)" by (cases pc)
  have "p \<noteq> [] \<and> c \<noteq> []" using Cons.prems pc EncryptSecret_opens by (auto simp: ckey_good_def)
  then have "load_ckeys E (pc # cks) K = load_ckeys E cks (K\<lparr>fWalletEncrypted := True,
      mapCryptedKeys := fmupd p c (mapCryptedKeys K), mapPubKeys := (mapPubKeys K)(Hash160 E p \<mapsto> p)\<rparr>)"
    by (simp add: load_ckeys_def pc AddCryptedKey_def)
  then show ?case using Cons.IH [of "K\<lparr>fWalletEncrypted := True, mapCryptedKeys := fmupd p c (mapCryptedKeys K),
      mapPubKeys := (mapPubKeys K)(Hash160 E p \<mapsto> p)\<rparr>"] Cons.prems
    by (auto simp: pc map_add_def split: option.split)
qed (simp add: load_ckeys_def)

lemma encrypted_wallet_opens:
  assumes run: "EncryptWallet E L D pass rand_key rand_salt (cs_hd S) = Inr p"
    and good: "hd_good L D" "pairs_good L (cs_keys S)"
  shows "\<exists>S'. UnlockWallet E L pass (LoadEncrypted E p S) = (S', None) \<and> \<not> IsWalletLocked (cs_keys S') \<and>
      vchHDMaster (cs_hd S') = vchHDMaster (cs_hd S) \<and> vchHDChainCode (cs_hd S') = vchHDChainCode (cs_hd S) \<and>
      (\<forall>pub priv. fmlookup (mapKeys (cs_keys S)) pub = Some priv \<longrightarrow> GetWalletPrivKey E L (cs_keys S') pub = Some priv)"
    "GetWalletPrivKey E L (cs_keys (LoadEncrypted E p S)) pub = None"
proof -
  let ?H = "cs_hd S"
  let ?plain = "sorted_list_of_fmap (mapKeys (hd_keys ?H))"
  obtain mk salt kM cks m c pks entries nn where
    keys0: "mapKeys (hd_keys ?H) \<noteq> fmempty" and master: "encrypt_master L pass mk salt = Some kM"
    and cks: "encrypt_keys E L mk ?plain = Some cks" and seed: "encrypt_seed E L mk ?H = Inr (m, c)"
    and pool: "encrypt_pool E L D mk ?H KEYPOOL_SIZE 1 (nHDNext ?H) (nKeysMade ?H) = Inr (pks, entries, nn)"
    and p: "p = \<lparr>ep_master = kM, ep_keys = cks, ep_hd_master = m, ep_hd_chain = c, ep_pool_keys = pks, ep_pool = entries, ep_next = nn\<rparr>"
    using run by (auto simp: EncryptWallet_def split: if_split_asm option.split_asm sum.split_asm)
  have plain: "\<forall>(pub, priv) \<in> set ?plain. pub \<noteq> [] \<and> priv_to_pub L priv = Some pub"
  proof clarify
    fix pub priv assume "(pub, priv) \<in> set ?plain"
    then have "fmlookup (mapKeys (hd_keys ?H)) pub = Some priv" by (simp only: entries_lookup)
    then show "pub \<noteq> [] \<and> priv_to_pub L priv = Some pub" using good(2) unfolding pairs_good_def by blast
  qed
  note K = encrypt_keys_ok [OF cks plain] and P = encrypt_pool_ok [OF pool good(1)]
  let ?all = "cks @ pks"
  let ?K0 = "empty_keys\<lparr>mapScripts := mapScripts (cs_keys S), fWalletEncrypted := True\<rparr>"
  define K1 where "K1 = load_ckeys E ?all ?K0"
  have all: "list_all (ckey_good E L mk) ?all" using K P by simp
  note load = load_ckeys_ok [OF all, of ?K0, folded K1_def]
  have crypt: "fmlookup (mapCryptedKeys K1) pub = map_of (rev ?all) pub" for pub
    using load [of pub] by (cases "map_of (rev ?all) pub") (simp_all add: empty_keys_def del: rev_append map_of_append)
  have sel: "mapKeys K1 = fmempty" "fWalletEncrypted K1" "fWalletLocked K1" using load by (simp_all add: empty_keys_def)
  have opens: "\<exists>priv. DecryptSecret L mk c (WalletKeyIV E pub) = Some priv \<and> priv_to_pub L priv = Some pub"
    if "fmlookup (mapCryptedKeys K1) pub = Some c" for pub c
  proof -
    have "(pub, c) \<in> set ?all" by (rule map_of_rev_mem [OF trans [OF crypt [symmetric] that]])
    then have "ckey_good E L mk (pub, c)" using all by (auto simp: list_all_iff)
    then show ?thesis using EncryptSecret_opens by (auto simp: ckey_good_def)
  qed
  have own: "\<exists>c. fmlookup (mapCryptedKeys K1) pub = Some c \<and> DecryptSecret L mk c (WalletKeyIV E pub) = Some priv"
    if k: "fmlookup (mapKeys (cs_keys S)) pub = Some priv" for pub priv
  proof -
    have "(pub, priv) \<in> set ?plain" using k by (simp add: entries_lookup)
    then obtain c where c: "(pub, c) \<in> set cks" "EncryptSecret L mk priv (WalletKeyIV E pub) = Some c" using K by auto
    have d: "distinct (map fst cks)" using K entries_distinct [of "mapKeys (cs_keys S)"] by simp
    have "pub \<notin> fst ` set pks" using P k by auto
    then have "map_of (rev ?all) pub = map_of (rev cks) pub"
      by (simp add: map_add_def map_of_eq_None_iff [THEN iffD2] split: option.split)
    also have "\<dots> = Some c" using c(1) d by (intro map_of_is_SomeI) (simp_all add: rev_map [symmetric])
    finally show ?thesis using crypt EncryptSecret_opens [OF c(2)] by auto
  qed
  have len: "length mk = 32"
  proof -
    obtain pub priv where "fmlookup (mapKeys (cs_keys S)) pub = Some priv" using keys0 by (metis fmap_ext fmempty_lookup not_None_eq)
    then show ?thesis using own [of pub priv] by (auto simp: DecryptSecret_def split: if_split_asm)
  qed
  have valid: "candidate_valid E L K1 mk"
  proof (cases "sorted_list_of_fmap (mapCryptedKeys K1)")
    case (Cons x xs)
    obtain pub c where "x = (pub, c)" by (cases x)
    moreover have "fmlookup (mapCryptedKeys K1) pub = Some c"
      using Cons calculation by (simp flip: entries_lookup)
    ultimately show ?thesis using opens [of pub c] Cons by (auto simp: candidate_valid_def)
  qed (simp add: candidate_valid_def)
  have candidate: "unlock_candidate E L K1 pass kM = Some mk"
    using master EncryptSecret_opens len valid
    by (auto simp: encrypt_master_def unlock_candidate_def split: option.split_asm)
  let ?S1 = "LoadEncrypted E p S"
  have S1: "cs_keys ?S1 = K1" "vchHDMaster (cs_hd ?S1) = []" "vchHDChainCode (cs_hd ?S1) = []"
    "vchCryptedHDMaster ?S1 = m" "vchCryptedHDChainCode ?S1 = c"
    "mapMasterKeys ?S1 = fmupd (nWalletMasterKeyMaxID S + 1) kM fmempty"
    by (simp_all add: LoadEncrypted_def p K1_def)
  show "GetWalletPrivKey E L (cs_keys ?S1) pub = None"
    using sel by (simp add: S1(1) GetWalletPrivKey_def IsWalletLocked_def split: option.split)
  have "map snd (sorted_list_of_fmap (mapMasterKeys ?S1)) = [kM]"
    by (simp add: S1(6) sorted_list_of_fmap_def fmdom_fmupd sorted_list_of_fset.rep_eq)
  then have unlock: "UnlockWallet E L pass ?S1 = open_wallet E L mk ?S1"
    using sel candidate by (simp add: UnlockWallet_def S1(1))
  have seeds: "(m = [] \<and> c = [] \<and> vchHDMaster ?H = [] \<and> vchHDChainCode ?H = []) \<or>
      (m \<noteq> [] \<and> c \<noteq> [] \<and> open_secret E L mk m ''hdmaster'' = Some (vchHDMaster ?H) \<and>
       open_secret E L mk c ''hdchaincode'' = Some (vchHDChainCode ?H))"
    using seed EncryptSecret_opens
    by (fastforce simp: encrypt_seed_def open_secret_def split: if_split_asm option.split_asm)
  define S' where "S' = fst (open_wallet E L mk ?S1)"
  have S': "snd (open_wallet E L mk ?S1) = None" "cs_keys S' = K1\<lparr>vWalletMasterKey := mk, fWalletLocked := False\<rparr>"
    "vchHDMaster (cs_hd S') = vchHDMaster ?H" "vchHDChainCode (cs_hd S') = vchHDChainCode ?H"
    using seeds by (auto simp: S'_def open_wallet_def Let_def S1)
  have "GetWalletPrivKey E L (cs_keys S') pub = Some priv" if k: "fmlookup (mapKeys (cs_keys S)) pub = Some priv" for pub priv
    using own [OF k] good(2) k sel by (auto simp: S'(2) GetWalletPrivKey_def IsWalletLocked_def pairs_good_def)
  then show "\<exists>S'. UnlockWallet E L pass ?S1 = (S', None) \<and> \<not> IsWalletLocked (cs_keys S') \<and>
      vchHDMaster (cs_hd S') = vchHDMaster ?H \<and> vchHDChainCode (cs_hd S') = vchHDChainCode ?H \<and>
      (\<forall>pub priv. fmlookup (mapKeys (cs_keys S)) pub = Some priv \<longrightarrow> GetWalletPrivKey E L (cs_keys S') pub = Some priv)"
    using S' unlock by (intro exI [of _ S']) (auto simp: S'_def IsWalletLocked_def prod_eq_iff)
qed

end

end
