(* ===== verification/Wallet_Examples.thy ===== *)
theory Wallet_Examples
  imports WalletProps Encrypt Node_Examples Examples
begin

text \<open>
  A wallet for the witnesses: it has one key, a coin of 100,000 that came as the change of a
  payment of ours, and the spent coin before it; the libraries are those of \<open>sign_ext\<close> and
  \<open>ref_keys\<close>.
\<close>

section \<open>Keys\<close>

definition wx_hash :: uint160 where "wx_hash = Hash160 sign_ext ex_key"

definition wx_keys :: key_store where
  "wx_keys = empty_keys\<lparr>mapKeys := fmupd ex_key ex_key fmempty, mapPubKeys := [wx_hash \<mapsto> ex_key]\<rparr>"

lemma wx_scripts: "scripts_end wx_keys r"
  by (simp add: scripts_end_def wx_keys_def empty_keys_def)

lemma wx_can: "WalletCanSpendKey wx_keys pk \<longleftrightarrow> pk = ex_key"
  by (simp add: WalletCanSpendKey_def wx_keys_def empty_keys_def)

lemma wx_pub: "mapPubKeys wx_keys = [wx_hash \<mapsto> ex_key]"
  by (simp add: wx_keys_def)

lemma wx_holds: "holds_key sign_ext ref_keys wx_keys wx_hash ex_key ex_key"
  by (simp add: holds_key_def wx_can GetWalletPrivKey_def MAX_SCRIPT_ELEMENT_SIZE_def)
    (simp add: wx_keys_def wx_hash_def ref_keys_def ex_key_def)

lemma wx_mine: "scriptPubKey o1 = p2pkh wx_hash \<Longrightarrow> Mine wx_keys o1"
proof -
  assume o1: "scriptPubKey o1 = p2pkh wx_hash"
  have "can_spend_plain wx_keys (p2pkh wx_hash)"
    by (simp add: can_spend_plain_def Solver_p2pkh opcodes wx_can wx_pub)
  then have "IsMine wx_keys (p2pkh wx_hash) = Some True"
    by (subst IsMine.simps) (simp add: SolverTyped_p2pkh)
  then show ?thesis by (simp add: Mine_def o1)
qed

section \<open>Transactions\<close>

definition wx_old :: CTransaction where
  "wx_old = \<lparr>nVersion = 1, vin = [], vout = [\<lparr>nValue = 200000 * COIN, scriptPubKey = p2pkh wx_hash\<rparr>], nLockTime = 0\<rparr>"

definition wx_coin :: CTransaction where
  "wx_coin = \<lparr>nVersion = 2, vin = [\<lparr>prevout = \<lparr>out_hash = SerializeHash_tx sign_ext wx_old, out_n = 0\<rparr>,
     scriptSig = [], nSequence = 0\<rparr>],
     vout = [\<lparr>nValue = 100000 * COIN, scriptPubKey = p2pkh wx_hash\<rparr>], nLockTime = 0\<rparr>"

text \<open>The placeholder hash keeps the first byte, here that of the version.\<close>

lemma sign_hash_value: "\<exists>r. unat (Hash sign_ext (c # cs)) = unat c + 256 * le_nat r"
proof -
  obtain r where r: "SHA256 sign_ext (SHA256 sign_ext (c # cs)) = c # r" "length r = 31"
    by (simp add: sign_ext_def ext_with_def toy_hash_Cons [of 31, simplified] del: replicate_Suc)
  have "unat (word_of_nat (unat c + 256 * le_nat r) :: uint256) = unat c + 256 * le_nat r"
    using le_nat_bound [of "c # r"] r(2) by (simp add: unat_of_nat del: of_nat_add of_nat_mult)
  then show ?thesis by (intro exI [of _ r]) (simp add: Hash_def uint256_of_bytes_def r(1))
qed

lemma sign_hash_first: "Hash sign_ext (b # bs) = Hash sign_ext (b' # bs') \<Longrightarrow> b = b'"
proof -
  assume same: "Hash sign_ext (b # bs) = Hash sign_ext (b' # bs')"
  obtain r r' where "unat b + 256 * le_nat r = unat b' + 256 * le_nat r'"
    using sign_hash_value [of b bs] sign_hash_value [of b' bs'] same by metis
  then have "(unat b + 256 * le_nat r) mod 256 = (unat b' + 256 * le_nat r') mod 256" by (rule arg_cong)
  then have "unat b = unat b'" using unat_byte_lt [of b] unat_byte_lt [of b'] by simp
  then show ?thesis by (simp add: word_unat_eq_iff)
qed

lemma sign_hash_nonzero: "b \<noteq> 0 \<Longrightarrow> Hash sign_ext (b # bs) \<noteq> 0"
  using sign_hash_value [of b bs] by (metis add_is_0 unat_0 unat_eq_zero)

definition wx_spend :: CTransaction where
  "wx_spend = \<lparr>nVersion = 3, vin = [\<lparr>prevout = \<lparr>out_hash = SerializeHash_tx sign_ext wx_coin, out_n = 0\<rparr>,
     scriptSig = [], nSequence = 0\<rparr>],
     vout = [\<lparr>nValue = COIN, scriptPubKey = []\<rparr>], nLockTime = 0\<rparr>"

lemma ser_version: "0 \<le> nVersion tx \<Longrightarrow> nVersion tx < 256 \<Longrightarrow>
    ser_CTransaction tx = word_of_int (nVersion tx) # tl (ser_CTransaction tx)"
proof -
  assume v: "0 \<le> nVersion tx" "nVersion tx < 256"
  have "Suc 3 = 4" by simp
  then have "le_bytes 4 n = word_of_nat (n mod 256) # le_bytes 3 (n div 256)" for n
    using le_bytes.simps(2) [of 3 n] by simp
  moreover have "u32_of (nVersion tx) = nat (nVersion tx)" "nat (nVersion tx) mod 256 = nat (nVersion tx)"
    using v by (simp_all add: u32_of_def)
  ultimately show ?thesis using v by (simp add: ser_CTransaction_def ser_int32_def)
qed

lemma wx_version:
  "SerializeHash_tx sign_ext wx_old = Hash sign_ext (1 # tl (ser_CTransaction wx_old))"
  "SerializeHash_tx sign_ext wx_coin = Hash sign_ext (2 # tl (ser_CTransaction wx_coin))"
  "SerializeHash_tx sign_ext wx_spend = Hash sign_ext (3 # tl (ser_CTransaction wx_spend))"
  using ser_version [of wx_old] ser_version [of wx_coin] ser_version [of wx_spend]
  by (simp_all add: SerializeHash_tx_def) (simp_all add: wx_old_def wx_coin_def wx_spend_def)

lemma wx_hashes: "SerializeHash_tx sign_ext wx_old \<noteq> SerializeHash_tx sign_ext wx_coin"
  "SerializeHash_tx sign_ext wx_spend \<noteq> SerializeHash_tx sign_ext wx_coin"
  "SerializeHash_tx sign_ext wx_spend \<noteq> SerializeHash_tx sign_ext wx_old"
  using sign_hash_first [of 1 _ 2] sign_hash_first [of 3 _ 2] sign_hash_first [of 3 _ 1] unfolding wx_version by fastforce+

section \<open>The wallet\<close>

definition wx_wallet :: wallet where
  "wx_wallet =
    fmupd (SerializeHash_tx sign_ext wx_coin) ((new_CWalletTx wx_coin)\<lparr>fFromMe := True\<rparr>)
      (fmupd (SerializeHash_tx sign_ext wx_old) ((new_CWalletTx wx_old)\<lparr>fSpent := True\<rparr>) fmempty)"

lemma wx_lookup:
  "fmlookup wx_wallet h =
    (if h = SerializeHash_tx sign_ext wx_coin then Some ((new_CWalletTx wx_coin)\<lparr>fFromMe := True\<rparr>)
     else if h = SerializeHash_tx sign_ext wx_old then Some ((new_CWalletTx wx_old)\<lparr>fSpent := True\<rparr>) else None)"
  by (simp add: wx_wallet_def)

lemma wx_sum: "(\<Sum>(h, w)\<leftarrow>sorted_list_of_fmap wx_wallet. f w) =
    f ((new_CWalletTx wx_coin)\<lparr>fFromMe := True\<rparr>) + (f ((new_CWalletTx wx_old)\<lparr>fSpent := True\<rparr>) :: int)"
proof -
  have "set (sorted_list_of_fmap wx_wallet) =
      {(SerializeHash_tx sign_ext wx_coin, (new_CWalletTx wx_coin)\<lparr>fFromMe := True\<rparr>),
       (SerializeHash_tx sign_ext wx_old, (new_CWalletTx wx_old)\<lparr>fSpent := True\<rparr>)}"
    using wx_hashes(1) by (auto simp: entries_lookup wx_lookup split: if_split_asm)
  moreover have "distinct (sorted_list_of_fmap wx_wallet)" using entries_distinct distinct_map by blast
  ultimately show ?thesis using wx_hashes(1) by (simp add: sum_list_distinct_conv_sum_set)
qed

lemma new_CWalletTx_sel [simp]: "mtx (new_CWalletTx tx) = tx" "\<not> fSpent (new_CWalletTx tx)" "hashBlock (new_CWalletTx tx) = 0"
  by (simp_all add: new_CWalletTx_def)

lemma wx_own: "own_value wx_keys wx_coin = 100000 * COIN" "own_value wx_keys wx_old = 200000 * COIN"
  by (simp_all add: own_value_def CTxOut_GetCredit_def wx_mine wx_coin_def wx_old_def)

lemma wx_money: "wallet_money wx_keys wx_wallet"
proof -
  have "(\<Sum>(h, w)\<leftarrow>sorted_list_of_fmap wx_wallet. own_value wx_keys (mtx w)) < I64_MAX"
    unfolding wx_sum [of "\<lambda>w. own_value wx_keys (mtx w)"] by (simp add: wx_own COIN_def I64_MAX_def)
  moreover have "fmlookup wx_wallet h = Some w \<Longrightarrow> list_all (\<lambda>o1. 0 \<le> CTxOut_GetCredit wx_keys o1) (vout (mtx w))" for h w
    by (auto simp: wx_lookup CTxOut_GetCredit_def wx_coin_def wx_old_def COIN_def split: if_split_asm)
  ultimately show ?thesis by (auto simp: wallet_money_def)
qed

lemma wx_keyed: "wallet_keyed sign_ext wx_wallet"
  by (auto simp: wallet_keyed_def wx_lookup tx_hash_def wx_coin_def wx_old_def split: if_split_asm)

definition wx_hd :: hd_state where
  "wx_hd = \<lparr>hd_keys = wx_keys, vchHDMaster = [], vchHDChainCode = [], nHDNext = 0, nHDReceiveNext = 0,
     nHDChangeNext = 0, nHDKeySchema = HD_SCHEMA_NONE, nHDCoinType = 0, mapKeyPool = fmempty, nKeysMade = 0\<rparr>"

definition wx_state :: wallet_state where
  "wx_state = \<lparr>ws_node = ex_node, ws_hd = wx_hd, ws_wallet = wx_wallet, ws_rnd = 0\<rparr>"

definition wx_lib :: hd_lib where
  "wx_lib = \<lparr>hmac_sha512 = (\<lambda>k d. None), pbkdf2_sha512 = (\<lambda>p s. None), ec_point_oct = (\<lambda>k. None),
     ec_set_private = (\<lambda>s. None), MakeNewKey = (\<lambda>n. (replicate 33 (word_of_nat n), [1]))\<rparr>"

definition wx_env :: wallet_env where
  "wx_env = \<lparr>wE = sign_ext, wN = ex_net, wL = ref_keys, wD = wx_lib, wWritten = True, wTime = 0,
     wAddr = unat, wRnd = even, nTransactionFee = 0, nPayTxFeePerKB = 0\<rparr>"

lemma wx_sel [simp]: "ws_node wx_state = ex_node" "ws_hd wx_state = wx_hd" "ws_wallet wx_state = wx_wallet"
  "hd_keys wx_hd = wx_keys" "wE wx_env = sign_ext" "nTransactionFee wx_env = 0" "nPayTxFeePerKB wx_env = 0"
  by (simp_all add: wx_state_def wx_hd_def wx_env_def)

lemma wx_no_seed: "\<not> HaveHDSeed wx_hd"
  by (simp add: HaveHDSeed_def wx_hd_def)

lemma wx_sound: "wallet_sound wx_env wx_state"
  by (simp add: wallet_sound_def wx_keyed wx_money settled_no_seed wx_no_seed)

lemma wx_spendable: "total_of (spendable sign_ext ex_node wx_keys wx_wallet 0 1) = 100000 * COIN"
proof -
  let ?val = "usable_value sign_ext ex_node wx_keys wx_wallet 0 1"
  have "wtx_depth sign_ext ex_node w = 0" if "hashBlock w = 0" for w
    using that by (simp add: wtx_depth_def GetDepthInMainChain_def CMerkleTx.truncate_def)
  moreover have "0 < tx_GetDebit wx_keys wx_wallet wx_coin"
    by (simp add: tx_GetDebit_def CTxIn_GetDebit_def prev_mine_def wx_coin_def wx_lookup wx_hashes)
      (simp add: wx_old_def wx_mine COIN_def i64_pos)
  moreover have "tx_GetCredit wx_keys wx_coin = 100000 * COIN"
    using tx_GetCredit_own [OF wx_money, of "SerializeHash_tx sign_ext wx_coin"] wx_own by (simp add: wx_lookup)
  moreover have "\<not> IsCoinBase wx_coin" "IsFinal n wx_coin" for n
    by (simp_all add: wx_coin_def IsCoinBase_def COutPoint_IsNull_def IsFinal_def)
  ultimately have coin: "?val ((new_CWalletTx wx_coin)\<lparr>fFromMe := True\<rparr>) = Some (100000 * COIN)"
    by (simp add: usable_value_def wtx_GetCredit_def Let_def COIN_def)
  have old: "?val ((new_CWalletTx wx_old)\<lparr>fSpent := True\<rparr>) = None"
    by (simp add: usable_value_def)
  have "total_of (usable ?val es) = (\<Sum>(h, w)\<leftarrow>es. case ?val w of None \<Rightarrow> 0 | Some n \<Rightarrow> n)" for es
    by (induction es) (auto split: option.split)
  then show ?thesis unfolding spendable_def by (simp add: wx_sum coin old)
qed

lemma wx_next: "(next_hd wx_env ^^ n) wx_hd = wx_hd"
  by (induction n) (simp_all add: next_hd_none wx_no_seed)

lemma wx_change: "\<not> change_fails wx_env wx_state"
proof
  assume "change_fails wx_env wx_state"
  then obtain k n cs where cs: "cs \<noteq> []" "set cs \<subseteq> fmran' wx_wallet"
    "snd (change_key wx_env (wx_state\<lparr>ws_rnd := k, ws_hd := wx_hd\<rparr>) cs) = []"
    by (auto simp: change_fails_def wx_next)
  then obtain w rest where w: "cs = w # rest" "w \<in> fmran' wx_wallet" by (cases cs) auto
  have "first_pubkey wx_keys (vout (mtx w)) = ex_key"
  proof -
    have "ExtractPubKey wx_keys (p2pkh wx_hash) True = Some ex_key"
      by (simp add: ExtractPubKey_def Solver_p2pkh opcodes wx_pub wx_can)
    moreover obtain v where "vout (mtx w) = [\<lparr>nValue = v, scriptPubKey = p2pkh wx_hash\<rparr>]"
      using w(2) by (auto elim!: fmran'E simp: wx_lookup wx_coin_def wx_old_def split: if_split_asm)
    ultimately show ?thesis by (simp add: wx_mine)
  qed
  then show False using cs(3) w(1) by (simp add: change_key_def wx_no_seed ex_key_def)
qed

lemma wx_can_pay: "\<not> cannot_pay wx_env spk (5 * COIN) wNew wx_state 0"
proof -
  have "fee_needed wx_env w < 99995 * COIN" for w
  proof -
    have "GetSerializeSize_CTransaction (mtx w) mod 2 ^ 32 div 1000 \<le> 4294967"
      by (rule order_trans [OF div_le_mono [of _ "2 ^ 32 - 1"]]) (simp_all add: less_Suc_eq_le [symmetric])
    then have "GetMinFee True (mtx w) \<le> (1 + 4294967) * CENT" by (simp add: GetMinFee_def Let_def CENT_def)
    moreover have "FeeForSize 0 n = 0" for n by (simp add: FeeForSize_def i64_pos)
    ultimately show ?thesis by (simp add: fee_needed_def COIN_def CENT_def)
  qed
  moreover have "(0 :: int) < 99995 * COIN" by (simp add: COIN_def)
  ultimately have bound: "nF < 99995 * COIN" if "nF = 0 \<or> round_fee wx_env spk (5 * COIN) wNew wx_keys wx_wallet nF" for nF
    using that unfolding round_fee_def by metis
  show ?thesis
  proof
    assume "cannot_pay wx_env spk (5 * COIN) wNew wx_state 0"
    then obtain nF where nF: "nF = 0 \<or> round_fee wx_env spk (5 * COIN) wNew wx_keys wx_wallet nF" "100000 * COIN < 5 * COIN + nF"
      unfolding cannot_pay_def wx_sel wx_spendable using wx_change by blast
    then show False using bound [OF nF(1)] by linarith
  qed
qed

lemma wx_amounts: "amounts_ok wx_env (5 * COIN)"
  by (simp add: amounts_ok_def COIN_def MAX_MONEY_value)

section \<open>A payment of ours\<close>

lemma wx_spend_new: "fmlookup wx_wallet (SerializeHash_tx sign_ext wx_spend) = None"
  by (simp add: wx_lookup wx_hashes)

lemma wx_sighash: "SignatureHash sign_ext (p2pkh h) wx_spend 0 SIGHASH_ALL \<noteq> 0"
proof -
  obtain tmp where tmp: "sighash_tx (p2pkh h) wx_spend 0 SIGHASH_ALL = Some tmp" "nVersion tmp = 3"
    by (simp add: sighash_tx_def Let_def SIGHASH_ALL_def SIGHASH_NONE_def SIGHASH_SINGLE_def SIGHASH_ANYONECANPAY_def wx_spend_def)
  have "ser_CTransaction tmp = 3 # tl (ser_CTransaction tmp)" using ser_version [of tmp] tmp(2) by simp
  then have "Hash sign_ext (ser_CTransaction tmp @ x) = Hash sign_ext (3 # (tl (ser_CTransaction tmp) @ x))" for x
    by (metis append_Cons)
  then show ?thesis using sign_hash_nonzero [of 3] by (simp add: SignatureHash_def tmp(1))
qed

lemma wx_spend_input: "0 < length (vin wx_spend)" "unat (out_n (prevout (vin wx_spend ! 0))) < length (vout wx_coin)"
  "out_hash (prevout (vin wx_spend ! 0)) = SerializeHash_tx sign_ext wx_coin"
  "scriptPubKey (vout wx_coin ! unat (out_n (prevout (vin wx_spend ! 0)))) = p2pkh wx_hash"
  by (simp_all add: wx_spend_def wx_coin_def)

lemma wx_spend_prevs: "\<forall>h \<in> set (prev_hashes (new_CWalletTx wx_spend)). \<exists>v. fmlookup wx_wallet h = Some v \<and> \<not> fSpent v"
  by (simp add: prev_hashes_def wx_spend_def wx_lookup)

lemma wx_pool_ok: "Mempool.pool_ok sign_ext (nd_pool ex_node)"
  using ex_pool_ok by (simp add: ex_node_def)

lemma wx_keypool_ok: "keypool_ok wx_hd"
  by (simp add: keypool_ok_def wx_hd_def fcard_fempty)

section \<open>An encrypted wallet\<close>

definition ec_lib :: hd_lib where
  "ec_lib = \<lparr>hmac_sha512 = (\<lambda>k d. None), pbkdf2_sha512 = (\<lambda>p s. None), ec_point_oct = (\<lambda>k. None),
     ec_set_private = (\<lambda>s. None), MakeNewKey = (\<lambda>n. (ex_key, ex_key))\<rparr>"

definition ec_pass :: bytes where "ec_pass = replicate 8 65"

definition ec_state :: crypt_state where
  "ec_state = \<lparr>cs_hd = wx_hd, vchCryptedHDMaster = [], vchCryptedHDChainCode = [], mapMasterKeys = fmempty,
     nWalletMasterKeyMaxID = 0\<rparr>"

lemma ec_sel: "cs_hd ec_state = wx_hd"
  by (simp add: ec_state_def)

lemma ec_key: "fmlookup (mapKeys (cs_keys ec_state)) ex_key = Some ex_key"
  by (simp add: ec_sel wx_keys_def)

lemma ec_good: "hd_good ref_keys ec_lib" "pairs_good ref_keys (cs_keys ec_state)"
  by (auto simp: hd_good_def pairs_good_def ec_lib_def SetSecret_def ref_keys_def ec_sel wx_keys_def empty_keys_def ex_key_def
      split: if_split_asm)

lemma ec_pool: "\<exists>es. encrypt_pool E L ec_lib mk wx_hd n i nNext made = Inr ([], es, nNext)"
proof (induction n arbitrary: i made)
  case (Suc n)
  obtain es where "encrypt_pool E L ec_lib mk wx_hd n (i + 1) nNext (made + 1) = Inr ([], es, nNext)" using Suc by blast
  then show ?case by (simp add: Let_def wx_hd_def ec_lib_def wx_keys_def)
qed simp

lemma ec_encrypts:
  "\<exists>p. EncryptWallet sign_ext ref_keys ec_lib ec_pass (Some (replicate 32 7)) (Some (replicate 8 1)) (cs_hd ec_state) = Inr p"
proof -
  let ?mk = "replicate 32 7 :: bytes"
  have iv: "length (WalletKeyIV sign_ext b) = 16" for b
    by (simp add: WalletKeyIV_def bytes_of_uint256_def)
  have keys: "sorted_list_of_fmap (mapKeys wx_keys) = [(ex_key, ex_key)]"
    by (simp add: wx_keys_def empty_keys_def sorted_list_of_fmap_def fmdom_fmupd sorted_list_of_fset.rep_eq)
  obtain c where c: "encrypt_keys sign_ext ref_keys ?mk (sorted_list_of_fmap (mapKeys wx_keys)) = Some c"
    using iv [of ex_key] by (simp add: keys EncryptPrivateKeyForWallet_def EncryptSecret_def)
      (simp add: ref_keys_def)
  obtain k where k: "encrypt_master ref_keys ec_pass ?mk (replicate 8 1) = Some k"
    by (simp add: encrypt_master_def DeriveWalletPassphraseKey_def EncryptSecret_def ref_keys_def ec_pass_def)
  have "encrypt_seed sign_ext ref_keys ?mk wx_hd = Inr ([], [])" by (simp add: encrypt_seed_def wx_hd_def)
  moreover obtain es where "encrypt_pool sign_ext ref_keys ec_lib ?mk wx_hd KEYPOOL_SIZE 1 (nHDNext wx_hd) (nKeysMade wx_hd) = Inr ([], es, nHDNext wx_hd)"
    using ec_pool by blast
  moreover have "mapKeys wx_keys \<noteq> fmempty" using ec_key by (auto simp: ec_sel)
  moreover have "\<not> fWalletEncrypted wx_keys" "\<not> length ec_pass < 8" by (simp_all add: wx_keys_def empty_keys_def ec_pass_def)
  ultimately show ?thesis using c k by (simp add: EncryptWallet_def ec_sel)
qed

end
