(* ===== verification/Base58.thy ===== *)
theory Base58
  imports Bip39 Bignum
begin

text \<open>
  Base 58 and addresses (\<^verbatim>\<open>base58.h\<close>).  A string is read as C does, up to its first zero.  Encoding and
  decoding are inverse to each other both ways, so that an address without spaces around it is
  the only text of what it stands for.
\<close>

section \<open>The code\<close>

definition pszBase58 :: string where
  "pszBase58 = ''123456789ABCDEFGHJKLMNPQRSTUVWXYZabcdefghijkmnopqrstuvwxyz''"

function digits_loop :: "int \<Rightarrow> string \<Rightarrow> string" where
  "digits_loop bn str = (if 0 < bn then digits_loop (bn div 58) (str @ [pszBase58 ! nat (bn mod 58)]) else str)"
  by pat_completeness auto
termination
  by (relation "measure (\<lambda>(bn, str). nat bn)") auto

declare digits_loop.simps [simp del]

definition EncodeBase58 :: "ext \<Rightarrow> bytes \<Rightarrow> string" where
  "EncodeBase58 E vch =
    rev (digits_loop (setvch E (rev vch @ [0])) [] @ map (\<lambda>_. pszBase58 ! 0) (takeWhile (\<lambda>b. b = 0) vch))"

definition base58_index :: "char \<rightharpoonup> nat" where
  "base58_index = map_of (zip pszBase58 [0 ..< 58])"

fun decode_loop :: "string \<Rightarrow> int \<Rightarrow> int option" where
  "decode_loop [] bn = Some bn"
| "decode_loop (c # cs) bn =
    (case base58_index c of
       None \<Rightarrow> if dropWhile isspace (c # cs) = [] then Some bn else None
     | Some i \<Rightarrow> decode_loop cs (bn * 58 + int i))"

text \<open>The sign byte \<^verbatim>\<open>getvch\<close> may put after the highest byte.\<close>

definition trim_sign :: "bytes \<Rightarrow> bytes" where
  "trim_sign v =
    (if 2 \<le> length v \<and> last v = 0 \<and> 0x80 \<le> unat (v ! (length v - 2)) then butlast v else v)"

definition DecodeBase58 :: "ext \<Rightarrow> string \<Rightarrow> bytes option" where
  "DecodeBase58 E str =
    (let psz = dropWhile isspace (takeWhile (\<lambda>c. c \<noteq> CHR 0x00) str)
     in case decode_loop psz 0 of
          None \<Rightarrow> None
        | Some bn \<Rightarrow>
            Some (replicate (length (takeWhile (\<lambda>c. c = pszBase58 ! 0) psz)) 0 @ rev (trim_sign (getvch E bn))))"

definition EncodeBase58Check :: "ext \<Rightarrow> bytes \<Rightarrow> string" where
  "EncodeBase58Check E vchIn = EncodeBase58 E (vchIn @ take 4 (bytes_of_uint256 (Hash E vchIn)))"

definition DecodeBase58Check :: "ext \<Rightarrow> string \<Rightarrow> bytes option" where
  "DecodeBase58Check E str =
    (case DecodeBase58 E str of
       None \<Rightarrow> None
     | Some v \<Rightarrow>
        if length v < 4 then None
        else if take 4 (bytes_of_uint256 (Hash E (take (length v - 4) v))) \<noteq> drop (length v - 4) v then None
        else Some (take (length v - 4) v))"

definition ADDRESSVERSION :: byte where "ADDRESSVERSION = 25"
definition SCRIPT_ADDRESSVERSION :: byte where "SCRIPT_ADDRESSVERSION = 28"

definition Hash160ToAddress :: "ext \<Rightarrow> uint160 \<Rightarrow> string" where
  "Hash160ToAddress E h = EncodeBase58Check E (ADDRESSVERSION # bytes_of_uint160 h)"

definition AddressToHash160 :: "ext \<Rightarrow> string \<Rightarrow> uint160 option" where
  "AddressToHash160 E str =
    (case DecodeBase58Check E str of
       None \<Rightarrow> None
     | Some v \<Rightarrow>
        if v = [] then None
        else if length v \<noteq> 21 then None
        else if hd v = ADDRESSVERSION then Some (uint160_of_bytes (tl v)) else None)"

definition Hash160ToScriptAddress :: "ext \<Rightarrow> uint160 \<Rightarrow> string" where
  "Hash160ToScriptAddress E h = EncodeBase58Check E (SCRIPT_ADDRESSVERSION # bytes_of_uint160 h)"

definition DecodeAnyAddress :: "ext \<Rightarrow> string \<Rightarrow> (uint160 \<times> bool) option" where
  "DecodeAnyAddress E str =
    (case DecodeBase58Check E str of
       None \<Rightarrow> None
     | Some v \<Rightarrow>
        if length v \<noteq> 21 then None
        else if hd v \<noteq> ADDRESSVERSION \<and> hd v \<noteq> SCRIPT_ADDRESSVERSION then None
        else Some (uint160_of_bytes (tl v), hd v = SCRIPT_ADDRESSVERSION))"

definition IsValidBitcoinAddress :: "ext \<Rightarrow> string \<Rightarrow> bool" where
  "IsValidBitcoinAddress E str \<longleftrightarrow> AddressToHash160 E str \<noteq> None"

definition PubKeyToAddress :: "ext \<Rightarrow> bytes \<Rightarrow> string" where
  "PubKeyToAddress E vchPubKey = Hash160ToAddress E (Hash160 E vchPubKey)"

section \<open>Digits\<close>

definition digit_char :: "nat \<Rightarrow> char" where
  "digit_char d = pszBase58 ! d"

lemma alphabet:
  "list_all (\<lambda>d. base58_index (digit_char d) = Some d \<and> \<not> isspace (digit_char d) \<and> digit_char d \<noteq> CHR 0x00) [0 ..< 58]"
  by code_simp

lemma digit_char [simp]:
  assumes "d < 58"
  shows "base58_index (digit_char d) = Some d" "\<not> isspace (digit_char d)"
    "digit_char d \<noteq> CHR 0x00" "CHR 0x00 \<noteq> digit_char d"
  using alphabet assms by (force simp: list_all_iff)+

lemma base58_index_Some: "base58_index c = Some d \<Longrightarrow> d < 58 \<and> c = digit_char d"
  unfolding base58_index_def digit_char_def
  by (auto dest!: map_of_SomeD simp: set_zip pszBase58_def)

lemma digit_char_0: "d < 58 \<Longrightarrow> digit_char d = digit_char 0 \<longleftrightarrow> d = 0"
  by (metis digit_char(1) option.inject zero_less_numeral)

fun to_digits :: "nat \<Rightarrow> nat list" where
  "to_digits n = (if n = 0 then [] else n mod 58 # to_digits (n div 58))"

declare to_digits.simps [simp del]

lemma to_digits_0 [simp]: "to_digits 0 = []"
  by (simp add: to_digits.simps)

definition digits_value :: "nat list \<Rightarrow> nat" where
  "digits_value ds = foldl (\<lambda>n d. n * 58 + d) 0 ds"

lemma digits_value_snoc [simp]: "digits_value (ds @ [d]) = digits_value ds * 58 + d"
  by (simp add: digits_value_def)

lemma to_digits_bound: "d \<in> set (to_digits n) \<Longrightarrow> d < 58"
  by (induction n rule: to_digits.induct) (subst (asm) (2) to_digits.simps, auto split: if_split_asm)

lemma digits_value_to: "digits_value (rev (to_digits n)) = n"
proof (induction n rule: to_digits.induct)
  case (1 n)
  then show ?case by (subst to_digits.simps) (simp add: digits_value_def [of "[]"])
qed

lemma to_digits_last: "0 < n \<Longrightarrow> to_digits n \<noteq> [] \<and> last (to_digits n) \<noteq> 0"
proof (induction n rule: to_digits.induct)
  case (1 n)
  show ?case
  proof (cases "n < 58")
    case True
    then show ?thesis using "1.prems" by (simp add: to_digits.simps)
  next
    case False
    then have "0 < n div 58" by (simp add: div_greater_zero_iff)
    then show ?thesis using "1.IH" "1.prems" by (subst to_digits.simps, subst (2) to_digits.simps) simp
  qed
qed

lemma to_digits_value:
  assumes "\<forall>d \<in> set ds. d < 58" "ds \<noteq> [] \<longrightarrow> hd ds \<noteq> 0"
  shows "to_digits (digits_value ds) = rev ds"
  using assms
proof (induction ds rule: rev_induct)
  case Nil
  then show ?case by (simp add: to_digits.simps digits_value_def)
next
  case (snoc d ds)
  have IH: "to_digits (digits_value ds) = rev ds" using snoc by (cases ds) auto
  have "digits_value ds * 58 + d \<noteq> 0"
  proof (cases ds)
    case Nil
    then show ?thesis using snoc.prems by simp
  next
    case (Cons x xs)
    then have "rev ds \<noteq> []" by simp
    then have "digits_value ds \<noteq> 0" using IH by (metis to_digits.simps)
    then show ?thesis by simp
  qed
  then show ?case using IH snoc.prems by (subst to_digits.simps) simp
qed

lemma digits_loop_to: "digits_loop (int n) str = str @ map digit_char (to_digits n)"
proof (induction n arbitrary: str rule: to_digits.induct)
  case (1 n)
  show ?case
  proof (cases "n = 0")
    case False
    have "int n div 58 = int (n div 58)" "nat (int n mod 58) = n mod 58" by (simp_all add: nat_mod_distrib zdiv_int)
    then show ?thesis
      using False "1.IH" by (subst digits_loop.simps, subst to_digits.simps) (simp add: digit_char_def)
  qed (simp add: digits_loop.simps to_digits.simps)
qed

lemma decode_loop_digits:
  "\<forall>d \<in> set ds. d < 58 \<Longrightarrow> decode_loop (map digit_char ds) (int n) = Some (int (foldl (\<lambda>n d. n * 58 + d) n ds))"
proof (induction ds arbitrary: n)
  case (Cons d ds)
  have eq: "int n * 58 + int d = int (n * 58 + d)" by simp
  show ?case using Cons.IH [of "n * 58 + d"] Cons.prems by (simp add: eq del: of_nat_add of_nat_mult)
qed simp

section \<open>Encoding and decoding\<close>

text \<open>A byte string is its leading zeros and the number behind them.\<close>

definition zeros :: "bytes \<Rightarrow> nat" where
  "zeros v = length (takeWhile (\<lambda>b. b = 0) v)"

lemma takeWhile_same: "takeWhile (\<lambda>x. x = a) xs = replicate (length (takeWhile (\<lambda>x. x = a) xs)) a"
  by (induction xs) auto

lemma takeWhile_replicate: "takeWhile (\<lambda>x. x = a) (replicate k a @ ys) = replicate k a @ takeWhile (\<lambda>x. x = a) ys"
  by (induction k) simp_all

lemma bytes_split: "v = replicate (zeros v) 0 @ rev (le_min (be_nat v))"
proof -
  let ?r = "dropWhile (\<lambda>b. b = 0) v"
  have v: "v = replicate (zeros v) 0 @ ?r"
    using takeWhile_same [of 0 v] takeWhile_dropWhile_id [of "\<lambda>b. b = 0" v] by (simp add: zeros_def)
  have "be_nat v = be_nat ?r" by (subst v) (simp add: be_nat_append be_nat_zeros)
  moreover have "rev ?r = [] \<or> last (rev ?r) \<noteq> 0" using hd_dropWhile [of "\<lambda>b. b = 0" v] by (auto simp: last_rev)
  then have "le_min (be_nat ?r) = rev ?r" using le_min_le_nat [of "rev ?r"] by (simp add: be_nat_def)
  ultimately show ?thesis using v by simp
qed

lemma le_min_last: "le_min n = [] \<or> last (le_min n) \<noteq> 0"
  using last_le_min [of n] by (cases "n = 0") simp_all

lemma zeros_split: "zeros (replicate k 0 @ rev (le_min n)) = k" "be_nat (replicate k 0 @ rev (le_min n)) = n"
proof -
  have "takeWhile (\<lambda>b. b = 0) (rev (le_min n)) = []"
    using le_min_last [of n] by (cases "rev (le_min n)") (auto simp: takeWhile_eq_Nil_iff hd_rev)
  then show "zeros (replicate k 0 @ rev (le_min n)) = k" by (simp add: zeros_def takeWhile_replicate)
  show "be_nat (replicate k 0 @ rev (le_min n)) = n"
    by (simp only: be_nat_append be_nat_zeros) (simp add: be_nat_def)
qed

lemma trim_body: "trim_sign (rev (mpi_body (int n))) = le_min n"
proof (cases "rev (le_min n)")
  case Nil
  then show ?thesis by (simp add: mpi_body_def trim_sign_def)
next
  case (Cons b bs)
  then have le: "le_min n = rev bs @ [b]" by (metis rev.simps(2) rev_swap)
  have "b \<noteq> 0" using le le_min_last [of n] by simp
  then show ?thesis
    by (cases bs rule: rev_cases) (auto simp: mpi_body_def Cons le trim_sign_def nth_append)
qed

definition base58_text :: "nat \<Rightarrow> nat list \<Rightarrow> string" where
  "base58_text k ds = map digit_char (replicate k 0 @ ds)"

lemma takeWhile_zeros:
  assumes "\<forall>d \<in> set ds. d < 58" "ds \<noteq> [] \<longrightarrow> hd ds \<noteq> 0"
  shows "length (takeWhile (\<lambda>c. c = digit_char 0) (base58_text k ds)) = k"
proof -
  have "takeWhile (\<lambda>c. c = digit_char 0) (map digit_char ds) = []"
    using assms digit_char_0 by (cases ds) auto
  then show ?thesis by (simp add: base58_text_def takeWhile_replicate)
qed

lemma foldl_zeros: "foldl (\<lambda>n d. n * 58 + d) 0 (replicate k 0 @ ds) = digits_value ds"
  by (induction k) (simp_all add: digits_value_def)

lemma text_plain:
  assumes "\<forall>d \<in> set ds. d < 58"
  shows "dropWhile isspace (takeWhile (\<lambda>c. c \<noteq> CHR 0x00) (base58_text k ds)) = base58_text k ds"
proof -
  have all: "\<forall>c \<in> set (base58_text k ds). \<not> isspace c \<and> c \<noteq> CHR 0x00" using assms by (auto simp: base58_text_def)
  then have "takeWhile (\<lambda>c. c \<noteq> CHR 0x00) (base58_text k ds) = base58_text k ds" by (simp add: takeWhile_eq_all_conv)
  moreover have "dropWhile isspace (base58_text k ds) = base58_text k ds"
    using all by (cases "base58_text k ds") auto
  ultimately show ?thesis by (simp only:)
qed

context openssl_bn
begin

lemma EncodeBase58_text:
  assumes "length v + 1 < 2 ^ 32"
  shows "EncodeBase58 E v = base58_text (zeros v) (rev (to_digits (be_nat v)))"
proof -
  have "setvch E (rev v @ [0]) = int (be_nat v)"
    using assms mpi2bn [of "0 # v"] by (simp add: setvch_def)
  moreover have "map (\<lambda>_. pszBase58 ! 0) (takeWhile (\<lambda>b. b = 0) v) = replicate (zeros v) (digit_char 0)"
    by (simp add: zeros_def digit_char_def map_replicate_const)
  ultimately show ?thesis
    by (simp add: EncodeBase58_def digits_loop_to base58_text_def rev_map)
qed

lemma DecodeBase58_text:
  assumes "\<forall>d \<in> set ds. d < 58" "ds \<noteq> [] \<longrightarrow> hd ds \<noteq> 0"
  shows "DecodeBase58 E (base58_text k ds) = Some (replicate k 0 @ rev (le_min (digits_value ds)))"
proof -
  have "\<forall>d \<in> set (replicate k 0 @ ds). d < 58" using assms(1) by auto
  then have "decode_loop (base58_text k ds) (int 0) = Some (int (digits_value ds))"
    unfolding base58_text_def by (subst decode_loop_digits) (simp_all only: foldl_zeros)
  moreover have "length (takeWhile (\<lambda>c. c = pszBase58 ! 0) (base58_text k ds)) = k"
    using takeWhile_zeros [OF assms] by (simp add: digit_char_def)
  ultimately show ?thesis
    using text_plain [OF assms(1)] getvch [of "int (digits_value ds)"] by (simp add: DecodeBase58_def trim_body)
qed

lemma Decode_Encode58:
  assumes "length v + 1 < 2 ^ 32"
  shows "DecodeBase58 E (EncodeBase58 E v) = Some v"
proof -
  have "\<forall>d \<in> set (rev (to_digits (be_nat v))). d < 58" using to_digits_bound by auto
  moreover have "rev (to_digits (be_nat v)) \<noteq> [] \<longrightarrow> hd (rev (to_digits (be_nat v))) \<noteq> 0"
    using to_digits_last [of "be_nat v"] by (cases "be_nat v = 0") (auto simp: hd_rev)
  note decode = DecodeBase58_text [OF calculation this]
  show ?thesis
    by (simp only: EncodeBase58_text [OF assms] decode digits_value_to bytes_split [of v, symmetric])
qed

text \<open>A text of the alphabet is what its bytes encode to: no two of them decode to the same.\<close>

lemma Encode_Decode58:
  assumes "\<forall>c \<in> set str. base58_index c \<noteq> None" "DecodeBase58 E str = Some v" "length v + 1 < 2 ^ 32"
  shows "EncodeBase58 E v = str"
proof -
  define k where "k = length (takeWhile (\<lambda>c. c = digit_char 0) str)"
  define ds where "ds = map (the \<circ> base58_index) (drop k str)"
  have str: "str = takeWhile (\<lambda>c. c = digit_char 0) str @ dropWhile (\<lambda>c. c = digit_char 0) str" by simp
  have drop: "drop k str = dropWhile (\<lambda>c. c = digit_char 0) str" by (simp add: k_def dropWhile_eq_drop)
  have digit: "\<exists>d. base58_index c = Some d \<and> d < 58 \<and> c = digit_char d" if "c \<in> set str" for c
    using assms(1) that base58_index_Some by blast
  have ds: "\<forall>d \<in> set ds. d < 58" "map digit_char ds = drop k str"
    using digit by (auto simp: ds_def dest!: in_set_dropD intro!: map_idI) force+
  have "str = replicate k (digit_char 0) @ drop k str"
    using str takeWhile_same [of "digit_char 0" str] unfolding drop by (simp only: k_def [symmetric])
  then have shape: "str = base58_text k ds" by (simp add: base58_text_def ds(2))
  have top: "ds \<noteq> [] \<longrightarrow> hd ds \<noteq> 0"
  proof
    assume "ds \<noteq> []"
    then have "drop k str \<noteq> []" "hd (drop k str) = digit_char (hd ds)" using ds(2) by (auto simp: hd_map simp flip: ds(2))
    moreover have "hd (drop k str) \<noteq> digit_char 0" using calculation(1) hd_dropWhile [of "\<lambda>c. c = digit_char 0" str] by (simp add: drop)
    ultimately show "hd ds \<noteq> 0" by metis
  qed
  have "v = replicate k 0 @ rev (le_min (digits_value ds))"
    using assms(2) DecodeBase58_text [OF ds(1) top, of k] by (simp add: shape)
  then show ?thesis
    using EncodeBase58_text [OF assms(3)] zeros_split [of k "digits_value ds"] to_digits_value [OF ds(1) top] by (simp add: shape)
qed

end

section \<open>Addresses\<close>

context openssl_bn
begin

lemma Decode_Encode58Check:
  assumes "length v + 5 < 2 ^ 32"
  shows "DecodeBase58Check E (EncodeBase58Check E v) = Some v"
  using assms Decode_Encode58 [of "v @ take 4 (bytes_of_uint256 (Hash E v))"]
  by (simp add: DecodeBase58Check_def EncodeBase58Check_def)

lemma address_round_trip:
  "AddressToHash160 E (Hash160ToAddress E h) = Some h"
  "DecodeAnyAddress E (Hash160ToAddress E h) = Some (h, False)"
  "DecodeAnyAddress E (Hash160ToScriptAddress E h) = Some (h, True)"
  "AddressToHash160 E (Hash160ToScriptAddress E h) = None"
  by (simp_all add: AddressToHash160_def DecodeAnyAddress_def Hash160ToAddress_def Hash160ToScriptAddress_def
      Decode_Encode58Check ADDRESSVERSION_def SCRIPT_ADDRESSVERSION_def uint160_bytes_inverse)

text \<open>What decodes as an address is, spaces aside, the address of the hash.\<close>

lemma address_unique:
  assumes "\<forall>c \<in> set str. base58_index c \<noteq> None" "DecodeAnyAddress E str = Some (h, script)"
  shows "str = (if script then Hash160ToScriptAddress E h else Hash160ToAddress E h)"
proof -
  obtain v where v: "DecodeBase58Check E str = Some v" "length v = 21" "h = uint160_of_bytes (tl v)"
    "hd v = (if script then SCRIPT_ADDRESSVERSION else ADDRESSVERSION)"
    using assms(2) by (auto simp: DecodeAnyAddress_def split: option.split_asm if_split_asm)
  obtain w where w: "DecodeBase58 E str = Some w" "4 \<le> length w" "v = take (length w - 4) w"
    "take 4 (bytes_of_uint256 (Hash E v)) = drop (length w - 4) w"
    using v(1) by (auto simp: DecodeBase58Check_def split: option.split_asm if_split_asm)
  have len: "length w = 25" using v(2) w(2,3) by simp
  have "w = v @ take 4 (bytes_of_uint256 (Hash E v))" using w(3,4) by (metis append_take_drop_id)
  then have "EncodeBase58Check E v = str"
    using Encode_Decode58 [OF assms(1) w(1)] len by (simp add: EncodeBase58Check_def)
  moreover have "v = hd v # bytes_of_uint160 h"
    using v(2,3) by (cases v) (simp_all add: bytes_uint160_inverse)
  ultimately show ?thesis using v(4) by (auto simp: Hash160ToAddress_def Hash160ToScriptAddress_def)
qed

end

end
