(* ===== verification/Recovery.thy ===== *)
theory Recovery
  imports KeyPool Base58
begin

text \<open>
  A wallet from its recovery phrase (\<^verbatim>\<open>SetHDSeedFromMnemonic\<close> of \<^verbatim>\<open>main.cpp\<close>).  The state is that of
  the key pool with the default key and the address book; the answers of the database are a
  record, one for each kind of write.  Two wallets given the same phrase hand out the same
  addresses in the same order.
\<close>

definition HD_BIP44_COIN_TYPE_BITFLASH :: u32 where "HD_BIP44_COIN_TYPE_BITFLASH = 4346950"

record seed_db =
  db_erase :: "int \<Rightarrow> bool"
  db_meta :: bool
  db_key :: bool
  db_default :: bool
  db_name :: bool

record seed_state =
  sd_hd :: hd_state
  keyUser :: "bytes \<times> bytes"
  mapAddressBook :: "string \<rightharpoonup> string"

datatype seed_error =
    BadPhrase bip39_error | NoSeed "bip39_error option" | BadMaster bip32_error | PoolNotCleared
  | MetadataNotWritten | DefaultNotDerived | DefaultNotWritten | DefaultNotSet

definition ClearKeyPoolRecords :: "seed_db \<Rightarrow> hd_state \<Rightarrow> hd_state \<times> bool" where
  "ClearKeyPoolRecords db S =
    (if list_all (\<lambda>(n, pub). db_erase db n) (sorted_list_of_fmap (mapKeyPool S))
     then (S\<lparr>mapKeyPool := fmempty\<rparr>, True) else (S, False))"

definition SetAddressBookName :: "string \<Rightarrow> string \<Rightarrow> seed_state \<Rightarrow> seed_state" where
  "SetAddressBookName strAddress strName S = S\<lparr>mapAddressBook := (mapAddressBook S)(strAddress \<mapsto> strName)\<rparr>"

text \<open>The metadata of the seed, written, and then the same in memory.\<close>

definition install_seed :: "BIP32PrivateNode \<Rightarrow> hd_state \<Rightarrow> hd_state" where
  "install_seed master S =
    S\<lparr>vchHDMaster := privateKey master, vchHDChainCode := chainCode master, nHDKeySchema := HD_SCHEMA_BIP44,
      nHDReceiveNext := 1, nHDChangeNext := 0, nHDCoinType := HD_BIP44_COIN_TYPE_BITFLASH, nHDNext := 0\<rparr>"

text \<open>The key of index 0 becomes the default, and the old default is named for what it is.\<close>

definition set_default ::
    "ext \<Rightarrow> key_lib \<Rightarrow> hd_lib \<Rightarrow> seed_db \<Rightarrow> seed_state \<Rightarrow> seed_state \<times> seed_error option" where
  "set_default E L D db S =
    (case DeriveHDKey D (sd_hd S) 0 of
       None \<Rightarrow> (S, Some DefaultNotDerived)
     | Some (pub, priv) \<Rightarrow>
        (case AddKeyIfMissing E L pub priv (db_key db) (hd_keys (sd_hd S)) of
           (K', ok) \<Rightarrow>
             let S1 = S\<lparr>sd_hd := (sd_hd S)\<lparr>hd_keys := K'\<rparr>\<rparr>
             in if \<not> ok then (S1, Some DefaultNotWritten)
                else if \<not> db_default db then (S1, Some DefaultNotSet)
                else
                  let S2 = SetAddressBookName (PubKeyToAddress E pub) ''Your Address'' S1
                  in if \<not> db_name db then (S2, Some DefaultNotSet)
                     else
                       let old = fst (keyUser S);
                           S3 = (if old \<noteq> [] \<and> old \<noteq> pub
                                 then SetAddressBookName (PubKeyToAddress E old)
                                        ''Your Address (created before the recovery phrase)'' S2
                                 else S2)
                       in (S3\<lparr>keyUser := (pub, priv)\<rparr>, None)))"

definition SetHDSeedFromMnemonic ::
    "ext \<Rightarrow> key_lib \<Rightarrow> hd_lib \<Rightarrow> seed_db \<Rightarrow> string \<Rightarrow> bytes \<Rightarrow> seed_state \<Rightarrow> seed_state \<times> seed_error option" where
  "SetHDSeedFromMnemonic E L D db strMnemonic strPassphrase S =
    (case BIP39ValidateMnemonic E strMnemonic of
       (_, Some e) \<Rightarrow> (S, Some (BadPhrase e))
     | (strNormalized, None) \<Rightarrow>
        (case BIP39MnemonicToSeed E D strNormalized strPassphrase of
           Inl e \<Rightarrow> (S, Some (NoSeed e))
         | Inr vchSeed \<Rightarrow>
            (case BIP32MasterFromSeed D vchSeed of
               Inl e \<Rightarrow> (S, Some (BadMaster e))
             | Inr master \<Rightarrow>
                (case ClearKeyPoolRecords db (sd_hd S) of
                   (H, False) \<Rightarrow> (S\<lparr>sd_hd := H\<rparr>, Some PoolNotCleared)
                 | (H, True) \<Rightarrow>
                     if \<not> db_meta db then (S\<lparr>sd_hd := H\<rparr>, Some MetadataNotWritten)
                     else set_default E L D db (S\<lparr>sd_hd := install_seed master H\<rparr>)))))"

section \<open>What the phrase decides\<close>

definition same_seed :: "hd_state \<Rightarrow> hd_state \<Rightarrow> bool" where
  "same_seed S T \<longleftrightarrow> vchHDMaster S = vchHDMaster T \<and> vchHDChainCode S = vchHDChainCode T \<and>
    nHDKeySchema S = nHDKeySchema T \<and> nHDCoinType S = nHDCoinType T"

lemma same_seed_refl [simp]: "same_seed S S"
  by (simp add: same_seed_def)

lemma same_seed_trans: "same_seed S T \<Longrightarrow> same_seed T U \<Longrightarrow> same_seed S U"
  by (simp add: same_seed_def)

lemma same_seed_derives:
  assumes "same_seed S T"
  shows "DeriveHDKey D S n = DeriveHDKey D T n" "DeriveHDChangeKey D S n = DeriveHDChangeKey D T n"
    "HaveHDSeed S = HaveHDSeed T"
  using assms by (simp_all add: same_seed_def DeriveHDKey_def DeriveHDChangeKey_def derive_path_def HaveHDSeed_def)

text \<open>The node a phrase leads to; case and spaces do not count.\<close>

definition phrase_node :: "ext \<Rightarrow> hd_lib \<Rightarrow> string \<Rightarrow> bytes \<Rightarrow> BIP32PrivateNode option" where
  "phrase_node E D m passphrase =
    (case pbkdf2_sha512 D (string_bytes (NormalizeMnemonic m)) (string_bytes ''mnemonic'' @ passphrase) of
       None \<Rightarrow> None
     | Some seed \<Rightarrow> (case BIP32MasterFromSeed D seed of Inl _ \<Rightarrow> None | Inr n \<Rightarrow> Some n))"

lemma SetHDSeed_cases:
  assumes "SetHDSeedFromMnemonic E L D db m pass S = (T, None)"
  obtains master where "phrase_node E D m pass = Some master" "node_valid master"
    "set_default E L D db (S\<lparr>sd_hd := install_seed master ((sd_hd S)\<lparr>mapKeyPool := fmempty\<rparr>)\<rparr>) = (T, None)"
proof -
  obtain norm where v: "BIP39ValidateMnemonic E m = (norm, None)"
    using assms by (auto simp: SetHDSeedFromMnemonic_def split: prod.split_asm option.split_asm)
  then have norm: "norm = NormalizeMnemonic m" by (auto simp: BIP39ValidateMnemonic_def Let_def)
  obtain seed where seed: "BIP39MnemonicToSeed E D norm pass = Inr seed"
    using assms v by (auto simp: SetHDSeedFromMnemonic_def split: sum.split_asm)
  obtain master where master: "BIP32MasterFromSeed D seed = Inr master"
    using assms v seed by (auto simp: SetHDSeedFromMnemonic_def split: sum.split_asm)
  have "pbkdf2_sha512 D (string_bytes (NormalizeMnemonic m)) (string_bytes ''mnemonic'' @ pass) = Some seed"
    using seed by (auto simp: BIP39MnemonicToSeed_def BIP39ValidateMnemonic_def Let_def norm split: option.split_asm prod.split_asm if_split_asm)
  then have "phrase_node E D m pass = Some master" by (simp add: phrase_node_def master)
  moreover have "set_default E L D db (S\<lparr>sd_hd := install_seed master ((sd_hd S)\<lparr>mapKeyPool := fmempty\<rparr>)\<rparr>) = (T, None)"
    using assms v seed master by (auto simp: SetHDSeedFromMnemonic_def ClearKeyPoolRecords_def split: if_split_asm)
  ultimately show ?thesis using that MasterFromSeed_valid [OF master] by blast
qed

lemma set_default_ok:
  assumes "set_default E L D db S = (T, None)"
  shows "DeriveHDKey D (sd_hd S) 0 = Some (keyUser T)" "WalletCanSpendKey (hd_keys (sd_hd T)) (fst (keyUser T))"
    "more_keys (hd_keys (sd_hd S)) (hd_keys (sd_hd T))"
    "sd_hd T = (sd_hd S)\<lparr>hd_keys := hd_keys (sd_hd T)\<rparr>"
    "mapAddressBook T (PubKeyToAddress E (fst (keyUser T))) \<noteq> None"
proof -
  obtain pub priv where key: "DeriveHDKey D (sd_hd S) 0 = Some (pub, priv)"
    using assms by (auto simp: set_default_def split: option.split_asm)
  obtain K' ok where add: "AddKeyIfMissing E L pub priv (db_key db) (hd_keys (sd_hd S)) = (K', ok)" by (metis surj_pair)
  note T = assms [unfolded set_default_def key option.case prod.case add Let_def]
  have ok: "ok" and user: "keyUser T = (pub, priv)" and hd: "sd_hd T = (sd_hd S)\<lparr>hd_keys := K'\<rparr>"
    and book: "mapAddressBook T (PubKeyToAddress E pub) \<noteq> None"
    using T by (auto simp: SetAddressBookName_def split: if_split_asm)
  show "DeriveHDKey D (sd_hd S) 0 = Some (keyUser T)" by (simp add: key user)
  show "WalletCanSpendKey (hd_keys (sd_hd T)) (fst (keyUser T))" "more_keys (hd_keys (sd_hd S)) (hd_keys (sd_hd T))"
    using AddKeyIfMissing_more [OF add] ok by (simp_all add: hd user)
  show "sd_hd T = (sd_hd S)\<lparr>hd_keys := hd_keys (sd_hd T)\<rparr>" by (simp add: hd)
  show "mapAddressBook T (PubKeyToAddress E (fst (keyUser T))) \<noteq> None" using book by (simp add: user)
qed

text \<open>What a wallet holds after a phrase was set, and what it keeps of what it had.\<close>

lemma SetHDSeed_ok:
  assumes "SetHDSeedFromMnemonic E L D db m pass S = (T, None)"
  obtains master where "phrase_node E D m pass = Some master" "HaveHDSeed (sd_hd T)"
    "vchHDMaster (sd_hd T) = privateKey master" "vchHDChainCode (sd_hd T) = chainCode master"
    "nHDKeySchema (sd_hd T) = HD_SCHEMA_BIP44" "nHDCoinType (sd_hd T) = HD_BIP44_COIN_TYPE_BITFLASH"
    "nHDReceiveNext (sd_hd T) = 1" "nHDChangeNext (sd_hd T) = 0" "mapKeyPool (sd_hd T) = fmempty"
    "DeriveHDKey D (sd_hd T) 0 = Some (keyUser T)" "WalletCanSpendKey (hd_keys (sd_hd T)) (fst (keyUser T))"
    "more_keys (hd_keys (sd_hd S)) (hd_keys (sd_hd T))"
proof -
  obtain master where master: "phrase_node E D m pass = Some master" "node_valid master"
    and def: "set_default E L D db (S\<lparr>sd_hd := install_seed master ((sd_hd S)\<lparr>mapKeyPool := fmempty\<rparr>)\<rparr>) = (T, None)"
    using SetHDSeed_cases [OF assms] .
  let ?H = "install_seed master ((sd_hd S)\<lparr>mapKeyPool := fmempty\<rparr>)"
  note D0 = set_default_ok [OF def, simplified]
  have fields: "vchHDMaster (sd_hd T) = privateKey master" "vchHDChainCode (sd_hd T) = chainCode master"
    "nHDKeySchema (sd_hd T) = HD_SCHEMA_BIP44" "nHDCoinType (sd_hd T) = HD_BIP44_COIN_TYPE_BITFLASH"
    "nHDReceiveNext (sd_hd T) = 1" "nHDChangeNext (sd_hd T) = 0" "mapKeyPool (sd_hd T) = fmempty"
    by (subst D0(4), simp add: install_seed_def)+
  have "same_seed ?H (sd_hd T)" using fields by (simp add: same_seed_def install_seed_def)
  note same = same_seed_derives(1) [OF this, of D 0]
  have "HaveHDSeed (sd_hd T)"
    using fields(1,2) master(2) by (simp add: HaveHDSeed_def node_valid_def IsValidPrivateKey_def)
  then show ?thesis
    using that [OF master(1)] fields D0 same by (simp add: install_seed_def)
qed

section \<open>The pool a phrase fills\<close>

definition seed_pub :: "hd_lib \<Rightarrow> hd_state \<Rightarrow> u32 \<Rightarrow> bytes" where
  "seed_pub D S n = fst (the (DeriveHDKey D S n))"

text \<open>The first \<open>k\<close> keys from index \<open>r\<close> on, numbered from 1.\<close>

primrec derived_pool :: "hd_lib \<Rightarrow> hd_state \<Rightarrow> u32 \<Rightarrow> nat \<Rightarrow> (int, bytes) fmap" where
  "derived_pool D S r 0 = fmempty"
| "derived_pool D S r (Suc k) = fmupd (int k + 1) (seed_pub D S (r + of_nat k)) (derived_pool D S r k)"

lemma derived_pool_dom: "fset (fmdom (derived_pool D S r k)) = {1 .. int k}"
proof (induction k)
  case (Suc k)
  have "{1 .. int (Suc k)} = insert (int k + 1) {1 .. int k}" by auto
  then show ?case by (simp only: derived_pool.simps fmdom_fmupd finsert.rep_eq Suc)
qed simp

lemma derived_pool_next: "next_index (derived_pool D S r k) = int k + 1"
proof (cases k)
  case (Suc j)
  then have "fset (fmdom (derived_pool D S r k)) \<noteq> {}" by (simp only: derived_pool_dom) simp
  then have "derived_pool D S r k \<noteq> fmempty" by (metis fmdom_empty bot_fset.rep_eq)
  moreover have "Max {1 .. int k} = int k" using Suc by (intro Max_eqI) auto
  ultimately show ?thesis by (simp add: next_index_def derived_pool_dom)
qed (simp add: next_index_def)

lemma derived_pool_card: "fcard (fmdom (derived_pool D S r k)) = k"
  using derived_pool_dom [of D S r k] by (simp add: fcard.rep_eq)

lemma derived_pool_lookup:
  "fmlookup (derived_pool D S r k) n = (if 1 \<le> n \<and> n \<le> int k then Some (seed_pub D S (r + of_nat (nat (n - 1)))) else None)"
  by (induction k) auto

lemma AddKeyIfMissing_plain:
  assumes "\<not> fWalletEncrypted K"
  obtains K' where "AddKeyIfMissing E L pub priv True K = (K', True)" "\<not> fWalletEncrypted K'"
proof (cases "WalletCanSpendKey K pub")
  case True
  then show ?thesis using assms by (intro that [of K]) (simp_all add: AddKeyIfMissing_def)
next
  case False
  then show ?thesis using assms
    by (intro that [of "fst (AddKey E L pub priv True K)"]) (simp_all add: AddKeyIfMissing_def AddKey_def)
qed

lemma pool_add_derived:
  assumes S: "HaveHDSeed S" "nHDKeySchema S = HD_SCHEMA_BIP44" "\<not> fWalletEncrypted (hd_keys S)"
    and key: "DeriveHDKey D S (nHDReceiveNext S) \<noteq> None"
  obtains S' where "pool_add E L D True S = (S', True)" "same_seed S S'" "\<not> fWalletEncrypted (hd_keys S')"
    "nHDReceiveNext S' = nHDReceiveNext S + 1"
    "mapKeyPool S' = fmupd (next_index (mapKeyPool S)) (seed_pub D S (nHDReceiveNext S)) (mapKeyPool S)"
proof -
  obtain pub priv where d: "DeriveHDKey D S (nHDReceiveNext S) = Some (pub, priv)" using key by auto
  obtain K' where K': "AddKeyIfMissing E L pub priv True (hd_keys S) = (K', True)" "\<not> fWalletEncrypted K'"
    using AddKeyIfMissing_plain [OF S(3)] .
  show ?thesis
    by (rule that [of "S\<lparr>hd_keys := K', nHDReceiveNext := nHDReceiveNext S + 1,
        mapKeyPool := fmupd (next_index (mapKeyPool S)) pub (mapKeyPool S)\<rparr>"])
      (simp_all add: pool_add_def DeriveNextHDReceiveKey_def take_derived_def S d K' same_seed_def seed_pub_def)
qed

lemma topup_derived:
  assumes "k \<le> KEYPOOL_SIZE" "same_seed S T" "HaveHDSeed S" "nHDKeySchema S = HD_SCHEMA_BIP44"
    "\<not> fWalletEncrypted (hd_keys T)" "nHDReceiveNext T = r + of_nat k" "mapKeyPool T = derived_pool D S r k"
    "\<forall>j < KEYPOOL_SIZE. DeriveHDKey D S (r + of_nat j) \<noteq> None"
  shows "mapKeyPool (topup_loop E L D True T) = derived_pool D S r KEYPOOL_SIZE"
  using assms
proof (induction "KEYPOOL_SIZE - k" arbitrary: k T)
  case 0
  then show ?case by (subst topup_loop.simps) (simp add: derived_pool_card)
next
  case (Suc m)
  have k: "k < KEYPOOL_SIZE" using Suc.hyps(2) by simp
  have T: "HaveHDSeed T" "nHDKeySchema T = HD_SCHEMA_BIP44" "DeriveHDKey D T (nHDReceiveNext T) \<noteq> None"
    using Suc.prems k same_seed_derives [OF Suc.prems(2)] by (simp_all add: same_seed_def)
  obtain T' where T': "pool_add E L D True T = (T', True)" "same_seed T T'" "\<not> fWalletEncrypted (hd_keys T')"
    "nHDReceiveNext T' = nHDReceiveNext T + 1"
    "mapKeyPool T' = fmupd (next_index (mapKeyPool T)) (seed_pub D T (nHDReceiveNext T)) (mapKeyPool T)"
    using pool_add_derived [OF T(1,2) Suc.prems(5) T(3)] .
  have "seed_pub D T = seed_pub D S" using same_seed_derives(1) [OF Suc.prems(2), of D] by (simp add: seed_pub_def fun_eq_iff)
  then have pool: "mapKeyPool T' = derived_pool D S r (Suc k)"
    using T'(5) Suc.prems(6,7) by (simp add: derived_pool_next)
  have "mapKeyPool (topup_loop E L D True T') = derived_pool D S r KEYPOOL_SIZE"
    using Suc.hyps(1) [of "Suc k" T'] Suc.hyps(2) Suc.prems T' pool same_seed_trans [OF Suc.prems(2) T'(2)] by (simp add: add.assoc)
  then show ?case
    using k T'(1) by (subst topup_loop.simps) (simp add: Suc.prems(7) derived_pool_card)
qed

lemma TopUp_derived:
  assumes "HaveHDSeed S" "nHDKeySchema S = HD_SCHEMA_BIP44" "\<not> fWalletEncrypted (hd_keys S)" "mapKeyPool S = fmempty"
    "\<forall>j < KEYPOOL_SIZE. DeriveHDKey D S (nHDReceiveNext S + of_nat j) \<noteq> None"
  shows "mapKeyPool (TopUpKeyPool E L D True S) = derived_pool D S (nHDReceiveNext S) KEYPOOL_SIZE"
  using assms topup_derived [of 0 S S "nHDReceiveNext S" D E L]
  by (simp add: TopUpKeyPool_def IsWalletLocked_def)

lemma derived_pool_same: "same_seed S T \<Longrightarrow> derived_pool D S r k = derived_pool D T r k"
  using same_seed_derives(1) [of S T D] by (induction k) (simp_all add: seed_pub_def)

lemma phrase_same:
  assumes "SetHDSeedFromMnemonic E L D db m pass S = (T, None)" "SetHDSeedFromMnemonic E L' D db' m' pass S' = (T', None)"
    and "NormalizeMnemonic m = NormalizeMnemonic m'"
  shows "same_seed (sd_hd T) (sd_hd T')" "keyUser T = keyUser T'"
proof -
  have node: "phrase_node E D m pass = phrase_node E D m' pass" using assms(3) by (simp add: phrase_node_def)
  show same: "same_seed (sd_hd T) (sd_hd T')"
    by (rule SetHDSeed_ok [OF assms(1)], rule SetHDSeed_ok [OF assms(2)]) (simp add: node same_seed_def)
  have "DeriveHDKey D (sd_hd T) 0 = Some (keyUser T)" by (rule SetHDSeed_ok [OF assms(1)])
  moreover have "DeriveHDKey D (sd_hd T') 0 = Some (keyUser T')" by (rule SetHDSeed_ok [OF assms(2)])
  ultimately show "keyUser T = keyUser T'" using same_seed_derives(1) [OF same, of D 0] by simp
qed

text \<open>What a failure leaves.\<close>

lemma SetHDSeed_fails:
  assumes "SetHDSeedFromMnemonic E L D db m pass S = (T, Some e)"
  shows "T = S \<or> e = MetadataNotWritten \<and> T = S\<lparr>sd_hd := (sd_hd S)\<lparr>mapKeyPool := fmempty\<rparr>\<rparr> \<or>
    (e = DefaultNotDerived \<or> e = DefaultNotWritten \<or> e = DefaultNotSet) \<and> mapKeyPool (sd_hd T) = fmempty \<and> keyUser T = keyUser S"
  using assms
  by (auto simp: SetHDSeedFromMnemonic_def ClearKeyPoolRecords_def set_default_def Let_def install_seed_def SetAddressBookName_def
      split: prod.split_asm option.split_asm sum.split_asm if_split_asm)

lemma phrase_recovers_all:
  assumes T: "SetHDSeedFromMnemonic E L D db m pass S = (T, None)" and T': "SetHDSeedFromMnemonic E L' D db' m' pass S' = (T', None)"
    and m: "NormalizeMnemonic m = NormalizeMnemonic m'"
    and plain: "\<not> fWalletEncrypted (hd_keys (sd_hd T))" "\<not> fWalletEncrypted (hd_keys (sd_hd T'))"
    and derives: "\<forall>j < KEYPOOL_SIZE. DeriveHDKey D (sd_hd T) (1 + of_nat j) \<noteq> None"
  shows "DeriveHDKey D (sd_hd T) n = DeriveHDKey D (sd_hd T') n \<and>
    DeriveHDChangeKey D (sd_hd T) n = DeriveHDChangeKey D (sd_hd T') n \<and>
    keyUser T = keyUser T' \<and> WalletCanSpendKey (hd_keys (sd_hd T)) (fst (keyUser T)) \<and>
    more_keys (hd_keys (sd_hd S)) (hd_keys (sd_hd T)) \<and>
    mapKeyPool (TopUpKeyPool E L D True (sd_hd T)) = mapKeyPool (TopUpKeyPool E L' D True (sd_hd T')) \<and>
    fmlookup (mapKeyPool (TopUpKeyPool E L D True (sd_hd T))) 1 = Some (seed_pub D (sd_hd T) 1)"
proof -
  note same = phrase_same [OF T T' m]
  have pool: "mapKeyPool (TopUpKeyPool E L D True (sd_hd T)) = derived_pool D (sd_hd T) 1 KEYPOOL_SIZE"
    by (rule SetHDSeed_ok [OF T]) (use TopUp_derived [of "sd_hd T" D E L] plain(1) derives in simp)
  moreover have "mapKeyPool (TopUpKeyPool E L' D True (sd_hd T')) = derived_pool D (sd_hd T') 1 KEYPOOL_SIZE"
    by (rule SetHDSeed_ok [OF T']) (use TopUp_derived [of "sd_hd T'" D E L'] plain(2) derives same_seed_derives(1) [OF same(1)] in simp)
  moreover have "derived_pool D (sd_hd T) 1 KEYPOOL_SIZE = derived_pool D (sd_hd T') 1 KEYPOOL_SIZE"
    by (rule derived_pool_same [OF same(1)])
  moreover have "fmlookup (derived_pool D (sd_hd T) 1 KEYPOOL_SIZE) 1 = Some (seed_pub D (sd_hd T) 1)"
    by (simp add: derived_pool_lookup KEYPOOL_SIZE_def)
  moreover have "WalletCanSpendKey (hd_keys (sd_hd T)) (fst (keyUser T))" "more_keys (hd_keys (sd_hd S)) (hd_keys (sd_hd T))"
    by (rule SetHDSeed_ok [OF T], assumption)+
  ultimately show ?thesis using same same_seed_derives(1,2) [OF same(1), of D n] by simp
qed

end
