(* ===== verification/Recovery_Examples.thy ===== *)
theory Recovery_Examples
  imports Recovery
begin

text \<open>
  A wallet set up from a phrase, for the witnesses: every HMAC is the same, so that each child's
  number is its parent's plus one, and a private key is its public key.
\<close>

definition rx_lib :: hd_lib where
  "rx_lib = \<lparr>hmac_sha512 = (\<lambda>k d. Some (be_bytes 32 1 @ replicate 32 0)), pbkdf2_sha512 = (\<lambda>p s. Some (replicate 64 0)),
     ec_point_oct = (\<lambda>k. Some (replicate 33 2)), ec_set_private = (\<lambda>s. Some (s, s)), MakeNewKey = (\<lambda>n. ([1], [1]))\<rparr>"

definition rx_node :: "nat \<Rightarrow> BIP32PrivateNode" where
  "rx_node v = \<lparr>privateKey = be_bytes 32 v, chainCode = replicate 32 0\<rparr>"

lemma rx_valid: "0 < v \<Longrightarrow> v < group_order \<Longrightarrow> IsValidPrivateKey (be_bytes 32 v)"
  by (rule key_of_number)

lemma rx_hmac: "HmacSha512 rx_lib k d = Some (be_bytes 32 1 @ replicate 32 0)"
  by (simp add: HmacSha512_def rx_lib_def)

lemma rx_child:
  assumes "0 < v" "v + 1 < group_order"
  shows "BIP32DeriveChild rx_lib (rx_node v) i = Inr (rx_node (v + 1))"
proof -
  have v: "IsValidPrivateKey (be_bytes 32 v)" "be_nat (be_bytes 32 v) = v" using key_of_number [of v] assms by simp_all
  have "PrivateKeyToCompressedPubKey rx_lib (be_bytes 32 v) = Inr (replicate 33 2)"
    by (simp add: PrivateKeyToCompressedPubKey_def v(1)) (simp add: rx_lib_def)
  then have "\<exists>d. child_data rx_lib (be_bytes 32 v) i = Inr d" by (simp add: child_data_def)
  then obtain d where "child_data rx_lib (be_bytes 32 v) i = Inr d" ..
  moreover have "(1 :: nat) < group_order" by (simp add: group_order_def)
  ultimately show ?thesis
    using v assms by (simp add: BIP32DeriveChild_def rx_node_def rx_hmac Let_def)
qed

lemma rx_path:
  assumes "length path \<le> 5"
  shows "\<exists>v. 0 < v \<and> v < group_order \<and> BIP32DerivePath rx_lib (rx_node 1) path = Inr (rx_node v)"
proof -
  have run: "\<exists>v. 0 < v \<and> v \<le> u + length path \<and> derive_loop rx_lib (rx_node u) path = Inr (rx_node v)"
    if "0 < u" "u + length path < 100" for u path
    using that
  proof (induction path arbitrary: u)
    case (Cons i path)
    have "u + 1 < group_order" using Cons.prems by (simp add: group_order_def)
    then show ?case using Cons.IH [of "u + 1"] Cons.prems rx_child [of u i] by auto
  qed auto
  obtain v where v: "0 < v" "v \<le> 1 + length path" "derive_loop rx_lib (rx_node 1) path = Inr (rx_node v)"
    using run [of 1 path] assms by auto
  have "IsValidPrivateKey (be_bytes 32 1)" by (rule rx_valid) (simp_all add: group_order_def)
  moreover have "v < group_order" using v(2) assms by (simp add: group_order_def)
  ultimately show ?thesis using v by (auto simp: BIP32DerivePath_def rx_node_def)
qed

lemma rx_master: "BIP32MasterFromSeed rx_lib (replicate 64 0) = Inr (rx_node 1)"
proof -
  have "IsValidPrivateKey (be_bytes 32 1)" by (rule rx_valid) (simp_all add: group_order_def)
  then show ?thesis by (simp add: BIP32MasterFromSeed_def rx_hmac rx_node_def)
qed

definition rx_state :: seed_state where
  "rx_state = \<lparr>sd_hd = \<lparr>hd_keys = empty_keys, vchHDMaster = [], vchHDChainCode = [], nHDNext = 0, nHDReceiveNext = 0,
     nHDChangeNext = 0, nHDKeySchema = HD_SCHEMA_NONE, nHDCoinType = 0, mapKeyPool = fmempty, nKeysMade = 0\<rparr>,
     keyUser = ([1], [1]), mapAddressBook = Map.empty\<rparr>"

definition rx_db :: seed_db where
  "rx_db = \<lparr>db_erase = (\<lambda>n. True), db_meta = True, db_key = True, db_default = True, db_name = True\<rparr>"

lemma rx_db_sel [simp]: "db_meta rx_db" "db_key rx_db" "db_default rx_db" "db_name rx_db"
  by (simp_all add: rx_db_def)

lemma rx_phrase: "\<exists>m. BIP39EntropyToMnemonic sign_ext (replicate 16 0) = Inr m"
  by (simp add: EntropyToMnemonic_bits IsSupportedEntropySize_def)

text \<open>A derivation of this wallet never fails.\<close>

lemma rx_derives:
  assumes "vchHDMaster S = privateKey (rx_node 1)" "vchHDChainCode S = chainCode (rx_node 1)" "n < BIP32_HARDENED"
  shows "DeriveHDKey rx_lib S n \<noteq> None"
proof -
  have "HaveHDSeed S" using assms by (simp add: HaveHDSeed_def rx_node_def)
  moreover have "derive_path rx_lib S path \<noteq> None" if path: "length path \<le> 5" for path
  proof -
    obtain v where "BIP32DerivePath rx_lib (rx_node 1) path = Inr (rx_node v)" using rx_path [OF path] by auto
    then show ?thesis using assms by (simp add: derive_path_def SetSecret_def rx_node_def) (simp add: rx_lib_def)
  qed
  ultimately show ?thesis using assms(3) by (simp add: DeriveHDKey_def HDBIP44Path_def HDLegacyPath_def)
qed

lemma rx_sets:
  assumes "BIP39EntropyToMnemonic sign_ext (replicate 16 0) = Inr m"
  shows "\<exists>T. SetHDSeedFromMnemonic sign_ext ref_keys rx_lib rx_db m [] rx_state = (T, None) \<and>
    \<not> fWalletEncrypted (hd_keys (sd_hd T))"
proof -
  have m: "BIP39ValidateMnemonic sign_ext m = (m, None)" by (rule mnemonic_accepted [OF assms])
  have seed: "BIP39MnemonicToSeed sign_ext rx_lib m [] = Inr (replicate 64 0)"
    by (simp add: BIP39MnemonicToSeed_def m rx_lib_def)
  let ?H = "install_seed (rx_node (Suc 0)) (sd_hd rx_state)"
  have "DeriveHDKey rx_lib ?H 0 \<noteq> None" by (rule rx_derives) (simp_all add: install_seed_def BIP32_HARDENED_def)
  then obtain pub priv where key: "DeriveHDKey rx_lib ?H 0 = Some (pub, priv)" by auto
  have K: "\<not> fWalletEncrypted (hd_keys ?H)" by (simp add: install_seed_def rx_state_def empty_keys_def)
  obtain K' where K': "AddKeyIfMissing sign_ext ref_keys pub priv True (hd_keys ?H) = (K', True)" "\<not> fWalletEncrypted K'"
    using AddKeyIfMissing_plain [OF K] .
  have clear: "ClearKeyPoolRecords rx_db (sd_hd rx_state) = (sd_hd rx_state, True)"
    by (simp add: ClearKeyPoolRecords_def rx_state_def rx_db_def list_all_iff)
  show ?thesis
    using K' by (simp add: SetHDSeedFromMnemonic_def m seed rx_master clear set_default_def key Let_def SetAddressBookName_def)
qed

lemma rx_pool_derives:
  assumes "SetHDSeedFromMnemonic sign_ext ref_keys rx_lib rx_db m [] rx_state = (T, None)"
  shows "\<forall>j < KEYPOOL_SIZE. DeriveHDKey rx_lib (sd_hd T) (1 + of_nat j) \<noteq> None"
proof (intro allI impI)
  fix j assume j: "j < KEYPOOL_SIZE"
  obtain master where master: "phrase_node sign_ext rx_lib m [] = Some master"
    "vchHDMaster (sd_hd T) = privateKey master" "vchHDChainCode (sd_hd T) = chainCode master"
    using SetHDSeed_ok [OF assms] .
  have "pbkdf2_sha512 rx_lib p s = Some (replicate 64 0)" for p s by (simp add: rx_lib_def)
  then have node: "master = rx_node 1" using master(1) by (simp add: phrase_node_def rx_master)
  have "1 + of_nat j < BIP32_HARDENED"
    using j by (simp add: BIP32_HARDENED_def KEYPOOL_SIZE_def word_less_nat_alt unat_word_ariths unat_of_nat)
  then show "DeriveHDKey rx_lib (sd_hd T) (1 + of_nat j) \<noteq> None" using master(2,3) unfolding node by (intro rx_derives)
qed

end
