(* ===== verification/Swap.thy ===== *)
theory Swap
  imports Spend Interp_Bounds
begin

text \<open>
  Atomic swap contracts (\<^verbatim>\<open>swap.h\<close>, \<^verbatim>\<open>swap.cpp\<close>): building a contract, recognising one, the
  two scriptSigs that spend it, and reading the secret off a spend.  \<open>contract_accepts\<close> runs
  the interpreter on any script the code takes for a contract, both branches of it; from it
  come what a spend of the contract needs, that a spend by the recipient shows the secret
  and that a refund waits for the lock.
\<close>

section \<open>The contract\<close>

definition SECRET_BYTES :: nat where "SECRET_BYTES = 32"

definition INITIATOR_LOCK_BLOCKS :: int where "INITIATOR_LOCK_BLOCKS = 48 * 30"

definition PARTICIPANT_LOCK_BLOCKS :: int where "PARTICIPANT_LOCK_BLOCKS = 24 * 30"

record Contract =
  recipientPkh :: bytes
  refundPkh :: bytes
  secretHash :: bytes
  c_LockTime :: int

definition BuildContract :: "ext \<Rightarrow> Contract \<Rightarrow> bytes" where
  "BuildContract E c =
     push_opcode OP_IF @
       push_opcode OP_SIZE @ push_int64 E (int SECRET_BYTES) @ push_opcode OP_EQUALVERIFY @
       push_opcode OP_SHA256 @ push_vch (secretHash c) @ push_opcode OP_EQUALVERIFY @
       push_opcode OP_DUP @ push_opcode OP_HASH160 @ push_vch (recipientPkh c) @
     push_opcode OP_ELSE @
       push_int64 E (c_LockTime c) @ push_opcode OP_CHECKLOCKTIMEVERIFY @ push_opcode OP_DROP @
       push_opcode OP_DUP @ push_opcode OP_HASH160 @ push_vch (refundPkh c) @
     push_opcode OP_ENDIF @
     push_opcode OP_EQUALVERIFY @ push_opcode OP_CHECKSIG"

text \<open>The loop that lists the operations; \<open>None\<close> where \<^verbatim>\<open>GetOp\<close> fails.\<close>

function contract_ops :: "bytes \<Rightarrow> (nat \<times> bytes) list option" where
  "contract_ops pc =
     (if pc = [] then Some []
      else case GetOp pc of
             None \<Rightarrow> None
           | Some (opcode, v, r) \<Rightarrow> map_option ((#) (opcode, v)) (contract_ops r))"
  by pat_completeness auto
termination
  by (relation "measure length") auto

declare contract_ops.simps [simp del]

text \<open>The lock, read from its last byte to its first in 64 bits.\<close>

definition lock_value :: "bytes \<Rightarrow> nat" where
  "lock_value lock = foldr (\<lambda>b n. (push_bit 8 n mod 2 ^ 64) OR unat b) lock 0"

definition contract_shape :: "(nat \<times> bytes) list \<Rightarrow> bool" where
  "contract_shape ops \<longleftrightarrow>
     length ops = 20 \<and>
     fst (ops ! 0) = OP_IF \<and> fst (ops ! 1) = OP_SIZE \<and>
     snd (ops ! 2) = [word_of_nat SECRET_BYTES] \<and>
     fst (ops ! 3) = OP_EQUALVERIFY \<and> fst (ops ! 4) = OP_SHA256 \<and>
     length (snd (ops ! 5)) = 32 \<and> fst (ops ! 6) = OP_EQUALVERIFY \<and>
     fst (ops ! 7) = OP_DUP \<and> fst (ops ! 8) = OP_HASH160 \<and> length (snd (ops ! 9)) = 20 \<and>
     fst (ops ! 10) = OP_ELSE \<and>
     fst (ops ! 12) = OP_CHECKLOCKTIMEVERIFY \<and> fst (ops ! 13) = OP_DROP \<and>
     fst (ops ! 14) = OP_DUP \<and> fst (ops ! 15) = OP_HASH160 \<and> length (snd (ops ! 16)) = 20 \<and>
     fst (ops ! 17) = OP_ENDIF \<and> fst (ops ! 18) = OP_EQUALVERIFY \<and> fst (ops ! 19) = OP_CHECKSIG"

definition ParseContract :: "bytes \<Rightarrow> Contract option" where
  "ParseContract script =
     (case contract_ops script of
        None \<Rightarrow> None
      | Some ops \<Rightarrow>
          if \<not> contract_shape ops then None
          else let lock = snd (ops ! 11)
          in if lock = [] \<or> 5 < length lock \<or> last lock AND 0x80 \<noteq> 0 then None
          else let n = lock_value lock
          in if n = 0 \<or> 0xffffffff < n then None
          else Some \<lparr>recipientPkh = snd (ops ! 9), refundPkh = snd (ops ! 16),
                     secretHash = snd (ops ! 5), c_LockTime = int n\<rparr>)"

definition RedeemScriptSig :: "bytes \<Rightarrow> bytes \<Rightarrow> bytes \<Rightarrow> bytes \<Rightarrow> bytes" where
  "RedeemScriptSig sig pubkey secret contract =
     push_vch sig @ push_vch pubkey @ push_vch secret @ push_opcode OP_TRUE @ push_vch contract"

definition RefundScriptSig :: "bytes \<Rightarrow> bytes \<Rightarrow> bytes \<Rightarrow> bytes" where
  "RefundScriptSig sig pubkey contract =
     push_vch sig @ push_vch pubkey @ push_opcode OP_FALSE @ push_vch contract"

function ExtractSecret :: "ext \<Rightarrow> bytes \<Rightarrow> bytes \<Rightarrow> bytes option" where
  "ExtractSecret E pc hash =
     (if pc = [] then None
      else case GetOp pc of
             None \<Rightarrow> None
           | Some (_, v, r) \<Rightarrow>
               if length v \<noteq> SECRET_BYTES then ExtractSecret E r hash
               else if SHA256 E v = hash then Some v
               else ExtractSecret E r hash)"
  by pat_completeness auto
termination
  by (relation "measure (\<lambda>(E, pc, hash). length pc)") auto

declare ExtractSecret.simps [simp del]

section \<open>The loops as folds over the operations\<close>

lemma contract_ops_eq:
  "contract_ops pc =
     (if tail_of pc = [] then Some (map (\<lambda>(opcode, v, _). (opcode, v)) (ops_of pc)) else None)"
proof (induction pc rule: script_induct)
  case (stop pc)
  then show ?case by (subst contract_ops.simps) (simp add: parse_ops_None)
next
  case (step pc opcode v r p)
  have "contract_ops pc = map_option ((#) (opcode, v)) (contract_ops r)"
    using step(1,2,3) by (subst contract_ops.simps) simp
  with step.IH show ?case using step(2) parse_ops_step [OF step(4), of r] by simp
qed

lemma ExtractSecret_None:
  "tail_of pc = [] \<Longrightarrow> ExtractSecret E pc hash = None \<longleftrightarrow>
     (\<forall>(opcode, v, p) \<in> set (ops_of pc). \<not> (length v = SECRET_BYTES \<and> SHA256 E v = hash))"
proof (induction pc rule: script_induct)
  case (stop pc)
  then show ?case by (subst ExtractSecret.simps) (simp add: parse_ops_None)
next
  case (step pc opcode v r p)
  have o: "ops_of pc = (opcode, v, p) # ops_of r" "tail_of r = []"
    using step(2,6) parse_ops_step [OF step(4), of r] by simp_all
  have "ExtractSecret E pc hash =
      (if length v = SECRET_BYTES \<and> SHA256 E v = hash then Some v else ExtractSecret E r hash)"
    using step(1,2,3) by (subst ExtractSecret.simps) simp
  with step.IH [OF o(2)] o(1) show ?case by auto
qed

lemma ExtractSecret_Some:
  "ExtractSecret E pc hash = Some s \<Longrightarrow> length s = SECRET_BYTES \<and> SHA256 E s = hash"
proof (induction pc rule: script_induct)
  case (stop pc)
  then show ?case by (subst (asm) ExtractSecret.simps) (simp split: if_split_asm)
next
  case (step pc opcode v r p)
  have "ExtractSecret E pc hash =
      (if length v = SECRET_BYTES \<and> SHA256 E v = hash then Some v else ExtractSecret E r hash)"
    using step(1,2,3) by (subst ExtractSecret.simps) simp
  with step.IH step.prems show ?case by (simp split: if_split_asm)
qed

lemma lock_value_step:
  assumes "n < 256 ^ 6"
  shows "(push_bit 8 n mod 2 ^ 64) OR unat (b::byte) = unat b + 256 * n"
proof -
  have "n * 256 < 2 ^ 64" using assms by simp
  then have "push_bit 8 n mod 2 ^ 64 = push_bit 8 n" by (simp add: push_bit_eq_mult)
  then show ?thesis
    using or_shift_add [of "unat b" 8 n] unat_byte_lt [of b] by simp
qed

lemma lock_value: "length lock \<le> 6 \<Longrightarrow> lock_value lock = le_nat lock"
proof (induction lock)
  case (Cons b lock)
  have "256 ^ length lock \<le> (256 ^ 6 :: nat)"
    using Cons.prems by (intro power_increasing) auto
  with le_nat_bound [of lock] have "le_nat lock < 256 ^ 6" by linarith
  then have "(push_bit 8 (le_nat lock) mod 2 ^ 64) OR unat b = le_nat (b # lock)"
    by (subst lock_value_step) simp_all
  moreover have "lock_value (b # lock) = (push_bit 8 (lock_value lock) mod 2 ^ 64) OR unat b"
    by (simp only: lock_value_def foldr_Cons o_apply)
  moreover have "lock_value lock = le_nat lock" using Cons by simp
  ultimately show ?case by (simp only:)
qed (simp add: lock_value_def)

section \<open>Running one operation of a contract\<close>

definition is_op :: "bytes \<Rightarrow> nat \<Rightarrow> bytes \<Rightarrow> bool" where
  "is_op p opcode v \<longleftrightarrow> (\<forall>r. GetOp (p @ r) = Some (opcode, v, r))"

definition swap_state :: "stack \<Rightarrow> bool list \<Rightarrow> nat \<Rightarrow> bytes \<Rightarrow> bytes \<Rightarrow> script_state" where
  "swap_state st vf n pc script =
     \<lparr>st_stack = st, st_alt = [], vfExec = vf, nOpCount = n, st_pc = pc,
      pbegincodehash = script, ctvCache = CtvHashCache_init\<rparr>"

lemma swap_state_sel [simp]:
  "st_stack (swap_state st vf n pc script) = st" "st_alt (swap_state st vf n pc script) = []"
  "vfExec (swap_state st vf n pc script) = vf" "nOpCount (swap_state st vf n pc script) = n"
  "st_pc (swap_state st vf n pc script) = pc" "pbegincodehash (swap_state st vf n pc script) = script"
  "swap_state st vf n pc script\<lparr>st_stack := st'\<rparr> = swap_state st' vf n pc script"
  "swap_state st vf n pc script\<lparr>vfExec := vf'\<rparr> = swap_state st vf' n pc script"
  "swap_state st vf n pc script\<lparr>nOpCount := n'\<rparr> = swap_state st vf n' pc script"
  "swap_state st vf n pc script\<lparr>st_pc := pc'\<rparr> = swap_state st vf n pc' script"
  by (simp_all add: swap_state_def)

lemma is_op_GetOp: "is_op p opcode v \<Longrightarrow> GetOp (p @ r) = Some (opcode, v, r)"
  by (simp add: is_op_def)

lemma is_op_push: "is_op p opcode v \<Longrightarrow> v \<noteq> [] \<Longrightarrow> opcode \<le> OP_PUSHDATA4"
  by (meson GetOp_data is_op_GetOp not_le)

lemma is_op_byte:
  assumes "is_op p opcode []" "OP_PUSHDATA4 < opcode" "opcode < OP_SINGLEBYTE_END"
  shows "p = push_opcode opcode"
proof -
  have g: "GetOp p = Some (opcode, [], [])" using assms(1) is_op_GetOp [of p opcode "[]" "[]"] by simp
  then obtain b q where p: "p = b # q" by (cases p) auto
  consider "OP_SINGLEBYTE_END \<le> unat b" | "unat b \<le> OP_PUSHDATA4"
    | "OP_PUSHDATA4 < unat b" "unat b < OP_SINGLEBYTE_END" by linarith
  then show ?thesis
  proof cases
    case 1
    with g assms(3) have False
      by (auto simp: p GetOp_two opcodes split: list.splits)
    then show ?thesis ..
  next
    case 2
    with g assms(2) have False by (auto simp: p GetOp_push split: option.splits if_split_asm)
    then show ?thesis ..
  next
    case 3
    then have "opcode = unat b" "q = []" using g by (simp_all add: p GetOp_one)
    with 3 assms(3) show ?thesis by (simp add: p push_opcode_def)
  qed
qed

lemma swap_push:
  assumes "is_op p opcode v" "v \<noteq> []" "length v \<le> MAX_SCRIPT_ELEMENT_SIZE" "list_all id vf"
    and "length st < MAX_STACK_SIZE"
  shows "run_script E cx (swap_state st vf n (p @ r) script) =
    run_script E cx (swap_state (v # st) vf n r script)"
proof -
  have "opcode \<le> OP_PUSHDATA4" using assms(1,2) by (rule is_op_push)
  with assms show ?thesis
    by (subst run_pushed [where opcode = opcode and v = v and r = r])
      (auto simp: is_op_GetOp pushed_def opcodes)
qed

lemma swap_op:
  assumes "is_op p opcode v" "OP_16 < opcode" "opcode \<notin> set disabled_ops" "\<not> version_op opcode"
    and "list_all id vf" "n < MAX_OPS_PER_SCRIPT"
    and "exec_op E cx opcode True (swap_state st vf (Suc n) r script) = Some (swap_state st' vf' (Suc n) r' script)"
    and "length st' \<le> MAX_STACK_SIZE"
  shows "run_script E cx (swap_state st vf n (p @ r) script) =
    run_script E cx (swap_state st' vf' (Suc n) r' script)"
  using assms by (subst run_counted [where opcode = opcode and v = v and r = r]) (auto simp: is_op_GetOp)

lemma swap_op_fails:
  assumes "is_op p opcode v" "OP_16 < opcode" "opcode \<notin> set disabled_ops" "\<not> version_op opcode"
    and "list_all id vf" "n < MAX_OPS_PER_SCRIPT"
    and "exec_op E cx opcode True (swap_state st vf (Suc n) r script) = None"
  shows "run_script E cx (swap_state st vf n (p @ r) script) = None"
  using assms by (subst run_counted [where opcode = opcode and v = v and r = r]) (auto simp: is_op_GetOp)

text \<open>In a branch not taken every operation is passed over, and still counted.\<close>

lemma swap_skip:
  assumes "is_op p opcode v" "length v \<le> MAX_SCRIPT_ELEMENT_SIZE" "opcode \<notin> set disabled_ops"
    and "\<not> version_op opcode" "\<not> (OP_IF \<le> opcode \<and> opcode \<le> OP_ENDIF)" "\<not> list_all id vf"
    and "n < MAX_OPS_PER_SCRIPT" "length st \<le> MAX_STACK_SIZE"
  shows "run_script E cx (swap_state st vf n (p @ r) script) =
    run_script E cx (swap_state st vf (if OP_16 < opcode then Suc n else n) r script)"
proof -
  have "p @ r \<noteq> []" using is_op_GetOp [OF assms(1), of r] by auto
  moreover have "op_guard cx opcode v n = Some (if OP_16 < opcode then Suc n else n)"
    using assms(2,3,4,7) by (simp add: op_guard_def version_op_def)
  then have "eval_step E cx (swap_state st vf n (p @ r) script) =
      Some (swap_state st vf (if OP_16 < opcode then Suc n else n) r script)"
    using assms(5,6,8) is_op_GetOp [OF assms(1), of r] by (auto simp: eval_step_def Let_def)
  ultimately show ?thesis by (subst run_script.simps) auto
qed

lemma exec_control:
  "exec_op E cx OP_IF True s = (case st_stack s of [] \<Rightarrow> None
     | x # r \<Rightarrow> Some (s\<lparr>st_stack := r, vfExec := CastToBool E x # vfExec s\<rparr>))"
  "exec_op E cx OP_ELSE f s = map_option (\<lambda>vf. s\<lparr>vfExec := vf\<rparr>) (op_else (vfExec s))"
  "exec_op E cx OP_ENDIF f s = map_option (\<lambda>vf. s\<lparr>vfExec := vf\<rparr>) (op_endif (vfExec s))"
  by (simp_all add: switch_defs op_if_def opcodes split: list.split)

lemma swap_control:
  assumes "is_op p opcode []" "opcode = OP_ELSE \<or> opcode = OP_ENDIF"
    and "n < MAX_OPS_PER_SCRIPT" "length st \<le> MAX_STACK_SIZE"
  shows "run_script E cx (swap_state st (b # vf) n (p @ r) script) =
    run_script E cx (swap_state st (if opcode = OP_ELSE then (\<not> b) # vf else vf) (Suc n) r script)"
proof -
  have ne: "OP_ELSE \<noteq> OP_ENDIF" by (simp add: opcodes)
  have "p @ r \<noteq> []" using is_op_GetOp [OF assms(1), of r] by auto
  moreover have "op_guard cx opcode [] n = Some (Suc n)"
    using assms(2,3) by (auto simp: op_guard_def disabled_ops_def opcodes)
  moreover have "exec_op E cx opcode f (swap_state st (b # vf) (Suc n) r script) =
      Some (swap_state st (if opcode = OP_ELSE then (\<not> b) # vf else vf) (Suc n) r script)" for f
    using assms(2) ne by (auto simp: exec_control op_else_def op_endif_def)
  moreover have "\<not> opcode \<le> OP_PUSHDATA4" "OP_IF \<le> opcode" "opcode \<le> OP_ENDIF"
    using assms(2) by (auto simp: opcodes)
  ultimately have "eval_step E cx (swap_state st (b # vf) n (p @ r) script) =
      Some (swap_state st (if opcode = OP_ELSE then (\<not> b) # vf else vf) (Suc n) r script)"
    using assms(4) is_op_GetOp [OF assms(1), of r] by (simp add: eval_step_def)
  with \<open>p @ r \<noteq> []\<close> show ?thesis by (subst run_script.simps) auto
qed

section \<open>What a contract accepts\<close>

definition is_push :: "bytes \<Rightarrow> bytes \<Rightarrow> bool" where
  "is_push p v \<longleftrightarrow> v \<noteq> [] \<and> length v \<le> MAX_SCRIPT_ELEMENT_SIZE \<and> (\<exists>opcode. is_op p opcode v)"

lemma run_is_push:
  "is_push p v \<Longrightarrow> list_all id vf \<Longrightarrow> length st < MAX_STACK_SIZE \<Longrightarrow>
   run_script E cx (swap_state st vf n (p @ r) script) =
   run_script E cx (swap_state (v # st) vf n r script)"
  by (auto simp: is_push_def swap_push)

lemma skip_is_push:
  assumes "is_push p v" "\<not> list_all id vf" "n < MAX_OPS_PER_SCRIPT" "length st \<le> MAX_STACK_SIZE"
  shows "run_script E cx (swap_state st vf n (p @ r) script) =
    run_script E cx (swap_state st vf n r script)"
proof -
  obtain opcode where v: "is_op p opcode v" "v \<noteq> []" "length v \<le> MAX_SCRIPT_ELEMENT_SIZE"
    using assms(1) by (auto simp: is_push_def)
  then have "opcode \<le> OP_PUSHDATA4" by (simp add: is_op_push)
  then have "opcode \<notin> set disabled_ops" "\<not> version_op opcode" "\<not> OP_IF \<le> opcode" "\<not> OP_16 < opcode"
    by (auto simp: disabled_ops_def version_op_def opcodes)
  with v assms show ?thesis by (subst swap_skip [of p opcode v]) auto
qed

text \<open>The operations between the pushes.\<close>

lemma swap_codes:
  "opcode \<in> {OP_IF, OP_SIZE, OP_EQUALVERIFY, OP_SHA256, OP_DUP, OP_HASH160, OP_ELSE,
     OP_CHECKLOCKTIMEVERIFY, OP_DROP, OP_ENDIF, OP_CHECKSIG} \<Longrightarrow>
   OP_16 < opcode \<and> opcode < OP_SINGLEBYTE_END \<and> OP_PUSHDATA4 < opcode \<and>
   opcode \<notin> set disabled_ops \<and> \<not> version_op opcode"
  by (auto simp: disabled_ops_def version_op_def opcodes)

lemma skip_code:
  assumes "is_op p opcode []" "opcode \<in> {OP_SIZE, OP_EQUALVERIFY, OP_SHA256, OP_DUP, OP_HASH160,
     OP_CHECKLOCKTIMEVERIFY, OP_DROP, OP_CHECKSIG}"
    and "\<not> list_all id vf" "n < MAX_OPS_PER_SCRIPT" "length st \<le> MAX_STACK_SIZE"
  shows "run_script E cx (swap_state st vf n (p @ r) script) =
    run_script E cx (swap_state st vf (Suc n) r script)"
proof -
  have "\<not> (OP_IF \<le> opcode \<and> opcode \<le> OP_ENDIF)" using assms(2) by (auto simp: opcodes)
  with assms swap_codes [of opcode] show ?thesis by (subst swap_skip [of p opcode "[]"]) auto
qed

lemma exec_SIZE:
  "exec_op E cx OP_SIZE f s = (case st_stack s of [] \<Rightarrow> None
     | x # r \<Rightarrow> Some (s\<lparr>st_stack := getvch E (int (length x)) # x # r\<rparr>))"
  by (simp add: switch_defs op_splice_def opcodes split: list.split)

lemma exec_SHA256:
  "exec_op E cx OP_SHA256 f s = (case st_stack s of [] \<Rightarrow> None
     | x # r \<Rightarrow> Some (s\<lparr>st_stack := SHA256 E x # r\<rparr>))"
  by (simp add: switch_defs op_hash_def opcodes split: list.split)

lemma exec_CLTV:
  "exec_op E cx OP_CHECKLOCKTIMEVERIFY f s = (if op_cltv E cx (st_stack s) then Some s else None)"
  by (simp add: switch_defs opcodes)

lemma exec_DROP:
  "exec_op E cx OP_DROP f s = (case st_stack s of [] \<Rightarrow> None | x # r \<Rightarrow> Some (s\<lparr>st_stack := r\<rparr>))"
  by (cases s) (simp add: switch_defs op_stack_def opcodes split: list.split)

lemma run_code:
  assumes "is_op p opcode []" "opcode \<in> {OP_IF, OP_SIZE, OP_EQUALVERIFY, OP_SHA256, OP_DUP, OP_HASH160,
     OP_CHECKLOCKTIMEVERIFY, OP_DROP, OP_CHECKSIG}" "list_all id vf" "n < MAX_OPS_PER_SCRIPT"
  shows "run_script E cx (swap_state st vf n (p @ r) script) =
    (case exec_op E cx opcode True (swap_state st vf (Suc n) r script) of
       None \<Rightarrow> None
     | Some s2 \<Rightarrow> if length (st_stack s2) + length (st_alt s2) > MAX_STACK_SIZE then None
                  else run_script E cx s2)"
proof -
  have "opcode \<in> {OP_IF, OP_SIZE, OP_EQUALVERIFY, OP_SHA256, OP_DUP, OP_HASH160, OP_ELSE,
     OP_CHECKLOCKTIMEVERIFY, OP_DROP, OP_ENDIF, OP_CHECKSIG}" using assms(2) by auto
  note c = swap_codes [OF this]
  have "run_script E cx (swap_state st vf n (p @ r) script) =
    (case exec_op E cx opcode True (swap_state st vf n (p @ r) script\<lparr>st_pc := r, nOpCount := Suc n\<rparr>) of
       None \<Rightarrow> None
     | Some s2 \<Rightarrow> if length (st_stack s2) + length (st_alt s2) > MAX_STACK_SIZE then None
                  else run_script E cx s2)"
    using c assms(3,4) is_op_GetOp [OF assms(1), of r]
    by (subst run_counted [where opcode = opcode and v = "[]" and r = r]) auto
  then show ?thesis by simp
qed

lemmas exec_swap = exec_control exec_SIZE exec_SHA256 exec_CLTV exec_DROP exec_DUP exec_HASH160
  exec_EQUALVERIFY

definition swap_rest :: "(nat \<Rightarrow> bytes) \<Rightarrow> nat \<Rightarrow> bytes" where
  "swap_rest p k = concat (map p [k..<20])"

lemma swap_rest_step: "k < 20 \<Longrightarrow> swap_rest p k = p k @ swap_rest p (Suc k)"
  by (simp add: swap_rest_def upt_conv_Cons)

lemma swap_rest_end: "swap_rest p 20 = []"
  by (simp add: swap_rest_def)

definition swap_parts :: "(nat \<Rightarrow> bytes) \<Rightarrow> bytes \<Rightarrow> Contract \<Rightarrow> bytes \<Rightarrow> bool" where
  "swap_parts p lock c script \<longleftrightarrow>
     script = swap_rest p 0 \<and>
     is_op (p 0) OP_IF [] \<and> is_op (p 1) OP_SIZE [] \<and> is_push (p 2) [32] \<and>
     is_op (p 3) OP_EQUALVERIFY [] \<and> is_op (p 4) OP_SHA256 [] \<and> is_push (p 5) (secretHash c) \<and>
     is_op (p 6) OP_EQUALVERIFY [] \<and> is_op (p 7) OP_DUP [] \<and> is_op (p 8) OP_HASH160 [] \<and>
     is_push (p 9) (recipientPkh c) \<and> is_op (p 10) OP_ELSE [] \<and> is_push (p 11) lock \<and>
     is_op (p 12) OP_CHECKLOCKTIMEVERIFY [] \<and> is_op (p 13) OP_DROP [] \<and> is_op (p 14) OP_DUP [] \<and>
     is_op (p 15) OP_HASH160 [] \<and> is_push (p 16) (refundPkh c) \<and> is_op (p 17) OP_ENDIF [] \<and>
     is_op (p 18) OP_EQUALVERIFY [] \<and> is_op (p 19) OP_CHECKSIG [] \<and>
     length lock \<le> 5 \<and> unat (last lock) < 128 \<and> c_LockTime c = int (le_nat lock) \<and>
     0 < c_LockTime c \<and> c_LockTime c < 2 ^ 32 \<and>
     length (secretHash c) = 32 \<and> length (recipientPkh c) = 20 \<and> length (refundPkh c) = 20"

text \<open>One step from place \<open>k\<close> of the contract.\<close>

lemma rest_code:
  assumes "is_op (p k) opcode []" "k < 20" "opcode \<in> {OP_IF, OP_SIZE, OP_EQUALVERIFY, OP_SHA256, OP_DUP,
     OP_HASH160, OP_CHECKLOCKTIMEVERIFY, OP_DROP, OP_CHECKSIG}" "list_all id vf" "n < MAX_OPS_PER_SCRIPT"
  shows "run_script E cx (swap_state st vf n (swap_rest p k) script) =
    (case exec_op E cx opcode True (swap_state st vf (Suc n) (swap_rest p (Suc k)) script) of
       None \<Rightarrow> None
     | Some s2 \<Rightarrow> if length (st_stack s2) + length (st_alt s2) > MAX_STACK_SIZE then None
                  else run_script E cx s2)"
  unfolding swap_rest_step [OF assms(2)] by (rule run_code [OF assms(1,3,4,5)])

lemma rest_push:
  "is_push (p k) v \<Longrightarrow> k < 20 \<Longrightarrow> list_all id vf \<Longrightarrow> length st < MAX_STACK_SIZE \<Longrightarrow>
   run_script E cx (swap_state st vf n (swap_rest p k) script) =
   run_script E cx (swap_state (v # st) vf n (swap_rest p (Suc k)) script)"
  by (simp add: swap_rest_step [of k] run_is_push)

text \<open>The last two operations, in both branches.\<close>

lemma swap_end:
  assumes E: "openssl_bn E" and parts: "swap_parts p lock c script" and "n < 100"
    and len: "length st + 2 \<le> MAX_STACK_SIZE"
  shows "accepts E (run_script E cx (swap_state (x2 # x1 # st) [] n (swap_rest p 18) script)) \<longleftrightarrow>
    x1 = x2 \<and> (\<exists>pk sig r. st = pk # sig # r \<and>
      cx_CheckSig E cx (FindAndDelete (push_vch sig) script) sig pk)"
proof -
  have "p 18 = push_opcode OP_EQUALVERIFY" "p 19 = push_opcode OP_CHECKSIG"
    using parts by (auto simp: swap_parts_def opcodes intro!: is_op_byte)
  then have "swap_rest p 18 = push_opcode OP_EQUALVERIFY @ push_opcode OP_CHECKSIG"
    by (simp add: swap_rest_step swap_rest_end)
  then show ?thesis
    using assms(3) len by (subst accepts_p2pkh_tail [OF E]) (auto simp: MAX_OPS_PER_SCRIPT_def)
qed

lemma skip_else:
  assumes parts: "swap_parts p lock c script" and "n < 100" "length st \<le> MAX_STACK_SIZE"
  shows "run_script E cx (swap_state st [True] n (swap_rest p 10) script) =
    run_script E cx (swap_state st [] (Suc (Suc (Suc (Suc (Suc (Suc n)))))) (swap_rest p 18) script)"
proof -
  note c = parts [unfolded swap_parts_def]
  have k: "is_op (p 12) OP_CHECKLOCKTIMEVERIFY []" "is_op (p 13) OP_DROP []" "is_op (p 14) OP_DUP []"
    "is_op (p 15) OP_HASH160 []" "is_op (p 10) OP_ELSE []" "is_op (p 17) OP_ENDIF []" "is_push (p 11) lock"
    "is_push (p 16) (refundPkh c)" using c by simp_all
  have "OP_ENDIF \<noteq> OP_ELSE" by (simp add: opcodes)
  with k assms(2,3) show ?thesis
    by (simp add: swap_rest_step swap_control [of _ OP_ELSE] swap_control [of _ OP_ENDIF]
        skip_is_push [OF k(7)] skip_is_push [OF k(8)] skip_code [OF k(1)] skip_code [OF k(2)]
        skip_code [OF k(3)] skip_code [OF k(4)] MAX_OPS_PER_SCRIPT_def)
qed

lemma stop_in_branch: "\<not> accepts E (run_script E cx (swap_state st (b # vf) n [] script))"
  by (simp add: run_end accepts_def)

lemma size_equals:
  assumes E: "openssl_bn E"
  shows "getvch E (int n) = [32] \<longleftrightarrow> n = 32"
proof -
  have v: "mpi_value (rev (getvch E (int m))) = int m" for m
    by (simp add: openssl_bn.getvch [OF E])
  have "mpi_value (rev [32::byte]) = 32" by simp
  moreover have "getvch E (int 32) = [32]"
    using openssl_bn.getvch [OF E, of 32] by (simp add: mpi_body_def le_min.simps)
  ultimately show ?thesis using v [of n] by auto
qed

text \<open>The recipient's branch: the secret first, then the key.\<close>

lemma branch_secret:
  assumes E: "openssl_bn E" and parts: "swap_parts p lock c script" and n: "n < 50"
    and len: "length st + 2 \<le> MAX_STACK_SIZE"
  shows "accepts E (run_script E cx (swap_state st [True] n (swap_rest p 1) script)) \<longleftrightarrow>
    (\<exists>secret r. st = secret # r \<and> length secret = 32 \<and> SHA256 E secret = secretHash c \<and>
       accepts E (run_script E cx (swap_state r [True] (Suc (Suc (Suc (Suc n)))) (swap_rest p 7) script)))"
proof (cases st)
  case Nil
  have "is_op (p 1) OP_SIZE []" using parts by (simp add: swap_parts_def)
  with Nil n show ?thesis
    by (subst rest_code [of p 1 OP_SIZE]) (auto simp: exec_swap MAX_OPS_PER_SCRIPT_def)
next
  case (Cons secret r)
  have k: "is_op (p 1) OP_SIZE []" "is_push (p 2) [32]" "is_op (p 3) OP_EQUALVERIFY []"
    "is_op (p 4) OP_SHA256 []" "is_push (p 5) (secretHash c)" "is_op (p 6) OP_EQUALVERIFY []"
    using parts by (simp_all add: swap_parts_def)
  have s3: "run_script E cx (swap_state st [True] n (swap_rest p 1) script) =
      run_script E cx (swap_state ([32] # getvch E (int (length secret)) # st) [True] (Suc n) (swap_rest p 3) script)"
    using k n len Cons
    by (simp add: rest_code [of _ "Suc 0" OP_SIZE] rest_push [of _ 2] exec_swap MAX_OPS_PER_SCRIPT_def
        eval_nat_numeral(3) [symmetric] numeral_2_eq_2 [symmetric])
  have s6: "run_script E cx (swap_state st [True] (Suc (Suc n)) (swap_rest p 4) script) =
      run_script E cx (swap_state (secretHash c # SHA256 E secret # r) [True] (Suc (Suc (Suc n)))
        (swap_rest p 6) script)"
    using k n len Cons
    by (simp add: rest_code [of _ 4 OP_SHA256] rest_push [of _ 5] exec_swap MAX_OPS_PER_SCRIPT_def)
  have eq: "run_script E cx (swap_state (x2 # x1 # q) [True] m (swap_rest p j) script) =
      (if x1 = x2 then run_script E cx (swap_state q [True] (Suc m) (swap_rest p (Suc j)) script)
       else run_script E cx (swap_state (vchFalse # q) [True] (Suc m) [] script))"
    if "is_op (p j) OP_EQUALVERIFY []" "j < 20" "m < MAX_OPS_PER_SCRIPT" "length q < MAX_STACK_SIZE"
    for x1 x2 q m j
    using that by (simp add: rest_code [of _ j OP_EQUALVERIFY] exec_swap)
  show ?thesis
    using n len Cons k unfolding s3
    by (simp add: eq [of 3] eq [of 6] s6 [unfolded Cons] size_equals [OF E] stop_in_branch
        MAX_OPS_PER_SCRIPT_def)
qed

text \<open>Comparing the key with the hash the branch names, and skipping or leaving.\<close>

lemma branch_key:
  assumes "is_op (p k) OP_DUP []" "is_op (p (Suc k)) OP_HASH160 []" "is_push (p (Suc (Suc k))) pkh"
    and "Suc (Suc k) < 20" "n < 100" "list_all id vf" "length st + 2 \<le> MAX_STACK_SIZE" "st = pk # r"
  shows "run_script E cx (swap_state st vf n (swap_rest p k) script) =
    run_script E cx (swap_state (pkh # bytes_of_uint160 (Hash160 E pk) # st) vf (Suc (Suc n))
      (swap_rest p (Suc (Suc (Suc k)))) script)"
  using assms
  by (simp add: rest_code [of _ k OP_DUP] rest_code [of _ "Suc k" OP_HASH160]
      rest_push [of _ "Suc (Suc k)"] exec_swap MAX_OPS_PER_SCRIPT_def)

lemma branch_no_key:
  assumes "is_op (p k) OP_DUP []" "k < 20" "n < 100" "list_all id vf"
  shows "run_script E cx (swap_state [] vf n (swap_rest p k) script) = None"
  using assms by (simp add: rest_code [of _ k OP_DUP] exec_swap MAX_OPS_PER_SCRIPT_def)

lemma branch_recipient:
  assumes E: "openssl_bn E" and parts: "swap_parts p lock c script" and n: "n < 60"
    and len: "length st + 2 \<le> MAX_STACK_SIZE"
  shows "accepts E (run_script E cx (swap_state st [True] n (swap_rest p 7) script)) \<longleftrightarrow>
    (\<exists>pk sig r. st = pk # sig # r \<and> bytes_of_uint160 (Hash160 E pk) = recipientPkh c \<and>
       cx_CheckSig E cx (FindAndDelete (push_vch sig) script) sig pk)"
proof (cases st)
  case Nil
  have "is_op (p 7) OP_DUP []" using parts by (simp add: swap_parts_def)
  with Nil n show ?thesis by (simp add: branch_no_key)
next
  case (Cons pk r)
  have k: "is_op (p 7) OP_DUP []" "is_op (p (Suc 7)) OP_HASH160 []"
    "is_push (p (Suc (Suc 7))) (recipientPkh c)"
    using parts by (simp_all add: swap_parts_def)
  have "run_script E cx (swap_state st [True] n (swap_rest p 7) script) =
      run_script E cx (swap_state (recipientPkh c # bytes_of_uint160 (Hash160 E pk) # st) [True]
        (Suc (Suc n)) (swap_rest p 10) script)"
    using n len by (subst branch_key [OF k]) (auto simp: Cons)
  also have "\<dots> = run_script E cx (swap_state (recipientPkh c # bytes_of_uint160 (Hash160 E pk) # st) []
        (Suc (Suc (Suc (Suc (Suc (Suc (Suc (Suc n)))))))) (swap_rest p 18) script)"
    using n len by (intro skip_else [OF parts]) auto
  finally show ?thesis
    using n len by (auto simp: swap_end [OF E parts] Cons)
qed

text \<open>The refund branch: skipped over up to \<^verbatim>\<open>OP_ELSE\<close>, then the lock and the key.\<close>

lemma skip_then:
  assumes parts: "swap_parts p lock c script" and "n < 50" "length st \<le> MAX_STACK_SIZE"
  shows "run_script E cx (swap_state st [False] n (swap_rest p 1) script) =
    run_script E cx (swap_state st [True] (Suc (Suc (Suc (Suc (Suc (Suc (Suc n))))))) (swap_rest p 11) script)"
proof -
  have k: "is_op (p 1) OP_SIZE []" "is_push (p 2) [32]" "is_op (p 3) OP_EQUALVERIFY []"
    "is_op (p 4) OP_SHA256 []" "is_push (p 5) (secretHash c)" "is_op (p 6) OP_EQUALVERIFY []"
    "is_op (p 7) OP_DUP []" "is_op (p 8) OP_HASH160 []" "is_push (p 9) (recipientPkh c)"
    "is_op (p 10) OP_ELSE []"
    using parts by (simp_all add: swap_parts_def)
  have code: "run_script E cx (swap_state st [False] m (swap_rest p j) script) =
      run_script E cx (swap_state st [False] (Suc m) (swap_rest p (Suc j)) script)"
    if "is_op (p j) opcode []" "opcode \<in> {OP_SIZE, OP_EQUALVERIFY, OP_SHA256, OP_DUP, OP_HASH160}"
      "j < 20" "m < 100" for j m opcode
    using that(2,3,4) assms(3)
    by (subst (1) swap_rest_step [OF that(3)], intro skip_code [OF that(1)])
      (auto simp: MAX_OPS_PER_SCRIPT_def)
  have push: "run_script E cx (swap_state st [False] m (swap_rest p j) script) =
      run_script E cx (swap_state st [False] m (swap_rest p (Suc j)) script)"
    if "is_push (p j) v" "j < 20" "m < 100" for j m v
    using that assms(3) by (simp add: swap_rest_step [of j] skip_is_push MAX_OPS_PER_SCRIPT_def)
  have els: "run_script E cx (swap_state st [False] m (swap_rest p 10) script) =
      run_script E cx (swap_state st [True] (Suc m) (swap_rest p 11) script)" if "m < 100" for m
    using that assms(3) k(10) by (simp add: swap_rest_step [of 10] swap_control [of _ OP_ELSE] MAX_OPS_PER_SCRIPT_def)
  have "run_script E cx (swap_state st [False] n (swap_rest p 1) script) =
      run_script E cx (swap_state st [False] (Suc n) (swap_rest p 2) script)"
    using code [OF k(1), of n] assms(2) by (simp add: numeral_2_eq_2)
  also have "\<dots> = run_script E cx (swap_state st [False] (Suc n) (swap_rest p 3) script)"
    using push [OF k(2), of "Suc n"] assms(2) by simp
  also have "\<dots> = run_script E cx (swap_state st [False] (Suc (Suc n)) (swap_rest p 4) script)"
    using code [OF k(3), of "Suc n"] assms(2) by simp
  also have "\<dots> = run_script E cx (swap_state st [False] (Suc (Suc (Suc n))) (swap_rest p 5) script)"
    using code [OF k(4), of "Suc (Suc n)"] assms(2) by simp
  also have "\<dots> = run_script E cx (swap_state st [False] (Suc (Suc (Suc n))) (swap_rest p 6) script)"
    using push [OF k(5), of "Suc (Suc (Suc n))"] assms(2) by simp
  finally show ?thesis
    using assms(2)
    by (simp add: code [OF k(6)] code [OF k(7)] code [OF k(8)] push [OF k(9)] els)
qed

lemma branch_refund:
  assumes E: "openssl_bn E" and parts: "swap_parts p lock c script" and n: "n < 50"
    and len: "length st + 2 \<le> MAX_STACK_SIZE"
  shows "accepts E (run_script E cx (swap_state st [True] n (swap_rest p 11) script)) \<longleftrightarrow>
    op_cltv E cx [lock] \<and>
    (\<exists>pk sig r. st = pk # sig # r \<and> bytes_of_uint160 (Hash160 E pk) = refundPkh c \<and>
       cx_CheckSig E cx (FindAndDelete (push_vch sig) script) sig pk)"
proof -
  have k: "is_push (p 11) lock" "is_op (p 12) OP_CHECKLOCKTIMEVERIFY []" "is_op (p 13) OP_DROP []"
    "is_op (p 17) OP_ENDIF []"
    using parts by (simp_all add: swap_parts_def)
  have d: "is_op (p 14) OP_DUP []" "is_op (p (Suc 14)) OP_HASH160 []" "is_push (p (Suc (Suc 14))) (refundPkh c)"
    using parts by (simp_all add: swap_parts_def)
  have cltv: "op_cltv E cx (lock # st) = op_cltv E cx [lock]" by (simp add: op_cltv_def)
  have "run_script E cx (swap_state st [True] n (swap_rest p 11) script) =
      (if op_cltv E cx [lock] then run_script E cx (swap_state st [True] (Suc (Suc n)) (swap_rest p 14) script)
       else None)"
    using k(1-3) n len
    by (simp add: rest_push [of _ 11] rest_code [of _ 12 OP_CHECKLOCKTIMEVERIFY] rest_code [of _ 13 OP_DROP]
        exec_swap cltv MAX_OPS_PER_SCRIPT_def)
  moreover have "accepts E (run_script E cx (swap_state st [True] (Suc (Suc n)) (swap_rest p 14) script)) \<longleftrightarrow>
      (\<exists>pk sig r. st = pk # sig # r \<and> bytes_of_uint160 (Hash160 E pk) = refundPkh c \<and>
         cx_CheckSig E cx (FindAndDelete (push_vch sig) script) sig pk)"
  proof (cases st)
    case Nil
    with n d(1) show ?thesis by (simp add: branch_no_key)
  next
    case (Cons pk r)
    have "run_script E cx (swap_state st [True] (Suc (Suc n)) (swap_rest p 14) script) =
        run_script E cx (swap_state (refundPkh c # bytes_of_uint160 (Hash160 E pk) # st) [True]
          (Suc (Suc (Suc (Suc n)))) (swap_rest p 17) script)"
      using n len by (subst branch_key [OF d]) (auto simp: Cons)
    also have "\<dots> = run_script E cx (swap_state (refundPkh c # bytes_of_uint160 (Hash160 E pk) # st) []
          (Suc (Suc (Suc (Suc (Suc n))))) (swap_rest p 18) script)"
      using n len k(4)
      by (simp add: swap_rest_step [of 17] swap_control [of _ OP_ENDIF] MAX_OPS_PER_SCRIPT_def opcodes)
    finally show ?thesis
      using n len by (auto simp: swap_end [OF E parts] Cons)
  qed
  ultimately show ?thesis by simp
qed

text \<open>The contract as a whole.\<close>

lemma contract_accepts:
  assumes E: "openssl_bn E" and parts: "swap_parts p lock c script" and len: "length st + 1 \<le> MAX_STACK_SIZE"
  shows "accepts E (run_script E cx (behind_separator st script)) \<longleftrightarrow>
    (\<exists>cond r pk sig q. st = cond # r \<and>
       (if CastToBool E cond then
          \<exists>secret. r = secret # pk # sig # q \<and> length secret = 32 \<and> SHA256 E secret = secretHash c \<and>
            bytes_of_uint160 (Hash160 E pk) = recipientPkh c
        else r = pk # sig # q \<and> op_cltv E cx [lock] \<and> bytes_of_uint160 (Hash160 E pk) = refundPkh c) \<and>
       cx_CheckSig E cx (FindAndDelete (push_vch sig) script) sig pk)"
proof -
  have s: "behind_separator st script = swap_state st [] 1 (swap_rest p 0) script"
    using parts by (simp add: behind_separator_def swap_state_def swap_parts_def)
  have k: "is_op (p 0) OP_IF []" using parts by (simp add: swap_parts_def)
  show ?thesis
  proof (cases st)
    case Nil
    then show ?thesis unfolding s
      using k by (subst rest_code [of p 0 OP_IF]) (simp_all add: exec_swap MAX_OPS_PER_SCRIPT_def)
  next
    case (Cons cond r)
    have if_step: "run_script E cx (swap_state st [] 1 (swap_rest p 0) script) =
        run_script E cx (swap_state r [CastToBool E cond] 2 (swap_rest p 1) script)"
      using len k by (subst rest_code [of p 0 OP_IF]) (simp_all add: exec_swap MAX_OPS_PER_SCRIPT_def Cons numeral_2_eq_2)
    show ?thesis
    proof (cases "CastToBool E cond")
      case True
      show ?thesis unfolding s if_step
        using len True Cons
        by (auto simp: branch_secret [OF E parts, unfolded One_nat_def] branch_recipient [OF E parts])
    next
      case False
      have "run_script E cx (swap_state r [False] 2 (swap_rest p 1) script) =
          run_script E cx (swap_state r [True] (Suc (Suc (Suc (Suc (Suc (Suc (Suc 2))))))) (swap_rest p 11) script)"
        using len Cons by (intro skip_then [OF parts]) auto
      then show ?thesis unfolding s if_step
        using len False Cons by (auto simp: branch_refund [OF E parts])
    qed
  qed
qed

section \<open>Recognising a contract\<close>

lemma nth_upt_20:
  assumes "length xs = 20"
  shows "concat (map f xs) = swap_rest (\<lambda>k. f (xs ! k)) 0"
proof -
  have "map (\<lambda>k. f (xs ! k)) [0..<20] = map f xs"
    using assms by (intro nth_equalityI) simp_all
  then show ?thesis by (simp add: swap_rest_def)
qed

lemma ParseContract_Some:
  assumes "ParseContract script = Some c"
  obtains ops where "contract_ops script = Some ops" "contract_shape ops"
    "snd (ops ! 11) \<noteq> []" "length (snd (ops ! 11)) \<le> 5" "last (snd (ops ! 11)) AND 0x80 = 0"
    "0 < lock_value (snd (ops ! 11))" "lock_value (snd (ops ! 11)) \<le> 0xffffffff"
    "c = \<lparr>recipientPkh = snd (ops ! 9), refundPkh = snd (ops ! 16), secretHash = snd (ops ! 5),
      c_LockTime = int (lock_value (snd (ops ! 11)))\<rparr>"
  using assms unfolding ParseContract_def Let_def
  by (auto split: option.splits if_split_asm)

lemma ParseContract_parts:
  assumes "ParseContract script = Some c"
  obtains p lock where "swap_parts p lock c script"
proof -
  obtain ops where ops: "contract_ops script = Some ops" "contract_shape ops"
    and lock: "snd (ops ! 11) \<noteq> []" "length (snd (ops ! 11)) \<le> 5" "last (snd (ops ! 11)) AND 0x80 = 0"
      "0 < lock_value (snd (ops ! 11))" "lock_value (snd (ops ! 11)) \<le> 0xffffffff"
    and c: "c = \<lparr>recipientPkh = snd (ops ! 9), refundPkh = snd (ops ! 16), secretHash = snd (ops ! 5),
      c_LockTime = int (lock_value (snd (ops ! 11)))\<rparr>"
    using assms by (rule ParseContract_Some)
  define os where "os = ops_of script"
  have tail: "tail_of script = []" and m: "ops = map (\<lambda>(opcode, v, _). (opcode, v)) os"
    using ops(1) by (auto simp: contract_ops_eq os_def split: if_split_asm)
  have len: "length os = 20" using ops(2) m by (simp add: contract_shape_def)
  define p where "p k = snd (snd (os ! k))" for k
  have op: "is_op (p k) (fst (ops ! k)) (snd (ops ! k))" if "k < 20" for k
  proof -
    obtain a b q where e: "os ! k = (a, b, q)" by (cases "os ! k") auto
    have "(a, b, q) \<in> set (ops_of script)"
      using that len e nth_mem [of k os] by (simp add: os_def)
    then show ?thesis
      using ops_of_raw e that len by (auto simp: is_op_def p_def m)
  qed
  have script: "script = swap_rest p 0"
    using parse_ops_concat [of script] tail nth_upt_20 [OF len, of "snd \<circ> snd"]
    by (simp add: os_def [symmetric] p_def [abs_def])
  have code: "is_op (p k) opcode []" if "fst (ops ! k) = opcode" "OP_PUSHDATA4 < opcode" "k < 20" for k opcode
  proof -
    have "snd (ops ! k) = []" using is_op_push [OF op [OF that(3)]] that(1,2) by (meson not_le)
    then show ?thesis using op [OF that(3)] that(1) by simp
  qed
  have push: "is_push (p k) v" if "snd (ops ! k) = v" "v \<noteq> []" "length v \<le> 32" "k < 20" for k v
    using op [OF that(4)] that by (auto simp: is_push_def MAX_SCRIPT_ELEMENT_SIZE_def)
  have sz: "snd (ops ! 5) \<noteq> []" "snd (ops ! 9) \<noteq> []" "snd (ops ! 16) \<noteq> []"
    using ops(2) by (auto simp: contract_shape_def)
  have "swap_parts p (snd (ops ! 11)) c script"
    unfolding swap_parts_def
  proof (intro conjI)
    show "unat (last (snd (ops ! 11))) < 128" using lock(3) byte_top_bit [of "last (snd (ops ! 11))"] by simp
    show "c_LockTime c = int (le_nat (snd (ops ! 11)))" using c lock(2) by (simp add: lock_value)
  qed (use ops(2) c lock sz script in \<open>auto simp: contract_shape_def opcodes SECRET_BYTES_def
      intro!: code push\<close>)
  then show ?thesis by (rule that)
qed

end
