(* ===== verification/SwapProps.thy ===== *)
theory SwapProps
  imports Swap
begin

text \<open>
  What the contract of \<open>Swap\<close> promises the two sides of a swap: a script that \<open>ParseContract\<close>
  takes can be spent by the recipient with the secret, which the spend then shows to everybody,
  by the refund key once the lock has passed, and in no other way short of a second script with
  the same hash.  Building and recognising contracts fit together.
\<close>

section \<open>Who can spend a contract\<close>

definition signed_for :: "ext \<Rightarrow> CTransaction \<Rightarrow> nat \<Rightarrow> bool \<Rightarrow> bytes \<Rightarrow> bytes \<Rightarrow> bool" where
  "signed_for E tx n strict script pkh \<longleftrightarrow>
     (\<exists>pk sig. bytes_of_uint160 (Hash160 E pk) = pkh \<and>
        CheckSig E sig pk (FindAndDelete (push_vch sig) script) tx n 0 strict)"

lemma push_run_elems:
  "push_run E ops st = Some st' \<Longrightarrow> x \<in> set st' \<Longrightarrow>
   x \<in> set st \<or> (\<exists>(opcode, v, p) \<in> set ops. x = pushed E opcode v \<and> opcode \<noteq> OP_RESERVED)"
  by (induction E ops st rule: push_run.induct) (auto split: if_split_asm)

lemma pushed_long:
  assumes E: "openssl_bn E" and "length (pushed E opcode v) = 32" "opcode \<le> OP_16"
  shows "pushed E opcode v = v"
proof (rule ccontr)
  assume "pushed E opcode v \<noteq> v"
  then have p: "\<not> opcode \<le> OP_PUSHDATA4"
    "pushed E opcode v = getvch E (CBigNum_int E (int opcode - (int OP_1 - 1)))"
    by (auto simp: pushed_def)
  let ?n = "int opcode - (int OP_1 - 1)"
  have r: "-1 \<le> ?n" "?n \<le> 16" using p(1) assms(3) by (simp_all add: opcodes)
  have "CBigNum_int E ?n = ?n"
    using r openssl_bn.setint64 [OF E, of ?n] by (auto simp: CBigNum_int_def in_i64_def)
  then have "length (pushed E opcode v) = length (mpi_body ?n)"
    using p(2) by (simp add: openssl_bn.getvch [OF E])
  moreover have "length (mpi_body ?n) \<le> Suc 1"
    using r by (intro length_mpi_body_le) auto
  ultimately show False using assms(2) by simp
qed

lemma lock_setvch:
  assumes E: "openssl_bn E" and "lock \<noteq> []" "length lock \<le> 5" "unat (last lock) < 128"
  shows "setvch E lock = int (le_nat lock)"
proof -
  have "mpi_value (rev lock) = int (be_nat (rev lock))"
    using assms(2,4) by (intro mpi_value_nonneg) (simp add: hd_rev)
  moreover have "be_nat (rev lock) = le_nat lock" by (simp add: be_nat_def)
  ultimately show ?thesis using assms(3) by (simp add: openssl_bn.setvch [OF E])
qed

lemma script_ctx_sel [simp]:
  "txTo (script_ctx_of tx n t strict v3 v4) = tx" "nIn (script_ctx_of tx n t strict v3 v4) = n"
  "fRulesV3 (script_ctx_of tx n t strict v3 v4) = v3"
  by (simp_all add: script_ctx_of_def)

lemma cx_CheckSig_of [simp]:
  "cx_CheckSig E (script_ctx_of tx n t strict v3 v4) code sig pk = CheckSig E sig pk code tx n t strict"
  by (simp add: cx_CheckSig_def script_ctx_of_def)

lemma contract_lock:
  assumes "openssl_bn E" "swap_parts p lock c script"
  shows "setvch E lock = c_LockTime c"
proof -
  have "lock \<noteq> []" "length lock \<le> 5" "unat (last lock) < 128" "c_LockTime c = int (le_nat lock)"
    using assms(2) by (simp_all add: swap_parts_def is_push_def)
  with lock_setvch [OF assms(1)] show ?thesis by simp
qed

text \<open>The secret pushed by a scriptSig is found in it.\<close>

lemma pushed_secret_found:
  assumes E: "openssl_bn E" and inner: "IsPushOnly inner" "push_run E (ops_of inner) [] = Some st"
    and secret: "secret \<in> set st" "length secret = 32" and sig: "IsPushOnly (inner @ q)"
  shows "\<exists>s. ExtractSecret E (inner @ q) (SHA256 E secret) = Some s"
proof -
  obtain opcode v p where op: "(opcode, v, p) \<in> set (ops_of inner)" "secret = pushed E opcode v"
    using push_run_elems [OF inner(2) secret(1)] by auto
  have t: "tail_of inner = []" and le: "opcode \<le> OP_16"
    using inner(1) op(1) by (auto simp: IsPushOnly_ops list_all_iff)
  have "secret = v" using pushed_long [OF E, of opcode v] op(2) secret(2) le by simp
  then have "(opcode, secret, p) \<in> set (ops_of (inner @ q))"
    using op(1) parse_ops_append [OF t, of q] by simp
  moreover have "tail_of (inner @ q) = []" using sig by (simp add: IsPushOnly_ops)
  ultimately have "ExtractSecret E (inner @ q) (SHA256 E secret) \<noteq> None"
    using secret(2)
    by (subst ExtractSecret_None) (auto simp: SECRET_BYTES_def intro!: bexI [of _ "(opcode, secret, p)"])
  then show ?thesis by blast
qed

lemma contract_spend:
  assumes E: "openssl_bn E" and c: "ParseContract script = Some c"
    and ok: "VerifyScriptP2SH E sig (p2sh (Hash160 E script)) tx n strict True v4"
    and tx: "in_i32 (nLockTime tx)" "n < length (vin tx)"
  obtains (collision) other where "other \<noteq> script" "Hash160 E other = Hash160 E script"
  | (redeemed) secret where "ExtractSecret E sig (secretHash c) = Some secret"
      "length secret = SECRET_BYTES" "SHA256 E secret = secretHash c"
      "signed_for E tx n strict script (recipientPkh c)"
  | (refunded) "c_LockTime c \<le> nLockTime tx" "nSequence (vin tx ! n) \<noteq> SEQUENCE_FINAL"
      "c_LockTime c < 500000000 \<longleftrightarrow> nLockTime tx < 500000000"
      "signed_for E tx n strict script (refundPkh c)"
proof -
  let ?cx = "script_ctx_of tx n 0 strict True v4"
  obtain p lock where parts: "swap_parts p lock c script" using c by (rule ParseContract_parts)
  have sig: "IsPushOnly sig" using ok by (simp add: VerifyScriptP2SH_def Let_def split: if_split_asm)
  obtain inner q opcode redeem st where
    i: "sig = inner @ q" "IsPushOnly inner" "push_run E (ops_of inner) [] = Some st"
      "length st + 2 \<le> MAX_STACK_SIZE" "Hash160 E redeem = Hash160 E script"
      "accepts E (run_script E ?cx (behind_separator st redeem))"
    using ok unfolding VerifyScriptP2SH_iff [OF E] by blast
  show thesis
  proof (cases "redeem = script")
    case False
    with i(5) show thesis by (intro collision)
  next
    case True
    have "length st + 1 \<le> MAX_STACK_SIZE" using i(4) by simp
    from i(6) [unfolded True contract_accepts [OF E parts this]]
    obtain cond r pk s t where st: "st = cond # r"
      and branch: "if CastToBool E cond then \<exists>secret. r = secret # pk # s # t \<and> length secret = 32 \<and>
          SHA256 E secret = secretHash c \<and> bytes_of_uint160 (Hash160 E pk) = recipientPkh c
        else r = pk # s # t \<and> op_cltv E ?cx [lock] \<and> bytes_of_uint160 (Hash160 E pk) = refundPkh c"
      and check: "CheckSig E s pk (FindAndDelete (push_vch s) script) tx n 0 strict"
      by auto
    show thesis
    proof (cases "CastToBool E cond")
      case True
      with branch obtain secret where sec: "r = secret # pk # s # t" "length secret = 32"
        "SHA256 E secret = secretHash c" "bytes_of_uint160 (Hash160 E pk) = recipientPkh c" by auto
      have "\<exists>x. ExtractSecret E (inner @ q) (SHA256 E secret) = Some x"
        using pushed_secret_found [OF E i(2,3) _ sec(2)] sig st sec(1) i(1) by simp
      then obtain x where x: "ExtractSecret E sig (secretHash c) = Some x" using i(1) sec(3) by auto
      show thesis
        using x ExtractSecret_Some [OF x] sec(4) check by (intro redeemed [of x]) (auto simp: signed_for_def)
    next
      case False
      with branch have ref: "op_cltv E ?cx [lock]" "bytes_of_uint160 (Hash160 E pk) = refundPkh c" by auto
      have lt: "in_i32 (nLockTime (txTo ?cx))" using tx(1) by simp
      have "c_LockTime c \<le> nLockTime tx" "nSequence (vin tx ! n) \<noteq> SEQUENCE_FINAL"
        "c_LockTime c < 500000000 \<longleftrightarrow> nLockTime tx < 500000000"
        using ref(1) [unfolded op_cltv_iff [OF E lt] contract_lock [OF E parts]]
        by (simp_all add: contract_lock [OF E parts])
      with ref(2) check show thesis by (intro refunded) (auto simp: signed_for_def)
    qed
  qed
qed

text \<open>A refund in a block: the lock has passed there.\<close>

lemma refund_final:
  assumes "IsFinalAt tx h t" "n < length (vin tx)" "nSequence (vin tx ! n) \<noteq> SEQUENCE_FINAL"
    and "in_i32 (nLockTime tx)" "0 < lock" "lock \<le> nLockTime tx"
    and "lock < 500000000 \<longleftrightarrow> nLockTime tx < 500000000"
  shows "if lock < 500000000 then lock < h else lock < t"
proof -
  have "vin tx ! n \<in> set (vin tx)" using assms(2) by simp
  moreover have "0 \<le> nLockTime tx" "nLockTime tx < 2 ^ 31" "nLockTime tx \<noteq> 0"
    using assms(4,5,6) by (auto simp: in_i32_def)
  ultimately show ?thesis
    using assms IsFinalAt_iff [of tx h t] by (auto split: if_split_asm)
qed

section \<open>The two scriptSigs of the code\<close>

lemma small_push:
  "GetOp (push_opcode OP_TRUE @ r) = Some (OP_1, [], r)"
  "GetOp (push_opcode OP_FALSE @ r) = Some (0, [], r)"
  by (simp_all add: push_opcode_def GetOp_def push_size_def opcodes)

lemma ops_of_small:
  "ops_of (push_opcode OP_TRUE) = [(OP_1, [], push_opcode OP_TRUE)]" "tail_of (push_opcode OP_TRUE) = []"
  "ops_of (push_opcode OP_FALSE) = [(0, [], push_opcode OP_FALSE)]" "tail_of (push_opcode OP_FALSE) = []"
  using parse_ops_Some [OF small_push(1) [of "[]"]] parse_ops_Some [OF small_push(2) [of "[]"]] by simp_all

lemma push_only_small [simp]:
  "IsPushOnly (push_opcode OP_TRUE)" "IsPushOnly (push_opcode OP_FALSE)"
  unfolding IsPushOnly_ops ops_of_small by (simp_all add: opcodes)

lemma push_run_small:
  "length st < MAX_STACK_SIZE \<Longrightarrow>
     push_run E (ops_of (push_opcode OP_TRUE)) st = Some (pushed E OP_1 [] # st)"
  "length st < MAX_STACK_SIZE \<Longrightarrow>
     push_run E (ops_of (push_opcode OP_FALSE)) st = Some (pushed E 0 [] # st)"
  unfolding ops_of_small by (simp_all add: opcodes)

lemma CastToBool_small:
  assumes E: "openssl_bn E"
  shows "CastToBool E (pushed E OP_1 [])" "\<not> CastToBool E (pushed E 0 [])"
proof -
  have "pushed E OP_1 [] = getvch E 1" by (simp add: pushed_def CBigNum_int_def opcodes)
  moreover have "setvch E (getvch E 1) = 1"
    by (rule openssl_bn.setvch_getvch [OF E])
      (rule le_less_trans [OF length_mpi_body_le [of 1 1]], simp_all)
  ultimately show "CastToBool E (pushed E OP_1 [])" by (simp add: CastToBool_def)
  show "\<not> CastToBool E (pushed E 0 [])"
    using openssl_bn.setvch [OF E, of "[]"] by (simp add: CastToBool_def pushed_def)
qed

lemma spend_script_hash:
  assumes E: "openssl_bn E" and inner: "IsPushOnly inner" "push_run E (ops_of inner) [] = Some st"
    and len: "length st + 2 \<le> MAX_STACK_SIZE" "length script \<le> MAX_SCRIPT_ELEMENT_SIZE"
    and ok: "accepts E (run_script E (script_ctx_of tx n 0 strict v3 v4) (behind_separator st script))"
  shows "VerifyScriptP2SH E (inner @ push_vch script) (p2sh (Hash160 E script)) tx n strict v3 v4"
proof -
  obtain opcode where op: "opcode \<le> OP_PUSHDATA4" "GetOp (push_vch script) = Some (opcode, script, [])"
  proof
    show "(if length script < OP_PUSHDATA1 then length script
        else if length script \<le> 0xff then OP_PUSHDATA1 else OP_PUSHDATA2) \<le> OP_PUSHDATA4"
      by (simp add: opcodes)
    show "GetOp (push_vch script) = Some (if length script < OP_PUSHDATA1 then length script
        else if length script \<le> 0xff then OP_PUSHDATA1 else OP_PUSHDATA2, script, [])"
      using GetOp_push_vch [of script "[]"] len(2) by (simp add: MAX_SCRIPT_ELEMENT_SIZE_def)
  qed
  then have "opcode \<le> OP_16" "opcode \<noteq> OP_RESERVED" "pushed E opcode script = script"
    by (auto simp: pushed_def opcodes)
  with op inner len ok show ?thesis
    unfolding VerifyScriptP2SH_iff [OF E]
    by (intro exI [of _ inner] exI [of _ "push_vch script"] exI [of _ opcode] exI [of _ script] exI [of _ st])
      simp
qed

lemma swap_pushes:
  assumes "length sig \<le> MAX_SCRIPT_ELEMENT_SIZE" "length pk \<le> MAX_SCRIPT_ELEMENT_SIZE" "length secret = 32"
  shows "IsPushOnly (push_vch sig @ push_vch pk @ push_vch secret @ push_opcode OP_TRUE)"
    "push_run E (ops_of (push_vch sig @ push_vch pk @ push_vch secret @ push_opcode OP_TRUE)) [] =
       Some [pushed E OP_1 [], secret, pk, sig]"
    "IsPushOnly (push_vch sig @ push_vch pk @ push_opcode OP_FALSE)"
    "push_run E (ops_of (push_vch sig @ push_vch pk @ push_opcode OP_FALSE)) [] = Some [pushed E 0 [], pk, sig]"
proof -
  have l: "length sig \<le> 0xffff" "length pk \<le> 0xffff" "length secret \<le> 0xffff"
    using assms by (simp_all add: MAX_SCRIPT_ELEMENT_SIZE_def)
  have m: "length secret \<le> MAX_SCRIPT_ELEMENT_SIZE" using assms(3) by (simp add: MAX_SCRIPT_ELEMENT_SIZE_def)
  show "IsPushOnly (push_vch sig @ push_vch pk @ push_vch secret @ push_opcode OP_TRUE)"
    "IsPushOnly (push_vch sig @ push_vch pk @ push_opcode OP_FALSE)" using l by simp_all
  show "push_run E (ops_of (push_vch sig @ push_vch pk @ push_vch secret @ push_opcode OP_TRUE)) [] =
       Some [pushed E OP_1 [], secret, pk, sig]"
    "push_run E (ops_of (push_vch sig @ push_vch pk @ push_opcode OP_FALSE)) [] = Some [pushed E 0 [], pk, sig]"
    using assms(1,2) m
    by (simp_all add: MAX_STACK_SIZE_def push_run_small)
qed

lemma redeem_accepted:
  assumes E: "openssl_bn E" and c: "ParseContract script = Some c" "length script \<le> MAX_SCRIPT_ELEMENT_SIZE"
    and len: "length sig \<le> MAX_SCRIPT_ELEMENT_SIZE" "length pk \<le> MAX_SCRIPT_ELEMENT_SIZE"
    and secret: "length secret = 32" "SHA256 E secret = secretHash c"
    and key: "bytes_of_uint160 (Hash160 E pk) = recipientPkh c"
    and sig: "CheckSig E sig pk (FindAndDelete (push_vch sig) script) tx n 0 strict"
  shows "VerifyScriptP2SH E (RedeemScriptSig sig pk secret script) (p2sh (Hash160 E script)) tx n strict True v4"
proof -
  obtain p lock where parts: "swap_parts p lock c script" using c(1) by (rule ParseContract_parts)
  have st: "length [pushed E OP_1 [], secret, pk, sig] + 1 \<le> MAX_STACK_SIZE" by (simp add: MAX_STACK_SIZE_def)
  have acc: "accepts E (run_script E (script_ctx_of tx n 0 strict True v4)
      (behind_separator [pushed E OP_1 [], secret, pk, sig] script))"
    unfolding contract_accepts [OF E parts st] using secret key sig by (simp add: CastToBool_small [OF E])
  show ?thesis
    using spend_script_hash [OF E swap_pushes(1) [OF len secret(1)] swap_pushes(2) [OF len secret(1)] _ c(2) acc]
    by (simp add: RedeemScriptSig_def MAX_STACK_SIZE_def)
qed

lemma refund_accepted:
  assumes E: "openssl_bn E" and c: "ParseContract script = Some c" "length script \<le> MAX_SCRIPT_ELEMENT_SIZE"
    and len: "length sig \<le> MAX_SCRIPT_ELEMENT_SIZE" "length pk \<le> MAX_SCRIPT_ELEMENT_SIZE"
    and tx: "nLockTime tx = c_LockTime c" "c_LockTime c < 2 ^ 31" "nSequence (vin tx ! n) \<noteq> SEQUENCE_FINAL"
    and key: "bytes_of_uint160 (Hash160 E pk) = refundPkh c"
    and sig: "CheckSig E sig pk (FindAndDelete (push_vch sig) script) tx n 0 strict"
  shows "VerifyScriptP2SH E (RefundScriptSig sig pk script) (p2sh (Hash160 E script)) tx n strict True v4"
proof -
  let ?cx = "script_ctx_of tx n 0 strict True v4"
  obtain p lock where parts: "swap_parts p lock c script" using c(1) by (rule ParseContract_parts)
  have pos: "0 < c_LockTime c" and l5: "length lock \<le> 5" using parts by (simp_all add: swap_parts_def)
  have st: "length [pushed E 0 [], pk, sig] + 1 \<le> MAX_STACK_SIZE" by (simp add: MAX_STACK_SIZE_def)
  have i: "in_i32 (nLockTime (txTo ?cx))" using tx(1,2) pos by (simp add: in_i32_def)
  have "op_cltv E ?cx [lock]"
    unfolding op_cltv_iff [OF E i] using tx l5 pos by (simp add: contract_lock [OF E parts])
  then have acc: "accepts E (run_script E ?cx (behind_separator [pushed E 0 [], pk, sig] script))"
    unfolding contract_accepts [OF E parts st] using key sig by (simp add: CastToBool_small [OF E])
  have "length (replicate 32 0 :: bytes) = 32" by simp
  note pushes = swap_pushes(3,4) [OF len this]
  show ?thesis
    using spend_script_hash [OF E pushes _ c(2) acc]
    by (simp add: RefundScriptSig_def MAX_STACK_SIZE_def)
qed

section \<open>Building and recognising\<close>

definition contract_wf :: "Contract \<Rightarrow> bool" where
  "contract_wf c \<longleftrightarrow> length (recipientPkh c) = 20 \<and> length (refundPkh c) = 20 \<and>
     length (secretHash c) = 32 \<and> 0 < c_LockTime c \<and> c_LockTime c < 2 ^ 32"

lemma contract_ops_step:
  "GetOp pc = Some (opcode, v, r) \<Longrightarrow> contract_ops pc = map_option ((#) (opcode, v)) (contract_ops r)"
  by (subst contract_ops.simps) auto

lemma contract_ops_Nil [simp]: "contract_ops [] = Some []"
  by (subst contract_ops.simps) simp

lemma contract_ops_code:
  "OP_PUSHDATA4 < n \<Longrightarrow> n < OP_SINGLEBYTE_END \<Longrightarrow>
   contract_ops (push_opcode n @ r) = map_option ((#) (n, [])) (contract_ops r)"
  by (rule contract_ops_step) (rule GetOp_push_opcode)

lemma contract_ops_vch:
  "length b < OP_PUSHDATA1 \<Longrightarrow>
   contract_ops (push_vch b @ r) = map_option ((#) (length b, b)) (contract_ops r)"
  using GetOp_push_vch [of b r] by (intro contract_ops_step) (simp add: opcodes)

lemma swap_code_bounds:
  "OP_PUSHDATA4 < OP_IF" "OP_PUSHDATA4 < OP_SIZE" "OP_PUSHDATA4 < OP_EQUALVERIFY"
  "OP_PUSHDATA4 < OP_SHA256" "OP_PUSHDATA4 < OP_DUP" "OP_PUSHDATA4 < OP_HASH160" "OP_PUSHDATA4 < OP_ELSE"
  "OP_PUSHDATA4 < OP_CHECKLOCKTIMEVERIFY" "OP_PUSHDATA4 < OP_DROP" "OP_PUSHDATA4 < OP_ENDIF"
  "OP_PUSHDATA4 < OP_CHECKSIG" "OP_IF < OP_SINGLEBYTE_END" "OP_SIZE < OP_SINGLEBYTE_END"
  "OP_EQUALVERIFY < OP_SINGLEBYTE_END" "OP_SHA256 < OP_SINGLEBYTE_END" "OP_DUP < OP_SINGLEBYTE_END"
  "OP_HASH160 < OP_SINGLEBYTE_END" "OP_ELSE < OP_SINGLEBYTE_END"
  "OP_CHECKLOCKTIMEVERIFY < OP_SINGLEBYTE_END" "OP_DROP < OP_SINGLEBYTE_END"
  "OP_ENDIF < OP_SINGLEBYTE_END" "OP_CHECKSIG < OP_SINGLEBYTE_END"
  by (simp_all add: opcodes)

lemma push_size_check:
  assumes E: "openssl_bn E"
  shows "push_int64 E (int SECRET_BYTES) = push_vch [32]"
proof -
  have "getvch E (setint64 E 32) = [32]"
    using size_equals [OF E, of 32] openssl_bn.setint64 [OF E, of 32] by (simp add: in_i64_def)
  then show ?thesis by (simp add: push_int64_def SECRET_BYTES_def)
qed

lemma getvch_lock:
  assumes E: "openssl_bn E" and "0 < n" "n < 2 ^ 32"
  shows "getvch E (setint64 E n) \<noteq> []" "length (getvch E (setint64 E n)) \<le> 5"
    "unat (last (getvch E (setint64 E n))) < 128" "le_nat (getvch E (setint64 E n)) = nat n"
proof -
  have "setint64 E n = n" using assms openssl_bn.setint64 [OF E, of n] by (simp add: in_i64_def)
  then have v: "getvch E (setint64 E n) = rev (mpi_body n)" by (simp add: openssl_bn.getvch [OF E])
  have "be_nat (mpi_body n) = nat n" using assms(2) by (simp add: be_nat_mpi_body)
  then show le: "le_nat (getvch E (setint64 E n)) = nat n" by (simp add: v be_nat_def)
  then show ne: "getvch E (setint64 E n) \<noteq> []" using assms(2) by auto
  have "length (mpi_body n) \<le> Suc 4" using assms by (intro length_mpi_body_le) auto
  then show "length (getvch E (setint64 E n)) \<le> 5" by (simp add: v)
  obtain b bs where b: "mpi_body n = b # bs" using ne v by (cases "mpi_body n") auto
  then have "unat b < 128" using assms(2) by (intro mpi_body_top_clear) auto
  then show "unat (last (getvch E (setint64 E n))) < 128" by (simp add: v b)
qed

lemma build_ops:
  assumes E: "openssl_bn E" and wf: "contract_wf c"
    and lock: "\<And>r. contract_ops (push_int64 E (c_LockTime c) @ r) = map_option ((#) l) (contract_ops r)"
  shows "contract_ops (BuildContract E c) = Some
    [(OP_IF, []), (OP_SIZE, []), (1, [32]), (OP_EQUALVERIFY, []), (OP_SHA256, []), (32, secretHash c),
     (OP_EQUALVERIFY, []), (OP_DUP, []), (OP_HASH160, []), (20, recipientPkh c), (OP_ELSE, []), l,
     (OP_CHECKLOCKTIMEVERIFY, []), (OP_DROP, []), (OP_DUP, []), (OP_HASH160, []), (20, refundPkh c),
     (OP_ENDIF, []), (OP_EQUALVERIFY, []), (OP_CHECKSIG, [])]"
proof -
  have d: "length [32::byte] < OP_PUSHDATA1" "length (secretHash c) < OP_PUSHDATA1"
    "length (recipientPkh c) < OP_PUSHDATA1" "length (refundPkh c) < OP_PUSHDATA1"
    using wf by (simp_all add: contract_wf_def opcodes)
  have l: "length (secretHash c) = 32" "length (recipientPkh c) = 20" "length (refundPkh c) = 20"
    using wf by (simp_all add: contract_wf_def)
  have last: "contract_ops (push_opcode OP_CHECKSIG) = Some [(OP_CHECKSIG, [])]"
    using contract_ops_code [of OP_CHECKSIG "[]"] by (simp add: swap_code_bounds)
  have one: "contract_ops (push_vch [32] @ r) = map_option ((#) (1, [32])) (contract_ops r)" for r
    using contract_ops_vch [OF d(1), of r] by simp
  show ?thesis
    unfolding BuildContract_def push_size_check [OF E]
    by (simp only: contract_ops_code swap_code_bounds one contract_ops_vch [OF d(2)] contract_ops_vch [OF d(3)]
        contract_ops_vch [OF d(4)] l lock last option.map)
qed

lemma build_parses:
  assumes E: "openssl_bn E" and wf: "contract_wf c" and lock: "16 < c_LockTime c"
  shows "ParseContract (BuildContract E c) = Some c"
proof -
  let ?l = "getvch E (setint64 E (c_LockTime c))"
  have n: "0 < c_LockTime c" "c_LockTime c < 2 ^ 32" using wf by (simp_all add: contract_wf_def)
  note g = getvch_lock [OF E n]
  have "push_int64 E (c_LockTime c) = push_vch ?l" using lock by (simp add: push_int64_def)
  moreover have "length ?l < OP_PUSHDATA1" using g(2) by (simp add: opcodes)
  ultimately have l: "contract_ops (push_int64 E (c_LockTime c) @ r) =
      map_option ((#) (length ?l, ?l)) (contract_ops r)" for r
    by (simp add: contract_ops_vch)
  have v: "lock_value ?l = nat (c_LockTime c)" using g(2,4) by (simp add: lock_value)
  have top: "last ?l AND 0x80 = 0" using g(3) byte_top_bit [of "last ?l"] by simp
  have shape: "contract_shape
    [(OP_IF, []), (OP_SIZE, []), (1, [32]), (OP_EQUALVERIFY, []), (OP_SHA256, []), (32, secretHash c),
     (OP_EQUALVERIFY, []), (OP_DUP, []), (OP_HASH160, []), (20, recipientPkh c), (OP_ELSE, []), (length ?l, ?l),
     (OP_CHECKLOCKTIMEVERIFY, []), (OP_DROP, []), (OP_DUP, []), (OP_HASH160, []), (20, refundPkh c),
     (OP_ENDIF, []), (OP_EQUALVERIFY, []), (OP_CHECKSIG, [])]"
    using wf by (simp add: contract_shape_def contract_wf_def SECRET_BYTES_def)
  show ?thesis
    using g(1,2) v top shape n by (simp add: ParseContract_def build_ops [OF E wf l] Let_def)
qed

text \<open>A lock of 1 to 16 is pushed by an operation of its own, which \<open>ParseContract\<close> does not read.\<close>

lemma build_small_lock:
  assumes E: "openssl_bn E" and wf: "contract_wf c" and lock: "c_LockTime c \<le> 16"
  shows "ParseContract (BuildContract E c) = None"
proof -
  have n: "0 < c_LockTime c" using wf by (simp add: contract_wf_def)
  have k: "nat (c_LockTime c) + (OP_1 - 1) < OP_SINGLEBYTE_END" "OP_PUSHDATA4 < nat (c_LockTime c) + (OP_1 - 1)"
    using n lock by (simp_all add: opcodes)
  have "c_LockTime c + (int OP_1 - 1) = int (nat (c_LockTime c) + (OP_1 - 1))"
    using n by (simp add: opcodes)
  then have "(word_of_int (c_LockTime c + (int OP_1 - 1)) :: byte) = word_of_nat (nat (c_LockTime c) + (OP_1 - 1))"
    by (simp only: of_int_of_nat_eq)
  moreover have "push_int64 E (c_LockTime c) = [word_of_int (c_LockTime c + (int OP_1 - 1))]"
    using n lock by (simp add: push_int64_def)
  ultimately have "push_int64 E (c_LockTime c) = push_opcode (nat (c_LockTime c) + (OP_1 - 1))"
    using k(1) by (simp only: push_opcode_def) simp
  then have l: "contract_ops (push_int64 E (c_LockTime c) @ r) =
      map_option ((#) (nat (c_LockTime c) + (OP_1 - 1), [])) (contract_ops r)" for r
    using k by (simp add: contract_ops_code)
  show ?thesis by (simp add: ParseContract_def build_ops [OF E wf l] Let_def)
qed

end
