(* ===== verification/SwapSpend.thy ===== *)
theory SwapSpend
  imports SwapProps Send KeyProps
begin

text \<open>
  Making and spending swap contracts: the commands of \<^verbatim>\<open>jsonrpc.cpp\<close> that fund a contract from the
  wallet, audit one, redeem it and refund it, and \<^verbatim>\<open>BuildSpend\<close> of \<^verbatim>\<open>btcswap.cpp\<close>, which builds the
  spend on the other chain.  Addresses and amounts come parsed; \<^verbatim>\<open>RAND_bytes\<close> is the argument
  \<open>secret\<close>.  The log file and the relaying are left out.
\<close>

datatype swap_error =
    NotOpen | WalletLocked | NoNewKey | LockFixed | LockOutOfRange | FundingFailed send_error
  | NoContractTx | DoesNotPay | NotAContract | AlreadySpent | NoContractKey | LockNotPassed
  | LessThanFee | WrongSecret | NoSecretShown | SigningFailed | DoesNotVerify | PoolRefused | FeeNotSettled

section \<open>The contract on the chain\<close>

definition LookupTransaction :: "node \<Rightarrow> uint256 \<Rightarrow> CTransaction option" where
  "LookupTransaction nd h =
    (case fmlookup (pool (nd_pool nd)) h of Some tx \<Rightarrow> Some tx | None \<Rightarrow> ReadDiskTx nd h)"

fun find_output :: "bytes \<Rightarrow> CTxOut list \<Rightarrow> nat option" where
  "find_output spk [] = None"
| "find_output spk (o1 # os) =
    (if scriptPubKey o1 = spk then Some 0 else map_option Suc (find_output spk os))"

definition FindContractOutput :: "ext \<Rightarrow> node \<Rightarrow> bytes \<Rightarrow> uint256 \<Rightarrow> swap_error + CTransaction \<times> nat" where
  "FindContractOutput E nd contract txid =
    (case LookupTransaction nd txid of
       None \<Rightarrow> Inl NoContractTx
     | Some tx \<Rightarrow>
        (case find_output (SetPayToScriptHash E contract) (vout tx) of
           None \<Rightarrow> Inl DoesNotPay | Some n \<Rightarrow> Inr (tx, n)))"

text \<open>Blocks from the one that holds a transaction up to the tip; 0 when no block of the main chain does.\<close>

definition ChainConfirmations :: "ext \<Rightarrow> node \<Rightarrow> uint256 \<Rightarrow> int" where
  "ChainConfirmations E nd txid =
    (case ReadTxIndex (nd_txdb nd) txid of
       None \<Rightarrow> 0
     | Some e \<Rightarrow>
        (case ReadFromDisk E (nd_files nd) (pos_nFile (pos e)) (pos_nBlockPos (pos e)) of
           Inl _ \<Rightarrow> 0
         | Inr b \<Rightarrow>
            (case fmlookup (mapBlockIndex nd) (GetHash E b) of
               None \<Rightarrow> 0
             | Some pindex \<Rightarrow>
                 if IsInMainChain nd pindex then i32 (1 + nBestHeight nd - nHeight (hd pindex)) else 0)))"

definition OutputSpent :: "node \<Rightarrow> COutPoint \<Rightarrow> bool" where
  "OutputSpent nd outpoint \<longleftrightarrow>
    fmlookup (mapNextTx (nd_pool nd)) outpoint \<noteq> None \<or>
    (case ReadTxIndex (nd_txdb nd) (out_hash outpoint) of
       None \<Rightarrow> False
     | Some e \<Rightarrow> unat (out_n outpoint) < length (vSpent e) \<and>
         \<not> CDiskTxPos_IsNull (vSpent e ! unat (out_n outpoint)))"

record contract_audit =
  au_contract :: Contract
  au_txid :: uint256
  au_vout :: nat
  au_amount :: int
  au_confirmations :: int
  au_unspent :: bool
  au_mine :: bool

definition swapauditcontract ::
    "ext \<Rightarrow> node \<Rightarrow> key_store \<Rightarrow> bytes \<Rightarrow> uint256 \<Rightarrow> swap_error + contract_audit" where
  "swapauditcontract E nd K contract txid =
    (case ParseContract contract of
       None \<Rightarrow> Inl NotAContract
     | Some c \<Rightarrow>
        (case FindContractOutput E nd contract txid of
           Inl e \<Rightarrow> Inl e
         | Inr (tx, n) \<Rightarrow> Inr
             \<lparr>au_contract = c, au_txid = SerializeHash_tx E tx, au_vout = n,
              au_amount = nValue (vout tx ! n),
              au_confirmations = ChainConfirmations E nd (SerializeHash_tx E tx),
              au_unspent = (case ReadTxIndex (nd_txdb nd) (SerializeHash_tx E tx) of
                 None \<Rightarrow> False
               | Some e \<Rightarrow> n < length (vSpent e) \<and> CDiskTxPos_IsNull (vSpent e ! n)),
              au_mine = (mapPubKeys K (uint160_of_bytes (recipientPkh c)) \<noteq> None)\<rparr>))"

section \<open>Funding\<close>

text \<open>The last parameter: absent, not an integer, or an integer.\<close>

definition LockBlocksParam :: "bool \<Rightarrow> int option option \<Rightarrow> int \<Rightarrow> swap_error + int" where
  "LockBlocksParam testnet p nDefault =
    (case p of
       None \<Rightarrow> Inr nDefault
     | Some v \<Rightarrow>
         if \<not> testnet then Inl LockFixed
         else (case v of
           None \<Rightarrow> Inl LockOutOfRange
         | Some n \<Rightarrow> if i32 n < 1 \<or> nDefault < i32 n then Inl LockOutOfRange else Inr (i32 n)))"

definition swap_wtx :: "bytes \<Rightarrow> CWalletTx" where
  "swap_wtx comment = (new_CWalletTx CTransaction_SetNull)\<lparr>mapValue := [(map of_char ''comment'', comment)]\<rparr>"

definition FundContract ::
    "wallet_env \<Rightarrow> Contract \<Rightarrow> int \<Rightarrow> bytes \<Rightarrow> wallet_state \<Rightarrow> (wallet_state \<times> (swap_error + CWalletTx)) option" where
  "FundContract Env c amount comment S =
    (let contract = BuildContract (wE Env) c
     in case SendMoney Env (SetPayToScriptHash (wE Env) contract) amount (swap_wtx comment) S of
          None \<Rightarrow> None
        | Some (S', Inl e) \<Rightarrow> Some (S', Inl (FundingFailed e))
        | Some (S', Inr w) \<Rightarrow> Some (S', Inr w))"

text \<open>What both commands that make a contract share; the initiator hashes a secret of its own.\<close>

definition make_contract ::
    "wallet_env \<Rightarrow> bytes \<Rightarrow> bytes \<Rightarrow> int option option \<Rightarrow> int \<Rightarrow> int \<Rightarrow> bytes \<Rightarrow> wallet_state \<Rightarrow>
      (wallet_state \<times> (swap_error + Contract \<times> CWalletTx)) option" where
  "make_contract Env pkh hash lockParam nDefault amount comment S =
    (if \<not> SwapsOpen (wN Env) (unat (wTime Env)) then Some (S, Inl NotOpen)
     else if IsWalletLocked (ws_keys S) then Some (S, Inl WalletLocked)
     else case GetKeyFromPool (wE Env) (wL Env) (wD Env) (wWritten Env) (ws_hd S) of
       (H, vchRefund) \<Rightarrow>
         let S1 = S\<lparr>ws_hd := H\<rparr>
         in if vchRefund = [] then Some (S1, Inl NoNewKey)
            else case LockBlocksParam (IsTestNet (wN Env)) lockParam nDefault of
              Inl e \<Rightarrow> Some (S1, Inl e)
            | Inr nLock \<Rightarrow>
                let c = \<lparr>recipientPkh = pkh, refundPkh = bytes_of_uint160 (Hash160 (wE Env) vchRefund),
                         secretHash = hash, c_LockTime = i32 (nBestHeight (ws_node S1) + nLock)\<rparr>
                in map_option (\<lambda>(S', r). (S', map_sum id (\<lambda>w. (c, w)) r)) (FundContract Env c amount comment S1))"

definition swapinitiate ::
    "wallet_env \<Rightarrow> bytes \<Rightarrow> bytes \<Rightarrow> int option option \<Rightarrow> int \<Rightarrow> wallet_state \<Rightarrow>
      (wallet_state \<times> (swap_error + Contract \<times> CWalletTx)) option" where
  "swapinitiate Env pkh secret lockParam amount S =
    make_contract Env pkh (SHA256 (wE Env) secret) lockParam INITIATOR_LOCK_BLOCKS amount
      (map of_char ''Atomic swap: initiated'') S"

definition swapparticipate ::
    "wallet_env \<Rightarrow> bytes \<Rightarrow> bytes \<Rightarrow> int option option \<Rightarrow> int \<Rightarrow> wallet_state \<Rightarrow>
      (wallet_state \<times> (swap_error + Contract \<times> CWalletTx)) option" where
  "swapparticipate Env pkh hash lockParam amount S =
    make_contract Env pkh hash lockParam PARTICIPANT_LOCK_BLOCKS amount
      (map of_char ''Atomic swap: participated'') S"

section \<open>Spending\<close>

definition KeyForContract :: "Contract \<Rightarrow> bool \<Rightarrow> key_store \<Rightarrow> (bytes \<times> bytes) option" where
  "KeyForContract c fRedeem K =
    (case mapPubKeys K (uint160_of_bytes (if fRedeem then recipientPkh c else refundPkh c)) of
       None \<Rightarrow> None
     | Some pub \<Rightarrow> map_option (\<lambda>priv. (pub, priv)) (fmlookup (mapKeys K) pub))"

text \<open>The spend with its signature; \<open>None\<close> when signing fails.\<close>

definition swap_scriptSig :: "bytes option \<Rightarrow> bytes \<Rightarrow> bytes \<Rightarrow> bytes \<Rightarrow> bytes" where
  "swap_scriptSig pSecret sig pub contract =
    (case pSecret of Some secret \<Rightarrow> RedeemScriptSig sig pub secret contract
     | None \<Rightarrow> RefundScriptSig sig pub contract)"

definition sign_spend ::
    "ext \<Rightarrow> key_lib \<Rightarrow> bytes \<Rightarrow> bytes \<Rightarrow> bytes \<Rightarrow> bytes option \<Rightarrow> CTransaction \<Rightarrow> CTransaction option" where
  "sign_spend E L priv pub contract pSecret tx =
    map_option (\<lambda>sig. set_scriptSig tx 0 (swap_scriptSig pSecret (sig @ [1]) pub contract))
      (CKey_Sign L priv (SignatureHash E contract tx 0 SIGHASH_ALL))"

text \<open>The transaction at a fee, before it is signed.\<close>

definition spend_tx :: "Contract \<Rightarrow> bool \<Rightarrow> COutPoint \<Rightarrow> u32 \<Rightarrow> bytes \<Rightarrow> int \<Rightarrow> CTransaction" where
  "spend_tx c fRedeem outpoint nSeq scriptTo amount =
    \<lparr>nVersion = 1,
     vin = [\<lparr>prevout = outpoint, scriptSig = [], nSequence = (if fRedeem then nSeq else 0)\<rparr>],
     vout = [\<lparr>nValue = amount, scriptPubKey = scriptTo\<rparr>],
     nLockTime = (if fRedeem then 0 else i32 (c_LockTime c))\<rparr>"

fun spend_passes :: "(int \<Rightarrow> CTransaction option) \<Rightarrow> int \<Rightarrow> nat \<Rightarrow> int \<Rightarrow> CTransaction \<Rightarrow> swap_error + CTransaction \<times> int" where
  "spend_passes at nValIn 0 nFee tx = Inr (tx, nFee)"
| "spend_passes at nValIn (Suc k) nFee tx =
    (if nValIn \<le> nFee then Inl LessThanFee
     else case at nFee of
       None \<Rightarrow> Inl SigningFailed
     | Some tx' \<Rightarrow>
         let nNeed = GetMinFee False tx'
         in if nNeed \<le> nFee then Inr (tx', nFee) else spend_passes at nValIn k nNeed tx')"

definition SpendContract ::
    "wallet_env \<Rightarrow> bytes \<Rightarrow> Contract \<Rightarrow> uint256 \<Rightarrow> bytes option \<Rightarrow> wallet_state \<Rightarrow>
      wallet_state \<times> (swap_error + CTransaction \<times> int)" where
  "SpendContract Env contract c txid pSecret S =
    (let E = wE Env; nd = ws_node S; K = ws_keys S
     in if IsWalletLocked K then (S, Inl WalletLocked)
        else case FindContractOutput E nd contract txid of
          Inl e \<Rightarrow> (S, Inl e)
        | Inr (txFrom, n) \<Rightarrow>
            let outpoint = \<lparr>out_hash = SerializeHash_tx E txFrom, out_n = word_of_nat n\<rparr>
            in if OutputSpent nd outpoint then (S, Inl AlreadySpent)
               else case KeyForContract c (pSecret \<noteq> None) K of
                 None \<Rightarrow> (S, Inl NoContractKey)
               | Some (pub, priv) \<Rightarrow>
                   if pSecret = None \<and> c_LockTime c < int LOCKTIME_THRESHOLD \<and> nBestHeight nd + 1 \<le> c_LockTime c
                   then (S, Inl LockNotPassed)
                   else if pSecret = None \<and> int LOCKTIME_THRESHOLD \<le> c_LockTime c \<and> pindexBest nd \<noteq> [] \<and>
                     GetMedianTimePast (pindexBest nd) \<le> c_LockTime c
                   then (S, Inl LockNotPassed)
                   else case GetKeyFromPool E (wL Env) (wD Env) (wWritten Env) (ws_hd S) of
                     (H, vchTo) \<Rightarrow>
                       let S1 = S\<lparr>ws_hd := H\<rparr>
                       in if vchTo = [] then (S1, Inl NoNewKey)
                          else
                            let scriptTo = push_opcode OP_DUP @ push_opcode OP_HASH160 @
                                  push_uint160 (Hash160 E vchTo) @ push_opcode OP_EQUALVERIFY @
                                  push_opcode OP_CHECKSIG;
                                nValIn = nValue (vout txFrom ! n)
                            in case spend_passes
                                  (\<lambda>nFee. sign_spend E (wL Env) priv pub contract pSecret
                                     (spend_tx c (pSecret \<noteq> None) outpoint SEQUENCE_FINAL scriptTo (i64 (nValIn - nFee))))
                                  nValIn 2 CENT CTransaction_SetNull of
                                 Inl e \<Rightarrow> (S1, Inl e)
                               | Inr (tx, nFee) \<Rightarrow>
                                   if \<not> VerifySignature E txFrom tx 0 0 True True False
                                   then (S1, Inl DoesNotVerify)
                                   else (case accept_payment Env tx S1 of
                                     (S2, False) \<Rightarrow> (S2, Inl PoolRefused)
                                   | (S2, True) \<Rightarrow>
                                       (S2\<lparr>ws_wallet := fst (AddToWalletIfMine E (ws_node S2) (ws_keys S2) (wTime Env)
                                          (wWritten Env) tx None (ws_wallet S2))\<rparr>, Inr (tx, nFee))))"

section \<open>The commands of the two sides\<close>

definition swapredeem ::
    "wallet_env \<Rightarrow> bytes \<Rightarrow> uint256 \<Rightarrow> bytes \<Rightarrow> wallet_state \<Rightarrow> wallet_state \<times> (swap_error + CTransaction \<times> int)" where
  "swapredeem Env contract txid secret S =
    (case ParseContract contract of
       None \<Rightarrow> (S, Inl NotAContract)
     | Some c \<Rightarrow>
         if SHA256 (wE Env) secret \<noteq> secretHash c then (S, Inl WrongSecret)
         else SpendContract Env contract c txid (Some secret) S)"

definition swaprefund ::
    "wallet_env \<Rightarrow> bytes \<Rightarrow> uint256 \<Rightarrow> wallet_state \<Rightarrow> wallet_state \<times> (swap_error + CTransaction \<times> int)" where
  "swaprefund Env contract txid S =
    (case ParseContract contract of
       None \<Rightarrow> (S, Inl NotAContract) | Some c \<Rightarrow> SpendContract Env contract c txid None S)"

text \<open>Who spent the contract, from the pool or from the chain, and what the spend shows.\<close>

definition contract_spender :: "node \<Rightarrow> COutPoint \<Rightarrow> CTransaction option" where
  "contract_spender nd outpoint =
    (case fmlookup (mapNextTx (nd_pool nd)) outpoint of
       Some ip \<Rightarrow> Some (pool_at (nd_pool nd) (ptx ip))
     | None \<Rightarrow>
        (case ReadTxIndex (nd_txdb nd) (out_hash outpoint) of
           None \<Rightarrow> None
         | Some e \<Rightarrow>
             if unat (out_n outpoint) < length (vSpent e) \<and> \<not> CDiskTxPos_IsNull (vSpent e ! unat (out_n outpoint))
             then tx_ReadFromDisk (nd_files nd) (vSpent e ! unat (out_n outpoint)) else None))"

fun secret_of_inputs :: "ext \<Rightarrow> (CTxIn \<Rightarrow> bool) \<Rightarrow> bytes \<Rightarrow> CTxIn list \<Rightarrow> bytes option" where
  "secret_of_inputs E ours hash [] = None"
| "secret_of_inputs E ours hash (i # is) =
    (case (if ours i then ExtractSecret E (scriptSig i) hash else None) of
       Some secret \<Rightarrow> Some secret | None \<Rightarrow> secret_of_inputs E ours hash is)"

datatype spend_report = Unspent | Redeemed uint256 bytes | Refunded uint256

definition swapfindsecret :: "ext \<Rightarrow> node \<Rightarrow> bytes \<Rightarrow> uint256 \<Rightarrow> swap_error + spend_report" where
  "swapfindsecret E nd contract txid =
    (case ParseContract contract of
       None \<Rightarrow> Inl NotAContract
     | Some c \<Rightarrow>
        (case FindContractOutput E nd contract txid of
           Inl e \<Rightarrow> Inl e
         | Inr (txFrom, n) \<Rightarrow>
             let outpoint = \<lparr>out_hash = SerializeHash_tx E txFrom, out_n = word_of_nat n\<rparr>
             in case contract_spender nd outpoint of
                  None \<Rightarrow> Inr Unspent
                | Some tx \<Rightarrow>
                   (case secret_of_inputs E (\<lambda>i. prevout i = outpoint) (secretHash c) (vin tx) of
                      Some secret \<Rightarrow> Inr (Redeemed (SerializeHash_tx E tx) secret)
                    | None \<Rightarrow> Inr (Refunded (SerializeHash_tx E tx)))))"

text \<open>The transaction comes looked up or decoded.\<close>

definition swapextractsecret :: "ext \<Rightarrow> CTransaction option \<Rightarrow> bytes \<Rightarrow> swap_error + bytes" where
  "swapextractsecret E found hash =
    (case found of
       None \<Rightarrow> Inl NoContractTx
     | Some tx \<Rightarrow>
        (case secret_of_inputs E (\<lambda>i. True) hash (vin tx) of
           None \<Rightarrow> Inl NoSecretShown | Some secret \<Rightarrow> Inr secret))"

section \<open>Spending on the other chain\<close>

definition FORKID_SIGHASH_ALL :: nat where "FORKID_SIGHASH_ALL = 0x41"

text \<open>
  The signature hash of Bitcoin Cash and eCash, with the amount in it; the index is in range, the
  code asserts nothing of it.
\<close>

definition ForkIdSignatureHash :: "ext \<Rightarrow> bytes \<Rightarrow> CTransaction \<Rightarrow> nat \<Rightarrow> int \<Rightarrow> nat \<Rightarrow> uint256" where
  "ForkIdSignatureHash E scriptCode tx n nAmount nType =
    (let txin = vin tx ! n
     in Hash E (ser_int32 (nVersion tx) @
          bytes_of_uint256 (Hash E (concat (map (ser_COutPoint \<circ> prevout) (vin tx)))) @
          bytes_of_uint256 (Hash E (concat (map (ser_u32 \<circ> nSequence) (vin tx)))) @
          ser_COutPoint (prevout txin) @ Serialize_vch scriptCode @ ser_int64 nAmount @
          ser_u32 (nSequence txin) @
          bytes_of_uint256 (Hash E (concat (map ser_CTxOut (vout tx)))) @
          ser_int32 (nLockTime tx) @ ser_uint 4 nType))"

definition sign_other ::
    "ext \<Rightarrow> key_lib \<Rightarrow> bool \<Rightarrow> bytes \<Rightarrow> bytes \<Rightarrow> bytes \<Rightarrow> bytes option \<Rightarrow> int \<Rightarrow> CTransaction \<Rightarrow> CTransaction option" where
  "sign_other E L fForkId priv pub contract pSecret nAmount tx =
    (if fForkId then
       map_option (\<lambda>sig. set_scriptSig tx 0
           (swap_scriptSig pSecret (sig @ [word_of_nat FORKID_SIGHASH_ALL]) pub contract))
         (CKey_Sign L priv (ForkIdSignatureHash E contract tx 0 nAmount FORKID_SIGHASH_ALL))
     else sign_spend E L priv pub contract pSecret tx)"

definition fee_at_rate :: "int \<Rightarrow> CTransaction \<Rightarrow> int" where
  "fee_at_rate nRate tx =
    (let x = i64 (i64 (int (GetSerializeSize_CTransaction tx) * nRate) + 999) in sgn x * (\<bar>x\<bar> div 1000))"

text \<open>At most sixteen passes; the fee covers the size of the transaction that is returned.\<close>

fun settle_fee :: "(int \<Rightarrow> CTransaction option) \<Rightarrow> int \<Rightarrow> int \<Rightarrow> nat \<Rightarrow> int \<Rightarrow> swap_error + CTransaction \<times> int" where
  "settle_fee at nRate nAmount 0 nFee = Inl FeeNotSettled"
| "settle_fee at nRate nAmount (Suc k) nFee =
    (if i64 (nAmount - nFee) < 1000 then Inl LessThanFee
     else case at nFee of
       None \<Rightarrow> Inl SigningFailed
     | Some tx \<Rightarrow>
         let nNeed = fee_at_rate nRate tx
         in if nNeed \<le> nFee then Inr (tx, nFee) else settle_fee at nRate nAmount k nNeed)"

definition BuildSpend ::
    "ext \<Rightarrow> key_lib \<Rightarrow> bytes \<Rightarrow> COutPoint \<Rightarrow> int \<Rightarrow> bytes \<Rightarrow> bytes \<Rightarrow> bytes \<Rightarrow> bytes option \<Rightarrow> int \<Rightarrow> bool \<Rightarrow>
      swap_error + CTransaction \<times> int" where
  "BuildSpend E L contract outpoint nAmount scriptTo priv pub pSecret nRate fForkId =
    (case ParseContract contract of
       None \<Rightarrow> Inl NotAContract
     | Some c \<Rightarrow>
        (case settle_fee
            (\<lambda>nFee. sign_other E L fForkId priv pub contract pSecret nAmount
               (spend_tx c (pSecret \<noteq> None) outpoint SEQUENCE_REPLACEABLE scriptTo (i64 (nAmount - nFee))))
            nRate nAmount 16 0 of
           Inl e \<Rightarrow> Inl e
         | Inr (tx, nFee) \<Rightarrow>
             if fForkId then
               (let fOk = (bytes_of_uint160 (Hash160 E pub) = (if pSecret \<noteq> None then recipientPkh c else refundPkh c)) \<and>
                      (case pSecret of None \<Rightarrow> True
                       | Some secret \<Rightarrow> length secret = SECRET_BYTES \<and> SHA256 E secret = secretHash c)
                in if fOk then Inr (tx, nFee) else Inl DoesNotVerify)
             else if \<not> VerifyScriptP2SH E (scriptSig (vin tx ! 0)) (SetPayToScriptHash E contract) tx 0 True True False
             then Inl DoesNotVerify
             else Inr (tx, nFee)))"

end
