(* ===== verification/SwapTrade.thy ===== *)
theory SwapTrade
  imports SwapSpend
begin

text \<open>
  What the commands of \<open>SwapSpend\<close> promise: a contract they fund is one that both sides can read,
  the spends they sign verify, a spend that is made is in the pool, and the fee paid on the other
  chain covers the transaction.  A wallet that is encrypted can neither redeem nor refund.
\<close>

section \<open>Signatures leave a contract as it is\<close>

lemma FindAndDelete_contract:
  assumes parts: "swap_parts p lock c script"
    and v: "9 \<le> length v" "length v < 76" "length v \<noteq> 20" "length v \<noteq> 32"
  shows "FindAndDelete (push_vch v) script = script"
proof -
  have one: "one_op (push_vch v)" using v(2) by (intro one_op_push_vch) simp
  have data: "GetOp (push_vch v @ r) = Some (length v, v, r)" for r
    using GetOp_push_vch [of v r] v(2) by (simp add: opcodes)
  have diff: "\<exists>opcode d. is_op (p k) opcode d \<and> d \<noteq> v" if "k < 20" for k
  proof -
    have ne: "[32] \<noteq> v" "lock \<noteq> v" "secretHash c \<noteq> v" "recipientPkh c \<noteq> v" "refundPkh c \<noteq> v" "[] \<noteq> v"
      using v parts by (auto simp: swap_parts_def)
    have "k = 0 \<or> k = 1 \<or> k = 2 \<or> k = 3 \<or> k = 4 \<or> k = 5 \<or> k = 6 \<or> k = 7 \<or> k = 8 \<or> k = 9 \<or>
        k = 10 \<or> k = 11 \<or> k = 12 \<or> k = 13 \<or> k = 14 \<or> k = 15 \<or> k = 16 \<or> k = 17 \<or> k = 18 \<or> k = 19"
      using that by (auto simp: numeral_eq_Suc less_Suc_eq)
    then show ?thesis using parts ne unfolding swap_parts_def is_push_def by (elim disjE) blast+
  qed
  have "FindAndDelete (push_vch v) (swap_rest p (20 - m)) = swap_rest p (20 - m)" if "m \<le> 20" for m
    using that
  proof (induction m)
    case 0
    have "skip_copies (push_vch v) [] = []" by (rule skip_copies_stop) simp
    then show ?case by (subst FindAndDelete.simps) (simp add: swap_rest_end)
  next
    case (Suc m)
    have k: "20 - Suc m < 20" "Suc (20 - Suc m) = 20 - m" using Suc.prems by simp_all
    obtain opcode d where op: "is_op (p (20 - Suc m)) opcode d" "d \<noteq> v" using diff [OF k(1)] by blast
    have no: "\<not> (\<exists>r'. p (20 - Suc m) @ r = push_vch v @ r')" for r
    proof
      assume "\<exists>r'. p (20 - Suc m) @ r = push_vch v @ r'"
      then obtain r' where "p (20 - Suc m) @ r = push_vch v @ r'" by blast
      then have "GetOp (p (20 - Suc m) @ r) = GetOp (push_vch v @ r')" by (rule arg_cong)
      with op(2) show False unfolding is_op_GetOp [OF op(1)] data by simp
    qed
    have ih: "FindAndDelete (push_vch v) (swap_rest p (20 - m)) = swap_rest p (20 - m)"
      using Suc by simp
    show ?case
      by (simp only: swap_rest_step [OF k(1)] k(2) FindAndDelete_keep [OF is_op_GetOp [OF op(1)] no] ih)
  qed
  from this [of 20] show ?thesis using parts by (simp add: swap_parts_def)
qed

context key_library
begin

text \<open>The signature of a spend, checked against the contract.\<close>

lemma spend_CheckSig:
  assumes c: "ParseContract contract = Some c" and pub: "priv_to_pub L priv = Some pub"
    and sig: "CKey_Sign L priv (SignatureHash E contract tx 0 SIGHASH_ALL) = Some sig"
      "length sig \<noteq> 19" "length sig \<noteq> 31"
    and same: "same_but_sigs tx' tx"
  shows "CheckSig E (sig @ [1]) pub (FindAndDelete (push_vch (sig @ [1])) contract) tx' 0 0 strict \<and>
    length (sig @ [1]) \<le> MAX_SCRIPT_ELEMENT_SIZE"
proof -
  obtain p lock where parts: "swap_parts p lock c contract" using c by (rule ParseContract_parts)
  have t: "(1 :: byte) \<noteq> 0" "uint (1 :: byte) = SIGHASH_ALL" by (simp_all add: SIGHASH_ALL_def)
  have "IsStrictDERSignature (sig @ [1])" using CKey_Sign_good [OF sig(1), of 1] by simp
  then have len: "9 \<le> length (sig @ [1])" "length (sig @ [1]) \<le> 73"
    by (auto simp: IsStrictDERSignature_def split: if_split_asm)
  have "FindAndDelete (push_vch (sig @ [1])) contract = contract"
    using len sig(2,3) by (intro FindAndDelete_contract [OF parts]) auto
  moreover have "CheckSig E (sig @ [1]) pub contract tx' 0 0 strict"
    by (rule CheckSig_of_sign [OF _ pub t(1)]) (simp only: t(2) sig(1) SignatureHash_sigs [OF same])
  ultimately show ?thesis using len by (simp add: MAX_SCRIPT_ELEMENT_SIZE_def)
qed

text \<open>Both spends verify when the key is the right one, with the secret or behind the lock.\<close>

lemma sign_spend_verifies:
  assumes E: "openssl_bn E" and c: "ParseContract contract = Some c" "length contract \<le> MAX_SCRIPT_ELEMENT_SIZE"
    and pub: "priv_to_pub L priv = Some pub" "length pub \<le> MAX_SCRIPT_ELEMENT_SIZE"
      "bytes_of_uint160 (Hash160 E pub) = (if pSecret \<noteq> None then recipientPkh c else refundPkh c)"
    and secret: "\<forall>s. pSecret = Some s \<longrightarrow> length s = SECRET_BYTES \<and> SHA256 E s = secretHash c"
    and lock: "pSecret = None \<longrightarrow> c_LockTime c < 2 ^ 31"
    and tx: "tx = spend_tx c (pSecret \<noteq> None) outpoint nSeq scriptTo amount"
      "sign_spend E L priv pub contract pSecret tx = Some tx'"
    and sig: "\<forall>s. CKey_Sign L priv (SignatureHash E contract tx 0 SIGHASH_ALL) = Some s \<longrightarrow>
      length s \<noteq> 19 \<and> length s \<noteq> 31"
  shows "VerifyScriptP2SH E (scriptSig (vin tx' ! 0)) (p2sh (Hash160 E contract)) tx' 0 strict True v4"
proof -
  obtain s where s: "CKey_Sign L priv (SignatureHash E contract tx 0 SIGHASH_ALL) = Some s"
    "tx' = set_scriptSig tx 0 (swap_scriptSig pSecret (s @ [1]) pub contract)"
    using tx(2) by (auto simp: sign_spend_def)
  have same: "same_but_sigs tx' tx" unfolding s(2) by (rule same_but_sigs_set)
  have check: "CheckSig E (s @ [1]) pub (FindAndDelete (push_vch (s @ [1])) contract) tx' 0 0 strict"
    "length (s @ [1]) \<le> MAX_SCRIPT_ELEMENT_SIZE"
    using spend_CheckSig [OF c(1) pub(1) s(1) _ _ same] sig s(1) by blast+
  have sc: "scriptSig (vin tx' ! 0) = swap_scriptSig pSecret (s @ [1]) pub contract"
    by (simp add: s(2) tx(1) spend_tx_def)
  show ?thesis
  proof (cases pSecret)
    case (Some secret)
    then show ?thesis
      using redeem_accepted [OF E c check(2) pub(2) _ _ _ check(1)] assms(6,7)
      by (simp add: sc swap_scriptSig_def SECRET_BYTES_def)
  next
    case None
    obtain p lk where "swap_parts p lk c contract" using c(1) by (rule ParseContract_parts)
    then have "0 < c_LockTime c" by (simp add: swap_parts_def)
    then have "i32 (c_LockTime c) = c_LockTime c" using lock None by (intro i32_id) (simp add: in_i32_def)
    then have "nLockTime tx' = c_LockTime c" "nSequence (vin tx' ! 0) \<noteq> SEQUENCE_FINAL"
      using None by (simp_all add: s(2) tx(1) spend_tx_def SEQUENCE_FINAL_def)
    then show ?thesis
      using refund_accepted [OF E c check(2) pub(2) _ _ _ _ check(1)] assms(6) lock None
      by (simp add: sc swap_scriptSig_def)
  qed
qed

end

section \<open>What a spend that is made has done\<close>

lemma find_output_Some:
  "find_output spk os = Some n \<Longrightarrow> n < length os \<and> scriptPubKey (os ! n) = spk"
  by (induction os arbitrary: n) (auto split: if_split_asm option.split_asm)

lemma spend_passes_Inr:
  "spend_passes at nValIn (Suc k) nFee tx = Inr (tx', nFee') \<Longrightarrow>
     \<exists>f. at f = Some tx' \<and> nFee \<le> f \<and> f \<le> nFee' \<and> f < nValIn"
proof (induction k arbitrary: nFee tx)
  case 0
  then show ?case by (auto simp: Let_def split: if_split_asm option.split_asm)
next
  case (Suc k)
  show ?case
  proof (cases "at nFee")
    case None
    with Suc.prems show ?thesis by (simp split: if_split_asm)
  next
    case (Some t)
    show ?thesis
    proof (cases "GetMinFee False t \<le> nFee")
      case True
      with Suc.prems Some show ?thesis by (auto simp: Let_def split: if_split_asm)
    next
      case False
      then have "spend_passes at nValIn (Suc k) (GetMinFee False t) t = Inr (tx', nFee')" and "\<not> nValIn \<le> nFee"
        using Suc.prems Some by (auto simp: Let_def simp del: spend_passes.simps(2) split: if_split_asm)
          (simp_all add: Let_def split: if_split_asm)
      from Suc.IH [OF this(1)] False show ?thesis by force
    qed
  qed
qed

lemma SpendContract_Inr:
  assumes "SpendContract Env contract c txid pSecret S = (S', Inr (tx, nFee))"
  obtains txFrom n pub priv f spk where
    "\<not> IsWalletLocked (ws_keys S)"
    "FindContractOutput (wE Env) (ws_node S) contract txid = Inr (txFrom, n)"
    "\<not> OutputSpent (ws_node S) \<lparr>out_hash = SerializeHash_tx (wE Env) txFrom, out_n = word_of_nat n\<rparr>"
    "KeyForContract c (pSecret \<noteq> None) (ws_keys S) = Some (pub, priv)"
    "pSecret = None \<longrightarrow> (if c_LockTime c < 500000000 then c_LockTime c \<le> nBestHeight (ws_node S)
       else pindexBest (ws_node S) \<noteq> [] \<longrightarrow> c_LockTime c < GetMedianTimePast (pindexBest (ws_node S)))"
    "sign_spend (wE Env) (wL Env) priv pub contract pSecret
       (spend_tx c (pSecret \<noteq> None) \<lparr>out_hash = SerializeHash_tx (wE Env) txFrom, out_n = word_of_nat n\<rparr>
          SEQUENCE_FINAL spk (i64 (nValue (vout txFrom ! n) - f))) = Some tx"
    "CENT \<le> f" "f < nValue (vout txFrom ! n)"
    "VerifySignature (wE Env) txFrom tx 0 0 True True False"
    "\<exists>S1. snd (accept_payment Env tx S1) \<and> ws_node S1 = ws_node S \<and> ws_node S' = ws_node (fst (accept_payment Env tx S1))"
proof -
  let ?E = "wE Env" and ?K = "ws_keys S" and ?nd = "ws_node S"
  note P = assms [unfolded SpendContract_def Let_def]
  have lk: "\<not> IsWalletLocked ?K" using P by (auto split: if_split_asm)
  then obtain txFrom n where fc: "FindContractOutput ?E ?nd contract txid = Inr (txFrom, n)"
    using P by (auto split: sum.split_asm)
  let ?op = "\<lparr>out_hash = SerializeHash_tx ?E txFrom, out_n = word_of_nat n\<rparr>"
  have os: "\<not> OutputSpent ?nd ?op" using P lk fc by (auto split: if_split_asm)
  obtain pub priv where key: "KeyForContract c (pSecret \<noteq> None) ?K = Some (pub, priv)"
    using P lk fc os by (cases "KeyForContract c (pSecret \<noteq> None) ?K") auto
  note P1 = P [unfolded if_not_P [OF lk] fc sum.case prod.case if_not_P [OF os] key option.case]
  have l1: "\<not> (pSecret = None \<and> c_LockTime c < int LOCKTIME_THRESHOLD \<and> nBestHeight ?nd + 1 \<le> c_LockTime c)"
    (is "\<not> ?early")
  proof
    assume a: ?early
    from P1 [unfolded if_P [OF a]] show False by simp
  qed
  have l2: "\<not> (pSecret = None \<and> int LOCKTIME_THRESHOLD \<le> c_LockTime c \<and> pindexBest ?nd \<noteq> [] \<and>
      GetMedianTimePast (pindexBest ?nd) \<le> c_LockTime c)" (is "\<not> ?early")
  proof
    assume a: ?early
    from P1 [unfolded if_not_P [OF l1] if_P [OF a]] show False by simp
  qed
  obtain H vchTo where pk: "GetKeyFromPool ?E (wL Env) (wD Env) (wWritten Env) (ws_hd S) = (H, vchTo)"
    by (cases "GetKeyFromPool ?E (wL Env) (wD Env) (wWritten Env) (ws_hd S)")
  note P2 = P1 [unfolded if_not_P [OF l1] if_not_P [OF l2] pk prod.case]
  have vt: "vchTo \<noteq> []" using P2 by (auto split: if_split_asm)
  note P3 = P2 [unfolded if_not_P [OF vt]]
  define spk where "spk = push_opcode OP_DUP @ push_opcode OP_HASH160 @ push_uint160 (Hash160 ?E vchTo) @
      push_opcode OP_EQUALVERIFY @ push_opcode OP_CHECKSIG"
  let ?at = "\<lambda>nFee. sign_spend ?E (wL Env) priv pub contract pSecret
      (spend_tx c (pSecret \<noteq> None) ?op SEQUENCE_FINAL spk (i64 (nValue (vout txFrom ! n) - nFee)))"
  obtain tx' fee' where sp: "spend_passes ?at (nValue (vout txFrom ! n)) 2 CENT CTransaction_SetNull = Inr (tx', fee')"
    using P3 unfolding spk_def [symmetric] by (auto split: sum.split_asm)
  note P4 = P3 [folded spk_def, unfolded sp sum.case prod.case]
  have v: "VerifySignature ?E txFrom tx' 0 0 True True False" using P4 by (auto split: if_split_asm)
  obtain S2 b where acc: "accept_payment Env tx' (S\<lparr>ws_hd := H\<rparr>) = (S2, b)"
    by (cases "accept_payment Env tx' (S\<lparr>ws_hd := H\<rparr>)")
  have b: "b" using P4 v acc by (cases b) auto
  then have out: "tx' = tx" "ws_node S' = ws_node S2" using P4 v acc by auto
  have two: "spend_passes ?at (nValue (vout txFrom ! n)) (Suc 1) CENT CTransaction_SetNull = Inr (tx, fee')"
    using sp out(1) by (simp only: one_add_one [symmetric] Suc_eq_plus1)
  from spend_passes_Inr [OF two] obtain f where f: "?at f = Some tx" "CENT \<le> f" "f < nValue (vout txFrom ! n)"
    by blast
  show thesis
  proof (rule that [OF lk fc os key _ f v [unfolded out(1)]])
    show "pSecret = None \<longrightarrow> (if c_LockTime c < 500000000 then c_LockTime c \<le> nBestHeight ?nd
       else pindexBest ?nd \<noteq> [] \<longrightarrow> c_LockTime c < GetMedianTimePast (pindexBest ?nd))"
      using l1 l2 by (auto simp: LOCKTIME_THRESHOLD_def)
    show "\<exists>S1. snd (accept_payment Env tx S1) \<and> ws_node S1 = ?nd \<and> ws_node S' = ws_node (fst (accept_payment Env tx S1))"
      using acc b out by (intro exI [of _ "S\<lparr>ws_hd := H\<rparr>"]) simp
  qed
qed

lemma accepted_in_pool:
  assumes "snd (accept_payment Env tx S)"
  shows "fmlookup (pool (nd_pool (ws_node (fst (accept_payment Env tx S))))) (SerializeHash_tx (wE Env) tx) = Some tx"
proof -
  let ?nd = "ws_node S"
  let ?A = "node_accept_view (int (unat (wTime Env))) ?nd"
  obtain M replaced where acc: "AcceptTransaction (wE Env) (wN Env) ?A (nd_txdb ?nd) True tx (nd_pool ?nd) = Inr (M, replaced)"
    and S': "ws_node (fst (accept_payment Env tx S)) = ?nd\<lparr>nd_pool := M\<rparr>"
    using assms unfolding accept_payment_def Let_def
    by (cases "AcceptTransaction (wE Env) (wN Env) ?A (nd_txdb ?nd) True tx (nd_pool ?nd)") auto
  obtain cs nFee where "store_tx (wE Env) ?A (nd_txdb ?nd) tx True cs nFee (nd_pool ?nd) = Inr M"
    using acc unfolding AcceptTransaction_def Let_def
    by (auto split: if_split_asm option.split_asm sum.split_asm prod.split_asm)
  then obtain M0 where "M = AddToMemoryPool (wE Env) tx M0" using store_tx_drop by metis
  then show ?thesis unfolding S' by (simp add: AddToMemoryPool_lookup)
qed

section \<open>An encrypted wallet\<close>

text \<open>\<open>KeyForContract\<close> looks among the plain keys only; once the wallet is encrypted there are none.\<close>

lemma encrypted_no_spend:
  assumes "mapKeys (ws_keys S) = fmempty"
  shows "\<exists>e. SpendContract Env contract c txid pSecret S = (S, Inl e)"
proof -
  have "KeyForContract c b (ws_keys S) = None" for b
    using assms by (simp add: KeyForContract_def split: option.split)
  then show ?thesis by (simp add: SpendContract_def Let_def split: sum.split prod.split)
qed

section \<open>The contracts that are funded\<close>

lemma LockBlocksParam_range:
  "LockBlocksParam t p d = Inr n \<Longrightarrow> 1 \<le> d \<Longrightarrow> 1 \<le> n \<and> n \<le> d"
  by (auto simp: LockBlocksParam_def split: option.split_asm if_split_asm)

lemma make_contract_Inr:
  assumes "make_contract Env pkh hash lp d amount cm S = Some (S', Inr (c, w))"
  obtains nLock pub S1 S2 where "SwapsOpen (wN Env) (unat (wTime Env))" "LockBlocksParam (IsTestNet (wN Env)) lp d = Inr nLock"
    "c = \<lparr>recipientPkh = pkh, refundPkh = bytes_of_uint160 (Hash160 (wE Env) pub), secretHash = hash,
       c_LockTime = i32 (nBestHeight (ws_node S) + nLock)\<rparr>"
    "SendMoney Env (SetPayToScriptHash (wE Env) (BuildContract (wE Env) c)) amount (swap_wtx cm) S1 =
       Some (S', Inr w)" "ws_node S1 = ws_node S"
proof -
  note P = assms [unfolded make_contract_def Let_def]
  have op: "SwapsOpen (wN Env) (unat (wTime Env))" and lk: "\<not> IsWalletLocked (ws_keys S)"
    using P by (auto split: if_split_asm)
  obtain H pub where pk: "GetKeyFromPool (wE Env) (wL Env) (wD Env) (wWritten Env) (ws_hd S) = (H, pub)"
    by (cases "GetKeyFromPool (wE Env) (wL Env) (wD Env) (wWritten Env) (ws_hd S)")
  have pub: "pub \<noteq> []" using P op lk pk by (auto split: if_split_asm)
  obtain nLock where lock: "LockBlocksParam (IsTestNet (wN Env)) lp d = Inr nLock"
    using P op lk pk pub by (auto split: sum.split_asm)
  define c0 where "c0 = \<lparr>recipientPkh = pkh, refundPkh = bytes_of_uint160 (Hash160 (wE Env) pub), secretHash = hash,
       c_LockTime = i32 (nBestHeight (ws_node S) + nLock)\<rparr>"
  have r: "map_option (\<lambda>(S', r). (S', map_sum id (\<lambda>w. (c0, w)) r)) (FundContract Env c0 amount cm (S\<lparr>ws_hd := H\<rparr>)) =
      Some (S', Inr (c, w))"
    using P op lk pk pub lock by (simp add: c0_def)
  then obtain x where x: "FundContract Env c0 amount cm (S\<lparr>ws_hd := H\<rparr>) = Some (S', x)" "map_sum id (\<lambda>w. (c0, w)) x = Inr (c, w)"
    by auto
  have c: "c = c0" "x = Inr w" using x(2) by (cases x; simp)+
  have "SendMoney Env (SetPayToScriptHash (wE Env) (BuildContract (wE Env) c)) amount (swap_wtx cm)
      (S\<lparr>ws_hd := H\<rparr>) = Some (S', Inr w)"
    using x(1) unfolding c FundContract_def Let_def
    by (cases "SendMoney Env (SetPayToScriptHash (wE Env) (BuildContract (wE Env) c0)) amount
      (swap_wtx cm) (S\<lparr>ws_hd := H\<rparr>)") (auto split: sum.split_asm)
  then show thesis using that [OF op lock _ _ , of pub "S\<lparr>ws_hd := H\<rparr>"] c(1) c0_def by simp
qed

lemma funded_contract:
  assumes E: "openssl_bn (wE Env)"
    and made: "make_contract Env pkh hash lp d amount cm S = Some (S', Inr (c, w))"
    and len: "length pkh = 20" "length hash = 32" and d: "1 \<le> d" "d \<le> 2000"
    and h: "16 \<le> nBestHeight (ws_node S)" "nBestHeight (ws_node S) < 2 ^ 30"
  shows "ParseContract (BuildContract (wE Env) c) = Some c \<and>
    nBestHeight (ws_node S) < c_LockTime c \<and> c_LockTime c \<le> nBestHeight (ws_node S) + d"
proof -
  obtain nLock pub S1 S2 where m: "LockBlocksParam (IsTestNet (wN Env)) lp d = Inr nLock"
    "c = \<lparr>recipientPkh = pkh, refundPkh = bytes_of_uint160 (Hash160 (wE Env) pub), secretHash = hash,
       c_LockTime = i32 (nBestHeight (ws_node S) + nLock)\<rparr>"
    using made by (rule make_contract_Inr)
  have l: "1 \<le> nLock" "nLock \<le> d" using LockBlocksParam_range [OF m(1) d(1)] by auto
  then have lock: "c_LockTime c = nBestHeight (ws_node S) + nLock"
    using h d(2) by (simp add: m(2)) (rule i32_id, simp add: in_i32_def)
  have "contract_wf c" using lock l h d(2) len by (simp add: contract_wf_def m(2))
  moreover have "16 < c_LockTime c" using lock l h by simp
  ultimately show ?thesis using build_parses [OF E] lock l by simp
qed

section \<open>The fee on the other chain\<close>

lemma settle_fee_Inr:
  "settle_fee at nRate nAmount k nFee = Inr (tx, nFee') \<Longrightarrow>
     at nFee' = Some tx \<and> fee_at_rate nRate tx \<le> nFee' \<and> nFee \<le> nFee' \<and> 1000 \<le> i64 (nAmount - nFee')"
  by (induction at nRate nAmount k nFee rule: settle_fee.induct)
    (simp, force simp: Let_def split: if_split_asm option.split_asm)

lemma fee_at_rate_covers:
  assumes "0 \<le> nRate" "int (GetSerializeSize_CTransaction tx) * nRate < 2 ^ 62"
  shows "int (GetSerializeSize_CTransaction tx) * nRate \<le> 1000 * fee_at_rate nRate tx"
    "1000 * fee_at_rate nRate tx < int (GetSerializeSize_CTransaction tx) * nRate + 1000"
proof -
  let ?x = "int (GetSerializeSize_CTransaction tx) * nRate"
  have nn: "0 \<le> ?x" using assms(1) by simp
  then have "in_i64 ?x" "in_i64 (?x + 999)" using assms(2) by (auto simp: in_i64_def)
  then have "i64 (i64 ?x + 999) = ?x + 999" by (simp add: i64_id)
  moreover have "sgn (?x + 999) = 1" "\<bar>?x + 999\<bar> = ?x + 999" using nn by (simp_all add: sgn_if)
  ultimately have f: "fee_at_rate nRate tx = (?x + 999) div 1000" by (simp add: fee_at_rate_def Let_def)
  show "?x \<le> 1000 * fee_at_rate nRate tx" "1000 * fee_at_rate nRate tx < ?x + 1000"
    unfolding f by linarith+
qed

lemma BuildSpend_Inr:
  assumes "BuildSpend E L contract outpoint nAmount scriptTo priv pub pSecret nRate fk = Inr (tx, nFee)"
  obtains c where "ParseContract contract = Some c"
    "sign_other E L fk priv pub contract pSecret nAmount
       (spend_tx c (pSecret \<noteq> None) outpoint SEQUENCE_REPLACEABLE scriptTo (i64 (nAmount - nFee))) = Some tx"
    "fee_at_rate nRate tx \<le> nFee" "0 \<le> nFee" "1000 \<le> i64 (nAmount - nFee)"
    "\<not> fk \<Longrightarrow> VerifyScriptP2SH E (scriptSig (vin tx ! 0)) (SetPayToScriptHash E contract) tx 0 True True False"
    "fk \<Longrightarrow> bytes_of_uint160 (Hash160 E pub) = (if pSecret \<noteq> None then recipientPkh c else refundPkh c)"
proof -
  obtain c where c: "ParseContract contract = Some c"
    using assms by (auto simp: BuildSpend_def split: option.split_asm)
  let ?at = "\<lambda>nFee. sign_other E L fk priv pub contract pSecret nAmount
       (spend_tx c (pSecret \<noteq> None) outpoint SEQUENCE_REPLACEABLE scriptTo (i64 (nAmount - nFee)))"
  have s: "settle_fee ?at nRate nAmount 16 0 = Inr (tx, nFee)"
    using assms unfolding BuildSpend_def c option.case Let_def
    by (auto simp del: settle_fee.simps split: sum.split_asm if_split_asm)
  note f = settle_fee_Inr [OF s]
  show thesis
    by (rule that [OF c]) (use f assms s in \<open>auto simp: BuildSpend_def c Let_def simp del: settle_fee.simps split: if_split_asm\<close>)
qed

section \<open>The secret reaches the one who waits for it\<close>

lemma secret_of_inputs_Some:
  "secret_of_inputs E ours hash is = Some s \<Longrightarrow> length s = SECRET_BYTES \<and> SHA256 E s = hash"
proof (induction "is")
  case (Cons i "is")
  then show ?case
    by (cases "if ours i then ExtractSecret E (scriptSig i) hash else None")
      (auto split: if_split_asm dest: ExtractSecret_Some)
qed simp

lemma secret_of_inputs_None:
  "secret_of_inputs E ours hash is = None \<Longrightarrow> i \<in> set is \<Longrightarrow> ours i \<Longrightarrow> ExtractSecret E (scriptSig i) hash = None"
  by (induction "is") (auto split: option.split_asm if_split_asm)

lemma report_right:
  assumes E: "openssl_bn E" and c: "ParseContract contract = Some c"
    and f: "FindContractOutput E nd contract txid = Inr (txFrom, n)"
    and sp: "contract_spender nd \<lparr>out_hash = SerializeHash_tx E txFrom, out_n = word_of_nat n\<rparr> = Some tx"
    and k: "k < length (vin tx)" "prevout (vin tx ! k) = \<lparr>out_hash = SerializeHash_tx E txFrom, out_n = word_of_nat n\<rparr>"
    and ok: "VerifyScriptP2SH E (scriptSig (vin tx ! k)) (p2sh (Hash160 E contract)) tx k strict True v4"
      "in_i32 (nLockTime tx)"
  shows "(\<exists>secret. swapfindsecret E nd contract txid = Inr (Redeemed (SerializeHash_tx E tx) secret) \<and>
      length secret = SECRET_BYTES \<and> SHA256 E secret = secretHash c) \<or>
    (swapfindsecret E nd contract txid = Inr (Refunded (SerializeHash_tx E tx)) \<and>
      ((\<exists>other. other \<noteq> contract \<and> Hash160 E other = Hash160 E contract) \<or>
       (c_LockTime c \<le> nLockTime tx \<and> signed_for E tx k strict contract (refundPkh c))))"
proof -
  let ?op = "\<lparr>out_hash = SerializeHash_tx E txFrom, out_n = word_of_nat n\<rparr>"
  have r: "swapfindsecret E nd contract txid =
      (case secret_of_inputs E (\<lambda>i. prevout i = ?op) (secretHash c) (vin tx) of
         Some secret \<Rightarrow> Inr (Redeemed (SerializeHash_tx E tx) secret)
       | None \<Rightarrow> Inr (Refunded (SerializeHash_tx E tx)))"
    using c f sp by (simp add: swapfindsecret_def)
  show ?thesis
  proof (cases "secret_of_inputs E (\<lambda>i. prevout i = ?op) (secretHash c) (vin tx)")
    case (Some secret)
    then show ?thesis using r secret_of_inputs_Some by fastforce
  next
    case None
    have "ExtractSecret E (scriptSig (vin tx ! k)) (secretHash c) = None"
      by (rule secret_of_inputs_None [OF None]) (use k in simp_all)
    then have "(\<exists>other. other \<noteq> contract \<and> Hash160 E other = Hash160 E contract) \<or>
       (c_LockTime c \<le> nLockTime tx \<and> signed_for E tx k strict contract (refundPkh c))"
      by (cases rule: contract_spend [OF E c ok(1,2) k(1), case_names collision redeemed refunded]) auto
    then show ?thesis using r None by simp
  qed
qed

end
