(* ===== verification/Swap_Examples.thy ===== *)
theory Swap_Examples
  imports SwapTrade Encrypt Node_Examples Examples
begin

text \<open>
  A concrete swap for the witnesses: a contract between two keys of the placeholder libraries,
  its redeem and the fee of its redeem.  And the lemma that an encrypted wallet, unlocked or not,
  has no plain keys.
\<close>

section \<open>A contract\<close>

definition sw_key :: bytes where "sw_key = replicate 33 2"

definition sw_secret :: bytes where "sw_secret = replicate 32 7"

definition sw_c :: Contract where
  "sw_c = \<lparr>recipientPkh = bytes_of_uint160 (Hash160 sign_ext sw_key),
     refundPkh = bytes_of_uint160 (Hash160 sign_ext ex_key), secretHash = SHA256 sign_ext sw_secret,
     c_LockTime = 100\<rparr>"

definition sw_contract :: bytes where "sw_contract = BuildContract sign_ext sw_c"

lemma length_SHA256_sign [simp]: "length (SHA256 sign_ext x) = 32"
  by (simp add: sign_ext_def ext_with_def toy_hash_def)

lemma sw_wf: "contract_wf sw_c" "16 < c_LockTime sw_c"
  by (simp_all add: contract_wf_def sw_c_def)

lemma sw_parses: "ParseContract sw_contract = Some sw_c"
  unfolding sw_contract_def by (rule build_parses [OF openssl_bn_sign sw_wf])

lemma sw_lock: "push_int64 sign_ext 100 = [1, 100]"
proof -
  have "setint64 sign_ext 100 = 100" using openssl_bn.setint64 [OF openssl_bn_sign, of 100] by (simp add: in_i64_def)
  then have "getvch sign_ext (setint64 sign_ext 100) = rev (mpi_body 100)" by (simp add: openssl_bn.getvch [OF openssl_bn_sign])
  also have "mpi_body 100 = [100]" by (simp add: mpi_body_def le_min.simps)
  finally show ?thesis by (simp add: push_int64_def push_vch_def opcodes)
qed

lemma sw_length: "length sw_contract = 94"
  unfolding sw_contract_def BuildContract_def push_size_check [OF openssl_bn_sign]
  by (simp add: sw_c_def sw_lock push_vch_def push_opcode_def opcodes)

section \<open>Its redeem\<close>

definition sw_sig :: bytes where "sw_sig = [0x30, 6, 2, 1, 1, 2, 1, 1]"

lemma sw_sign: "CKey_Sign ref_keys sk h = Some sw_sig"
  by (simp add: ref_keys_sign sw_sig_def)

definition sw_fund :: CTransaction where
  "sw_fund = \<lparr>nVersion = 1, vin = [],
     vout = [\<lparr>nValue = 50000, scriptPubKey = SetPayToScriptHash sign_ext sw_contract\<rparr>], nLockTime = 0\<rparr>"

definition sw_point :: COutPoint where
  "sw_point = \<lparr>out_hash = SerializeHash_tx sign_ext sw_fund, out_n = word_of_nat 0\<rparr>"

definition sw_unsigned :: "int \<Rightarrow> CTransaction" where
  "sw_unsigned n = spend_tx sw_c True sw_point SEQUENCE_REPLACEABLE [81] n"

definition sw_tx :: "int \<Rightarrow> CTransaction" where
  "sw_tx n = set_scriptSig (sw_unsigned n) 0 (RedeemScriptSig (sw_sig @ [1]) sw_key sw_secret sw_contract)"

lemma sw_signed: "sign_spend sign_ext ref_keys sw_key sw_key sw_contract (Some sw_secret) (sw_unsigned n) = Some (sw_tx n)"
  by (simp add: sign_spend_def sw_sign sw_tx_def swap_scriptSig_def)

lemma sw_pub: "priv_to_pub ref_keys sw_key = Some sw_key" "length sw_key \<le> MAX_SCRIPT_ELEMENT_SIZE"
  by (simp_all add: ref_keys_def sw_key_def MAX_SCRIPT_ELEMENT_SIZE_def)

lemma sw_redeem_length: "length (RedeemScriptSig (sw_sig @ [1]) sw_key sw_secret sw_contract) = 174"
  by (simp add: RedeemScriptSig_def push_vch_def push_opcode_def sw_length sw_key_def sw_secret_def sw_sig_def opcodes)

lemma sw_size: "GetSerializeSize_CTransaction (sw_tx n) = 235"
  by (simp add: sw_tx_def sw_unsigned_def spend_tx_def GetSerializeSize_CTransaction_def
      GetSerializeSize_vector_def GetSerializeSize_vch_def GetSizeOfCompactSize_def
      GetSerializeSize_CTxIn_def GetSerializeSize_CTxOut_def sw_redeem_length)

lemma sw_redeems:
  "VerifyScriptP2SH sign_ext (scriptSig (vin (sw_tx n) ! 0)) (p2sh (Hash160 sign_ext sw_contract)) (sw_tx n) 0 strict True v4"
proof (rule ref_keys.sign_spend_verifies [OF openssl_bn_sign sw_parses _ sw_pub])
  show "length sw_contract \<le> MAX_SCRIPT_ELEMENT_SIZE" by (simp add: sw_length MAX_SCRIPT_ELEMENT_SIZE_def)
  show "sign_spend sign_ext ref_keys sw_key sw_key sw_contract (Some sw_secret) (sw_unsigned n) = Some (sw_tx n)"
    by (rule sw_signed)
qed (auto simp: sw_c_def sw_unsigned_def sw_secret_def SECRET_BYTES_def sw_sign sw_sig_def)

lemma sw_fields: "nLockTime (sw_tx n) = 0" "length (vin (sw_tx n)) = 1" "vout (sw_tx n) = [\<lparr>nValue = n, scriptPubKey = [81]\<rparr>]"
  by (simp_all add: sw_tx_def sw_unsigned_def spend_tx_def)

lemma sw_fee: "fee_at_rate 2000 (sw_tx n) = 470"
  by (simp add: fee_at_rate_def sw_size i64_id in_i64_def)

lemma sw_built: "BuildSpend sign_ext ref_keys sw_contract sw_point 50000 [81] sw_key sw_key (Some sw_secret) 2000 False =
  Inr (sw_tx 49530, 470)"
proof -
  have at: "sign_other sign_ext ref_keys False sw_key sw_key sw_contract (Some sw_secret) 50000
      (spend_tx sw_c True sw_point SEQUENCE_REPLACEABLE [81] n) = Some (sw_tx n)" for n
    using sw_signed [of n] by (simp add: sign_other_def sw_unsigned_def)
  have "settle_fee (\<lambda>nFee. sign_other sign_ext ref_keys False sw_key sw_key sw_contract (Some sw_secret) 50000
      (spend_tx sw_c True sw_point SEQUENCE_REPLACEABLE [81] (i64 (50000 - nFee)))) 2000 50000 16 0 = Inr (sw_tx 49530, 470)"
    by (simp add: at sw_fee i64_id in_i64_def numeral_eq_Suc)
  then show ?thesis
    using sw_redeems [of 49530 True False]
    by (simp add: BuildSpend_def sw_parses SetPayToScriptHash_def p2sh_def)
qed

text \<open>A node whose pool holds both.\<close>

definition sw_node :: node where
  "sw_node = ex_node\<lparr>nd_pool := \<lparr>pool = fmupd 1 sw_fund (fmupd 2 (sw_tx 9) fmempty),
     mapNextTx = fmupd sw_point \<lparr>ptx = 2, in_n = 0\<rparr> fmempty, nTransactionsUpdated = 0\<rparr>\<rparr>"

lemma sw_found: "FindContractOutput sign_ext sw_node sw_contract 1 = Inr (sw_fund, 0)"
  by (simp add: FindContractOutput_def LookupTransaction_def sw_node_def sw_fund_def)

lemma sw_spender: "contract_spender sw_node \<lparr>out_hash = SerializeHash_tx sign_ext sw_fund, out_n = word_of_nat 0\<rparr> = Some (sw_tx 9)"
  unfolding sw_point_def [symmetric] by (simp add: contract_spender_def sw_node_def pool_at_def)

lemma sw_prevout: "prevout (vin (sw_tx n) ! 0) = \<lparr>out_hash = SerializeHash_tx sign_ext sw_fund, out_n = word_of_nat 0\<rparr>"
  by (simp add: sw_tx_def sw_unsigned_def spend_tx_def sw_point_def)

section \<open>No plain keys behind a passphrase\<close>

lemma load_ckeys_plain: "mapKeys (load_ckeys E cks K) = mapKeys K"
  unfolding load_ckeys_def by (induction cks arbitrary: K) (auto simp: AddCryptedKey_def)

lemma open_wallet_plain: "mapKeys (cs_keys (fst (open_wallet E L v S))) = mapKeys (cs_keys S)"
  by (auto simp: open_wallet_def Let_def split: option.split)

lemma unlock_loop_plain: "mapKeys (cs_keys (fst (unlock_loop E L pass ms S))) = mapKeys (cs_keys S)"
  by (induction ms) (auto simp: open_wallet_plain split: option.split)

lemma no_plain_keys: "mapKeys (cs_keys (fst (UnlockWallet E L pass (LoadEncrypted E p S)))) = fmempty"
  unfolding UnlockWallet_def
  by (auto simp: unlock_loop_plain) (simp_all add: LoadEncrypted_def load_ckeys_plain empty_keys_def)

end
