(* ===== verification/Spec2Isabelle.thy ===== *)
theory Spec2Isabelle
  imports Examples Interp_Bounds Rules Merkle Supply Node_Examples Share_Examples Wallet_Examples Recovery_Examples Swap_Examples
begin

text \<open>
  Bitflash is a full node in C++: a fork of the first Bitcoin client with RandomX proof of
  work, tightened and extended script rules behind time-activated switches, replacement in the
  memory pool, and a wallet, chat and swaps on top.  This library models its validation core:
  what a node accepts as a script, a transaction, a block and a chain, and what its memory pool
  holds; the share chain of its pooled mining; its wallet from the recovery phrase to the payment;
  and its atomic swaps.  Definitions keep the names of the code; names under \<^verbatim>\<open>src/src\<close> are meant throughout.

  \<^bold>\<open>Parts and how they meet.\<close>  Scripts are byte strings (\<^verbatim>\<open>script.h\<close>) run by \<^verbatim>\<open>EvalScript\<close>
  (\<^verbatim>\<open>script.cpp\<close>), whose numbers are \<^verbatim>\<open>CBigNum\<close>s (\<^verbatim>\<open>bignum.h\<close>) and whose signatures cover hashes
  of the transaction (\<^verbatim>\<open>main.h\<close>).  \<^verbatim>\<open>VerifySignature\<close> joins a scriptSig with the output it spends.
  \<^verbatim>\<open>ConnectInputs\<close> (\<^verbatim>\<open>main.cpp\<close>) calls it for every input, against the transaction index that
  \<^verbatim>\<open>CTxDB\<close> keeps and the block files it points into, for a block, for the memory pool or for the
  miner.  \<^verbatim>\<open>ConnectBlock\<close> connects the transactions of a block one after the other;
  \<^verbatim>\<open>AcceptTransaction\<close> lets one transaction into the pool.  \<^verbatim>\<open>CheckBlock\<close> and \<^verbatim>\<open>AcceptBlock\<close> decide
  on a block before it is stored, with \<^verbatim>\<open>GetNextWorkRequired\<close>, \<^verbatim>\<open>GetMedianTimePast\<close>, the Merkle
  tree and the rule switches of \<^verbatim>\<open>consensus.h\<close>.  \<^verbatim>\<open>ProcessBlock\<close> takes a block from a peer: it
  is held as an orphan, or written to the block files, entered in \<^verbatim>\<open>mapBlockIndex\<close> by
  \<^verbatim>\<open>AddToBlockIndex\<close> and, if it makes the longest chain, connected, after \<^verbatim>\<open>Reorganize\<close> has
  disconnected the old branch where there is one.  The wallet (\<^verbatim>\<open>mapKeys\<close>, \<^verbatim>\<open>mapWallet\<close>, the key pool)
  follows the chain by \<^verbatim>\<open>AddToWalletIfMine\<close>; \<^verbatim>\<open>CreateTransaction\<close> chooses coins and signs them with
  \<^verbatim>\<open>SignSignature\<close>, and \<^verbatim>\<open>SendMoney\<close> hands the payment to the memory pool.  The swap commands of
  \<^verbatim>\<open>jsonrpc.cpp\<close> fund a contract script with \<^verbatim>\<open>SendMoney\<close> and spend one through the pool.

  \<^bold>\<open>Theories.\<close>
  \<^item> \<open>Prelude\<close>: bytes, little and big endian numbers, C integer conversions (\<open>i32\<close>, \<open>i64\<close>,
    \<open>u32_of\<close>), and the collections \<open>wire\<close> (lengths and inverses of encodings) and \<open>bounds\<close>.
  \<^item> \<open>Crypto\<close>: the linked libraries as a record \<open>ext\<close> of functions, the hash wrappers of
    \<^verbatim>\<open>util.h\<close> and \<^verbatim>\<open>sigcheck.cpp\<close>; the locale \<open>openssl_bn\<close> states the documented format of OpenSSL's
    MPI numbers, and is interpreted on an executable instance \<open>ref_ext\<close>.
  \<^item> \<open>Bignum\<close>: \<^verbatim>\<open>bignum.h\<close>, a \<^verbatim>\<open>CBigNum\<close> as the integer it denotes; the value of compact bits.
  \<^item> \<open>Serialize\<close>, \<open>Transaction\<close>, \<open>Block\<close>: \<^verbatim>\<open>serialize.h\<close> and the wire formats of \<^verbatim>\<open>main.h\<close>; the
    locale \<open>sized_codec\<close> (reading back what was written, sizes, prefix-freeness) is interpreted
    for every type on the wire; \<open>CheckTransaction\<close>, finality, fees, \<open>CheckBlock\<close>, \<open>AcceptBlock\<close>.
  \<^item> \<open>Opcodes\<close>, \<open>Script\<close>: \<^verbatim>\<open>script.h\<close>, parsing into operations, the builders, \<open>FindAndDelete\<close>.
  \<^item> \<open>SigHash\<close>, \<open>Interp\<close>, \<open>Interp_Bounds\<close>, \<open>Verify\<close>, \<open>Spend\<close>: signature and template hashes,
    every operation of \<^verbatim>\<open>EvalScript\<close>'s switch as a step on \<open>script_state\<close>, resource bounds over
    the reachable states, the templates and \<^verbatim>\<open>VerifySignature\<close>, and what it takes to spend.
  \<^item> \<open>Rules\<close>, \<open>Pow\<close>, \<open>Merkle\<close>: activation times and the proof of work input; median time,
    subsidy and retargeting on chains (lists of index entries, tip first); the flat Merkle tree.
  \<^item> \<open>TxIndex\<close>, \<open>Connect\<close>, \<open>Coins\<close>, \<open>ConnectBlock\<close>, \<open>Supply\<close>: the transaction index (locale
    \<open>tx_store\<close>, interpreted on the map that models \<^verbatim>\<open>CTxDB\<close>) and reading from block files; the three
    modes of \<^verbatim>\<open>ConnectInputs\<close>; the set of unspent outpoints an index stands for and the refinement
    of \<^verbatim>\<open>ConnectBlock\<close> to the abstract \<open>ledger\<close>; the money supply.
  \<^item> \<open>Mempool\<close>: the pool's two maps, replacement and its price.
  \<^item> \<open>BlockFile\<close>, \<open>Node\<close>: the block files and the record \<open>node\<close> of the globals, with
    \<open>AddToBlockIndex\<close>, \<open>Reorganize\<close>, \<open>AcceptBlock\<close>, \<open>ProcessBlock\<close> and the locator.
  \<^item> \<open>History\<close>, \<open>Branches\<close>, \<open>NodeInv\<close>, \<open>NodeAccept\<close>, \<open>NodeProps\<close>, \<open>Orphans\<close>: a chain of
    connected blocks gives the transaction index (\<open>connected\<close>); finding the fork, disconnecting
    and connecting branches; the invariant \<open>node_ok\<close> and that every path of \<open>AcceptBlock\<close> keeps
    it; what follows for the supply, the main chain and locators; the store of orphan blocks.
  \<^item> \<open>Payouts\<close>, \<open>Share\<close>, \<open>ShareChain\<close>, \<open>ShareAdd\<close>: pooled mining without a pool
    (\<^verbatim>\<open>p2pool*.cpp\<close>): what a block pays its window, the share and its checks, the share chain with
    its targets, uncles, window and tip, and getting shares in and out.  \<open>ShareProps\<close>: what these
    compute; \<open>ShareInv\<close>, \<open>ShareKeeps\<close>: the invariant \<open>shares_ok\<close> of every chain a node can get to
    (\<open>chain_run\<close>), the choice of the tip, and that the walks return; \<open>ShareOnce\<close>: no share is paid twice.
  \<^item> \<open>Keys\<close>, \<open>KeyProps\<close>, \<open>Signing\<close>: the key store with its encrypted keys and redeem scripts, what is
    ours, and signing; the locale \<open>key_library\<close> states what is relied on of OpenSSL's ECDSA and AES
    and is interpreted on \<open>ref_keys\<close>.  An input we sign is accepted by every node.
  \<^item> \<open>WordList\<close>, \<open>Bip39\<close>, \<open>Bip32\<close>, \<open>KeyPool\<close>, \<open>Recovery\<close>: recovery phrases, key derivation
    (\<^verbatim>\<open>bip32.cpp\<close>), the key pool and its counters, and what a phrase brings back; \<open>Base58\<close>:
    \<^verbatim>\<open>base58.h\<close>, both ways, and addresses.
  \<^item> \<open>Wallet\<close>, \<open>WalletTx\<close>, \<open>Send\<close>: wallet transactions with their credits and debits, the choice of
    coins, adding, merging, scanning and rescanning, creating, sending and replacing payments.
    \<open>WalletSelect\<close>, \<open>SendProps\<close>, \<open>WalletProps\<close>: the coins chosen suffice, when a payment is made
    and what a failed one leaves behind, what a scan finds.  \<open>Encrypt\<close>: encrypting, loading and
    unlocking the wallet.
  \<^item> \<open>Swap\<close>, \<open>SwapProps\<close>: the contract of \<^verbatim>\<open>swap.cpp\<close>, and the interpreter run over both branches
    of any script taken for one: who can spend it and what the spend shows.  \<open>SwapSpend\<close>,
    \<open>SwapTrade\<close>: the swap commands and \<^verbatim>\<open>BuildSpend\<close> for the other chain.
  \<^item> \<open>Examples\<close>, \<open>Chain_Examples\<close>, \<open>Node_Examples\<close>, \<open>Share_Examples\<close>, \<open>Wallet_Examples\<close>,
    \<open>Recovery_Examples\<close>, \<open>Swap_Examples\<close>: concrete transactions, blocks, pools, shares, a node,
    wallets and a contract for the witnesses.

  \<^bold>\<open>Conventions.\<close>  A C++ function that can fail returns a sum whose left side names the exit
  taken, or an option.  32 and 256 bit fields are words; \<^verbatim>\<open>int\<close> and \<^verbatim>\<open>int64\<close> are integers cut to
  their width by \<open>i32\<close> and \<open>i64\<close> after every operation that can overflow.  Globals a function
  reads are fields of a record argument (\<open>connect_ctx\<close>, \<open>chain_view\<close>, \<open>accept_view\<close>).  Loops
  are recursive functions.  Those of the node terminate, so there is no fuel: the interpreter's loop
  by the bytes left of the script, Merkle trees by the length of the row, the work queue of
  \<^verbatim>\<open>ProcessBlock\<close> by the orphans left.  The two walks of the share chain that only the
  hashes bound, \<open>IsMine\<close> (redeem scripts may nest), \<open>ScanForWalletTransactions\<close> and
  \<open>create_loop\<close> are partial functions, where \<open>None\<close> is not returning; that they return is
  proved under what makes them.  The two passes of \<open>SpendContract\<close> and the sixteen of
  \<open>BuildSpend\<close> are the code's own bounds.

  \<^bold>\<open>Not modelled.\<close>  The SHA-2, RIPEMD, secp256k1, OpenSSL and RandomX libraries are
  parameters.  Left out are: sockets, threads and locks; the storage engines behind \<^verbatim>\<open>CTxDB\<close>
  and the wallet, of which only what a read returns after a write is kept; the text of the RPC
  interface, the explorer and the graphical interface; the encrypted chat and what travels by it
  (market, invoices, swap offers), which is transport and text around modelled payments; the
  light client for other chains (\<^verbatim>\<open>btclight.cpp\<close>) and the RPC calls to their servers
  (\<^verbatim>\<open>btcswap.cpp\<close>); orphan transactions and fee estimates; and vendored code.
\<close>

text \<open>
  C1: Accepting a block keeps the invariant of the node on every path (refused, stored on a
  side branch, connected to the best chain, connected and failed, reorganized,
  reorganization failed): the block index is a tree of checked blocks that are on disk side
  by side, the best chain is a longest branch of it, the pointers to the next block run
  along the best chain, and the transaction index is exactly what connecting the best chain
  to the genesis block leaves. The transactions of the block are assumed new to its branch,
  and when a reorganization fails the deleted entries are assumed to have no other
  children.
\<close>

theorem node_keeps:
  assumes "node_ok E N nd" and "wf_CBlock b" "CheckBlock E N t b = Inr ()" "new_hashes E N nd b"
    and "AcceptBlock E N g t b nd = (nd', r)"
    and "hashPrevBlock b \<noteq> hashBestChain nd \<Longrightarrow> r \<noteq> None \<Longrightarrow> no_dangling (idx_of nd')"
  shows "node_ok E N nd'"
  by (rule AcceptBlock_ok [OF assms])

lemma node_keeps_wit:
  "node_ok ref_ext ex_net (fst (AcceptBlock ref_ext ex_net 0 1789992000 ex_block ex_node))"
  by (rule node_keeps [OF ex_node_ok ex_block_wf ex_CheckBlock ex_new_hashes prod.collapse [symmetric]]) simp





text \<open>
  C4: Connecting a block implements the abstract ledger: once rules v2 are active, a
  connected block's transactions, taken in order, each spend distinct outpoints that are
  unspent at that point, create only outpoints of hashes with no unspent output left, and
  turn the unspent set of the old index into that of the new one; and the index keeps
  pointing at the right transactions on disk.
\<close>

theorem connect_refines_ledger:
  assumes "stored V pindex b" "RulesV2Active N (unat (nTime b))" "index_ok E (viewFiles V) db"
    and "ConnectBlock E N V pindex b db = Inr db'"
  shows "ledger E (vtx b) (coins db) = Some (coins db') \<and> index_ok E (viewFiles V) db'"
  using ConnectBlock_ledger [OF assms] by simp

lemma connect_refines_ledger_wit:
  "ledger ref_ext [ex_coinbase] (coins Map.empty) = Some (coins ex_db)"
  using connect_refines_ledger [OF ex_stored _ ex_index_ok ex_ConnectBlock] by (simp add: ex_rules)

text \<open>
  C5: Disconnecting a block undoes connecting it: the transaction index DisconnectBlock
  leaves is, entry by entry, the one ConnectBlock started from, provided the block's
  transactions have distinct hashes that were not in the index before.
\<close>

theorem disconnect_restores:
  assumes "stored V pindex b" "index_ok E (viewFiles V) db"
    and "distinct (tx_hashes E b)" "\<forall>h \<in> set (tx_hashes E b). db h = None"
    and "ConnectBlock E N V pindex b db = Inr db'"
  shows "DisconnectBlock E b db' = Inr db"
  by (rule ConnectBlock_disconnect [OF assms])

lemma disconnect_restores_wit: "DisconnectBlock ref_ext ex_block ex_db = Inr Map.empty"
  by (rule disconnect_restores [OF ex_stored ex_index_ok _ _ ex_ConnectBlock]) (simp_all add: tx_hashes_def)







text \<open>
  C9: ProcessBlock keeps the store of orphan blocks: the map by hash and the multimap by
  parent hold exactly the same blocks, at most 200 of them, whatever block arrives and
  whichever orphans are evicted; and when the block is accepted no orphan is left waiting
  for it.
\<close>

theorem orphan_store:
  assumes "orphans_ok E nd" "ProcessBlock E N g t rs b nd = (nd', r)"
  shows "orphans_ok E nd' \<and>
    (r = Accepted \<longrightarrow> (\<forall>x. (GetHash E b, x) \<notin> set (mapOrphanBlocksByPrev nd')))"
  by (rule ProcessBlock_orphans [OF assms])

lemma orphan_store_wit:
  "orphans_ok ref_ext (fst (ProcessBlock ref_ext ex_net 0 1789992000 (\<lambda>i. 0) ex_block ex_node))"
  using orphan_store [OF ex_orphans_ok prod.collapse [symmetric]] by blast



text \<open>
  C11: A node whose RandomX verification VM cannot be allocated accepts every nonce: with
  no VM the proof of work hash is zero, so the proof of work check of CheckBlock passes for
  every block and only the other conditions remain. The check fails open, not closed.
\<close>

theorem work_fails_open:
  assumes "vmVerify N 1 = None" "vmVerify N 2 = None"
  shows "GetPoWHash N b = 0 \<and> CheckBlock E N t b \<noteq> Inl ProofOfWorkMismatch"
proof -
  have "GetPoWHash N b = 0"
    using assms by (simp add: GetPoWHash_def PoWHashHeader_def PoWInputFromHeader_def RandomXPoWHash_def
        EnsureKey_def PoWVersionAt_def Let_def)
  then show ?thesis by (simp add: CheckBlock_def)
qed

lemma work_fails_open_wit: "GetPoWHash (ex_net\<lparr>vmVerify := \<lambda>v. None\<rparr>) ex_block = 0"
  using work_fails_open [of "ex_net\<lparr>vmVerify := \<lambda>v. None\<rparr>" ex_block] by simp

text \<open>
  C12: Whatever shares a P2Pool node is given, in whatever order (checked in full, taken on
  trust, or as a peer's history), its share chain is well formed: every share is held under
  its own id at the height it states and has passed CheckShareWork, nTrustedBytes is
  exactly the size of the shares held on trust and at most MAX_TRUSTED_BYTES, and the tip,
  when there is one, is held and was checked in full.
\<close>

theorem share_chain_keeps:
  assumes "openssl_bn E" "chain_run E N A C"
  shows "shares_ok E N C"
  by (rule openssl_bn.chain_run_ok [OF assms])

lemma share_chain_keeps_wit: "shares_ok ref_ext ex_net ex_shares1"
  by (rule share_chain_keeps [OF openssl_bn_ref ex_chain_run])

text \<open>
  C13: No share is paid twice: on a line of shares checked in full, of any length and from
  any share, the shares of the line and all the uncles they name are different from each
  other, although each check looks only a few shares back and lines are cut and filled
  again. No two of the shares the node was given are taken to have the same id.
\<close>

theorem shares_paid_once:
  assumes "openssl_bn E" "chain_run E N A C" "inj_on (GetId E) A"
    and "\<forall>e \<in> set (back_line C h k). \<not> fTrusted e"
  shows "distinct (paid_ids C h k)"
  by (rule openssl_bn.chain_paid_once [OF assms])

lemma shares_paid_once_wit: "distinct (paid_ids ex_shares1 (GetId ref_ext ex_share) 2160)"
proof -
  have "\<forall>e \<in> set (back_line ex_shares1 h k). \<not> fTrusted e" for h k
    by (induction k arbitrary: h) (auto simp: ex_shares1_def full_entry_def Let_def split: if_split_asm)
  then show ?thesis by (intro shares_paid_once [OF openssl_bn_ref ex_chain_run]) simp_all
qed

text \<open>
  C14: The payouts of a window are to the unit: together exactly the value of the block,
  one for each script of the window in lexicographic order, and each between its rounded
  down share and that plus the number of outputs, less one. No product or sum wraps for
  windows of up to 8192 weights below 2^64.
\<close>

theorem payouts_exact:
  assumes "ComputePayouts window v = Inr out"
    and "\<forall>w \<in> set window. ws_work w < 2 ^ 64" "length window \<le> 2 ^ 13"
  shows "sum_list (map pay_value out) = v \<and> map pay_script out = scripts_of window \<and>
    (\<forall>p \<in> set out. int (floor_share window v (pay_script p)) \<le> pay_value p \<and>
      pay_value p < int (floor_share window v (pay_script p)) + int (length out))"
  by (rule ComputePayouts_exact [OF assms])

lemma payouts_exact_wit: "scripts_of [\<lparr>payoutScript = ex_script, ws_work = 2 ^ 64 - 1\<rparr>] = [ex_script]"
  using payouts_exact [OF ex_share_payout] by simp

text \<open>
  C15: Whatever the random bits are, SelectCoins chooses distinct coins the wallet may
  spend that are together worth the target, and it fails exactly when all of them together
  are worth less; coins with six confirmations (one, of our own) are used if they suffice.
  No sum wraps while all outputs of ours are together below 2^63.
\<close>

theorem coins_selected:
  assumes "wallet_money K W" "0 < T"
  shows "case fst (SelectCoins E nd K W addr rnd T k) of
      None \<Rightarrow> total_of (spendable E nd K W 0 1) < T
    | Some cs \<Rightarrow> good_choice T (spendable E nd K W 0 1) cs \<and>
        (T \<le> total_of (spendable E nd K W 1 6) \<longrightarrow> good_choice T (spendable E nd K W 1 6) cs)"
  by (rule SelectCoins_ok [OF assms])

lemma coins_selected_wit:
  "\<exists>cs. fst (SelectCoins sign_ext ex_node wx_keys wx_wallet unat even (5 * COIN) 0) = Some cs \<and>
    good_choice (5 * COIN) (spendable sign_ext ex_node wx_keys wx_wallet 0 1) cs"
  using coins_selected [OF wx_money, of "5 * COIN" sign_ext ex_node unat even 0]
  by (auto simp: wx_spendable COIN_def split: option.split_asm)







text \<open>
  C19: The coins of a contract are never out of reach of both sides: the redeem the code
  signs with the recipient's key and the right secret, and the refund it signs with the
  refund key for a lock before 2038, satisfy the contract's script under every later rule.
  Not covered: a signature whose push is as long as a hash of the contract.
\<close>

theorem swap_can_be_spent:
  assumes "key_library E L" "openssl_bn E" "ParseContract contract = Some c" "length contract \<le> MAX_SCRIPT_ELEMENT_SIZE"
    and "priv_to_pub L priv = Some pub" "length pub \<le> MAX_SCRIPT_ELEMENT_SIZE"
      "bytes_of_uint160 (Hash160 E pub) = (if pSecret \<noteq> None then recipientPkh c else refundPkh c)"
    and "\<forall>s. pSecret = Some s \<longrightarrow> length s = SECRET_BYTES \<and> SHA256 E s = secretHash c"
    and "pSecret = None \<longrightarrow> c_LockTime c < 2 ^ 31"
    and "tx = spend_tx c (pSecret \<noteq> None) outpoint nSeq scriptTo amount"
      "sign_spend E L priv pub contract pSecret tx = Some tx'"
    and "\<forall>s. CKey_Sign L priv (SignatureHash E contract tx 0 SIGHASH_ALL) = Some s \<longrightarrow> length s \<noteq> 19 \<and> length s \<noteq> 31"
  shows "VerifyScriptP2SH E (scriptSig (vin tx' ! 0)) (p2sh (Hash160 E contract)) tx' 0 strict True v4"
  by (rule key_library.sign_spend_verifies [OF assms])

lemma swap_can_be_spent_wit:
  "VerifyScriptP2SH sign_ext (scriptSig (vin (sw_tx 9) ! 0)) (p2sh (Hash160 sign_ext sw_contract)) (sw_tx 9) 0 True True True"
proof (rule swap_can_be_spent [OF ref_keys.key_library_axioms openssl_bn_sign sw_parses _ sw_pub])
  show "length sw_contract \<le> MAX_SCRIPT_ELEMENT_SIZE" by (simp add: sw_length MAX_SCRIPT_ELEMENT_SIZE_def)
  show "sign_spend sign_ext ref_keys sw_key sw_key sw_contract (Some sw_secret) (sw_unsigned 9) = Some (sw_tx 9)"
    by (rule sw_signed)
qed (auto simp: sw_c_def sw_unsigned_def sw_secret_def SECRET_BYTES_def sw_sign sw_sig_def)



text \<open>
  C21: A contract that is built is recognised with all its fields, for locks from 17 to
  2^32 - 1. (A lock of 1 to 16 is pushed by an opcode of its own and the contract is not
  recognised.)
\<close>

theorem swap_round_trip:
  assumes "openssl_bn E" "contract_wf c" "16 < c_LockTime c"
  shows "ParseContract (BuildContract E c) = Some c"
  by (rule build_parses [OF assms])

lemma swap_round_trip_wit: "ParseContract (BuildContract sign_ext sw_c) = Some sw_c"
  by (rule swap_round_trip [OF openssl_bn_sign sw_wf])

text \<open>
  C22: An encrypted wallet can neither redeem nor refund a contract, even when it is
  unlocked: KeyForContract looks among the plain keys only, and a wallet read back
  encrypted and unlocked has none, though it holds the key encrypted. The call fails and
  changes nothing.
\<close>

theorem swap_encrypted_stuck:
  "\<exists>e. SpendContract Env contract c txid pSecret
      (S\<lparr>ws_hd := cs_hd (fst (UnlockWallet E L pass (LoadEncrypted E p C)))\<rparr>) =
    (S\<lparr>ws_hd := cs_hd (fst (UnlockWallet E L pass (LoadEncrypted E p C)))\<rparr>, Inl e)"
  by (rule encrypted_no_spend) (simp add: no_plain_keys)



text \<open>
  C24: The check of a typed recovery phrase takes exactly the phrases that some entropy
  gives, up to case and spaces, and each is the phrase of one entropy only: writing the
  words down loses nothing, and no two entropies share a phrase.
\<close>

theorem phrase_entropy:
  "BIP39ValidateMnemonic E s = (m, None) \<longleftrightarrow>
    m = NormalizeMnemonic s \<and> (\<exists>!e. BIP39EntropyToMnemonic E e = Inr m)"
  by (rule phrase_check)





text \<open>
  C27: Accepting a transaction keeps the memory pool's two maps in agreement, so that no
  outpoint is ever spent by two transactions of the pool; exactly the new transaction
  enters, and exactly the reported conflicts leave, all of which had to signal that they
  may be replaced.
\<close>

theorem pool_invariant:
  assumes ok: "pool_ok E M" and acc: "AcceptTransaction E N A db fCheckInputs tx M = Inr (M', d)"
  shows "pool_ok E M' \<and>
    (\<forall>k. fmlookup (pool M') k = (if k = SerializeHash_tx E tx then Some tx
           else if k \<in> set d then None else fmlookup (pool M) k)) \<and>
    (\<forall>h k t u op. fmlookup (pool M') h = Some t \<and> fmlookup (pool M') k = Some u \<and>
       op \<in> set (prevouts t) \<and> op \<in> set (prevouts u) \<longrightarrow> h = k) \<and>
    (\<forall>h \<in> set d. SignalsReplacement (pool_at M h) \<and> \<not> has_children M h (pool_at M h)) \<and>
    length d \<le> MAX_REPLACED_TXS"
proof -
  note P = AcceptTransaction_pool [OF ok acc]
  have "check_conflicts M d = None" "length d \<le> MAX_REPLACED_TXS"
    using AcceptTransaction_cases [OF acc] by blast+
  then show ?thesis
    using P pool_no_double_spend [OF P(1)] check_conflicts_None by blast
qed

lemma pool_invariant_wit:
  "\<exists>M'. AcceptTransaction ref_ext ex_net ex_accept Map.empty False ex_pool_tx ex_pool = Inr (M', []) \<and>
     pool_ok ref_ext M'"
  using pool_invariant [OF ex_pool_ok ex_AcceptTransaction] ex_AcceptTransaction by blast

text \<open>
  C28: Removing a transaction that is not in the pool, as the chain does for every
  transaction of a newly connected block, keeps the pool's maps in agreement only if
  nothing in the pool spends what it spends: otherwise the claim of the pool's own
  transaction is erased while that transaction stays.
\<close>

theorem pool_remove_conflict:
  assumes "pool_ok E M" "fmlookup (pool M) (SerializeHash_tx E tx) = None"
  shows "pool_ok E (RemoveFromMemoryPool E tx M) \<longleftrightarrow>
    (\<forall>op \<in> set (prevouts tx). fmlookup (mapNextTx M) op = None)"
  by (rule RemoveFromMemoryPool_ok_iff [OF assms])

lemma pool_remove_conflict_wit: "pool_ok ref_ext (RemoveFromMemoryPool ref_ext ex_pool_tx ex_pool)"
  by (subst pool_remove_conflict [OF ex_pool_ok]) (simp_all add: ex_pool_def)

text \<open>
  C29: A replacement is paid for exactly when its fee rate is strictly above that of every
  transaction it replaces and its fee covers all of theirs plus the relay fee for its own
  size; up to 900,000 coins of fees and 100,000 bytes the 64 bit arithmetic of the code
  computes this without overflow.
\<close>

theorem replacement_price:
  assumes "\<forall>(f, z) \<in> set old. 0 \<le> f \<and> f \<le> 90000000000000 \<and> z \<le> 100000"
    and "nNewSize \<le> 100000" "0 \<le> nNewFee" "nNewFee \<le> 90000000000000" "length old \<le> MAX_REPLACED_TXS"
  shows "ReplacementPaysEnough nNewFee nNewSize old \<longleftrightarrow>
    (\<forall>(f, z) \<in> set old. f * int nNewSize < nNewFee * int z) \<and>
    sum_list (map fst old) + (100000 * int nNewSize + 999) div 1000 \<le> nNewFee"
  by (rule ReplacementPaysEnough_iff [OF assms])

lemma replacement_price_wit:
  "ReplacementPaysEnough 50000 250 [(20000, 300)] \<and> \<not> ReplacementPaysEnough 44999 250 [(20000, 300)]"
  by (subst (1 2) replacement_price) (simp_all add: MAX_REPLACED_TXS_def)

text \<open>
  C30: The payout window loses no work and invents none: the weights in it add up to the
  work of the share, of the line behind it within the window, and of all the uncles they
  name, however the 80 and 20 per cent split rounds. Works are taken to stay below 2^62, so
  that no weight wraps.
\<close>

theorem window_keeps_work:
  assumes "small_works C" "length (vUncles d) \<le> 2" "w < 2 ^ 62" "WindowFor C d w = Some v"
  shows "total_work v = w + uncle_works C (vUncles d) +
    (\<Sum>e\<leftarrow>back_line C (hashPrevShare d) 2159. work e + uncle_works C (uncles_of e))"
  by (rule WindowFor_work [OF assms])

lemma window_keeps_work_wit:
  "\<exists>v. total_work v = 9 + uncle_works ex_fork [3] +
    (\<Sum>e\<leftarrow>back_line ex_fork 2 2159. work e + uncle_works ex_fork (uncles_of e))"
  using ex_fork_window window_keeps_work [OF ex_fork_small, of "ex_data\<lparr>hashPrevShare := 2, vUncles := [3], nShareHeight := 2\<rparr>" 9]
  by fastforce

text \<open>
  C31: Rolling a payment back undoes committing it, whatever AddToWallet made of it: the
  wallet is again what it was. The payment was new to the wallet and spends coins that are
  in it and not marked spent.
\<close>

theorem commit_undone:
  assumes "fmlookup W (tx_hash E w) = None" "\<forall>h \<in> set (prev_hashes w). \<exists>v. fmlookup W h = Some v \<and> \<not> fSpent v"
  shows "RollbackTransactionSpent E w (CommitTransactionSpent E K t written w W) = W"
  by (rule commit_rollback [OF assms])

lemma commit_undone_wit:
  "RollbackTransactionSpent sign_ext (new_CWalletTx wx_spend)
    (CommitTransactionSpent sign_ext wx_keys 0 True (new_CWalletTx wx_spend) wx_wallet) = wx_wallet"
  by (rule commit_undone) (use wx_spend_new wx_spend_prevs in \<open>simp_all add: tx_hash_def\<close>)

text \<open>
  C32: The scan for the wallet's transactions returns: from a block of the best chain on it
  follows the pointers to the next block to the tip and stops there, and it has handed each
  block of the chain from there on to the wallet once, in the order of the heights.
\<close>

theorem wallet_scanned:
  assumes "node_ok E N nd" "pindexBest nd = d @ c" "c \<noteq> []"
  shows "ScanForWalletTransactions E nd K t c Wn =
    Some (fold (scan_block E nd K t) (map (\<lambda>i. drop i (pindexBest nd)) (rev [0 ..< Suc (length d)])) Wn)"
  by (rule ScanForWalletTransactions_main [OF assms])

lemma wallet_scanned_wit:
  "ScanForWalletTransactions ref_ext ex_node wx_keys 0 [ex_genesis] (wx_wallet, 0) = Some (wx_wallet, 0)"
  using wallet_scanned [OF ex_node_ok [of ref_ext ex_net], of "[]" "[ex_genesis]" wx_keys 0 "(wx_wallet, 0)"]
  by (simp add: scan_block_def ReadFromDisk_def)



text \<open>
  C34: An address decodes to the hash and the kind it was made of, and it is the only text
  over the alphabet of base 58 that does: no address has a second spelling, with more or
  fewer leading ones or a digit changed.
\<close>

theorem address_unique_text:
  assumes "openssl_bn E" "\<forall>c \<in> set str. base58_index c \<noteq> None"
  shows "DecodeAnyAddress E str = Some (h, script) \<longleftrightarrow>
    str = (if script then Hash160ToScriptAddress E h else Hash160ToAddress E h)"
  using openssl_bn.address_unique [OF assms] openssl_bn.address_round_trip [OF assms(1)] by auto

lemma address_unique_text_wit:
  "DecodeAnyAddress ref_ext ''11111'' = Some (7, True) \<longleftrightarrow> ''11111'' = Hash160ToScriptAddress ref_ext 7"
proof -
  have "\<forall>c \<in> set ''11111''. base58_index c \<noteq> None" by (simp add: base58_index_def pszBase58_def upt_rec)
  from address_unique_text [OF openssl_bn_ref this, of 7 True] show ?thesis by simp
qed

text \<open>
  C35: Taking in a peer's history always returns: the walks of LinesMeet and RootOf, which
  nothing in the code bounds, end as long as no share among those held and those sent is
  its own ancestor by hash.
\<close>

theorem history_returns:
  assumes "openssl_bn E" "shares_ok E N C" "acyclic_ids E (set part \<union> held C) rank"
  shows "\<exists>C' err. AddHistory E N part nTipHeight now C = Some (C', err)"
  using openssl_bn.AddHistory_returns [OF assms(1-3), of nTipHeight now] by auto

lemma history_returns_wit:
  "\<exists>C' err. AddHistory ref_ext ex_net [] 0 1789992000 ex_shares1 = Some (C', err)"
proof (cases "GetId ref_ext ex_share = 0")
  case True
  then show ?thesis by (simp add: AddHistory_def)
next
  case False
  then have "acyclic_ids ref_ext (set [] \<union> held ex_shares1) (\<lambda>h. if h = 0 then 0 else 1)"
    by (auto simp: acyclic_ids_def held_def ex_shares1_def full_entry_def Let_def split: if_split_asm)
  then show ?thesis
    by (rule history_returns [OF openssl_bn_ref share_chain_ok_ex])
qed

text \<open>
  C36: A branch of the right length that checks against a block's Merkle root at a position
  proves that the hash is the one at that position and the branch the genuine one, unless
  two different pairs of hashes, one from the tree and one from the branch, collide under
  the node hash.
\<close>

theorem merkle_sound:
  assumes "i < length hs" "length br = depth (length hs)"
    and "CheckMerkleBranch E h br (int i) = BuildMerkleTree E hs"
  shows "h = hs ! i \<and> br = GetMerkleBranch E [] hs i \<or> collision E (tree_pairs E hs) (branch_pairs E h br i)"
  using branch_sound [of i hs br E h] assms
  by (simp add: GetMerkleBranch_of CheckMerkleBranch_nat BuildMerkleTree_root length_branch_of)

lemma merkle_sound_wit:
  "(7::uint256) = [7] ! 0 \<and> [] = GetMerkleBranch ref_ext [] [7] 0 \<or>
    collision ref_ext (tree_pairs ref_ext [7]) (branch_pairs ref_ext 7 [] 0)"
  by (rule merkle_sound) (simp_all add: depth.simps CheckMerkleBranch_def BuildMerkleTree_root ex_root)

text \<open>
  C37: Whatever time the last window took, the target the next block must meet is never
  easier than the limit nor than four times the old target, and never harder than a quarter
  of it up to the rounding of the compact form (one part in 256).
\<close>

theorem work_never_leaps:
  assumes "openssl_bn E" "0 \<le> SetCompact E (unat (idx_nBits tip))"
    and "SetCompact E (unat (idx_nBits tip)) \<le> bnProofOfWorkLimit"
    and "(nHeight tip + 1) mod 30 = 0" "GetNextWorkRequired E N (tip # c) = Some bits"
  shows "SetCompact E bits \<le> bnProofOfWorkLimit \<and>
    SetCompact E bits \<le> 4 * SetCompact E (unat (idx_nBits tip)) \<and>
    255 * (SetCompact E (unat (idx_nBits tip)) div 4) \<le> 256 * SetCompact E bits"
proof -
  have "nWindow N tip < length (tip # c)"
    using GetNextWorkRequired_defined [of E N "tip # c"] assms(4,5) by auto
  then have "bits = retarget E (unat (idx_nBits tip))
      (limit_timespan (unat (idx_nTime tip - idx_nTime ((tip # c) ! nWindow N tip))))"
    using GetNextWorkRequired_boundary [OF assms(4)] assms(5) by simp
  then show ?thesis
    using openssl_bn.retarget_bounds [OF assms(1-3) limit_timespan_bounds] by blast
qed

lemma work_never_leaps_wit: "\<exists>bits. GetNextWorkRequired ref_ext ex_net ex_boundary = Some bits \<and>
    SetCompact ref_ext bits \<le> bnProofOfWorkLimit"
proof -
  obtain bits where "GetNextWorkRequired ref_ext ex_net ex_boundary = Some bits"
    using GetNextWorkRequired_defined [of ref_ext ex_net ex_boundary]
      nWindow_le [of ex_net "hd ex_boundary"]
    by (auto simp: ex_boundary_def)
  then show ?thesis
    using work_never_leaps [OF openssl_bn_ref, of "ex_genesis\<lparr>nHeight := 29\<rparr>" ex_net "replicate 30 ex_genesis" bits]
    by (simp add: ex_boundary_def ex_genesis_def ex_target bnProofOfWorkLimit_value)
qed

text \<open>
  C38: No script makes the interpreter use unbounded resources: in every state EvalScript's
  loop reaches, the two stacks together hold at most MAX_STACK_SIZE elements, at most
  MAX_OPS_PER_SCRIPT operations have been counted, and no element is longer than
  MAX_SCRIPT_ELEMENT_SIZE plus the number of counted operations, hence never longer than
  721 bytes.
\<close>

theorem script_resources:
  assumes "openssl_bn E" "hash_lengths E" "script_reach E cx (script_start script) s"
  shows "length (st_stack s) + length (st_alt s) \<le> MAX_STACK_SIZE \<and>
    nOpCount s \<le> MAX_OPS_PER_SCRIPT \<and>
    (\<forall>x \<in> set (st_stack s) \<union> set (st_alt s).
       length x \<le> MAX_SCRIPT_ELEMENT_SIZE + nOpCount s \<and> length x \<le> 721)"
proof -
  have "script_bounded s"
    using reach_bounded [OF assms(3,1,2)] by simp
  then show ?thesis
    by (auto simp: script_bounded_def MAX_SCRIPT_ELEMENT_SIZE_def MAX_OPS_PER_SCRIPT_def
        dest!: elems_leD)
qed

lemma script_resources_wit:
  "\<exists>s. script_reach ref_ext ex_cx (script_start (push_vch ex_key)) s \<and> st_stack s = [ex_key] \<and>
     length (st_stack s) + length (st_alt s) \<le> MAX_STACK_SIZE"
  using script_resources [OF openssl_bn_ref hash_lengths_ref ex_reach] ex_reach
  by (intro exI [of _ "script_start (push_vch ex_key)\<lparr>st_pc := [], st_stack := [ex_key]\<rparr>"]) simp

text \<open>
  C39: A block that is written is read back as it was, whatever follows it in the stream,
  occupies exactly the size GetSerializeSize reports, and no other well-formed block has
  the same bytes.
\<close>

theorem block_codec:
  assumes "wf_CBlock b"
  shows "unser_CBlock (ser_CBlock b @ rest) = Some (b, rest) \<and>
    length (ser_CBlock b) = GetSerializeSize_CBlock b \<and>
    (\<forall>b'. wf_CBlock b' \<longrightarrow> ser_CBlock b' = ser_CBlock b \<longrightarrow> b' = b)"
  using block.unser_ser [OF assms] block.length_ser block.ser_inject assms by blast

lemma block_codec_wit: "unser_CBlock (ser_CBlock ex_block @ [0]) = Some (ex_block, [0])"
  using block_codec [OF ex_block_wf] by blast



section \<open>Further theorems\<close>

text \<open>
  IsLowSSignature, which compares padded bytes, accepts a strictly encoded signature
  exactly when the number S it carries is at most half the group order.
\<close>

theorem low_s:
  assumes "der_int R" "der_int S" "length R + length S \<le> 66"
  shows "IsLowSSignature (der_sig R S ht) \<longleftrightarrow> be_nat S \<le> be_nat halfOrder"
  by (rule IsLowS_iff [OF assms])

lemma low_s_wit: "IsLowSSignature (der_sig [1] [2] 1)"
  by (subst low_s) (simp_all add: der_int_def halfOrder_def be_nat_def)

text \<open>
  CheckTransaction accepts exactly the transactions with inputs and outputs, no negative
  value, a total of at most 21 million coins (so that no partial sum ever overflows), no
  outpoint named twice, and, for a coinbase, a script of 2 to 100 bytes, for the others no
  null outpoint.
\<close>

theorem transaction_sane:
  "CheckTransaction tx = Inr () \<longleftrightarrow>
     vin tx \<noteq> [] \<and> vout tx \<noteq> [] \<and>
     (\<forall>x \<in> set (vout tx). 0 \<le> nValue x) \<and> sum_list (map nValue (vout tx)) \<le> 2100000000000000 \<and>
     distinct (map prevout (vin tx)) \<and>
     (if IsCoinBase tx then length (scriptSig (vin tx ! 0)) \<in> {2..100}
      else \<forall>i \<in> set (vin tx). \<not> COutPoint_IsNull (prevout i))"
  by (simp add: CheckTransaction_iff tx_sane_def MAX_MONEY_value)

lemma transaction_sane_wit: "CheckTransaction ex_coinbase = Inr () \<and> CheckTransaction CTransaction_SetNull \<noteq> Inr ()"
  unfolding transaction_sane by (simp, simp add: ex_coinbase_def CTransaction_SetNull_def COIN_def)

text \<open>
  FindAndDelete of one operation's bytes removes exactly the operations of the script with
  those bytes and keeps every other operation and the unparsable tail, byte for byte.
\<close>

theorem find_and_delete:
  assumes "one_op b"
  shows "FindAndDelete b s = concat (filter (\<lambda>p. p \<noteq> b) (map (snd \<circ> snd) (ops_of s))) @ tail_of s"
  by (rule FindAndDelete_ops [OF assms])

lemma find_and_delete_wit:
  "FindAndDelete (push_opcode OP_CODESEPARATOR) [] = []"
  by (subst find_and_delete) (simp_all add: one_op_opcode opcodes)

text \<open>
  The cache of block positions never gives a wrong or missing answer: whatever it holds,
  stale entries of abandoned index entries included, looking up a disk position returns
  exactly the index entry stored there, or none when there is none.
\<close>

theorem position_cache:
  assumes "distinct (index_positions index)" "distinct (map fst index)"
  shows "fst (BlockIndexAtDiskPos index mapByPos (nf, p)) = Some c \<longleftrightarrow>
    (\<exists>hash. (hash, c) \<in> set index) \<and> nFile (hd c) = nf \<and> nBlockPos (hd c) = p"
  using block_at_iff [OF assms(1), of "(nf, p)" c] by (simp add: BlockIndexAtDiskPos_spec [OF assms])

lemma position_cache_wit:
  "fst (BlockIndexAtDiskPos [(9, ex_chain)] [(1, 8) \<mapsto> 4] (1, 8)) = Some ex_chain"
  by (subst position_cache) (simp_all add: index_positions_def ex_chain_def ex_entry_def)

text \<open>
  A lock of 2^31 or later can never be met although the operand may have five bytes:
  nLockTime is a signed 32 bit field, so no transaction satisfies OP_CHECKLOCKTIMEVERIFY
  with it and an output locked past January 2038 is lost.
\<close>

theorem lock_time_ceiling:
  assumes "openssl_bn E" "in_i32 (nLockTime (txTo cx))" "2 ^ 31 \<le> setvch E x"
  shows "\<not> op_cltv E cx (x # r)"
  by (rule cltv_after_2038 [OF assms])

lemma lock_time_ceiling_wit: "\<not> op_cltv ref_ext ex_cx [[0, 0, 0, 0, 1]]"
proof -
  have "setvch ref_ext [0, 0, 0, 0, 1] = 2 ^ 32"
    by (subst openssl_bn.setvch [OF openssl_bn_ref]) (simp_all add: mpi_value.simps be_nat_def)
  then show ?thesis
    by (intro lock_time_ceiling [OF openssl_bn_ref])
      (simp_all add: ex_cx_def script_ctx_of_def ex_spend_def in_i32_def)
qed

text \<open>
  The bytes the proof of work hashes determine the header, across both versions: two
  well-formed headers with the same input and version have the same fields. Rearranging the
  header for version 2 loses nothing, so work done for one block is no work for another.
\<close>

theorem work_input_binds:
  assumes "in_i32 (blk_nVersion a)" "in_i32 (blk_nVersion b)"
    and "PoWInputFromHeader N (block_header a) = PoWInputFromHeader N (block_header b)"
  shows "blk_nVersion a = blk_nVersion b \<and> hashPrevBlock a = hashPrevBlock b \<and>
    hashMerkleRoot a = hashMerkleRoot b \<and> nTime a = nTime b \<and> nBits a = nBits b \<and> nNonce a = nNonce b"
proof -
  have "block_header a = block_header b"
    using assms(3) by (auto simp: PoWInputFromHeader_def Let_def split: if_split_asm intro: PoWInputV2_inject)
  then show ?thesis by (rule header_inject [OF assms(1,2)])
qed

lemma work_input_binds_wit: "hashPrevBlock ex_block = hashPrevBlock ex_block"
  using work_input_binds [of ex_block ex_block ex_net] by (simp add: ex_block_def in_i32_def)

text \<open>
  Strict DER leaves a signature one encoding: two signatures that pass IsStrictDERSignature
  with the same pair of integers and the same hash type are the same bytes.
\<close>

theorem der_unique:
  assumes "IsStrictDERSignature sig" "IsStrictDERSignature sig'"
  shows "\<exists>R S ht R' S' ht'. sig = der_sig R S ht \<and> sig' = der_sig R' S' ht' \<and>
    (be_nat R = be_nat R' \<and> be_nat S = be_nat S' \<and> ht = ht' \<longrightarrow> sig = sig')"
  using assms der_int_unique by (metis IsStrictDER_iff)

lemma der_unique_wit: "IsStrictDERSignature (der_sig [1] [2] 1)"
proof -
  have "IsStrictDERSignature (der_sig [1] [2] 1)"
    by (rule strict_der_sig) (simp_all add: der_int_def)
  with der_unique [OF this this] show ?thesis by blast
qed

text \<open>
  The rule switches nest at every block time of both networks and under every bench
  override: swaps and rules v4 are only open under rules v3, v3 only under v2, v2 only
  under the second proof of work; and once on they stay on.
\<close>

theorem rules_nest:
  assumes "t \<le> u"
  shows "(RulesV4Active N t \<longrightarrow> RulesV3Active N t \<and> RulesV4Active N u) \<and>
    (SwapsOpen N t \<longrightarrow> RulesV3Active N t) \<and>
    (RulesV3Active N t \<longrightarrow> RulesV2Active N t \<and> RulesV3Active N u) \<and>
    (RulesV2Active N t \<longrightarrow> PoWVersionAt N t = 2 \<and> RulesV2Active N u)"
  using RulesV4_V3 RulesV3_V2 RulesV2_PoWV2 SwapsOpen_V3 RulesV4_mono RulesV3_mono RulesV2_mono assms by blast

lemma rules_nest_wit: "RulesV2Active ex_net 1789992000 \<and> PoWVersionAt ex_net 1789992000 = 2"
  using rules_nest [of 1789992000 1789992000 ex_net] ex_rules by simp

text \<open>
  A transaction that is final for a block stays final for every later one: raising the
  height and the median time past never makes it non-final.
\<close>

theorem finality_monotone:
  assumes "IsFinalAt tx h t" "h \<le> h'" "t \<le> t'"
  shows "IsFinalAt tx h' t'"
  by (rule IsFinalAt_mono [OF assms])

lemma finality_monotone_wit: "IsFinalAt (ex_spend [] []) 7 100"
  by (rule finality_monotone [of _ 6 100])
    (simp_all add: IsFinalAt_def ex_spend_def u32_of_def LOCKTIME_THRESHOLD_def Let_def)

text \<open>
  With the repeats refused the root does fix the transactions: two lists of distinct hashes
  whose trees have the same depth and the same root are equal, or two different pairs of
  hashes in the two trees collide.
\<close>

theorem merkle_unique:
  assumes "distinct_hashes {} hs" "distinct_hashes {} hs'" "hs \<noteq> []" "hs' \<noteq> []"
    and "depth (length hs) = depth (length hs')" "BuildMerkleTree E hs = BuildMerkleTree E hs'"
  shows "hs = hs' \<or>
    collision E (tree_pairs E hs @ tree_pairs E hs') (tree_pairs E hs @ tree_pairs E hs')"
  using root_unique [of hs hs' E] assms by (simp add: distinct_hashes_iff BuildMerkleTree_root)

lemma merkle_unique_wit:
  "[1, 2] = [1, 2 :: uint256] \<or> collision ref_ext (tree_pairs ref_ext [1, 2] @ tree_pairs ref_ext [1, 2])
     (tree_pairs ref_ext [1, 2] @ tree_pairs ref_ext [1, 2])"
  by (rule merkle_unique) (simp_all add: distinct_hashes_iff)

text \<open>
  The subsidy halves every 210,000 blocks, down to nothing, as long as the shift count is
  below the width of the integer; from height 13,440,000 on GetBlockValue shifts a 64 bit
  value by 64 or more places, which C++ leaves undefined.
\<close>

theorem subsidy_defined:
  assumes "0 \<le> h" "MoneyRange fees"
  shows "GetBlockValue h fees =
    (if h < 13440000 then Some (50 * COIN div 2 ^ nat (h div 210000) + fees) else None)"
  using GetBlockValue_value [OF assms(1) _ assms(2)] GetBlockValue_defined [OF assms(1)] by auto

lemma subsidy_defined_wit: "GetBlockValue 210000 5 = Some (25 * COIN + 5) \<and> GetBlockValue 13440000 0 = None"
  by (subst (1 2) subsidy_defined) (simp_all add: MoneyRange_def MAX_MONEY_value COIN_def)

text \<open>
  The median time past never goes back: a block whose time is above the median of its
  parent's chain, as AcceptBlock demands, leaves a median at least as late. Lock times and
  relative locks measured by it therefore cannot be undone by building on the chain.
\<close>

theorem median_monotone:
  assumes "AcceptBlock_checks E N idx b = Inr c" "c \<noteq> []" "idx_nTime e = nTime b"
  shows "GetMedianTimePast c \<le> GetMedianTimePast (e # c)"
  by (rule GetMedianTimePast_mono) (use assms in \<open>simp_all add: AcceptBlock_checks_iff\<close>)

lemma median_monotone_wit: "GetMedianTimePast [ex_genesis] \<le> GetMedianTimePast [ex_entry, ex_genesis]"
  by (rule median_monotone [OF ex_AcceptBlock]) (simp_all add: ex_entry_def)

text \<open>
  The greedy loop of OP_CHECKMULTISIG decides exactly what the rule says: the signatures
  are accepted if and only if some of the keys, taken in the order given, check against
  them one by one.
\<close>

theorem multisig_in_order:
  assumes "length sigs \<le> length keys"
  shows "multisig_loop check sigs keys \<longleftrightarrow> (\<exists>ks. subseq ks keys \<and> list_all2 check sigs ks)"
  by (rule multisig_loop_iff [OF assms])

lemma multisig_in_order_wit:
  "(\<exists>ks. subseq ks [[1], [2], [3 :: byte]] \<and> list_all2 (=) [[1], [3]] ks)"
  by (subst multisig_in_order [symmetric]) simp_all

text \<open>
  The target the next share must carry is positive, never easier than the floor and, once
  the chain has RETARGET_SHARES shares, at most four times the mean target of the line (or
  1).
\<close>

theorem share_target:
  assumes "openssl_bn E" "1 \<le> bnFloor C" "bnFloor C \<le> bnProofOfWorkLimit"
    and "\<forall>e \<in> set (line C h RETARGET_SHARES). 0 \<le> SetCompact E (unat (nShareBits (sh_data (share e))))"
  shows "0 < SetCompact E (NextShareBits E C h) \<and> SetCompact E (NextShareBits E C h) \<le> bnFloor C \<and>
    (sc_Height C h + 1 < 720 \<or> SetCompact E (NextShareBits E C h) \<le> max 1 (4 * mean_target E C h))"
  by (rule openssl_bn.NextShareBits_bounds [OF assms])

lemma share_target_wit: "SetCompact ref_ext (NextShareBits ref_ext ex_fork 2) \<le> ex_floor"
  using share_target [OF openssl_bn_ref, of ex_fork 2] ex_fork_targets [of 2 RETARGET_SHARES]
  by (simp add: ex_floor_def bnProofOfWorkLimit_value ex_bits_target)

text \<open>
  The uncles a miner is offered for a new share are at most MAX_UNCLES and pass
  CheckUncles: a share that names them is not refused for its uncles by a node that holds
  the same shares.
\<close>

theorem uncles_offered:
  assumes "Get C parent = Some p" "vUncles d = UncleCandidates C parent"
  shows "CheckUncles C d parent (en_nHeight p + 1) = None \<and> length (vUncles d) \<le> MAX_UNCLES"
  by (rule UncleCandidates_ok [OF assms])

lemma uncles_offered_wit:
  "CheckUncles ex_fork (ex_data\<lparr>vUncles := UncleCandidates ex_fork 2\<rparr>) 2 2 = None"
  using uncles_offered [of ex_fork 2 "ex_at 1 [] 1 5" "ex_data\<lparr>vUncles := UncleCandidates ex_fork 2\<rparr>"]
  by (simp add: ex_fork_Get)

text \<open>
  Two nodes that hold the same window in different orders compute the same payouts, or both
  refuse it for the same reason.
\<close>

theorem payouts_agree:
  assumes "mset window = mset window'"
  shows "ComputePayouts window v = ComputePayouts window' v"
  by (rule ComputePayouts_perm [OF assms])

lemma payouts_agree_wit:
  "ComputePayouts [\<lparr>payoutScript = [1], ws_work = 2\<rparr>, \<lparr>payoutScript = [3], ws_work = 4\<rparr>] 10 =
    ComputePayouts [\<lparr>payoutScript = [3], ws_work = 4\<rparr>, \<lparr>payoutScript = [1], ws_work = 2\<rparr>] 10"
  by (rule payouts_agree) simp

text \<open>
  Under rules v2 a coinbase names its height: no script starts with the pushes of two
  different heights, so blocks at different heights never share a coinbase transaction, and
  with it never a transaction hash that would make one replace the other in the index.
\<close>

theorem coinbase_unique:
  assumes "openssl_bn E" "0 \<le> h" "h < 2 ^ 31" "0 \<le> h'" "h' < 2 ^ 31"
    and "coinbase_has_height E h b" "coinbase_has_height E h' b'" "hd (vtx b) = hd (vtx b')"
    and "vtx b \<noteq> []" "vtx b' \<noteq> []"
  shows "h = h'"
proof -
  obtain r r' where "push_int64 E h @ r = push_int64 E h' @ r'"
    using assms(6-10) by (metis coinbase_has_height_iff hd_conv_nth)
  then show ?thesis by (rule openssl_bn.push_height_inject [OF assms(1-5)])
qed

lemma coinbase_unique_wit: "\<not> coinbase_has_height ref_ext 2 ex_block"
  using coinbase_unique [OF openssl_bn_ref, of 1 2 ex_block ex_block] ex_height by auto

text \<open>
  A spend that passes OP_CHECKLOCKTIMEVERIFY and is final for a block respects the lock: a
  nonzero lock below 500,000,000 is below the block's height, any other below its median
  time past.
\<close>

theorem lock_time_enforced:
  assumes "openssl_bn E" "in_i32 (nLockTime (txTo cx))" "nIn cx < length (vin (txTo cx))"
    and "op_cltv E cx (x # r)" "IsFinalAt (txTo cx) h t"
  shows "setvch E x = 0 \<or> (if setvch E x < 500000000 then setvch E x < h else setvch E x < t)"
  by (rule cltv_enforced [OF assms])

lemma lock_time_enforced_wit: "setvch ref_ext [4] < (6::int)"
proof -
  have v: "setvch ref_ext [4] = 4"
    by (subst openssl_bn.setvch [OF openssl_bn_ref]) (simp_all add: mpi_value.simps be_nat_def)
  then show ?thesis
    using lock_time_enforced [OF openssl_bn_ref, of ex_cx "[4]" "[]" 6 100]
    by (simp add: op_cltv_iff [OF openssl_bn_ref] ex_cx_def script_ctx_of_def ex_spend_def in_i32_def
        IsFinalAt_def Let_def u32_of_def LOCKTIME_THRESHOLD_def SEQUENCE_FINAL_def)
qed

text \<open>
  The history a node sends is in the order AddHistory asks for: no node is refused, or
  blamed, for the order of what it sends.
\<close>

theorem history_in_order:
  assumes "openssl_bn E" "chain_run E N A C"
  shows "in_height_order (History C)"
  by (rule History_in_order [OF openssl_bn.chain_run_ok [OF assms]])

lemma history_in_order_wit: "in_height_order (History ex_shares1)"
  by (rule history_in_order [OF openssl_bn_ref ex_chain_run])

text \<open>
  A key added to the key store comes back from it, whether the store is encrypted or not,
  as long as it is not locked; in a store that is locked an encrypted key cannot be had.
\<close>

theorem key_round_trip:
  assumes "key_library E L" "AddKey E L pub priv written K = (K', True)" "priv_to_pub L priv = Some pub"
    and "fWalletEncrypted K \<Longrightarrow> fmlookup (mapKeys K) pub = None"
  shows "GetWalletPrivKey E L K' pub = Some priv \<and> mapPubKeys K' (Hash160 E pub) = Some pub \<and>
    (fWalletEncrypted K' \<longrightarrow> fmlookup (mapKeys K') pub = None \<longrightarrow> GetWalletPrivKey E L (lock_keys K') pub = None)"
  using key_library.AddKey_get [OF assms] locked_no_key by blast

text \<open>
  Speeding a payment up changes nothing of it but its signatures and the value of its
  change, which falls by just what the fee rises (in 64 bits); the fee is more than before
  and at least what the rules of replacement and the rate asked for need, and the change
  stays above a hundredth of a cent.
\<close>

theorem bump_takes_change:
  assumes "bump_loop Env K W rate nOldFee txOld n rounds txOld nOldFee = Some (Inr (tx, fee))" "n < length (vout txOld)"
  shows "\<exists>v. same_but_sigs tx (with_change txOld n v) \<and> v = i64 (nValue (vout txOld ! n) - i64 (fee - nOldFee)) \<and>
    CENT div 100 \<le> v \<and> nOldFee < fee \<and>
    bump_need rate nOldFee (GetSerializeSize_CTransaction txOld) (GetSerializeSize_CTransaction tx) \<le> fee"
proof (rule bump_loop_ok [OF assms(1) _ assms(2)])
  have "with_change txOld n (nValue (vout txOld ! n)) = txOld" by (simp add: with_change_def)
  then show "\<exists>v. same_but_sigs txOld (with_change txOld n v)" by (metis same_but_sigs_refl)
qed

text \<open>
  An output to a key hash is spent exactly by a push-only scriptSig whose last two pushes
  are a signature and a key such that the key hashes to the hash and the signature verifies
  for the spending transaction under that key; nothing else about the scriptSig matters but
  the stack and element limits. This is what the push-only rule and the open-conditional
  rule were added for.
\<close>

theorem p2pkh_spend:
  assumes E: "openssl_bn E"
    and spk: "scriptPubKey (vout txFrom ! unat (out_n (prevout (vin tx ! n)))) = p2pkh h"
  shows "VerifySignature E txFrom tx n nType strict v3 v4 \<longleftrightarrow>
    unat (out_n (prevout (vin tx ! n))) < length (vout txFrom) \<and>
    out_hash (prevout (vin tx ! n)) = SerializeHash_tx E txFrom \<and>
    IsPushOnly (scriptSig (vin tx ! n)) \<and>
    (\<exists>pk sig r. push_run E (ops_of (scriptSig (vin tx ! n))) [] = Some (pk # sig # r) \<and>
       length r + 4 \<le> MAX_STACK_SIZE \<and> Hash160 E pk = h \<and>
       CheckSig E sig pk (FindAndDelete (push_vch sig) (p2pkh h)) tx n nType strict)"
  using push_run_length [of E "ops_of (scriptSig (vin tx ! n))" "[]"]
  by (auto simp: VerifySignature_def Let_def spk EvalScript_sig_then accepts_p2pkh [OF E]
      p2pkh_not_p2sh cx_CheckSig_def script_ctx_of_def split: if_split_asm)

lemma p2pkh_spend_wit:
  "VerifySignature ref_ext (ex_prev (p2pkh (Hash160 ref_ext ex_key)))
     (ex_spend (p2pkh (Hash160 ref_ext ex_key)) (push_vch ex_sig @ push_vch ex_key)) 0 0 False True True"
  by (subst p2pkh_spend [OF openssl_bn_ref, where h = "Hash160 ref_ext ex_key"])
    (simp_all add: ex_tx ex_push_two ex_push_two_only ex_CheckSig MAX_STACK_SIZE_def)

text \<open>
  The locator a node makes from a block of its main chain leads back to that block, and a
  locator for a chain of fewer than 2^m blocks holds at most m + 11 hashes.
\<close>

theorem locator_finds:
  assumes "node_ok E N nd" "idx_of nd h = Some c" "suffix c (pindexBest nd)" "length c < 2 ^ m"
  shows "CBlockLocator_GetBlockIndex nd (CBlockLocator_Set g c) = c \<and>
    length (CBlockLocator_Set g c) \<le> m + 11"
  using locator_main [OF assms(1-3)] locator_length [OF assms(4)] by simp

lemma locator_finds_wit:
  "CBlockLocator_GetBlockIndex ex_node (CBlockLocator_Set 0 [ex_genesis]) = [ex_genesis]"
  using locator_finds [OF ex_node_ok, of 0 "[ex_genesis]" 1 0] by simp

text \<open>
  Under rules v3 an output to a script hash is spent exactly when the last push of a
  push-only scriptSig hashes to it and that push, run as a script on what the earlier
  pushes (kept as their original bytes) leave on the stack, accepts. A bare pre-image no
  longer suffices.
\<close>

theorem p2sh_spend:
  assumes E: "openssl_bn E"
    and spk: "scriptPubKey (vout txFrom ! unat (out_n (prevout (vin tx ! n)))) = p2sh h"
  shows "VerifySignature E txFrom tx n nType strict True v4 \<longleftrightarrow>
    unat (out_n (prevout (vin tx ! n))) < length (vout txFrom) \<and>
    out_hash (prevout (vin tx ! n)) = SerializeHash_tx E txFrom \<and>
    (\<exists>inner p opcode redeem st.
       scriptSig (vin tx ! n) = inner @ p \<and> IsPushOnly inner \<and>
       GetOp p = Some (opcode, redeem, []) \<and> opcode \<le> OP_16 \<and>
       push_run E (ops_of inner) [] = Some st \<and>
       length redeem \<le> MAX_SCRIPT_ELEMENT_SIZE \<and> opcode \<noteq> OP_RESERVED \<and>
       length st + 2 \<le> MAX_STACK_SIZE \<and>
       Hash160 E (pushed E opcode redeem) = h \<and> Hash160 E redeem = h \<and>
       accepts E (run_script E (script_ctx_of tx n 0 strict True v4) (behind_separator st redeem)))"
proof -
  have push: "IsPushOnly (scriptSig (vin tx ! n))"
    if "VerifyScriptP2SH E (scriptSig (vin tx ! n)) (p2sh h) tx n strict True v4"
    using that by (simp add: VerifyScriptP2SH_def Let_def split: if_split_asm)
  show ?thesis
    unfolding VerifySignature_def Let_def spk VerifyScriptP2SH_iff [OF E, symmetric]
    using push by auto
qed

lemma p2sh_spend_wit:
  "VerifySignature ref_ext (ex_prev (p2sh (Hash160 ref_ext (p2pk ex_key))))
     (ex_spend (p2sh (Hash160 ref_ext (p2pk ex_key))) (push_vch ex_sig @ push_vch (p2pk ex_key)))
     0 0 False True True"
  by (subst p2sh_spend [OF openssl_bn_ref, where h = "Hash160 ref_ext (p2pk ex_key)"])
    (simp only: ex_tx, simp only: ex_tx, rule conjI, simp, rule conjI, rule refl, rule ex_p2sh_inner)

text \<open>
  Repeating the last hash of an odd list does not change the Merkle root, so the root alone
  does not fix the transactions of a block: this is why CheckBlock must refuse blocks with
  a repeated transaction.
\<close>

theorem merkle_duplicate:
  assumes "odd (length hs)" "1 < length hs"
  shows "BuildMerkleTree E (hs @ [last hs]) = BuildMerkleTree E hs"
  using root_repeat [OF assms] by (simp add: BuildMerkleTree_root)

lemma merkle_duplicate_wit: "BuildMerkleTree ref_ext [1, 2, 3, 3] = BuildMerkleTree ref_ext [1, 2, 3]"
  using merkle_duplicate [of "[1, 2, 3]" ref_ext] by simp

text \<open>
  A switch of the tip is not undone: when a share is heavier than the tip, then seen from
  the new tip, at the same time, the old tip is not heavier, so two lines never take turns.
  A share that builds on the tip is taken without looking at its age, so there it has to be
  fresh.
\<close>

theorem tip_not_undone:
  assumes "grounded C rank" "level C" "\<forall>h e. Get C h = Some e \<longrightarrow> 0 \<le> bnOwnWork e"
    and "Get C (hashTip C) = Some et" "Get C c = Some ec" "c \<noteq> hashTip C" "parent_of et \<noteq> c"
    and "Heavier C c now = Some True"
    and "parent_of ec = hashTip C \<Longrightarrow> now - TIP_MAX_AGE \<le> int (unat (sh_nTime (share ec)))"
  shows "Heavier (C\<lparr>hashTip := c\<rparr>) (hashTip C) now = Some False"
  by (rule Heavier_not_undone [OF assms])

lemma tip_not_undone_wit: "Heavier (ex_fork\<lparr>hashTip := 3\<rparr>) 2 1789992000 = Some False"
  using tip_not_undone [OF ex_fork_grounded ex_fork_level, of "ex_at 1 [] 1 5" 3 "ex_at 1 [] 1 7" 1789992000]
  by (auto simp: ex_fork_heavier ex_fork_Get split: if_split_asm)

text \<open>
  The branch GetMerkleBranch cuts out of the flat vector of a block's Merkle tree, for any
  position, checks against the root BuildMerkleTree computed, whether the vector had been
  built before or not; and it has one hash per level.
\<close>

theorem merkle_complete:
  assumes "i < length hs" "cached = [] \<or> cached = merkle_tree E hs"
  shows "CheckMerkleBranch E (hs ! i) (GetMerkleBranch E cached hs i) (int i) = BuildMerkleTree E hs \<and>
    length (GetMerkleBranch E cached hs i) = depth (length hs)"
  using branch_checks [OF assms(1)]
  by (simp add: GetMerkleBranch_of [OF assms(2)] CheckMerkleBranch_nat BuildMerkleTree_root length_branch_of)

lemma merkle_complete_wit:
  "CheckMerkleBranch ref_ext 5 (GetMerkleBranch ref_ext [] [3, 4, 5] 2) 2 = BuildMerkleTree ref_ext [3, 4, 5]"
  using merkle_complete [of 2 "[3, 4, 5]" "[]" ref_ext] by simp

text \<open>
  GetNextWorkRequired has an answer exactly when the block is not at a retarget height or
  the chain is longer than the window it walks back; at height 29 of a chain whose tip is
  under rules v2 the window reaches past the genesis block and the assertion on the first
  block of the window aborts the node.
\<close>

theorem next_work_asserts:
  "(\<exists>bits. GetNextWorkRequired E N c = Some bits) \<longleftrightarrow>
    c = [] \<or> (nHeight (hd c) + 1) mod 30 \<noteq> 0 \<or>
    (if RulesV2Active N (unat (idx_nTime (hd c))) then 30 else 29) < length c"
  using GetNextWorkRequired_defined [of E N c] by (simp add: nWindow_value)

lemma next_work_asserts_wit:
  "\<not> (\<exists>bits. GetNextWorkRequired ref_ext ex_net (ex_entry\<lparr>nHeight := 29\<rparr> # replicate 29 ex_genesis) = Some bits)"
  unfolding next_work_asserts using ex_rules by (simp add: ex_entry_def)

text \<open>
  The time a window took is an unsigned difference: when the last block of a window is
  stamped earlier than the first, by at most 2^31 seconds, it wraps to a huge value, is
  clamped to the longest allowed time, and the next target is as easy as if the window had
  taken four times as long as planned, instead of as hard as if it had taken none.
\<close>

theorem work_time_wraps:
  assumes "(nHeight tip + 1) mod 30 = 0" "nWindow N tip < length (tip # c)"
    and "unat (idx_nTime tip) < unat (idx_nTime ((tip # c) ! nWindow N tip))"
    and "unat (idx_nTime ((tip # c) ! nWindow N tip)) \<le> unat (idx_nTime tip) + 2 ^ 31"
  shows "GetNextWorkRequired E N (tip # c) = Some (retarget E (unat (idx_nBits tip)) 14400)"
proof -
  define a where "a = idx_nTime tip"
  define b where "b = idx_nTime ((tip # c) ! nWindow N tip)"
  have ab: "unat a < unat b" "unat b \<le> unat a + 2 ^ 31" using assms(3,4) by (simp_all add: a_def b_def)
  have "unat (a - b) = unat a + 2 ^ 32 - unat b"
    using ab by (subst unat_sub_if') auto
  then have "14400 \<le> unat (a - b)" using ab by simp
  then show ?thesis
    using GetNextWorkRequired_boundary [OF assms(1,2)]
    by (simp add: a_def b_def limit_timespan_long)
qed

lemma work_time_wraps_wit:
  "GetNextWorkRequired ref_ext ex_net ex_backwards = Some (retarget ref_ext 0x1f0fffff 14400)"
  using work_time_wraps [of "ex_genesis\<lparr>nHeight := 29, idx_nTime := 1789980000\<rparr>" ex_net "replicate 30 ex_genesis" ref_ext]
  by (simp add: ex_backwards_def nWindow_value ex_genesis_def RulesV2Active_def RulesV2Time_def ex_net_def rule_times nth_Cons')

text \<open>
  EvalScript always returns: each step of its loop leaves strictly fewer bytes to run, so a
  script of n bytes is run in at most n steps, whatever the stack and the transaction.
\<close>

theorem script_terminates:
  "case ((\<lambda>x. Option.bind x (eval_step E cx)) ^^ k) (Some s) of
     None \<Rightarrow> True | Some s' \<Rightarrow> k + length (st_pc s') \<le> length (st_pc s)"
  using steps_bounded [of k E cx s] by (auto split: option.split)

text \<open>
  RescanSpentFlags changes nothing but the flags of what is spent, and only ever sets them:
  afterwards a coin is marked exactly if it was before or the transaction index says that
  an output of ours in it is spent. A second run corrects nothing.
\<close>

theorem rescan_marks:
  assumes "fmlookup W h = Some w"
  shows "(\<exists>w'. fmlookup (fst (RescanSpentFlags E K db W)) h = Some w' \<and> w'\<lparr>fSpent := fSpent w\<rparr> = w \<and>
    (fSpent w' \<longleftrightarrow> fSpent w \<or> (\<exists>e. ReadTxIndex db (tx_hash E w) = Some e \<and>
      (\<exists>i < length (vSpent e). i < length (vout (mtx w)) \<and> \<not> CDiskTxPos_IsNull (vSpent e ! i) \<and> Mine K (vout (mtx w) ! i))))) \<and>
    snd (RescanSpentFlags E K db (fst (RescanSpentFlags E K db W))) = 0"
  using RescanSpentFlags_ok [OF assms] by (simp add: RescanSpentFlags_twice)

lemma rescan_marks_wit:
  "\<exists>w'. fmlookup (fst (RescanSpentFlags sign_ext wx_keys (Map.empty) wx_wallet)) (SerializeHash_tx sign_ext wx_coin) = Some w' \<and> \<not> fSpent w'"
  using rescan_marks [of wx_wallet "SerializeHash_tx sign_ext wx_coin" "(new_CWalletTx wx_coin)\<lparr>fFromMe := True\<rparr>" sign_ext wx_keys Map.empty]
  by (auto simp: wx_lookup ReadTxIndex_def)

end
